(* ===== verification/JS_Prelude.thy ===== *)
theory JS_Prelude
  imports Complex_Main "HOL-Library.Multiset" "HOL-Library.Word"
begin

text \<open>
  The fragment of JavaScript that the models of this development share: numbers with
  \<open>NaN\<close> and the infinities, the primitive values, the relational operators, \<open>ToNumber\<close>,
  strings as lists of code units, arrays with reads that yield \<open>undefined\<close> out of range,
  and \<open>Array.prototype.sort\<close>.

  Finite numbers are exact reals: rounding of IEEE doubles and the sign of zero are not
  part of the model.  A string is a list of code units below 256 (\<open>char\<close>).
\<close>

named_theorems js_defs \<open>definitions of the JavaScript operators, for evaluation\<close>

section \<open>Numbers\<close>

datatype jsnum = NaN | PInf | NInf | Fin real

fun js_neg :: "jsnum \<Rightarrow> jsnum" where
  "js_neg (Fin x) = Fin (- x)"
| "js_neg PInf = NInf"
| "js_neg NInf = PInf"
| "js_neg NaN = NaN"

fun js_add :: "jsnum \<Rightarrow> jsnum \<Rightarrow> jsnum" where
  "js_add (Fin x) (Fin y) = Fin (x + y)"
| "js_add NaN y = NaN"
| "js_add x NaN = NaN"
| "js_add PInf NInf = NaN"
| "js_add NInf PInf = NaN"
| "js_add PInf y = PInf"
| "js_add NInf y = NInf"
| "js_add x PInf = PInf"
| "js_add x NInf = NInf"

definition js_sub :: "jsnum \<Rightarrow> jsnum \<Rightarrow> jsnum" where
  "js_sub x y = js_add x (js_neg y)"

definition js_inf :: "real \<Rightarrow> jsnum" where
  "js_inf s = (if s > 0 then PInf else if s < 0 then NInf else NaN)"

fun js_mul :: "jsnum \<Rightarrow> jsnum \<Rightarrow> jsnum" where
  "js_mul (Fin x) (Fin y) = Fin (x * y)"
| "js_mul NaN y = NaN"
| "js_mul x NaN = NaN"
| "js_mul PInf PInf = PInf"
| "js_mul PInf NInf = NInf"
| "js_mul NInf PInf = NInf"
| "js_mul NInf NInf = PInf"
| "js_mul (Fin x) PInf = js_inf x"
| "js_mul (Fin x) NInf = js_inf (- x)"
| "js_mul PInf (Fin y) = js_inf y"
| "js_mul NInf (Fin y) = js_inf (- y)"

fun js_div :: "jsnum \<Rightarrow> jsnum \<Rightarrow> jsnum" where
  "js_div (Fin x) (Fin y) = (if y = 0 then js_inf x else Fin (x / y))"
| "js_div NaN y = NaN"
| "js_div x NaN = NaN"
| "js_div (Fin x) PInf = Fin 0"
| "js_div (Fin x) NInf = Fin 0"
| "js_div PInf (Fin y) = (if y < 0 then NInf else PInf)"
| "js_div NInf (Fin y) = (if y < 0 then PInf else NInf)"
| "js_div x y = NaN"

fun num_lt :: "jsnum \<Rightarrow> jsnum \<Rightarrow> bool" where
  "num_lt (Fin x) (Fin y) \<longleftrightarrow> x < y"
| "num_lt NaN y \<longleftrightarrow> False"
| "num_lt x NaN \<longleftrightarrow> False"
| "num_lt NInf NInf \<longleftrightarrow> False"
| "num_lt NInf y \<longleftrightarrow> True"
| "num_lt PInf y \<longleftrightarrow> False"
| "num_lt x PInf \<longleftrightarrow> True"
| "num_lt x NInf \<longleftrightarrow> False"

fun num_le :: "jsnum \<Rightarrow> jsnum \<Rightarrow> bool" where
  "num_le NaN y \<longleftrightarrow> False"
| "num_le x NaN \<longleftrightarrow> False"
| "num_le x y \<longleftrightarrow> x = y \<or> num_lt x y"

lemma js_sub_Fin [simp]: "js_sub (Fin x) (Fin y) = Fin (x - y)"
  by (simp add: js_sub_def)

lemma num_le_Fin [simp]: "num_le (Fin x) (Fin y) \<longleftrightarrow> x \<le> y"
  by auto

lemma num_lt_irrefl [simp]: "\<not> num_lt x x"
  by (cases x) auto

lemma num_lt_NaN [simp]: "\<not> num_lt x NaN"
  by (cases x) auto

lemma num_lt_trans: "num_lt x y \<Longrightarrow> num_lt y z \<Longrightarrow> num_lt x z"
  by (cases x; cases y; cases z) auto

lemma num_lt_total: "x \<noteq> NaN \<Longrightarrow> y \<noteq> NaN \<Longrightarrow> num_lt x y \<or> x = y \<or> num_lt y x"
  by (cases x; cases y) auto

lemma num_le_iff: "num_le x y \<longleftrightarrow> x \<noteq> NaN \<and> y \<noteq> NaN \<and> (x = y \<or> num_lt x y)"
  by (cases x; cases y) auto

lemma num_le_not_lt: "x \<noteq> NaN \<Longrightarrow> y \<noteq> NaN \<Longrightarrow> num_le x y \<longleftrightarrow> \<not> num_lt y x"
  by (cases x; cases y) auto

lemma num_le_trans: "num_le x y \<Longrightarrow> num_le y z \<Longrightarrow> num_le x z"
  by (cases x; cases y; cases z) auto

text \<open>The remainder takes the sign of the dividend; \<open>Math.min\<close> and \<open>Math.max\<close> propagate \<open>NaN\<close>.\<close>

fun js_rem :: "jsnum \<Rightarrow> jsnum \<Rightarrow> jsnum" where
  "js_rem (Fin x) (Fin y) =
     (if y = 0 then NaN else Fin (x - y * of_int (if x / y < 0 then \<lceil>x / y\<rceil> else \<lfloor>x / y\<rfloor>)))"
| "js_rem (Fin x) PInf = Fin x"
| "js_rem (Fin x) NInf = Fin x"
| "js_rem x y = NaN"

definition js_min2 :: "jsnum \<Rightarrow> jsnum \<Rightarrow> jsnum" where
  "js_min2 x y = (if x = NaN \<or> y = NaN then NaN else if num_lt y x then y else x)"

definition js_max2 :: "jsnum \<Rightarrow> jsnum \<Rightarrow> jsnum" where
  "js_max2 x y = (if x = NaN \<or> y = NaN then NaN else if num_lt x y then y else x)"

fun js_floorn :: "jsnum \<Rightarrow> jsnum" where
  "js_floorn (Fin x) = Fin (of_int \<lfloor>x\<rfloor>)"
| "js_floorn x = x"

fun js_ceiln :: "jsnum \<Rightarrow> jsnum" where
  "js_ceiln (Fin x) = Fin (of_int \<lceil>x\<rceil>)"
| "js_ceiln x = x"

fun js_roundn :: "jsnum \<Rightarrow> jsnum" where
  "js_roundn (Fin x) = Fin (of_int \<lfloor>x + 1 / 2\<rfloor>)"
| "js_roundn x = x"

text \<open>\<open>ToInt32\<close>, as in \<open>x | 0\<close> and \<open>~~x\<close>: truncation, then reduction to 32 bits.\<close>

definition to_int32 :: "real \<Rightarrow> int" where
  "to_int32 x = (let n = (if x < 0 then \<lceil>x\<rceil> else \<lfloor>x\<rfloor>) mod 2 ^ 32
     in if n \<ge> 2 ^ 31 then n - 2 ^ 32 else n)"

fun js_int32 :: "jsnum \<Rightarrow> jsnum" where
  "js_int32 (Fin x) = Fin (of_int (to_int32 x))"
| "js_int32 x = Fin 0"

section \<open>Strings\<close>

type_synonym code_unit = nat

definition charCode :: "char \<Rightarrow> code_unit" where
  "charCode c = of_char c"

fun str_lt :: "string \<Rightarrow> string \<Rightarrow> bool" where
  "str_lt s [] \<longleftrightarrow> False"
| "str_lt [] (d # t) \<longleftrightarrow> True"
| "str_lt (c # s) (d # t) \<longleftrightarrow> charCode c < charCode d \<or> (c = d \<and> str_lt s t)"

lemma charCode_inject [simp]: "charCode c = charCode d \<longleftrightarrow> c = d"
  by (simp add: charCode_def)

lemma str_lt_irrefl [simp]: "\<not> str_lt s s"
  by (induction s) auto

lemma str_lt_trans: "str_lt s t \<Longrightarrow> str_lt t u \<Longrightarrow> str_lt s u"
proof (induction s t arbitrary: u rule: str_lt.induct)
  case (2 d t)
  then show ?case by (cases u) auto
next
  case (3 c s d t)
  then show ?case by (cases u) auto
qed simp

lemma str_lt_total: "str_lt s t \<or> s = t \<or> str_lt t s"
proof (induction s t rule: str_lt.induct)
  case (1 s)
  then show ?case by (cases s) auto
next
  case (3 c s d t)
  then show ?case by (metis charCode_inject linorder_less_linear str_lt.simps(3))
qed simp

definition is_digit :: "char \<Rightarrow> bool" where
  "is_digit c \<longleftrightarrow> 48 \<le> charCode c \<and> charCode c \<le> 57"

definition digit_val :: "char \<Rightarrow> nat" where
  "digit_val c = charCode c - 48"

definition hex_val :: "char \<Rightarrow> nat option" where
  "hex_val c = (let n = charCode c in
     if 48 \<le> n \<and> n \<le> 57 then Some (n - 48)
     else if 97 \<le> n \<and> n \<le> 102 then Some (n - 87)
     else if 65 \<le> n \<and> n \<le> 70 then Some (n - 55)
     else None)"

definition dec_val :: "string \<Rightarrow> nat" where
  "dec_val ds = foldl (\<lambda>n d. 10 * n + digit_val d) 0 ds"

definition is_ws :: "char \<Rightarrow> bool" where
  "is_ws c \<longleftrightarrow> charCode c \<in> {9, 10, 11, 12, 13, 32, 160}"

definition js_trim :: "string \<Rightarrow> string" where
  "js_trim s = rev (dropWhile is_ws (rev (dropWhile is_ws s)))"

definition exponent_part :: "string \<Rightarrow> int option" where
  "exponent_part s = (case s of
     [] \<Rightarrow> Some 0
   | e # r \<Rightarrow>
       if e \<noteq> CHR ''e'' \<and> e \<noteq> CHR ''E'' then None
       else let sg = (if r \<noteq> [] \<and> hd r = CHR ''-'' then - 1 else 1);
                ds = (if r \<noteq> [] \<and> (hd r = CHR ''-'' \<or> hd r = CHR ''+'') then tl r else r)
            in if ds \<noteq> [] \<and> list_all is_digit ds then Some (sg * int (dec_val ds)) else None)"

definition unsigned_decimal :: "string \<Rightarrow> jsnum" where
  "unsigned_decimal s =
     (if s = ''Infinity'' then PInf
      else let ip = takeWhile is_digit s; r = dropWhile is_digit s;
               dot = (r \<noteq> [] \<and> hd r = CHR ''.'');
               fp = (if dot then takeWhile is_digit (tl r) else []);
               r2 = (if dot then dropWhile is_digit (tl r) else r)
           in if ip = [] \<and> fp = [] then NaN
              else case exponent_part r2 of
                     None \<Rightarrow> NaN
                   | Some e \<Rightarrow> Fin (real (dec_val (ip @ fp)) * 10 powi (e - int (length fp))))"

fun hex_number :: "nat \<Rightarrow> string \<Rightarrow> jsnum" where
  "hex_number n [] = Fin (real n)"
| "hex_number n (c # s) = (case hex_val c of None \<Rightarrow> NaN | Some d \<Rightarrow> hex_number (16 * n + d) s)"

definition string_to_number :: "string \<Rightarrow> jsnum" where
  "string_to_number s0 = (let s = js_trim s0 in
     case s of
       [] \<Rightarrow> Fin 0
     | c # r \<Rightarrow>
         if c = CHR ''-'' then js_neg (unsigned_decimal r)
         else if c = CHR ''+'' then unsigned_decimal r
         else if c = CHR ''0'' \<and> length r \<ge> 2 \<and> (hd r = CHR ''x'' \<or> hd r = CHR ''X'')
           then hex_number 0 (tl r)
         else unsigned_decimal s)"

text \<open>\<open>parseFloat\<close> reads the longest prefix that is a number; \<open>parseInt(s, 16)\<close> the longest run of digits.\<close>

definition exponent_prefix :: "string \<Rightarrow> int" where
  "exponent_prefix s = (case s of
     [] \<Rightarrow> 0
   | e # r \<Rightarrow>
       if e \<noteq> CHR ''e'' \<and> e \<noteq> CHR ''E'' then 0
       else let sg = (if r \<noteq> [] \<and> hd r = CHR ''-'' then - 1 else 1);
                ds = takeWhile is_digit (if r \<noteq> [] \<and> (hd r = CHR ''-'' \<or> hd r = CHR ''+'') then tl r else r)
            in if ds \<noteq> [] then sg * int (dec_val ds) else 0)"

definition unsigned_prefix :: "string \<Rightarrow> jsnum" where
  "unsigned_prefix s =
     (if take 8 s = ''Infinity'' then PInf
      else let ip = takeWhile is_digit s; r = dropWhile is_digit s;
               dot = (r \<noteq> [] \<and> hd r = CHR ''.'');
               fp = (if dot then takeWhile is_digit (tl r) else []);
               r2 = (if dot then dropWhile is_digit (tl r) else r)
           in if ip = [] \<and> fp = [] then NaN
              else Fin (real (dec_val (ip @ fp)) * 10 powi (exponent_prefix r2 - int (length fp))))"

definition js_parseFloat :: "string \<Rightarrow> jsnum" where
  "js_parseFloat s0 = (let s = dropWhile is_ws s0 in
     case s of
       [] \<Rightarrow> NaN
     | c # r \<Rightarrow>
         if c = CHR ''-'' then js_neg (unsigned_prefix r)
         else if c = CHR ''+'' then unsigned_prefix r
         else unsigned_prefix s)"

fun hex_prefix :: "nat \<Rightarrow> string \<Rightarrow> nat" where
  "hex_prefix n [] = n"
| "hex_prefix n (c # s) = (case hex_val c of None \<Rightarrow> n | Some d \<Rightarrow> hex_prefix (16 * n + d) s)"

definition unsigned_hex :: "string \<Rightarrow> jsnum" where
  "unsigned_hex s0 =
     (let s = (if length s0 \<ge> 2 \<and> hd s0 = CHR ''0'' \<and> (s0 ! 1 = CHR ''x'' \<or> s0 ! 1 = CHR ''X'') then drop 2 s0 else s0)
      in if s \<noteq> [] \<and> hex_val (hd s) \<noteq> None then Fin (real (hex_prefix 0 s)) else NaN)"

definition js_parseInt16 :: "string \<Rightarrow> jsnum" where
  "js_parseInt16 s0 = (let s = dropWhile is_ws s0 in
     case s of
       [] \<Rightarrow> NaN
     | c # r \<Rightarrow>
         if c = CHR ''-'' then js_neg (unsigned_hex r)
         else if c = CHR ''+'' then unsigned_hex r
         else unsigned_hex s)"

text \<open>\<open>s.split(c)\<close> for a separator of one code unit.\<close>

fun js_split :: "char \<Rightarrow> string \<Rightarrow> string list" where
  "js_split c [] = [[]]"
| "js_split c (x # xs) =
     (if x = c then [] # js_split c xs
      else case js_split c xs of [] \<Rightarrow> [[x]] | w # ws \<Rightarrow> (x # w) # ws)"

text \<open>The text of a non-negative integer in base 16 and in base 10.\<close>

definition digit_char :: "nat \<Rightarrow> char" where
  "digit_char d = (if d < 10 then char_of (48 + d) else char_of (87 + d))"

fun base_digits :: "nat \<Rightarrow> nat \<Rightarrow> string" where
  "base_digits b n = (if b < 2 \<or> n < b then [digit_char n] else base_digits b (n div b) @ [digit_char (n mod b)])"

declare base_digits.simps [simp del]

section \<open>Primitive values\<close>

datatype jsval = JUndef | JNull | JBool bool | JNum jsnum | JStr string

fun to_number :: "jsval \<Rightarrow> jsnum" where
  "to_number JUndef = NaN"
| "to_number JNull = Fin 0"
| "to_number (JBool b) = Fin (if b then 1 else 0)"
| "to_number (JNum n) = n"
| "to_number (JStr s) = string_to_number s"

fun js_lt :: "jsval \<Rightarrow> jsval \<Rightarrow> bool" where
  "js_lt (JStr s) (JStr t) = str_lt s t"
| "js_lt a b = num_lt (to_number a) (to_number b)"

fun js_le :: "jsval \<Rightarrow> jsval \<Rightarrow> bool" where
  "js_le (JStr s) (JStr t) = (\<not> str_lt t s)"
| "js_le a b = num_le (to_number a) (to_number b)"

abbreviation js_gt :: "jsval \<Rightarrow> jsval \<Rightarrow> bool" where
  "js_gt a b \<equiv> js_lt b a"

abbreviation js_ge :: "jsval \<Rightarrow> jsval \<Rightarrow> bool" where
  "js_ge a b \<equiv> js_le b a"

text \<open>\<open>v == null\<close>, true of \<open>undefined\<close> and \<open>null\<close> only, and the global \<open>isNaN\<close>.\<close>

fun js_nullish :: "jsval \<Rightarrow> bool" where
  "js_nullish JUndef = True"
| "js_nullish JNull = True"
| "js_nullish _ = False"

definition js_isNaN :: "jsval \<Rightarrow> bool" where
  "js_isNaN v \<longleftrightarrow> to_number v = NaN"

lemma js_lt_irrefl [simp]: "\<not> js_lt a a"
  by (cases a) auto

lemma js_lt_imp_num: "js_lt a b \<Longrightarrow> \<not> (\<exists>s. a = JStr s) \<or> \<not> (\<exists>s. b = JStr s) \<Longrightarrow>
    num_lt (to_number a) (to_number b)"
  by (cases a; cases b) auto

section \<open>Arrays\<close>

text \<open>Reading \<open>a[i]\<close>: \<open>None\<close> stands for the \<open>undefined\<close> of an index out of range.\<close>

definition js_get :: "'a list \<Rightarrow> nat \<Rightarrow> 'a option" where
  "js_get a i = (if i < length a then Some (a ! i) else None)"

definition js_val :: "jsval option \<Rightarrow> jsval" where
  "js_val v = (case v of None \<Rightarrow> JUndef | Some w \<Rightarrow> w)"

lemma js_get_lt [simp]: "i < length a \<Longrightarrow> js_get a i = Some (a ! i)"
  by (simp add: js_get_def)

lemma js_get_ge [simp]: "length a \<le> i \<Longrightarrow> js_get a i = None"
  by (simp add: js_get_def)

lemma js_val_simps [simp]: "js_val None = JUndef" "js_val (Some v) = v"
  by (simp_all add: js_val_def)

text \<open>
  \<open>Array.prototype.sort\<close> with a comparison function: a stable insertion sort, which is the
  result the language prescribes for a consistent comparison (a \<open>NaN\<close> result counts as \<open>0\<close>).
\<close>

definition cmp_pos :: "jsnum \<Rightarrow> bool" where
  "cmp_pos v \<longleftrightarrow> num_lt (Fin 0) v"

fun js_insort :: "('a \<Rightarrow> 'a \<Rightarrow> jsnum) \<Rightarrow> 'a \<Rightarrow> 'a list \<Rightarrow> 'a list" where
  "js_insort cmp x [] = [x]"
| "js_insort cmp x (y # ys) = (if cmp_pos (cmp x y) then y # js_insort cmp x ys else x # y # ys)"

fun js_sort :: "('a \<Rightarrow> 'a \<Rightarrow> jsnum) \<Rightarrow> 'a list \<Rightarrow> 'a list" where
  "js_sort cmp [] = []"
| "js_sort cmp (x # xs) = js_insort cmp x (js_sort cmp xs)"

lemma cmp_pos_simps [simp]: "cmp_pos (Fin x) \<longleftrightarrow> 0 < x" "\<not> cmp_pos NaN"
  by (simp_all add: cmp_pos_def)

lemma mset_js_insort [simp]: "mset (js_insort cmp x ys) = add_mset x (mset ys)"
  by (induction ys) auto

lemma mset_js_sort [simp]: "mset (js_sort cmp xs) = mset xs"
  by (induction xs) auto

lemma set_js_sort [simp]: "set (js_sort cmp xs) = set xs"
  by (metis mset_js_sort set_mset_mset)

lemma length_js_sort [simp]: "length (js_sort cmp xs) = length xs"
  by (metis mset_js_sort size_mset)

text \<open>
  What a caller of \<open>sort\<close> owes: on the values it sorts, the comparison is a total preorder.
\<close>

locale comparator =
  fixes cmp :: "'a \<Rightarrow> 'a \<Rightarrow> jsnum" and D :: "'a set"
  assumes cmp_asym: "x \<in> D \<Longrightarrow> y \<in> D \<Longrightarrow> cmp_pos (cmp x y) \<Longrightarrow> \<not> cmp_pos (cmp y x)"
    and cmp_trans: "x \<in> D \<Longrightarrow> y \<in> D \<Longrightarrow> z \<in> D \<Longrightarrow>
      \<not> cmp_pos (cmp x y) \<Longrightarrow> \<not> cmp_pos (cmp y z) \<Longrightarrow> \<not> cmp_pos (cmp x z)"
begin

lemma sorted_js_insort:
  assumes "x \<in> D" "set ys \<subseteq> D" "sorted_wrt (\<lambda>a b. \<not> cmp_pos (cmp a b)) ys"
  shows "sorted_wrt (\<lambda>a b. \<not> cmp_pos (cmp a b)) (js_insort cmp x ys)"
  using assms
proof (induction ys)
  case (Cons y ys)
  have set_ins: "set (js_insort cmp x ys) = insert x (set ys)"
    by (metis mset_js_insort set_mset_add_mset_insert set_mset_mset)
  show ?case
  proof (cases "cmp_pos (cmp x y)")
    case True
    then have "\<not> cmp_pos (cmp y x)" using Cons.prems cmp_asym by auto
    with True Cons show ?thesis by (auto simp: set_ins)
  next
    case False
    have "\<not> cmp_pos (cmp x b)" if "b \<in> set ys" for b
      using cmp_trans [of x y b] False that Cons.prems by auto
    with False Cons.prems show ?thesis by simp
  qed
qed simp

lemma sorted_js_sort:
  "set xs \<subseteq> D \<Longrightarrow> sorted_wrt (\<lambda>a b. \<not> cmp_pos (cmp a b)) (js_sort cmp xs)"
  by (induction xs) (auto intro!: sorted_js_insort)

end

end
