(* ===== verification/D3_Statistics.thy ===== *)
theory D3_Statistics
  imports JS_Prelude
begin

text \<open>
  Order and summary statistics of arrays (\<open>d3.js\<close> lines 35 to 136): \<open>d3.ascending\<close>,
  \<open>d3.descending\<close>, \<open>d3.min\<close>, \<open>d3.max\<close>, \<open>d3.extent\<close>, \<open>d3.sum\<close>, \<open>d3.mean\<close>, \<open>d3.quantile\<close>,
  \<open>d3.median\<close> and \<open>d3.bisector\<close>.  An array of primitive values is a \<open>jsval list\<close>; the variant
  with an accessor \<open>f\<close> takes the element and its index.  The bisection loop keeps the
  unsigned 32-bit shift of the source and so may run forever on huge bounds; it is a
  \<open>partial_function\<close>.
\<close>

section \<open>Comparison functions\<close>

definition d3_ascending :: "jsval \<Rightarrow> jsval \<Rightarrow> jsnum" where
  "d3_ascending a b =
     (if js_lt a b then Fin (-1) else if js_gt a b then Fin 1 else if js_ge a b then Fin 0 else NaN)"

definition d3_descending :: "jsval \<Rightarrow> jsval \<Rightarrow> jsnum" where
  "d3_descending a b =
     (if js_lt b a then Fin (-1) else if js_gt b a then Fin 1 else if js_ge b a then Fin 0 else NaN)"

section \<open>Minimum, maximum and extent\<close>

definition accessed :: "('a \<Rightarrow> nat \<Rightarrow> jsval) \<Rightarrow> 'a list \<Rightarrow> jsval list" where
  "accessed f array = map (\<lambda>(i, x). f x i) (enumerate 0 array)"

definition js_valid :: "jsval \<Rightarrow> bool" where
  "js_valid a \<longleftrightarrow> \<not> js_nullish a \<and> js_le a a"

text \<open>The first loop: advance to the first value that is neither null nor \<open>NaN\<close>.\<close>

fun skip_invalid :: "jsval list \<Rightarrow> jsval \<times> jsval list" where
  "skip_invalid [] = (JUndef, [])"
| "skip_invalid (a # as) = (if js_valid a then (a, as) else skip_invalid as)"

fun min_scan :: "jsval \<Rightarrow> jsval list \<Rightarrow> jsval" where
  "min_scan a [] = a"
| "min_scan a (b # bs) = min_scan (if \<not> js_nullish b \<and> js_gt a b then b else a) bs"

fun max_scan :: "jsval \<Rightarrow> jsval list \<Rightarrow> jsval" where
  "max_scan a [] = a"
| "max_scan a (b # bs) = max_scan (if \<not> js_nullish b \<and> js_gt b a then b else a) bs"

definition d3_min :: "jsval list \<Rightarrow> jsval" where
  "d3_min array = (let (a, rest) = skip_invalid array in min_scan a rest)"

definition d3_min_by :: "('a \<Rightarrow> nat \<Rightarrow> jsval) \<Rightarrow> 'a list \<Rightarrow> jsval" where
  "d3_min_by f array = (let (a, rest) = skip_invalid (accessed f array) in min_scan a rest)"

definition d3_max :: "jsval list \<Rightarrow> jsval" where
  "d3_max array = (let (a, rest) = skip_invalid array in max_scan a rest)"

definition d3_max_by :: "('a \<Rightarrow> nat \<Rightarrow> jsval) \<Rightarrow> 'a list \<Rightarrow> jsval" where
  "d3_max_by f array = (let (a, rest) = skip_invalid (accessed f array) in max_scan a rest)"

fun extent_scan :: "jsval \<times> jsval \<Rightarrow> jsval list \<Rightarrow> jsval \<times> jsval" where
  "extent_scan (a, c) [] = (a, c)"
| "extent_scan (a, c) (b # bs) =
     (if js_nullish b then extent_scan (a, c) bs
      else extent_scan (if js_gt a b then b else a, if js_lt c b then b else c) bs)"

definition d3_extent :: "jsval list \<Rightarrow> jsval \<times> jsval" where
  "d3_extent array = (let (a, rest) = skip_invalid array in extent_scan (a, a) rest)"

text \<open>
  In the accessor branch the first loop resets only \<open>a\<close>; \<open>c\<close> keeps the last value read.
\<close>

fun skip_invalid2 :: "jsval \<times> jsval \<Rightarrow> jsval list \<Rightarrow> (jsval \<times> jsval) \<times> jsval list" where
  "skip_invalid2 (a, c) [] = ((a, c), [])"
| "skip_invalid2 (a, c) (b # bs) =
     (if js_valid b then ((b, b), bs) else skip_invalid2 (JUndef, b) bs)"

definition d3_extent_by :: "('a \<Rightarrow> nat \<Rightarrow> jsval) \<Rightarrow> 'a list \<Rightarrow> jsval \<times> jsval" where
  "d3_extent_by f array =
     (let (ac, rest) = skip_invalid2 (JUndef, JUndef) (accessed f array) in extent_scan ac rest)"

section \<open>Sum, mean, quantile and median\<close>

fun sum_scan :: "jsnum \<Rightarrow> jsval list \<Rightarrow> jsnum" where
  "sum_scan s [] = s"
| "sum_scan s (b # bs) =
     (let a = to_number b in sum_scan (if a \<noteq> NaN then js_add s a else s) bs)"

definition d3_sum :: "jsval list \<Rightarrow> jsnum" where
  "d3_sum array = sum_scan (Fin 0) array"

definition d3_sum_by :: "('a \<Rightarrow> nat \<Rightarrow> jsval) \<Rightarrow> 'a list \<Rightarrow> jsnum" where
  "d3_sum_by f array = sum_scan (Fin 0) (accessed f array)"

definition d3_number :: "jsval \<Rightarrow> bool" where
  "d3_number x \<longleftrightarrow> \<not> js_nullish x \<and> \<not> js_isNaN x"

fun mean_scan :: "jsnum \<Rightarrow> nat \<Rightarrow> jsval list \<Rightarrow> jsnum \<times> nat" where
  "mean_scan m j [] = (m, j)"
| "mean_scan m j (a # as) =
     (if d3_number a
      then mean_scan (js_add m (js_div (js_sub (to_number a) m) (Fin (real (Suc j))))) (Suc j) as
      else mean_scan m j as)"

definition d3_mean :: "jsval list \<Rightarrow> jsval" where
  "d3_mean array = (let (m, j) = mean_scan (Fin 0) 0 array in if j \<noteq> 0 then JNum m else JUndef)"

definition d3_mean_by :: "('a \<Rightarrow> nat \<Rightarrow> jsval) \<Rightarrow> 'a list \<Rightarrow> jsval" where
  "d3_mean_by f array = (let (m, j) = mean_scan (Fin 0) 0 (accessed f array)
     in if j \<noteq> 0 then JNum m else JUndef)"

text \<open>An array read at an integer index that may be negative.\<close>

definition js_at :: "jsval list \<Rightarrow> int \<Rightarrow> jsval" where
  "js_at a i = (if 0 \<le> i then js_val (js_get a (nat i)) else JUndef)"

definition d3_quantile :: "jsval list \<Rightarrow> real \<Rightarrow> jsnum" where
  "d3_quantile values p =
     (let H = (real (length values) - 1) * p + 1; h = \<lfloor>H\<rfloor>;
          v = to_number (js_at values (h - 1)); e = H - of_int h
      in if e \<noteq> 0
         then js_add v (js_mul (Fin e) (js_sub (to_number (js_at values h)) v))
         else v)"

definition d3_median :: "jsval list \<Rightarrow> jsval" where
  "d3_median array =
     (let a = filter d3_number array
      in if a \<noteq> [] then JNum (d3_quantile (js_sort d3_ascending a) (1 / 2)) else JUndef)"

definition d3_median_by :: "('a \<Rightarrow> nat \<Rightarrow> jsval) \<Rightarrow> 'a list \<Rightarrow> jsval" where
  "d3_median_by f array = d3_median (accessed f array)"

section \<open>Bisection\<close>

text \<open>\<open>lo + hi >>> 1\<close>: the sum is taken modulo \<open>2 ^ 32\<close> before the shift.\<close>

definition bisect_mid :: "nat \<Rightarrow> nat \<Rightarrow> nat" where
  "bisect_mid lo hi = ((lo + hi) mod 2 ^ 32) div 2"

partial_function (option) bisect_left ::
  "('a option \<Rightarrow> nat \<Rightarrow> jsval) \<Rightarrow> 'a list \<Rightarrow> jsval \<Rightarrow> nat \<Rightarrow> nat \<Rightarrow> nat option" where
  "bisect_left f a x lo hi =
     (if lo < hi then
        (let mid = bisect_mid lo hi
         in if js_lt (f (js_get a mid) mid) x then bisect_left f a x (mid + 1) hi
            else bisect_left f a x lo mid)
      else Some lo)"

partial_function (option) bisect_right ::
  "('a option \<Rightarrow> nat \<Rightarrow> jsval) \<Rightarrow> 'a list \<Rightarrow> jsval \<Rightarrow> nat \<Rightarrow> nat \<Rightarrow> nat option" where
  "bisect_right f a x lo hi =
     (if lo < hi then
        (let mid = bisect_mid lo hi
         in if js_lt x (f (js_get a mid) mid) then bisect_right f a x lo mid
            else bisect_right f a x (mid + 1) hi)
      else Some lo)"

text \<open>\<open>d3.bisectLeft\<close> and \<open>d3.bisectRight\<close> with the default bounds and the identity accessor.\<close>

definition d3_bisectLeft :: "jsval list \<Rightarrow> jsval \<Rightarrow> nat option" where
  "d3_bisectLeft a x = bisect_left (\<lambda>d i. js_val d) a x 0 (length a)"

definition d3_bisectRight :: "jsval list \<Rightarrow> jsval \<Rightarrow> nat option" where
  "d3_bisectRight a x = bisect_right (\<lambda>d i. js_val d) a x 0 (length a)"

section \<open>Arrays on which the relational operators order the values\<close>

text \<open>
  JavaScript's \<open><\<close> is no order across strings and numbers.  The laws that the scans rely on
  hold on the numeric values (with \<open>NaN\<close>, null and undefined among them) and on the strings.
\<close>

locale js_ordered =
  fixes S :: "jsval set"
  assumes lt_trans: "a \<in> S \<Longrightarrow> b \<in> S \<Longrightarrow> c \<in> S \<Longrightarrow> js_valid a \<Longrightarrow> js_valid b \<Longrightarrow> js_valid c \<Longrightarrow>
      js_lt a b \<Longrightarrow> js_lt b c \<Longrightarrow> js_lt a c"
    and le_not_lt: "a \<in> S \<Longrightarrow> b \<in> S \<Longrightarrow> js_valid a \<Longrightarrow> js_valid b \<Longrightarrow> js_le a b \<longleftrightarrow> \<not> js_lt b a"
    and lt_valid: "a \<in> S \<Longrightarrow> b \<in> S \<Longrightarrow> js_valid a \<Longrightarrow> \<not> js_nullish b \<Longrightarrow>
      js_lt a b \<or> js_lt b a \<Longrightarrow> js_valid b"
    and lt_not_trans: "a \<in> S \<Longrightarrow> b \<in> S \<Longrightarrow> c \<in> S \<Longrightarrow> js_valid a \<Longrightarrow> js_valid b \<Longrightarrow> js_valid c \<Longrightarrow>
      js_lt a c \<Longrightarrow> js_lt a b \<or> js_lt b c"
begin

lemma le_trans:
  assumes "a \<in> S" "b \<in> S" "c \<in> S" "js_valid a" "js_valid b" "js_valid c" "js_le a b" "js_le b c"
  shows "js_le a c"
  using assms le_not_lt lt_not_trans [of c b a] by auto

lemma lt_imp_le: "a \<in> S \<Longrightarrow> b \<in> S \<Longrightarrow> js_valid a \<Longrightarrow> js_valid b \<Longrightarrow> js_lt a b \<Longrightarrow> js_le a b"
  using le_not_lt lt_trans [of a b a] by auto

lemma min_scan_least:
  assumes "a \<in> S" "set bs \<subseteq> S" "js_valid a"
  shows "min_scan a bs \<in> set (a # bs) \<and> js_valid (min_scan a bs) \<and> js_le (min_scan a bs) a \<and>
     (\<forall>b \<in> set bs. js_valid b \<longrightarrow> js_le (min_scan a bs) b)"
  using assms
proof (induction bs arbitrary: a)
  case Nil
  then show ?case by (simp add: js_valid_def)
next
  case (Cons b bs)
  let ?a = "if \<not> js_nullish b \<and> js_gt a b then b else a"
  have b: "b \<in> S" using Cons.prems by simp
  have a': "?a \<in> S" "js_valid ?a" using Cons.prems lt_valid [of a b] by auto
  have ab: "js_valid b \<Longrightarrow> js_le ?a b"
    using le_not_lt [of a b] Cons.prems by (auto simp: js_valid_def)
  have aa: "js_le ?a a"
    using lt_imp_le [of b a] a' Cons.prems b by (auto simp: js_valid_def split: if_splits)
  have IH: "min_scan ?a bs \<in> set (?a # bs) \<and> js_valid (min_scan ?a bs) \<and> js_le (min_scan ?a bs) ?a \<and>
     (\<forall>b \<in> set bs. js_valid b \<longrightarrow> js_le (min_scan ?a bs) b)"
    using Cons.IH [of ?a] a' Cons.prems by auto
  have r: "min_scan ?a bs \<in> S" using IH a' Cons.prems by auto
  have "js_le (min_scan ?a bs) a"
    using le_trans [OF r a'(1) Cons.prems(1)] IH a' aa Cons.prems(3) by blast
  moreover have "js_valid b \<Longrightarrow> js_le (min_scan ?a bs) b"
    using le_trans [OF r a'(1) b] IH a' ab by blast
  ultimately show ?case using IH by (auto split: if_splits)
qed

lemma max_scan_greatest:
  assumes "a \<in> S" "set bs \<subseteq> S" "js_valid a"
  shows "max_scan a bs \<in> set (a # bs) \<and> js_valid (max_scan a bs) \<and> js_le a (max_scan a bs) \<and>
     (\<forall>b \<in> set bs. js_valid b \<longrightarrow> js_le b (max_scan a bs))"
  using assms
proof (induction bs arbitrary: a)
  case Nil
  then show ?case by (simp add: js_valid_def)
next
  case (Cons b bs)
  let ?a = "if \<not> js_nullish b \<and> js_gt b a then b else a"
  have b: "b \<in> S" using Cons.prems by simp
  have a': "?a \<in> S" "js_valid ?a" using Cons.prems lt_valid [of a b] by auto
  have ab: "js_valid b \<Longrightarrow> js_le b ?a"
    using le_not_lt [of b a] Cons.prems by (auto simp: js_valid_def)
  have aa: "js_le a ?a"
    using lt_imp_le [of a b] a' Cons.prems b by (auto simp: js_valid_def split: if_splits)
  have IH: "max_scan ?a bs \<in> set (?a # bs) \<and> js_valid (max_scan ?a bs) \<and> js_le ?a (max_scan ?a bs) \<and>
     (\<forall>b \<in> set bs. js_valid b \<longrightarrow> js_le b (max_scan ?a bs))"
    using Cons.IH [of ?a] a' Cons.prems by auto
  have r: "max_scan ?a bs \<in> S" using IH a' Cons.prems by auto
  have "js_le a (max_scan ?a bs)"
    using le_trans [OF Cons.prems(1) a'(1) r] IH a' aa Cons.prems(3) by blast
  moreover have "js_valid b \<Longrightarrow> js_le b (max_scan ?a bs)"
    using le_trans [OF b a'(1) r] IH a' ab by blast
  ultimately show ?case using IH by (auto split: if_splits)
qed

end

lemma skip_invalid_cases:
  "(\<forall>a \<in> set xs. \<not> js_valid a) \<and> skip_invalid xs = (JUndef, []) \<or>
   (\<exists>pre a post. xs = pre @ a # post \<and> js_valid a \<and> (\<forall>b \<in> set pre. \<not> js_valid b) \<and>
      skip_invalid xs = (a, post))"
proof (induction xs)
  case (Cons a as)
  show ?case
  proof (cases "js_valid a")
    case True
    then show ?thesis by force
  next
    case False
    from Cons show ?thesis
    proof (elim disjE exE conjE)
      fix pre b post
      assume "as = pre @ b # post" "js_valid b" "\<forall>c \<in> set pre. \<not> js_valid c"
        "skip_invalid as = (b, post)"
      with False show ?thesis
        by (intro disjI2 exI [of _ "a # pre"] exI [of _ b] exI [of _ post]) simp
    qed (use False in auto)
  qed
qed simp

context js_ordered
begin

lemma d3_min_spec:
  assumes "set xs \<subseteq> S" "\<exists>a \<in> set xs. js_valid a"
  shows "d3_min xs \<in> set xs \<and> js_valid (d3_min xs) \<and>
    (\<forall>b \<in> set xs. js_valid b \<longrightarrow> js_le (d3_min xs) b)"
proof -
  from assms(2) obtain pre a post where *: "xs = pre @ a # post" "js_valid a"
      "\<forall>b \<in> set pre. \<not> js_valid b" "skip_invalid xs = (a, post)"
    using skip_invalid_cases [of xs] by blast
  with assms(1) min_scan_least [of a post] show ?thesis
    by (auto simp: d3_min_def)
qed

lemma d3_max_spec:
  assumes "set xs \<subseteq> S" "\<exists>a \<in> set xs. js_valid a"
  shows "d3_max xs \<in> set xs \<and> js_valid (d3_max xs) \<and>
    (\<forall>b \<in> set xs. js_valid b \<longrightarrow> js_le b (d3_max xs))"
proof -
  from assms(2) obtain pre a post where *: "xs = pre @ a # post" "js_valid a"
      "\<forall>b \<in> set pre. \<not> js_valid b" "skip_invalid xs = (a, post)"
    using skip_invalid_cases [of xs] by blast
  with assms(1) max_scan_greatest [of a post] show ?thesis
    by (auto simp: d3_max_def)
qed

end

definition numeric_values :: "jsval set" where
  "numeric_values = {v. \<forall>s. v \<noteq> JStr s}"

definition string_values :: "jsval set" where
  "string_values = {v. js_nullish v \<or> (\<exists>s. v = JStr s)}"

lemma numeric_lt [simp]: "a \<in> numeric_values \<Longrightarrow> js_lt a b = num_lt (to_number a) (to_number b)"
    "b \<in> numeric_values \<Longrightarrow> js_lt a b = num_lt (to_number a) (to_number b)"
  by (cases a; cases b; auto simp: numeric_values_def)+

lemma numeric_le [simp]: "a \<in> numeric_values \<Longrightarrow> js_le a b = num_le (to_number a) (to_number b)"
    "b \<in> numeric_values \<Longrightarrow> js_le a b = num_le (to_number a) (to_number b)"
  by (cases a; cases b; auto simp: numeric_values_def)+

lemma numeric_valid: "a \<in> numeric_values \<Longrightarrow> js_valid a \<longleftrightarrow> \<not> js_nullish a \<and> to_number a \<noteq> NaN"
  by (simp add: js_valid_def num_le_iff)

interpretation num_order: js_ordered numeric_values
proof (unfold_locales, goal_cases)
  case (1 a b c)
  then show ?case by (auto intro: num_lt_trans)
next
  case (2 a b)
  then show ?case by (auto simp: numeric_valid num_le_not_lt)
next
  case (3 a b)
  then show ?case by (cases "to_number b") (auto simp: numeric_valid)
next
  case (4 a b c)
  then show ?case
    using num_lt_total [of "to_number a" "to_number b"] num_lt_trans
    by (auto simp: numeric_valid)
qed

interpretation str_order: js_ordered string_values
proof (unfold_locales, goal_cases)
  case (1 a b c)
  then show ?case by (auto simp: string_values_def js_valid_def intro: str_lt_trans)
next
  case (2 a b)
  then show ?case by (auto simp: string_values_def js_valid_def)
next
  case (3 a b)
  then show ?case by (auto simp: string_values_def js_valid_def)
next
  case (4 a b c)
  then show ?case
    using str_lt_total str_lt_trans by (fastforce simp: string_values_def js_valid_def)
qed

lemma extent_scan_min_max: "extent_scan (a, c) bs = (min_scan a bs, max_scan c bs)"
  by (induction bs arbitrary: a c) auto

lemma skip_invalid2_cases:
  "(\<exists>a \<in> set xs. js_valid a) \<Longrightarrow>
     skip_invalid2 (u, v) xs = (let (a, rest) = skip_invalid xs in ((a, a), rest))"
  "(\<forall>a \<in> set xs. \<not> js_valid a) \<Longrightarrow>
     skip_invalid2 (JUndef, v) xs = ((JUndef, if xs = [] then v else last xs), [])"
  by (induction xs arbitrary: u v) auto

section \<open>Arithmetic lemmas\<close>

lemma mean_scan_finite:
  "j * m = s \<Longrightarrow> mean_scan (Fin m) j (map (\<lambda>x. JNum (Fin x)) xs) = (Fin m', j') \<Longrightarrow>
     j' = j + length xs \<and> real j' * m' = s + sum_list xs"
proof (induction xs arbitrary: m j s)
  case (Cons x xs)
  let ?m = "m + (x - m) / real (Suc j)"
  have "real (Suc j) * ?m = real (Suc j) * m + (x - m)"
    by (simp add: field_simps)
  also have "\<dots> = s + x" using Cons.prems(1) by (simp add: algebra_simps)
  finally have m: "real (Suc j) * ?m = s + x" .
  have "mean_scan (Fin ?m) (Suc j) (map (\<lambda>x. JNum (Fin x)) xs) = (Fin m', j')"
    using Cons.prems(2) by (simp add: d3_number_def js_isNaN_def)
  from Cons.IH [OF m this] show ?case by (auto simp: algebra_simps)
qed auto

lemma mean_scan_Fin:
  "\<exists>m'. mean_scan (Fin m) j (map (\<lambda>x. JNum (Fin x)) xs) = (Fin m', j + length xs)"
proof (induction xs arbitrary: m j)
  case (Cons x xs)
  from Cons.IH [of "m + (x - m) / real (Suc j)" "Suc j"] show ?case
    by (simp add: d3_number_def js_isNaN_def)
qed simp

lemma mean_scan_skip: "mean_scan m j xs = mean_scan m j (filter d3_number xs)"
  by (induction xs arbitrary: m j) auto

text \<open>The interpolation that \<open>d3.quantile\<close> performs between neighbouring order statistics.\<close>

definition quantile_at :: "real list \<Rightarrow> real \<Rightarrow> real" where
  "quantile_at xs t = (let k = nat \<lfloor>t\<rfloor>; e = t - of_int \<lfloor>t\<rfloor>
     in if e = 0 then xs ! k else xs ! k + e * (xs ! Suc k - xs ! k))"

lemma quantile_at_bounds:
  assumes "sorted xs" "0 \<le> t" "t \<le> real (length xs) - 1"
  shows "xs ! nat \<lfloor>t\<rfloor> \<le> quantile_at xs t"
    and "of_int \<lfloor>t\<rfloor> < t \<Longrightarrow> quantile_at xs t \<le> xs ! Suc (nat \<lfloor>t\<rfloor>)"
proof -
  define k where "k = nat \<lfloor>t\<rfloor>"
  define e where "e = t - of_int \<lfloor>t\<rfloor>"
  have e: "0 \<le> e" "e < 1" unfolding e_def by linarith+
  have mono: "xs ! k \<le> xs ! Suc k" if "e \<noteq> 0"
  proof -
    have "of_int \<lfloor>t\<rfloor> < t" using that e unfolding e_def by linarith
    with assms have "Suc k < length xs" unfolding k_def by linarith
    then show ?thesis using assms(1) by (auto intro: sorted_nth_mono)
  qed
  show "xs ! nat \<lfloor>t\<rfloor> \<le> quantile_at xs t"
    using mono e by (auto simp: quantile_at_def Let_def k_def e_def)
  show "quantile_at xs t \<le> xs ! Suc (nat \<lfloor>t\<rfloor>)" if "of_int \<lfloor>t\<rfloor> < t"
  proof -
    have "e \<noteq> 0" using that by (simp add: e_def)
    with mono have "e * (xs ! Suc k - xs ! k) \<le> 1 * (xs ! Suc k - xs ! k)"
      using e by (intro mult_right_mono) auto
    then show ?thesis using \<open>e \<noteq> 0\<close> by (simp add: quantile_at_def Let_def k_def e_def)
  qed
qed

lemma quantile_at_mono:
  assumes "sorted xs" "0 \<le> s" "s \<le> t" "t \<le> real (length xs) - 1"
  shows "quantile_at xs s \<le> quantile_at xs t"
proof (cases "\<lfloor>s\<rfloor> = \<lfloor>t\<rfloor>")
  case True
  show ?thesis
  proof (cases "of_int \<lfloor>t\<rfloor> < t")
    case t: True
    define k where "k = nat \<lfloor>t\<rfloor>"
    have "Suc k < length xs" using t assms unfolding k_def by linarith
    then have "xs ! k \<le> xs ! Suc k" using assms(1) by (auto intro: sorted_nth_mono)
    then have "(s - of_int \<lfloor>t\<rfloor>) * (xs ! Suc k - xs ! k) \<le> (t - of_int \<lfloor>t\<rfloor>) * (xs ! Suc k - xs ! k)"
      using assms by (intro mult_right_mono) auto
    then show ?thesis using True by (auto simp: quantile_at_def Let_def k_def)
  next
    case False
    then have "s = t" using True assms by linarith
    then show ?thesis by simp
  qed
next
  case False
  then have fl: "\<lfloor>s\<rfloor> < \<lfloor>t\<rfloor>" using assms by (simp add: floor_mono less_le)
  have mono: "xs ! i \<le> xs ! nat \<lfloor>t\<rfloor>" if "i \<le> nat \<lfloor>t\<rfloor>" for i
    using assms that by (intro sorted_nth_mono) linarith+
  have "quantile_at xs s \<le> xs ! nat \<lfloor>t\<rfloor>"
  proof (cases "of_int \<lfloor>s\<rfloor> < s")
    case True
    with assms have "quantile_at xs s \<le> xs ! Suc (nat \<lfloor>s\<rfloor>)"
      by (intro quantile_at_bounds) auto
    also have "\<dots> \<le> xs ! nat \<lfloor>t\<rfloor>" using fl assms by (intro mono) linarith
    finally show ?thesis .
  next
    case False
    then have "s = of_int \<lfloor>s\<rfloor>" by linarith
    then have "quantile_at xs s = xs ! nat \<lfloor>s\<rfloor>" by (simp add: quantile_at_def Let_def)
    then show ?thesis using fl assms by (auto intro!: mono)
  qed
  also have "\<dots> \<le> quantile_at xs t" using assms by (intro quantile_at_bounds) auto
  finally show ?thesis .
qed

lemma d3_quantile_Fin:
  assumes "xs \<noteq> []" "0 \<le> p" "p \<le> 1"
  shows "d3_quantile (map (\<lambda>x. JNum (Fin x)) xs) p = Fin (quantile_at xs ((real (length xs) - 1) * p))"
proof -
  define t where "t = (real (length xs) - 1) * p"
  have n: "1 \<le> real (length xs)" using assms(1) by (cases xs) auto
  have t: "0 \<le> t" "t \<le> real (length xs) - 1"
    using assms n mult_left_le [of p "real (length xs) - 1"] unfolding t_def by auto
  have k: "nat \<lfloor>t\<rfloor> < length xs" using t n by linarith
  have fl: "\<lfloor>t + 1\<rfloor> = \<lfloor>t\<rfloor> + 1" by simp
  have e: "nat (\<lfloor>t\<rfloor> + 1) = Suc (nat \<lfloor>t\<rfloor>)" using t by linarith
  have v: "to_number (js_at (map (\<lambda>x. JNum (Fin x)) xs) \<lfloor>t\<rfloor>) = Fin (xs ! nat \<lfloor>t\<rfloor>)"
    using t k by (simp add: js_at_def)
  have w: "to_number (js_at (map (\<lambda>x. JNum (Fin x)) xs) (\<lfloor>t\<rfloor> + 1)) = Fin (xs ! Suc (nat \<lfloor>t\<rfloor>))"
    if "t - of_int \<lfloor>t\<rfloor> \<noteq> 0"
  proof -
    have "of_int \<lfloor>t\<rfloor> < t" using that by linarith
    then have "Suc (nat \<lfloor>t\<rfloor>) < length xs" using t by linarith
    then show ?thesis using t by (simp add: js_at_def e)
  qed
  have "d3_quantile (map (\<lambda>x. JNum (Fin x)) xs) p =
     (if t - of_int \<lfloor>t\<rfloor> \<noteq> 0 then js_add (Fin (xs ! nat \<lfloor>t\<rfloor>)) (js_mul (Fin (t - of_int \<lfloor>t\<rfloor>))
        (js_sub (to_number (js_at (map (\<lambda>x. JNum (Fin x)) xs) (\<lfloor>t\<rfloor> + 1))) (Fin (xs ! nat \<lfloor>t\<rfloor>))))
      else Fin (xs ! nat \<lfloor>t\<rfloor>))"
    unfolding d3_quantile_def Let_def using v fl by (simp add: t_def)
  also have "\<dots> = Fin (quantile_at xs t)" using w by (simp add: quantile_at_def Let_def)
  finally show ?thesis by (simp add: t_def)
qed

section \<open>The bisection loops\<close>

locale bisection =
  fixes search :: "nat \<Rightarrow> nat \<Rightarrow> nat option" and goes_right :: "nat \<Rightarrow> bool"
  assumes search_unfold: "search lo hi =
     (if lo < hi then
        (if goes_right (bisect_mid lo hi) then search (bisect_mid lo hi + 1) hi
         else search lo (bisect_mid lo hi))
      else Some lo)"
begin

lemma search_correct:
  assumes "lo \<le> hi" "hi \<le> 2 ^ 31"
    and "\<forall>i j. lo \<le> i \<and> i \<le> j \<and> j < hi \<and> goes_right j \<longrightarrow> goes_right i"
  shows "\<exists>r. search lo hi = Some r \<and> lo \<le> r \<and> r \<le> hi \<and>
     (\<forall>i. lo \<le> i \<and> i < r \<longrightarrow> goes_right i) \<and> (\<forall>i. r \<le> i \<and> i < hi \<longrightarrow> \<not> goes_right i)"
  using assms
proof (induction "hi - lo" arbitrary: lo hi rule: less_induct)
  case less
  show ?case
  proof (cases "lo < hi")
    case False
    then show ?thesis using search_unfold [of lo hi] less.prems by auto
  next
    case True
    define mid where "mid = bisect_mid lo hi"
    have mid: "lo \<le> mid" "mid < hi"
      using True less.prems(2) by (auto simp: mid_def bisect_mid_def)
    show ?thesis
    proof (cases "goes_right mid")
      case right: True
      have "\<exists>r. search (mid + 1) hi = Some r \<and> mid + 1 \<le> r \<and> r \<le> hi \<and>
          (\<forall>i. mid + 1 \<le> i \<and> i < r \<longrightarrow> goes_right i) \<and> (\<forall>i. r \<le> i \<and> i < hi \<longrightarrow> \<not> goes_right i)"
        using mid less.prems by (intro less.hyps) auto
      then obtain r where r: "search (mid + 1) hi = Some r" "mid + 1 \<le> r" "r \<le> hi"
          "\<forall>i. mid + 1 \<le> i \<and> i < r \<longrightarrow> goes_right i" "\<forall>i. r \<le> i \<and> i < hi \<longrightarrow> \<not> goes_right i"
        by blast
      have "goes_right i" if "lo \<le> i" "i < r" for i
        using that r(4) right mid less.prems(3) by (cases "i \<le> mid") auto
      then show ?thesis using r mid right True search_unfold [of lo hi]
        by (auto simp flip: mid_def)
    next
      case left: False
      have "\<forall>i j. lo \<le> i \<and> i \<le> j \<and> j < mid \<and> goes_right j \<longrightarrow> goes_right i"
        using less.prems(3) mid(2) less_trans by blast
      then have "\<exists>r. search lo mid = Some r \<and> lo \<le> r \<and> r \<le> mid \<and>
          (\<forall>i. lo \<le> i \<and> i < r \<longrightarrow> goes_right i) \<and> (\<forall>i. r \<le> i \<and> i < mid \<longrightarrow> \<not> goes_right i)"
        using mid less.prems(1,2) by (intro less.hyps) simp_all
      then obtain r where r: "search lo mid = Some r" "lo \<le> r" "r \<le> mid"
          "\<forall>i. lo \<le> i \<and> i < r \<longrightarrow> goes_right i" "\<forall>i. r \<le> i \<and> i < mid \<longrightarrow> \<not> goes_right i"
        by blast
      have "\<not> goes_right i" if "r \<le> i" "i < hi" for i
        using that r(5) left mid(1) less.prems(3) by (cases "i < mid") (auto simp: not_less)
      then show ?thesis using r mid left True search_unfold [of lo hi]
        by (auto simp flip: mid_def)
    qed
  qed
qed

end

interpretation left_search: bisection "bisect_left f a x" "\<lambda>i. js_lt (f (js_get a i) i) x" for f a x
  by unfold_locales (simp add: bisect_left.simps Let_def)

interpretation right_search: bisection "bisect_right f a x" "\<lambda>i. \<not> js_lt x (f (js_get a i) i)" for f a x
  by unfold_locales (simp add: bisect_right.simps Let_def)

lemma numeric_lt_decreasing:
  assumes "sorted_wrt js_le a" "\<forall>v \<in> set a. v \<in> numeric_values \<and> js_valid v"
    and "i \<le> j" "j < length a" "x \<in> numeric_values"
  shows "js_lt (a ! j) x \<Longrightarrow> js_lt (a ! i) x" and "js_lt x (a ! i) \<Longrightarrow> js_lt x (a ! j)"
proof -
  have v: "a ! i \<in> numeric_values" "a ! j \<in> numeric_values" "js_valid (a ! i)" "js_valid (a ! j)"
    using assms by auto
  have "js_le (a ! i) (a ! j)"
  proof (cases "i = j")
    case True
    then show ?thesis using v by (simp add: js_valid_def)
  next
    case False
    then show ?thesis using assms by (auto simp: sorted_wrt_iff_nth_less)
  qed
  then have "num_le (to_number (a ! i)) (to_number (a ! j))" using v by simp
  then show "js_lt (a ! j) x \<Longrightarrow> js_lt (a ! i) x" "js_lt x (a ! i) \<Longrightarrow> js_lt x (a ! j)"
    using v num_lt_trans by (auto simp: num_le_iff)
qed

lemma bisectRight_insertion:
  assumes "length a \<le> 2 ^ 31" "sorted_wrt js_le a"
    and "\<forall>v \<in> set a. v \<in> numeric_values \<and> js_valid v" "x \<in> numeric_values"
  shows "\<exists>r. d3_bisectRight a x = Some r \<and> r \<le> length a \<and>
     (\<forall>i < r. \<not> js_lt x (a ! i)) \<and> (\<forall>i. r \<le> i \<and> i < length a \<longrightarrow> js_lt x (a ! i))"
proof -
  have "\<forall>i j. 0 \<le> i \<and> i \<le> j \<and> j < length a \<and> \<not> js_lt x (js_val (js_get a j)) \<longrightarrow>
      \<not> js_lt x (js_val (js_get a i))"
    using numeric_lt_decreasing(2) [OF assms(2,3) _ _ assms(4)] by fastforce
  from right_search.search_correct [where f = "\<lambda>d i. js_val d", OF _ assms(1) this]
  show ?thesis by (fastforce simp: d3_bisectRight_def)
qed

section \<open>Properties\<close>

text \<open>
  (C38) Bisection to the left.  On an array of at most \<open>2 ^ 31\<close> numbers in ascending order and
  a number \<open>x\<close>, \<open>d3.bisectLeft\<close> returns, and its result is the insertion point that
  separates the elements below \<open>x\<close> from those not below \<open>x\<close>.
\<close>

theorem d3_bisectLeft_partition:
  assumes "length a \<le> 2 ^ 31" "sorted_wrt js_le a"
    and "\<forall>v \<in> set a. v \<in> numeric_values \<and> js_valid v" "x \<in> numeric_values"
  shows "\<exists>r. d3_bisectLeft a x = Some r \<and> r \<le> length a \<and>
     (\<forall>i < r. js_lt (a ! i) x) \<and> (\<forall>i. r \<le> i \<and> i < length a \<longrightarrow> \<not> js_lt (a ! i) x)"
proof -
  have "\<forall>i j. 0 \<le> i \<and> i \<le> j \<and> j < length a \<and> js_lt (js_val (js_get a j)) x \<longrightarrow>
      js_lt (js_val (js_get a i)) x"
    using numeric_lt_decreasing(1) [OF assms(2,3) _ _ assms(4)] by fastforce
  from left_search.search_correct [where f = "\<lambda>d i. js_val d", OF _ assms(1) this]
  show ?thesis by (fastforce simp: d3_bisectLeft_def)
qed

theorem d3_bisectLeft_partition_witness:
  "\<exists>r. d3_bisectLeft [JNum (Fin 1), JNum (Fin 2), JNum (Fin 2), JNum (Fin 4)] (JNum (Fin 2)) = Some r \<and>
     r \<le> 4 \<and> (\<forall>i < r. js_lt ([JNum (Fin 1), JNum (Fin 2), JNum (Fin 2), JNum (Fin 4)] ! i) (JNum (Fin 2)))"
  using d3_bisectLeft_partition [of "[JNum (Fin 1), JNum (Fin 2), JNum (Fin 2), JNum (Fin 4)]" "JNum (Fin 2)"]
  by (auto simp: numeric_values_def js_valid_def)

text \<open>
  Bisection to the right.  Under the same conditions \<open>d3.bisect\<close> (\<open>d3.bisectRight\<close>)
  returns the insertion point after every element not above \<open>x\<close>.
\<close>

theorem d3_bisectRight_partition:
  assumes "length a \<le> 2 ^ 31" "sorted_wrt js_le a"
    and "\<forall>v \<in> set a. v \<in> numeric_values \<and> js_valid v" "x \<in> numeric_values"
  shows "\<exists>r. d3_bisectRight a x = Some r \<and> r \<le> length a \<and>
     (\<forall>i < r. \<not> js_lt x (a ! i)) \<and> (\<forall>i. r \<le> i \<and> i < length a \<longrightarrow> js_lt x (a ! i))"
  using assms by (rule bisectRight_insertion)

theorem d3_bisectRight_partition_witness:
  "\<exists>r. d3_bisectRight [JNum (Fin 1), JNum (Fin 2), JNum (Fin 2), JNum (Fin 4)] (JNum (Fin 2)) = Some r \<and>
     r \<le> 4 \<and> (\<forall>i < r. \<not> js_lt (JNum (Fin 2)) ([JNum (Fin 1), JNum (Fin 2), JNum (Fin 2), JNum (Fin 4)] ! i))"
  using d3_bisectRight_partition [of "[JNum (Fin 1), JNum (Fin 2), JNum (Fin 2), JNum (Fin 4)]" "JNum (Fin 2)"]
  by (auto simp: numeric_values_def js_valid_def)

text \<open>
  Extent without an accessor.  On an array of numbers (with \<open>undefined\<close>, null and \<open>NaN\<close>
  allowed anywhere) that holds at least one number, \<open>d3.extent\<close> returns the pair that
  \<open>d3.min\<close> and \<open>d3.max\<close> return, both are elements, and every number lies between them.
\<close>

theorem d3_extent_numeric:
  assumes "set xs \<subseteq> numeric_values" "\<exists>a \<in> set xs. js_valid a"
  shows "d3_extent xs = (d3_min xs, d3_max xs) \<and> d3_min xs \<in> set xs \<and> d3_max xs \<in> set xs \<and>
    (\<forall>b \<in> set xs. js_valid b \<longrightarrow> js_le (d3_min xs) b \<and> js_le b (d3_max xs))"
proof -
  have "d3_extent xs = (d3_min xs, d3_max xs)"
    by (simp add: d3_extent_def d3_min_def d3_max_def extent_scan_min_max split: prod.splits)
  then show ?thesis
    using num_order.d3_min_spec [OF assms] num_order.d3_max_spec [OF assms] by blast
qed

theorem d3_extent_numeric_witness:
  "d3_extent [JNull, JNum NaN, JNum (Fin 3), JUndef, JNum (Fin 1)] =
     (d3_min [JNull, JNum NaN, JNum (Fin 3), JUndef, JNum (Fin 1)],
      d3_max [JNull, JNum NaN, JNum (Fin 3), JUndef, JNum (Fin 1)])"
  using d3_extent_numeric [of "[JNull, JNum NaN, JNum (Fin 3), JUndef, JNum (Fin 1)]"]
  by (auto simp: numeric_values_def js_valid_def)

text \<open>
  Extent with an accessor.  As soon as one accessed value is valid, the accessor variant
  returns the pair of \<open>d3.min\<close> and \<open>d3.max\<close> with the accessor; when none is, its second
  component is the last invalid value (\<open>NaN\<close>, null or \<open>undefined\<close>) and not \<open>undefined\<close>, because
  the first loop resets only the minimum.
\<close>

theorem d3_extent_by_spec:
  "d3_extent_by f array =
     (if \<exists>a \<in> set (accessed f array). js_valid a then (d3_min_by f array, d3_max_by f array)
      else (JUndef, if array = [] then JUndef else last (accessed f array)))"
proof (cases "\<exists>a \<in> set (accessed f array). js_valid a")
  case True
  then show ?thesis
    by (simp add: d3_extent_by_def d3_min_by_def d3_max_by_def skip_invalid2_cases(1)
        extent_scan_min_max split: prod.splits)
next
  case False
  then have "d3_extent_by f array =
      (JUndef, if accessed f array = [] then JUndef else last (accessed f array))"
    by (simp add: d3_extent_by_def skip_invalid2_cases(2))
  moreover have "accessed f array = [] \<longleftrightarrow> array = []"
    by (simp add: accessed_def enumerate_eq_zip)
  ultimately show ?thesis using False by auto
qed

text \<open>
  The running mean.  Whatever invalid entries are interspersed, \<open>d3.mean\<close> of an array
  whose numeric entries are the finite numbers \<open>xs\<close>, in this order, is their sum divided by
  their count, and \<open>undefined\<close> when there is none.
\<close>

theorem d3_mean_average:
  assumes "filter d3_number array = map (\<lambda>x. JNum (Fin x)) xs"
  shows "d3_mean array =
    (if xs = [] then JUndef else JNum (Fin (sum_list xs / real (length xs))))"
proof -
  obtain m where m: "mean_scan (Fin 0) 0 (map (\<lambda>x. JNum (Fin x)) xs) = (Fin m, length xs)"
    using mean_scan_Fin [of 0 0 xs] by auto
  then have "real (length xs) * m = sum_list xs"
    using mean_scan_finite [of 0 0 0 xs m "length xs"] by simp
  then have "xs \<noteq> [] \<Longrightarrow> m = sum_list xs / real (length xs)" by (simp add: field_simps)
  moreover have "mean_scan (Fin 0) 0 array = (Fin m, length xs)"
    using m assms mean_scan_skip by metis
  ultimately show ?thesis by (auto simp: d3_mean_def)
qed

theorem d3_mean_average_witness:
  "d3_mean [JNum (Fin 1), JNum NaN, JNum (Fin 2), JNull, JNum (Fin 6)] = JNum (Fin 3)"
  using d3_mean_average [of "[JNum (Fin 1), JNum NaN, JNum (Fin 2), JNull, JNum (Fin 6)]" "[1, 2, 6]"]
  by (simp add: d3_number_def js_isNaN_def)

text \<open>
  Quantiles.  On a sorted non-empty array of finite numbers \<open>d3.quantile\<close> is a finite
  number for every \<open>p\<close> in the unit interval, is monotone in \<open>p\<close>, and is the first element
  at \<open>0\<close> and the last element at \<open>1\<close>.
\<close>

theorem d3_quantile_monotone:
  assumes "xs \<noteq> []" "sorted xs" "0 \<le> p" "p \<le> q" "q \<le> 1"
  shows "\<exists>u v. d3_quantile (map (\<lambda>x. JNum (Fin x)) xs) p = Fin u \<and>
      d3_quantile (map (\<lambda>x. JNum (Fin x)) xs) q = Fin v \<and> u \<le> v \<and>
      d3_quantile (map (\<lambda>x. JNum (Fin x)) xs) 0 = Fin (hd xs) \<and>
      d3_quantile (map (\<lambda>x. JNum (Fin x)) xs) 1 = Fin (last xs)"
proof -
  define n where "n = real (length xs) - 1"
  have n: "0 \<le> n" "n = real (length xs - 1)" using assms(1) by (cases xs; simp add: n_def)+
  have "n * q \<le> n" using n(1) assms by (simp add: mult_left_le)
  moreover have "n * p \<le> n * q" using n(1) assms by (simp add: mult_left_mono)
  ultimately have le: "quantile_at xs (n * p) \<le> quantile_at xs (n * q)"
    using n(1) assms by (intro quantile_at_mono) (simp_all add: n_def)
  have first: "quantile_at xs (n * 0) = hd xs" and final: "quantile_at xs (n * 1) = last xs"
    using assms(1) n(2) by (simp_all add: quantile_at_def last_conv_nth hd_conv_nth)
  have Q: "d3_quantile (map (\<lambda>x. JNum (Fin x)) xs) r = Fin (quantile_at xs (n * r))"
    if "0 \<le> r" "r \<le> 1" for r
    using d3_quantile_Fin [OF assms(1) that] by (simp add: n_def)
  show ?thesis
    using Q [of p] Q [of q] Q [of 0] Q [of 1] assms(3-5) le first final by simp
qed

theorem d3_quantile_monotone_witness:
  "\<exists>u v. d3_quantile (map (\<lambda>x. JNum (Fin x)) [1, 2, 4, 8]) (1 / 4) = Fin u \<and>
      d3_quantile (map (\<lambda>x. JNum (Fin x)) [1, 2, 4, 8]) (1 / 2) = Fin v \<and> u \<le> v"
  using d3_quantile_monotone [of "[1, 2, 4, 8]" "1 / 4" "1 / 2"] by auto

end
