(* ===== verification/D3_Arrays.thy ===== *)
theory D3_Arrays
  imports D3_Statistics
begin

text \<open>
  Array construction and rearrangement (\<open>d3.js\<close> lines 137 to 169 and 188 to 220):
  \<open>d3.shuffle\<close>, \<open>d3.permute\<close>, \<open>d3.pairs\<close>, \<open>d3.zip\<close>, \<open>d3.transpose\<close>, \<open>d3.merge\<close> and
  \<open>d3.range\<close>.  \<open>Math.random\<close> is a parameter of the shuffle.  The decimal scaling loop of
  \<open>d3.range\<close> need not end, so the range is a partial function.
\<close>

section \<open>Shuffling\<close>

text \<open>Writing \<open>a[i] = v\<close>: an index past the end extends the array with \<open>undefined\<close>.\<close>

definition js_put :: "jsval list \<Rightarrow> int \<Rightarrow> jsval \<Rightarrow> jsval list" where
  "js_put a i v =
     (if i < 0 then a
      else if nat i < length a then a[nat i := v]
      else a @ replicate (nat i - length a) JUndef @ [v])"

text \<open>
  The loop counter \<open>m\<close> runs down to \<open>0\<close>; \<open>rnd m\<close> is what \<open>Math.random()\<close> returns in the
  iteration that starts with this \<open>m\<close>.
\<close>

fun shuffle_loop :: "(nat \<Rightarrow> real) \<Rightarrow> nat \<Rightarrow> jsval list \<Rightarrow> jsval list" where
  "shuffle_loop rnd 0 array = array"
| "shuffle_loop rnd (Suc m) array =
     (let i = to_int32 (rnd (Suc m) * real (Suc m));
          t = js_at array (int m);
          array1 = js_put array (int m) (js_at array i);
          array2 = js_put array1 i t
      in shuffle_loop rnd m array2)"

definition d3_shuffle :: "(nat \<Rightarrow> real) \<Rightarrow> jsval list \<Rightarrow> jsval list" where
  "d3_shuffle rnd array = shuffle_loop rnd (length array) array"

section \<open>Permutations, pairs, zips and merges\<close>

fun permute_fill :: "jsval list \<Rightarrow> nat list \<Rightarrow> nat \<Rightarrow> jsval list \<Rightarrow> jsval list" where
  "permute_fill array indexes 0 permutes = permutes"
| "permute_fill array indexes (Suc i) permutes =
     permute_fill array indexes i (permutes[i := js_val (js_get array (indexes ! i))])"

definition d3_permute :: "jsval list \<Rightarrow> nat list \<Rightarrow> jsval list" where
  "d3_permute array indexes =
     permute_fill array indexes (length indexes) (replicate (length indexes) JUndef)"

function pairs_loop :: "'a list \<Rightarrow> nat \<Rightarrow> 'a \<Rightarrow> ('a \<times> 'a) list" where
  "pairs_loop array i p1 =
     (if i + 1 < length array
      then (p1, array ! (i + 1)) # pairs_loop array (i + 1) (array ! (i + 1))
      else [])"
  by pat_completeness auto
termination
  by (relation "measure (\<lambda>(array, i, p1). length array - i)") auto

declare pairs_loop.simps [simp del]

definition d3_pairs :: "'a list \<Rightarrow> ('a \<times> 'a) list" where
  "d3_pairs array = (case array of [] \<Rightarrow> [] | p # _ \<Rightarrow> pairs_loop array 0 p)"

definition d3_zipLength :: "jsval list \<Rightarrow> nat \<Rightarrow> jsval" where
  "d3_zipLength d i = JNum (Fin (real (length d)))"

definition d3_zip :: "jsval list list \<Rightarrow> jsval list list" where
  "d3_zip args =
     (if args = [] then []
      else let m = (case to_number (d3_min_by d3_zipLength args) of Fin r \<Rightarrow> nat \<lfloor>r\<rfloor> | _ \<Rightarrow> 0)
           in map (\<lambda>i. map (\<lambda>a. js_val (js_get a i)) args) [0..<m])"

definition d3_transpose :: "jsval list list \<Rightarrow> jsval list list" where
  "d3_transpose matrix = d3_zip matrix"

text \<open>\<open>merge_inner\<close> is the loop over one array, \<open>merge_outer\<close> the loop over the arrays, both
  from the back; \<open>j\<close> is the write position in the preallocated result.\<close>

fun merge_inner :: "jsval list \<Rightarrow> nat \<Rightarrow> nat \<Rightarrow> jsval list \<Rightarrow> nat \<times> jsval list" where
  "merge_inner array 0 j merged = (j, merged)"
| "merge_inner array (Suc m) j merged =
     merge_inner array m (j - 1) (merged[j - 1 := js_val (js_get array m)])"

fun merge_outer :: "jsval list list \<Rightarrow> nat \<Rightarrow> nat \<Rightarrow> jsval list \<Rightarrow> jsval list" where
  "merge_outer arrays 0 j merged = merged"
| "merge_outer arrays (Suc n) j merged =
     (let array = arrays ! n; (j', merged') = merge_inner array (length array) j merged
      in merge_outer arrays n j' merged')"

definition d3_merge :: "jsval list list \<Rightarrow> jsval list" where
  "d3_merge arrays = (let j = sum_list (map length arrays)
     in merge_outer arrays (length arrays) j (replicate j JUndef))"

section \<open>Ranges\<close>

datatype range_error = InfiniteRange

text \<open>\<open>x * k % 1\<close> is the fractional part, for the non-negative \<open>x\<close> of the caller.\<close>

partial_function (option) range_integerScale :: "real \<Rightarrow> real \<Rightarrow> real option" where
  "range_integerScale x k = (if frac (x * k) \<noteq> 0 then range_integerScale x (k * 10) else Some k)"

definition d3_range_integerScale :: "real \<Rightarrow> real option" where
  "d3_range_integerScale x = range_integerScale x 1"

partial_function (option) range_down :: "real \<Rightarrow> real \<Rightarrow> real \<Rightarrow> real \<Rightarrow> nat \<Rightarrow> real list \<Rightarrow> real list option" where
  "range_down start stop step k i pushed =
     (let j = start + step * real i
      in if j > stop then range_down start stop step k (i + 1) (pushed @ [j / k]) else Some pushed)"

partial_function (option) range_up :: "real \<Rightarrow> real \<Rightarrow> real \<Rightarrow> real \<Rightarrow> nat \<Rightarrow> real list \<Rightarrow> real list option" where
  "range_up start stop step k i pushed =
     (let j = start + step * real i
      in if j < stop then range_up start stop step k (i + 1) (pushed @ [j / k]) else Some pushed)"

text \<open>The outer option is \<open>None\<close> when a loop does not end; \<open>Inl\<close> is the thrown error.\<close>

definition d3_range :: "real \<Rightarrow> real \<Rightarrow> real \<Rightarrow> (range_error + real list) option" where
  "d3_range start stop step =
     (if js_div (Fin (stop - start)) (Fin step) = PInf then Some (Inl InfiniteRange)
      else case d3_range_integerScale \<bar>step\<bar> of
             None \<Rightarrow> None
           | Some k \<Rightarrow>
               map_option Inr
                 (if step * k < 0 then range_down (start * k) (stop * k) (step * k) k 0 []
                  else range_up (start * k) (stop * k) (step * k) k 0 []))"

section \<open>The shuffle permutes, and can reach every permutation\<close>

definition unit_source :: "(nat \<Rightarrow> real) \<Rightarrow> bool" where
  "unit_source rnd \<longleftrightarrow> (\<forall>k. 0 \<le> rnd k \<and> rnd k < 1)"

lemma to_int32_small: "0 \<le> x \<Longrightarrow> x < 2 ^ 31 \<Longrightarrow> to_int32 x = \<lfloor>x\<rfloor>"
  by (simp add: to_int32_def Let_def floor_less_iff)

lemma shuffle_step:
  assumes "0 \<le> r" "r < 1" "m < length array" "length array \<le> 2 ^ 31"
  defines "i \<equiv> nat \<lfloor>r * real (Suc m)\<rfloor>"
  shows "i \<le> m"
    and "to_int32 (r * real (Suc m)) = int i"
proof -
  have lt: "r * real (Suc m) < real (Suc m)" using assms(2) by simp
  have ge: "0 \<le> r * real (Suc m)" using assms(1) by simp
  have "\<lfloor>r * real (Suc m)\<rfloor> < int (Suc m)" using lt by (simp add: floor_less_iff)
  then show "i \<le> m" unfolding i_def by linarith
  have "real (Suc m) \<le> real (length array)" using assms(3) by (subst of_nat_le_iff) simp
  also have "\<dots> \<le> real (2 ^ 31)" using assms(4) by (subst of_nat_le_iff)
  finally have "real (Suc m) \<le> 2 ^ 31" by simp
  then have "r * real (Suc m) < 2 ^ 31" by (rule less_le_trans [OF lt])
  with ge show "to_int32 (r * real (Suc m)) = int i"
    by (simp add: to_int32_small i_def)
qed

lemma js_put_nat: "i < length a \<Longrightarrow> js_put a (int i) v = a[i := v]"
  by (simp add: js_put_def)

lemma js_at_nat: "i < length a \<Longrightarrow> js_at a (int i) = a ! i"
  by (simp add: js_at_def)

lemma shuffle_loop_Suc:
  assumes "0 \<le> rnd (Suc m)" "rnd (Suc m) < 1" "m < length array" "length array \<le> 2 ^ 31"
  shows "shuffle_loop rnd (Suc m) array =
     (let i = nat \<lfloor>rnd (Suc m) * real (Suc m)\<rfloor>
      in shuffle_loop rnd m (array[m := array ! i, i := array ! m]))"
proof -
  define i where "i = nat \<lfloor>rnd (Suc m) * real (Suc m)\<rfloor>"
  note i = shuffle_step [OF assms, folded i_def]
  show ?thesis
    unfolding i_def [symmetric] using i assms(3)
    by (simp del: of_nat_Suc add: Let_def js_put_nat js_at_nat)
qed

lemma shuffle_loop_permutes:
  "unit_source rnd \<Longrightarrow> m \<le> length array \<Longrightarrow> length array \<le> 2 ^ 31 \<Longrightarrow>
     mset (shuffle_loop rnd m array) = mset array"
proof (induction m arbitrary: array)
  case (Suc m)
  let ?i = "nat \<lfloor>rnd (Suc m) * real (Suc m)\<rfloor>"
  have r: "0 \<le> rnd (Suc m)" "rnd (Suc m) < 1" using Suc.prems(1) by (auto simp: unit_source_def)
  have m: "m < length array" using Suc.prems by simp
  have i: "?i < length array" using shuffle_step(1) [OF r m Suc.prems(3)] m by linarith
  have "mset (shuffle_loop rnd (Suc m) array) = mset (array[m := array ! ?i, ?i := array ! m])"
    using Suc.IH Suc.prems m shuffle_loop_Suc [of rnd, OF r m Suc.prems(3)]
    by (simp del: shuffle_loop.simps of_nat_Suc add: Let_def)
  also have "\<dots> = mset array" by (rule mset_swap [OF i m])
  finally show ?case .
qed simp

lemma shuffle_loop_cong:
  "(\<And>k. k \<le> m \<Longrightarrow> rnd k = rnd' k) \<Longrightarrow> shuffle_loop rnd m array = shuffle_loop rnd' m array"
  by (induction m arbitrary: array) (simp_all del: of_nat_Suc add: Let_def)

lemma shuffle_loop_reaches:
  "mset xs = mset ys \<Longrightarrow> drop m xs = drop m ys \<Longrightarrow> m \<le> length xs \<Longrightarrow> length xs \<le> 2 ^ 31 \<Longrightarrow>
     \<exists>rnd. unit_source rnd \<and> shuffle_loop rnd m xs = ys"
proof (induction m arbitrary: xs)
  case 0
  then show ?case by (intro exI [of _ "\<lambda>_. 0"]) (simp add: unit_source_def)
next
  case (Suc m)
  have len: "length xs = length ys" using Suc.prems(1) by (metis size_mset)
  have "mset (take (Suc m) xs) = mset (take (Suc m) ys)"
    using Suc.prems(1,2) by (metis add_right_cancel append_take_drop_id mset_append)
  then have "ys ! m \<in> set (take (Suc m) xs)"
    using Suc.prems(3) len by (metis Suc_le_eq in_set_conv_nth length_take lessI min.absorb2
        nth_take set_mset_mset)
  then obtain i where i: "i \<le> m" "xs ! i = ys ! m"
    by (metis in_set_conv_nth length_take less_Suc_eq_le min_less_iff_conj nth_take)
  define xs' where "xs' = xs[m := xs ! i, i := xs ! m]"
  have mlen: "m < length xs" using Suc.prems(3) by simp
  have xs'm: "mset xs' = mset ys"
    unfolding xs'_def using Suc.prems(1) i mlen by (subst mset_swap) auto
  have "xs' ! m = ys ! m" "drop (Suc m) xs' = drop (Suc m) ys" "length xs' = length xs"
    using i mlen Suc.prems(2) by (auto simp: xs'_def nth_list_update)
  then have "drop m xs' = drop m ys" using mlen len by (metis Cons_nth_drop_Suc)
  then obtain rnd where rnd: "unit_source rnd" "shuffle_loop rnd m xs' = ys"
    using Suc.IH [of xs'] xs'm Suc.prems(3,4) \<open>length xs' = length xs\<close> by auto
  define rnd' where "rnd' = rnd(Suc m := real i / real (Suc m))"
  have u: "unit_source rnd'" using rnd(1) i by (auto simp: unit_source_def rnd'_def)
  have "rnd' (Suc m) * real (Suc m) = real i" by (simp add: rnd'_def)
  then have "shuffle_loop rnd' (Suc m) xs = shuffle_loop rnd' m xs'"
    using shuffle_loop_Suc [of rnd' m xs] u mlen Suc.prems(4)
    by (simp del: shuffle_loop.simps of_nat_Suc add: unit_source_def xs'_def)
  also have "\<dots> = shuffle_loop rnd m xs'" by (rule shuffle_loop_cong) (simp add: rnd'_def)
  finally show ?case using u rnd(2) by auto
qed

section \<open>Merge, transpose and range against their specifications\<close>

lemma merge_inner_eq:
  "m \<le> length array \<Longrightarrow> m \<le> j \<Longrightarrow> j \<le> length merged \<Longrightarrow>
     merge_inner array m j merged = (j - m, take (j - m) merged @ take m array @ drop j merged)"
proof (induction m arbitrary: j merged)
  case (Suc m)
  then have j: "j - 1 < length merged" "m \<le> j - 1" by auto
  have "drop (j - 1) (merged[j - 1 := array ! m]) = array ! m # drop j merged"
    using j Suc.prems(2) by (simp add: Cons_nth_drop_Suc [symmetric])
  then show ?case
    using Suc j by (simp add: take_Suc_conv_app_nth)
qed simp

lemma merge_outer_eq:
  "n \<le> length arrays \<Longrightarrow> j = sum_list (map length (take n arrays)) \<Longrightarrow> j \<le> length merged \<Longrightarrow>
     merge_outer arrays n j merged = concat (take n arrays) @ drop j merged"
proof (induction n arbitrary: j merged)
  case (Suc n)
  let ?a = "arrays ! n" and ?j = "sum_list (map length (take n arrays))"
  have j: "j = ?j + length ?a" using Suc.prems by (simp add: take_Suc_conv_app_nth)
  then have "merge_inner ?a (length ?a) j merged = (?j, take ?j merged @ ?a @ drop j merged)"
    using Suc.prems by (subst merge_inner_eq) auto
  then show ?case
    using Suc.IH [of ?j "take ?j merged @ ?a @ drop j merged"] Suc.prems j
    by (simp add: take_Suc_conv_app_nth Let_def)
qed simp

lemma d3_zip_rectangular:
  assumes "args \<noteq> []" "\<forall>r \<in> set args. length r = c"
  shows "d3_zip args = map (\<lambda>i. map (\<lambda>a. a ! i) args) [0..<c]"
proof -
  let ?acc = "accessed d3_zipLength args"
  have "?acc = replicate (length args) (JNum (Fin (real c)))"
    using assms(2) by (intro nth_equalityI) (auto simp: accessed_def d3_zipLength_def nth_enumerate_eq)
  then have acc: "set ?acc = {JNum (Fin (real c))}"
    using assms(1) by simp
  then have "d3_min ?acc \<in> set ?acc"
    by (intro num_order.d3_min_spec [THEN conjunct1])
      (auto simp: numeric_values_def js_valid_def)
  then have "d3_min_by d3_zipLength args = JNum (Fin (real c))"
    using acc by (simp add: d3_min_def d3_min_by_def)
  then show ?thesis using assms by (auto simp: d3_zip_def)
qed

lemma range_integerScale_power:
  "frac (x * k * 10 ^ n) = 0 \<Longrightarrow> \<exists>q. range_integerScale x k = Some (k * 10 ^ q)"
proof (induction n arbitrary: k)
  case 0
  then show ?case by (auto simp: range_integerScale.simps intro: exI [of _ 0])
next
  case (Suc n)
  show ?case
  proof (cases "frac (x * k) = 0")
    case True
    then show ?thesis by (auto simp: range_integerScale.simps intro: exI [of _ 0])
  next
    case False
    obtain q where "range_integerScale x (k * 10) = Some (k * 10 * 10 ^ q)"
      using Suc.IH [of "k * 10"] Suc.prems by (auto simp: mult.assoc)
    with False show ?thesis
      by (intro exI [of _ "Suc q"]) (simp add: range_integerScale.simps [of x k])
  qed
qed

definition range_count :: "real \<Rightarrow> real \<Rightarrow> real \<Rightarrow> nat" where
  "range_count start stop step = nat \<lceil>(stop - start) / step\<rceil>"

lemma range_count_iff: "i < range_count start stop step \<longleftrightarrow> real i < (stop - start) / step"
  by (simp add: range_count_def zless_nat_eq_int_zless less_ceiling_iff)

lemma range_up_eq:
  assumes "0 < step" "0 < k"
  shows "i \<le> range_count start stop step \<Longrightarrow>
     range_up (start * k) (stop * k) (step * k) k i acc =
       Some (acc @ map (\<lambda>i. start + step * real i) [i..<range_count start stop step])"
proof (induction "range_count start stop step - i" arbitrary: i acc)
  case (0 i acc)
  then have "\<not> real i < (stop - start) / step" by (simp flip: range_count_iff)
  then have "\<not> start + step * real i < stop" using assms by (simp add: field_simps)
  then have "\<not> (start + step * real i) * k < stop * k"
    using assms by (simp add: mult_less_cancel_right_pos)
  with 0 show ?case by (simp add: range_up.simps [of _ _ _ _ i] Let_def algebra_simps)
next
  case (Suc n i acc)
  then have i: "i < range_count start stop step" by simp
  then have "real i < (stop - start) / step" by (simp add: range_count_iff)
  then have "start + step * real i < stop" using assms by (simp add: field_simps)
  then have "(start + step * real i) * k < stop * k"
    using assms by (simp add: mult_less_cancel_right_pos)
  then have lt: "start * k + step * k * real i < stop * k" by (simp add: algebra_simps)
  have "(start * k + step * k * real i) / k = start + step * real i"
    using assms(2) by (simp add: field_simps)
  then show ?case
    using lt i Suc.hyps(1) [of "i + 1"] Suc.hyps(2)
    by (simp add: range_up.simps [of _ _ _ _ i] Let_def upt_rec [of i])
qed

lemma range_down_eq:
  assumes "step < 0" "0 < k"
  shows "i \<le> range_count start stop step \<Longrightarrow>
     range_down (start * k) (stop * k) (step * k) k i acc =
       Some (acc @ map (\<lambda>i. start + step * real i) [i..<range_count start stop step])"
proof (induction "range_count start stop step - i" arbitrary: i acc)
  case (0 i acc)
  then have "\<not> real i < (stop - start) / step" by (simp flip: range_count_iff)
  then have "\<not> start + step * real i > stop" using assms by (simp add: field_simps)
  then have "\<not> (start + step * real i) * k > stop * k"
    using assms by (simp add: mult_less_cancel_right_pos)
  with 0 show ?case by (simp add: range_down.simps [of _ _ _ _ i] Let_def algebra_simps)
next
  case (Suc n i acc)
  then have i: "i < range_count start stop step" by simp
  then have "real i < (stop - start) / step" by (simp add: range_count_iff)
  then have "start + step * real i > stop" using assms by (simp add: field_simps)
  then have "(start + step * real i) * k > stop * k"
    using assms by (simp add: mult_less_cancel_right_pos)
  then have lt: "start * k + step * k * real i > stop * k" by (simp add: algebra_simps)
  have "(start * k + step * k * real i) / k = start + step * real i"
    using assms(2) by (simp add: field_simps)
  then show ?case
    using lt i Suc.hyps(1) [of "i + 1"] Suc.hyps(2)
    by (simp add: range_down.simps [of _ _ _ _ i] Let_def upt_rec [of i])
qed

lemma d3_range_exact:
  assumes "step * 10 ^ p \<in> \<int>"
  shows "d3_range start stop step =
    Some (if step = 0 \<and> start < stop then Inl InfiniteRange
          else Inr (map (\<lambda>i. start + step * real i)
                 [0..<(if step = 0 then 0 else range_count start stop step)]))"
proof -
  have "\<bar>step\<bar> * 1 * 10 ^ p \<in> \<int>"
    using assms Ints_abs [OF assms] by (simp add: abs_mult)
  then obtain q where k: "d3_range_integerScale \<bar>step\<bar> = Some (10 ^ q)"
    using range_integerScale_power [of "\<bar>step\<bar>" 1 p]
    by (auto simp: d3_range_integerScale_def frac_eq_0_iff)
  consider "step = 0" | "step > 0" | "step < 0" by linarith
  then show ?thesis
  proof cases
    case 1
    have "range_up (start * 10 ^ q) (stop * 10 ^ q) 0 (10 ^ q) 0 [] = Some []" if "\<not> start < stop"
      by (subst range_up.simps) (use that in simp)
    then show ?thesis
      using k 1 by (simp add: d3_range_def js_inf_def)
  next
    case 2
    then have "\<not> step * 10 ^ q < 0" by (simp add: not_less)
    then show ?thesis
      using 2 k range_up_eq [of step "10 ^ q" 0 start stop "[]"] by (simp add: d3_range_def)
  next
    case 3
    then have "step * 10 ^ q < 0" by (simp add: mult_neg_pos)
    then show ?thesis
      using 3 k range_down_eq [of step "10 ^ q" 0 start stop "[]"] by (simp add: d3_range_def)
  qed
qed

section \<open>Properties\<close>

text \<open>
  Fisher-Yates.  For every random source with values in \<open>[0, 1)\<close> and every array of at
  most \<open>2 ^ 31\<close> elements, \<open>d3.shuffle\<close> returns a permutation of the array; and every
  permutation is the outcome for some random source.
\<close>

theorem d3_shuffle_permutations:
  assumes "length array \<le> 2 ^ 31"
  shows "{d3_shuffle rnd array | rnd. unit_source rnd} = {ys. mset ys = mset array}"
proof (intro equalityI subsetI)
  fix ys
  assume "ys \<in> {d3_shuffle rnd array | rnd. unit_source rnd}"
  then show "ys \<in> {ys. mset ys = mset array}"
    using shuffle_loop_permutes assms by (auto simp: d3_shuffle_def)
next
  fix ys
  assume ys: "ys \<in> {ys. mset ys = mset array}"
  then have "length ys = length array" by (metis mem_Collect_eq size_mset)
  with ys obtain rnd where "unit_source rnd" "shuffle_loop rnd (length array) array = ys"
    using shuffle_loop_reaches [of array ys "length array"] assms by auto
  then show "ys \<in> {d3_shuffle rnd array | rnd. unit_source rnd}"
    by (auto simp: d3_shuffle_def)
qed

theorem d3_shuffle_permutations_witness:
  "\<exists>rnd. unit_source rnd \<and> d3_shuffle rnd [JNull, JUndef, JStr ''a''] = [JStr ''a'', JNull, JUndef]"
proof -
  have "[JStr ''a'', JNull, JUndef] \<in> {ys. mset ys = mset [JNull, JUndef, JStr ''a'']}"
    by (simp add: add_mset_commute)
  then have "[JStr ''a'', JNull, JUndef] \<in> {d3_shuffle rnd [JNull, JUndef, JStr ''a''] | rnd. unit_source rnd}"
    by (subst d3_shuffle_permutations) simp
  then show ?thesis by auto
qed

text \<open>
  Merging.  The two nested loops of \<open>d3.merge\<close>, which fill a preallocated array from the
  back, compute the concatenation of the arrays.
\<close>

theorem d3_merge_concat: "d3_merge arrays = concat arrays"
  using merge_outer_eq [of "length arrays" arrays "sum_list (map length arrays)"
      "replicate (sum_list (map length arrays)) JUndef"]
  by (simp add: d3_merge_def)

text \<open>
  Transposition.  Transposing a non-empty rectangular matrix with at least one column
  twice gives the matrix back, and entry \<open>(i, j)\<close> of the transpose is entry \<open>(j, i)\<close>.
\<close>

theorem d3_transpose_involution:
  assumes "M \<noteq> []" "\<forall>r \<in> set M. length r = c" "0 < c"
  shows "d3_transpose (d3_transpose M) = M \<and>
    (\<forall>i < c. \<forall>j < length M. d3_transpose M ! i ! j = M ! j ! i)"
proof -
  have T: "d3_transpose M = map (\<lambda>i. map (\<lambda>a. a ! i) M) [0..<c]"
    using assms by (simp add: d3_transpose_def d3_zip_rectangular)
  have "d3_transpose (d3_transpose M) =
      map (\<lambda>j. map (\<lambda>row. row ! j) (d3_transpose M)) [0..<length M]"
    unfolding d3_transpose_def [of "d3_transpose M"]
    using assms(3) by (intro d3_zip_rectangular) (auto simp: T)
  also have "\<dots> = M"
    using assms(2) by (intro nth_equalityI) (auto simp: T intro: nth_equalityI)
  finally show ?thesis by (simp add: T)
qed

theorem d3_transpose_involution_witness:
  "d3_transpose (d3_transpose [[JNull, JUndef, JStr ''a''], [JStr ''b'', JNull, JNull]]) =
     [[JNull, JUndef, JStr ''a''], [JStr ''b'', JNull, JNull]]"
  using d3_transpose_involution [of "[[JNull, JUndef, JStr ''a''], [JStr ''b'', JNull, JNull]]" 3]
  by simp

text \<open>
  Ranges.  For every step that is a decimal fraction, \<open>d3.range\<close> ends.  With a non-zero
  step it returns exactly the arithmetic progression of \<open>\<lceil>(stop - start) / step\<rceil>\<close> terms; with
  a zero step it throws when \<open>start < stop\<close> and returns the empty array otherwise.
\<close>

theorem d3_range_progression:
  assumes "step * 10 ^ p \<in> \<int>"
  shows "d3_range start stop step =
    Some (if step = 0 \<and> start < stop then Inl InfiniteRange
          else Inr (map (\<lambda>i. start + step * real i)
                 [0..<(if step = 0 then 0 else range_count start stop step)]))"
  using assms by (rule d3_range_exact)

theorem d3_range_progression_witness:
  "d3_range 0 1 (1 / 4) = Some (Inr (map (\<lambda>i. 0 + 1 / 4 * real i) [0..<4]))"
  using d3_range_progression [of "1 / 4" 2 0 1] by (simp add: range_count_def)

end
