(* ===== verification/D3_Map.thy ===== *)
theory D3_Map
  imports JS_Prelude "HOL-Library.AList"
begin

text \<open>
  Associative containers (\<open>d3.js\<close> lines 170 to 187, 221 to 297 and 361 to 383): \<open>d3.keys\<close>,
  \<open>d3.values\<close>, \<open>d3.entries\<close>, \<open>d3.map\<close> and \<open>d3.set\<close>.

  An object is the list of its own enumerable properties in creation order, which is the
  order in which \<open>for ... in\<close> visits them: assigning an existing property keeps its place,
  a new one is appended, \<open>delete\<close> removes it.  A \<open>d3_Map\<close> stores the value of \<open>key\<close> under the
  property \<open>"\0" + key\<close>, so keys such as \<open>__proto__\<close> or \<open>hasOwnProperty\<close> are safe; keys are
  taken after their conversion to strings.
\<close>

section \<open>Objects\<close>

type_synonym 'v obj = "(string \<times> 'v) list"

record 'v entry =
  key :: string
  "value" :: 'v

definition d3_keys :: "'v obj \<Rightarrow> string list" where
  "d3_keys m = map fst m"

definition d3_values :: "'v obj \<Rightarrow> 'v list" where
  "d3_values m = map snd m"

definition d3_entries :: "'v obj \<Rightarrow> 'v entry list" where
  "d3_entries m = map (\<lambda>(k, v). \<lparr>key = k, value = v\<rparr>) m"

section \<open>Maps\<close>

definition d3_map_prefixCode :: code_unit where
  "d3_map_prefixCode = 0"

definition d3_map_prefix :: char where
  "d3_map_prefix = char_of d3_map_prefixCode"

definition d3_map_has :: "'v obj \<Rightarrow> string \<Rightarrow> bool" where
  "d3_map_has this k \<longleftrightarrow> d3_map_prefix # k \<in> set (map fst this)"

definition d3_map_get :: "'v obj \<Rightarrow> string \<Rightarrow> 'v option" where
  "d3_map_get this k = map_of this (d3_map_prefix # k)"

definition d3_map_set :: "'v obj \<Rightarrow> string \<Rightarrow> 'v \<Rightarrow> 'v obj" where
  "d3_map_set this k v = AList.update (d3_map_prefix # k) v this"

text \<open>The returned boolean is the value of \<open>key in this && delete this[key]\<close>.\<close>

definition d3_map_remove :: "'v obj \<Rightarrow> string \<Rightarrow> bool \<times> 'v obj" where
  "d3_map_remove this k =
     (if d3_map_prefix # k \<in> set (map fst this)
      then (True, AList.delete (d3_map_prefix # k) this) else (False, this))"

text \<open>The test \<open>key.charCodeAt(0) === d3_map_prefixCode\<close>, false on the empty string.\<close>

definition prefixed :: "string \<Rightarrow> bool" where
  "prefixed k \<longleftrightarrow> k \<noteq> [] \<and> charCode (hd k) = d3_map_prefixCode"

text \<open>The calls \<open>f(key, value)\<close> that \<open>forEach\<close> makes, in order.\<close>

fun d3_map_forEach :: "'v obj \<Rightarrow> (string \<times> 'v) list" where
  "d3_map_forEach [] = []"
| "d3_map_forEach ((k, v) # this) =
     (if prefixed k then (tl k, v) # d3_map_forEach this else d3_map_forEach this)"

definition d3_map_keys :: "'v obj \<Rightarrow> string list" where
  "d3_map_keys this = map fst (d3_map_forEach this)"

definition d3_map_values :: "'v obj \<Rightarrow> 'v list" where
  "d3_map_values this = map snd (d3_map_forEach this)"

definition d3_map_entries :: "'v obj \<Rightarrow> 'v entry list" where
  "d3_map_entries this = map (\<lambda>(k, v). \<lparr>key = k, value = v\<rparr>) (d3_map_forEach this)"

fun d3_map_size :: "'v obj \<Rightarrow> nat" where
  "d3_map_size [] = 0"
| "d3_map_size ((k, v) # this) = (if prefixed k then Suc (d3_map_size this) else d3_map_size this)"

fun d3_map_empty :: "'v obj \<Rightarrow> bool" where
  "d3_map_empty [] = True"
| "d3_map_empty ((k, v) # this) = (if prefixed k then False else d3_map_empty this)"

text \<open>\<open>d3.map(object)\<close>: from a plain object, or a copy of another map.\<close>

definition d3_map :: "'v obj \<Rightarrow> 'v obj" where
  "d3_map object = fold (\<lambda>(k, v) m. d3_map_set m k v) object []"

definition d3_map_copy :: "'v obj \<Rightarrow> 'v obj" where
  "d3_map_copy object = fold (\<lambda>(k, v) m. d3_map_set m k v) (d3_map_forEach object) []"

section \<open>Sets\<close>

definition d3_set_add :: "bool obj \<Rightarrow> string \<Rightarrow> bool obj" where
  "d3_set_add this v = AList.update (d3_map_prefix # v) True this"

definition d3_set_remove :: "bool obj \<Rightarrow> string \<Rightarrow> bool \<times> bool obj" where
  "d3_set_remove this v =
     (if d3_map_prefix # v \<in> set (map fst this)
      then (True, AList.delete (d3_map_prefix # v) this) else (False, this))"

definition d3_set_forEach :: "bool obj \<Rightarrow> string list" where
  "d3_set_forEach this = map tl (filter prefixed (map fst this))"

definition d3_set :: "string list \<Rightarrow> bool obj" where
  "d3_set array = fold (\<lambda>v s. d3_set_add s v) array []"

section \<open>The interface\<close>

lemma update_new: "k \<notin> fst ` set m \<Longrightarrow> AList.update k v m = m @ [(k, v)]"
  by (induction m) auto

text \<open>
  What the rest of the library relies on: a map from strings whose keys are listed once
  each in insertion order.
\<close>

locale string_map =
  fixes empty :: "'m" and has :: "'m \<Rightarrow> string \<Rightarrow> bool" and get :: "'m \<Rightarrow> string \<Rightarrow> 'v option"
    and put :: "'m \<Rightarrow> string \<Rightarrow> 'v \<Rightarrow> 'm" and remove :: "'m \<Rightarrow> string \<Rightarrow> bool \<times> 'm"
    and visits :: "'m \<Rightarrow> (string \<times> 'v) list" and invar :: "'m \<Rightarrow> bool"
  assumes invar_empty: "invar empty"
    and visits_empty: "visits empty = []"
    and invar_put: "invar m \<Longrightarrow> invar (put m k v)"
    and invar_remove: "invar m \<Longrightarrow> invar (snd (remove m k))"
    and has_get: "has m k \<longleftrightarrow> get m k \<noteq> None"
    and get_visits: "invar m \<Longrightarrow> get m k = map_of (visits m) k"
    and distinct_visits: "invar m \<Longrightarrow> distinct (map fst (visits m))"
    and visits_put: "invar m \<Longrightarrow> visits (put m k v) = AList.update k v (visits m)"
    and remove_has: "fst (remove m k) = has m k"
    and visits_remove: "invar m \<Longrightarrow> visits (snd (remove m k)) = AList.delete k (visits m)"
begin

lemma get_put: "invar m \<Longrightarrow> get (put m k v) k' = (if k' = k then Some v else get m k')"
  by (simp add: get_visits invar_put visits_put update_conv')

lemma get_remove: "invar m \<Longrightarrow> get (snd (remove m k)) k' = (if k' = k then None else get m k')"
  by (simp add: get_visits invar_remove visits_remove delete_conv')

lemma visits_put_new: "invar m \<Longrightarrow> \<not> has m k \<Longrightarrow> visits (put m k v) = visits m @ [(k, v)]"
  by (simp add: visits_put has_get get_visits map_of_eq_None_iff update_new)

lemma keys_put: "invar m \<Longrightarrow> set (map fst (visits (put m k v))) = insert k (set (map fst (visits m)))"
  by (auto simp: visits_put dom_map_of_conv_image_fst [symmetric] update_conv')

text \<open>Storing a list of bindings with distinct keys into an empty map reproduces the list.\<close>

lemma visits_fold_put:
  assumes "distinct (map fst kvs)" "invar m" "set (map fst kvs) \<inter> set (map fst (visits m)) = {}"
  shows "visits (fold (\<lambda>(k, v) m. put m k v) kvs m) = visits m @ kvs \<and>
    invar (fold (\<lambda>(k, v) m. put m k v) kvs m)"
  using assms
proof (induction kvs arbitrary: m)
  case (Cons kv kvs)
  obtain k v where kv: "kv = (k, v)" by force
  have "\<not> has m k"
    using Cons.prems kv by (simp add: has_get get_visits map_of_eq_None_iff)
  then have "visits (put m k v) = visits m @ [(k, v)]"
    using Cons.prems by (simp add: visits_put_new)
  then show ?case using Cons.IH [of "put m k v"] Cons.prems kv by (auto simp: invar_put)
qed simp

end

definition d3_map_invar :: "'v obj \<Rightarrow> bool" where
  "d3_map_invar m \<longleftrightarrow> distinct (map fst m) \<and> list_all prefixed (map fst m)"

lemma prefixed_Cons [simp]: "prefixed (c # k) \<longleftrightarrow> c = d3_map_prefix"
proof -
  have "charCode d3_map_prefix = 0"
    by (simp add: charCode_def d3_map_prefix_def d3_map_prefixCode_def)
  then show ?thesis
    by (metis charCode_inject d3_map_prefixCode_def list.discI list.sel(1) prefixed_def)
qed

lemma prefixed_iff: "prefixed k \<longleftrightarrow> (\<exists>k'. k = d3_map_prefix # k')"
  by (cases k) (auto simp: prefixed_def [of "[]"])

lemma d3_map_invar_Cons:
  "d3_map_invar ((k, v) # m) \<longleftrightarrow>
     (\<exists>k'. k = d3_map_prefix # k') \<and> k \<notin> fst ` set m \<and> d3_map_invar m"
  by (auto simp: d3_map_invar_def prefixed_iff)

lemma d3_map_invar_Nil [simp]: "d3_map_invar []"
  by (simp add: d3_map_invar_def)

lemma d3_map_forEach_iff: "d3_map_invar m \<Longrightarrow> k \<in> fst ` set (d3_map_forEach m) \<longleftrightarrow> d3_map_prefix # k \<in> fst ` set m"
  by (induction m rule: d3_map_forEach.induct) (auto simp: d3_map_invar_Cons)

lemma d3_map_distinct_forEach: "d3_map_invar m \<Longrightarrow> distinct (map fst (d3_map_forEach m))"
  by (induction m rule: d3_map_forEach.induct) (force simp: d3_map_invar_Cons d3_map_forEach_iff)+

lemma d3_map_get_forEach: "d3_map_invar m \<Longrightarrow> d3_map_get m k = map_of (d3_map_forEach m) k"
  unfolding d3_map_get_def
  by (induction m rule: d3_map_forEach.induct) (auto simp: d3_map_invar_Cons)

lemma d3_map_set_forEach:
  "d3_map_invar m \<Longrightarrow> d3_map_forEach (d3_map_set m k v) = AList.update k v (d3_map_forEach m)"
  unfolding d3_map_set_def
  by (induction m rule: d3_map_forEach.induct) (auto simp: d3_map_invar_Cons)

lemma d3_map_invar_set: "d3_map_invar m \<Longrightarrow> d3_map_invar (d3_map_set m k v)"
  unfolding d3_map_set_def
  by (induction m rule: d3_map_forEach.induct) (auto simp: d3_map_invar_Cons dom_update)

lemma d3_map_remove_forEach:
  "d3_map_invar m \<Longrightarrow> d3_map_forEach (snd (d3_map_remove m k)) = AList.delete k (d3_map_forEach m)"
proof -
  have del: "d3_map_invar m \<Longrightarrow>
      d3_map_forEach (AList.delete (d3_map_prefix # k) m) = AList.delete k (d3_map_forEach m)"
    by (induction m rule: d3_map_forEach.induct) (auto simp: d3_map_invar_Cons)
  moreover have "AList.delete (d3_map_prefix # k) m = m" if "d3_map_prefix # k \<notin> fst ` set m"
    using that by (simp add: delete_id)
  ultimately show "d3_map_invar m \<Longrightarrow> ?thesis" by (auto simp: d3_map_remove_def)
qed

lemma d3_map_invar_remove: "d3_map_invar m \<Longrightarrow> d3_map_invar (snd (d3_map_remove m k))"
  by (auto simp: d3_map_remove_def d3_map_invar_def distinct_map_filter list_all_iff
      AList.delete_eq)

interpretation d3map: string_map "[]" d3_map_has d3_map_get d3_map_set d3_map_remove
    d3_map_forEach d3_map_invar
proof (unfold_locales, goal_cases)
  case (5 m k)
  then show ?case
    by (auto simp: d3_map_has_def d3_map_get_def map_of_eq_None_iff)
next
  case (9 m k)
  then show ?case by (simp add: d3_map_remove_def d3_map_has_def)
qed (auto simp: d3_map_invar_set d3_map_invar_remove d3_map_get_forEach
    d3_map_distinct_forEach d3_map_set_forEach d3_map_remove_forEach)

lemma d3_map_size_forEach: "d3_map_size m = length (d3_map_forEach m)"
  by (induction m rule: d3_map_forEach.induct) auto

lemma d3_map_empty_forEach: "d3_map_empty m \<longleftrightarrow> d3_map_forEach m = []"
  by (induction m rule: d3_map_forEach.induct) auto

text \<open>A set is a map to \<open>true\<close>: the operations coincide, so the map facts carry over.\<close>

lemma d3_set_as_map:
  "d3_set_add s v = d3_map_set s v True" "d3_set_remove = d3_map_remove"
  "d3_set_forEach s = d3_map_keys s"
proof -
  show "d3_set_forEach s = d3_map_keys s"
    by (induction s rule: d3_map_forEach.induct) (auto simp: d3_set_forEach_def d3_map_keys_def)
qed (simp_all add: d3_set_add_def d3_map_set_def d3_set_remove_def d3_map_remove_def fun_eq_iff)

text \<open>The reachable maps: what any program that uses only the map operations can hold.\<close>

datatype 'v map_op = SetOp string 'v | RemoveOp string

fun map_step :: "'v obj \<Rightarrow> 'v map_op \<Rightarrow> 'v obj" where
  "map_step m (SetOp k v) = d3_map_set m k v"
| "map_step m (RemoveOp k) = snd (d3_map_remove m k)"

fun spec_step :: "(string \<rightharpoonup> 'v) \<Rightarrow> 'v map_op \<Rightarrow> (string \<rightharpoonup> 'v)" where
  "spec_step m (SetOp k v) = m(k \<mapsto> v)"
| "spec_step m (RemoveOp k) = m(k := None)"

lemma map_run_invar: "d3_map_invar m \<Longrightarrow> d3_map_invar (foldl map_step m ops)"
proof (induction ops arbitrary: m)
  case (Cons op ops)
  then show ?case by (cases op) (auto simp: d3map.invar_put d3map.invar_remove)
qed simp

lemma map_run_get: "d3_map_invar m \<Longrightarrow>
   d3_map_get (foldl map_step m ops) = foldl spec_step (d3_map_get m) ops"
proof (induction ops arbitrary: m)
  case (Cons op ops)
  have "d3_map_get (map_step m op) = spec_step (d3_map_get m) op"
    using Cons.prems by (cases op) (auto simp: d3map.get_put d3map.get_remove)
  moreover have "d3_map_invar (map_step m op)"
    using map_run_invar [OF Cons.prems, of "[op]"] by simp
  ultimately show ?case using Cons.IH [of "map_step m op"] by simp
qed simp

section \<open>Properties\<close>

text \<open>
  (C35) \<open>d3.map\<close> refines a partial function.  After any sequence of \<open>set\<close> and \<open>remove\<close> calls
  on a new map, \<open>get\<close> and \<open>has\<close> agree with the partial function that the same sequence
  builds, whatever strings are used as keys; \<open>keys\<close> lists its domain once each, and \<open>size\<close>
  and \<open>empty\<close> agree with it.
\<close>

theorem d3_map_refines_function:
  fixes ops :: "'v map_op list"
  defines "m \<equiv> foldl map_step [] ops" and "spec \<equiv> foldl spec_step Map.empty ops"
  shows "d3_map_get m = spec \<and> (\<forall>k. d3_map_has m k \<longleftrightarrow> k \<in> dom spec) \<and>
    set (d3_map_keys m) = dom spec \<and> distinct (d3_map_keys m) \<and>
    d3_map_size m = card (dom spec) \<and> (d3_map_empty m \<longleftrightarrow> spec = Map.empty)"
proof -
  have inv: "d3_map_invar m" unfolding m_def by (rule map_run_invar) simp
  have get: "d3_map_get m = spec"
    using map_run_get [of "[]" ops] by (simp add: m_def spec_def d3_map_get_def [abs_def] fun_eq_iff)
  then have dom: "set (d3_map_keys m) = dom spec"
    using inv by (auto simp: d3_map_keys_def d3_map_get_forEach [OF inv, abs_def]
        dom_map_of_conv_image_fst [symmetric] simp flip: get)
  have dist: "distinct (d3_map_keys m)" using inv by (simp add: d3_map_keys_def d3map.distinct_visits)
  have "d3_map_size m = card (dom spec)"
    using dom dist distinct_card [OF dist] by (simp add: d3_map_size_forEach d3_map_keys_def)
  moreover have "d3_map_empty m \<longleftrightarrow> spec = Map.empty"
    unfolding dom_eq_empty_conv [symmetric] dom [symmetric]
    by (simp add: d3_map_empty_forEach d3_map_keys_def)
  moreover have "\<forall>k. d3_map_has m k \<longleftrightarrow> k \<in> dom spec"
    using get by (auto simp: d3map.has_get)
  ultimately show ?thesis using get dom dist by blast
qed

text \<open>
  \<open>d3.set\<close> is a set.  The values of the set built from an array are the elements of the
  array, each once, in the order of first occurrence.
\<close>

theorem d3_set_values:
  "d3_map_keys (d3_set array) = rev (remdups (rev array))"
proof -
  have "d3_map_invar (d3_set array) \<and> map fst (d3_map_forEach (d3_set array)) = rev (remdups (rev array))"
  proof (induction array rule: rev_induct)
    case Nil
    then show ?case by (simp add: d3_set_def)
  next
    case (snoc v array)
    let ?s = "d3_set array"
    have s: "d3_set (array @ [v]) = d3_map_set ?s v True"
      by (simp add: d3_set_def d3_set_as_map)
    have "map fst (AList.update v True (d3_map_forEach ?s)) =
        (if v \<in> fst ` set (d3_map_forEach ?s) then map fst (d3_map_forEach ?s)
         else map fst (d3_map_forEach ?s) @ [v])"
      by (auto simp: update_keys)
    moreover have "fst ` set (d3_map_forEach ?s) = set array"
      using snoc.IH by (metis set_map set_remdups set_rev)
    ultimately show ?case
      using snoc.IH by (simp add: s d3map.invar_put d3map.visits_put)
  qed
  then show ?thesis by (simp add: d3_map_keys_def)
qed

end
