(* ===== verification/D3_Nest.thy ===== *)
theory D3_Nest
  imports D3_Map
begin

text \<open>
  Hierarchical grouping (\<open>d3.js\<close> lines 298 to 360): \<open>d3.nest\<close>.  The configuration that the
  setters \<open>key\<close>, \<open>sortKeys\<close>, \<open>sortValues\<close> and \<open>rollup\<close> build is the record \<open>nest\<close>; the inner
  functions \<open>map\<close> and \<open>entries\<close> are \<open>nest_map\<close> (with \<open>d3.map\<close> as the map type),
  \<open>nest_object\<close> (without a map type) and \<open>nest_entries\<close>.  The recursion depth of the source
  counts consumed key functions; the model recurses over the remaining ones.
\<close>

section \<open>Configuration\<close>

record ('a, 'r) nest =
  nkeys :: "('a \<Rightarrow> string) list"
  sortKeys :: "(string \<Rightarrow> string \<Rightarrow> jsnum) option list"
  sortValues :: "('a \<Rightarrow> 'a \<Rightarrow> jsnum) option"
  rollup :: "('a list \<Rightarrow> 'r) option"

definition d3_nest :: "('a, 'r) nest" where
  "d3_nest = \<lparr>nkeys = [], sortKeys = [], sortValues = None, rollup = None\<rparr>"

definition nest_key :: "('a, 'r) nest \<Rightarrow> ('a \<Rightarrow> string) \<Rightarrow> ('a, 'r) nest" where
  "nest_key n d = n\<lparr>nkeys := nkeys n @ [d]\<rparr>"

text \<open>\<open>sortKeys[keys.length - 1] = order\<close>: earlier holes are \<open>undefined\<close>; with no key function
  yet the assignment creates the property \<open>"-1"\<close>, which is never read.\<close>

definition nest_sortKeys :: "('a, 'r) nest \<Rightarrow> (string \<Rightarrow> string \<Rightarrow> jsnum) \<Rightarrow> ('a, 'r) nest" where
  "nest_sortKeys n order =
     (let l = length (nkeys n); s = sortKeys n
      in if l = 0 then n
         else if l - 1 < length s then n\<lparr>sortKeys := s[l - 1 := Some order]\<rparr>
         else n\<lparr>sortKeys := s @ replicate (l - 1 - length s) None @ [Some order]\<rparr>)"

definition nest_sortValues :: "('a, 'r) nest \<Rightarrow> ('a \<Rightarrow> 'a \<Rightarrow> jsnum) \<Rightarrow> ('a, 'r) nest" where
  "nest_sortValues n order = n\<lparr>sortValues := Some order\<rparr>"

definition nest_rollup :: "('a, 'r) nest \<Rightarrow> ('a list \<Rightarrow> 'r) \<Rightarrow> ('a, 'r) nest" where
  "nest_rollup n f = n\<lparr>rollup := Some f\<rparr>"

section \<open>Grouping\<close>

text \<open>The value at a leaf, and the nested maps above it.\<close>

datatype ('a, 'r) nested =
    Values "'a list"
  | Rolled 'r
  | Mapped "(string \<times> ('a, 'r) nested) list"

fun group_values :: "('a \<Rightarrow> string) \<Rightarrow> 'a list \<Rightarrow> 'a list obj \<Rightarrow> 'a list obj" where
  "group_values kf [] valuesByKey = valuesByKey"
| "group_values kf (x # xs) valuesByKey =
     (case d3_map_get valuesByKey (kf x) of
        Some values \<Rightarrow> group_values kf xs (d3_map_set valuesByKey (kf x) (values @ [x]))
      | None \<Rightarrow> group_values kf xs (d3_map_set valuesByKey (kf x) [x]))"

definition nest_leaf :: "('a, 'r) nest \<Rightarrow> 'a list \<Rightarrow> ('a, 'r) nested" where
  "nest_leaf n array =
     (case rollup n of
        Some f \<Rightarrow> Rolled (f array)
      | None \<Rightarrow> (case sortValues n of Some order \<Rightarrow> Values (js_sort order array) | None \<Rightarrow> Values array))"

text \<open>\<open>map\<close> with \<open>d3.map\<close> as \<open>mapType\<close>: the result is a \<open>d3_Map\<close>.\<close>

primrec nest_map :: "('a, 'r) nest \<Rightarrow> ('a \<Rightarrow> string) list \<Rightarrow> 'a list \<Rightarrow> ('a, 'r) nested" where
  "nest_map n [] array = nest_leaf n array"
| "nest_map n (kf # ks) array =
     Mapped (fold (\<lambda>(keyValue, values) object. d3_map_set object keyValue (nest_map n ks values))
       (d3_map_forEach (group_values kf array [])) [])"

text \<open>\<open>map\<close> without a map type: the result is a plain object.\<close>

primrec nest_object :: "('a, 'r) nest \<Rightarrow> ('a \<Rightarrow> string) list \<Rightarrow> 'a list \<Rightarrow> ('a, 'r) nested" where
  "nest_object n [] array = nest_leaf n array"
| "nest_object n (kf # ks) array =
     Mapped (fold (\<lambda>(keyValue, values) object. AList.update keyValue (nest_object n ks values) object)
       (d3_map_forEach (group_values kf array [])) [])"

datatype ('a, 'r) entries =
    EValues "'a list"
  | ERolled 'r
  | ENested "(string \<times> ('a, 'r) entries) list"

text \<open>
  \<open>entries\<close>: an array of \<open>{key, values}\<close> pairs per level, sorted by the level's comparator when
  there is one.  \<open>sks\<close> are the comparators of the remaining levels.
\<close>

definition level_order :: "(string \<Rightarrow> string \<Rightarrow> jsnum) option list \<Rightarrow> (string \<Rightarrow> string \<Rightarrow> jsnum) option" where
  "level_order sks = (case sks of [] \<Rightarrow> None | s # _ \<Rightarrow> s)"

definition sort_level ::
  "(string \<Rightarrow> string \<Rightarrow> jsnum) option \<Rightarrow> (string \<times> 'e) list \<Rightarrow> (string \<times> 'e) list" where
  "sort_level s array = (case s of None \<Rightarrow> array | Some order \<Rightarrow> js_sort (\<lambda>a b. order (fst a) (fst b)) array)"

fun nest_entries ::
  "(string \<Rightarrow> string \<Rightarrow> jsnum) option list \<Rightarrow> ('a, 'r) nested \<Rightarrow> ('a, 'r) entries" where
  "nest_entries sks (Values vs) = EValues vs"
| "nest_entries sks (Rolled r) = ERolled r"
| "nest_entries sks (Mapped m) =
     ENested (sort_level (level_order sks)
       (map (\<lambda>(k, keyMap). (tl k, nest_entries (tl sks) keyMap)) (filter (\<lambda>(k, v). prefixed k) m)))"

text \<open>\<open>nest.map(array, d3.map)\<close>, \<open>nest.map(array)\<close> and \<open>nest.entries(array)\<close>.\<close>

definition d3_nest_map :: "('a, 'r) nest \<Rightarrow> 'a list \<Rightarrow> ('a, 'r) nested" where
  "d3_nest_map n array = nest_map n (nkeys n) array"

definition d3_nest_object :: "('a, 'r) nest \<Rightarrow> 'a list \<Rightarrow> ('a, 'r) nested" where
  "d3_nest_object n array = nest_object n (nkeys n) array"

definition d3_nest_entries :: "('a, 'r) nest \<Rightarrow> 'a list \<Rightarrow> ('a, 'r) entries" where
  "d3_nest_entries n array = nest_entries (sortKeys n) (nest_map n (nkeys n) array)"

section \<open>What the groups hold\<close>

lemma group_values_invar: "d3_map_invar m \<Longrightarrow> d3_map_invar (group_values kf xs m)"
  by (induction xs arbitrary: m) (auto simp: d3map.invar_put split: option.splits)

lemma group_values_get:
  "d3_map_invar m \<Longrightarrow> d3_map_get (group_values kf xs m) k =
     (let sel = filter (\<lambda>x. kf x = k) xs
      in case d3_map_get m k of None \<Rightarrow> (if sel = [] then None else Some sel) | Some vs \<Rightarrow> Some (vs @ sel))"
proof (induction xs arbitrary: m)
  case (Cons x xs)
  then show ?case
    by (auto simp: Let_def d3map.get_put d3map.invar_put split: option.splits)
qed (auto simp: Let_def split: option.splits)

lemma group_values_mset:
  "d3_map_invar m \<Longrightarrow> mset (concat (map snd (d3_map_forEach (group_values kf xs m)))) =
     mset (concat (map snd (d3_map_forEach m))) + mset xs"
proof (induction xs arbitrary: m)
  case (Cons x xs)
  have upd: "map_of kvs k = Some vs \<Longrightarrow> distinct (map fst kvs) \<Longrightarrow>
      mset (concat (map snd (AList.update k (vs @ [x]) kvs))) = add_mset x (mset (concat (map snd kvs)))"
    for kvs :: "(string \<times> 'a list) list" and k vs
    by (induction kvs) (auto split: if_splits)
  show ?case
  proof (cases "d3_map_get m (kf x)")
    case None
    then have "d3_map_forEach (d3_map_set m (kf x) [x]) = d3_map_forEach m @ [(kf x, [x])]"
      using Cons.prems by (simp add: d3map.visits_put_new d3map.has_get)
    then show ?thesis using None Cons.IH [of "d3_map_set m (kf x) [x]"] Cons.prems
      by (simp add: d3map.invar_put)
  next
    case (Some vs)
    then show ?thesis
      using Cons.IH [of "d3_map_set m (kf x) (vs @ [x])"] Cons.prems
        upd [of "d3_map_forEach m" "kf x" vs]
      by (simp add: d3map.invar_put d3map.visits_put d3map.get_visits d3map.distinct_visits)
  qed
qed simp

text \<open>A level of the nesting, as the list of visited bindings.\<close>

lemma nest_level:
  fixes F :: "'a list \<Rightarrow> 'b"
  assumes "d3_map_invar g"
  defines "m \<equiv> fold (\<lambda>(k, vs) object. d3_map_set object k (F vs)) (d3_map_forEach g) []"
  shows "d3_map_invar m" and "d3_map_forEach m = map (\<lambda>(k, vs). (k, F vs)) (d3_map_forEach g)"
proof -
  let ?kvs = "map (\<lambda>(k, vs). (k, F vs)) (d3_map_forEach g)"
  have m: "m = fold (\<lambda>(k, v) object. d3_map_set object k v) ?kvs []"
    unfolding m_def by (simp add: fold_map comp_def split_def)
  have "distinct (map fst ?kvs)"
    using d3map.distinct_visits [OF assms(1)] by (simp add: comp_def split_def)
  from d3map.visits_fold_put [OF this, of "[]"]
  show "d3_map_invar m" "d3_map_forEach m = ?kvs" by (auto simp: m)
qed

lemma nest_map_Cons:
  obtains m where "nest_map n (kf # ks) array = Mapped m" "d3_map_invar m"
    "d3_map_forEach m = map (\<lambda>(k, vs). (k, nest_map n ks vs)) (d3_map_forEach (group_values kf array []))"
  using nest_level [OF group_values_invar [OF d3_map_invar_Nil], where F = "nest_map n ks"] by simp

lemma map_of_map_values: "map_of (map (\<lambda>(k, v). (k, F v)) kvs) k = map_option F (map_of kvs k)"
  by (induction kvs) auto

fun nested_lookup :: "('a, 'r) nested \<Rightarrow> string list \<Rightarrow> ('a, 'r) nested option" where
  "nested_lookup t [] = Some t"
| "nested_lookup (Mapped m) (k # path) =
     (case d3_map_get m k of None \<Rightarrow> None | Some t \<Rightarrow> nested_lookup t path)"
| "nested_lookup t (k # path) = None"

fun entries_values :: "('a, 'r) entries \<Rightarrow> 'a list" where
  "entries_values (EValues vs) = vs"
| "entries_values (ERolled r) = []"
| "entries_values (ENested es) = concat (map (\<lambda>(k, e). entries_values e) es)"

lemma nest_map_lookup:
  "length path = length ks \<Longrightarrow>
     nested_lookup (nest_map n ks array) path =
       (let sel = filter (\<lambda>x. map (\<lambda>kf. kf x) ks = path) array
        in if sel = [] \<and> ks \<noteq> [] then None else Some (nest_leaf n sel))"
proof (induction ks arbitrary: array path)
  case (Cons kf ks)
  obtain k p where path: "path = k # p" using Cons.prems by (cases path) auto
  let ?grp = "filter (\<lambda>x. kf x = k) array"
  obtain m where m: "nest_map n (kf # ks) array = Mapped m" "d3_map_invar m"
    "d3_map_forEach m = map (\<lambda>(k, vs). (k, nest_map n ks vs)) (d3_map_forEach (group_values kf array []))"
    by (rule nest_map_Cons)
  have inv: "d3_map_invar (group_values kf array [])" by (simp add: group_values_invar)
  have "d3_map_get m k = map_option (nest_map n ks) (d3_map_get (group_values kf array []) k)"
    using m inv by (simp add: d3map.get_visits map_of_map_values)
  also have "d3_map_get (group_values kf array []) k = (if ?grp = [] then None else Some ?grp)"
    by (subst group_values_get) (simp_all add: Let_def d3_map_get_def)
  finally have get: "d3_map_get m k = (if ?grp = [] then None else Some (nest_map n ks ?grp))"
    by simp
  have sel: "filter (\<lambda>x. map (\<lambda>kf. kf x) (kf # ks) = path) array =
      filter (\<lambda>x. map (\<lambda>kf. kf x) ks = p) ?grp"
    by (simp add: path conj_commute)
  have IH: "nested_lookup (nest_map n ks ?grp) p =
       (let sel = filter (\<lambda>x. map (\<lambda>kf. kf x) ks = p) ?grp
        in if sel = [] \<and> ks \<noteq> [] then None else Some (nest_leaf n sel))"
    using Cons.prems path by (intro Cons.IH) simp
  show ?case
  proof (cases "?grp = []")
    case True
    then show ?thesis unfolding sel unfolding m(1) path nested_lookup.simps get by (simp del: filter_filter)
  next
    case False
    have "ks = [] \<Longrightarrow> p = []" using Cons.prems path by simp
    with False show ?thesis
      unfolding sel unfolding m(1) path nested_lookup.simps get by (simp add: IH Let_def del: filter_filter)
  qed
qed simp

lemma mset_sort_level [simp]: "mset (sort_level s xs) = mset xs"
  by (simp add: sort_level_def split: option.splits)

lemma mset_concat_cong: "mset xs = mset ys \<Longrightarrow> mset (concat (map f xs)) = mset (concat (map f ys))"
  by (simp add: mset_concat) (metis mset_map sum_mset_sum_list)

lemma filter_prefixed_forEach: "map (\<lambda>(k, v). (tl k, F v)) (filter (\<lambda>(k, v). prefixed k) m) =
   map (\<lambda>(k, v). (k, F v)) (d3_map_forEach m)"
  by (induction m rule: d3_map_forEach.induct) auto

lemma nest_entries_mset:
  "rollup n = None \<Longrightarrow> mset (entries_values (nest_entries sks (nest_map n ks array))) = mset array"
proof (induction ks arbitrary: array sks)
  case Nil
  then show ?case by (auto simp: nest_leaf_def split: option.splits)
next
  case (Cons kf ks)
  let ?g = "d3_map_forEach (group_values kf array [])"
  obtain m where m: "nest_map n (kf # ks) array = Mapped m"
    "d3_map_forEach m = map (\<lambda>(k, vs). (k, nest_map n ks vs)) ?g"
    by (rule nest_map_Cons)
  let ?e = "\<lambda>vs. entries_values (nest_entries (tl sks) (nest_map n ks vs))"
  have lvl: "map (\<lambda>(k, keyMap). (tl k, nest_entries (tl sks) keyMap)) (filter (\<lambda>(k, v). prefixed k) m) =
      map (\<lambda>(k, vs). (k, nest_entries (tl sks) (nest_map n ks vs))) ?g"
    unfolding filter_prefixed_forEach by (simp add: m(2) comp_def split_def)
  have "mset (entries_values (nest_entries sks (nest_map n (kf # ks) array))) =
      mset (concat (map (\<lambda>(k, e). entries_values e)
        (map (\<lambda>(k, vs). (k, nest_entries (tl sks) (nest_map n ks vs))) ?g)))"
    unfolding m(1) nest_entries.simps entries_values.simps lvl
    by (rule mset_concat_cong) simp
  also have "\<dots> = mset (concat (map (\<lambda>(k, vs). ?e vs) ?g))"
    by (simp add: comp_def split_def)
  also have "\<dots> = mset (concat (map snd ?g))"
    using Cons by (simp add: mset_concat comp_def split_def)
  also have "\<dots> = mset array" by (subst group_values_mset) simp_all
  finally show ?case .
qed

section \<open>Properties\<close>

text \<open>
  Nesting groups by the key functions.  Following a path of keys, one per key function,
  into the map that \<open>nest.map(array, d3.map)\<close> returns reaches the leaf made of exactly the
  elements whose keys are the path, in array order (rolled up or sorted as configured), and
  reaches nothing when no element has these keys.
\<close>

theorem d3_nest_map_groups:
  assumes "length path = length (nkeys n)"
  shows "nested_lookup (d3_nest_map n array) path =
    (let sel = filter (\<lambda>x. map (\<lambda>kf. kf x) (nkeys n) = path) array
     in if sel = [] \<and> nkeys n \<noteq> [] then None else Some (nest_leaf n sel))"
  unfolding d3_nest_map_def using assms by (rule nest_map_lookup)

theorem d3_nest_map_groups_witness:
  "nested_lookup (d3_nest_map
      (nest_key (nest_key d3_nest (\<lambda>w. [hd w])) (\<lambda>w. [last w])) [''ab'', ''cb'', ''axb'', ''ac''])
      [''a'', ''b''] = Some (Values [''ab'', ''axb''] :: (string, unit) nested)"
  using d3_nest_map_groups [of "[''a'', ''b'']"
      "nest_key (nest_key d3_nest (\<lambda>w. [hd w])) (\<lambda>w. [last w]) :: (string, unit) nest"
      "[''ab'', ''cb'', ''axb'', ''ac'']"]
  by (simp add: nest_key_def d3_nest_def nest_leaf_def)

text \<open>
  Entries lose nothing.  Without a rollup, the values at the leaves of \<open>nest.entries\<close>
  are a permutation of the array, for every choice of key functions and comparators.
\<close>

theorem d3_nest_entries_permutation:
  assumes "rollup n = None"
  shows "mset (entries_values (d3_nest_entries n array)) = mset array"
  unfolding d3_nest_entries_def using assms by (rule nest_entries_mset)

theorem d3_nest_entries_permutation_witness:
  "mset (entries_values (d3_nest_entries
      (nest_key d3_nest (\<lambda>w. [hd w]) :: (string, unit) nest) [''ab'', ''cb'', ''axb''])) =
   mset [''ab'', ''cb'', ''axb'']"
  using d3_nest_entries_permutation [of "nest_key d3_nest (\<lambda>w. [hd w]) :: (string, unit) nest"
      "[''ab'', ''cb'', ''axb'']"]
  by (simp add: nest_key_def d3_nest_def)

end
