(* ===== verification/D3_Dispatch.thy ===== *)
theory D3_Dispatch
  imports D3_Map
begin

text \<open>
  Event dispatch (\<open>d3.js\<close> lines 406 to 473): \<open>d3.dispatch\<close>, \<open>d3_dispatch_event\<close> and
  \<open>d3_eventDispatch\<close>.

  One event type keeps an array of listener objects \<open>{on: f}\<close> in registration order and a map
  from names to these objects.  The objects are mutable and shared between the array, the
  map and a dispatch that is under way (which walks the array it started with), so they live
  in an explicit store: an object is a number, \<open>cells\<close> holds its \<open>on\<close> field and \<open>fresh\<close> is the
  next unused number.  Listeners are run by a parameter that may call \<open>on\<close> any number of times.
\<close>

section \<open>One event type\<close>

type_synonym cell = nat

record 'l event =
  listeners :: "cell list"
  listenerByName :: "cell obj"
  cells :: "cell \<Rightarrow> 'l option"
  fresh :: cell

definition d3_dispatch_event :: "'l event" where
  "d3_dispatch_event = \<lparr>listeners = [], listenerByName = [], cells = (\<lambda>_. None), fresh = 0\<rparr>"

text \<open>
  \<open>z.slice(0, i = z.indexOf(l)).concat(z.slice(i + 1))\<close>; for an absent \<open>l\<close>, \<open>i\<close> is \<open>-1\<close> and the
  negative index of \<open>slice\<close> counts from the end.
\<close>

definition without :: "'a list \<Rightarrow> 'a \<Rightarrow> 'a list" where
  "without z l =
     (let i = length (takeWhile (\<lambda>x. x \<noteq> l) z)
      in if i < length z then take i z @ drop (i + 1) z else butlast z @ z)"

definition event_get :: "'l event \<Rightarrow> string \<Rightarrow> 'l option" where
  "event_get st name =
     (case d3_map_get (listenerByName st) name of None \<Rightarrow> None | Some l \<Rightarrow> cells st l)"

definition event_on :: "'l event \<Rightarrow> string \<Rightarrow> 'l option \<Rightarrow> 'l event" where
  "event_on st name listener =
     (let st1 =
        (case d3_map_get (listenerByName st) name of
           None \<Rightarrow> st
         | Some l \<Rightarrow>
             st\<lparr>cells := (cells st)(l := None),
                listeners := without (listeners st) l,
                listenerByName := snd (d3_map_remove (listenerByName st) name)\<rparr>)
      in case listener of
           None \<Rightarrow> st1
         | Some f \<Rightarrow>
             st1\<lparr>cells := (cells st1)(fresh st1 := Some f),
                 listenerByName := d3_map_set (listenerByName st1) name (fresh st1),
                 listeners := listeners st1 @ [fresh st1],
                 fresh := Suc (fresh st1)\<rparr>)"

text \<open>
  The loop of \<open>event\<close>: \<open>z\<close> is what is left of the array it started with; each object's \<open>on\<close> field is
  read when its turn comes, and a called listener may change the state through \<open>run\<close>.  The
  calls are recorded in order.
\<close>

fun event_loop :: "('l \<Rightarrow> 'l event \<Rightarrow> 'l event) \<Rightarrow> cell list \<Rightarrow> 'l event \<Rightarrow> 'l list \<times> 'l event" where
  "event_loop run [] st = ([], st)"
| "event_loop run (l # z) st =
     (case cells st l of
        None \<Rightarrow> event_loop run z st
      | Some f \<Rightarrow> (let (called, st') = event_loop run z (run f st) in (f # called, st')))"

definition event_fire :: "('l \<Rightarrow> 'l event \<Rightarrow> 'l event) \<Rightarrow> 'l event \<Rightarrow> 'l list \<times> 'l event" where
  "event_fire run st = event_loop run (listeners st) st"

section \<open>The dispatch object\<close>

datatype dispatch_error = TypeError

definition d3_dispatch :: "string list \<Rightarrow> 'l event obj" where
  "d3_dispatch types = fold (\<lambda>t d. AList.update t d3_dispatch_event d) types []"

text \<open>Splitting \<open>"type.name"\<close> at the first period.\<close>

definition split_type :: "string \<Rightarrow> string \<times> string" where
  "split_type typ =
     (let i = length (takeWhile (\<lambda>c. c \<noteq> CHR ''.'') typ)
      in if i < length typ then (take i typ, drop (i + 1) typ) else (typ, []))"

definition dispatch_on :: "'l event obj \<Rightarrow> string \<Rightarrow> 'l option \<Rightarrow> dispatch_error + 'l event obj" where
  "dispatch_on this typ listener =
     (let (t, name) = split_type typ
      in if t \<noteq> [] then
           (case map_of this t of
              None \<Rightarrow> Inl TypeError
            | Some ev \<Rightarrow> Inr (AList.update t (event_on ev name listener) this))
         else if listener = None then Inr (map (\<lambda>(k, ev). (k, event_on ev name None)) this)
         else Inr this)"

definition dispatch_get :: "'l event obj \<Rightarrow> string \<Rightarrow> dispatch_error + 'l option" where
  "dispatch_get this typ =
     (let (t, name) = split_type typ
      in if t \<noteq> [] then
           (case map_of this t of None \<Rightarrow> Inl TypeError | Some ev \<Rightarrow> Inr (event_get ev name))
         else Inr None)"

section \<open>The current event\<close>

text \<open>
  \<open>dispatch.of(thiz, argumentz)(e1)\<close>: the global \<open>d3.event\<close> is \<open>e1\<close> while the listeners run and is
  restored by the \<open>finally\<close> clause, whether or not a listener throws.  \<open>body\<close> stands for
  \<open>dispatch[e1.type].apply(thiz, argumentz)\<close>: it receives the state with \<open>d3.event\<close> set and
  returns it, with the exception if one was thrown.
\<close>

record 'e event_object =
  event_type :: string
  event_target :: 'e
  sourceEvent :: "nat option"

record ('e, 'g) globals =
  d3_event :: "nat option"
  event_objects :: "nat \<Rightarrow> 'e event_object"
  rest :: 'g

definition d3_eventDispatch_of ::
  "'e \<Rightarrow> (('e, 'g) globals \<Rightarrow> 'x option \<times> ('e, 'g) globals) \<Rightarrow> nat \<Rightarrow> ('e, 'g) globals \<Rightarrow>
     'x option \<times> ('e, 'g) globals" where
  "d3_eventDispatch_of target body e1 g =
     (let e0 = d3_event g;
          o1 = (event_objects g e1)\<lparr>sourceEvent := e0, event_target := target\<rparr>;
          g1 = g\<lparr>event_objects := (event_objects g)(e1 := o1), d3_event := Some e1\<rparr>;
          (exc, g2) = body g1
      in (exc, g2\<lparr>d3_event := e0\<rparr>))"

section \<open>The abstract registry\<close>

text \<open>
  The contract: a registry is the list of named listeners in registration order; \<open>on\<close> with a
  listener replaces any listener of that name and moves it to the end.
\<close>

definition registry_on :: "(string \<times> 'l) list \<Rightarrow> string \<Rightarrow> 'l option \<Rightarrow> (string \<times> 'l) list" where
  "registry_on r name listener =
     AList.delete name r @ (case listener of None \<Rightarrow> [] | Some f \<Rightarrow> [(name, f)])"

definition event_abs :: "'l event \<Rightarrow> (string \<times> 'l) list" where
  "event_abs st = map (\<lambda>(k, l). (k, the (cells st l))) (d3_map_forEach (listenerByName st))"

definition event_invar :: "'l event \<Rightarrow> bool" where
  "event_invar st \<longleftrightarrow>
     d3_map_invar (listenerByName st) \<and>
     listeners st = map snd (d3_map_forEach (listenerByName st)) \<and>
     distinct (listeners st) \<and>
     (\<forall>l. cells st l \<noteq> None \<longleftrightarrow> l \<in> set (listeners st)) \<and>
     (\<forall>l \<in> set (listeners st). l < fresh st)"

lemma without_mid: "l \<notin> set xs \<Longrightarrow> without (xs @ l # ys) l = xs @ ys"
proof -
  assume "l \<notin> set xs"
  then have "takeWhile (\<lambda>x. x \<noteq> l) (xs @ l # ys) = xs"
    by (subst takeWhile_append2) auto
  then show ?thesis by (simp add: without_def)
qed

lemma delete_mid:
  assumes "distinct (map fst (xs @ (k, l) # ys))"
  shows "AList.delete k (xs @ (k, l) # ys) = xs @ ys"
proof -
  have "AList.delete k xs = xs" "AList.delete k ys = ys"
    using assms by (auto intro!: delete_id)
  then show ?thesis by (simp add: AList.delete_eq)
qed

text \<open>Removing the binding of a name from the map removes its object from the array.\<close>

lemma without_map_of:
  assumes "map_of kvs k = Some l" "distinct (map fst kvs)" "distinct (map snd kvs)"
  shows "without (map snd kvs) l = map snd (AList.delete k kvs)"
proof -
  obtain xs ys where kvs: "kvs = xs @ (k, l) # ys"
    using assms(1) by (meson map_of_SomeD split_list)
  then have "AList.delete k kvs = xs @ ys" using assms(2) delete_mid by metis
  moreover have "l \<notin> set (map snd xs)" using assms(3) kvs by auto
  ultimately show ?thesis using kvs without_mid [of l "map snd xs" "map snd ys"] by simp
qed

lemma event_on_Some:
  "event_on st name (Some f) =
     (let st1 = event_on st name None
      in st1\<lparr>cells := (cells st1)(fresh st1 := Some f),
             listenerByName := d3_map_set (listenerByName st1) name (fresh st1),
             listeners := listeners st1 @ [fresh st1],
             fresh := Suc (fresh st1)\<rparr>)"
  by (simp add: event_on_def Let_def)

lemma event_off:
  assumes "event_invar st"
  shows "event_invar (event_on st name None)"
    and "d3_map_forEach (listenerByName (event_on st name None)) =
      AList.delete name (d3_map_forEach (listenerByName st))"
    and "event_abs (event_on st name None) = AList.delete name (event_abs st)"
    and "fresh (event_on st name None) = fresh st"
    and "cells (event_on st name None) =
      (case d3_map_get (listenerByName st) name of None \<Rightarrow> cells st | Some l \<Rightarrow> (cells st)(l := None))"
proof -
  let ?kvs = "d3_map_forEach (listenerByName st)" and ?st = "event_on st name None"
  have inv: "d3_map_invar (listenerByName st)" "listeners st = map snd ?kvs"
      "distinct (map snd ?kvs)" "distinct (map fst ?kvs)"
      "\<And>l. cells st l \<noteq> None \<longleftrightarrow> l \<in> snd ` set ?kvs" "\<And>l. l \<in> snd ` set ?kvs \<Longrightarrow> l < fresh st"
    using assms by (auto simp: event_invar_def d3map.distinct_visits)
  show *: "fresh ?st = fresh st" "cells ?st =
      (case d3_map_get (listenerByName st) name of None \<Rightarrow> cells st | Some l \<Rightarrow> (cells st)(l := None))"
    by (simp_all add: event_on_def Let_def split: option.splits)
  have absdel: "AList.delete name (event_abs st) =
      map (\<lambda>(k, l). (k, the (cells st l))) (AList.delete name ?kvs)"
    by (simp add: event_abs_def AList.delete_eq filter_map comp_def split_def)
  have "event_invar ?st \<and> d3_map_forEach (listenerByName ?st) = AList.delete name ?kvs \<and>
      event_abs ?st = AList.delete name (event_abs st)"
  proof (cases "d3_map_get (listenerByName st) name")
    case None
    then have "AList.delete name ?kvs = ?kvs"
      using inv(1) by (simp add: d3map.get_visits map_of_eq_None_iff delete_id)
    then show ?thesis using None assms absdel by (simp add: event_on_def event_abs_def)
  next
    case (Some l)
    then have get: "map_of ?kvs name = Some l" using inv(1) by (simp add: d3map.get_visits)
    obtain xs ys where kvs: "?kvs = xs @ (name, l) # ys"
      using get by (meson map_of_SomeD split_list)
    then have del: "AList.delete name ?kvs = xs @ ys"
      using inv(4) delete_mid by metis
    have vis: "d3_map_forEach (listenerByName ?st) = xs @ ys"
      using Some inv(1) del by (simp add: event_on_def d3map.visits_remove)
    have lis: "listeners ?st = map snd (xs @ ys)"
      using Some inv(2) without_map_of [OF get inv(4,3)] del by (simp add: event_on_def)
    have l: "l \<notin> snd ` set xs" "l \<notin> snd ` set ys" using inv(3) kvs by auto
    have c: "cells ?st = (cells st)(l := None)" using Some * by simp
    have "event_abs ?st = map (\<lambda>(k, l'). (k, the (cells st l'))) (xs @ ys)"
      unfolding event_abs_def vis c using l by (auto simp: rev_image_eqI)
    moreover have "event_invar ?st"
    proof -
      have "d3_map_invar (listenerByName ?st)"
        using Some inv(1) by (simp add: event_on_def d3map.invar_remove)
      moreover have "distinct (map snd (xs @ ys))" using inv(3) kvs by auto
      moreover have "\<forall>l'. cells ?st l' \<noteq> None \<longleftrightarrow> l' \<in> set (map snd (xs @ ys))"
        using inv(5) l by (auto simp: c kvs)
      moreover have "\<forall>l' \<in> set (map snd (xs @ ys)). l' < fresh ?st"
        using inv(6) by (auto simp: *(1) kvs)
      ultimately show ?thesis by (simp add: event_invar_def vis lis)
    qed
    ultimately show ?thesis using vis del absdel by simp
  qed
  then show "event_invar ?st" "d3_map_forEach (listenerByName ?st) = AList.delete name ?kvs"
    "event_abs ?st = AList.delete name (event_abs st)" by blast+
qed

lemma event_on_refines:
  assumes "event_invar st"
  shows "event_invar (event_on st name listener) \<and>
     event_abs (event_on st name listener) = registry_on (event_abs st) name listener"
proof (cases listener)
  case None
  then show ?thesis using event_off [OF assms] by (simp add: registry_on_def)
next
  case (Some f)
  define s where "s = event_on st name None"
  have s: "event_invar s" "event_abs s = AList.delete name (event_abs st)"
      "d3_map_forEach (listenerByName s) = AList.delete name (d3_map_forEach (listenerByName st))"
    using event_off [OF assms] by (simp_all add: s_def)
  have "name \<notin> fst ` set (d3_map_forEach (listenerByName s))"
    by (auto simp: s(3) AList.delete_eq)
  then have vis: "d3_map_forEach (d3_map_set (listenerByName s) name (fresh s)) =
      d3_map_forEach (listenerByName s) @ [(name, fresh s)]"
    using s(1) by (simp add: event_invar_def d3map.visits_put update_new)
  have fr: "fresh s \<notin> set (listeners s)" using s(1) by (metis event_invar_def less_irrefl)
  then have "fresh s \<notin> snd ` set (d3_map_forEach (listenerByName s))"
    using s(1) by (simp add: event_invar_def)
  then have old: "\<forall>(k, l) \<in> set (d3_map_forEach (listenerByName s)). l \<noteq> fresh s"
    by force
  then have same: "map (\<lambda>(k, l). (k, the (((cells s)(fresh s := Some f)) l)))
      (d3_map_forEach (listenerByName s)) = event_abs s"
    by (auto simp: event_abs_def)
  show ?thesis
    unfolding Some event_on_Some s_def [symmetric] Let_def
    using s(1) vis fr same
    by (auto simp: event_invar_def event_abs_def [of "s\<lparr>cells := _, listenerByName := _, listeners := _,
          fresh := _\<rparr>"] registry_on_def d3map.invar_put less_Suc_eq simp flip: s(2))
qed

lemma event_invar_init: "event_invar d3_dispatch_event"
  by (simp add: d3_dispatch_event_def event_invar_def)

lemma event_get_abs: "event_invar st \<Longrightarrow> event_get st name = map_of (event_abs st) name"
proof -
  assume inv: "event_invar st"
  have "map_of (map (\<lambda>(k, l). (k, F l)) kvs) name = map_option F (map_of kvs name)"
    for F :: "cell \<Rightarrow> 'a" and kvs :: "(string \<times> cell) list"
    by (induction kvs) auto
  moreover have "cells st l = Some (the (cells st l))"
    if "map_of (d3_map_forEach (listenerByName st)) name = Some l" for l
  proof -
    have "l \<in> set (listeners st)" using inv that by (force simp: event_invar_def dest: map_of_SomeD)
    then have "cells st l \<noteq> None" using inv by (auto simp: event_invar_def)
    then show ?thesis by auto
  qed
  ultimately show ?thesis
    using inv by (auto simp: event_get_def event_abs_def event_invar_def d3map.get_visits
        split: option.splits)
qed

section \<open>Dispatch while listeners come and go\<close>

text \<open>The states that a listener can leave behind: any number of calls of \<open>on\<close>.\<close>

inductive on_steps :: "'l event \<Rightarrow> 'l event \<Rightarrow> bool" where
  none: "on_steps st st"
| more: "on_steps st st' \<Longrightarrow> on_steps st (event_on st' name listener)"

inductive_cases on_stepsE: "on_steps st st'"

lemma event_on_cells:
  assumes "event_invar st" "l < fresh st"
  shows "cells (event_on st name listener) l = None \<or>
      cells (event_on st name listener) l = cells st l"
    and "fresh st \<le> fresh (event_on st name listener)"
  using assms(2) event_off(4,5) [OF assms(1), of name]
  by (cases listener; auto simp: event_on_Some Let_def split: option.splits)+

lemma on_steps_invar: "on_steps st st' \<Longrightarrow> event_invar st \<Longrightarrow>
   event_invar st' \<and> fresh st \<le> fresh st' \<and>
   (\<forall>l < fresh st. cells st' l = None \<or> cells st' l = cells st l)"
proof (induction rule: on_steps.induct)
  case (more st st' name listener)
  then have IH: "event_invar st'" "fresh st \<le> fresh st'"
      "\<forall>l < fresh st. cells st' l = None \<or> cells st' l = cells st l" by auto
  have fr: "fresh st' \<le> fresh (event_on st' name listener)"
    using event_off(4) [OF IH(1), of name] by (cases listener) (simp_all add: event_on_Some Let_def)
  have "cells (event_on st' name listener) l = None \<or> cells (event_on st' name listener) l = cells st l"
    if "l < fresh st" for l
    using that IH event_on_cells(1) [OF IH(1), of l name listener] by fastforce
  then show ?case using IH fr event_on_refines [OF IH(1)] by auto
qed simp

definition well_behaved :: "('l \<Rightarrow> 'l event \<Rightarrow> 'l event) \<Rightarrow> bool" where
  "well_behaved run \<longleftrightarrow> (\<forall>f st. on_steps st (run f st))"

lemma event_loop_snoc:
  "event_loop run (z @ [l]) st =
     (let (called, s) = event_loop run z st
      in case cells s l of None \<Rightarrow> (called, s) | Some f \<Rightarrow> (called @ [f], run f s))"
  by (induction z arbitrary: st) (auto simp: Let_def split: option.splits prod.splits)

definition before_turn :: "('l \<Rightarrow> 'l event \<Rightarrow> 'l event) \<Rightarrow> 'l event \<Rightarrow> nat \<Rightarrow> 'l event" where
  "before_turn run st i = snd (event_loop run (take i (listeners st)) st)"

lemma before_turn_invar:
  assumes "event_invar st" "well_behaved run"
  shows "n \<le> length (listeners st) \<Longrightarrow>
    event_invar (before_turn run st n) \<and> fresh st \<le> fresh (before_turn run st n) \<and>
    (\<forall>l < fresh st. cells (before_turn run st n) l = None \<or> cells (before_turn run st n) l = cells st l) \<and>
    fst (event_loop run (take n (listeners st)) st) =
      map (\<lambda>i. the (cells st (listeners st ! i)))
        (filter (\<lambda>i. listeners st ! i \<in> set (listeners (before_turn run st i))) [0..<n])"
proof (induction n)
  case 0
  then show ?case using assms(1) by (simp add: before_turn_def)
next
  case (Suc n)
  let ?z = "listeners st" and ?s = "before_turn run st n"
  have n: "n < length ?z" using Suc.prems by simp
  then have IH: "event_invar ?s" "fresh st \<le> fresh ?s"
      "\<forall>l < fresh st. cells ?s l = None \<or> cells ?s l = cells st l"
      "fst (event_loop run (take n ?z) st) = map (\<lambda>i. the (cells st (?z ! i)))
        (filter (\<lambda>i. ?z ! i \<in> set (listeners (before_turn run st i))) [0..<n])"
    using Suc.IH by auto
  have loop: "event_loop run (take (Suc n) ?z) st =
      (case cells ?s (?z ! n) of
         None \<Rightarrow> (fst (event_loop run (take n ?z) st), ?s)
       | Some f \<Rightarrow> (fst (event_loop run (take n ?z) st) @ [f], run f ?s))"
    using n by (simp add: take_Suc_conv_app_nth event_loop_snoc before_turn_def split_def Let_def
        split: option.splits)
  have zn: "?z ! n < fresh st" using assms(1) n by (auto simp: event_invar_def)
  have alive: "cells ?s (?z ! n) \<noteq> None \<longleftrightarrow> ?z ! n \<in> set (listeners ?s)"
    using IH(1) by (auto simp: event_invar_def)
  show ?case
  proof (cases "cells ?s (?z ! n)")
    case None
    then have "before_turn run st (Suc n) = ?s" using loop by (simp add: before_turn_def)
    then show ?thesis using IH None alive loop by simp
  next
    case (Some f)
    then have bt: "before_turn run st (Suc n) = run f ?s" using loop by (simp add: before_turn_def)
    have "on_steps ?s (run f ?s)" using assms(2) by (simp add: well_behaved_def)
    then have r: "event_invar (run f ?s)" "fresh ?s \<le> fresh (run f ?s)"
        "\<forall>l < fresh ?s. cells (run f ?s) l = None \<or> cells (run f ?s) l = cells ?s l"
      using on_steps_invar IH(1) by blast+
    have "\<forall>l < fresh st. cells (run f ?s) l = None \<or> cells (run f ?s) l = cells st l"
      using r(3) IH(2,3) by (metis order_less_le_trans)
    moreover have "cells st (?z ! n) = Some f" using IH(3) zn Some by fastforce
    ultimately show ?thesis using IH r Some alive loop bt by simp
  qed
qed

lemma event_abs_nth: "event_invar st \<Longrightarrow> i < length (listeners st) \<Longrightarrow>
   snd (event_abs st ! i) = the (cells st (listeners st ! i))"
  by (simp add: event_invar_def event_abs_def split_def)

section \<open>Properties\<close>

text \<open>
  (C8) Registration refines the registry.  From a new event type, any sequence of \<open>on\<close> calls
  keeps the representation invariant (the array and the map hold the same objects, live
  objects are exactly the registered ones), and both the listener found under a name and the
  order of the listeners are those of the abstract registry.
\<close>

theorem event_on_sequence_refines:
  fixes ops :: "(string \<times> 'l option) list"
  defines "st \<equiv> foldl (\<lambda>st (name, l). event_on st name l) d3_dispatch_event ops"
    and "r \<equiv> foldl (\<lambda>r (name, l). registry_on r name l) [] ops"
  shows "event_invar st \<and> event_abs st = r \<and> (\<forall>name. event_get st name = map_of r name)"
proof -
  have "event_invar (d3_dispatch_event :: 'l event)" "event_abs (d3_dispatch_event :: 'l event) = []"
    by (rule event_invar_init) (simp add: d3_dispatch_event_def event_abs_def)
  moreover have "event_invar s \<Longrightarrow>
      event_invar (foldl (\<lambda>st (name, l). event_on st name l) s ops) \<and>
      event_abs (foldl (\<lambda>st (name, l). event_on st name l) s ops) =
        foldl (\<lambda>r (name, l). registry_on r name l) (event_abs s) ops" for s
  proof (induction ops arbitrary: s)
    case (Cons op ops)
    obtain name l where "op = (name, l)" by force
    with Cons event_on_refines [OF Cons.prems, of name l] show ?case by simp
  qed simp
  ultimately have "event_invar st" "event_abs st = r" by (auto simp: st_def r_def)
  then show ?thesis by (simp add: event_get_abs)
qed

text \<open>
  (C7) Dispatch under mutation.  When the listeners of an event may themselves call \<open>on\<close> any
  number of times, a dispatch calls exactly those listeners registered at its start that are
  still registered when their turn comes, in registration order: a listener removed or
  replaced meanwhile is skipped, one added meanwhile is not called.  The invariant holds
  afterwards.
\<close>

theorem event_fire_exact:
  assumes "event_invar st" "well_behaved run"
  shows "fst (event_fire run st) =
      map (\<lambda>i. snd (event_abs st ! i))
        (filter (\<lambda>i. listeners st ! i \<in> set (listeners (before_turn run st i)))
          [0..<length (listeners st)]) \<and>
    event_invar (snd (event_fire run st))"
  using before_turn_invar [OF assms, of "length (listeners st)"] event_abs_nth [OF assms(1)]
  by (auto simp: event_fire_def before_turn_def)

theorem event_fire_exact_witness:
  fixes st :: "nat event"
  defines "st \<equiv> event_on (event_on d3_dispatch_event ''a'' (Some 1)) ''b'' (Some 2)"
  shows "event_invar (snd (event_fire (\<lambda>f s. event_on s ''b'' None) st)) \<and>
    fst (event_fire (\<lambda>f s. event_on s ''b'' None) st) = [1]"
proof -
  have inv: "event_invar st"
    by (simp add: st_def event_on_refines event_invar_init)
  have wb: "well_behaved (\<lambda>f s. event_on s ''b'' None :: nat event)"
    by (simp add: well_behaved_def on_steps.intros)
  have "fst (event_fire (\<lambda>f s. event_on s ''b'' None) st) = [1]"
    by (simp add: st_def event_fire_def event_on_def d3_dispatch_event_def d3_map_get_def
        d3_map_set_def d3_map_remove_def without_def AList.delete_eq)
  then show ?thesis using event_fire_exact [OF inv wb] by blast
qed

text \<open>
  The current event is restored.  However the listeners end, normally or with an
  exception, and whatever they do to \<open>d3.event\<close>, it has its previous value after the dispatch;
  the exception is passed on; and while they run it is the new event, whose \<open>sourceEvent\<close> is the
  previous one.
\<close>

theorem d3_eventDispatch_restores:
  "d3_event (snd (d3_eventDispatch_of target body e1 g)) = d3_event g \<and>
   (\<exists>g1. fst (d3_eventDispatch_of target body e1 g) = fst (body g1) \<and>
      d3_event g1 = Some e1 \<and>
      event_objects g1 = (event_objects g)(e1 := (event_objects g e1)
        \<lparr>sourceEvent := d3_event g, event_target := target\<rparr>))"
  (is "?restored \<and> (\<exists>g1. ?during g1)")
proof
  let ?g1 = "g\<lparr>event_objects := (event_objects g)(e1 := (event_objects g e1)
      \<lparr>sourceEvent := d3_event g, event_target := target\<rparr>), d3_event := Some e1\<rparr>"
  have "?during ?g1" by (simp add: d3_eventDispatch_of_def Let_def split: prod.splits)
  then show "\<exists>g1. ?during g1" by blast
qed (simp add: d3_eventDispatch_of_def Let_def split: prod.splits)

end
