(* ===== verification/D3_Dsv.thy ===== *)
theory D3_Dsv
  imports D3_Map
begin

text \<open>
  Delimiter-separated values (\<open>d3.js\<close> lines 1942 to 2045): \<open>d3.dsv\<close> with \<open>parse\<close>, \<open>parseRows\<close>,
  \<open>format\<close> and \<open>formatRows\<close>, and its instances \<open>d3.csv\<close> and \<open>d3.tsv\<close>.

  The tokenizer's variables \<open>I\<close> and \<open>eol\<close> are the state \<open>(s, eol)\<close> with \<open>s = text.substring(I)\<close>; an
  index past the end is the empty suffix.  A row function may drop a row by returning a
  falsy value, which is \<open>None\<close> here.
\<close>

section \<open>Parsing\<close>

datatype token = Field string | EOL | EOF

type_synonym dsv_state = "string \<times> bool"

definition QUOTE :: char where "QUOTE = CHR 34"
definition LF :: char where "LF = CHR 10"
definition CR :: char where "CR = CHR 13"

lemma char_distinct [simp]:
  "QUOTE \<noteq> LF" "QUOTE \<noteq> CR" "LF \<noteq> CR" "LF \<noteq> QUOTE" "CR \<noteq> QUOTE" "CR \<noteq> LF"
  by (simp_all add: QUOTE_def LF_def CR_def)

text \<open>
  The scan for the closing quote.  The first component is the raw text between the quotes,
  the second what follows the closing quote, \<open>None\<close> when the text ends first.
\<close>

fun quoted :: "string \<Rightarrow> string \<times> string option" where
  "quoted [] = ([], None)"
| "quoted [c] = (if c = QUOTE then ([], Some []) else ([c], None))"
| "quoted (c # c' # s) =
     (if c = QUOTE then
        (if c' \<noteq> QUOTE then ([], Some (c' # s))
         else (let (b, r) = quoted s in (c # c' # b, r)))
      else (let (b, r) = quoted (c' # s) in (c # b, r)))"

text \<open>\<open>replace(/""/g, '"')\<close>\<close>

fun undouble :: "string \<Rightarrow> string" where
  "undouble (c # c' # s) =
     (if c = QUOTE \<and> c' = QUOTE then QUOTE # undouble s else c # undouble (c' # s))"
| "undouble s = s"

text \<open>The unquoted scan, up to a delimiter, a line end or the end of the text.\<close>

fun unquoted :: "char \<Rightarrow> string \<Rightarrow> string \<times> dsv_state" where
  "unquoted d [] = ([], ([], False))"
| "unquoted d (c # s) =
     (if c = LF then ([], (s, True))
      else if c = CR then ([], (if s \<noteq> [] \<and> hd s = LF then tl s else s, True))
      else if c \<noteq> d then (let (v, st) = unquoted d s in (c # v, st))
      else ([], (s, False)))"

definition dsv_token :: "char \<Rightarrow> dsv_state \<Rightarrow> token \<times> dsv_state" where
  "dsv_token d st = (case st of (s, eol) \<Rightarrow>
     if s = [] then (EOF, st)
     else if eol then (EOL, (s, False))
     else if hd s = QUOTE then
       (case quoted (tl s) of
          (b, None) \<Rightarrow> (Field (undouble b), ([], False))
        | (b, Some r) \<Rightarrow>
            (Field (undouble b),
             (if r = [] then ([], False)
              else if hd r = CR then (if tl r \<noteq> [] \<and> hd (tl r) = LF then tl (tl r) else tl r, True)
              else if hd r = LF then (tl r, True)
              else (tl r, False))))
     else (let (v, st') = unquoted d s in (Field v, st')))"

definition st_size :: "dsv_state \<Rightarrow> nat" where
  "st_size st = 2 * length (fst st) + (if snd st then 1 else 0)"

lemma quoted_size: "quoted s = (b, Some r) \<Longrightarrow> length r < length s"
  by (induction s arbitrary: b rule: quoted.induct) (auto split: if_splits prod.splits)

lemma unquoted_size: "unquoted d s = (v, st) \<Longrightarrow> s \<noteq> [] \<Longrightarrow> st_size st < st_size (s, False)"
proof (induction d s arbitrary: v st rule: unquoted.induct)
  case (2 d c s)
  show ?case
  proof (cases "c \<noteq> LF \<and> c \<noteq> CR \<and> c \<noteq> d")
    case True
    then obtain v' where v': "unquoted d s = (v', st)" using "2.prems" by (auto split: prod.splits)
    show ?thesis
    proof (cases "s = []")
      case True
      with v' show ?thesis by (auto simp: st_size_def)
    next
      case False
      then have "st_size st < st_size (s, False)" using "2.IH" v' True by blast
      then show ?thesis by (simp add: st_size_def)
    qed
  next
    case False
    then show ?thesis using "2.prems" by (cases s) (auto simp: st_size_def split: if_splits)
  qed
qed simp

lemma dsv_token_size: "dsv_token d st = (t, st') \<Longrightarrow> t \<noteq> EOF \<Longrightarrow> st_size st' < st_size st"
proof -
  assume tok: "dsv_token d st = (t, st')" "t \<noteq> EOF"
  obtain s eol where st: "st = (s, eol)" by force
  have s: "s \<noteq> []" using tok by (auto simp: dsv_token_def st)
  consider (eol) eol | (q) "\<not> eol" "hd s = QUOTE" | (u) "\<not> eol" "hd s \<noteq> QUOTE" by blast
  then show ?thesis
  proof cases
    case eol
    then show ?thesis using tok s by (auto simp: dsv_token_def st st_size_def)
  next
    case q
    obtain c s' where s': "s = c # s'" using s by (cases s) auto
    show ?thesis using tok q s' quoted_size [of s'] s
      by (cases "quoted s'") (fastforce simp: dsv_token_def st st_size_def neq_Nil_conv
          split: option.splits if_splits)
  next
    case u
    then show ?thesis using tok s unquoted_size [of d s]
      by (auto simp: dsv_token_def st split: prod.splits)
  qed
qed

lemma dsv_token_EOF: "dsv_token d st = (EOF, st') \<Longrightarrow> st' = st"
  by (auto simp: dsv_token_def split: prod.splits if_splits option.splits)

text \<open>The inner loop: collect fields until \<open>EOL\<close> or \<open>EOF\<close>; \<open>t\<close> is the current token.\<close>

function row_fields :: "char \<Rightarrow> token \<Rightarrow> dsv_state \<Rightarrow> string list \<times> dsv_state" where
  "row_fields d t st =
     (case t of
        Field v \<Rightarrow>
          (let (t', st') = dsv_token d st; (a, st'') = row_fields d t' st' in (v # a, st''))
      | _ \<Rightarrow> ([], st))"
  by pat_completeness auto
termination
proof (relation "measure (\<lambda>(d, t, st). 2 * st_size st + (case t of Field v \<Rightarrow> 1 | _ \<Rightarrow> 0))", goal_cases)
  case (2 d t st v x t' st')
  then have "dsv_token d st = (t', st')" by simp
  then show ?case
    using 2(1) dsv_token_size [of d st t' st'] dsv_token_EOF [of d st st']
    by (cases t') auto
qed simp

declare row_fields.simps [simp del]

lemma row_fields_size: "st_size (snd (row_fields d t st)) \<le> st_size st"
proof (induction d t st rule: row_fields.induct)
  case (1 d t st)
  show ?case
  proof (cases t)
    case (Field v)
    obtain t' st' where tok: "dsv_token d st = (t', st')" by (cases "dsv_token d st")
    have "st_size st' \<le> st_size st"
      using dsv_token_size [OF tok] dsv_token_EOF [of d st st'] tok by (cases t') auto
    moreover have "st_size (snd (row_fields d t' st')) \<le> st_size st'"
      using "1.IH" Field tok by simp
    ultimately show ?thesis
      by (simp add: row_fields.simps [of d "Field v" st] Field tok split_def Let_def)
  qed (simp_all add: row_fields.simps)
qed

text \<open>The outer loop, with the row function \<open>f\<close> and the row counter \<open>n\<close>.\<close>

function rows_loop :: "char \<Rightarrow> (string list \<Rightarrow> nat \<Rightarrow> 'r option) \<Rightarrow> dsv_state \<Rightarrow> nat \<Rightarrow> 'r list" where
  "rows_loop d f st n =
     (let (t, st') = dsv_token d st
      in if t = EOF then []
         else let (a, st'') = row_fields d t st'; rest = rows_loop d f st'' (Suc n)
              in case f a n of None \<Rightarrow> rest | Some r \<Rightarrow> r # rest)"
  by pat_completeness auto
termination
proof (relation "measure (\<lambda>(d, f, st, n). st_size st)", goal_cases)
  case (2 d f st n x t st' y a st'')
  then have "dsv_token d st = (t, st')" "t \<noteq> EOF" "snd (row_fields d t st') = st''"
    by simp_all (metis snd_conv)
  then show ?case
    using dsv_token_size [of d st t st'] row_fields_size [of d t st'] by simp
qed simp

declare rows_loop.simps [simp del]

definition dsv_parseRows_by :: "char \<Rightarrow> string \<Rightarrow> (string list \<Rightarrow> nat \<Rightarrow> 'r option) \<Rightarrow> 'r list" where
  "dsv_parseRows_by d text f = rows_loop d f (text, False) 0"

definition dsv_parseRows :: "char \<Rightarrow> string \<Rightarrow> string list list" where
  "dsv_parseRows d text = rows_loop d (\<lambda>row n. Some row) (text, False) 0"

text \<open>
  The object that the function generated from the header builds: property \<open>names[i]\<close> is \<open>d[i]\<close>,
  \<open>undefined\<close> (\<open>None\<close>) when the row is too short.  In an object literal the name \<open>__proto__\<close> sets the
  prototype and, given a string, creates no property.
\<close>

definition header_object :: "string list \<Rightarrow> string list \<Rightarrow> string option obj" where
  "header_object names row =
     fold (\<lambda>(i, name) o'. if name = ''__proto__'' then o'
         else AList.update name (if i < length row then Some (row ! i) else None) o')
       (enumerate 0 names) []"

text \<open>
  \<open>parse\<close>: the first row only sets the variable \<open>o\<close> and yields \<open>undefined\<close>.  Since \<open>parseRows\<close> numbers
  the rows, the row function is the header step at \<open>0\<close> and \<open>o(row, i - 1)\<close> afterwards.
\<close>

definition dsv_parse_by :: "char \<Rightarrow> string \<Rightarrow> (string option obj \<Rightarrow> nat \<Rightarrow> 'r option) \<Rightarrow> 'r list" where
  "dsv_parse_by d text f =
     (let names = (case dsv_parseRows d text of [] \<Rightarrow> [] | h # _ \<Rightarrow> h)
      in dsv_parseRows_by d text
           (\<lambda>row i. if i = 0 then None else f (header_object names row) (i - 1)))"

definition dsv_parse :: "char \<Rightarrow> string \<Rightarrow> string option obj list" where
  "dsv_parse d text = dsv_parse_by d text (\<lambda>ob i. Some ob)"

section \<open>Formatting\<close>

text \<open>
  The expression that decides whether a value is quoted is a character class of the quote, the delimiter and the line feed.  The
  delimiter is not escaped in it.  After a backslash the line feed is escaped and stands for itself, and the backslash is not in the class.
  A closing bracket ends the class, and the expression matches the quote, the line feed and the bracket in a row.  A hyphen makes
  a range from the quote down to the line feed, which is a syntax error, so that \<open>d3.dsv\<close> throws.
\<close>

definition dsv_throws :: "char \<Rightarrow> bool" where
  "dsv_throws d \<longleftrightarrow> d = CHR ''-''"

fun matches_at :: "string \<Rightarrow> string \<Rightarrow> bool" where
  "matches_at p [] = (p = [])"
| "matches_at p (c # s) = (take (length p) (c # s) = p \<or> matches_at p s)"

definition reFormat_test :: "char \<Rightarrow> string \<Rightarrow> bool" where
  "reFormat_test d text \<longleftrightarrow>
     (if d = CHR '']'' then matches_at [QUOTE, LF, CHR '']''] text
      else if d = CHR 92 then QUOTE \<in> set text \<or> LF \<in> set text
      else QUOTE \<in> set text \<or> d \<in> set text \<or> LF \<in> set text)"

definition double_quotes :: "string \<Rightarrow> string" where
  "double_quotes text = concat (map (\<lambda>c. if c = QUOTE then [QUOTE, QUOTE] else [c]) text)"

definition formatValue :: "char \<Rightarrow> string \<Rightarrow> string" where
  "formatValue d text =
     (if reFormat_test d text then QUOTE # double_quotes text @ [QUOTE] else text)"

fun js_join :: "char \<Rightarrow> string list \<Rightarrow> string" where
  "js_join sep [] = []"
| "js_join sep [v] = v"
| "js_join sep (v # w # vs) = v @ sep # js_join sep (w # vs)"

definition formatRow :: "char \<Rightarrow> string list \<Rightarrow> string" where
  "formatRow d row = js_join d (map (formatValue d) row)"

definition dsv_formatRows :: "char \<Rightarrow> string list list \<Rightarrow> string" where
  "dsv_formatRows d rows = js_join LF (map (formatRow d) rows)"

text \<open>The fields of all objects in the order of their first appearance.\<close>

definition collect_fields :: "string option obj list \<Rightarrow> string list" where
  "collect_fields rows =
     fst (fold (\<lambda>row acc. fold (\<lambda>field (fields, fieldSet).
           if d3_map_has fieldSet field then (fields, fieldSet)
           else (fields @ [field], d3_set_add fieldSet field)) (map fst row) acc) rows ([], []))"

text \<open>An \<open>undefined\<close> value is not quoted, and \<open>join\<close> turns it into the empty string.\<close>

definition format_field :: "char \<Rightarrow> string option obj \<Rightarrow> string \<Rightarrow> string" where
  "format_field d row field =
     (case map_of row field of Some (Some v) \<Rightarrow> formatValue d v | _ \<Rightarrow> [])"

definition dsv_format :: "char \<Rightarrow> string option obj list \<Rightarrow> string" where
  "dsv_format d rows =
     (let fields = collect_fields rows
      in js_join LF (js_join d (map (formatValue d) fields) #
           map (\<lambda>row. js_join d (map (format_field d row) fields)) rows))"

definition csv_delimiter :: char where "csv_delimiter = CHR '',''"
definition tsv_delimiter :: char where "tsv_delimiter = CHR 9"

section \<open>Reading back what was written\<close>

text \<open>
  A value survives the round trip unless it holds a carriage return and is not quoted for
  another reason.
\<close>

definition dsv_safe :: "char \<Rightarrow> string \<Rightarrow> bool" where
  "dsv_safe d v \<longleftrightarrow> reFormat_test d v \<or> CR \<notin> set v"

definition delimiter_ok :: "char \<Rightarrow> bool" where
  "delimiter_ok d \<longleftrightarrow> d \<notin> {QUOTE, LF, CR, CHR 92, CHR '']'', CHR ''-''}"

lemma reFormat_ok: "delimiter_ok d \<Longrightarrow> reFormat_test d v \<longleftrightarrow> QUOTE \<in> set v \<or> d \<in> set v \<or> LF \<in> set v"
  by (auto simp: reFormat_test_def delimiter_ok_def)

lemma double_quotes_Cons [simp]:
  "double_quotes [] = []"
  "double_quotes (c # v) = (if c = QUOTE then [QUOTE, QUOTE] else [c]) @ double_quotes v"
  by (simp_all add: double_quotes_def)

lemma quoted_skip: "c \<noteq> QUOTE \<Longrightarrow> quoted (c # s) = (let (b, r) = quoted s in (c # b, r))"
  by (cases s) simp_all

lemma quoted_double: "(r = [] \<or> hd r \<noteq> QUOTE) \<Longrightarrow> quoted (double_quotes v @ QUOTE # r) = (double_quotes v, Some r)"
proof (induction v)
  case Nil
  then show ?case by (cases r) auto
next
  case (Cons c v)
  then show ?case by (cases "c = QUOTE") (simp_all add: quoted_skip)
qed

lemma undouble_skip: "c \<noteq> QUOTE \<Longrightarrow> undouble (c # s) = c # undouble s"
  by (cases s) simp_all

lemma undouble_double: "undouble (double_quotes v) = v"
  by (induction v) (auto simp: undouble_skip)

lemma unquoted_value:
  assumes "LF \<notin> set v" "CR \<notin> set v" "d \<notin> set v"
  shows "unquoted d (v @ r) = (let (w, st) = unquoted d r in (v @ w, st))"
  using assms by (induction v) (auto simp: split_def Let_def)

lemma token_value_end:
  assumes "delimiter_ok d" "dsv_safe d v" "v \<noteq> []"
  shows "dsv_token d (formatValue d v, False) = (Field v, ([], False))"
proof (cases "reFormat_test d v")
  case True
  then show ?thesis
    using quoted_double [of "[]" v] by (simp add: dsv_token_def formatValue_def undouble_double)
next
  case False
  then have v: "LF \<notin> set v" "CR \<notin> set v" "d \<notin> set v" "QUOTE \<notin> set v"
    using assms by (auto simp: reFormat_ok dsv_safe_def)
  then have "hd v \<noteq> QUOTE" using assms(3) by (cases v) auto
  with v False assms(3) show ?thesis
    using unquoted_value [of v d "[]"] by (simp add: dsv_token_def formatValue_def)
qed

lemma token_value_sep:
  assumes "delimiter_ok d" "dsv_safe d v" "c = d \<or> c = LF"
  shows "dsv_token d (formatValue d v @ c # r, False) = (Field v, (r, c = LF))"
proof -
  have c: "c \<noteq> QUOTE" "c \<noteq> CR" using assms by (auto simp: delimiter_ok_def)
  have d: "d \<noteq> LF" "d \<noteq> CR" using assms(1) by (auto simp: delimiter_ok_def)
  show ?thesis
  proof (cases "reFormat_test d v")
    case True
    then show ?thesis
      using quoted_double [of "c # r" v] c
      by (simp add: dsv_token_def formatValue_def undouble_double)
  next
    case False
    then have v: "LF \<notin> set v" "CR \<notin> set v" "d \<notin> set v" "QUOTE \<notin> set v"
      using assms by (auto simp: reFormat_ok dsv_safe_def)
    have "hd (v @ c # r) \<noteq> QUOTE" using v c by (cases v) auto
    moreover have "unquoted d (v @ c # r) = (v, (r, c = LF))"
      using unquoted_value [OF v(1-3), of "c # r"] assms(3) d by auto
    ultimately show ?thesis using False by (simp add: dsv_token_def formatValue_def)
  qed
qed

text \<open>A whole row, read from its first token on: \<open>tail\<close> is what follows the row.\<close>

lemma row_fields_Field:
  "dsv_token d st = (t, st') \<Longrightarrow> row_fields d (Field v) st = (let (a, st'') = row_fields d t st' in (v # a, st''))"
  by (simp add: row_fields.simps [of d "Field v"])

lemma row_fields_stop [simp]: "row_fields d EOL st = ([], st)" "row_fields d EOF st = ([], st)"
  by (simp_all add: row_fields.simps)

lemma js_join_Cons: "vs \<noteq> [] \<Longrightarrow> js_join sep (v # vs) = v @ sep # js_join sep vs"
  by (cases vs) simp_all

lemma read_row_more:
  assumes "delimiter_ok d" "rest \<noteq> []"
  shows "row \<noteq> [] \<Longrightarrow> \<forall>v \<in> set row. dsv_safe d v \<Longrightarrow>
    \<exists>t st. dsv_token d (formatRow d row @ LF # rest, False) = (t, st) \<and> t \<noteq> EOF \<and>
      row_fields d t st = (row, (rest, False))"
proof (induction row)
  case (Cons v row)
  show ?case
  proof (cases "row = []")
    case True
    have tok: "dsv_token d (formatValue d v @ LF # rest, False) = (Field v, (rest, True))"
      using token_value_sep [OF assms(1), of v LF rest] Cons.prems by simp
    have "dsv_token d (rest, True) = (EOL, (rest, False))"
      using assms(2) by (simp add: dsv_token_def)
    then have "row_fields d (Field v) (rest, True) = ([v], (rest, False))"
      by (simp add: row_fields_Field)
    with tok True show ?thesis by (simp add: formatRow_def)
  next
    case False
    obtain t st where IH: "dsv_token d (formatRow d row @ LF # rest, False) = (t, st)" "t \<noteq> EOF"
        "row_fields d t st = (row, (rest, False))"
      using Cons.IH False Cons.prems by auto
    have "dsv_token d (formatRow d (v # row) @ LF # rest, False) =
        (Field v, (formatRow d row @ LF # rest, False))"
      using token_value_sep [OF assms(1), of v d "formatRow d row @ LF # rest"] assms(1) Cons.prems False
      by (simp add: formatRow_def js_join_Cons delimiter_ok_def)
    moreover have "row_fields d (Field v) (formatRow d row @ LF # rest, False) =
        (v # row, (rest, False))"
      using IH by (simp add: row_fields_Field)
    ultimately show ?thesis by auto
  qed
qed simp

lemma read_row_last:
  assumes "delimiter_ok d"
  shows "row \<noteq> [] \<Longrightarrow> \<forall>v \<in> set row. dsv_safe d v \<Longrightarrow> last row \<noteq> [] \<Longrightarrow>
    \<exists>t st. dsv_token d (formatRow d row, False) = (t, st) \<and> t \<noteq> EOF \<and>
      row_fields d t st = (row, ([], False))"
proof (induction row)
  case (Cons v row)
  show ?case
  proof (cases "row = []")
    case True
    then have "dsv_token d (formatRow d (v # row), False) = (Field v, ([], False))"
      using token_value_end [OF assms, of v] Cons.prems by (simp add: formatRow_def)
    moreover have "row_fields d (Field v) ([], False) = ([v], ([], False))"
      by (simp add: row_fields_Field dsv_token_def)
    ultimately show ?thesis using True by auto
  next
    case False
    obtain t st where IH: "dsv_token d (formatRow d row, False) = (t, st)" "t \<noteq> EOF"
        "row_fields d t st = (row, ([], False))"
      using Cons.IH False Cons.prems by auto
    have "dsv_token d (formatRow d (v # row), False) = (Field v, (formatRow d row, False))"
      using token_value_sep [OF assms, of v d "formatRow d row"] assms Cons.prems False
      by (simp add: formatRow_def js_join_Cons delimiter_ok_def)
    moreover have "row_fields d (Field v) (formatRow d row, False) = (v # row, ([], False))"
      using IH by (simp add: row_fields_Field)
    ultimately show ?thesis by auto
  qed
qed simp

lemma rows_loop_step:
  "dsv_token d st = (t, st') \<Longrightarrow> t \<noteq> EOF \<Longrightarrow> row_fields d t st' = (a, st'') \<Longrightarrow>
     rows_loop d f st n =
       (case f a n of None \<Rightarrow> rows_loop d f st'' (Suc n) | Some r \<Rightarrow> r # rows_loop d f st'' (Suc n))"
  by (subst rows_loop.simps) (simp add: Let_def)

lemma rows_loop_end [simp]: "rows_loop d f ([], False) n = []"
  by (subst rows_loop.simps) (simp add: dsv_token_def)

text \<open>The rows that the round trip restores.\<close>

definition dsv_rows_ok :: "char \<Rightarrow> string list list \<Rightarrow> bool" where
  "dsv_rows_ok d rows \<longleftrightarrow> delimiter_ok d \<and>
     (\<forall>row \<in> set rows. row \<noteq> [] \<and> (\<forall>v \<in> set row. dsv_safe d v)) \<and>
     (rows \<noteq> [] \<longrightarrow> last (last rows) \<noteq> [])"

lemma formatRows_nonempty: "dsv_rows_ok d rows \<Longrightarrow> rows \<noteq> [] \<Longrightarrow> dsv_formatRows d rows \<noteq> []"
proof (induction rows)
  case (Cons row rows)
  show ?case
  proof (cases "rows = []")
    case True
    have "row \<noteq> []" "last row \<noteq> []" using Cons.prems True by (auto simp: dsv_rows_ok_def)
    then show ?thesis
      using True by (cases row; cases "tl row")
        (auto simp: dsv_formatRows_def formatRow_def formatValue_def)
  next
    case False
    then show ?thesis by (simp add: dsv_formatRows_def js_join_Cons)
  qed
qed simp

lemma rows_loop_format:
  "dsv_rows_ok d rows \<Longrightarrow>
     rows_loop d f (dsv_formatRows d rows, False) n =
       map the (filter (\<lambda>r. r \<noteq> None) (map (\<lambda>(i, row). f row i) (enumerate n rows)))"
proof (induction rows arbitrary: n)
  case Nil
  then show ?case by (simp add: dsv_formatRows_def)
next
  case (Cons row rows)
  have row: "delimiter_ok d" "row \<noteq> []" "\<forall>v \<in> set row. dsv_safe d v"
    using Cons.prems by (auto simp: dsv_rows_ok_def)
  show ?case
  proof (cases "rows = []")
    case True
    then have "last row \<noteq> []" using Cons.prems by (simp add: dsv_rows_ok_def)
    then obtain t st where "dsv_token d (formatRow d row, False) = (t, st)" "t \<noteq> EOF"
        "row_fields d t st = (row, ([], False))"
      using read_row_last row by blast
    then show ?thesis using True
      by (simp add: dsv_formatRows_def rows_loop_step split: option.splits)
  next
    case False
    then have ok: "dsv_rows_ok d rows" using Cons.prems by (auto simp: dsv_rows_ok_def)
    then have "dsv_formatRows d rows \<noteq> []" using False by (rule formatRows_nonempty)
    then obtain t st where "dsv_token d (formatRow d row @ LF # dsv_formatRows d rows, False) = (t, st)"
        "t \<noteq> EOF" "row_fields d t st = (row, (dsv_formatRows d rows, False))"
      using read_row_more row by blast
    moreover have "dsv_formatRows d (row # rows) = formatRow d row @ LF # dsv_formatRows d rows"
      using False by (simp add: dsv_formatRows_def js_join_Cons)
    ultimately show ?thesis using Cons.IH [OF ok, of "Suc n"]
      by (simp add: rows_loop_step split: option.splits)
  qed
qed

lemma map_the_enumerate: "map the (filter (\<lambda>r. r \<noteq> None) (map (\<lambda>(i, row). Some row) (enumerate n rows))) = rows"
  by (induction rows arbitrary: n) auto

lemma header_object_fields:
  assumes "distinct names" "''__proto__'' \<notin> set names" "length row = length names"
  shows "header_object names row = zip names (map Some row)"
proof -
  have "fold (\<lambda>(i, name) o'. if name = ''__proto__'' then o'
         else AList.update name (if i < length row then Some (row ! i) else None) o')
       (enumerate 0 (take n names)) [] = zip (take n names) (map Some (take n row))"
    if "n \<le> length names" for n
    using that
  proof (induction n)
    case (Suc n)
    have n: "n < length names" "n < length row" using Suc.prems assms(3) by auto
    have new: "names ! n \<notin> fst ` set (zip (take n names) (map Some (take n row)))"
      using assms(1) n by (auto simp: set_zip nth_eq_iff_index_eq)
    have "names ! n \<noteq> ''__proto__''" using assms(2) n by (metis nth_mem)
    then show ?case
      using Suc n new assms(3)
      by (simp add: take_Suc_conv_app_nth enumerate_append_eq update_new)
  qed simp
  from this [of "length names"] show ?thesis using assms(3) by (simp add: header_object_def)
qed

text \<open>The field collection, over the objects of a table whose rows all have the fields \<open>names\<close>.\<close>

lemma collect_row:
  "d3_map_invar s \<Longrightarrow> set (d3_map_keys s) = set fs \<Longrightarrow> distinct ns \<Longrightarrow> set ns \<inter> set fs = {} \<or> set ns \<subseteq> set fs \<Longrightarrow>
     fold (\<lambda>field (fs, fieldSet). if d3_map_has fieldSet field then (fs, fieldSet)
        else (fs @ [field], d3_set_add fieldSet field)) ns (fs, s) =
       (if set ns \<subseteq> set fs then (fs, s)
        else (fs @ ns, fold (\<lambda>field s. d3_set_add s field) ns s))"
proof (induction ns arbitrary: fs s)
  case (Cons n ns)
  have has: "d3_map_has s n \<longleftrightarrow> n \<in> set fs"
    using Cons.prems(1,2) by (auto simp: d3map.has_get d3map.get_visits d3_map_keys_def
        map_of_eq_None_iff)
  show ?case
  proof (cases "n \<in> set fs")
    case True
    then have "set ns \<subseteq> set fs" using Cons.prems(4) by auto
    then show ?thesis using True has Cons.IH [of s fs] Cons.prems by simp
  next
    case False
    let ?s = "d3_set_add s n"
    have keys: "set (d3_map_keys ?s) = insert n (set (d3_map_keys s))"
      using d3map.keys_put [OF Cons.prems(1), of n True] by (simp add: d3_map_keys_def d3_set_as_map)
    have inv: "d3_map_invar ?s" using Cons.prems(1) by (simp add: d3_set_as_map d3map.invar_put)
    have disj: "set ns \<inter> set (fs @ [n]) = {}" using Cons.prems(3,4) False by auto
    have "fold (\<lambda>field (fs, fieldSet). if d3_map_has fieldSet field then (fs, fieldSet)
        else (fs @ [field], d3_set_add fieldSet field)) ns (fs @ [n], ?s) =
       (if set ns \<subseteq> set (fs @ [n]) then (fs @ [n], ?s)
        else ((fs @ [n]) @ ns, fold (\<lambda>field s. d3_set_add s field) ns ?s))"
      using keys inv disj Cons.prems(2,3) by (intro Cons.IH) auto
    moreover have "set ns \<subseteq> set (fs @ [n]) \<longleftrightarrow> ns = []"
      using disj by (cases ns) auto
    ultimately show ?thesis using False has by auto
  qed
qed simp

lemma d3_set_fold: "fold (\<lambda>field s. d3_set_add s field) ns [] = d3_set ns"
  by (simp add: d3_set_def)

lemma d3_set_keys:
  "d3_map_invar (fold (\<lambda>v s. d3_set_add s v) ns s) \<and>
   set (d3_map_keys (fold (\<lambda>v s. d3_set_add s v) ns s)) = set (d3_map_keys s) \<union> set ns"
  if "d3_map_invar s"
  using that
proof (induction ns arbitrary: s)
  case (Cons n ns)
  have "set (d3_map_keys (d3_set_add s n)) = insert n (set (d3_map_keys s))"
    using d3map.keys_put [OF Cons.prems, of n True] by (simp add: d3_map_keys_def d3_set_as_map)
  moreover have "d3_map_invar (d3_set_add s n)"
    using Cons.prems by (simp add: d3_set_as_map d3map.invar_put)
  ultimately show ?case using Cons.IH [of "d3_set_add s n"] by auto
qed simp

lemma collect_fields_table:
  assumes "rows \<noteq> []" "\<forall>row \<in> set rows. map fst row = names" "distinct names" "names \<noteq> []"
  shows "collect_fields rows = names"
proof -
  let ?step = "\<lambda>field (fs, fieldSet). if d3_map_has fieldSet field then (fs, fieldSet)
        else (fs @ [field], d3_set_add fieldSet field)"
  obtain row rs where rows: "rows = row # rs" using assms(1) by (cases rows) auto
  have first: "fold ?step names ([], []) = (names, d3_set names)"
    using assms(3,4) by (subst collect_row) (auto simp: d3_map_keys_def d3_set_fold)
  have same: "fold ?step names (names, d3_set names) = (names, d3_set names)"
    using assms(3) d3_set_keys [of "[]" names]
    by (subst collect_row) (auto simp: d3_set_def d3_map_keys_def)
  have "\<forall>r \<in> set rs. map fst r = names" using assms(2) rows by simp
  then have "fold (\<lambda>row acc. fold ?step (map fst row) acc) rs (names, d3_set names) = (names, d3_set names)"
    by (induction rs) (simp_all add: same)
  then show ?thesis using assms(2) rows first by (simp add: collect_fields_def)
qed

lemma format_table:
  assumes "\<forall>r \<in> set vals. length r = length names" "distinct names" "names \<noteq> []" "vals \<noteq> []"
  shows "dsv_format d (map (\<lambda>r. zip names (map Some r)) vals) = dsv_formatRows d (names # vals)"
proof -
  let ?rows = "map (\<lambda>r. zip names (map Some r)) vals"
  have fields: "collect_fields ?rows = names"
    using assms by (intro collect_fields_table) auto
  have "map (format_field d (zip names (map Some r))) names = map (formatValue d) r"
    if "length r = length names" for r
    using that assms(2) by (intro nth_equalityI) (auto simp: format_field_def map_of_zip_nth)
  then have "map (\<lambda>row. js_join d (map (format_field d row) names)) ?rows = map (formatRow d) vals"
    using assms(1) by (simp add: formatRow_def)
  then show ?thesis
    by (simp only: dsv_format_def fields dsv_formatRows_def formatRow_def Let_def list.map)
qed

lemma enumerate_Suc_const:
  "map the (filter (\<lambda>r. r \<noteq> None)
     (map (\<lambda>(i, row). if i = 0 then None else Some (g row)) (enumerate (Suc n) rows))) = map g rows"
  by (induction rows arbitrary: n) auto

section \<open>Properties\<close>

text \<open>
  The first field with a bare carriage return.  An unquoted token holds none, so the row read there differs from the row written.
\<close>

lemma unquoted_no_CR: "CR \<notin> set (fst (unquoted d s))"
  by (induction d s rule: unquoted.induct) (auto simp: split_def Let_def)

lemma token_bare_CR:
  assumes "delimiter_ok d" "\<not> dsv_safe d v"
  obtains w st where "dsv_token d (formatValue d v @ r, False) = (Field w, st)" "w \<noteq> v"
proof -
  have v: "CR \<in> set v" "\<not> reFormat_test d v" using assms(2) by (auto simp: dsv_safe_def)
  then have "QUOTE \<notin> set v" using assms(1) by (simp add: reFormat_ok)
  then have "v @ r \<noteq> []" "hd (v @ r) \<noteq> QUOTE" using v(1) by (cases v; auto)+
  then have "dsv_token d (formatValue d v @ r, False) = (Field (fst (unquoted d (v @ r))), snd (unquoted d (v @ r)))"
    using v(2) by (simp add: dsv_token_def formatValue_def split_def Let_def)
  moreover have "fst (unquoted d (v @ r)) \<noteq> v" using unquoted_no_CR v(1) by metis
  ultimately show ?thesis by (rule that)
qed

lemma read_row_bare_CR:
  assumes "delimiter_ok d"
  shows "\<not> (\<forall>v \<in> set row. dsv_safe d v) \<Longrightarrow>
    \<exists>t st. dsv_token d (formatRow d row @ tail, False) = (t, st) \<and> t \<noteq> EOF \<and> fst (row_fields d t st) \<noteq> row"
proof (induction row)
  case (Cons v row)
  obtain r where r: "formatRow d (v # row) @ tail = formatValue d v @ r" "row \<noteq> [] \<Longrightarrow> r = d # formatRow d row @ tail"
    by (cases "row = []") (simp_all add: formatRow_def js_join_Cons)
  show ?case
  proof (cases "dsv_safe d v")
    case True
    then have bad: "row \<noteq> []" "\<not> (\<forall>v \<in> set row. dsv_safe d v)" using Cons.prems by auto
    then obtain t st where IH: "dsv_token d (formatRow d row @ tail, False) = (t, st)" "fst (row_fields d t st) \<noteq> row"
      using Cons.IH by auto
    have "dsv_token d (formatRow d (v # row) @ tail, False) = (Field v, (formatRow d row @ tail, False))"
      using token_value_sep [OF assms True, of d "formatRow d row @ tail"] assms r bad by (simp add: delimiter_ok_def)
    then show ?thesis using IH by (auto simp: row_fields_Field split_def Let_def)
  next
    case False
    then obtain w st where "dsv_token d (formatRow d (v # row) @ tail, False) = (Field w, st)" "w \<noteq> v"
      using token_bare_CR [OF assms, of v r] r(1) by metis
    moreover have "fst (row_fields d (Field w) st) = w # snd (fst (row_fields d (Field w) st), tl (fst (row_fields d (Field w) st)))"
      by (simp add: row_fields.simps [of d "Field w"] split_def Let_def)
    ultimately show ?thesis by (metis list.inject token.distinct(3))
  qed
qed simp

text \<open>An empty field at the very end is not read.\<close>

lemma read_row_empty_last:
  assumes "delimiter_ok d"
  shows "vs \<noteq> [] \<Longrightarrow> \<forall>v \<in> set vs. dsv_safe d v \<Longrightarrow>
    \<exists>t st. dsv_token d (formatRow d (vs @ [[]]), False) = (t, st) \<and> t \<noteq> EOF \<and> row_fields d t st = (vs, ([], False))"
proof (induction vs)
  case (Cons v vs)
  have fmt: "formatRow d ((v # vs) @ [[]]) = formatValue d v @ d # formatRow d (vs @ [[]])"
    by (simp add: formatRow_def js_join_Cons)
  have tok: "dsv_token d (formatRow d ((v # vs) @ [[]]), False) = (Field v, (formatRow d (vs @ [[]]), False))"
    using token_value_sep [OF assms, of v d "formatRow d (vs @ [[]])"] assms Cons.prems unfolding fmt by (simp add: delimiter_ok_def)
  show ?case
  proof (cases "vs = []")
    case True
    then have "formatRow d (vs @ [[]]) = []" using assms by (simp add: formatRow_def formatValue_def reFormat_ok)
    then show ?thesis using tok True by (simp add: row_fields_Field dsv_token_def)
  next
    case False
    then obtain t st where "dsv_token d (formatRow d (vs @ [[]]), False) = (t, st)" "row_fields d t st = (vs, ([], False))"
      using Cons by auto
    then show ?thesis using tok by (simp add: row_fields_Field)
  qed
qed simp

lemma rows_loop_head:
  "dsv_token d st = (t, st') \<Longrightarrow> t \<noteq> EOF \<Longrightarrow>
     rows_loop d (\<lambda>row n. Some row) st n = fst (row_fields d t st') # rows_loop d (\<lambda>row n. Some row) (snd (row_fields d t st')) (Suc n)"
  by (subst rows_loop_step) (auto simp: prod_eq_iff)

lemma read_row_newline:
  assumes "delimiter_ok d"
  shows "row \<noteq> [] \<Longrightarrow> \<forall>v \<in> set row. dsv_safe d v \<Longrightarrow>
    \<exists>t st. dsv_token d (formatRow d row @ [LF], False) = (t, st) \<and> t \<noteq> EOF \<and> row_fields d t st = (row, ([], True))"
proof (induction row)
  case (Cons v row)
  show ?case
  proof (cases "row = []")
    case True
    then show ?thesis using token_value_sep [OF assms, of v LF "[]"] Cons.prems
      by (simp add: formatRow_def row_fields_Field dsv_token_def)
  next
    case False
    then obtain t st where "dsv_token d (formatRow d row @ [LF], False) = (t, st)" "row_fields d t st = (row, ([], True))"
      using Cons by auto
    moreover have "dsv_token d (formatRow d (v # row) @ [LF], False) = (Field v, (formatRow d row @ [LF], False))"
      using token_value_sep [OF assms, of v d "formatRow d row @ [LF]"] assms Cons.prems False
      by (simp add: formatRow_def js_join_Cons delimiter_ok_def)
    ultimately show ?thesis by (simp add: row_fields_Field)
  qed
qed simp

lemma rows_loop_done: "rows_loop d f ([], b) n = []"
  by (subst rows_loop.simps) (simp add: dsv_token_def)

lemma rows_loop_restores:
  assumes d: "delimiter_ok d"
  shows "\<forall>row \<in> set rows. row \<noteq> [] \<Longrightarrow> rows_loop d (\<lambda>row n. Some row) (dsv_formatRows d rows, False) n = rows \<Longrightarrow> dsv_rows_ok d rows"
proof (induction rows arbitrary: n)
  case Nil
  then show ?case using d by (simp add: dsv_rows_ok_def)
next
  case (Cons row rows)
  define tail where "tail = (if rows = [] then [] else LF # dsv_formatRows d rows)"
  have fmt: "dsv_formatRows d (row # rows) = formatRow d row @ tail"
    by (simp add: tail_def dsv_formatRows_def js_join_Cons)
  have safe: "\<forall>v \<in> set row. dsv_safe d v"
  proof (rule ccontr)
    assume "\<not> (\<forall>v \<in> set row. dsv_safe d v)"
    from read_row_bare_CR [OF d this, of tail] show False
      using Cons.prems(2) unfolding fmt by (auto simp: rows_loop_head)
  qed
  show ?case
  proof (cases "rows = []")
    case True
    have "last row \<noteq> []"
    proof
      assume l: "last row = []"
      then obtain vs where vs: "row = vs @ [[]]" using Cons.prems(1) by (metis append_butlast_last_id list.set_intros(1))
      have "vs \<noteq> []" using Cons.prems(2) True vs d
        by (auto simp: dsv_formatRows_def formatRow_def formatValue_def reFormat_ok)
      then show False using read_row_empty_last [OF d, of vs] safe Cons.prems(2) True vs
        by (auto simp: dsv_formatRows_def rows_loop_head)
    qed
    then show ?thesis using d safe True Cons.prems(1) by (simp add: dsv_rows_ok_def)
  next
    case False
    have "dsv_formatRows d rows \<noteq> []"
    proof
      assume "dsv_formatRows d rows = []"
      then show False using read_row_newline [OF d, of row] safe Cons.prems False unfolding fmt
        by (auto simp: tail_def rows_loop_head rows_loop_done)
    qed
    then obtain t st where "dsv_token d (formatRow d row @ LF # dsv_formatRows d rows, False) = (t, st)"
        "t \<noteq> EOF" "row_fields d t st = (row, (dsv_formatRows d rows, False))"
      using read_row_more [OF d] safe Cons.prems(1) by (metis list.set_intros(1))
    then have "rows_loop d (\<lambda>row n. Some row) (dsv_formatRows d rows, False) (Suc n) = rows"
      using Cons.prems(2) False unfolding fmt by (simp add: tail_def rows_loop_head)
    then have "dsv_rows_ok d rows" using Cons.IH Cons.prems(1) by simp
    then show ?thesis using safe False Cons.prems(1) by (auto simp: dsv_rows_ok_def)
  qed
qed

section \<open>Properties\<close>

text \<open>
  (C1) Row round trip.  For every delimiter other than a quote, a line end, a backslash, a closing bracket and a hyphen, formatting rows
  and parsing the text returns the rows, provided every row has a field, the very last field
  is not empty, and no field holds a carriage return without also needing quotes.
\<close>

theorem dsv_rows_roundtrip:
  assumes "dsv_rows_ok d rows"
  shows "dsv_parseRows d (dsv_formatRows d rows) = rows"
  using rows_loop_format [OF assms, of "\<lambda>row n. Some row" 0] map_the_enumerate [of 0 rows]
  by (simp add: dsv_parseRows_def split_def)

theorem dsv_rows_roundtrip_witness:
  "dsv_parseRows csv_delimiter (dsv_formatRows csv_delimiter
      [[''a'', []], [''b,c'', [QUOTE, CHR ''x'', LF]], [[], ''z'']]) =
   [[''a'', []], [''b,c'', [QUOTE, CHR ''x'', LF]], [[], ''z'']]"
  by (rule dsv_rows_roundtrip)
    (simp add: dsv_rows_ok_def delimiter_ok_def dsv_safe_def csv_delimiter_def reFormat_test_def
      QUOTE_def LF_def CR_def)

text \<open>
  (C2) Object round trip.  A non-empty table with distinct column names (none of them \<open>__proto__\<close>), whose header and rows satisfy the
  conditions of the row round trip (a delimiter as there, a last field that is not empty, no bare carriage return), written by \<open>format\<close> and
  read by \<open>parse\<close>, is restored: the same objects with the same properties in the same order.
\<close>

theorem dsv_objects_roundtrip:
  assumes "dsv_rows_ok d (names # vals)" "\<forall>r \<in> set vals. length r = length names"
    and "distinct names" "''__proto__'' \<notin> set names" "vals \<noteq> []"
  shows "dsv_parse d (dsv_format d (map (\<lambda>r. zip names (map Some r)) vals)) =
    map (\<lambda>r. zip names (map Some r)) vals"
proof -
  let ?text = "dsv_formatRows d (names # vals)"
  have "names \<noteq> []" using assms(1) by (auto simp: dsv_rows_ok_def)
  then have fmt: "dsv_format d (map (\<lambda>r. zip names (map Some r)) vals) = ?text"
    using assms by (intro format_table) auto
  have rows: "dsv_parseRows d ?text = names # vals"
    using rows_loop_format [OF assms(1), of "\<lambda>row n. Some row" 0] map_the_enumerate [of 0 "names # vals"]
    by (simp add: dsv_parseRows_def split_def)
  have "dsv_parse d ?text = map (header_object names) vals"
    using rows_loop_format [OF assms(1), of "\<lambda>row i. if i = 0 then None else Some (header_object names row)" 0]
      enumerate_Suc_const [of "header_object names" 0 vals]
    by (simp add: dsv_parse_def dsv_parse_by_def dsv_parseRows_by_def rows)
  also have "\<dots> = map (\<lambda>r. zip names (map Some r)) vals"
    using assms(2-4) by (auto simp: header_object_fields)
  finally show ?thesis by (simp add: fmt)
qed

theorem dsv_objects_roundtrip_witness:
  "dsv_parse tsv_delimiter (dsv_format tsv_delimiter
      (map (\<lambda>r. zip [''x'', ''y''] (map Some r)) [[''1'', ''2''], [[], ''4'']])) =
   map (\<lambda>r. zip [''x'', ''y''] (map Some r)) [[''1'', ''2''], [[], ''4'']]"
  by (rule dsv_objects_roundtrip)
    (simp_all add: dsv_rows_ok_def delimiter_ok_def dsv_safe_def tsv_delimiter_def reFormat_test_def
      QUOTE_def LF_def CR_def)

text \<open>
  (C39) Where the round trip breaks.  With a delimiter as above, rows with at least one field each come back as they were written exactly if
  no field holds a carriage return without also needing quotes and the very last field is not empty.  So every table with another carriage return, which
  the parser takes for a line end and the formatter does not quote, and every table with an empty last field, which the tokenizer drops, comes back changed.
\<close>

theorem dsv_roundtrip_exactly:
  assumes "delimiter_ok d" "\<forall>row \<in> set rows. row \<noteq> []"
  shows "dsv_parseRows d (dsv_formatRows d rows) = rows \<longleftrightarrow>
    (\<forall>row \<in> set rows. \<forall>v \<in> set row. CR \<in> set v \<longrightarrow> QUOTE \<in> set v \<or> d \<in> set v \<or> LF \<in> set v) \<and> (rows \<noteq> [] \<longrightarrow> last (last rows) \<noteq> [])"
proof -
  have "dsv_rows_ok d rows \<longleftrightarrow>
    (\<forall>row \<in> set rows. \<forall>v \<in> set row. CR \<in> set v \<longrightarrow> QUOTE \<in> set v \<or> d \<in> set v \<or> LF \<in> set v) \<and> (rows \<noteq> [] \<longrightarrow> last (last rows) \<noteq> [])"
    using assms by (auto simp: dsv_rows_ok_def dsv_safe_def reFormat_ok)
  moreover have "dsv_rows_ok d rows \<Longrightarrow> rows_loop d (\<lambda>row n. Some row) (dsv_formatRows d rows, False) 0 = rows"
    using rows_loop_format [of d rows "\<lambda>row n. Some row" 0] map_the_enumerate [of 0 rows] by (simp add: split_def)
  moreover have "rows_loop d (\<lambda>row n. Some row) (dsv_formatRows d rows, False) 0 = rows \<Longrightarrow> dsv_rows_ok d rows"
    by (rule rows_loop_restores [OF assms])
  ultimately show ?thesis unfolding dsv_parseRows_def by blast
qed

theorem dsv_roundtrip_exactly_witness:
  "dsv_parseRows csv_delimiter (dsv_formatRows csv_delimiter [[''a'', []], [''b'', [CHR ''c'', CR]]]) \<noteq> [[''a'', []], [''b'', [CHR ''c'', CR]]]"
  by (subst dsv_roundtrip_exactly) (simp_all add: delimiter_ok_def csv_delimiter_def QUOTE_def LF_def CR_def)

text \<open>With a backslash for its delimiter, fields that hold one are not quoted, and come back split; a closing bracket behaves alike, and a hyphen throws.\<close>

lemma dsv_delimiter_failures:
  "dsv_parseRows (CHR 92) (dsv_formatRows (CHR 92) [[[CHR ''a'', CHR 92, CHR ''b'']]]) = [[''a'', ''b'']]"
  "dsv_parseRows (CHR '']'') (dsv_formatRows (CHR '']'') [[''a]b'']]) = [[''a'', ''b'']]"
  "dsv_throws (CHR ''-'')"
  by (simp_all add: dsv_parseRows_def dsv_formatRows_def formatRow_def formatValue_def reFormat_test_def dsv_throws_def
      rows_loop.simps row_fields.simps dsv_token_def QUOTE_def LF_def CR_def)

end
