(* ===== verification/D3_Timer.thy ===== *)
theory D3_Timer
  imports JS_Prelude
begin

text \<open>
  The timer queue (\<open>d3.js\<close> lines 2046 to 2105): \<open>d3.timer\<close>, \<open>d3_timer_step\<close>, \<open>d3.timer.flush\<close>,
  \<open>d3_timer_mark\<close> and \<open>d3_timer_sweep\<close>.

  The queue is a singly linked list of mutable timer objects with a head and a tail pointer.
  The objects live in a store indexed by numbers; \<open>None\<close> is the null (or undefined) pointer.
  \<open>pending_frames\<close> counts the requested animation frames that will call \<open>d3_timer_step\<close>, and
  \<open>d3_timer_timeout\<close> is the delay of the timeout that will.  A callback is run by the parameter
  \<open>run\<close>: it receives the elapsed time and the state, and either returns whether the timer is
  finished or throws.  The walk over the queue may not end, since callbacks can schedule new
  timers, so it is a \<open>partial_function\<close>.
\<close>

section \<open>State\<close>

record 'c timer =
  tc :: 'c
  tt :: jsnum
  tf :: bool
  tn :: "nat option"

record 'c timers =
  store :: "nat \<Rightarrow> 'c timer"
  next_id :: nat
  d3_timer_queueHead :: "nat option"
  d3_timer_queueTail :: "nat option"
  d3_timer_active :: "nat option"
  d3_timer_interval :: bool
  d3_timer_timeout :: "real option"
  pending_frames :: nat

datatype timer_error = Thrown | TypeError

datatype 'c outcome = Returns bool "'c timers" | Throws "'c timers"

type_synonym 'c runner = "'c \<Rightarrow> jsnum \<Rightarrow> 'c timers \<Rightarrow> 'c outcome"

section \<open>Operations\<close>

definition d3_timer :: "'c \<Rightarrow> jsnum \<Rightarrow> jsnum \<Rightarrow> 'c timers \<Rightarrow> 'c timers" where
  "d3_timer callback delay thn st =
     (let i = next_id st;
          timer = \<lparr>tc = callback, tt = js_add thn delay, tf = False, tn = None\<rparr>;
          st1 = st\<lparr>store := (store st)(i := timer), next_id := Suc i\<rparr>;
          st2 = (case d3_timer_queueTail st1 of
                   Some q \<Rightarrow> st1\<lparr>store := (store st1)(q := (store st1 q)\<lparr>tn := Some i\<rparr>)\<rparr>
                 | None \<Rightarrow> st1\<lparr>d3_timer_queueHead := Some i\<rparr>);
          st3 = st2\<lparr>d3_timer_queueTail := Some i\<rparr>
      in if \<not> d3_timer_interval st3
         then st3\<lparr>d3_timer_timeout := None, d3_timer_interval := True,
                  pending_frames := Suc (pending_frames st3)\<rparr>
         else st3)"

text \<open>
  The loop of \<open>d3_timer_mark\<close>.  The object whose \<open>f\<close> is assigned is fixed before the callback
  runs; the pointer \<open>d3_timer_active\<close> is read again after it.
\<close>

partial_function (option) mark_loop ::
  "'c runner \<Rightarrow> real \<Rightarrow> 'c timers \<Rightarrow> (timer_error option \<times> 'c timers) option" where
  "mark_loop run now st =
     (case d3_timer_active st of
        None \<Rightarrow> Some (None, st)
      | Some i \<Rightarrow>
          (case (if num_le (tt (store st i)) (Fin now)
                 then (case run (tc (store st i)) (js_sub (Fin now) (tt (store st i))) st of
                         Throws st' \<Rightarrow> (Some Thrown, st')
                       | Returns b st' \<Rightarrow> (None, st'\<lparr>store := (store st')(i := (store st' i)\<lparr>tf := b\<rparr>)\<rparr>))
                 else (None, st)) of
             (Some e, st') \<Rightarrow> Some (Some e, st')
           | (None, st') \<Rightarrow>
               (case d3_timer_active st' of
                  None \<Rightarrow> Some (Some TypeError, st')
                | Some a \<Rightarrow> mark_loop run now (st'\<lparr>d3_timer_active := tn (store st' a)\<rparr>))))"

definition d3_timer_mark ::
  "'c runner \<Rightarrow> real \<Rightarrow> 'c timers \<Rightarrow> (timer_error option \<times> 'c timers) option" where
  "d3_timer_mark run now st = mark_loop run now (st\<lparr>d3_timer_active := d3_timer_queueHead st\<rparr>)"

partial_function (option) sweep_loop ::
  "nat option \<Rightarrow> nat option \<Rightarrow> jsnum \<Rightarrow> 'c timers \<Rightarrow> (jsnum \<times> 'c timers) option" where
  "sweep_loop t0 t1 time st =
     (case t1 of
        None \<Rightarrow> Some (time, st\<lparr>d3_timer_queueTail := t0\<rparr>)
      | Some i \<Rightarrow>
          if tf (store st i) then
            (let nx = tn (store st i);
                 st' = (case t0 of
                          Some j \<Rightarrow> st\<lparr>store := (store st)(j := (store st j)\<lparr>tn := nx\<rparr>)\<rparr>
                        | None \<Rightarrow> st\<lparr>d3_timer_queueHead := nx\<rparr>)
             in sweep_loop t0 nx time st')
          else
            sweep_loop (Some i) (tn (store st i))
              (if num_lt (tt (store st i)) time then tt (store st i) else time) st)"

definition d3_timer_sweep :: "'c timers \<Rightarrow> (jsnum \<times> 'c timers) option" where
  "d3_timer_sweep st = sweep_loop None (d3_timer_queueHead st) PInf st"

text \<open>What \<open>d3_timer_step\<close> does with the time of the earliest remaining timer.\<close>

definition reschedule :: "jsnum \<Rightarrow> 'c timers \<Rightarrow> 'c timers" where
  "reschedule delay st =
     (if num_lt (Fin 24) delay
      then (case delay of
              Fin dl \<Rightarrow> st\<lparr>d3_timer_timeout := Some dl, d3_timer_interval := False\<rparr>
            | _ \<Rightarrow> st\<lparr>d3_timer_interval := False\<rparr>)
      else st\<lparr>d3_timer_interval := True, pending_frames := Suc (pending_frames st)\<rparr>)"

definition d3_timer_step ::
  "'c runner \<Rightarrow> real \<Rightarrow> 'c timers \<Rightarrow> (timer_error option \<times> 'c timers) option" where
  "d3_timer_step run now st =
     (case d3_timer_mark run now st of
        None \<Rightarrow> None
      | Some (Some e, st1) \<Rightarrow> Some (Some e, st1)
      | Some (None, st1) \<Rightarrow>
          (case d3_timer_sweep st1 of
             None \<Rightarrow> None
           | Some (time, st2) \<Rightarrow> Some (None, reschedule (js_sub time (Fin now)) st2)))"

definition d3_timer_flush ::
  "'c runner \<Rightarrow> real \<Rightarrow> 'c timers \<Rightarrow> (timer_error option \<times> 'c timers) option" where
  "d3_timer_flush run now st =
     (case d3_timer_mark run now st of
        None \<Rightarrow> None
      | Some (Some e, st1) \<Rightarrow> Some (Some e, st1)
      | Some (None, st1) \<Rightarrow> map_option (\<lambda>(time, st2). (None, st2)) (d3_timer_sweep st1))"

text \<open>Before the first call nothing is queued; \<open>c0\<close> fills the store cells that are not in use.\<close>

definition initial_timers :: "'c \<Rightarrow> 'c timers" where
  "initial_timers c0 = \<lparr>store = (\<lambda>_. \<lparr>tc = c0, tt = Fin 0, tf = False, tn = None\<rparr>), next_id = 0,
     d3_timer_queueHead = None, d3_timer_queueTail = None, d3_timer_active = None,
     d3_timer_interval = False, d3_timer_timeout = None, pending_frames = 0\<rparr>"

section \<open>Linked lists\<close>

fun seg :: "(nat \<Rightarrow> 'c timer) \<Rightarrow> nat option \<Rightarrow> nat list \<Rightarrow> nat option \<Rightarrow> bool" where
  "seg tm p [] q \<longleftrightarrow> p = q"
| "seg tm p (x # xs) q \<longleftrightarrow> p = Some x \<and> seg tm (tn (tm x)) xs q"

lemma seg_append: "seg tm p (xs @ ys) q \<longleftrightarrow> (\<exists>r. seg tm p xs r \<and> seg tm r ys q)"
  by (induction xs arbitrary: p) auto

lemma seg_cong: "(\<And>x. x \<in> set xs \<Longrightarrow> tn (tm x) = tn (tm' x)) \<Longrightarrow> seg tm p xs q = seg tm' p xs q"
  by (induction xs arbitrary: p) auto

lemma seg_set_last:
  "seg tm p (xs @ [j]) q \<Longrightarrow> j \<notin> set xs \<Longrightarrow>
     seg (tm(j := (tm j)\<lparr>tn := q'\<rparr>)) p (xs @ [j]) q'"
proof -
  assume "seg tm p (xs @ [j]) q" "j \<notin> set xs"
  moreover have "seg (tm(j := (tm j)\<lparr>tn := q'\<rparr>)) p xs (Some j) = seg tm p xs (Some j)"
    using \<open>j \<notin> set xs\<close> by (intro seg_cong) auto
  ultimately show ?thesis by (auto simp: seg_append)
qed

definition last_opt :: "nat list \<Rightarrow> nat option" where
  "last_opt xs = (if xs = [] then None else Some (last xs))"

text \<open>The timers in the queue, from head to tail.\<close>

definition queue :: "'c timers \<Rightarrow> nat list \<Rightarrow> bool" where
  "queue st xs \<longleftrightarrow> seg (store st) (d3_timer_queueHead st) xs None \<and> distinct xs \<and>
     d3_timer_queueTail st = last_opt xs \<and> (\<forall>x \<in> set xs. x < next_id st)"

lemma last_opt_simps [simp]: "last_opt [] = None" "last_opt [x] = Some x" "last_opt (xs @ [x]) = Some x"
  by (simp_all add: last_opt_def)

lemma d3_timer_store:
  "d3_timer_active (d3_timer c dl th st) = d3_timer_active st"
  "next_id (d3_timer c dl th st) = Suc (next_id st)"
  by (auto simp: d3_timer_def Let_def split: option.splits)

lemma d3_timer_queue:
  assumes "queue st xs"
  shows "queue (d3_timer c dl th st) (xs @ [next_id st])"
proof (cases xs rule: rev_cases)
  case Nil
  then show ?thesis using assms by (auto simp: queue_def d3_timer_def Let_def)
next
  case (snoc ys j)
  let ?i = "next_id st" and ?t = "\<lparr>tc = c, tt = js_add th dl, tf = False, tn = None\<rparr>"
  let ?s = "(store st)(?i := ?t)"
  have q: "seg (store st) (d3_timer_queueHead st) (ys @ [j]) None" "distinct (ys @ [j])"
      "\<forall>x \<in> set (ys @ [j]). x < ?i" "d3_timer_queueTail st = Some j"
    using assms snoc by (auto simp: queue_def)
  have "seg ?s (d3_timer_queueHead st) (ys @ [j]) None"
    using q(1,3) by (subst seg_cong [where tm' = "store st"]) auto
  then have "seg (?s(j := (?s j)\<lparr>tn := Some ?i\<rparr>)) (d3_timer_queueHead st) (ys @ [j]) (Some ?i)"
    using q(2) by (intro seg_set_last) auto
  moreover have "j \<noteq> ?i" using q(3) by auto
  ultimately have "seg (?s(j := (?s j)\<lparr>tn := Some ?i\<rparr>)) (d3_timer_queueHead st) ((ys @ [j]) @ [?i]) None"
    by (subst seg_append) auto
  moreover have "\<forall>x \<in> set (xs @ [?i]). x < Suc ?i" "distinct (xs @ [?i])"
    using q(2,3) snoc by auto
  moreover have "store (d3_timer c dl th st) = ?s(j := (?s j)\<lparr>tn := Some ?i\<rparr>)"
      "d3_timer_queueHead (d3_timer c dl th st) = d3_timer_queueHead st"
      "d3_timer_queueTail (d3_timer c dl th st) = Some ?i"
      "next_id (d3_timer c dl th st) = Suc ?i"
    using q(4) by (simp_all add: d3_timer_def Let_def)
  ultimately show ?thesis using snoc
    by (simp only: queue_def last_opt_simps)
qed

section \<open>The sweep\<close>

text \<open>The earliest time among the timers that stay.\<close>

definition earliest :: "(nat \<Rightarrow> 'c timer) \<Rightarrow> nat list \<Rightarrow> jsnum \<Rightarrow> jsnum" where
  "earliest tm xs time = foldl (\<lambda>time i. if num_lt (tt (tm i)) time then tt (tm i) else time) time xs"

lemma earliest_cong: "(\<And>i. tt (tm i) = tt (tm' i)) \<Longrightarrow> earliest tm xs time = earliest tm' xs time"
  by (simp add: earliest_def cong: if_cong)

text \<open>Times that are not a number or infinite are never the earliest.\<close>

lemma earliest_lower: "num_lt time PInf \<Longrightarrow> num_lt (earliest tm xs time) PInf"
proof (induction xs arbitrary: time)
  case (Cons y ys)
  have "num_lt (if num_lt (tt (tm y)) time then tt (tm y) else time) PInf"
    using Cons.prems num_lt_trans by auto
  from Cons.IH [OF this] show ?case by (simp add: earliest_def)
qed (simp add: earliest_def)

lemma earliest_due: "i \<in> set xs \<Longrightarrow> num_lt (tt (tm i)) PInf \<Longrightarrow> num_lt (earliest tm xs PInf) PInf"
proof (induction xs)
  case (Cons y ys)
  show ?case
  proof (cases "num_lt (tt (tm y)) PInf")
    case True
    then show ?thesis using earliest_lower [OF True, of tm ys] by (simp add: earliest_def)
  next
    case False
    then show ?thesis using Cons by (auto simp: earliest_def)
  qed
qed simp

lemma earliest_never: "(\<And>i. i \<in> set xs \<Longrightarrow> \<not> num_lt (tt (tm i)) PInf) \<Longrightarrow> earliest tm xs PInf = PInf"
  by (induction xs) (simp_all add: earliest_def)

lemma earliest_not_NaN: "earliest tm xs PInf \<noteq> NaN"
  using earliest_due [of _ xs tm] earliest_never [of xs tm] by (metis jsnum.distinct(1) num_lt.simps(2))

lemma num_lt_PInf_cases: "num_lt t PInf \<Longrightarrow> t = NInf \<or> (\<exists>r. t = Fin r)"
  by (cases t) auto

lemma sweep_loop_None:
  "sweep_loop t0 None time st = Some (time, st\<lparr>d3_timer_queueTail := t0\<rparr>)"
  by (simp add: sweep_loop.simps)

lemma sweep_loop_correct:
  assumes "seg (store st) (d3_timer_queueHead st) (ps @ xs) None" "distinct (ps @ xs)"
    and "seg (store st) t1 xs None" "t0 = last_opt ps" "\<forall>i \<in> set ps. \<not> tf (store st i)"
  shows "\<exists>tm hd. sweep_loop t0 t1 time st =
      Some (earliest (store st) (filter (\<lambda>i. \<not> tf (store st i)) xs) time,
        st\<lparr>store := tm, d3_timer_queueHead := hd,
           d3_timer_queueTail := last_opt (ps @ filter (\<lambda>i. \<not> tf (store st i)) xs)\<rparr>) \<and>
      seg tm hd (ps @ filter (\<lambda>i. \<not> tf (store st i)) xs) None \<and>
      (\<forall>i. tt (tm i) = tt (store st i) \<and> tf (tm i) = tf (store st i) \<and> tc (tm i) = tc (store st i))"
  using assms
proof (induction xs arbitrary: ps t0 t1 time st)
  case Nil
  then show ?case
    by (intro exI [of _ "store st"] exI [of _ "d3_timer_queueHead st"])
      (auto simp: sweep_loop_None earliest_def)
next
  case (Cons x xs)
  have t1: "t1 = Some x" "seg (store st) (tn (store st x)) xs None" using Cons.prems(3) by auto
  show ?case
  proof (cases "tf (store st x)")
    case False
    obtain tm hd where "sweep_loop (Some x) (tn (store st x))
        (if num_lt (tt (store st x)) time then tt (store st x) else time) st =
      Some (earliest (store st) (filter (\<lambda>i. \<not> tf (store st i)) xs)
          (if num_lt (tt (store st x)) time then tt (store st x) else time),
        st\<lparr>store := tm, d3_timer_queueHead := hd,
           d3_timer_queueTail := last_opt ((ps @ [x]) @ filter (\<lambda>i. \<not> tf (store st i)) xs)\<rparr>)"
      "seg tm hd ((ps @ [x]) @ filter (\<lambda>i. \<not> tf (store st i)) xs) None"
      "\<forall>i. tt (tm i) = tt (store st i) \<and> tf (tm i) = tf (store st i) \<and> tc (tm i) = tc (store st i)"
      using Cons.IH [of st "ps @ [x]" "tn (store st x)" "Some x"
          "if num_lt (tt (store st x)) time then tt (store st x) else time"]
        Cons.prems t1(2) False by auto
    then show ?thesis
      using t1(1) False
      by (intro exI [of _ tm] exI [of _ hd])
        (simp add: sweep_loop.simps [of t0 "Some x"] earliest_def)
  next
    case True
    define st' where "st' = (case t0 of
        Some j \<Rightarrow> st\<lparr>store := (store st)(j := (store st j)\<lparr>tn := tn (store st x)\<rparr>)\<rparr>
      | None \<Rightarrow> st\<lparr>d3_timer_queueHead := tn (store st x)\<rparr>)"
    have data: "tt (store st' i) = tt (store st i)" "tf (store st' i) = tf (store st i)"
        "tc (store st' i) = tc (store st i)" for i
      by (simp_all add: st'_def split: option.splits)
    have link: "seg (store st') (d3_timer_queueHead st') (ps @ xs) None \<and>
        seg (store st') (tn (store st x)) xs None"
    proof (cases ps rule: rev_cases)
      case Nil
      then show ?thesis using Cons.prems(4) t1 by (simp add: st'_def)
    next
      case (snoc qs j)
      then have t0: "t0 = Some j" using Cons.prems(4) by simp
      have tail: "seg (store st') (tn (store st x)) xs None"
        using t1(2) Cons.prems(2) snoc
        by (subst seg_cong [where tm' = "store st"]) (auto simp: st'_def t0)
      obtain r where "seg (store st) (d3_timer_queueHead st) (qs @ [j]) r"
        using Cons.prems(1) snoc by (auto simp: seg_append)
      then have "seg (store st') (d3_timer_queueHead st) (qs @ [j]) (tn (store st x))"
        using Cons.prems(2) snoc seg_set_last [of "store st" _ qs j] by (simp add: st'_def t0)
      then show ?thesis using tail snoc by (auto simp: st'_def t0 seg_append)
    qed
    have rest: "(\<lambda>i. \<not> tf (store st' i)) = (\<lambda>i. \<not> tf (store st i))" using data by simp
    have ear: "earliest (store st') ys time = earliest (store st) ys time" for ys
      using data by (intro earliest_cong) simp
    obtain tm hd where IH: "sweep_loop t0 (tn (store st x)) time st' =
      Some (earliest (store st) (filter (\<lambda>i. \<not> tf (store st i)) xs) time,
        st'\<lparr>store := tm, d3_timer_queueHead := hd,
           d3_timer_queueTail := last_opt (ps @ filter (\<lambda>i. \<not> tf (store st i)) xs)\<rparr>)"
      "seg tm hd (ps @ filter (\<lambda>i. \<not> tf (store st i)) xs) None"
      "\<forall>i. tt (tm i) = tt (store st i) \<and> tf (tm i) = tf (store st i) \<and> tc (tm i) = tc (store st i)"
      using Cons.IH [of st' ps "tn (store st x)" t0 time] Cons.prems(2,4,5) link data rest ear by auto
    have "sweep_loop t0 t1 time st = sweep_loop t0 (tn (store st x)) time st'"
      using True t1(1) by (simp add: sweep_loop.simps [of t0 "Some x"] st'_def Let_def)
    moreover have "st'\<lparr>store := a, d3_timer_queueHead := b, d3_timer_queueTail := c\<rparr> =
        st\<lparr>store := a, d3_timer_queueHead := b, d3_timer_queueTail := c\<rparr>" for a b c
      by (simp add: st'_def split: option.splits)
    ultimately show ?thesis using IH True by auto
  qed
qed

lemma d3_timer_sweep_correct:
  assumes "queue st xs"
  defines "ys \<equiv> filter (\<lambda>i. \<not> tf (store st i)) xs"
  shows "\<exists>st'. d3_timer_sweep st = Some (earliest (store st) ys PInf, st') \<and> queue st' ys \<and>
     (\<forall>i. tt (store st' i) = tt (store st i) \<and> tf (store st' i) = tf (store st i) \<and>
        tc (store st' i) = tc (store st i)) \<and>
     d3_timer_interval st' = d3_timer_interval st \<and> d3_timer_timeout st' = d3_timer_timeout st \<and>
     pending_frames st' = pending_frames st \<and> next_id st' = next_id st"
proof -
  obtain tm hd where "d3_timer_sweep st = Some (earliest (store st) ys PInf,
        st\<lparr>store := tm, d3_timer_queueHead := hd, d3_timer_queueTail := last_opt ys\<rparr>)"
      "seg tm hd ys None"
      "\<forall>i. tt (tm i) = tt (store st i) \<and> tf (tm i) = tf (store st i) \<and> tc (tm i) = tc (store st i)"
    using sweep_loop_correct [of st "[]" xs "d3_timer_queueHead st" None PInf] assms
    by (auto simp: d3_timer_sweep_def queue_def)
  then show ?thesis using assms by (auto simp: queue_def)
qed

lemma reschedule_queue: "queue st xs \<Longrightarrow> queue (reschedule dl st) xs"
  by (auto simp: reschedule_def queue_def split: jsnum.splits)

section \<open>The walk, when callbacks schedule\<close>

text \<open>What a callback that behaves leaves behind: any number of calls of \<open>d3.timer\<close>.\<close>

inductive schedules :: "'c timers \<Rightarrow> 'c timers \<Rightarrow> bool" where
  none: "schedules st st"
| more: "schedules st st' \<Longrightarrow> schedules st (d3_timer c dl th st')"

definition behaves :: "'c runner \<Rightarrow> bool" where
  "behaves run \<longleftrightarrow> (\<forall>c e st. \<exists>b st'. run c e st = Returns b st' \<and> schedules st st')"

text \<open>A property of the state that scheduling a timer and walking the queue preserve.\<close>

locale walk_invariant =
  fixes I :: "'c timers \<Rightarrow> bool"
  assumes I_timer: "I st \<Longrightarrow> I (d3_timer c dl th st)"
    and I_active: "I st \<Longrightarrow> I (st\<lparr>d3_timer_active := a\<rparr>)"
    and I_flag: "I st \<Longrightarrow> I (st\<lparr>store := (store st)(i := (store st i)\<lparr>tf := b\<rparr>)\<rparr>)"
begin

lemma schedules_preserve: "schedules st st' \<Longrightarrow> I st \<Longrightarrow> I st' \<and> d3_timer_active st' = d3_timer_active st"
  by (induction rule: schedules.induct) (auto simp: I_timer d3_timer_store)

lemma mark_loop_preserves:
  assumes "mark_loop run now st = Some r"
  shows "behaves run \<longrightarrow> I st \<longrightarrow> fst r = None \<and> I (snd r)"
proof (rule mark_loop.raw_induct [where P = "\<lambda>run now st r. behaves run \<longrightarrow> I st \<longrightarrow> fst r = None \<and> I (snd r)",
      OF _ assms], intro impI)
  fix f :: "'c runner \<Rightarrow> real \<Rightarrow> 'c timers \<Rightarrow> (timer_error option \<times> 'c timers) option"
    and run now s r
  assume IH: "\<And>run now s r. f run now s = Some r \<Longrightarrow> behaves run \<longrightarrow> I s \<longrightarrow> fst r = None \<and> I (snd r)"
    and eq: "(case d3_timer_active s of None \<Rightarrow> Some (None, s)
      | Some i \<Rightarrow>
          (case (if num_le (tt (store s i)) (Fin now)
                 then (case run (tc (store s i)) (js_sub (Fin now) (tt (store s i))) s of
                         Throws st' \<Rightarrow> (Some Thrown, st')
                       | Returns b st' \<Rightarrow> (None, st'\<lparr>store := (store st')(i := (store st' i)\<lparr>tf := b\<rparr>)\<rparr>))
                 else (None, s)) of
             (Some e, st') \<Rightarrow> Some (Some e, st')
           | (None, st') \<Rightarrow>
               (case d3_timer_active st' of None \<Rightarrow> Some (Some TypeError, st')
                | Some a \<Rightarrow> f run now (st'\<lparr>d3_timer_active := tn (store st' a)\<rparr>)))) = Some r"
    and wb: "behaves run" and I: "I s"
  show "fst r = None \<and> I (snd r)"
  proof (cases "d3_timer_active s")
    case None
    then show ?thesis using eq I by auto
  next
    case (Some i)
    obtain b s1 where run: "run (tc (store s i)) (js_sub (Fin now) (tt (store s i))) s = Returns b s1"
        "schedules s s1"
      using wb unfolding behaves_def by blast
    define s' where "s' = (if num_le (tt (store s i)) (Fin now)
        then s1\<lparr>store := (store s1)(i := (store s1 i)\<lparr>tf := b\<rparr>)\<rparr> else s)"
    have s': "I s'" "d3_timer_active s' = Some i"
      using schedules_preserve [OF run(2) I] I Some by (auto simp: s'_def I_flag)
    have "f run now (s'\<lparr>d3_timer_active := tn (store s' i)\<rparr>) = Some r"
      using eq Some run(1) s' by (auto simp: s'_def split: if_splits)
    from IH [OF this] show ?thesis using s'(1) wb by (simp add: I_active)
  qed
qed

lemma d3_timer_mark_preserves:
  "behaves run \<Longrightarrow> d3_timer_mark run now st = Some (e, st') \<Longrightarrow> I st \<Longrightarrow> e = None \<and> I st'"
  using mark_loop_preserves [of run now "st\<lparr>d3_timer_active := d3_timer_queueHead st\<rparr>"] I_active
  by (fastforce simp: d3_timer_mark_def)

end

lemma queue_data:
  "queue st xs \<Longrightarrow> queue (st\<lparr>d3_timer_active := a\<rparr>) xs"
  "queue st xs \<Longrightarrow> queue (st\<lparr>store := (store st)(i := (store st i)\<lparr>tf := b\<rparr>)\<rparr>) xs"
  using seg_cong [of xs "(store st)(i := (store st i)\<lparr>tf := b\<rparr>)" "store st"]
  by (auto simp: queue_def)

text \<open>
  Some call of \<open>d3_timer_step\<close> is still to come whenever a timer is queued whose time will come, which is one that is neither \<open>NaN\<close> nor \<open>Infinity\<close>.
\<close>

definition due :: "'c timers \<Rightarrow> nat \<Rightarrow> bool" where
  "due st x \<longleftrightarrow> num_lt (tt (store st x)) PInf"

definition awake :: "'c timers \<Rightarrow> bool" where
  "awake st \<longleftrightarrow> (d3_timer_interval st \<longrightarrow> 0 < pending_frames st) \<and>
     (\<exists>xs. queue st xs \<and> ((\<exists>x \<in> set xs. due st x) \<longrightarrow> 0 < pending_frames st \<or> d3_timer_timeout st \<noteq> None))"

lemma d3_timer_pending:
  "(d3_timer_interval st \<longrightarrow> 0 < pending_frames st) \<Longrightarrow> 0 < pending_frames (d3_timer c dl th st)"
  by (auto simp: d3_timer_def Let_def split: option.splits)

interpretation wf_walk: walk_invariant "\<lambda>st. \<exists>xs. queue st xs"
  by unfold_locales (blast intro: d3_timer_queue queue_data)+

interpretation awake_walk: walk_invariant awake
proof (unfold_locales, goal_cases)
  case (1 st c dl th)
  then have "d3_timer_interval st \<longrightarrow> 0 < pending_frames st" by (simp add: awake_def)
  then have "0 < pending_frames (d3_timer c dl th st)" by (rule d3_timer_pending)
  with 1 show ?case by (auto simp: awake_def intro: d3_timer_queue)
next
  case (2 st a)
  then show ?case by (auto simp: awake_def due_def intro: queue_data)
next
  case (3 st i b)
  let ?st = "st\<lparr>store := (store st)(i := (store st i)\<lparr>tf := b\<rparr>)\<rparr>"
  obtain xs where xs: "queue st xs" "(\<exists>x \<in> set xs. due st x) \<longrightarrow> 0 < pending_frames st \<or> d3_timer_timeout st \<noteq> None"
    using 3 by (auto simp: awake_def)
  have "due ?st x = due st x" for x by (simp add: due_def)
  then have "(\<exists>x \<in> set xs. due ?st x) \<longrightarrow> 0 < pending_frames ?st \<or> d3_timer_timeout ?st \<noteq> None" using xs(2) by simp
  moreover have "queue ?st xs" using xs(1) by (rule queue_data(2))
  moreover have "d3_timer_interval ?st \<longrightarrow> 0 < pending_frames ?st" using 3 by (simp add: awake_def)
  ultimately show ?case unfolding awake_def by blast
qed

section \<open>The walk, when callbacks only report\<close>

definition reports :: "('c \<Rightarrow> jsnum \<Rightarrow> bool) \<Rightarrow> 'c runner" where
  "reports fin = (\<lambda>c e st. Returns (fin c e) st)"

definition marked :: "('c \<Rightarrow> jsnum \<Rightarrow> bool) \<Rightarrow> real \<Rightarrow> 'c timer \<Rightarrow> 'c timer" where
  "marked fin now t = (if num_le (tt t) (Fin now) then t\<lparr>tf := fin (tc t) (js_sub (Fin now) (tt t))\<rparr> else t)"

lemma marked_fields [simp]: "tn (marked fin now t) = tn t" "tt (marked fin now t) = tt t"
  "tc (marked fin now t) = tc t"
  by (simp_all add: marked_def)

lemma mark_loop_reports:
  "seg (store st) (d3_timer_active st) xs None \<Longrightarrow> distinct xs \<Longrightarrow>
     mark_loop (reports fin) now st =
       Some (None, st\<lparr>d3_timer_active := None,
         store := (\<lambda>i. if i \<in> set xs then marked fin now (store st i) else store st i)\<rparr>)"
proof (induction xs arbitrary: st)
  case Nil
  then show ?case by (simp add: mark_loop.simps)
next
  case (Cons x xs)
  let ?st = "st\<lparr>store := (store st)(x := marked fin now (store st x)),
    d3_timer_active := tn (store st x)\<rparr>"
  have act: "d3_timer_active st = Some x" "seg (store st) (tn (store st x)) xs None"
    using Cons.prems(1) by auto
  have "mark_loop (reports fin) now st = mark_loop (reports fin) now ?st"
    using act(1) by (subst mark_loop.simps) (auto simp: reports_def marked_def)
  also have "\<dots> = Some (None, ?st\<lparr>d3_timer_active := None,
      store := (\<lambda>i. if i \<in> set xs then marked fin now (store ?st i) else store ?st i)\<rparr>)"
  proof (rule Cons.IH)
    have "seg (store ?st) (tn (store st x)) xs None = seg (store st) (tn (store st x)) xs None"
      by (rule seg_cong) simp
    then show "seg (store ?st) (d3_timer_active ?st) xs None" using act(2) by simp
  qed (use Cons.prems(2) in simp)
  also have "(\<lambda>i. if i \<in> set xs then marked fin now (store ?st i) else store ?st i) =
      (\<lambda>i. if i \<in> set (x # xs) then marked fin now (store st i) else store st i)"
    using Cons.prems(2) by (auto simp: fun_eq_iff)
  finally show ?case by simp
qed

section \<open>Properties\<close>

text \<open>
  One frame, completely.  When the callbacks only report whether they are finished,
  \<open>d3_timer_step\<close> ends without an error from every well-formed queue: each timer that is due is
  called, exactly the timers that are due and finished (or were marked finished before) leave the
  queue, the others keep their order, and the next step is requested as a frame, as a timeout
  at the earliest remaining time, or not at all when no time in the queue will come.
\<close>

theorem d3_timer_step_reports:
  fixes fin :: "'c \<Rightarrow> jsnum \<Rightarrow> bool" and now :: real
  assumes "queue st xs"
  defines "keep \<equiv> filter (\<lambda>i. \<not> tf (marked fin now (store st i))) xs"
  shows "\<exists>st'. d3_timer_step (reports fin) now st = Some (None, st') \<and> queue st' keep \<and>
    (case earliest (store st) keep PInf of
       Fin t \<Rightarrow> if t - now > 24 then d3_timer_timeout st' = Some (t - now) \<and> \<not> d3_timer_interval st'
         else d3_timer_interval st' \<and> pending_frames st' = Suc (pending_frames st)
     | NInf \<Rightarrow> d3_timer_interval st' \<and> pending_frames st' = Suc (pending_frames st)
     | _ \<Rightarrow> \<not> d3_timer_interval st' \<and> (\<forall>x \<in> set keep. \<not> due st x))"
proof -
  define s1 where "s1 = st\<lparr>d3_timer_active := None,
    store := (\<lambda>i. if i \<in> set xs then marked fin now (store st i) else store st i)\<rparr>"
  have "mark_loop (reports fin) now (st\<lparr>d3_timer_active := d3_timer_queueHead st\<rparr>) = Some (None, s1)"
    using assms(1) mark_loop_reports [of "st\<lparr>d3_timer_active := d3_timer_queueHead st\<rparr>" xs fin now]
    by (simp add: queue_def s1_def cong: if_cong)
  then have mark: "d3_timer_mark (reports fin) now st = Some (None, s1)"
    by (simp add: d3_timer_mark_def)
  have "queue s1 xs"
    using assms(1) seg_cong [of xs "store s1" "store st"] by (simp add: queue_def s1_def)
  moreover have "filter (\<lambda>i. \<not> tf (store s1 i)) xs = keep"
    unfolding keep_def by (rule filter_cong) (auto simp: s1_def)
  ultimately obtain s2 where s2: "d3_timer_sweep s1 = Some (earliest (store s1) keep PInf, s2)"
      "queue s2 keep" "pending_frames s2 = pending_frames s1"
    using d3_timer_sweep_correct [of s1 xs] by auto
  have ear: "earliest (store s1) keep PInf = earliest (store st) keep PInf"
    by (rule earliest_cong) (simp add: s1_def)
  have step: "d3_timer_step (reports fin) now st =
      Some (None, reschedule (js_sub (earliest (store st) keep PInf) (Fin now)) s2)"
    using mark s2(1) ear by (simp add: d3_timer_step_def)
  have "queue (reschedule (js_sub (earliest (store st) keep PInf) (Fin now)) s2) keep"
    using s2(2) by (rule reschedule_queue)
  then show ?thesis
    using step s2(3) earliest_due [of _ keep "store st"] earliest_not_NaN [of "store st" keep]
    by (cases "earliest (store st) keep PInf") (auto simp: reschedule_def js_sub_def s1_def due_def)
qed

theorem d3_timer_step_reports_witness:
  "\<exists>st'. d3_timer_step (reports (\<lambda>c e. c)) 5 (d3_timer True (Fin 0) (Fin 0) (d3_timer False (Fin 100) (Fin 0) (initial_timers True))) =
     Some (None, st') \<and> queue st' [0]"
proof -
  have "queue (initial_timers True) []" by (simp add: initial_timers_def queue_def)
  then have q: "queue (d3_timer True (Fin 0) (Fin 0) (d3_timer False (Fin 100) (Fin 0) (initial_timers True))) [0, 1]"
    using d3_timer_queue [OF d3_timer_queue] by (fastforce simp: d3_timer_store initial_timers_def)
  have "filter (\<lambda>i. \<not> tf (marked (\<lambda>c e. c) 5 (store (d3_timer True (Fin 0) (Fin 0)
      (d3_timer False (Fin 100) (Fin 0) (initial_timers True))) i))) [0, 1] = [0]"
    by (simp add: marked_def d3_timer_def initial_timers_def Let_def)
  with d3_timer_step_reports [OF q, of "\<lambda>c e. c" 5] show ?thesis by auto
qed

section \<open>The system\<close>

text \<open>
  A program schedules timers and flushes; the browser delivers requested frames and
  timeouts, at any time \<open>now\<close>.
\<close>

inductive timer_sys :: "'c runner \<Rightarrow> 'c timers \<Rightarrow> 'c timers \<Rightarrow> bool" for run where
  call: "timer_sys run st (d3_timer c dl th st)"
| frame: "pending_frames st = Suc n \<Longrightarrow>
    d3_timer_step run now (st\<lparr>pending_frames := n\<rparr>) = Some (e, st') \<Longrightarrow> timer_sys run st st'"
| timeout: "d3_timer_timeout st = Some dl \<Longrightarrow>
    d3_timer_step run now (st\<lparr>d3_timer_timeout := None\<rparr>) = Some (e, st') \<Longrightarrow> timer_sys run st st'"
| flush: "d3_timer_flush run now st = Some (e, st') \<Longrightarrow> timer_sys run st st'"

inductive reachable :: "'c runner \<Rightarrow> 'c \<Rightarrow> 'c timers \<Rightarrow> bool" for run c0 where
  init: "reachable run c0 (initial_timers c0)"
| step: "reachable run c0 st \<Longrightarrow> timer_sys run st st' \<Longrightarrow> reachable run c0 st'"

lemma step_awake:
  assumes "behaves run" "queue st xs" "d3_timer_step run now st = Some (e, st')"
  shows "awake st'"
proof -
  obtain e1 s1 where mark: "d3_timer_mark run now st = Some (e1, s1)"
    using assms(3) by (auto simp: d3_timer_step_def split: option.splits)
  then obtain ys where s1: "e1 = None" "queue s1 ys"
    using wf_walk.d3_timer_mark_preserves [OF assms(1) mark] assms(2) by blast
  obtain s2 where s2: "d3_timer_sweep s1 = Some (earliest (store s1) (filter (\<lambda>i. \<not> tf (store s1 i)) ys) PInf, s2)"
      "queue s2 (filter (\<lambda>i. \<not> tf (store s1 i)) ys)" "\<forall>i. tt (store s2 i) = tt (store s1 i)"
    using d3_timer_sweep_correct [OF s1(2)] by auto
  let ?t = "earliest (store s1) (filter (\<lambda>i. \<not> tf (store s1 i)) ys) PInf"
  have st': "st' = reschedule (js_sub ?t (Fin now)) s2"
    using assms(3) mark s1(1) s2(1) by (simp add: d3_timer_step_def)
  have "queue st' (filter (\<lambda>i. \<not> tf (store s1 i)) ys)"
    unfolding st' using s2(2) by (rule reschedule_queue)
  moreover have "num_lt ?t PInf" if "x \<in> set (filter (\<lambda>i. \<not> tf (store s1 i)) ys)" "due st' x" for x
    using that s2(3) by (intro earliest_due) (auto simp: due_def st' reschedule_def split: jsnum.splits if_splits)
  ultimately show ?thesis
    using num_lt_PInf_cases [of ?t] by (fastforce simp: awake_def st' reschedule_def js_sub_def split: jsnum.splits if_splits)
qed

lemma flush_awake:
  assumes "behaves run" "awake st" "d3_timer_flush run now st = Some (e, st')"
  shows "awake st'"
proof -
  obtain e1 s1 where mark: "d3_timer_mark run now st = Some (e1, s1)"
    using assms(3) by (auto simp: d3_timer_flush_def split: option.splits)
  then have s1: "e1 = None" "awake s1"
    using awake_walk.d3_timer_mark_preserves [OF assms(1) mark] assms(2) by blast+
  then obtain ys where ys: "queue s1 ys" "(\<exists>x \<in> set ys. due s1 x) \<longrightarrow> 0 < pending_frames s1 \<or> d3_timer_timeout s1 \<noteq> None"
      "d3_timer_interval s1 \<longrightarrow> 0 < pending_frames s1"
    by (auto simp: awake_def)
  then obtain time where "d3_timer_sweep s1 = Some (time, st')"
      "queue st' (filter (\<lambda>i. \<not> tf (store s1 i)) ys)" "\<forall>i. tt (store st' i) = tt (store s1 i)"
      "d3_timer_interval st' = d3_timer_interval s1" "d3_timer_timeout st' = d3_timer_timeout s1"
      "pending_frames st' = pending_frames s1"
    using d3_timer_sweep_correct [OF ys(1)] assms(3) mark s1(1)
    by (auto simp: d3_timer_flush_def)
  then show ?thesis using ys by (fastforce simp: awake_def due_def)
qed

lemma timer_sys_awake: "timer_sys run st st' \<Longrightarrow> behaves run \<Longrightarrow> awake st \<Longrightarrow> awake st'"
proof (induction rule: timer_sys.induct)
  case (call st c dl th)
  then show ?case by (simp add: awake_walk.I_timer)
next
  case (frame st n now e st')
  then obtain xs where "queue (st\<lparr>pending_frames := n\<rparr>) xs" by (auto simp: awake_def queue_def)
  then show ?case using step_awake frame by blast
next
  case (timeout st dl now e st')
  then obtain xs where "queue (st\<lparr>d3_timer_timeout := None\<rparr>) xs" by (auto simp: awake_def queue_def)
  then show ?case using step_awake timeout by blast
next
  case (flush now st e st')
  then show ?case using flush_awake by blast
qed

definition stalled :: "'c timers \<Rightarrow> bool" where
  "stalled st \<longleftrightarrow> d3_timer_interval st \<and> pending_frames st = 0 \<and> d3_timer_timeout st = None"

text \<open>
  (C6) No queued timer is forgotten.  In every state that a program can reach whose callbacks
  do not throw and touch the queue only by scheduling more timers (a callback that calls \<open>d3.timer.flush\<close> makes the walk fail, as shown below),
  the queue is a well-formed list from head to tail, and while it holds a timer whose time is neither \<open>NaN\<close> nor \<open>Infinity\<close> a frame or a timeout that
  will process it is pending.
\<close>

theorem timers_awake:
  assumes "reachable run c0 st" "behaves run"
  shows "\<exists>xs. queue st xs \<and> ((\<exists>x \<in> set xs. num_lt (tt (store st x)) PInf) \<longrightarrow> 0 < pending_frames st \<or> d3_timer_timeout st \<noteq> None)"
proof -
  from assms have "awake st"
  proof (induction rule: reachable.induct)
    case init
    then show ?case by (auto simp: awake_def initial_timers_def queue_def)
  next
    case (step st st')
    then show ?case using timer_sys_awake by blast
  qed
  then show ?thesis by (auto simp: awake_def due_def)
qed

theorem timers_awake_witness:
  "\<exists>xs. queue (d3_timer () (Fin 10) (Fin 0) (initial_timers ())) xs \<and> xs = [0] \<and>
     (0 < pending_frames (d3_timer () (Fin 10) (Fin 0) (initial_timers ())) \<or>
        d3_timer_timeout (d3_timer () (Fin 10) (Fin 0) (initial_timers ())) \<noteq> None)"
proof -
  let ?st = "d3_timer () (Fin 10) (Fin 0) (initial_timers ())"
  have "reachable (reports (\<lambda>c e. True)) () ?st"
    by (rule reachable.step [OF reachable.init timer_sys.call])
  moreover have "behaves (reports (\<lambda>c e. True))"
    by (auto simp: behaves_def reports_def intro: schedules.none)
  ultimately obtain xs where xs: "queue ?st xs"
      "(\<exists>x \<in> set xs. num_lt (tt (store ?st x)) PInf) \<longrightarrow> 0 < pending_frames ?st \<or> d3_timer_timeout ?st \<noteq> None"
    using timers_awake [of "reports (\<lambda>c e. True)" "()" ?st] by blast
  have "xs = [0]" using xs(1)
    by (cases xs; cases "tl xs") (auto simp: queue_def d3_timer_def initial_timers_def Let_def)
  with xs show ?thesis by (auto simp: d3_timer_def initial_timers_def Let_def)
qed

text \<open>A timer with the time \<open>NaN\<close> waits for ever: the first frame finds no time to wait for and requests nothing.\<close>

lemma d3_timer_NaN_sleeps:
  "\<exists>st'. d3_timer_step (reports (\<lambda>c e. True)) 5 ((d3_timer () NaN (Fin 0) (initial_timers ()))\<lparr>pending_frames := 0\<rparr>) = Some (None, st') \<and>
     queue st' [0] \<and> pending_frames st' = 0 \<and> d3_timer_timeout st' = None"
  by (simp add: d3_timer_step_def d3_timer_mark_def d3_timer_sweep_def mark_loop.simps sweep_loop.simps reschedule_def js_sub_def queue_def
      d3_timer_def initial_timers_def Let_def)

text \<open>
  A throwing callback stops the clock.  If the first queued timer is due and its callback
  throws during the only pending frame, the step ends with the exception, and from then on no
  frame and no timeout is pending while \<open>d3_timer_interval\<close> stays set, so scheduling further
  timers never requests one.
\<close>

theorem d3_timer_throw_stalls:
  assumes "queue st (x # xs)" "num_le (tt (store st x)) (Fin now)" "\<forall>c e s. run c e s = Throws s"
    and "pending_frames st = 1" "d3_timer_interval st" "d3_timer_timeout st = None"
  shows "\<exists>st'. d3_timer_step run now (st\<lparr>pending_frames := 0\<rparr>) = Some (Some Thrown, st') \<and>
     stalled st' \<and> queue st' (x # xs) \<and>
     (\<forall>calls. stalled (foldl (\<lambda>s (c, dl, th). d3_timer c dl th s) st' calls))"
proof -
  let ?s = "st\<lparr>pending_frames := 0, d3_timer_active := d3_timer_queueHead st\<rparr>"
  have "d3_timer_queueHead st = Some x" using assms(1) by (simp add: queue_def)
  then have "mark_loop run now ?s = Some (Some Thrown, ?s)"
    using assms(2,3) by (subst mark_loop.simps) simp
  then have "d3_timer_step run now (st\<lparr>pending_frames := 0\<rparr>) = Some (Some Thrown, ?s)"
    by (simp add: d3_timer_step_def d3_timer_mark_def)
  moreover have "stalled ?s" using assms(5,6) by (simp add: stalled_def)
  moreover have "stalled s \<Longrightarrow> stalled (foldl (\<lambda>s (c, dl, th). d3_timer c dl th s) s calls)" for s calls
  proof (induction calls arbitrary: s)
    case (Cons call calls)
    obtain c dl th where "call = (c, dl, th)" by (cases call)
    moreover have "stalled (d3_timer c dl th s)"
      using Cons.prems by (auto simp: stalled_def d3_timer_def Let_def split: option.splits)
    ultimately show ?case using Cons.IH by simp
  qed simp
  moreover have "queue ?s (x # xs)" using assms(1) by (simp add: queue_def)
  ultimately show ?thesis by blast
qed

theorem d3_timer_throw_stalls_witness:
  "\<exists>st'. d3_timer_step (\<lambda>c e s. Throws s) 5
     ((d3_timer () (Fin 0) (Fin 0) (initial_timers ()))\<lparr>pending_frames := 0\<rparr>) = Some (Some Thrown, st') \<and> stalled st'"
proof -
  have "queue (initial_timers ()) []" by (simp add: initial_timers_def queue_def)
  then have "queue (d3_timer () (Fin 0) (Fin 0) (initial_timers ())) [0]"
    using d3_timer_queue by (fastforce simp: initial_timers_def)
  with d3_timer_throw_stalls [of "d3_timer () (Fin 0) (Fin 0) (initial_timers ())" 0 "[]" 5 "\<lambda>c e s. Throws s"]
  show ?thesis by (auto simp: d3_timer_def initial_timers_def Let_def)
qed

text \<open>
  Flushing inside a callback.  A callback that calls \<open>d3.timer.flush\<close> makes the enclosing walk
  fail with a type error: the inner walk leaves \<open>d3_timer_active\<close> null, and the outer one reads
  its next field.
\<close>

theorem d3_timer_nested_flush_fails:
  "\<exists>st'. d3_timer_mark
     (\<lambda>c e s. case d3_timer_flush (reports (\<lambda>c e. False)) 1 s of
        Some (None, s') \<Rightarrow> Returns True s' | _ \<Rightarrow> Throws s) 1
     (d3_timer () (Fin 0) (Fin 0) (initial_timers ())) = Some (Some TypeError, st')"
  by (simp add: d3_timer_mark_def d3_timer_flush_def d3_timer_sweep_def mark_loop.simps
      sweep_loop.simps reports_def d3_timer_def initial_timers_def Let_def)

end
