(* ===== verification/D3_Interpolate.thy ===== *)
theory D3_Interpolate
  imports D3_Map
begin

text \<open>
  Interpolation and easing (\<open>d3.js\<close> lines 5589 to 5615, 5683 to 5802, 5834 to 5882 and 5944 to
  5955): numbers, rounding, arrays, objects, the interpolator table, the easing functions
  with their modes, the decomposition of a transform matrix and the inverse interpolation
  used by the scales.  Numbers are finite reals.
\<close>

section \<open>Numbers\<close>

text \<open>
  \<open>Math.round\<close> rounds halves up; \<open>Math.pow\<close> is used on non-negative bases only, where it is
  \<open>Infinity\<close> for a zero base and a negative exponent.
\<close>

definition js_round :: "real \<Rightarrow> real" where
  "js_round x = of_int \<lfloor>x + 1 / 2\<rfloor>"

definition js_pow :: "real \<Rightarrow> real \<Rightarrow> jsnum" where
  "js_pow x e = (if e = 0 then Fin 1 else if x = 0 then (if e > 0 then Fin 0 else PInf) else Fin (x powr e))"

definition d3_interpolateNumber :: "real \<Rightarrow> real \<Rightarrow> real \<Rightarrow> real" where
  "d3_interpolateNumber a b t = (let b' = b - a in a + b' * t)"

definition d3_interpolateRound :: "real \<Rightarrow> real \<Rightarrow> real \<Rightarrow> real" where
  "d3_interpolateRound a b t = (let b' = b - a in js_round (a + b' * t))"

definition uninterpolate_scale :: "real \<Rightarrow> real \<Rightarrow> real" where
  "uninterpolate_scale a b = (if b - a \<noteq> 0 then 1 / (b - a) else 0)"

definition d3_uninterpolateNumber :: "real \<Rightarrow> real \<Rightarrow> real \<Rightarrow> real" where
  "d3_uninterpolateNumber a b x = (x - a) * uninterpolate_scale a b"

definition d3_uninterpolateClamp :: "real \<Rightarrow> real \<Rightarrow> real \<Rightarrow> real" where
  "d3_uninterpolateClamp a b x = max 0 (min 1 ((x - a) * uninterpolate_scale a b))"

section \<open>The interpolator table, arrays and objects\<close>

text \<open>
  \<open>d3.interpolators\<close> is an array that programs may extend; the last entry that returns an
  interpolator for the two values wins.
\<close>

type_synonym 'v interpolator = "'v \<Rightarrow> 'v \<Rightarrow> (real \<Rightarrow> 'v) option"

fun interpolators_loop :: "'v interpolator list \<Rightarrow> nat \<Rightarrow> 'v \<Rightarrow> 'v \<Rightarrow> (real \<Rightarrow> 'v) option" where
  "interpolators_loop fs 0 a b = None"
| "interpolators_loop fs (Suc i) a b =
     (case (fs ! i) a b of Some f \<Rightarrow> Some f | None \<Rightarrow> interpolators_loop fs i a b)"

definition d3_interpolate :: "'v interpolator list \<Rightarrow> 'v \<Rightarrow> 'v \<Rightarrow> (real \<Rightarrow> 'v) option" where
  "d3_interpolate fs a b = interpolators_loop fs (length fs) a b"

text \<open>
  Arrays: the common prefix is interpolated, the rest of the longer array is kept.  \<open>interp\<close>
  is \<open>d3_interpolate\<close> with the current table.
\<close>

definition d3_interpolateArray :: "('v \<Rightarrow> 'v \<Rightarrow> real \<Rightarrow> 'v) \<Rightarrow> 'v list \<Rightarrow> 'v list \<Rightarrow> real \<Rightarrow> 'v list" where
  "d3_interpolateArray interp a b t =
     (let n0 = min (length a) (length b);
          x = map (\<lambda>i. interp (a ! i) (b ! i)) [0..<n0];
          c = drop n0 a @ drop (max n0 (length a)) b
      in map (\<lambda>f. f t) x @ c)"

definition interpolateObject_parts ::
  "('v \<Rightarrow> 'v \<Rightarrow> real \<Rightarrow> 'v) \<Rightarrow> 'v obj \<Rightarrow> 'v obj \<Rightarrow> (real \<Rightarrow> 'v) obj \<times> 'v obj" where
  "interpolateObject_parts interp a b =
     (let (i, c) = fold (\<lambda>(k, v) (i, c).
            case map_of b k of
              Some w \<Rightarrow> (AList.update k (interp v w) i, c)
            | None \<Rightarrow> (i, AList.update k v c)) a ([], []);
          c' = fold (\<lambda>(k, w) c. if map_of a k = None then AList.update k w c else c) b c
      in (i, c'))"

definition d3_interpolateObject :: "('v \<Rightarrow> 'v \<Rightarrow> real \<Rightarrow> 'v) \<Rightarrow> 'v obj \<Rightarrow> 'v obj \<Rightarrow> real \<Rightarrow> 'v obj" where
  "d3_interpolateObject interp a b t =
     (let (i, c) = interpolateObject_parts interp a b
      in fold (\<lambda>(k, f) c. AList.update k (f t) c) i c)"

section \<open>Easing\<close>

text \<open>
  An easing function maps a real time to a JavaScript number: a missing exponent and an
  amplitude below one make \<open>poly\<close> and \<open>elastic\<close> return \<open>NaN\<close>.
\<close>

type_synonym ease = "real \<Rightarrow> jsnum"

definition d3_ease_clamp :: "ease \<Rightarrow> ease" where
  "d3_ease_clamp f t = (if t \<le> 0 then Fin 0 else if t \<ge> 1 then Fin 1 else f t)"

definition d3_ease_reverse :: "ease \<Rightarrow> ease" where
  "d3_ease_reverse f t = js_sub (Fin 1) (f (1 - t))"

definition d3_ease_reflect :: "ease \<Rightarrow> ease" where
  "d3_ease_reflect f t = js_mul (Fin (1 / 2)) (if t < 1 / 2 then f (2 * t) else js_sub (Fin 2) (f (2 - 2 * t)))"

definition d3_ease_quad :: "real \<Rightarrow> real" where
  "d3_ease_quad t = t * t"

definition d3_ease_cubic :: "real \<Rightarrow> real" where
  "d3_ease_cubic t = t * t * t"

definition d3_ease_cubicInOut :: "real \<Rightarrow> real" where
  "d3_ease_cubicInOut t =
     (if t \<le> 0 then 0 else if t \<ge> 1 then 1
      else let t2 = t * t; t3 = t2 * t in 4 * (if t < 1 / 2 then t3 else 3 * (t - t2) + t3 - 3 / 4))"

text \<open>The exponent of \<open>poly\<close> is \<open>undefined\<close> (read as \<open>NaN\<close>) when the argument is missing.\<close>

definition d3_ease_poly :: "real list \<Rightarrow> ease" where
  "d3_ease_poly args t = (case args of [] \<Rightarrow> NaN | e # _ \<Rightarrow> js_pow t e)"

definition d3_ease_sin :: "real \<Rightarrow> real" where
  "d3_ease_sin t = 1 - cos (t * (pi / 2))"

definition d3_ease_exp :: "real \<Rightarrow> real" where
  "d3_ease_exp t = 2 powr (10 * (t - 1))"

definition d3_ease_circle :: "real \<Rightarrow> real" where
  "d3_ease_circle t = 1 - sqrt (1 - t * t)"

text \<open>\<open>args\<close> are the optional amplitude and period.\<close>

definition elastic_wave :: "real \<Rightarrow> real \<Rightarrow> real \<Rightarrow> real \<Rightarrow> jsnum" where
  "elastic_wave a p s t =
     (if p = 0 then NaN else Fin (1 + a * 2 powr (- 10 * t) * sin ((t - s) * (2 * pi) / p)))"

definition d3_ease_elastic :: "real list \<Rightarrow> ease" where
  "d3_ease_elastic args t =
     (let p = (case args of a # p # _ \<Rightarrow> p | _ \<Rightarrow> 45 / 100)
      in case args of
           [] \<Rightarrow> elastic_wave 1 p (p / 4) t
         | a # _ \<Rightarrow> if \<bar>a\<bar> < 1 then NaN else elastic_wave a p (p / (2 * pi) * arcsin (1 / a)) t)"

definition d3_ease_back :: "real list \<Rightarrow> real \<Rightarrow> real" where
  "d3_ease_back args t =
     (let s = (case args of s # _ \<Rightarrow> if s = 0 then 170158 / 100000 else s | [] \<Rightarrow> 170158 / 100000)
      in t * t * ((s + 1) * t - s))"

definition d3_ease_bounce :: "real \<Rightarrow> real" where
  "d3_ease_bounce t =
     (if t < 1 / (275 / 100) then 75625 / 10000 * t * t
      else if t < 2 / (275 / 100) then (let t' = t - 15 / 10 / (275 / 100) in 75625 / 10000 * t' * t' + 3 / 4)
      else if t < 25 / 10 / (275 / 100) then (let t' = t - 225 / 100 / (275 / 100) in 75625 / 10000 * t' * t' + 9375 / 10000)
      else (let t' = t - 2625 / 1000 / (275 / 100) in 75625 / 10000 * t' * t' + 984375 / 1000000))"

text \<open>The table \<open>d3_ease\<close>; \<open>d3_ease_default\<close> is the identity.\<close>

definition d3_ease_default :: "real list \<Rightarrow> ease" where
  "d3_ease_default args t = Fin t"

definition d3_ease_table :: "(real list \<Rightarrow> ease) obj" where
  "d3_ease_table = d3_map
     [(''linear'', d3_ease_default),
      (''poly'', d3_ease_poly),
      (''quad'', \<lambda>args t. Fin (d3_ease_quad t)),
      (''cubic'', \<lambda>args t. Fin (d3_ease_cubic t)),
      (''sin'', \<lambda>args t. Fin (d3_ease_sin t)),
      (''exp'', \<lambda>args t. Fin (d3_ease_exp t)),
      (''circle'', \<lambda>args t. Fin (d3_ease_circle t)),
      (''elastic'', d3_ease_elastic),
      (''back'', \<lambda>args t. Fin (d3_ease_back args t)),
      (''bounce'', \<lambda>args t. Fin (d3_ease_bounce t))]"

definition d3_ease_mode :: "(ease \<Rightarrow> ease) obj" where
  "d3_ease_mode = d3_map
     [(''in'', \<lambda>f. f), (''out'', d3_ease_reverse), (''in-out'', d3_ease_reflect),
      (''out-in'', \<lambda>f. d3_ease_reflect (d3_ease_reverse f))]"

definition ease_name :: "string \<Rightarrow> string \<times> string" where
  "ease_name name =
     (let i = length (takeWhile (\<lambda>c. c \<noteq> CHR ''-'') name)
      in if i < length name then (take i name, drop (i + 1) name) else (name, ''in''))"

definition d3_ease :: "string \<Rightarrow> real list \<Rightarrow> ease" where
  "d3_ease name args =
     (let (t, m) = ease_name name;
          f = (case d3_map_get d3_ease_table t of Some f \<Rightarrow> f args | None \<Rightarrow> d3_ease_default args);
          md = (case d3_map_get d3_ease_mode m of Some md \<Rightarrow> md | None \<Rightarrow> (\<lambda>f. f))
      in d3_ease_clamp (md f))"

section \<open>Transforms\<close>

record matrix =
  ma :: real
  mb :: real
  mc :: real
  md :: real
  me :: real
  mf :: real

definition d3_transformDot :: "real \<times> real \<Rightarrow> real \<times> real \<Rightarrow> real" where
  "d3_transformDot a b = fst a * fst b + snd a * snd b"

text \<open>Returns the length and the normalised vector, which the source writes in place.\<close>

definition d3_transformNormalize :: "real \<times> real \<Rightarrow> real \<times> (real \<times> real)" where
  "d3_transformNormalize a =
     (let k = sqrt (d3_transformDot a a) in (k, if k \<noteq> 0 then (fst a / k, snd a / k) else a))"

definition d3_transformCombine :: "real \<times> real \<Rightarrow> real \<times> real \<Rightarrow> real \<Rightarrow> real \<times> real" where
  "d3_transformCombine a b k = (fst a + k * fst b, snd a + k * snd b)"

definition d3_transformIdentity :: matrix where
  "d3_transformIdentity = \<lparr>ma = 1, mb = 0, mc = 0, md = 1, me = 0, mf = 0\<rparr>"

text \<open>The decomposition up to the angles: the vectors \<open>r0\<close>, \<open>r1\<close> and the factors \<open>kx\<close>, \<open>kz\<close>, \<open>ky\<close>.\<close>

definition transform_decompose :: "matrix \<Rightarrow> (real \<times> real) \<times> (real \<times> real) \<times> real \<times> real \<times> real" where
  "transform_decompose m =
     (let (kx, r0) = d3_transformNormalize (ma m, mb m);
          r1 = (mc m, md m);
          kz = d3_transformDot r0 r1;
          (ky, r1') = d3_transformNormalize (d3_transformCombine r1 r0 (- kz))
      in if fst r0 * snd r1' < fst r1' * snd r0
         then ((- fst r0, - snd r0), r1', - kx, - kz, ky)
         else (r0, r1', kx, kz, ky))"

definition js_atan2 :: "real \<Rightarrow> real \<Rightarrow> real" where
  "js_atan2 y x =
     (if x > 0 then arctan (y / x)
      else if x < 0 then (if y \<ge> 0 then arctan (y / x) + pi else arctan (y / x) - pi)
      else if y > 0 then pi / 2 else if y < 0 then - (pi / 2) else 0)"

record transform =
  rotate_deg :: real
  translate_by :: "real \<times> real"
  scale_by :: "real \<times> real"
  skew_deg :: real

definition d3_transform :: "matrix \<Rightarrow> transform" where
  "d3_transform m =
     (let (r0, r1, kx, kz, ky) = transform_decompose m
      in \<lparr>rotate_deg = (if kx \<noteq> 0 then js_atan2 (snd r0) (fst r0) else js_atan2 (- fst r1) (snd r1)) * (180 / pi),
          translate_by = (me m, mf m),
          scale_by = (kx, ky),
          skew_deg = (if ky \<noteq> 0 then js_atan2 kz ky * (180 / pi) else 0)\<rparr>)"

section \<open>Easing stays in the unit interval\<close>

text \<open>The contract of an easing function: on the unit interval its value is a number of the unit interval.\<close>

locale unit_easing =
  fixes f :: ease
  assumes unit: "0 \<le> t \<Longrightarrow> t \<le> 1 \<Longrightarrow> \<exists>y. f t = Fin y \<and> 0 \<le> y \<and> y \<le> 1"
begin

lemma reverse_unit: "unit_easing (d3_ease_reverse f)"
proof
  fix t :: real assume "0 \<le> t" "t \<le> 1"
  then obtain y where "f (1 - t) = Fin y" "0 \<le> y" "y \<le> 1" using unit [of "1 - t"] by auto
  then show "\<exists>y. d3_ease_reverse f t = Fin y \<and> 0 \<le> y \<and> y \<le> 1"
    by (auto simp: d3_ease_reverse_def)
qed

lemma reflect_unit: "unit_easing (d3_ease_reflect f)"
proof
  fix t :: real assume t: "0 \<le> t" "t \<le> 1"
  show "\<exists>y. d3_ease_reflect f t = Fin y \<and> 0 \<le> y \<and> y \<le> 1"
  proof (cases "t < 1 / 2")
    case True
    then obtain y where "f (2 * t) = Fin y" "0 \<le> y" "y \<le> 1" using unit [of "2 * t"] t by auto
    with True show ?thesis by (intro exI [of _ "y / 2"]) (simp add: d3_ease_reflect_def)
  next
    case False
    then obtain y where "f (2 - 2 * t) = Fin y" "0 \<le> y" "y \<le> 1" using unit [of "2 - 2 * t"] t by auto
    with False show ?thesis by (intro exI [of _ "1 - y / 2"]) (simp add: d3_ease_reflect_def)
  qed
qed

lemma clamp_unit: "\<exists>y. d3_ease_clamp f t = Fin y \<and> 0 \<le> y \<and> y \<le> 1"
  using unit [of t] by (auto simp: d3_ease_clamp_def)

lemma reflect_symmetric:
  assumes "t < 1 / 2" "0 \<le> t"
  shows "js_add (d3_ease_reflect f t) (d3_ease_reflect f (1 - t)) = Fin 1"
proof -
  obtain y where "f (2 * t) = Fin y" using unit [of "2 * t"] assms by auto
  then show ?thesis using assms by (auto simp: d3_ease_reflect_def field_simps)
qed

end

interpretation linear_ease: unit_easing "d3_ease_default args" for args
  by unfold_locales (auto simp: d3_ease_default_def)

interpretation quad_ease: unit_easing "\<lambda>t. Fin (d3_ease_quad t)"
  by unfold_locales (auto simp: d3_ease_quad_def mult_le_one)

interpretation cubic_ease: unit_easing "\<lambda>t. Fin (d3_ease_cubic t)"
  by unfold_locales (auto simp: d3_ease_cubic_def mult_le_one)

interpretation sin_ease: unit_easing "\<lambda>t. Fin (d3_ease_sin t)"
proof
  fix t :: real assume "0 \<le> t" "t \<le> 1"
  then have "0 \<le> t * (pi / 2)" "t * (pi / 2) \<le> pi / 2" by (simp_all add: mult_left_le_one_le)
  then have "0 \<le> cos (t * (pi / 2))" by (intro cos_ge_zero) linarith+
  then show "\<exists>y. Fin (d3_ease_sin t) = Fin y \<and> 0 \<le> y \<and> y \<le> 1" by (auto simp: d3_ease_sin_def)
qed

interpretation exp_ease: unit_easing "\<lambda>t. Fin (d3_ease_exp t)"
proof
  fix t :: real assume "0 \<le> t" "t \<le> 1"
  then have "2 powr (10 * (t - 1)) \<le> 2 powr (0::real)" by (intro powr_mono) auto
  then show "\<exists>y. Fin (d3_ease_exp t) = Fin y \<and> 0 \<le> y \<and> y \<le> 1" by (auto simp: d3_ease_exp_def)
qed

interpretation circle_ease: unit_easing "\<lambda>t. Fin (d3_ease_circle t)"
proof
  fix t :: real assume "0 \<le> t" "t \<le> 1"
  then have "0 \<le> 1 - t * t" "1 - t * t \<le> 1" by (auto simp: mult_le_one)
  then show "\<exists>y. Fin (d3_ease_circle t) = Fin y \<and> 0 \<le> y \<and> y \<le> 1"
    by (auto simp: d3_ease_circle_def)
qed

lemma parabola_bound: "\<bar>x\<bar> \<le> c \<Longrightarrow> 121 / 16 * (c * c) + d \<le> 1 \<Longrightarrow> 75625 / 10000 * x * x + d \<le> (1 :: real)"
proof -
  assume "\<bar>x\<bar> \<le> c" "121 / 16 * (c * c) + d \<le> 1"
  moreover from this have "\<bar>x\<bar> * \<bar>x\<bar> \<le> c * c" by (intro mult_mono) auto
  ultimately show ?thesis by simp
qed

interpretation bounce_ease: unit_easing "\<lambda>t. Fin (d3_ease_bounce t)"
proof
  fix t :: real assume t: "0 \<le> t" "t \<le> 1"
  have nonneg: "0 \<le> 75625 / 10000 * x * x" for x :: real by (simp add: mult.assoc)
  consider "t < 1 / (275 / 100)" | "\<not> t < 1 / (275 / 100)" "t < 2 / (275 / 100)"
    | "\<not> t < 2 / (275 / 100)" "t < 25 / 10 / (275 / 100)" | "\<not> t < 25 / 10 / (275 / 100)"
    by linarith
  then have "0 \<le> d3_ease_bounce t \<and> d3_ease_bounce t \<le> 1"
  proof cases
    case 1
    then show ?thesis using parabola_bound [of t "4/11" 0] nonneg [of t] t by (simp add: d3_ease_bounce_def)
  next
    case 2
    then have "\<bar>t - 15 / 10 / (275 / 100)\<bar> \<le> 2/11" using t by (intro abs_leI) simp_all
    with 2 show ?thesis
      using parabola_bound [of "t - 15 / 10 / (275 / 100)" "2/11" "3/4"] nonneg [of "t - 15 / 10 / (275 / 100)"]
      unfolding d3_ease_bounce_def Let_def by simp
  next
    case 3
    then have "\<bar>t - 225 / 100 / (275 / 100)\<bar> \<le> 1/11" using t by (intro abs_leI) simp_all
    with 3 show ?thesis
      using parabola_bound [of "t - 225 / 100 / (275 / 100)" "1/11" "9375 / 10000"]
        nonneg [of "t - 225 / 100 / (275 / 100)"]
      unfolding d3_ease_bounce_def Let_def by simp
  next
    case 4
    then have "\<bar>t - 2625 / 1000 / (275 / 100)\<bar> \<le> 1/22" using t by (intro abs_leI) simp_all
    with 4 show ?thesis
      using parabola_bound [of "t - 2625 / 1000 / (275 / 100)" "1/22" "984375 / 1000000"]
        nonneg [of "t - 2625 / 1000 / (275 / 100)"] t
      unfolding d3_ease_bounce_def Let_def by simp
  qed
  then show "\<exists>y. Fin (d3_ease_bounce t) = Fin y \<and> 0 \<le> y \<and> y \<le> 1" by auto
qed

lemma poly_unit: "0 < e \<Longrightarrow> unit_easing (d3_ease_poly (e # es))"
proof
  fix t :: real assume "0 < e" "0 \<le> t" "t \<le> 1"
  then have "t powr e \<le> 1" by (simp add: powr_le1)
  with \<open>0 < e\<close> show "\<exists>y. d3_ease_poly (e # es) t = Fin y \<and> 0 \<le> y \<and> y \<le> 1"
    by (auto simp: d3_ease_poly_def js_pow_def)
qed

definition ease_bases :: "string set" where
  "ease_bases = {''linear'', ''poly'', ''quad'', ''cubic'', ''sin'', ''exp'', ''circle'', ''bounce''}"

definition ease_suffixes :: "string set" where
  "ease_suffixes = {[], ''-in'', ''-out'', ''-in-out'', ''-out-in''}"

lemma d3_map_get_set: "d3_map_get (d3_map_set m k v) k' = (if k' = k then Some v else d3_map_get m k')"
  by (simp add: d3_map_get_def d3_map_set_def update_conv')

lemma d3_map_get_fold:
  "distinct (map fst xs) \<Longrightarrow> d3_map_get (fold (\<lambda>(k, v) m. d3_map_set m k v) xs m) k =
     (case map_of xs k of Some v \<Rightarrow> Some v | None \<Rightarrow> d3_map_get m k)"
proof (induction xs arbitrary: m)
  case (Cons x xs)
  obtain k' v where x: "x = (k', v)" by (cases x)
  have "map_of xs k' = None" using Cons.prems by (simp add: x map_of_eq_None_iff)
  then show ?case using Cons by (simp add: x d3_map_get_set split: option.splits)
qed simp

lemma d3_map_get_literal [simp]:
  "distinct (map fst xs) \<Longrightarrow> d3_map_get (d3_map xs) k = map_of xs k"
  unfolding d3_map_def by (subst d3_map_get_fold) (auto simp: d3_map_get_def split: option.splits)

lemma ease_base_unit:
  assumes "b \<in> ease_bases" "b = ''poly'' \<Longrightarrow> args \<noteq> [] \<and> 0 < hd args"
  shows "\<exists>f. d3_map_get d3_ease_table b = Some f \<and> unit_easing (f args)"
proof (cases "b = ''poly''")
  case True
  then obtain e es where "args = e # es" "0 < e" using assms(2) by (cases args) auto
  with True show ?thesis using poly_unit [of e es] by (simp add: d3_ease_table_def)
next
  case False
  then show ?thesis using assms(1) unfolding ease_bases_def
    by (elim insertE emptyE) (simp_all add: d3_ease_table_def linear_ease.unit_easing_axioms quad_ease.unit_easing_axioms
        cubic_ease.unit_easing_axioms sin_ease.unit_easing_axioms exp_ease.unit_easing_axioms
        circle_ease.unit_easing_axioms bounce_ease.unit_easing_axioms)
qed

lemma ease_mode_unit:
  assumes "m \<in> {''in'', ''out'', ''in-out'', ''out-in''}" "unit_easing f"
  shows "\<exists>md. d3_map_get d3_ease_mode m = Some md \<and> unit_easing (md f)"
  using assms unit_easing.reverse_unit unit_easing.reflect_unit by (elim insertE emptyE) (simp_all add: d3_ease_mode_def)

lemma ease_name_parts:
  "b \<in> ease_bases \<Longrightarrow> m \<in> ease_suffixes \<Longrightarrow> ease_name (b @ m) = (b, if m = [] then ''in'' else tl m)"
  unfolding ease_bases_def ease_suffixes_def
  by (elim insertE emptyE) (simp_all add: ease_name_def)

text \<open>
  The named easings: for the families linear, poly (with a positive exponent), quad, cubic,
  sin, exp, circle and bounce, with or without one of the four modes, \<open>d3.ease\<close> yields a
  function whose value is, at every time, a number between 0 and 1.
\<close>

theorem d3_ease_unit_range:
  assumes "b \<in> ease_bases" "m \<in> ease_suffixes" "b = ''poly'' \<Longrightarrow> args \<noteq> [] \<and> 0 < hd args"
  shows "\<exists>y. d3_ease (b @ m) args t = Fin y \<and> 0 \<le> y \<and> y \<le> 1"
proof -
  obtain f where f: "d3_map_get d3_ease_table b = Some f" "unit_easing (f args)"
    using ease_base_unit assms by blast
  have "(if m = [] then ''in'' else tl m) \<in> {''in'', ''out'', ''in-out'', ''out-in''}"
    using assms(2) by (auto simp: ease_suffixes_def)
  from ease_mode_unit [OF this f(2)] obtain md where
    "d3_map_get d3_ease_mode (if m = [] then ''in'' else tl m) = Some md" "unit_easing (md (f args))"
    by auto
  with f show ?thesis
    using unit_easing.clamp_unit by (simp add: d3_ease_def ease_name_parts [OF assms(1,2)])
qed

theorem d3_ease_unit_range_witness:
  "\<exists>y. d3_ease ''poly-out-in'' [3] (1 / 3) = Fin y \<and> 0 \<le> y \<and> y \<le> 1"
  using d3_ease_unit_range [of "''poly''" "''-out-in''" "[3]" "1 / 3"]
  by (simp add: ease_bases_def ease_suffixes_def)

section \<open>Decomposing a transform\<close>

text \<open>
  The matrix that the transform list \<open>translate(..)rotate(..)skewX(..)scale(..)\<close>, which
  \<open>toString\<close> writes, denotes in SVG (angles in degrees).
\<close>

definition transform_matrix :: "transform \<Rightarrow> matrix" where
  "transform_matrix tr =
     (let \<theta> = rotate_deg tr * (pi / 180); \<phi> = skew_deg tr * (pi / 180); (sx, sy) = scale_by tr
      in \<lparr>ma = sx * cos \<theta>, mb = sx * sin \<theta>,
          mc = sy * (tan \<phi> * cos \<theta> - sin \<theta>), md = sy * (tan \<phi> * sin \<theta> + cos \<theta>),
          me = fst (translate_by tr), mf = snd (translate_by tr)\<rparr>)"

lemma atan2_unit:
  assumes "x * x + y * y = 1"
  shows "cos (js_atan2 y x) = x \<and> sin (js_atan2 y x) = y"
proof -
  have sq: "x\<^sup>2 + y\<^sup>2 = 1" using assms by (simp add: power2_eq_square)
  have root: "sqrt (1 + (y / x)\<^sup>2) = 1 / \<bar>x\<bar>" if "x \<noteq> 0"
  proof -
    have "1 + (y / x)\<^sup>2 = (1 / \<bar>x\<bar>)\<^sup>2" using that sq by (simp add: power_divide field_simps)
    then show ?thesis by (simp only: real_sqrt_abs) simp
  qed
  consider "x > 0" | "x < 0" | "x = 0" by linarith
  then show ?thesis
  proof cases
    case 3
    then have "y = 1 \<or> y = - 1" using sq power2_eq_1_iff by auto
    with 3 show ?thesis by (auto simp: js_atan2_def)
  qed (use root in \<open>auto simp: js_atan2_def cos_arctan sin_arctan\<close>)
qed

lemma tan_atan2: "0 < x \<Longrightarrow> tan (js_atan2 y x) = y / x"
  by (simp add: js_atan2_def tan_arctan)

lemma transformNormalize_spec:
  assumes "d3_transformNormalize a = (k, r)"
  shows "a = (k * fst r, k * snd r)" "0 \<le> k" "k \<noteq> 0 \<Longrightarrow> d3_transformDot r r = 1" "k = 0 \<longleftrightarrow> a = (0, 0)"
proof -
  have k: "k = sqrt (d3_transformDot a a)" using assms by (auto simp: d3_transformNormalize_def Let_def)
  have nn: "0 \<le> d3_transformDot a a" by (simp add: d3_transformDot_def)
  show "0 \<le> k" using k nn by simp
  show z: "k = 0 \<longleftrightarrow> a = (0, 0)" using k by (cases a) (auto simp: d3_transformDot_def sum_squares_eq_zero_iff)
  show "a = (k * fst r, k * snd r)" using assms k z by (cases a) (auto simp: d3_transformNormalize_def Let_def)
  show "d3_transformDot r r = 1" if "k \<noteq> 0"
  proof -
    have "k * k = d3_transformDot a a" using k nn by simp
    then show ?thesis using assms k that
      by (auto simp: d3_transformNormalize_def Let_def d3_transformDot_def add_divide_distrib [symmetric])
  qed
qed

lemma orthogonal_unit:
  assumes "x * x + y * y = 1" "p * p + q * q = 1" "x * p + y * q = (0 :: real)"
  shows "p = - y * (x * q - p * y)" "q = x * (x * q - p * y)" "x * q - p * y = 1 \<or> x * q - p * y = - 1"
proof -
  have p: "p * (x * x + y * y) = x * (x * p + y * q) - y * (x * q - p * y)" by algebra
  have q: "q * (x * x + y * y) = y * (x * p + y * q) + x * (x * q - p * y)" by algebra
  show "p = - y * (x * q - p * y)" "q = x * (x * q - p * y)" using p q assms by simp_all
  have "(x * q - p * y)\<^sup>2 = (x * x + y * y) * (p * p + q * q) - (x * p + y * q)\<^sup>2" by algebra
  then show "x * q - p * y = 1 \<or> x * q - p * y = - 1" using assms power2_eq_1_iff [of "x * q - p * y"] by simp
qed

lemma transform_decompose_spec:
  assumes "ma m * md m - mb m * mc m \<noteq> 0" "transform_decompose m = ((x, y), r1, kx, kz, ky)"
  shows "x * x + y * y = 1" "r1 = (- y, x)" "kx \<noteq> 0" "0 < ky"
    "ma m = kx * x" "mb m = kx * y" "mc m = kz * x - ky * y" "md m = kz * y + ky * x"
proof -
  obtain k0 x0 y0 where n0: "d3_transformNormalize (ma m, mb m) = (k0, x0, y0)"
    by (metis prod_cases3)
  define kz0 where "kz0 = d3_transformDot (x0, y0) (mc m, md m)"
  define w where "w = d3_transformCombine (mc m, md m) (x0, y0) (- kz0)"
  obtain k1 p q where n1: "d3_transformNormalize w = (k1, p, q)" by (metis prod_cases3)
  have m0: "ma m = k0 * x0" "mb m = k0 * y0" using transformNormalize_spec(1) [OF n0] by simp_all
  have w: "mc m = kz0 * x0 + k1 * p" "md m = kz0 * y0 + k1 * q"
    using transformNormalize_spec(1) [OF n1] by (auto simp: w_def d3_transformCombine_def)
  have "ma m * md m - mb m * mc m = k0 * k1 * (x0 * q - p * y0)"
    unfolding w m0 by algebra
  then have k0: "k0 \<noteq> 0" and k1: "k1 \<noteq> 0" using assms(1) by auto
  have k1_pos: "0 < k1" using transformNormalize_spec(2) [OF n1] k1 by simp
  have u0: "x0 * x0 + y0 * y0 = 1"
    using transformNormalize_spec(3) [OF n0 k0] by (simp add: d3_transformDot_def)
  have u1: "p * p + q * q = 1"
    using transformNormalize_spec(3) [OF n1 k1] by (simp add: d3_transformDot_def)
  have "kz0 = x0 * mc m + y0 * md m" by (simp add: kz0_def d3_transformDot_def)
  also have "\<dots> = kz0 * (x0 * x0 + y0 * y0) + k1 * (x0 * p + y0 * q)" unfolding w by algebra
  finally have o: "x0 * p + y0 * q = 0" using k1 by (simp only: u0) simp
  have t: "transform_decompose m =
      (if x0 * q < p * y0 then ((- x0, - y0), (p, q), - k0, - kz0, k1) else ((x0, y0), (p, q), k0, kz0, k1))"
    using n0 n1 by (simp add: transform_decompose_def kz0_def w_def)
  note ou = orthogonal_unit [OF u0 u1 o]
  consider (flip) "x0 * q - p * y0 = - 1" | (keep) "x0 * q - p * y0 = 1" using ou(3) by auto
  then have "x * x + y * y = 1 \<and> r1 = (- y, x) \<and> kx \<noteq> 0 \<and> 0 < ky \<and> ma m = kx * x \<and> mb m = kx * y \<and>
      mc m = kz * x - ky * y \<and> md m = kz * y + ky * x"
  proof cases
    case flip
    then have pq: "p = y0" "q = - x0" using ou(1,2) by simp_all
    have "x0 * q < p * y0" using flip by linarith
    then have "x = - x0" "y = - y0" "r1 = (p, q)" "kx = - k0" "kz = - kz0" "ky = k1"
      using assms(2) t by simp_all
    then show ?thesis using pq u0 k0 k1_pos m0 w by simp
  next
    case keep
    then have pq: "p = - y0" "q = x0" using ou(1,2) by simp_all
    have "\<not> x0 * q < p * y0" using keep by linarith
    then have "x = x0" "y = y0" "r1 = (p, q)" "kx = k0" "kz = kz0" "ky = k1"
      using assms(2) t by simp_all
    then show ?thesis using pq u0 k0 k1_pos m0 w by simp
  qed
  then show "x * x + y * y = 1" "r1 = (- y, x)" "kx \<noteq> 0" "0 < ky"
    "ma m = kx * x" "mb m = kx * y" "mc m = kz * x - ky * y" "md m = kz * y + ky * x"
    by blast+
qed

text \<open>
  Decomposing a non-singular matrix and reading the resulting list of translate, rotate, skewX
  and scale back as a matrix returns the matrix: \<open>d3.transform(s).toString()\<close> denotes the same
  transform as \<open>s\<close>.
\<close>

theorem d3_transform_roundtrip:
  assumes "ma m * md m - mb m * mc m \<noteq> 0"
  shows "transform_matrix (d3_transform m) = m"
proof -
  obtain x y r1 kx kz ky where d: "transform_decompose m = ((x, y), r1, kx, kz, ky)"
    by (metis prod.exhaust)
  note s = transform_decompose_spec [OF assms d]
  show ?thesis using s atan2_unit [OF s(1)] tan_atan2 [OF s(4), of kz]
    by (simp add: d3_transform_def transform_matrix_def d Let_def algebra_simps)
qed

theorem d3_transform_roundtrip_witness:
  "transform_matrix (d3_transform \<lparr>ma = 1, mb = 2, mc = 3, md = 4, me = 5, mf = 6\<rparr>) =
     \<lparr>ma = 1, mb = 2, mc = 3, md = 4, me = 5, mf = 6\<rparr>"
  using d3_transform_roundtrip [of "\<lparr>ma = 1, mb = 2, mc = 3, md = 4, me = 5, mf = 6\<rparr>"] by simp

end
