(* ===== verification/D3_Color.thy ===== *)
theory D3_Color
  imports D3_Interpolate D3_Arrays
begin

text \<open>
  Colours (\<open>d3.js\<close> lines 1476 to 1846, 5580 to 5588 and 5803 to 5833): the RGB, HSL, HCL and
  Lab spaces with their conversions, \<open>brighter\<close> and \<open>darker\<close>, parsing of colour names and CSS
  notations, hexadecimal printing and the colour interpolators.

  RGB and HSL components are JavaScript numbers, since parsing can yield \<open>NaN\<close> and grey has no
  hue; the hue and chroma of HCL may be \<open>NaN\<close> as well.  Lab components are finite.
\<close>

unbundle bit_operations_syntax

section \<open>Colour objects\<close>

record rgb =
  rgb_r :: jsnum
  rgb_g :: jsnum
  rgb_b :: jsnum

record hsl =
  hsl_h :: jsnum
  hsl_s :: jsnum
  hsl_l :: jsnum

record hcl =
  hcl_h :: jsnum
  hcl_c :: jsnum
  hcl_l :: real

record lab =
  lab_l :: real
  lab_a :: real
  lab_b :: real

text \<open>
  Failures: \<open>charAt\<close> of an \<open>undefined\<close> component throws; the base 16 text of a fraction and Lab
  coordinates of a colour with an infinite or \<open>NaN\<close> component are outside the model.
\<close>

datatype color_error = CharAtOfUndefined | FractionText | NotFinite

definition d3_rgb :: "jsnum \<Rightarrow> jsnum \<Rightarrow> jsnum \<Rightarrow> rgb" where
  "d3_rgb r g b = \<lparr>rgb_r = r, rgb_g = g, rgb_b = b\<rparr>"

definition d3_hsl :: "jsnum \<Rightarrow> jsnum \<Rightarrow> jsnum \<Rightarrow> hsl" where
  "d3_hsl h s l = \<lparr>hsl_h = h, hsl_s = s, hsl_l = l\<rparr>"

definition d3_hcl :: "jsnum \<Rightarrow> jsnum \<Rightarrow> real \<Rightarrow> hcl" where
  "d3_hcl h c l = \<lparr>hcl_h = h, hcl_c = c, hcl_l = l\<rparr>"

definition d3_lab :: "real \<Rightarrow> real \<Rightarrow> real \<Rightarrow> lab" where
  "d3_lab l a b = \<lparr>lab_l = l, lab_a = a, lab_b = b\<rparr>"

section \<open>HSL\<close>

definition shade :: "real option \<Rightarrow> real" where
  "shade k = (7 / 10) powr (case k of Some k \<Rightarrow> k | None \<Rightarrow> 1)"

definition hsl_brighter :: "hsl \<Rightarrow> real option \<Rightarrow> hsl" where
  "hsl_brighter this k = d3_hsl (hsl_h this) (hsl_s this) (js_div (hsl_l this) (Fin (shade k)))"

definition hsl_darker :: "hsl \<Rightarrow> real option \<Rightarrow> hsl" where
  "hsl_darker this k = d3_hsl (hsl_h this) (hsl_s this) (js_mul (Fin (shade k)) (hsl_l this))"

definition hsl_hue :: "jsnum \<Rightarrow> jsnum" where
  "hsl_hue h = (if h = NaN then Fin 0
     else let h' = js_rem h (Fin 360) in if num_lt h' (Fin 0) then js_add h' (Fin 360) else h')"

definition unit_clamp :: "jsnum \<Rightarrow> jsnum" where
  "unit_clamp s = (if num_lt s (Fin 0) then Fin 0 else if num_lt (Fin 1) s then Fin 1 else s)"

definition hsl_v :: "jsnum \<Rightarrow> jsnum \<Rightarrow> jsnum \<Rightarrow> jsnum" where
  "hsl_v m1 m2 h0 =
     (let h = (if num_lt (Fin 360) h0 then js_sub h0 (Fin 360)
               else if num_lt h0 (Fin 0) then js_add h0 (Fin 360) else h0)
      in if num_lt h (Fin 60) then js_add m1 (js_div (js_mul (js_sub m2 m1) h) (Fin 60))
         else if num_lt h (Fin 180) then m2
         else if num_lt h (Fin 240)
           then js_add m1 (js_div (js_mul (js_sub m2 m1) (js_sub (Fin 240) h)) (Fin 60))
         else m1)"

definition hsl_vv :: "jsnum \<Rightarrow> jsnum \<Rightarrow> jsnum \<Rightarrow> jsnum" where
  "hsl_vv m1 m2 h = js_roundn (js_mul (hsl_v m1 m2 h) (Fin 255))"

definition d3_hsl_rgb :: "jsnum \<Rightarrow> jsnum \<Rightarrow> jsnum \<Rightarrow> rgb" where
  "d3_hsl_rgb h0 s0 l0 =
     (let h = hsl_hue h0;
          s = (if s0 = NaN then Fin 0 else unit_clamp s0);
          l = unit_clamp l0;
          m2 = (if num_le l (Fin (1 / 2)) then js_mul l (js_add (Fin 1) s)
                else js_sub (js_add l s) (js_mul l s));
          m1 = js_sub (js_mul (Fin 2) l) m2
      in d3_rgb (hsl_vv m1 m2 (js_add h (Fin 120))) (hsl_vv m1 m2 h) (hsl_vv m1 m2 (js_sub h (Fin 120))))"

definition hsl_rgb :: "hsl \<Rightarrow> rgb" where
  "hsl_rgb this = d3_hsl_rgb (hsl_h this) (hsl_s this) (hsl_l this)"

section \<open>Lab and HCL\<close>

definition d3_lab_K :: real where
  "d3_lab_K = 18"

definition d3_lab_X :: real where
  "d3_lab_X = 95047 / 100000"

definition d3_lab_Y :: real where
  "d3_lab_Y = 1"

definition d3_lab_Z :: real where
  "d3_lab_Z = 108883 / 100000"

definition arg_k :: "real option \<Rightarrow> real" where
  "arg_k k = (case k of Some k \<Rightarrow> k | None \<Rightarrow> 1)"

definition hcl_brighter :: "hcl \<Rightarrow> real option \<Rightarrow> hcl" where
  "hcl_brighter this k = d3_hcl (hcl_h this) (hcl_c this) (min 100 (hcl_l this + d3_lab_K * arg_k k))"

definition hcl_darker :: "hcl \<Rightarrow> real option \<Rightarrow> hcl" where
  "hcl_darker this k = d3_hcl (hcl_h this) (hcl_c this) (max 0 (hcl_l this - d3_lab_K * arg_k k))"

definition lab_brighter :: "lab \<Rightarrow> real option \<Rightarrow> lab" where
  "lab_brighter this k = d3_lab (min 100 (lab_l this + d3_lab_K * arg_k k)) (lab_a this) (lab_b this)"

definition lab_darker :: "lab \<Rightarrow> real option \<Rightarrow> lab" where
  "lab_darker this k = d3_lab (max 0 (lab_l this - d3_lab_K * arg_k k)) (lab_a this) (lab_b this)"

text \<open>An infinite hue or chroma does not arise from the conversions and is read as 0.\<close>

definition num_or_0 :: "jsnum \<Rightarrow> real" where
  "num_or_0 h = (case h of Fin x \<Rightarrow> x | _ \<Rightarrow> 0)"

definition d3_hcl_lab :: "jsnum \<Rightarrow> jsnum \<Rightarrow> real \<Rightarrow> lab" where
  "d3_hcl_lab h c l =
     (let h' = num_or_0 h * (pi / 180); c' = num_or_0 c in d3_lab l (cos h' * c') (sin h' * c'))"

definition d3_lab_xyz :: "real \<Rightarrow> real" where
  "d3_lab_xyz x = (if x > 206893034 / 1000000000 then x * x * x else (x - 4 / 29) / (7787037 / 1000000))"

definition d3_xyz_lab :: "real \<Rightarrow> real" where
  "d3_xyz_lab x = (if x > 8856 / 1000000 then x powr (1 / 3) else 7787037 / 1000000 * x + 4 / 29)"

definition d3_xyz_rgb :: "real \<Rightarrow> real" where
  "d3_xyz_rgb r = js_round (255 * (if r \<le> 304 / 100000 then 1292 / 100 * r
     else 1055 / 1000 * r powr (1 / (24 / 10)) - 55 / 1000))"

definition d3_rgb_xyz :: "real \<Rightarrow> real" where
  "d3_rgb_xyz r0 = (let r = r0 / 255 in if r \<le> 4045 / 100000 then r / (1292 / 100)
     else ((r + 55 / 1000) / (1055 / 1000)) powr (24 / 10))"

definition d3_lab_rgb :: "real \<Rightarrow> real \<Rightarrow> real \<Rightarrow> rgb" where
  "d3_lab_rgb l a b =
     (let y0 = (l + 16) / 116; x0 = y0 + a / 500; z0 = y0 - b / 200;
          x = d3_lab_xyz x0 * d3_lab_X; y = d3_lab_xyz y0 * d3_lab_Y; z = d3_lab_xyz z0 * d3_lab_Z
      in d3_rgb
           (Fin (d3_xyz_rgb (32404542 / 10000000 * x - 15371385 / 10000000 * y - 4985314 / 10000000 * z)))
           (Fin (d3_xyz_rgb (- 969266 / 1000000 * x + 18760108 / 10000000 * y + 41556 / 1000000 * z)))
           (Fin (d3_xyz_rgb (556434 / 10000000 * x - 2040259 / 10000000 * y + 10572252 / 10000000 * z))))"

definition d3_lab_hcl :: "real \<Rightarrow> real \<Rightarrow> real \<Rightarrow> hcl" where
  "d3_lab_hcl l a b =
     (if l > 0 then d3_hcl (Fin (js_atan2 b a * (180 / pi))) (Fin (sqrt (a * a + b * b))) l
      else d3_hcl NaN NaN l)"

definition d3_rgb_lab :: "real \<Rightarrow> real \<Rightarrow> real \<Rightarrow> lab" where
  "d3_rgb_lab r0 g0 b0 =
     (let r = d3_rgb_xyz r0; g = d3_rgb_xyz g0; b = d3_rgb_xyz b0;
          x = d3_xyz_lab ((4124564 / 10000000 * r + 3575761 / 10000000 * g + 1804375 / 10000000 * b) / d3_lab_X);
          y = d3_xyz_lab ((2126729 / 10000000 * r + 7151522 / 10000000 * g + 72175 / 1000000 * b) / d3_lab_Y);
          z = d3_xyz_lab ((193339 / 10000000 * r + 119192 / 1000000 * g + 9503041 / 10000000 * b) / d3_lab_Z)
      in d3_lab (116 * y - 16) (500 * (x - y)) (200 * (y - z)))"

definition lab_rgb :: "lab \<Rightarrow> rgb" where
  "lab_rgb this = d3_lab_rgb (lab_l this) (lab_a this) (lab_b this)"

definition hcl_rgb :: "hcl \<Rightarrow> rgb" where
  "hcl_rgb this = lab_rgb (d3_hcl_lab (hcl_h this) (hcl_c this) (hcl_l this))"

section \<open>RGB\<close>

definition d3_rgbNumber :: "int \<Rightarrow> rgb" where
  "d3_rgbNumber v =
     d3_rgb (Fin (of_int (drop_bit 16 v))) (Fin (of_int (drop_bit 8 v AND 255))) (Fin (of_int (v AND 255)))"

definition js_falsy :: "jsnum \<Rightarrow> bool" where
  "js_falsy x \<longleftrightarrow> x = Fin 0 \<or> x = NaN"

definition rgb_brighter :: "rgb \<Rightarrow> real option \<Rightarrow> rgb" where
  "rgb_brighter this k0 =
     (let k = shade k0; r = rgb_r this; g = rgb_g this; b = rgb_b this; i = Fin 30;
          up = (\<lambda>v. if \<not> js_falsy v \<and> num_lt v i then i else v);
          chan = (\<lambda>v. js_min2 (Fin 255) (js_int32 (js_div v (Fin k))))
      in if js_falsy r \<and> js_falsy g \<and> js_falsy b then d3_rgb i i i
         else d3_rgb (chan (up r)) (chan (up g)) (chan (up b)))"

definition rgb_darker :: "rgb \<Rightarrow> real option \<Rightarrow> rgb" where
  "rgb_darker this k0 =
     (let k = shade k0; chan = (\<lambda>v. js_int32 (js_mul (Fin k) v))
      in d3_rgb (chan (rgb_r this)) (chan (rgb_g this)) (chan (rgb_b this)))"

definition js_toString16 :: "jsnum \<Rightarrow> color_error + string" where
  "js_toString16 v = (case v of
     NaN \<Rightarrow> Inr ''NaN'' | PInf \<Rightarrow> Inr ''Infinity'' | NInf \<Rightarrow> Inr ''-Infinity''
   | Fin x \<Rightarrow> if x \<in> \<int> then Inr (if x < 0 then CHR ''-'' # base_digits 16 (nat \<lfloor>- x\<rfloor>) else base_digits 16 (nat \<lfloor>x\<rfloor>))
              else Inl FractionText)"

definition d3_rgb_hex :: "jsnum \<Rightarrow> color_error + string" where
  "d3_rgb_hex v =
     (if num_lt v (Fin 16) then map_sum id (\<lambda>s. CHR ''0'' # s) (js_toString16 (js_max2 (Fin 0) v))
      else js_toString16 (js_min2 (Fin 255) v))"

definition hash_hex :: "jsnum \<Rightarrow> jsnum \<Rightarrow> jsnum \<Rightarrow> color_error + string" where
  "hash_hex r g b = (case d3_rgb_hex r of Inl e \<Rightarrow> Inl e | Inr rs \<Rightarrow>
     (case d3_rgb_hex g of Inl e \<Rightarrow> Inl e | Inr gs \<Rightarrow>
       (case d3_rgb_hex b of Inl e \<Rightarrow> Inl e | Inr bs \<Rightarrow> Inr (CHR ''#'' # rs @ gs @ bs))))"

definition rgb_toString :: "rgb \<Rightarrow> color_error + string" where
  "rgb_toString this = hash_hex (rgb_r this) (rgb_g this) (rgb_b this)"

definition d3_rgbString :: "int \<Rightarrow> color_error + string" where
  "d3_rgbString v = rgb_toString (d3_rgbNumber v)"

definition d3_rgb_hsl :: "jsnum \<Rightarrow> jsnum \<Rightarrow> jsnum \<Rightarrow> hsl" where
  "d3_rgb_hsl r0 g0 b0 =
     (let r = js_div r0 (Fin 255); g = js_div g0 (Fin 255); b = js_div b0 (Fin 255);
          mn = js_min2 (js_min2 r g) b; mx = js_max2 (js_max2 r g) b;
          d = js_sub mx mn; l = js_div (js_add mx mn) (Fin 2)
      in if \<not> js_falsy d then
           let s = (if num_lt l (Fin (1 / 2)) then js_div d (js_add mx mn)
                    else js_div d (js_sub (js_sub (Fin 2) mx) mn));
               h = (if r = mx \<and> r \<noteq> NaN then js_add (js_div (js_sub g b) d) (Fin (if num_lt g b then 6 else 0))
                    else if g = mx \<and> g \<noteq> NaN then js_add (js_div (js_sub b r) d) (Fin 2)
                    else js_add (js_div (js_sub r g) d) (Fin 4))
           in d3_hsl (js_mul h (Fin 60)) s l
         else d3_hsl NaN (if num_lt (Fin 0) l \<and> num_lt l (Fin 1) then Fin 0 else NaN) l)"

section \<open>Parsing\<close>

definition rgb_name_table :: "int obj" where
  "rgb_name_table =
     [(''aliceblue'', 15792383), (''antiquewhite'', 16444375), (''aqua'', 65535),
      (''aquamarine'', 8388564), (''azure'', 15794175), (''beige'', 16119260),
      (''bisque'', 16770244), (''black'', 0), (''blanchedalmond'', 16772045), (''blue'', 255),
      (''blueviolet'', 9055202), (''brown'', 10824234), (''burlywood'', 14596231),
      (''cadetblue'', 6266528), (''chartreuse'', 8388352), (''chocolate'', 13789470),
      (''coral'', 16744272), (''cornflowerblue'', 6591981), (''cornsilk'', 16775388),
      (''crimson'', 14423100), (''cyan'', 65535), (''darkblue'', 139), (''darkcyan'', 35723),
      (''darkgoldenrod'', 12092939), (''darkgray'', 11119017), (''darkgreen'', 25600),
      (''darkgrey'', 11119017), (''darkkhaki'', 12433259), (''darkmagenta'', 9109643),
      (''darkolivegreen'', 5597999), (''darkorange'', 16747520), (''darkorchid'', 10040012),
      (''darkred'', 9109504), (''darksalmon'', 15308410), (''darkseagreen'', 9419919),
      (''darkslateblue'', 4734347), (''darkslategray'', 3100495), (''darkslategrey'', 3100495),
      (''darkturquoise'', 52945), (''darkviolet'', 9699539), (''deeppink'', 16716947),
      (''deepskyblue'', 49151), (''dimgray'', 6908265), (''dimgrey'', 6908265),
      (''dodgerblue'', 2003199), (''firebrick'', 11674146), (''floralwhite'', 16775920),
      (''forestgreen'', 2263842), (''fuchsia'', 16711935), (''gainsboro'', 14474460),
      (''ghostwhite'', 16316671), (''gold'', 16766720), (''goldenrod'', 14329120),
      (''gray'', 8421504), (''green'', 32768), (''greenyellow'', 11403055), (''grey'', 8421504),
      (''honeydew'', 15794160), (''hotpink'', 16738740), (''indianred'', 13458524),
      (''indigo'', 4915330), (''ivory'', 16777200), (''khaki'', 15787660),
      (''lavender'', 15132410), (''lavenderblush'', 16773365), (''lawngreen'', 8190976),
      (''lemonchiffon'', 16775885), (''lightblue'', 11393254), (''lightcoral'', 15761536),
      (''lightcyan'', 14745599), (''lightgoldenrodyellow'', 16448210), (''lightgray'', 13882323),
      (''lightgreen'', 9498256), (''lightgrey'', 13882323), (''lightpink'', 16758465),
      (''lightsalmon'', 16752762), (''lightseagreen'', 2142890), (''lightskyblue'', 8900346),
      (''lightslategray'', 7833753), (''lightslategrey'', 7833753), (''lightsteelblue'', 11584734),
      (''lightyellow'', 16777184), (''lime'', 65280), (''limegreen'', 3329330),
      (''linen'', 16445670), (''magenta'', 16711935), (''maroon'', 8388608),
      (''mediumaquamarine'', 6737322), (''mediumblue'', 205), (''mediumorchid'', 12211667),
      (''mediumpurple'', 9662683), (''mediumseagreen'', 3978097), (''mediumslateblue'', 8087790),
      (''mediumspringgreen'', 64154), (''mediumturquoise'', 4772300),
      (''mediumvioletred'', 13047173), (''midnightblue'', 1644912), (''mintcream'', 16121850),
      (''mistyrose'', 16770273), (''moccasin'', 16770229), (''navajowhite'', 16768685),
      (''navy'', 128), (''oldlace'', 16643558), (''olive'', 8421376), (''olivedrab'', 7048739),
      (''orange'', 16753920), (''orangered'', 16729344), (''orchid'', 14315734),
      (''palegoldenrod'', 15657130), (''palegreen'', 10025880), (''paleturquoise'', 11529966),
      (''palevioletred'', 14381203), (''papayawhip'', 16773077), (''peachpuff'', 16767673),
      (''peru'', 13468991), (''pink'', 16761035), (''plum'', 14524637), (''powderblue'', 11591910),
      (''purple'', 8388736), (''red'', 16711680), (''rosybrown'', 12357519),
      (''royalblue'', 4286945), (''saddlebrown'', 9127187), (''salmon'', 16416882),
      (''sandybrown'', 16032864), (''seagreen'', 3050327), (''seashell'', 16774638),
      (''sienna'', 10506797), (''silver'', 12632256), (''skyblue'', 8900331),
      (''slateblue'', 6970061), (''slategray'', 7372944), (''slategrey'', 7372944),
      (''snow'', 16775930), (''springgreen'', 65407), (''steelblue'', 4620980),
      (''tan'', 13808780), (''teal'', 32896), (''thistle'', 14204888), (''tomato'', 16737095),
      (''turquoise'', 4251856), (''violet'', 15631086), (''wheat'', 16113331),
      (''white'', 16777215), (''whitesmoke'', 16119285), (''yellow'', 16776960),
      (''yellowgreen'', 10145074)]"

definition d3_rgb_names :: "int obj" where
  "d3_rgb_names = d3_map rgb_name_table"

text \<open>The \<open>forEach\<close> after the table replaces every number by its colour.\<close>

definition d3_rgb_named :: "rgb obj" where
  "d3_rgb_named = map (\<lambda>(k, v). (k, d3_rgbNumber v)) d3_rgb_names"

definition d3_rgb_parseNumber :: "string option \<Rightarrow> color_error + jsnum" where
  "d3_rgb_parseNumber c = (case c of
     None \<Rightarrow> Inl CharAtOfUndefined
   | Some c \<Rightarrow> let f = js_parseFloat c
               in Inr (if c \<noteq> [] \<and> last c = CHR ''%'' then js_roundn (js_mul f (Fin (255 / 100))) else f))"

definition is_letter :: "char \<Rightarrow> bool" where
  "is_letter c \<longleftrightarrow> (97 \<le> charCode c \<and> charCode c \<le> 122) \<or> (65 \<le> charCode c \<and> charCode c \<le> 90)"

definition js_line :: "string \<Rightarrow> string" where
  "js_line s = takeWhile (\<lambda>c. charCode c \<noteq> 10 \<and> charCode c \<noteq> 13) s"

text \<open>\<open>/([a-z]+)\((.*)\)/i.exec(format)\<close>: the first run of letters before a parenthesis, and the text up to the last closing one.\<close>

fun color_call :: "string \<Rightarrow> (string \<times> string) option" where
  "color_call [] = None"
| "color_call (c # s) =
     (let w = takeWhile is_letter (c # s); r = dropWhile is_letter (c # s)
      in if w \<noteq> [] \<and> r \<noteq> [] \<and> hd r = CHR ''('' \<and> CHR '')'' \<in> set (js_line (tl r))
         then Some (w, rev (tl (dropWhile (\<lambda>c. c \<noteq> CHR '')'') (rev (js_line (tl r))))))
         else color_call s)"

definition parse_float_at :: "string list \<Rightarrow> nat \<Rightarrow> jsnum" where
  "parse_float_at m i = (case js_get m i of None \<Rightarrow> NaN | Some s \<Rightarrow> js_parseFloat s)"

text \<open>The part after the two notations with parentheses: a name, or hexadecimal digits.\<close>

definition rgb_parse_plain :: "string \<Rightarrow> (jsnum \<Rightarrow> jsnum \<Rightarrow> jsnum \<Rightarrow> 'c) \<Rightarrow> 'c" where
  "rgb_parse_plain format rgb =
     (case d3_map_get d3_rgb_named format of
        Some name \<Rightarrow> rgb (rgb_r name) (rgb_g name) (rgb_b name)
      | None \<Rightarrow>
          if format \<noteq> [] \<and> hd format = CHR ''#'' then
            if length format = 4 then
              rgb (js_parseInt16 [format ! 1, format ! 1]) (js_parseInt16 [format ! 2, format ! 2])
                (js_parseInt16 [format ! 3, format ! 3])
            else if length format = 7 then
              rgb (js_parseInt16 [format ! 1, format ! 2]) (js_parseInt16 [format ! 3, format ! 4])
                (js_parseInt16 [format ! 5, format ! 6])
            else rgb (Fin 0) (Fin 0) (Fin 0)
          else rgb (Fin 0) (Fin 0) (Fin 0))"

definition d3_rgb_parse ::
  "string \<Rightarrow> (jsnum \<Rightarrow> jsnum \<Rightarrow> jsnum \<Rightarrow> 'c) \<Rightarrow> (jsnum \<Rightarrow> jsnum \<Rightarrow> jsnum \<Rightarrow> 'c) \<Rightarrow> color_error + 'c" where
  "d3_rgb_parse format rgb hsl =
     (case color_call format of
        Some (f, args) \<Rightarrow>
          let m2 = js_split (CHR '','') args
          in if f = ''hsl'' then
               Inr (hsl (parse_float_at m2 0) (js_div (parse_float_at m2 1) (Fin 100)) (js_div (parse_float_at m2 2) (Fin 100)))
             else if f = ''rgb'' then
               (case d3_rgb_parseNumber (js_get m2 0) of Inl e \<Rightarrow> Inl e | Inr r \<Rightarrow>
                 (case d3_rgb_parseNumber (js_get m2 1) of Inl e \<Rightarrow> Inl e | Inr g \<Rightarrow>
                   (case d3_rgb_parseNumber (js_get m2 2) of Inl e \<Rightarrow> Inl e | Inr b \<Rightarrow> Inr (rgb r g b))))
             else Inr (rgb_parse_plain format rgb)
      | None \<Rightarrow> Inr (rgb_parse_plain format rgb))"

section \<open>The constructors with one argument\<close>

datatype color = ColorRgb rgb | ColorHsl hsl | ColorHcl hcl | ColorLab lab | ColorText string

fun color_text :: "color \<Rightarrow> color_error + string" where
  "color_text (ColorRgb c) = rgb_toString c"
| "color_text (ColorHsl c) = rgb_toString (hsl_rgb c)"
| "color_text (ColorHcl c) = rgb_toString (hcl_rgb c)"
| "color_text (ColorLab c) = rgb_toString (lab_rgb c)"
| "color_text (ColorText s) = Inr s"

fun d3_rgb_of :: "color \<Rightarrow> color_error + rgb" where
  "d3_rgb_of (ColorRgb c) = Inr (d3_rgb (rgb_r c) (rgb_g c) (rgb_b c))"
| "d3_rgb_of c = (case color_text c of Inl e \<Rightarrow> Inl e | Inr s \<Rightarrow> d3_rgb_parse s d3_rgb d3_hsl_rgb)"

fun d3_hsl_of :: "color \<Rightarrow> color_error + hsl" where
  "d3_hsl_of (ColorHsl c) = Inr (d3_hsl (hsl_h c) (hsl_s c) (hsl_l c))"
| "d3_hsl_of c = (case color_text c of Inl e \<Rightarrow> Inl e | Inr s \<Rightarrow> d3_rgb_parse s d3_rgb_hsl d3_hsl)"

definition lab_of_rgb :: "color_error + rgb \<Rightarrow> color_error + lab" where
  "lab_of_rgb c = (case c of Inl e \<Rightarrow> Inl e | Inr c \<Rightarrow>
     (case (rgb_r c, rgb_g c, rgb_b c) of (Fin r, Fin g, Fin b) \<Rightarrow> Inr (d3_rgb_lab r g b) | _ \<Rightarrow> Inl NotFinite))"

fun d3_hcl_of :: "color \<Rightarrow> color_error + hcl" where
  "d3_hcl_of (ColorHcl c) = Inr (d3_hcl (hcl_h c) (hcl_c c) (hcl_l c))"
| "d3_hcl_of (ColorLab c) = Inr (d3_lab_hcl (lab_l c) (lab_a c) (lab_b c))"
| "d3_hcl_of c = (case lab_of_rgb (d3_rgb_of c) of Inl e \<Rightarrow> Inl e
     | Inr h \<Rightarrow> Inr (d3_lab_hcl (lab_l h) (lab_a h) (lab_b h)))"

text \<open>The HCL branch passes the lightness where \<open>d3_hcl_lab\<close> expects the hue, as in the source.\<close>

fun d3_lab_of :: "color \<Rightarrow> color_error + lab" where
  "d3_lab_of (ColorLab c) = Inr (d3_lab (lab_l c) (lab_a c) (lab_b c))"
| "d3_lab_of (ColorHcl c) = (case hcl_h c of Fin h \<Rightarrow> Inr (d3_hcl_lab (Fin (hcl_l c)) (hcl_c c) h) | _ \<Rightarrow> Inl NotFinite)"
| "d3_lab_of c = lab_of_rgb (d3_rgb_of c)"

section \<open>Interpolation\<close>

definition mix :: "jsnum \<Rightarrow> jsnum \<Rightarrow> real \<Rightarrow> jsnum" where
  "mix a d t = js_add a (js_mul d (Fin t))"

definition d3_interpolateRgb :: "color \<Rightarrow> color \<Rightarrow> color_error + (real \<Rightarrow> color_error + string)" where
  "d3_interpolateRgb a0 b0 = (case d3_rgb_of a0 of Inl e \<Rightarrow> Inl e | Inr a \<Rightarrow>
     (case d3_rgb_of b0 of Inl e \<Rightarrow> Inl e | Inr b \<Rightarrow>
       let br = js_sub (rgb_r b) (rgb_r a); bg = js_sub (rgb_g b) (rgb_g a); bb = js_sub (rgb_b b) (rgb_b a)
       in Inr (\<lambda>t. hash_hex (js_roundn (mix (rgb_r a) br t)) (js_roundn (mix (rgb_g a) bg t))
            (js_roundn (mix (rgb_b a) bb t)))))"

definition short_way :: "jsnum \<Rightarrow> jsnum" where
  "short_way bh = (if num_lt (Fin 180) bh then js_sub bh (Fin 360)
     else if num_lt bh (Fin (- 180)) then js_add bh (Fin 360) else bh)"

text \<open>A component that is \<open>NaN\<close> on one side takes the value of the other side throughout.\<close>

definition nan_delta :: "jsnum \<Rightarrow> jsnum \<Rightarrow> jsnum \<times> jsnum" where
  "nan_delta a b = (let d = js_sub b a in if d = NaN then (if a = NaN then b else a, Fin 0) else (a, d))"

definition d3_interpolateHsl :: "color \<Rightarrow> color \<Rightarrow> color_error + (real \<Rightarrow> color_error + string)" where
  "d3_interpolateHsl a0 b0 = (case d3_hsl_of a0 of Inl e \<Rightarrow> Inl e | Inr a \<Rightarrow>
     (case d3_hsl_of b0 of Inl e \<Rightarrow> Inl e | Inr b \<Rightarrow>
       let (as, bs) = nan_delta (hsl_s a) (hsl_s b); (ah, bh0) = nan_delta (hsl_h a) (hsl_h b);
           bh = short_way bh0; bl = js_sub (hsl_l b) (hsl_l a)
       in Inr (\<lambda>t. rgb_toString (d3_hsl_rgb (mix ah bh t) (mix as bs t) (mix (hsl_l a) bl t)))))"

definition d3_interpolateHcl :: "color \<Rightarrow> color \<Rightarrow> color_error + (real \<Rightarrow> color_error + string)" where
  "d3_interpolateHcl a0 b0 = (case d3_hcl_of a0 of Inl e \<Rightarrow> Inl e | Inr a \<Rightarrow>
     (case d3_hcl_of b0 of Inl e \<Rightarrow> Inl e | Inr b \<Rightarrow>
       let (ac, bc) = nan_delta (hcl_c a) (hcl_c b); (ah, bh0) = nan_delta (hcl_h a) (hcl_h b);
           bh = short_way bh0; bl = hcl_l b - hcl_l a
       in Inr (\<lambda>t. rgb_toString (lab_rgb (d3_hcl_lab (mix ah bh t) (mix ac bc t) (hcl_l a + bl * t))))))"

definition d3_interpolateLab :: "color \<Rightarrow> color \<Rightarrow> color_error + (real \<Rightarrow> color_error + string)" where
  "d3_interpolateLab a0 b0 = (case d3_lab_of a0 of Inl e \<Rightarrow> Inl e | Inr a \<Rightarrow>
     (case d3_lab_of b0 of Inl e \<Rightarrow> Inl e | Inr b \<Rightarrow>
       let bl = lab_l b - lab_l a; ba = lab_a b - lab_a a; bb = lab_b b - lab_b a
       in Inr (\<lambda>t. rgb_toString (d3_lab_rgb (lab_l a + bl * t) (lab_a a + ba * t) (lab_b a + bb * t)))))"

section \<open>Hexadecimal text\<close>

lemma charCode_digit: "d < 16 \<Longrightarrow> charCode (digit_char d) = (if d < 10 then 48 + d else 87 + d)"
  by (simp add: digit_char_def charCode_def)

lemma hex_val_digit: "d < 16 \<Longrightarrow> hex_val (digit_char d) = Some d"
  by (simp add: hex_val_def charCode_digit Let_def)

lemma base_digits_hex:
  "n < 16 \<Longrightarrow> base_digits 16 n = [digit_char n]"
  "16 \<le> n \<Longrightarrow> n < 256 \<Longrightarrow> base_digits 16 n = [digit_char (n div 16), digit_char (n mod 16)]"
proof -
  show low: "n < 16 \<Longrightarrow> base_digits 16 n = [digit_char n]" for n
    by (subst base_digits.simps) simp
  show "16 \<le> n \<Longrightarrow> n < 256 \<Longrightarrow> base_digits 16 n = [digit_char (n div 16), digit_char (n mod 16)]"
    by (subst base_digits.simps) (simp add: low)
qed

lemma digit_char_0 [simp]: "digit_char 0 = CHR ''0''"
  by code_simp

lemma d3_rgb_hex_byte:
  assumes "n < 256"
  shows "d3_rgb_hex (Fin (real n)) = Inr [digit_char (n div 16), digit_char (n mod 16)]"
proof (cases "n < 16")
  case True
  then show ?thesis
    by (auto simp: d3_rgb_hex_def js_max2_def js_toString16_def base_digits_hex)
next
  case False
  then have "js_min2 (Fin 255) (Fin (real n)) = Fin (real n)" using assms by (auto simp: js_min2_def)
  then show ?thesis using assms False
    by (simp add: d3_rgb_hex_def js_toString16_def base_digits_hex)
qed

lemma hex_not_special:
  assumes "d < 16"
  shows "\<not> is_ws (digit_char d)" "digit_char d \<noteq> CHR ''-''" "digit_char d \<noteq> CHR ''+''"
    "digit_char d \<noteq> CHR ''x''" "digit_char d \<noteq> CHR ''X''" "digit_char d \<noteq> CHR ''(''"
proof -
  have ne: "digit_char d \<noteq> c" if "charCode c < 48 \<or> 57 < charCode c \<and> charCode c < 97 \<or> 102 < charCode c" for c
    using charCode_digit [OF assms] that assms by (auto split: if_splits)
  show "\<not> is_ws (digit_char d)" using charCode_digit [OF assms] assms by (auto simp: is_ws_def)
  show "digit_char d \<noteq> CHR ''-''" "digit_char d \<noteq> CHR ''+''" "digit_char d \<noteq> CHR ''x''"
    "digit_char d \<noteq> CHR ''X''" "digit_char d \<noteq> CHR ''(''"
    by (rule ne, simp add: charCode_def)+
qed

lemma js_parseInt16_byte:
  assumes "a < 16" "b < 16"
  shows "js_parseInt16 [digit_char a, digit_char b] = Fin (real (16 * a + b))"
  using hex_not_special [OF assms(1)] hex_not_special [OF assms(2)] hex_val_digit assms
  by (simp add: js_parseInt16_def unsigned_hex_def)

lemma color_call_None: "CHR ''('' \<notin> set s \<Longrightarrow> color_call s = None"
proof (induction s)
  case (Cons c s)
  have "hd (dropWhile is_letter (c # s)) \<noteq> CHR ''(''" if "dropWhile is_letter (c # s) \<noteq> []"
    using that Cons.prems by (metis hd_in_set set_dropWhileD)
  with Cons show ?case by (auto simp: Let_def simp del: dropWhile.simps takeWhile.simps)
qed simp

lemma d3_map_get_new: "k \<notin> fst ` set xs \<Longrightarrow> d3_map_get (d3_map xs) k = None"
proof -
  have "k \<notin> fst ` set xs \<Longrightarrow> d3_map_get (fold (\<lambda>(k, v) m. d3_map_set m k v) xs m) k = d3_map_get m k" for m
    by (induction xs arbitrary: m) (auto simp: d3_map_get_set)
  then show "k \<notin> fst ` set xs \<Longrightarrow> ?thesis" by (simp add: d3_map_def d3_map_get_def)
qed

lemma names_no_hash: "list_all (\<lambda>(k, v). k \<noteq> [] \<and> hd k \<noteq> CHR ''#'') rgb_name_table"
  by code_simp

lemma named_no_hash: "d3_map_get d3_rgb_named (CHR ''#'' # s) = None"
proof -
  have "CHR ''#'' # s \<notin> fst ` set rgb_name_table"
    using names_no_hash by (force simp: list_all_iff)
  then show ?thesis by (simp add: d3_rgb_named_def d3_map_get_def map_of_map d3_rgb_names_def
        d3_map_get_new [unfolded d3_map_get_def])
qed

definition byte_rgb :: "nat \<Rightarrow> nat \<Rightarrow> nat \<Rightarrow> rgb" where
  "byte_rgb r g b = d3_rgb (Fin (real r)) (Fin (real g)) (Fin (real b))"

text \<open>
  Printing a colour with byte components and parsing the text, with \<open>d3.rgb(c + "")\<close>,
  returns the colour, and the text has the seven characters of the form \<open>#rrggbb\<close>.
\<close>

theorem rgb_text_roundtrip:
  assumes "r < 256" "g < 256" "b < 256"
  shows "\<exists>s. rgb_toString (byte_rgb r g b) = Inr s \<and> length s = 7 \<and> d3_rgb_of (ColorText s) = Inr (byte_rgb r g b)"
proof -
  define hx where "hx n = [digit_char (n div 16), digit_char (n mod 16)]" for n
  define s where "s = CHR ''#'' # hx r @ hx g @ hx b"
  have str: "rgb_toString (byte_rgb r g b) = Inr s"
    using assms by (simp add: rgb_toString_def hash_hex_def byte_rgb_def d3_rgb_def d3_rgb_hex_byte s_def hx_def)
  have lt: "n div 16 < 16" "n mod 16 < 16" if "n < 256" for n :: nat using that by auto
  have parse: "js_parseInt16 [digit_char (n div 16), digit_char (n mod 16)] = Fin (real n)" if "n < 256" for n
    using js_parseInt16_byte [OF lt(1) [OF that] lt(2) [OF that]] by (simp only: mult_div_mod_eq)
  have "CHR ''('' \<notin> set (hx n)" if "n < 256" for n
    using hex_not_special(6) [OF lt(1) [OF that]] hex_not_special(6) [OF lt(2) [OF that]] by (simp add: hx_def)
  then have "CHR ''('' \<notin> set s" using assms by (simp add: s_def)
  then have "d3_rgb_of (ColorText s) = Inr (rgb_parse_plain s d3_rgb)"
    by (simp add: d3_rgb_parse_def color_call_None)
  also have "rgb_parse_plain s d3_rgb = byte_rgb r g b"
    using parse [of r] parse [of g] parse [of b] assms
    by (simp add: rgb_parse_plain_def s_def hx_def named_no_hash byte_rgb_def)
  finally show ?thesis using str by (intro exI [of _ s]) (simp add: s_def hx_def)
qed

theorem rgb_text_roundtrip_witness:
  "\<exists>s. rgb_toString (byte_rgb 7 255 16) = Inr s \<and> length s = 7 \<and> d3_rgb_of (ColorText s) = Inr (byte_rgb 7 255 16)"
  using rgb_text_roundtrip [of 7 255 16] by simp

section \<open>RGB to HSL and back\<close>

lemma js_min2_Fin [simp]: "js_min2 (Fin x) (Fin y) = Fin (min x y)"
  by (auto simp: js_min2_def)

lemma js_max2_Fin [simp]: "js_max2 (Fin x) (Fin y) = Fin (max x y)"
  by (auto simp: js_max2_def)

lemma js_falsy_Fin [simp]: "js_falsy (Fin x) \<longleftrightarrow> x = 0"
  by (simp add: js_falsy_def)

text \<open>The hue wheel: with minimum \<open>m\<close>, spread \<open>d\<close> and position \<open>q\<close> inside one of the six sectors.\<close>

lemma hsl_v_sectors:
  assumes "0 \<le> q" "q \<le> 1"
  shows "hsl_v (Fin m) (Fin (m + d)) (Fin (60 * q)) = Fin (m + d * q)"
    "hsl_v (Fin m) (Fin (m + d)) (Fin (120 + 60 * q)) = Fin (m + d)"
    "hsl_v (Fin m) (Fin (m + d)) (Fin (60 * q - 120)) = Fin m"
    "hsl_v (Fin m) (Fin (m + d)) (Fin (240 - 60 * q)) = Fin (m + d * q)"
    "hsl_v (Fin m) (Fin (m + d)) (Fin (120 - 60 * q)) = Fin (m + d)"
    "hsl_v (Fin m) (Fin (m + d)) (Fin (240 + 60 * q)) = Fin m"
    "hsl_v (Fin m) (Fin (m + d)) (Fin (360 - 60 * q)) = Fin m"
    "hsl_v (Fin m) (Fin (m + d)) (Fin (360 + 60 * q)) = Fin (m + d * q)"
    "hsl_v (Fin m) (Fin (m + d)) (Fin (- (60 * q))) = Fin m"
    "0 < q \<Longrightarrow> hsl_v (Fin m) (Fin (m + d)) (Fin (480 - 60 * q)) = Fin (m + d)"
  using assms by (auto simp: hsl_v_def Let_def)

lemma hsl_hue_Fin: "0 \<le> h \<Longrightarrow> h < 360 \<Longrightarrow> hsl_hue (Fin h) = Fin h"
proof -
  assume "0 \<le> h" "h < 360"
  then have "\<lfloor>h / 360\<rfloor> = 0" "\<not> h / 360 < 0" by (auto simp: floor_eq_iff)
  then show ?thesis using \<open>0 \<le> h\<close> by (simp add: hsl_hue_def)
qed

text \<open>The saturation and lightness that \<open>d3_rgb_hsl\<close> computes give the extremes back.\<close>

definition spread_s :: "real \<Rightarrow> real \<Rightarrow> real" where
  "spread_s m d = (if (m + d + m) / 2 < 1 / 2 then d / (m + d + m) else d / (2 - (m + d) - m))"

lemma hsl_rgb_spread:
  assumes "0 \<le> m" "0 < d" "m + d \<le> 1" "0 \<le> h" "h < 360"
  shows "d3_hsl_rgb (Fin h) (Fin (spread_s m d)) (Fin ((m + d + m) / 2)) =
    d3_rgb (hsl_vv (Fin m) (Fin (m + d)) (Fin (h + 120))) (hsl_vv (Fin m) (Fin (m + d)) (Fin h))
      (hsl_vv (Fin m) (Fin (m + d)) (Fin (h - 120)))"
proof -
  define l where "l = (m + d + m) / 2"
  define s where "s = spread_s m d"
  have s: "0 \<le> s" "s \<le> 1" using assms by (auto simp: s_def spread_s_def field_simps)
  have l: "0 \<le> l" "l \<le> 1" using assms by (auto simp: l_def)
  have m2: "(if l \<le> 1 / 2 then l * (1 + s) else l + s - l * s) = m + d"
  proof (cases "l < 1 / 2")
    case True
    then have "s * l = d / 2" using assms by (simp add: s_def spread_s_def l_def)
    then have "l * (1 + s) = l + d / 2" by (simp add: algebra_simps)
    then have "l * (1 + s) = m + d" by (simp add: l_def field_simps)
    with True show ?thesis by simp
  next
    case False
    then have s': "s * (1 - l) = d / 2" using assms by (simp add: s_def spread_s_def l_def field_simps)
    show ?thesis
    proof (cases "l = 1 / 2")
      case True
      have "m + d = l + d / 2" by (simp add: l_def field_simps)
      then have "m + d = 1 / 2 + d / 2" using True by simp
      moreover have "s = d" using s' True by simp
      ultimately show ?thesis unfolding True by (simp add: field_simps)
    next
      case ne: False
      have "l + s - l * s = l + d / 2" using s' by (simp add: algebra_simps)
      then have "l + s - l * s = m + d" by (simp add: l_def field_simps)
      with False ne show ?thesis by simp
    qed
  qed
  have "2 * l - (m + d) = m" by (simp add: l_def field_simps)
  then have m1: "js_sub (js_mul (Fin 2) (Fin l)) (Fin (m + d)) = Fin m" by simp
  have m2': "(if num_le (Fin l) (Fin (1 / 2)) then js_mul (Fin l) (js_add (Fin 1) (Fin s))
      else js_sub (js_add (Fin l) (Fin s)) (js_mul (Fin l) (Fin s))) = Fin (m + d)"
    using m2 by (simp split: if_splits)
  have clamp: "unit_clamp (Fin l) = Fin l" "unit_clamp (Fin s) = Fin s"
    using s l by (simp_all add: unit_clamp_def)
  show ?thesis
    unfolding d3_hsl_rgb_def Let_def l_def [symmetric] s_def [symmetric] clamp hsl_hue_Fin [OF assms(4,5)]
    by (simp only: jsnum.distinct simp_thms if_False clamp m2' m1) simp
qed

lemma rgb_hsl_grey:
  "d3_rgb_hsl (Fin (255 * x)) (Fin (255 * x)) (Fin (255 * x)) =
     d3_hsl NaN (if 0 < x \<and> x < 1 then Fin 0 else NaN) (Fin x)"
  by (simp add: d3_rgb_hsl_def Let_def)

text \<open>The hue that \<open>d3_rgb_hsl\<close> computes from components in the unit interval.\<close>

lemma rgb_hsl_spread:
  assumes "m = min (min r g) b" "m + d = max (max r g) b" "0 < d" "0 \<le> m" "m + d \<le> 1"
    and "h = 60 * (if r = m + d then (g - b) / d + (if g < b then 6 else 0)
                   else if g = m + d then (b - r) / d + 2 else (r - g) / d + 4)"
  shows "d3_rgb_hsl (Fin (255 * r)) (Fin (255 * g)) (Fin (255 * b)) =
    d3_hsl (Fin h) (Fin (spread_s m d)) (Fin ((m + d + m) / 2))"
proof -
  have mn: "js_min2 (js_min2 (Fin r) (Fin g)) (Fin b) = Fin m" by (simp add: assms(1))
  have mx: "js_max2 (js_max2 (Fin r) (Fin g)) (Fin b) = Fin (m + d)" by (simp add: assms(2))
  have div: "js_div (Fin (255 * x)) (Fin 255) = Fin x" for x by simp
  have sum: "js_add (Fin (m + d)) (Fin m) = Fin (m + d + m)" "js_sub (Fin (m + d)) (Fin m) = Fin d"
    "js_sub (js_sub (Fin 2) (Fin (m + d))) (Fin m) = Fin (2 - (m + d) - m)"
    "js_div (Fin (m + d + m)) (Fin 2) = Fin ((m + d + m) / 2)" by simp_all
  have sat: "js_div (Fin d) (Fin (m + d + m)) = Fin (d / (m + d + m))"
    "js_div (Fin d) (Fin (2 - (m + d) - m)) = Fin (d / (2 - (m + d) - m))"
    using assms(3-5) by auto
  have "\<not> js_falsy (Fin d)" using assms(3) by simp
  then show ?thesis using assms(3)
    unfolding d3_rgb_hsl_def Let_def div mn mx assms(6) sum sat spread_s_def
    by (simp only: if_True not_False_eq_True num_lt.simps if_distrib [of Fin] jsnum.inject jsnum.distinct
        js_add.simps js_mul.simps js_sub_Fin js_div.simps if_distrib [of "\<lambda>x. x * 60"])
      (simp add: mult.commute)
qed

lemma hue_sectors:
  fixes r g b m d :: real
  assumes sp: "m = min (min r g) b" "m + d = max (max r g) b" and d: "0 < d"
  obtains (rg) "r = m + d" "b = m" "\<not> g < b" | (rb) "r = m + d" "g = m" "g < b"
    | (gb) "r \<noteq> m + d" "g = m + d" "r = m" "r \<le> b" | (gr) "r \<noteq> m + d" "g = m + d" "b = m" "b < r"
    | (br) "r \<noteq> m + d" "g \<noteq> m + d" "b = m + d" "g = m" "g \<le> r"
    | (bg) "r \<noteq> m + d" "g \<noteq> m + d" "b = m + d" "r = m" "r < g"
proof -
  have lo: "m \<le> r" "m \<le> g" "m \<le> b" using sp by simp_all
  have "m = r \<or> m = g \<or> m = b" "m + d = r \<or> m + d = g \<or> m + d = b" using sp by (auto simp: min_def max_def)
  then show ?thesis
    using d lo that by (metis add_cancel_left_right leD linorder_cases order_less_irrefl not_less)
qed

lemma hsl_roundtrip_unit:
  assumes "0 \<le> r" "r \<le> 1" "0 \<le> g" "g \<le> 1" "0 \<le> b" "b \<le> 1"
  shows "hsl_rgb (d3_rgb_hsl (Fin (255 * r)) (Fin (255 * g)) (Fin (255 * b))) =
    d3_rgb (js_roundn (Fin (r * 255))) (js_roundn (Fin (g * 255))) (js_roundn (Fin (b * 255)))"
proof (cases "r = g \<and> g = b")
  case True
  have "hsl_v (Fin x) (Fin x) (Fin h) = Fin x" for x h by (simp add: hsl_v_def Let_def)
  then show ?thesis using True assms
    by (auto simp: rgb_hsl_grey hsl_rgb_def d3_hsl_def d3_hsl_rgb_def Let_def hsl_hue_def unit_clamp_def hsl_vv_def)
next
  case False
  define m where "m = min (min r g) b"
  define d where "d = max (max r g) b - m"
  have d: "0 < d" using False by (auto simp: d_def m_def)
  have sp: "m = min (min r g) b" "m + d = max (max r g) b" by (simp_all add: m_def d_def)
  have bounds: "0 \<le> m" "m + d \<le> 1" using sp assms by auto
  have frac: "\<exists>q. x - m = d * q \<and> 0 \<le> q \<and> q \<le> 1 \<and> (m < x \<longrightarrow> 0 < q) \<and> (x - m) / d = q"
    if "x = r \<or> x = g \<or> x = b" for x
    using that d sp by (intro exI [of _ "(x - m) / d"]) auto
  have restore: "hsl_rgb (d3_rgb_hsl (Fin (255 * r)) (Fin (255 * g)) (Fin (255 * b))) =
      d3_rgb (js_roundn (Fin (R * 255))) (js_roundn (Fin (G * 255))) (js_roundn (Fin (B * 255)))"
    if "h = 60 * (if r = m + d then (g - b) / d + (if g < b then 6 else 0)
          else if g = m + d then (b - r) / d + 2 else (r - g) / d + 4)" "0 \<le> h" "h < 360"
      "hsl_v (Fin m) (Fin (m + d)) (Fin (h + 120)) = Fin R" "hsl_v (Fin m) (Fin (m + d)) (Fin h) = Fin G"
      "hsl_v (Fin m) (Fin (m + d)) (Fin (h - 120)) = Fin B" for h R G B
    using hsl_rgb_spread [OF bounds(1) d bounds(2) that(2,3)] rgb_hsl_spread [OF sp d bounds that(1)] that(4-6)
    by (simp add: hsl_rgb_def d3_hsl_def hsl_vv_def)
  from sp d show ?thesis
  proof (cases rule: hue_sectors)
    case rg
    obtain q where q: "g - m = d * q" "0 \<le> q" "q \<le> 1" "(g - m) / d = q" using frac [of g] rg by blast
    note v = hsl_v_sectors [OF q(2,3), of m d]
    have "60 * (if r = m + d then (g - b) / d + (if g < b then 6 else 0)
        else if g = m + d then (b - r) / d + 2 else (r - g) / d + 4) = 60 * q"
      using rg q(4) by (simp only: if_True if_False) simp
    then have "hsl_rgb (d3_rgb_hsl (Fin (255 * r)) (Fin (255 * g)) (Fin (255 * b))) =
        d3_rgb (js_roundn (Fin ((m + d) * 255))) (js_roundn (Fin ((m + d * q) * 255))) (js_roundn (Fin (m * 255)))"
      by (intro restore [of "60 * q"]) (use v q(2,3) in \<open>simp_all add: add.commute\<close>)
    moreover have "g = m + d * q" using q(1) by linarith
    ultimately show ?thesis using rg by simp
  next
    case rb
    obtain q where q: "b - m = d * q" "0 \<le> q" "q \<le> 1" "(b - m) / d = q" "0 < q" using frac [of b] rb by blast
    have nq: "(m - b) / d = - q" using q(4) by (metis minus_diff_eq minus_divide_left)
    note v = hsl_v_sectors [OF q(2,3), of m d]
    have "60 * (if r = m + d then (g - b) / d + (if g < b then 6 else 0)
        else if g = m + d then (b - r) / d + 2 else (r - g) / d + 4) = 360 - 60 * q"
      using rb q(4) nq by (simp only: if_True if_False) simp
    then have "hsl_rgb (d3_rgb_hsl (Fin (255 * r)) (Fin (255 * g)) (Fin (255 * b))) =
        d3_rgb (js_roundn (Fin ((m + d) * 255))) (js_roundn (Fin (m * 255))) (js_roundn (Fin ((m + d * q) * 255)))"
      by (intro restore [of "360 - 60 * q"]) (use v q(2,3) q(5) in \<open>simp_all add: add.commute\<close>)
    moreover have "b = m + d * q" using q(1) by linarith
    ultimately show ?thesis using rb by simp
  next
    case gb
    obtain q where q: "b - m = d * q" "0 \<le> q" "q \<le> 1" "(b - m) / d = q" using frac [of b] gb by blast
    note v = hsl_v_sectors [OF q(2,3), of m d]
    have "60 * (if r = m + d then (g - b) / d + (if g < b then 6 else 0)
        else if g = m + d then (b - r) / d + 2 else (r - g) / d + 4) = 120 + 60 * q"
      using gb q(4) by (simp only: if_True if_False) simp
    then have "hsl_rgb (d3_rgb_hsl (Fin (255 * r)) (Fin (255 * g)) (Fin (255 * b))) =
        d3_rgb (js_roundn (Fin (m * 255))) (js_roundn (Fin ((m + d) * 255))) (js_roundn (Fin ((m + d * q) * 255)))"
      by (intro restore [of "120 + 60 * q"]) (use v q(2,3) in \<open>simp_all add: add.commute\<close>)
    moreover have "b = m + d * q" using q(1) by linarith
    ultimately show ?thesis using gb by simp
  next
    case gr
    obtain q where q: "r - m = d * q" "0 \<le> q" "q \<le> 1" "(r - m) / d = q" "0 < q" using frac [of r] gr by blast
    have nq: "(m - r) / d = - q" using q(4) by (metis minus_diff_eq minus_divide_left)
    note v = hsl_v_sectors [OF q(2,3), of m d]
    have "60 * (if r = m + d then (g - b) / d + (if g < b then 6 else 0)
        else if g = m + d then (b - r) / d + 2 else (r - g) / d + 4) = 120 - 60 * q"
      using gr q(4) nq by (simp only: if_True if_False) simp
    then have "hsl_rgb (d3_rgb_hsl (Fin (255 * r)) (Fin (255 * g)) (Fin (255 * b))) =
        d3_rgb (js_roundn (Fin ((m + d * q) * 255))) (js_roundn (Fin ((m + d) * 255))) (js_roundn (Fin (m * 255)))"
      by (intro restore [of "120 - 60 * q"]) (use v q(2,3) q(5) in \<open>simp_all add: add.commute\<close>)
    moreover have "r = m + d * q" using q(1) by linarith
    ultimately show ?thesis using gr by simp
  next
    case br
    obtain q where q: "r - m = d * q" "0 \<le> q" "q \<le> 1" "(r - m) / d = q" using frac [of r] br by blast
    note v = hsl_v_sectors [OF q(2,3), of m d]
    have "60 * (if r = m + d then (g - b) / d + (if g < b then 6 else 0)
        else if g = m + d then (b - r) / d + 2 else (r - g) / d + 4) = 240 + 60 * q"
      using br q(4) by (simp only: if_True if_False) simp
    then have "hsl_rgb (d3_rgb_hsl (Fin (255 * r)) (Fin (255 * g)) (Fin (255 * b))) =
        d3_rgb (js_roundn (Fin ((m + d * q) * 255))) (js_roundn (Fin (m * 255))) (js_roundn (Fin ((m + d) * 255)))"
      by (intro restore [of "240 + 60 * q"]) (use v q(2,3) in \<open>simp_all add: add.commute\<close>)
    moreover have "r = m + d * q" using q(1) by linarith
    ultimately show ?thesis using br by simp
  next
    case bg
    obtain q where q: "g - m = d * q" "0 \<le> q" "q \<le> 1" "(g - m) / d = q" "0 < q" using frac [of g] bg by blast
    have nq: "(m - g) / d = - q" using q(4) by (metis minus_diff_eq minus_divide_left)
    note v = hsl_v_sectors [OF q(2,3), of m d]
    have "60 * (if r = m + d then (g - b) / d + (if g < b then 6 else 0)
        else if g = m + d then (b - r) / d + 2 else (r - g) / d + 4) = 240 - 60 * q"
      using bg q(4) nq by (simp only: if_True if_False) simp
    then have "hsl_rgb (d3_rgb_hsl (Fin (255 * r)) (Fin (255 * g)) (Fin (255 * b))) =
        d3_rgb (js_roundn (Fin (m * 255))) (js_roundn (Fin ((m + d * q) * 255))) (js_roundn (Fin ((m + d) * 255)))"
      by (intro restore [of "240 - 60 * q"]) (use v q(2,3) q(5) in \<open>simp_all add: add.commute\<close>)
    moreover have "g = m + d * q" using q(1) by linarith
    ultimately show ?thesis using bg by simp
  qed
qed

text \<open>
  (C37) Converting a colour with byte components to HSL and back to RGB is the identity, greys
  (which have no hue) included.
\<close>

theorem rgb_hsl_roundtrip:
  assumes "r < 256" "g < 256" "b < 256"
  shows "hsl_rgb (d3_rgb_hsl (Fin (real r)) (Fin (real g)) (Fin (real b))) = byte_rgb r g b"
proof -
  have "js_roundn (Fin (real n)) = Fin (real n)" for n
    by (simp add: floor_eq_iff)
  then show ?thesis
    using hsl_roundtrip_unit [of "real r / 255" "real g / 255" "real b / 255"] assms by (simp add: byte_rgb_def)
qed

theorem rgb_hsl_roundtrip_witness:
  "hsl_rgb (d3_rgb_hsl (Fin (real 70)) (Fin (real 130)) (Fin (real 180))) = byte_rgb 70 130 180"
  using rgb_hsl_roundtrip [of 70 130 180] by simp

text \<open>
  \<open>d3.lab\<close> of an HCL colour hands its lightness to the conversion as the hue and its hue as the
  lightness, so it is the conversion only for colours whose hue equals their lightness.
\<close>

lemma lab_of_hcl_swapped:
  "d3_lab_of (ColorHcl (d3_hcl (Fin h) (Fin c) l)) = Inr (d3_hcl_lab (Fin h) (Fin c) l) \<longleftrightarrow> h = l"
  by (auto simp: d3_hcl_def d3_hcl_lab_def d3_lab_def num_or_0_def Let_def)

end
