(* ===== verification/D3_Format.thy ===== *)
theory D3_Format
  imports D3_Interpolate
begin

text \<open>
  Number formatting (\<open>d3.js\<close> lines 2106 to 2247): \<open>d3.round\<close>, the SI prefixes, digit grouping,
  the format specifier and the formatting function it denotes.

  The number methods of the language are modelled on exact reals: \<open>toFixed\<close>, \<open>toExponential\<close>
  and \<open>toPrecision\<close> round the exact value, halves up.  The default text of a number is
  modelled for decimal fractions of at most twenty places in the range without exponent; a
  format that needs any other default text is \<open>None\<close>.
\<close>

section \<open>Number texts of the language\<close>

definition dec_digits :: "nat \<Rightarrow> string" where
  "dec_digits n = base_digits 10 n"

definition fixed_text :: "nat \<Rightarrow> nat \<Rightarrow> string" where
  "fixed_text n p =
     (if p = 0 then dec_digits n
      else let m = dec_digits n;
               m' = replicate (Suc p - length m) (CHR ''0'') @ m;
               k = length m' - p
           in take k m' @ CHR ''.'' # drop k m')"

definition number_text :: "real \<Rightarrow> string option" where
  "number_text x =
     (case find (\<lambda>p. x * 10 ^ p \<in> \<int>) [0..<21] of
        Some p \<Rightarrow> if x = 0 \<or> (1 / 10 ^ 6 \<le> x \<and> x < 10 ^ 21) then Some (fixed_text (nat \<lfloor>x * 10 ^ p\<rfloor>) p) else None
      | None \<Rightarrow> None)"

definition js_toFixed :: "real \<Rightarrow> nat \<Rightarrow> string option" where
  "js_toFixed x p = (if x < 10 ^ 21 then Some (fixed_text (nat \<lfloor>x * 10 ^ p + 1 / 2\<rfloor>) p) else None)"

text \<open>The decimal exponent and the digits \<open>n\<close> of \<open>p + 1\<close> significant places, \<open>x \<approx> n * 10 ^ (e - p)\<close>.\<close>

definition significant :: "real \<Rightarrow> nat \<Rightarrow> int \<times> nat" where
  "significant x p =
     (if x = 0 then (0, 0)
      else let e = \<lfloor>log 10 x\<rfloor>; n = nat \<lfloor>x / 10 powi (e - int p) + 1 / 2\<rfloor>
           in if n = 10 ^ Suc p then (e + 1, 10 ^ p) else (e, n))"

definition exponent_text :: "int \<Rightarrow> nat \<Rightarrow> nat \<Rightarrow> string" where
  "exponent_text e n p =
     (let m = replicate (Suc p - length (dec_digits n)) (CHR ''0'') @ dec_digits n
      in (if p = 0 then m else take 1 m @ CHR ''.'' # drop 1 m) @ CHR ''e'' #
           (if e < 0 then CHR ''-'' else CHR ''+'') # dec_digits (nat \<bar>e\<bar>))"

definition js_toExponential :: "real \<Rightarrow> nat option \<Rightarrow> string option" where
  "js_toExponential x p = (case p of None \<Rightarrow> None | Some p \<Rightarrow> let (e, n) = significant x p in Some (exponent_text e n p))"

definition js_toPrecision :: "real \<Rightarrow> nat option \<Rightarrow> string option" where
  "js_toPrecision x p = (case p of
     None \<Rightarrow> number_text x
   | Some p \<Rightarrow>
       let (e, n) = significant x (p - 1)
       in if e < - 6 \<or> e \<ge> int p then Some (exponent_text e n (p - 1))
          else if e \<ge> 0 then Some (fixed_text n (p - 1 - nat e))
          else Some (fixed_text n (p - 1 + nat (- e))))"

section \<open>Rounding and SI prefixes\<close>

text \<open>\<open>Math.log(x) / Math.LN10\<close> is the decimal logarithm; the argument is positive where it is taken.\<close>

definition d3_format_precision :: "real \<Rightarrow> int \<Rightarrow> int" where
  "d3_format_precision x p = p - (if x \<noteq> 0 then \<lceil>ln x / ln 10\<rceil> else 1)"

definition d3_round :: "real \<Rightarrow> int \<Rightarrow> real" where
  "d3_round x n = (if n \<noteq> 0 then let k = 10 powi n in js_round (x * k) / k else js_round x)"

record format_prefix =
  prefix_scale :: "real \<Rightarrow> real"
  prefix_symbol :: string

definition d3_formatPrefix :: "string \<Rightarrow> nat \<Rightarrow> format_prefix" where
  "d3_formatPrefix d i =
     (let k = 10 ^ (nat \<bar>8 - int i\<bar> * 3)
      in \<lparr>prefix_scale = (if i > 8 then (\<lambda>d. d / k) else (\<lambda>d. d * k)), prefix_symbol = d\<rparr>)"

definition micro_sign :: string where
  "micro_sign = [char_of (181 :: nat)]"

definition d3_formatPrefixes :: "format_prefix list" where
  "d3_formatPrefixes =
     map (\<lambda>(d, i). d3_formatPrefix d i)
       (zip [''y'', ''z'', ''a'', ''f'', ''p'', ''n'', micro_sign, ''m'', [], ''k'', ''M'', ''G'', ''T'', ''P'', ''E'', ''Z'', ''Y'']
          [0..<17])"

definition prefix_exponent :: "real \<Rightarrow> int option \<Rightarrow> int" where
  "prefix_exponent v0 precision =
     (if v0 = 0 then 0
      else let v1 = (if v0 < 0 then v0 * - 1 else v0);
               v = (case precision of None \<Rightarrow> v1
                    | Some p \<Rightarrow> if p \<noteq> 0 then d3_round v1 (d3_format_precision v1 p) else v1);
               i = 1 + \<lfloor>1 / 10 ^ 12 + ln v / ln 10\<rfloor>
           in max (- 24) (min 24 ((if i \<le> 0 then i + 1 else i - 1) div 3 * 3)))"

definition formatPrefix :: "real \<Rightarrow> int option \<Rightarrow> format_prefix" where
  "formatPrefix v precision = d3_formatPrefixes ! nat (8 + prefix_exponent v precision div 3)"

section \<open>Grouping\<close>

record number_locale =
  loc_decimal :: string
  loc_thousands :: string
  loc_grouping :: "nat list option"
  loc_currency :: "string \<times> string"

fun join :: "string \<Rightarrow> string list \<Rightarrow> string" where
  "join sep [] = []"
| "join sep [x] = x"
| "join sep (x # y # ys) = x @ sep @ join sep (y # ys)"

text \<open>The loop pushes groups from the right; \<open>group_loop\<close> returns them in the order of \<open>t.reverse()\<close>.\<close>

fun group_loop :: "nat list \<Rightarrow> string \<Rightarrow> nat \<Rightarrow> nat \<Rightarrow> string list" where
  "group_loop gs s i j =
     (case js_get gs j of
        None \<Rightarrow> []
      | Some g \<Rightarrow>
          if i > 0 \<and> g > 0
          then group_loop gs s (i - g) ((j + 1) mod length gs) @ [drop (i - g) (take i s)]
          else [])"

declare group_loop.simps [simp del]

definition formatGroup :: "number_locale \<Rightarrow> string \<Rightarrow> string" where
  "formatGroup loc s = (case loc_grouping loc of
     None \<Rightarrow> s
   | Some gs \<Rightarrow> join (loc_thousands loc) (group_loop gs s (length s) 0))"

section \<open>Specifiers\<close>

text \<open>The nine groups of \<open>d3_format_re\<close>; \<open>None\<close> is a group that did not take part in the match.\<close>

record format_match =
  m_fill :: "char option"
  m_align :: "char option"
  m_sign :: "char option"
  m_symbol :: "char option"
  m_zero :: bool
  m_width :: "nat option"
  m_comma :: bool
  m_precision :: "int option"
  m_type :: "char option"

definition eat :: "(char \<Rightarrow> bool) \<Rightarrow> string \<Rightarrow> char option \<times> string" where
  "eat P s = (case s of [] \<Rightarrow> (None, s) | c # r \<Rightarrow> if P c then (Some c, r) else (None, s))"

definition is_align :: "char \<Rightarrow> bool" where
  "is_align c \<longleftrightarrow> c \<in> {CHR ''<'', CHR ''>'', CHR ''='', CHR ''^''}"

definition eat_align :: "string \<Rightarrow> char option \<times> char option \<times> string" where
  "eat_align s =
     (if length s \<ge> 2 \<and> hd s \<noteq> CHR ''{'' \<and> is_align (s ! 1) then (Some (hd s), Some (s ! 1), drop 2 s)
      else if s \<noteq> [] \<and> is_align (hd s) then (None, Some (hd s), tl s)
      else (None, None, s))"

definition eat_width :: "string \<Rightarrow> nat option \<times> string" where
  "eat_width s = (let ds = takeWhile is_digit s in (if ds = [] then None else Some (dec_val ds), dropWhile is_digit s))"

definition eat_precision :: "string \<Rightarrow> int option \<times> string" where
  "eat_precision s =
     (if s \<noteq> [] \<and> hd s = CHR ''.'' then
        let r = tl s; minus = (r \<noteq> [] \<and> hd r = CHR ''-''); r' = (if minus then tl r else r); ds = takeWhile is_digit r'
        in if ds = [] then (None, s)
           else (Some (if minus then - int (dec_val ds) else int (dec_val ds)), dropWhile is_digit r')
      else (None, s))"

definition is_type_char :: "char \<Rightarrow> bool" where
  "is_type_char c \<longleftrightarrow> c = CHR ''%'' \<or> (97 \<le> charCode c \<and> charCode c \<le> 122) \<or> (65 \<le> charCode c \<and> charCode c \<le> 90)"

definition d3_format_re :: "string \<Rightarrow> format_match" where
  "d3_format_re s0 =
     (let (fill, align, s1) = eat_align s0;
          (sign, s2) = eat (\<lambda>c. c \<in> {CHR ''+'', CHR ''-'', CHR '' ''}) s1;
          (symbol, s3) = eat (\<lambda>c. c \<in> {CHR ''$'', CHR ''#''}) s2;
          (zero, s4) = eat (\<lambda>c. c = CHR ''0'') s3;
          (width, s5) = eat_width s4;
          (comma, s6) = eat (\<lambda>c. c = CHR '','') s5;
          (precision, s7) = eat_precision s6;
          (type, s8) = eat is_type_char s7
      in \<lparr>m_fill = fill, m_align = align, m_sign = sign, m_symbol = symbol, m_zero = (zero \<noteq> None),
          m_width = width, m_comma = (comma \<noteq> None), m_precision = precision, m_type = type\<rparr>)"

record format_spec =
  f_fill :: char
  f_align :: char
  f_sign :: string
  f_zfill :: bool
  f_width :: "int option"
  f_comma :: bool
  f_precision :: "int option"
  f_type :: "char option"
  f_scale :: int
  f_prefix :: string
  f_suffix :: string
  f_integer :: bool

text \<open>The first part of the formatter: defaults, zero fill, and the switch on the type.\<close>

definition spec_type :: "format_match \<Rightarrow> format_spec \<Rightarrow> format_spec" where
  "spec_type m f = (case m_type m of
     None \<Rightarrow> f
   | Some c \<Rightarrow>
       if c = CHR ''n'' then f\<lparr>f_comma := True, f_type := Some (CHR ''g'')\<rparr>
       else if c = CHR ''%'' then f\<lparr>f_scale := 100, f_suffix := ''%'', f_type := Some (CHR ''f'')\<rparr>
       else if c = CHR ''p'' then f\<lparr>f_scale := 100, f_suffix := ''%'', f_type := Some (CHR ''r'')\<rparr>
       else if c \<in> {CHR ''b'', CHR ''o'', CHR ''x'', CHR ''X''} then
         f\<lparr>f_prefix := (if m_symbol m = Some (CHR ''#'') then [CHR ''0'', if c = CHR ''X'' then CHR ''x'' else c] else []),
           f_integer := True, f_precision := Some 0\<rparr>
       else if c \<in> {CHR ''c'', CHR ''d''} then f\<lparr>f_integer := True, f_precision := Some 0\<rparr>
       else if c = CHR ''s'' then f\<lparr>f_scale := - 1, f_type := Some (CHR ''r'')\<rparr>
       else f)"

definition spec_currency :: "number_locale \<Rightarrow> format_match \<Rightarrow> format_spec \<Rightarrow> format_spec" where
  "spec_currency loc m f =
     (if m_symbol m = Some (CHR ''$'') then f\<lparr>f_prefix := fst (loc_currency loc), f_suffix := snd (loc_currency loc)\<rparr>
      else f)"

definition falsy_precision :: "int option \<Rightarrow> bool" where
  "falsy_precision p \<longleftrightarrow> p = None \<or> p = Some 0"

definition spec_precision :: "format_spec \<Rightarrow> format_spec" where
  "spec_precision f0 =
     (let f = (if f_type f0 = Some (CHR ''r'') \<and> falsy_precision (f_precision f0) then f0\<lparr>f_type := Some (CHR ''g'')\<rparr> else f0)
      in case f_precision f of
           None \<Rightarrow> f
         | Some p \<Rightarrow>
             if f_type f = Some (CHR ''g'') then f\<lparr>f_precision := Some (max 1 (min 21 p))\<rparr>
             else if f_type f = Some (CHR ''e'') \<or> f_type f = Some (CHR ''f'')
               then f\<lparr>f_precision := Some (max 0 (min 20 p))\<rparr>
             else f)"

definition format_specifier :: "number_locale \<Rightarrow> string \<Rightarrow> format_spec" where
  "format_specifier loc specifier =
     (let m = d3_format_re specifier;
          fill = (case m_fill m of Some c \<Rightarrow> c | None \<Rightarrow> CHR '' '');
          align = (case m_align m of Some c \<Rightarrow> c | None \<Rightarrow> CHR ''>'');
          zf = (m_zero m \<or> fill = CHR ''0'' \<and> align = CHR ''='');
          width = map_option int (m_width m);
          f = \<lparr>f_fill = (if zf then CHR ''0'' else fill), f_align = (if zf then CHR ''='' else align),
               f_sign = (case m_sign m of Some c \<Rightarrow> [c] | None \<Rightarrow> []), f_zfill = zf,
               f_width = (if zf \<and> m_comma m then map_option (\<lambda>w. w - (w - 1) div 4) width else width),
               f_comma = m_comma m, f_precision = m_precision m, f_type = m_type m, f_scale = 1,
               f_prefix = [], f_suffix = [], f_integer = False\<rparr>
      in spec_precision (spec_currency loc m (spec_type m f)))"

section \<open>Formatting a value\<close>

definition nat_precision :: "int option \<Rightarrow> nat option" where
  "nat_precision p = map_option nat p"

definition to_upper :: "char \<Rightarrow> char" where
  "to_upper c = (if 97 \<le> charCode c \<and> charCode c \<le> 122 then char_of (charCode c - 32) else c)"

definition radix_text :: "nat \<Rightarrow> real \<Rightarrow> string option" where
  "radix_text b x = (if x \<in> \<int> then Some (base_digits b (nat \<lfloor>x\<rfloor>)) else None)"

text \<open>The table \<open>d3_format_types\<close> with the default; the value is not negative.\<close>

definition d3_format_types :: "char option \<Rightarrow> real \<Rightarrow> int option \<Rightarrow> string option" where
  "d3_format_types ty x p =
     (if ty = Some (CHR ''b'') then radix_text 2 x
      else if ty = Some (CHR ''c'') then
        (let n = nat (\<lfloor>x\<rfloor> mod 65536) in if n < 256 then Some [char_of n] else None)
      else if ty = Some (CHR ''o'') then radix_text 8 x
      else if ty = Some (CHR ''x'') then radix_text 16 x
      else if ty = Some (CHR ''X'') then map_option (map to_upper) (radix_text 16 x)
      else if ty = Some (CHR ''g'') then js_toPrecision x (nat_precision p)
      else if ty = Some (CHR ''e'') then js_toExponential x (nat_precision p)
      else if ty = Some (CHR ''f'') then js_toFixed x (case p of Some p \<Rightarrow> nat p | None \<Rightarrow> 0)
      else if ty = Some (CHR ''r'') then
        (case p of None \<Rightarrow> None
         | Some p \<Rightarrow> let y = d3_round x (d3_format_precision x p)
                     in js_toFixed y (nat (max 0 (min 20 (d3_format_precision (y * (1 + 1 / 10 ^ 15)) p)))))
      else number_text x)"

text \<open>The text before and after the last decimal point.\<close>

definition split_point :: "string \<Rightarrow> string \<times> string option" where
  "split_point v =
     (if CHR ''.'' \<in> set v
      then let a = rev (takeWhile (\<lambda>c. c \<noteq> CHR ''.'') (rev v)) in (take (length v - length a - 1) v, Some a)
      else (v, None))"

text \<open>The last part: grouping, padding and alignment around the text \<open>v\<close> of the scaled value.\<close>

definition format_layout :: "number_locale \<Rightarrow> format_spec \<Rightarrow> string \<Rightarrow> string \<Rightarrow> string \<Rightarrow> string" where
  "format_layout loc f negative fullSuffix v =
     (let (before0, frac) = split_point v;
          after = (case frac of None \<Rightarrow> [] | Some a \<Rightarrow> loc_decimal loc @ a);
          zcomma = (f_zfill f \<and> f_comma f);
          before1 = (if \<not> f_zfill f \<and> f_comma f then formatGroup loc before0 else before0);
          len = int (length (f_prefix f) + length before1 + length after + (if zcomma then 0 else length negative));
          pad = (case f_width f of Some w \<Rightarrow> if len < w then nat (w - len) else 0 | None \<Rightarrow> 0);
          padding = replicate pad (f_fill f);
          half = (if pad > 0 then (pad + 1) div 2 else 0);
          before = (if zcomma then formatGroup loc (padding @ before1) else before1);
          neg = negative @ f_prefix f;
          val = before @ after
      in (if f_align f = CHR ''<'' then neg @ val @ padding
          else if f_align f = CHR ''>'' then padding @ neg @ val
          else if f_align f = CHR ''^'' then take half padding @ neg @ val @ drop half padding
          else neg @ (if zcomma then val else padding @ val)) @ fullSuffix)"

definition format_value :: "number_locale \<Rightarrow> format_spec \<Rightarrow> real \<Rightarrow> string option" where
  "format_value loc f v0 =
     (if f_integer f \<and> v0 \<notin> \<int> then Some []
      else let negative = (if v0 < 0 then ''-'' else f_sign f); v1 = \<bar>v0\<bar>;
               (v, fullSuffix) =
                 (if f_scale f < 0
                  then let unit = formatPrefix v1 (f_precision f) in (prefix_scale unit v1, prefix_symbol unit @ f_suffix f)
                  else (v1 * of_int (f_scale f), f_suffix f))
           in map_option (format_layout loc f negative fullSuffix) (d3_format_types (f_type f) v (f_precision f)))"

definition d3_format :: "number_locale \<Rightarrow> string \<Rightarrow> real \<Rightarrow> string option" where
  "d3_format loc specifier = format_value loc (format_specifier loc specifier)"

text \<open>The locale of \<open>d3.format\<close> (\<open>d3_locale_enUS\<close>, lines 2746 to 2760).\<close>

definition d3_locale_enUS :: number_locale where
  "d3_locale_enUS = \<lparr>loc_decimal = ''.'', loc_thousands = '','', loc_grouping = Some [3], loc_currency = (''$'', [])\<rparr>"

section \<open>Decimal texts read back\<close>

lemma is_digit_char: "d < 10 \<Longrightarrow> is_digit (digit_char d) \<and> digit_val (digit_char d) = d"
  by (simp add: is_digit_def digit_val_def digit_char_def charCode_def)

lemma dec_digits_spec: "dec_digits n \<noteq> [] \<and> list_all is_digit (dec_digits n) \<and> dec_val (dec_digits n) = n"
  unfolding dec_digits_def
proof (induction n rule: less_induct)
  case (less n)
  show ?case
  proof (cases "n < 10")
    case True
    then show ?thesis using is_digit_char [of n] by (subst (1 2 3) base_digits.simps) (simp add: dec_val_def)
  next
    case False
    then have "n div 10 < n" by simp
    with less.IH [of "n div 10"] False is_digit_char [of "n mod 10"] show ?thesis
      by (subst (1 2 3) base_digits.simps) (simp add: dec_val_def)
  qed
qed

lemma dec_val_zeros [simp]: "dec_val (replicate k (CHR ''0'') @ ds) = dec_val ds"
proof -
  have "foldl (\<lambda>n d. 10 * n + digit_val d) 0 (replicate k (CHR ''0'')) = 0"
    by (induction k) (simp_all add: digit_val_def charCode_def)
  then show ?thesis by (simp add: dec_val_def)
qed

lemma is_digit_zero [simp]: "is_digit (CHR ''0'')"
  by (simp add: is_digit_def charCode_def)

lemma not_digit_point [simp]: "\<not> is_digit (CHR ''.'')" "\<not> is_digit (CHR '','')"
  by (simp_all add: is_digit_def charCode_def)

lemma digits_all: "list_all is_digit ds \<Longrightarrow> c \<in> set ds \<Longrightarrow> \<not> is_digit c \<Longrightarrow> False"
  by (auto simp: list_all_iff)

text \<open>A fixed text is an integer part and, for a positive number of places, a point and the places.\<close>

lemma fixed_text_parts:
  obtains ip fp where "fixed_text n p = (if p = 0 then ip else ip @ CHR ''.'' # fp)"
    "ip \<noteq> []" "list_all is_digit ip" "list_all is_digit fp" "length fp = p" "dec_val (ip @ fp) = n"
proof (cases "p = 0")
  case True
  then show ?thesis using that [of "dec_digits n" "[]"] dec_digits_spec [of n] by (simp add: fixed_text_def)
next
  case False
  define m where "m = replicate (Suc p - length (dec_digits n)) (CHR ''0'') @ dec_digits n"
  have m: "list_all is_digit m" "dec_val m = n" "p < length m"
    using dec_digits_spec [of n] by (auto simp: m_def list_all_iff)
  have t: "fixed_text n p = take (length m - p) m @ CHR ''.'' # drop (length m - p) m"
    using False by (simp add: fixed_text_def m_def Let_def)
  show ?thesis
    by (rule that [of "take (length m - p) m" "drop (length m - p) m"])
      (use False t m in \<open>auto simp: list_all_iff dest: in_set_takeD in_set_dropD\<close>)
qed

lemma takeWhile_digits:
  "list_all is_digit ds \<Longrightarrow> \<not> is_digit c \<Longrightarrow> takeWhile is_digit (ds @ c # r) = ds"
  "list_all is_digit ds \<Longrightarrow> \<not> is_digit c \<Longrightarrow> dropWhile is_digit (ds @ c # r) = c # r"
  "list_all is_digit ds \<Longrightarrow> takeWhile is_digit ds = ds"
  "list_all is_digit ds \<Longrightarrow> dropWhile is_digit ds = []"
  by (simp_all add: list_all_iff takeWhile_append2 dropWhile_append2 takeWhile_eq_all_conv)

lemma number_head:
  assumes "s \<noteq> []" "\<forall>c \<in> set s. is_digit c \<or> c = CHR ''.''"
  shows "string_to_number s = unsigned_decimal s"
proof -
  have all: "\<not> is_ws c \<and> c \<noteq> CHR ''-'' \<and> c \<noteq> CHR ''+'' \<and> c \<noteq> CHR ''x'' \<and> c \<noteq> CHR ''X''" if "c \<in> set s" for c
    using assms(2) that by (auto simp: is_digit_def is_ws_def charCode_def)
  have keep: "dropWhile is_ws u = u" if "u \<noteq> []" "set u \<subseteq> set s" for u
    using all that by (cases u) auto
  have trim: "js_trim s = s" using keep [of s] keep [of "rev s"] assms(1) by (simp add: js_trim_def)
  obtain c r where cr: "s = c # r" using assms(1) by (cases s) auto
  have "r \<noteq> [] \<Longrightarrow> hd r \<noteq> CHR ''x'' \<and> hd r \<noteq> CHR ''X''" using all [of "hd r"] by (simp add: cr)
  then have "\<not> (length r \<ge> 2 \<and> (hd r = CHR ''x'' \<or> hd r = CHR ''X''))" by (cases r) auto
  moreover have "c \<noteq> CHR ''-''" "c \<noteq> CHR ''+''" using all [of c] by (simp_all add: cr)
  ultimately show ?thesis using trim by (auto simp: string_to_number_def Let_def cr)
qed

lemma fixed_text_number: "string_to_number (fixed_text n p) = Fin (real n / 10 ^ p)"
proof -
  obtain ip fp where f: "fixed_text n p = (if p = 0 then ip else ip @ CHR ''.'' # fp)"
    "ip \<noteq> []" "list_all is_digit ip" "list_all is_digit fp" "length fp = p" "dec_val (ip @ fp) = n"
    by (rule fixed_text_parts)
  have "fixed_text n p \<noteq> []" "\<forall>c \<in> set (fixed_text n p). is_digit c \<or> c = CHR ''.''"
    using f by (auto simp: list_all_iff)
  then have "string_to_number (fixed_text n p) = unsigned_decimal (fixed_text n p)" by (rule number_head)
  moreover have "fixed_text n p \<noteq> ''Infinity''"
    using f by (cases ip) (auto simp: is_digit_def charCode_def)
  moreover have "unsigned_decimal (fixed_text n p) = Fin (real n / 10 ^ p)" if "fixed_text n p \<noteq> ''Infinity''"
  proof (cases "p = 0")
    case True
    then show ?thesis using f that
      by (simp add: unsigned_decimal_def Let_def exponent_part_def takeWhile_digits(3,4) [OF f(3)])
  next
    case False
    then show ?thesis
      using f that
      by (simp add: unsigned_decimal_def Let_def exponent_part_def power_int_minus field_simps
          takeWhile_digits(1,2) [OF f(3) not_digit_point(1)] takeWhile_digits(3,4) [OF f(4)])
  qed
  ultimately show ?thesis by simp
qed

section \<open>Groups of digits\<close>

lemma join_snoc: "xs \<noteq> [] \<Longrightarrow> join sep (xs @ [y]) = join sep xs @ sep @ y"
  by (induction sep xs rule: join.induct) auto

lemma group_loop_concat:
  assumes "gs \<noteq> []" "\<forall>g \<in> set gs. 0 < g"
  shows "i \<le> length s \<Longrightarrow> j < length gs \<Longrightarrow> concat (group_loop gs s i j) = take i s"
proof (induction i arbitrary: j rule: less_induct)
  case (less i)
  have g: "0 < gs ! j" using assms(2) less.prems by simp
  show ?case
  proof (cases "i = 0")
    case False
    have "(j + 1) mod length gs < length gs" using assms(1) by simp
    with less.IH [of "i - gs ! j" "(j + 1) mod length gs"] less.prems g False
    have "concat (group_loop gs s i j) = take (i - gs ! j) s @ drop (i - gs ! j) (take i s)"
      by (subst group_loop.simps) simp
    also have "\<dots> = take i s" by (metis append_take_drop_id diff_le_self min_absorb1 take_take)
    finally show ?thesis .
  qed (subst group_loop.simps, simp add: less.prems)
qed

lemma group3_simps:
  "group_loop [3] s 0 0 = []"
  "0 < i \<Longrightarrow> group_loop [3] s i 0 = group_loop [3] s (i - 3) 0 @ [drop (i - 3) (take i s)]"
  by (subst group_loop.simps, simp)+

definition group3 :: "string \<Rightarrow> nat \<Rightarrow> string" where
  "group3 s i = join '','' (group_loop [3] s i 0)"

lemma group3_rec:
  "i \<le> 3 \<Longrightarrow> i \<le> length s \<Longrightarrow> group3 s i = take i s"
  "3 < i \<Longrightarrow> i \<le> length s \<Longrightarrow> group3 s i = group3 s (i - 3) @ CHR '','' # drop (i - 3) (take i s)"
proof -
  show "i \<le> 3 \<Longrightarrow> i \<le> length s \<Longrightarrow> group3 s i = take i s"
    by (cases "i = 0") (simp_all add: group3_def group3_simps)
  assume "3 < i" "i \<le> length s"
  moreover from this have "group_loop [3] s (i - 3) 0 \<noteq> []" by (simp add: group3_simps)
  ultimately show "group3 s i = group3 s (i - 3) @ CHR '','' # drop (i - 3) (take i s)"
    by (simp add: group3_def group3_simps(2) [of i] join_snoc)
qed

lemma group3_spec:
  assumes "CHR '','' \<notin> set s"
  shows "i \<le> length s \<Longrightarrow> filter (\<lambda>c. c \<noteq> CHR '','') (group3 s i) = take i s \<and>
    (\<forall>k < length (group3 s i). rev (group3 s i) ! k = CHR '','' \<longleftrightarrow> k mod 4 = 3)"
proof (induction i rule: less_induct)
  case (less i)
  have no: "CHR '','' \<notin> set (take n s)" "CHR '','' \<notin> set (drop m (take n s))" for n m
    using assms by (auto dest: in_set_takeD in_set_dropD)
  show ?case
  proof (cases "i \<le> 3")
    case True
    have "filter (\<lambda>c. c \<noteq> CHR '','') (take i s) = take i s"
      using no(1) [of i] by (auto simp: filter_id_conv)
    moreover have "rev (take i s) ! k \<noteq> CHR '',''" if "k < i" for k
      using no(1) [of i] that less.prems nth_mem [of k "rev (take i s)"] by auto
    ultimately show ?thesis using True less.prems by (auto simp: group3_rec(1))
  next
    case False
    define l3 where "l3 = drop (i - 3) (take i s)"
    have l3: "length l3 = 3" "CHR '','' \<notin> set l3" using False less.prems no by (auto simp: l3_def)
    have step: "group3 s i = group3 s (i - 3) @ CHR '','' # l3"
      using False less.prems by (simp add: group3_rec(2) l3_def)
    have IH: "filter (\<lambda>c. c \<noteq> CHR '','') (group3 s (i - 3)) = take (i - 3) s"
      "\<forall>k < length (group3 s (i - 3)). rev (group3 s (i - 3)) ! k = CHR '','' \<longleftrightarrow> k mod 4 = 3"
      using less.IH [of "i - 3"] False less.prems by auto
    have "filter (\<lambda>c. c \<noteq> CHR '','') l3 = l3" using l3(2) by (auto simp: filter_id_conv)
    moreover have "take (i - 3) s @ l3 = take i s"
      unfolding l3_def using append_take_drop_id [of "i - 3" "take i s"] by (simp add: min_def)
    moreover have "rev (group3 s i) ! k = CHR '','' \<longleftrightarrow> k mod 4 = 3" if "k < length (group3 s i)" for k
    proof (cases "k < 3")
      case True
      then have "rev l3 ! k \<noteq> CHR '',''" using l3 nth_mem [of k "rev l3"] by auto
      then show ?thesis using True l3 by (simp add: step nth_append)
    next
      case k: False
      show ?thesis
      proof (cases "k = 3")
        case True
        then show ?thesis using l3 by (simp add: step nth_append)
      next
        case False
        then have j: "k = (k - 4) + 4" using k by simp
        have "k - 4 < length (group3 s (i - 3))" using that l3 k False by (simp add: step)
        moreover have "(k - 4) mod 4 = k mod 4" using j by (metis mod_add_self2)
        moreover have "rev (group3 s i) ! k = rev (group3 s (i - 3)) ! (k - 4)"
          using k False l3(1) by (simp add: step nth_append nth_Cons')
        ultimately show ?thesis using IH(2) by simp
      qed
    qed
    ultimately show ?thesis using IH(1) by (simp add: step)
  qed
qed

section \<open>The format of tick labels\<close>

text \<open>The specifier \<open>,.<p>f\<close> that the scales use for tick labels.\<close>

definition comma_fixed :: "nat \<Rightarrow> string" where
  "comma_fixed p = '',.'' @ dec_digits p @ ''f''"

lemma format_re_comma_fixed:
  "d3_format_re (comma_fixed p) =
     \<lparr>m_fill = None, m_align = None, m_sign = None, m_symbol = None, m_zero = False, m_width = None,
      m_comma = True, m_precision = Some (int p), m_type = Some (CHR ''f'')\<rparr>"
proof -
  have d: "dec_digits p \<noteq> []" "list_all is_digit (dec_digits p)" "dec_val (dec_digits p) = p"
    using dec_digits_spec [of p] by auto
  have nf: "\<not> is_digit (CHR ''f'')" by (simp add: is_digit_def charCode_def)
  have nm: "hd (dec_digits p @ ''f'') \<noteq> CHR ''-''"
    using d by (cases "dec_digits p") (auto simp: is_digit_def charCode_def)
  have "eat_precision (CHR ''.'' # dec_digits p @ ''f'') = (Some (int p), ''f'')"
    using d nm by (simp add: eat_precision_def Let_def takeWhile_digits(1,2) [OF d(2) nf])
  then show ?thesis
    by (simp add: d3_format_re_def comma_fixed_def eat_align_def is_align_def eat_def eat_width_def
        is_type_char_def charCode_def)
qed

lemma format_specifier_comma_fixed:
  "p \<le> 20 \<Longrightarrow> format_specifier loc (comma_fixed p) =
     \<lparr>f_fill = CHR '' '', f_align = CHR ''>'', f_sign = [], f_zfill = False, f_width = None, f_comma = True,
      f_precision = Some (int p), f_type = Some (CHR ''f''), f_scale = 1, f_prefix = [], f_suffix = [],
      f_integer = False\<rparr>"
  by (simp add: format_specifier_def format_re_comma_fixed spec_type_def spec_currency_def spec_precision_def)

lemma split_point_fixed:
  assumes "list_all is_digit ip" "list_all is_digit fp"
  shows "split_point ip = (ip, None)" "split_point (ip @ CHR ''.'' # fp) = (ip, Some fp)"
proof -
  have no: "CHR ''.'' \<notin> set ip" "CHR ''.'' \<notin> set fp" using assms not_digit_point(1) by (auto simp: list_all_iff)
  show "split_point ip = (ip, None)" using no by (simp add: split_point_def)
  have "takeWhile (\<lambda>c. c \<noteq> CHR ''.'') (rev fp @ CHR ''.'' # rev ip) = rev fp"
    using no(2) by (subst takeWhile_append2) auto
  then show "split_point (ip @ CHR ''.'' # fp) = (ip, Some fp)" by (simp add: split_point_def)
qed

text \<open>
  Tick labels.  With the English locale and the specifier \<open>,.<p>f\<close>, \<open>p \<le> 20\<close>, every
  number from 0 up to \<open>10 ^ 21\<close> is formatted; without its commas the text reads back as a number
  at most half a unit of the last place away, and in the part before the decimal point a comma
  stands at every fourth position from the right and nowhere else.
\<close>

theorem d3_format_comma_fixed:
  assumes "0 \<le> x" "x < 10 ^ 21" "p \<le> 20"
  shows "\<exists>s y. d3_format d3_locale_enUS (comma_fixed p) x = Some s \<and>
    string_to_number (filter (\<lambda>c. c \<noteq> CHR '','') s) = Fin y \<and> \<bar>y - x\<bar> \<le> 1 / (2 * 10 ^ p) \<and>
    (let w = rev (takeWhile (\<lambda>c. c \<noteq> CHR ''.'') s) in \<forall>k < length w. w ! k = CHR '','' \<longleftrightarrow> k mod 4 = 3)"
proof -
  define n where "n = nat \<lfloor>x * 10 ^ p + 1 / 2\<rfloor>"
  obtain ip fp where f: "fixed_text n p = (if p = 0 then ip else ip @ CHR ''.'' # fp)"
    "ip \<noteq> []" "list_all is_digit ip" "list_all is_digit fp" "length fp = p" "dec_val (ip @ fp) = n"
    by (rule fixed_text_parts)
  have no: "CHR '','' \<notin> set ip" "CHR '','' \<notin> set fp" "CHR ''.'' \<notin> set ip"
    using f(3,4) not_digit_point by (auto simp: list_all_iff)
  define tail where "tail = (if p = 0 then [] else CHR ''.'' # fp)"
  define g where "g = formatGroup d3_locale_enUS ip"
  have g: "g = group3 ip (length ip)" by (simp add: g_def formatGroup_def d3_locale_enUS_def group3_def)
  have spec: "filter (\<lambda>c. c \<noteq> CHR '','') g = ip" "\<forall>k < length g. rev g ! k = CHR '','' \<longleftrightarrow> k mod 4 = 3"
    using group3_spec [OF no(1), of "length ip"] g by auto
  have out: "d3_format d3_locale_enUS (comma_fixed p) x = Some (g @ tail)"
    using assms f(1) split_point_fixed [OF f(3,4)]
    by (auto simp: d3_format_def format_value_def format_specifier_comma_fixed d3_format_types_def js_toFixed_def
        format_layout_def n_def [symmetric] tail_def g_def Let_def d3_locale_enUS_def)
  have "filter (\<lambda>c. c \<noteq> CHR '','') (g @ tail) = fixed_text n p"
    using spec(1) no(2) f(1) by (auto simp: tail_def filter_id_conv)
  then have num: "string_to_number (filter (\<lambda>c. c \<noteq> CHR '','') (g @ tail)) = Fin (real n / 10 ^ p)"
    by (simp add: fixed_text_number)
  have "real n = of_int \<lfloor>x * 10 ^ p + 1 / 2\<rfloor>" using assms(1) by (simp add: n_def)
  then have "\<bar>real n - x * 10 ^ p\<bar> \<le> 1 / 2" by linarith
  then have "\<bar>(real n - x * 10 ^ p) / 10 ^ p\<bar> \<le> 1 / 2 / 10 ^ p" by (simp add: field_simps)
  then have close: "\<bar>real n / 10 ^ p - x\<bar> \<le> 1 / (2 * 10 ^ p)" by (simp add: diff_divide_distrib)
  have "set ip = set (filter (\<lambda>c. c \<noteq> CHR '','') g)" using spec(1) by simp
  then have "CHR ''.'' \<notin> set g" using no(3) by auto
  then have "takeWhile (\<lambda>c. c \<noteq> CHR ''.'') (g @ tail) = g"
    by (subst takeWhile_append2) (auto simp: tail_def)
  with out num close spec(2) show ?thesis
    by (intro exI [of _ "g @ tail"] exI [of _ "real n / 10 ^ p"]) simp
qed

theorem d3_format_comma_fixed_witness:
  "\<exists>s y. d3_format d3_locale_enUS (comma_fixed 2) (12345678901 / 1000) = Some s \<and>
    string_to_number (filter (\<lambda>c. c \<noteq> CHR '','') s) = Fin y \<and> \<bar>y - 12345678901 / 1000\<bar> \<le> 1 / 200"
proof -
  have "0 \<le> (12345678901 / 1000 :: real)" "12345678901 / 1000 < (10 ^ 21 :: real)" "(2 :: nat) \<le> 20" by simp_all
  from d3_format_comma_fixed [OF this] show ?thesis by auto
qed

end
