(* ===== verification/D3_Scale.thy ===== *)
theory D3_Scale
  imports D3_Color D3_Format D3_Statistics
begin

text \<open>
  Quantitative scales (\<open>d3.js\<close> lines 7341 to 7603 and 7800 to 7823): the linear scale with its piecewise
  variant, ticks and nice domains, the logarithmic, power, square root and identity scales.

  A scale is a record of the variables its closure captures.  Domain arrays live in an
  explicit store, because \<open>nice\<close> writes into the domain array in place and \<open>copy\<close> hands the
  same array to the new scale; a scale holds the address of its domain.  Numbers are finite
  reals; a value that would be \<open>NaN\<close> or infinite is \<open>None\<close>.  Ranges are numeric.
\<close>

section \<open>Extents and nice domains\<close>

definition d3_scaleExtent :: "real list \<Rightarrow> real \<times> real" where
  "d3_scaleExtent domain = (let start = hd domain; stop = last domain in if start < stop then (start, stop) else (stop, start))"

record nice =
  nice_floor :: "real \<Rightarrow> real"
  nice_ceil :: "real \<Rightarrow> real"

definition d3_scale_nice :: "real list \<Rightarrow> nice \<Rightarrow> real list" where
  "d3_scale_nice domain nice =
     (let i0 = 0; i1 = length domain - 1; x0 = domain ! i0; x1 = domain ! i1
      in if x1 < x0 then domain[i1 := nice_floor nice x1, i0 := nice_ceil nice x0]
         else domain[i0 := nice_floor nice x0, i1 := nice_ceil nice x1])"

definition d3_scale_niceIdentity :: nice where
  "d3_scale_niceIdentity = \<lparr>nice_floor = (\<lambda>x. x), nice_ceil = (\<lambda>x. x)\<rparr>"

definition d3_scale_niceStep :: "real \<Rightarrow> nice" where
  "d3_scale_niceStep step =
     (if step \<noteq> 0
      then \<lparr>nice_floor = (\<lambda>x. of_int \<lfloor>x / step\<rfloor> * step), nice_ceil = (\<lambda>x. of_int \<lceil>x / step\<rceil> * step)\<rparr>
      else d3_scale_niceIdentity)"

section \<open>Ticks\<close>

definition tick_step :: "real \<Rightarrow> real \<Rightarrow> real" where
  "tick_step len m =
     (let step = 10 powi \<lfloor>ln (len / m) / ln 10\<rfloor>; err = m / len * step
      in if err \<le> 15 / 100 then step * 10
         else if err \<le> 35 / 100 then step * 5
         else if err \<le> 75 / 100 then step * 2
         else step)"

text \<open>
  The tick range: the bounds (\<open>None\<close> when the extent is a single point, where both are \<open>NaN\<close>)
  and the step.  The count \<open>m\<close> is positive, ten by default.
\<close>

definition tick_count :: "real option \<Rightarrow> real" where
  "tick_count m = (case m of None \<Rightarrow> 10 | Some m \<Rightarrow> m)"

definition d3_scale_linearTickRange :: "real list \<Rightarrow> real option \<Rightarrow> (real \<times> real) option \<times> real" where
  "d3_scale_linearTickRange domain m0 =
     (let m = tick_count m0; (e0, e1) = d3_scaleExtent domain; len = e1 - e0
      in if len = 0 then (None, 0)
         else let step = tick_step len m
              in (Some (of_int \<lceil>e0 / step\<rceil> * step, of_int \<lfloor>e1 / step\<rfloor> * step + step * (1 / 2)), step))"

definition d3_scale_linearTicks :: "real list \<Rightarrow> real option \<Rightarrow> (range_error + real list) option" where
  "d3_scale_linearTicks domain m = (case d3_scale_linearTickRange domain m of
     (None, step) \<Rightarrow> Some (Inr [])
   | (Some (a, b), step) \<Rightarrow> d3_range a b step)"

definition d3_scale_linearNice :: "real list \<Rightarrow> real option \<Rightarrow> real list" where
  "d3_scale_linearNice domain m = d3_scale_nice domain (d3_scale_niceStep (snd (d3_scale_linearTickRange domain m)))"

definition d3_scale_linearPrecision :: "real \<Rightarrow> int" where
  "d3_scale_linearPrecision v = - \<lfloor>ln v / ln 10 + 1 / 100\<rfloor>"

definition d3_scale_linearFormatPrecision :: "char option \<Rightarrow> real \<Rightarrow> real \<Rightarrow> real \<Rightarrow> int" where
  "d3_scale_linearFormatPrecision type r0 r1 r2 =
     (let p = d3_scale_linearPrecision r2
      in if type \<in> {Some (CHR ''s''), Some (CHR ''g''), Some (CHR ''p''), Some (CHR ''r''), Some (CHR ''e'')}
         then \<bar>p - d3_scale_linearPrecision (max \<bar>r0\<bar> \<bar>r1\<bar>)\<bar> + (if type \<noteq> Some (CHR ''e'') then 1 else 0)
         else p - (if type = Some (CHR ''%'') then 2 else 0))"

definition int_text :: "int \<Rightarrow> string" where
  "int_text n = (if n < 0 then CHR ''-'' # dec_digits (nat (- n)) else dec_digits (nat n))"

definition opt_text :: "char option \<Rightarrow> string" where
  "opt_text c = (case c of None \<Rightarrow> [] | Some c \<Rightarrow> [c])"

text \<open>The specifier with the precision filled in, as \<open>format.replace(d3_format_re, ...)\<close> rebuilds it.\<close>

definition fill_precision :: "format_match \<Rightarrow> int \<Rightarrow> string" where
  "fill_precision m p =
     opt_text (m_fill m) @ opt_text (m_align m) @ opt_text (m_sign m) @ opt_text (m_symbol m) @
     (if m_zero m then ''0'' else []) @ (case m_width m of None \<Rightarrow> [] | Some w \<Rightarrow> dec_digits w) @
     (if m_comma m then '','' else []) @
     CHR ''.'' # int_text (case m_precision m of Some q \<Rightarrow> q | None \<Rightarrow> p) @ opt_text (m_type m)"

definition d3_scale_linearTickFormat :: "real list \<Rightarrow> real option \<Rightarrow> string option \<Rightarrow> (real \<Rightarrow> string option) option" where
  "d3_scale_linearTickFormat domain m format = (case d3_scale_linearTickRange domain m of
     (None, step) \<Rightarrow> None
   | (Some (r0, r1), step) \<Rightarrow>
       Some (d3_format d3_locale_enUS (case format of
          Some f \<Rightarrow> let mt = d3_format_re f in fill_precision mt (d3_scale_linearFormatPrecision (m_type mt) r0 r1 step)
        | None \<Rightarrow> '',.'' @ int_text (d3_scale_linearPrecision step) @ ''f'')))"

section \<open>Interpolating between domain and range\<close>

type_synonym uninterpolator = "real \<Rightarrow> real \<Rightarrow> real \<Rightarrow> real"
type_synonym real_interpolator = "real \<Rightarrow> real \<Rightarrow> real \<Rightarrow> real"

definition d3_scale_bilinear ::
  "real list \<Rightarrow> real list \<Rightarrow> uninterpolator \<Rightarrow> real_interpolator \<Rightarrow> real \<Rightarrow> real option" where
  "d3_scale_bilinear domain rng uninterpolate interpolate x = (case (domain, rng) of
     (d0 # d1 # _, r0 # r1 # _) \<Rightarrow> Some (interpolate r0 r1 (uninterpolate d0 d1 x))
   | _ \<Rightarrow> None)"

text \<open>Used with at least three elements on both sides; the two arrays are reversed together.\<close>

definition d3_scale_polylinear ::
  "real list \<Rightarrow> real list \<Rightarrow> uninterpolator \<Rightarrow> real_interpolator \<Rightarrow> real \<Rightarrow> real option" where
  "d3_scale_polylinear domain0 rng0 uninterpolate interpolate x =
     (let k = min (length domain0) (length rng0) - 1;
          flip = (domain0 ! k < domain0 ! 0);
          domain = (if flip then rev domain0 else domain0);
          rng = (if flip then rev rng0 else rng0);
          u = map (\<lambda>j. uninterpolate (domain ! (j - 1)) (domain ! j)) [1..<k + 1];
          i = map (\<lambda>j. interpolate (rng ! (j - 1)) (rng ! j)) [1..<k + 1]
      in case bisect_right (\<lambda>d i. js_val d) (map (\<lambda>d. JNum (Fin d)) domain) (JNum (Fin x)) 1 k of
           None \<Rightarrow> None
         | Some b \<Rightarrow> Some ((i ! (b - 1)) ((u ! (b - 1)) x)))"

section \<open>The linear scale\<close>

type_synonym store = "real list list"

definition alloc :: "store \<Rightarrow> real list \<Rightarrow> store \<times> nat" where
  "alloc h xs = (h @ [xs], length h)"

record linear =
  l_domain :: nat
  l_range :: "real list"
  l_interpolate :: real_interpolator
  l_clamp :: bool
  l_output :: "real \<Rightarrow> real option"
  l_input :: "real \<Rightarrow> real option"

definition linear_map ::
  "real list \<Rightarrow> real list \<Rightarrow> bool \<Rightarrow> real_interpolator \<Rightarrow> real \<Rightarrow> real option" where
  "linear_map domain rng clamp interpolate =
     (if min (length domain) (length rng) > 2 then d3_scale_polylinear else d3_scale_bilinear)
       domain rng (if clamp then d3_uninterpolateClamp else d3_uninterpolateNumber) interpolate"

definition rescale :: "store \<Rightarrow> linear \<Rightarrow> linear" where
  "rescale h s =
     s\<lparr>l_output := linear_map (h ! l_domain s) (l_range s) (l_clamp s) (l_interpolate s),
       l_input := linear_map (l_range s) (h ! l_domain s) (l_clamp s) d3_interpolateNumber\<rparr>"

definition d3_scale_linear :: "store \<Rightarrow> nat \<Rightarrow> real list \<Rightarrow> real_interpolator \<Rightarrow> bool \<Rightarrow> linear" where
  "d3_scale_linear h domain rng interpolate clamp =
     rescale h \<lparr>l_domain = domain, l_range = rng, l_interpolate = interpolate, l_clamp = clamp,
       l_output = (\<lambda>x. None), l_input = (\<lambda>x. None)\<rparr>"

definition scale_linear :: "store \<Rightarrow> store \<times> linear" where
  "scale_linear h = (let (h', a) = alloc h [0, 1] in (h', d3_scale_linear h' a [0, 1] d3_interpolateNumber False))"

definition linear_scale :: "linear \<Rightarrow> real \<Rightarrow> real option" where
  "linear_scale s x = l_output s x"

definition linear_invert :: "linear \<Rightarrow> real \<Rightarrow> real option" where
  "linear_invert s y = l_input s y"

definition linear_get_domain :: "store \<Rightarrow> linear \<Rightarrow> real list" where
  "linear_get_domain h s = h ! l_domain s"

definition linear_domain :: "store \<Rightarrow> linear \<Rightarrow> real list \<Rightarrow> store \<times> linear" where
  "linear_domain h s x = (let (h', a) = alloc h x in (h', rescale h' (s\<lparr>l_domain := a\<rparr>)))"

definition linear_range :: "store \<Rightarrow> linear \<Rightarrow> real list \<Rightarrow> linear" where
  "linear_range h s x = rescale h (s\<lparr>l_range := x\<rparr>)"

definition linear_interpolate :: "store \<Rightarrow> linear \<Rightarrow> real_interpolator \<Rightarrow> linear" where
  "linear_interpolate h s x = rescale h (s\<lparr>l_interpolate := x\<rparr>)"

definition linear_rangeRound :: "store \<Rightarrow> linear \<Rightarrow> real list \<Rightarrow> linear" where
  "linear_rangeRound h s x = linear_interpolate h (linear_range h s x) d3_interpolateRound"

definition linear_clamp :: "store \<Rightarrow> linear \<Rightarrow> bool \<Rightarrow> linear" where
  "linear_clamp h s x = rescale h (s\<lparr>l_clamp := x\<rparr>)"

definition linear_ticks :: "store \<Rightarrow> linear \<Rightarrow> real option \<Rightarrow> (range_error + real list) option" where
  "linear_ticks h s m = d3_scale_linearTicks (h ! l_domain s) m"

definition linear_tickFormat :: "store \<Rightarrow> linear \<Rightarrow> real option \<Rightarrow> string option \<Rightarrow> (real \<Rightarrow> string option) option" where
  "linear_tickFormat h s m format = d3_scale_linearTickFormat (h ! l_domain s) m format"

definition linear_nice :: "store \<Rightarrow> linear \<Rightarrow> real option \<Rightarrow> store \<times> linear" where
  "linear_nice h s m = (let h' = h[l_domain s := d3_scale_linearNice (h ! l_domain s) m] in (h', rescale h' s))"

definition linear_copy :: "store \<Rightarrow> linear \<Rightarrow> linear" where
  "linear_copy h s = d3_scale_linear h (l_domain s) (l_range s) (l_interpolate s) (l_clamp s)"

section \<open>The logarithmic scale\<close>

text \<open>
  The domain array of a logarithmic scale is never written in place (\<open>nice\<close> builds a new one),
  so it is a value.  The logarithm of a number on the wrong side of zero is infinite, \<open>None\<close>.
\<close>

record log_scale =
  g_linear :: linear
  g_base :: real
  g_positive :: bool
  g_domain :: "real list"

definition scale_log_of :: "real \<Rightarrow> bool \<Rightarrow> real \<Rightarrow> real option" where
  "scale_log_of base positive x =
     (if positive then (if x \<le> 0 then None else Some (ln x / ln base))
      else (if x \<ge> 0 then None else Some (- ln (- x) / ln base)))"

definition scale_pow_of :: "real \<Rightarrow> bool \<Rightarrow> real \<Rightarrow> real" where
  "scale_pow_of base positive x = (if positive then base powr x else - (base powr (- x)))"

fun all_some :: "'a option list \<Rightarrow> 'a list option" where
  "all_some [] = Some []"
| "all_some (x # xs) = (case (x, all_some xs) of (Some y, Some ys) \<Rightarrow> Some (y # ys) | _ \<Rightarrow> None)"

definition d3_scale_log :: "linear \<Rightarrow> real \<Rightarrow> bool \<Rightarrow> real list \<Rightarrow> log_scale" where
  "d3_scale_log lin base positive domain = \<lparr>g_linear = lin, g_base = base, g_positive = positive, g_domain = domain\<rparr>"

definition scale_log :: "store \<Rightarrow> store \<times> log_scale" where
  "scale_log h = (let (h1, l) = scale_linear h; (h2, l') = linear_domain h1 l [0, 1] in (h2, d3_scale_log l' 10 True [1, 10]))"

definition log_apply :: "log_scale \<Rightarrow> real \<Rightarrow> real option" where
  "log_apply s x = (case scale_log_of (g_base s) (g_positive s) x of None \<Rightarrow> None | Some y \<Rightarrow> linear_scale (g_linear s) y)"

definition log_invert :: "log_scale \<Rightarrow> real \<Rightarrow> real option" where
  "log_invert s x = map_option (scale_pow_of (g_base s) (g_positive s)) (linear_invert (g_linear s) x)"

text \<open>A domain that touches zero has infinite logarithms; setting it is \<open>None\<close>.\<close>

definition log_domain :: "store \<Rightarrow> log_scale \<Rightarrow> real list \<Rightarrow> (store \<times> log_scale) option" where
  "log_domain h s x =
     (let positive = (hd x \<ge> 0)
      in case all_some (map (scale_log_of (g_base s) positive) x) of
           None \<Rightarrow> None
         | Some ys \<Rightarrow> let (h', l) = linear_domain h (g_linear s) ys
                      in Some (h', s\<lparr>g_positive := positive, g_domain := x, g_linear := l\<rparr>))"

definition log_set_base :: "store \<Rightarrow> log_scale \<Rightarrow> real \<Rightarrow> (store \<times> log_scale) option" where
  "log_set_base h s b =
     (case all_some (map (scale_log_of b (g_positive s)) (g_domain s)) of
        None \<Rightarrow> None
      | Some ys \<Rightarrow> let (h', l) = linear_domain h (g_linear s) ys in Some (h', s\<lparr>g_base := b, g_linear := l\<rparr>))"

definition math_nice :: nice where
  "math_nice = \<lparr>nice_floor = (\<lambda>x. of_int \<lfloor>x\<rfloor>), nice_ceil = (\<lambda>x. of_int \<lceil>x\<rceil>)\<rparr>"

definition d3_scale_logNiceNegative :: nice where
  "d3_scale_logNiceNegative = \<lparr>nice_floor = (\<lambda>x. - of_int \<lceil>- x\<rceil>), nice_ceil = (\<lambda>x. - of_int \<lfloor>- x\<rfloor>)\<rparr>"

definition log_nice :: "store \<Rightarrow> log_scale \<Rightarrow> (store \<times> log_scale) option" where
  "log_nice h s =
     (case all_some (map (scale_log_of (g_base s) (g_positive s)) (g_domain s)) of
        None \<Rightarrow> None
      | Some ys \<Rightarrow>
          let niced = d3_scale_nice ys (if g_positive s then math_nice else d3_scale_logNiceNegative);
              (h', l) = linear_domain h (g_linear s) niced
          in Some (h', s\<lparr>g_linear := l, g_domain := map (scale_pow_of (g_base s) (g_positive s)) niced\<rparr>))"

text \<open>The candidate ticks: the multiples \<open>k * base ^ i\<close>, \<open>1 \<le> k < n\<close>, of the powers between the bounds.\<close>

definition log_candidates :: "real \<Rightarrow> bool \<Rightarrow> int \<Rightarrow> int \<Rightarrow> nat \<Rightarrow> real list" where
  "log_candidates base positive i j n =
     (let pw = (\<lambda>i. scale_pow_of base positive (of_int i))
      in if positive
         then concat (map (\<lambda>i. map (\<lambda>k. pw i * real k) [1..<n]) [i..j - 1]) @ [pw (max i j)]
         else pw i # concat (map (\<lambda>i. map (\<lambda>k. pw i * real k) (rev [1..<n])) [i + 1..j]))"

definition log_ticks :: "log_scale \<Rightarrow> real list" where
  "log_ticks s =
     (let (u, v) = d3_scaleExtent (g_domain s); base = g_base s;
          n = (if frac base \<noteq> 0 then 2 else nat \<lfloor>base\<rfloor>)
      in case (scale_log_of base (g_positive s) u, scale_log_of base (g_positive s) v) of
           (Some lu, Some lv) \<Rightarrow>
             let ticks = log_candidates base (g_positive s) \<lfloor>lu\<rfloor> \<lceil>lv\<rceil> n
             in rev (dropWhile (\<lambda>t. t > v) (rev (dropWhile (\<lambda>t. t < u) ticks)))
         | _ \<Rightarrow> [])"

definition log_copy :: "store \<Rightarrow> log_scale \<Rightarrow> log_scale" where
  "log_copy h s = d3_scale_log (linear_copy h (g_linear s)) (g_base s) (g_positive s) (g_domain s)"

text \<open>
  Only a label whose tick is at most \<open>k\<close> times its power of the base is shown; without ticks
  \<open>k\<close> is infinite.
\<close>

definition log_tickFormat :: "log_scale \<Rightarrow> real \<Rightarrow> (real \<Rightarrow> string option) \<Rightarrow> real \<Rightarrow> string option" where
  "log_tickFormat s n format d =
     (let k = max (1 / 10) (n / real (length (log_ticks s)));
          e = (if g_positive s then 1 / 10 ^ 12 else - 1 / 10 ^ 12)
      in case scale_log_of (g_base s) (g_positive s) d of
           None \<Rightarrow> None
         | Some l \<Rightarrow>
             let p = scale_pow_of (g_base s) (g_positive s) (of_int (if g_positive s then \<lceil>l + e\<rceil> else \<lfloor>l + e\<rfloor>))
             in if log_ticks s = [] \<or> d / p \<le> k then format d else Some [])"

section \<open>Power scales\<close>

record pow_scale =
  p_linear :: linear
  p_exponent :: real
  p_domain :: nat

text \<open>The exponent is positive: a negative exponent is infinite at 0.\<close>

definition d3_scale_powPow :: "real \<Rightarrow> real \<Rightarrow> real" where
  "d3_scale_powPow e x = (if x < 0 then - ((- x) powr e) else x powr e)"

definition d3_scale_pow :: "linear \<Rightarrow> real \<Rightarrow> nat \<Rightarrow> pow_scale" where
  "d3_scale_pow lin exponent domain = \<lparr>p_linear = lin, p_exponent = exponent, p_domain = domain\<rparr>"

definition scale_pow :: "store \<Rightarrow> store \<times> pow_scale" where
  "scale_pow h = (let (h1, l) = scale_linear h; (h2, a) = alloc h1 [0, 1] in (h2, d3_scale_pow l 1 a))"

definition pow_apply :: "pow_scale \<Rightarrow> real \<Rightarrow> real option" where
  "pow_apply s x = linear_scale (p_linear s) (d3_scale_powPow (p_exponent s) x)"

definition pow_invert :: "pow_scale \<Rightarrow> real \<Rightarrow> real option" where
  "pow_invert s x = map_option (d3_scale_powPow (1 / p_exponent s)) (linear_invert (p_linear s) x)"

definition pow_domain :: "store \<Rightarrow> pow_scale \<Rightarrow> real list \<Rightarrow> store \<times> pow_scale" where
  "pow_domain h s x =
     (let (h1, a) = alloc h x; (h2, l) = linear_domain h1 (p_linear s) (map (d3_scale_powPow (p_exponent s)) x)
      in (h2, s\<lparr>p_domain := a, p_linear := l\<rparr>))"

definition pow_ticks :: "store \<Rightarrow> pow_scale \<Rightarrow> real option \<Rightarrow> (range_error + real list) option" where
  "pow_ticks h s m = d3_scale_linearTicks (h ! p_domain s) m"

definition pow_tickFormat :: "store \<Rightarrow> pow_scale \<Rightarrow> real option \<Rightarrow> string option \<Rightarrow> (real \<Rightarrow> string option) option" where
  "pow_tickFormat h s m format = d3_scale_linearTickFormat (h ! p_domain s) m format"

definition pow_nice :: "store \<Rightarrow> pow_scale \<Rightarrow> real option \<Rightarrow> store \<times> pow_scale" where
  "pow_nice h s m =
     (let h' = h[p_domain s := d3_scale_linearNice (h ! p_domain s) m] in pow_domain h' s (h' ! p_domain s))"

definition pow_set_exponent :: "store \<Rightarrow> pow_scale \<Rightarrow> real \<Rightarrow> store \<times> pow_scale" where
  "pow_set_exponent h s x =
     (let (h', l) = linear_domain h (p_linear s) (map (d3_scale_powPow x) (h ! p_domain s))
      in (h', s\<lparr>p_exponent := x, p_linear := l\<rparr>))"

definition pow_copy :: "store \<Rightarrow> pow_scale \<Rightarrow> pow_scale" where
  "pow_copy h s = d3_scale_pow (linear_copy h (p_linear s)) (p_exponent s) (p_domain s)"

definition scale_sqrt :: "store \<Rightarrow> store \<times> pow_scale" where
  "scale_sqrt h = (let (h', s) = scale_pow h in pow_set_exponent h' s (1 / 2))"

section \<open>The identity scale\<close>

definition identity_apply :: "jsval \<Rightarrow> jsnum" where
  "identity_apply x = to_number x"

definition identity_domain :: "jsval list \<Rightarrow> jsnum list" where
  "identity_domain x = map identity_apply x"

definition identity_ticks :: "real list \<Rightarrow> real option \<Rightarrow> (range_error + real list) option" where
  "identity_ticks domain m = d3_scale_linearTicks domain m"

definition identity_tickFormat :: "real list \<Rightarrow> real option \<Rightarrow> string option \<Rightarrow> (real \<Rightarrow> string option) option" where
  "identity_tickFormat domain m format = d3_scale_linearTickFormat domain m format"

end
