(* ===== verification/D3_Ticks.thy ===== *)
theory D3_Ticks
  imports D3_Scale
begin

text \<open>
  Ticks and nice domains of the linear scale, and the ticks of the logarithmic scale: the step
  is the decimal step that gives about the requested number of ticks, the ticks are exactly
  its multiples inside the domain, and a nice domain encloses the domain.
\<close>

section \<open>The tick step\<close>

lemma power_bracket:
  assumes "0 < (q :: real)"
  shows "10 powi \<lfloor>ln q / ln 10\<rfloor> \<le> q" "q < 10 * 10 powi \<lfloor>ln q / ln 10\<rfloor>"
proof -
  define k where "k = \<lfloor>log 10 q\<rfloor>"
  have k: "\<lfloor>ln q / ln 10\<rfloor> = k" by (simp add: k_def log_def)
  have p: "10 powi i = 10 powr (of_int i :: real)" for i by (simp add: powr_real_of_int')
  have "of_int k \<le> log 10 q" "log 10 q < of_int k + 1" by (simp_all add: k_def)
  then have "10 powr of_int k \<le> q" "q < 10 powr (of_int k + 1)"
    using assms by (simp_all add: le_log_iff log_less_iff)
  then show "10 powi \<lfloor>ln q / ln 10\<rfloor> \<le> q" "q < 10 * 10 powi \<lfloor>ln q / ln 10\<rfloor>"
    unfolding k p by (simp_all add: powr_add mult.commute)
qed

lemma tick_step_spec:
  assumes "0 < len" "0 < m"
  shows "0 < tick_step len m" "\<exists>k :: int. \<exists>c \<in> {1, 2, 5}. tick_step len m = c * 10 powi k"
    "4 * m / 7 \<le> len / tick_step len m" "len / tick_step len m < 10 * m / 7"
proof -
  define s :: real where "s = 10 powi \<lfloor>ln (len / m) / ln 10\<rfloor>"
  have s: "0 < s" "s \<le> len / m" "len / m < 10 * s"
    using power_bracket [of "len / m"] assms by (simp_all add: s_def)
  define err where "err = m / len * s"
  have err: "err \<le> 1" "1 / 10 < err" using s assms by (simp_all add: err_def field_simps)
  have t: "tick_step len m = (if err \<le> 15 / 100 then s * 10 else if err \<le> 35 / 100 then s * 5
      else if err \<le> 75 / 100 then s * 2 else s)"
    by (simp add: tick_step_def s_def err_def Let_def)
  show pos: "0 < tick_step len m" using s(1) by (simp add: t)
  have "s * 10 = 1 * 10 powi (\<lfloor>ln (len / m) / ln 10\<rfloor> + 1)" by (simp add: s_def power_int_add)
  then show "\<exists>k :: int. \<exists>c \<in> {1, 2, 5}. tick_step len m = c * 10 powi k"
    unfolding t s_def by (auto simp: mult.commute)
  have "m * tick_step len m / len = (if err \<le> 15 / 100 then err * 10 else if err \<le> 35 / 100 then err * 5
      else if err \<le> 75 / 100 then err * 2 else err)"
    by (simp add: t err_def)
  then have "m * tick_step len m / len \<le> 7 / 4" "7 / 10 < m * tick_step len m / len"
    using err by (auto split: if_splits)
  then show "4 * m / 7 \<le> len / tick_step len m" "len / tick_step len m < 10 * m / 7"
    using pos assms by (simp_all add: field_simps)
qed

text \<open>A decimal step has finitely many decimal places, as \<open>d3.range\<close> needs.\<close>

lemma tick_step_decimal:
  assumes "0 < len" "0 < m"
  shows "\<exists>p. tick_step len m * 10 ^ p \<in> \<int>"
proof -
  obtain k :: int and c where c: "c \<in> {1, 2, 5 :: real}" "tick_step len m = c * 10 powi k"
    using tick_step_spec(2) [OF assms] by blast
  have "10 powi k * 10 ^ nat (- k) \<in> (\<int> :: real set)"
  proof (cases "k \<ge> 0")
    case True
    then show ?thesis by (simp add: power_int_def)
  next
    case False
    then show ?thesis by (simp add: power_int_def field_simps)
  qed
  moreover have "c \<in> \<int>" using c(1) by auto
  ultimately show ?thesis using c(2) by (intro exI [of _ "nat (- k)"]) (simp add: mult.assoc)
qed

lemma tick_range_count:
  assumes "0 < (step :: real)"
  shows "range_count (of_int a * step) (of_int b * step + step / 2) step = nat (b - a + 1)"
proof -
  have "(of_int b * step + step / 2 - of_int a * step) / step = of_int (b - a) + 1 / 2"
    using assms by (simp add: field_simps)
  moreover have "\<lceil>of_int (b - a) + 1 / 2 :: real\<rceil> = b - a + 1" by (simp add: ceiling_unique)
  ultimately show ?thesis by (simp add: range_count_def)
qed

lemma map_upt_int:
  "map (\<lambda>i. of_int a * step + step * real i) [0..<nat (b - a + 1)] = map (\<lambda>i. of_int i * step) [a..b]"
  by (rule nth_equalityI) (auto simp: algebra_simps)

section \<open>Linear ticks\<close>

lemma scaleExtent_lt:
  assumes "hd domain \<noteq> last domain" "d3_scaleExtent domain = (lo, hi)"
  shows "lo < hi"
  using assms by (auto simp: d3_scaleExtent_def Let_def split: if_splits)

lemma linearTickRange_eq:
  assumes "hd domain \<noteq> last domain" "d3_scaleExtent domain = (lo, hi)"
  shows "d3_scale_linearTickRange domain (Some m) =
    (let step = tick_step (hi - lo) m
     in (Some (of_int \<lceil>lo / step\<rceil> * step, of_int \<lfloor>hi / step\<rfloor> * step + step * (1 / 2)), step))"
  using scaleExtent_lt [OF assms] assms(2) by (simp add: d3_scale_linearTickRange_def tick_count_def)

lemma linearTicks_eq:
  assumes "hd domain \<noteq> last domain" "0 < m" "d3_scaleExtent domain = (lo, hi)" "step = tick_step (hi - lo) m"
  shows "d3_scale_linearTicks domain (Some m) =
    Some (Inr (map (\<lambda>i. of_int i * step) [\<lceil>lo / step\<rceil>..\<lfloor>hi / step\<rfloor>]))"
proof -
  have lt: "0 < hi - lo" using scaleExtent_lt [OF assms(1,3)] by simp
  have pos: "0 < step" using tick_step_spec(1) [OF lt assms(2)] assms(4) by simp
  obtain p where p: "step * 10 ^ p \<in> \<int>" using tick_step_decimal [OF lt assms(2)] assms(4) by blast
  show ?thesis
    using d3_range_exact [OF p] pos
    by (simp add: d3_scale_linearTicks_def linearTickRange_eq [OF assms(1,3)] assms(4) [symmetric] Let_def
        tick_range_count map_upt_int)
qed

text \<open>
  (C36) Ticks of a linear scale.  For a domain with distinct ends and a positive count \<open>m\<close>, the
  ticks are exactly the multiples of the step that lie in the domain, in ascending order; the
  step is 1, 2 or 5 times a power of ten, and the domain holds between \<open>4 m / 7\<close> and
  \<open>10 m / 7\<close> steps.
\<close>

theorem linear_ticks_multiples:
  assumes "domain \<noteq> []" "hd domain \<noteq> last domain" "0 < m" "d3_scaleExtent domain = (lo, hi)"
  shows "\<exists>step ts. d3_scale_linearTicks domain (Some m) = Some (Inr ts) \<and> sorted_wrt (<) ts \<and>
    set ts = {t. lo \<le> t \<and> t \<le> hi \<and> (\<exists>i :: int. t = of_int i * step)} \<and>
    (\<exists>k :: int. \<exists>c \<in> {1, 2, 5}. step = c * 10 powi k) \<and>
    4 * m / 7 \<le> (hi - lo) / step \<and> (hi - lo) / step < 10 * m / 7"
proof -
  define step where "step = tick_step (hi - lo) m"
  have lt: "0 < hi - lo" using scaleExtent_lt [OF assms(2,4)] by simp
  note ts = tick_step_spec [OF lt assms(3), folded step_def]
  define l where "l = map (\<lambda>i. of_int i * step) [\<lceil>lo / step\<rceil>..\<lfloor>hi / step\<rfloor>]"
  have "d3_scale_linearTicks domain (Some m) = Some (Inr l)"
    using linearTicks_eq [OF assms(2,3,4) step_def] by (simp add: l_def)
  moreover have "sorted_wrt (<) l"
    unfolding l_def sorted_wrt_map
    by (rule sorted_wrt_mono_rel [OF _ sorted_wrt_upto]) (simp add: ts(1))
  moreover have "set l = {t. lo \<le> t \<and> t \<le> hi \<and> (\<exists>i :: int. t = of_int i * step)}"
    using ts(1) by (auto simp: l_def ceiling_le_iff le_floor_iff field_simps)
  ultimately show ?thesis using ts by blast
qed

theorem linear_ticks_multiples_witness:
  "\<exists>step ts. d3_scale_linearTicks [3, 1, 98] (Some 10) = Some (Inr ts) \<and> sorted_wrt (<) ts \<and>
    set ts = {t. 3 \<le> t \<and> t \<le> 98 \<and> (\<exists>i :: int. t = of_int i * step)} \<and> 40 / 7 \<le> 95 / step"
proof -
  have "d3_scaleExtent [3, 1, 98] = (3, 98)" by (simp add: d3_scaleExtent_def)
  from linear_ticks_multiples [OF _ _ _ this, of 10] show ?thesis by auto
qed

section \<open>Nice domains\<close>

lemma niceStep_bounds:
  assumes "0 < step"
  shows "nice_floor (d3_scale_niceStep step) x \<le> x" "x - step < nice_floor (d3_scale_niceStep step) x"
    "x \<le> nice_ceil (d3_scale_niceStep step) x" "nice_ceil (d3_scale_niceStep step) x < x + step"
  using floor_divide_lower [OF assms, of x] floor_divide_upper [OF assms, of x]
    ceiling_divide_upper [OF assms, of x] ceiling_divide_lower [OF assms, of x] assms
  by (simp_all add: d3_scale_niceStep_def algebra_simps)

text \<open>
  Nice domains.  Making a domain with distinct ends nice keeps its length, its direction
  and its interior; each end moves outwards, by less than one tick step.
\<close>

theorem linear_nice_encloses:
  assumes "domain \<noteq> []" "hd domain \<noteq> last domain" "0 < m" "d3_scaleExtent domain = (lo, hi)"
    and "d3_scaleExtent (d3_scale_linearNice domain (Some m)) = (lo', hi')"
  shows "lo' \<le> lo \<and> lo - lo' < tick_step (hi - lo) m \<and> hi \<le> hi' \<and> hi' - hi < tick_step (hi - lo) m \<and>
    length (d3_scale_linearNice domain (Some m)) = length domain \<and>
    (hd domain < last domain \<longleftrightarrow>
       hd (d3_scale_linearNice domain (Some m)) < last (d3_scale_linearNice domain (Some m))) \<and>
    (\<forall>i. 0 < i \<and> i < length domain - 1 \<longrightarrow> d3_scale_linearNice domain (Some m) ! i = domain ! i)"
proof -
  define step where "step = tick_step (hi - lo) m"
  define N where "N = d3_scale_niceStep step"
  define nd where "nd = d3_scale_linearNice domain (Some m)"
  have lt: "lo < hi" using scaleExtent_lt [OF assms(2,4)] .
  have pos: "0 < step" using tick_step_spec(1) [of "hi - lo" m] lt assms(3) by (simp add: step_def)
  note nb = niceStep_bounds [OF pos, folded N_def]
  note ne = assms(1)
  have len: "1 < length domain" using assms(1,2) by (cases domain; cases "tl domain") auto
  have ends: "hd domain = domain ! 0" "last domain = domain ! (length domain - 1)"
    using ne by (simp_all add: hd_conv_nth last_conv_nth)
  have nd: "nd = d3_scale_nice domain N"
    using linearTickRange_eq [OF assms(2,4)] by (simp add: nd_def d3_scale_linearNice_def N_def step_def Let_def)
  have nd_ends: "hd nd = nd ! 0" "last nd = nd ! (length domain - 1)" "length nd = length domain"
  proof -
    show l: "length nd = length domain" by (simp add: nd d3_scale_nice_def Let_def)
    then have "nd \<noteq> []" using ne by auto
    then show "hd nd = nd ! 0" "last nd = nd ! (length domain - 1)" using l by (simp_all add: hd_conv_nth last_conv_nth)
  qed
  show ?thesis
  proof (cases "domain ! (length domain - 1) < domain ! 0")
    case True
    then have e: "lo = domain ! (length domain - 1)" "hi = domain ! 0"
      using assms(4) ends by (auto simp: d3_scaleExtent_def Let_def)
    have v: "nd ! 0 = nice_ceil N hi" "nd ! (length domain - 1) = nice_floor N lo"
      "\<forall>i. 0 < i \<and> i < length domain - 1 \<longrightarrow> nd ! i = domain ! i"
      using True len e ne by (auto simp: nd d3_scale_nice_def Let_def nth_list_update)
    then have "nd ! (length domain - 1) < nd ! 0" using nb [of lo] nb [of hi] lt by linarith
    then have "lo' = nice_floor N lo" "hi' = nice_ceil N hi"
      using assms(5) v by (auto simp: nd_def [symmetric] d3_scaleExtent_def Let_def nd_ends)
    then show ?thesis
      using nb [of lo] nb [of hi] v True ends nd_ends e lt unfolding nd_def [symmetric] step_def [symmetric] by auto
  next
    case False
    then have e: "lo = domain ! 0" "hi = domain ! (length domain - 1)"
      using assms(2,4) ends by (auto simp: d3_scaleExtent_def Let_def)
    have v: "nd ! 0 = nice_floor N lo" "nd ! (length domain - 1) = nice_ceil N hi"
      "\<forall>i. 0 < i \<and> i < length domain - 1 \<longrightarrow> nd ! i = domain ! i"
      using False len e ne by (auto simp: nd d3_scale_nice_def Let_def nth_list_update)
    then have "nd ! 0 < nd ! (length domain - 1)" using nb [of lo] nb [of hi] lt by linarith
    then have "lo' = nice_floor N lo" "hi' = nice_ceil N hi"
      using assms(5) v by (auto simp: nd_def [symmetric] d3_scaleExtent_def Let_def nd_ends)
    then show ?thesis
      using nb [of lo] nb [of hi] v False ends nd_ends e lt unfolding nd_def [symmetric] step_def [symmetric] by auto
  qed
qed

theorem linear_nice_encloses_witness:
  "\<exists>lo' hi'. d3_scaleExtent (d3_scale_linearNice [97 / 10, 5, 1 / 10] (Some 10)) = (lo', hi') \<and> lo' \<le> 1 / 10 \<and> 97 / 10 \<le> hi'"
proof -
  obtain lo' hi' where e: "d3_scaleExtent (d3_scale_linearNice [97 / 10, 5, 1 / 10] (Some 10)) = (lo', hi')"
    by (metis prod.exhaust)
  have "d3_scaleExtent [97 / 10, 5, 1 / 10] = (1 / 10, 97 / 10)" by (simp add: d3_scaleExtent_def)
  from linear_nice_encloses [OF _ _ _ this e] show ?thesis using e by simp
qed

end
