(* ===== verification/D3_Linear.thy ===== *)
theory D3_Linear
  imports D3_Scale
begin

text \<open>
  The linear scale and its inverse: on every segment the piecewise scale is the affine map between
  the neighbouring domain and range values, inverting undoes scaling, and the store shows which
  operations of a copy can be observed through the original.
\<close>

section \<open>Segments\<close>

definition lerp :: "real list \<Rightarrow> real list \<Rightarrow> nat \<Rightarrow> real \<Rightarrow> real" where
  "lerp D R j x = R ! j + (R ! Suc j - R ! j) * ((x - D ! j) / (D ! Suc j - D ! j))"

text \<open>
  The point \<open>(x, y)\<close> lies on the affine piece over segment \<open>j\<close>; the first and the last piece
  extend beyond the ends of the domain.
\<close>

definition segment :: "real list \<Rightarrow> real list \<Rightarrow> real \<Rightarrow> real \<Rightarrow> bool" where
  "segment D R x y \<longleftrightarrow> (\<exists>j. Suc j < length D \<and> (0 < j \<longrightarrow> D ! j \<le> x) \<and>
     (Suc (Suc j) < length D \<longrightarrow> x \<le> D ! Suc j) \<and> y = lerp D R j x)"

lemma sorted_wrt_Suc:
  "sorted_wrt (<) D \<Longrightarrow> Suc j < length D \<Longrightarrow> D ! j < (D ! Suc j :: real)"
  "sorted_wrt (>) D \<Longrightarrow> Suc j < length D \<Longrightarrow> D ! j > (D ! Suc j :: real)"
  by (auto simp: sorted_wrt_iff_nth_less)

lemma lerp_left [simp]: "lerp D R j (D ! j) = R ! j"
  by (simp add: lerp_def)

lemma lerp_right: "D ! j \<noteq> D ! Suc j \<Longrightarrow> lerp D R j (D ! Suc j) = R ! Suc j"
  by (simp add: lerp_def)

lemma segment_functional:
  assumes "sorted_wrt (<) D" "segment D R x y" "segment D R x y'"
  shows "y = y'"
proof -
  have meet: "lerp D R i x = lerp D R j x"
    if "Suc j < length D" "Suc i < length D" "i < j" "0 < j \<longrightarrow> D ! j \<le> x"
      "Suc (Suc i) < length D \<longrightarrow> x \<le> D ! Suc i" for i j
  proof -
    have "Suc i = j"
    proof (rule ccontr)
      assume "Suc i \<noteq> j"
      then have "D ! Suc i < D ! j" using assms(1) that by (auto simp: sorted_wrt_iff_nth_less)
      then show False using that by auto
    qed
    then have "x = D ! Suc i" "D ! i \<noteq> D ! Suc i" "j = Suc i"
      using that sorted_wrt_Suc(1) [OF assms(1), of i] by auto
    then show ?thesis by (simp add: lerp_right)
  qed
  obtain i j where "Suc j < length D" "Suc i < length D" "0 < j \<longrightarrow> D ! j \<le> x" "0 < i \<longrightarrow> D ! i \<le> x"
    "Suc (Suc i) < length D \<longrightarrow> x \<le> D ! Suc i" "Suc (Suc j) < length D \<longrightarrow> x \<le> D ! Suc j"
    "y = lerp D R i x" "y' = lerp D R j x"
    using assms(2,3) by (auto simp: segment_def)
  then show ?thesis using meet [of i j] meet [of j i] by (cases i j rule: linorder_cases) auto
qed

lemma affine_inverse:
  assumes "d \<noteq> 0" "r \<noteq> 0" "y = r0 + r * ((x - d0) / d)"
  shows "x = d0 + d * ((y - r0) / r :: real)"
  using assms by simp

lemma affine_bounds:
  assumes "0 < d" "y = r0 + r * ((x - d0) / d :: real)"
  shows "0 < r \<Longrightarrow> d0 \<le> x \<Longrightarrow> r0 \<le> y" "0 < r \<Longrightarrow> x \<le> d0 + d \<Longrightarrow> y \<le> r0 + r"
    "r < 0 \<Longrightarrow> d0 \<le> x \<Longrightarrow> y \<le> r0" "r < 0 \<Longrightarrow> x \<le> d0 + d \<Longrightarrow> r0 + r \<le> y"
proof -
  define q where "q = (x - d0) / d"
  have q: "d0 \<le> x \<Longrightarrow> 0 \<le> q" "x \<le> d0 + d \<Longrightarrow> q \<le> 1" using assms(1) by (simp_all add: q_def)
  have y: "y = r0 + r * q" using assms(2) by (simp add: q_def)
  show "0 < r \<Longrightarrow> d0 \<le> x \<Longrightarrow> r0 \<le> y" "r < 0 \<Longrightarrow> d0 \<le> x \<Longrightarrow> y \<le> r0"
    using q(1) by (simp_all add: y mult_nonpos_nonneg)
  show "0 < r \<Longrightarrow> x \<le> d0 + d \<Longrightarrow> y \<le> r0 + r" using q(2) by (simp add: y)
  show "r < 0 \<Longrightarrow> x \<le> d0 + d \<Longrightarrow> r0 + r \<le> y" using q(2) by (simp add: y mult_le_cancel_left1 not_less)
qed

lemma segment_inverse_up:
  assumes "sorted_wrt (<) D" "sorted_wrt (<) R" "length D = length R" "segment D R x y"
  shows "segment R D y x"
proof -
  obtain j where j: "Suc j < length D" "0 < j \<longrightarrow> D ! j \<le> x" "Suc (Suc j) < length D \<longrightarrow> x \<le> D ! Suc j"
    "y = lerp D R j x" using assms(4) unfolding segment_def by blast
  define d r where "d = D ! Suc j - D ! j" and "r = R ! Suc j - R ! j"
  have pos: "0 < d" "0 < r"
    using sorted_wrt_Suc(1) [OF assms(1) j(1)] sorted_wrt_Suc(1) [OF assms(2)] assms(3) j(1) by (simp_all add: d_def r_def)
  have y: "y = R ! j + r * ((x - D ! j) / d)" using j(4) by (simp add: lerp_def d_def r_def)
  have "x = D ! j + d * ((y - R ! j) / r)" by (rule affine_inverse [OF _ _ y]) (use pos in auto)
  then have x: "x = lerp R D j y" unfolding lerp_def d_def r_def .
  have "R ! j \<le> y" if "D ! j \<le> x" using affine_bounds(1) [OF pos(1) y pos(2) that] .
  moreover have "y \<le> R ! Suc j" if "x \<le> D ! Suc j"
    using affine_bounds(2) [OF pos(1) y pos(2)] that by (simp add: d_def r_def)
  ultimately have "0 < j \<longrightarrow> R ! j \<le> y" "Suc (Suc j) < length R \<longrightarrow> y \<le> R ! Suc j" "Suc j < length R"
    using j(1-3) assms(3) by auto
  then show ?thesis unfolding segment_def using x by blast
qed

lemma segment_inverse_down:
  assumes "sorted_wrt (<) D" "sorted_wrt (>) R" "length D = length R" "segment D R x y"
  shows "segment (rev R) (rev D) y x"
proof -
  obtain j where j: "Suc j < length D" "0 < j \<longrightarrow> D ! j \<le> x" "Suc (Suc j) < length D \<longrightarrow> x \<le> D ! Suc j"
    "y = lerp D R j x" using assms(4) unfolding segment_def by blast
  define d r where "d = D ! Suc j - D ! j" and "r = R ! Suc j - R ! j"
  have pos: "0 < d" "r < 0"
    using sorted_wrt_Suc(1) [OF assms(1) j(1)] sorted_wrt_Suc(2) [OF assms(2)] assms(3) j(1) by (simp_all add: d_def r_def)
  have y: "y = R ! j + r * ((x - D ! j) / d)" using j(4) by (simp add: lerp_def d_def r_def)
  define i where "i = length D - 2 - j"
  have i: "Suc i < length D" "rev D ! i = D ! Suc j" "rev D ! Suc i = D ! j"
    "rev R ! i = R ! Suc j" "rev R ! Suc i = R ! j"
    using j(1) assms(3) by (auto simp: i_def rev_nth Suc_diff_Suc)
  have "x = D ! j + d * ((y - R ! j) / r)" by (rule affine_inverse [OF _ _ y]) (use pos in auto)
  also have "(y - R ! j) / r = (y - R ! Suc j) / r + 1" using pos by (simp add: r_def field_simps)
  also have "D ! j + d * ((y - R ! Suc j) / r + 1) = (D ! j + d) + - d * ((y - R ! Suc j) / - r)"
    by (simp add: distrib_left)
  finally have x: "x = lerp (rev R) (rev D) i y" unfolding lerp_def i d_def r_def by simp
  have "y \<le> R ! j" if "D ! j \<le> x" using affine_bounds(3) [OF pos(1) y pos(2) that] .
  moreover have "R ! Suc j \<le> y" if "x \<le> D ! Suc j"
    using affine_bounds(4) [OF pos(1) y pos(2)] that by (simp add: d_def r_def)
  moreover have "0 < i \<longleftrightarrow> Suc (Suc j) < length D" "Suc (Suc i) < length D \<longleftrightarrow> 0 < j" using j(1) by (auto simp: i_def)
  ultimately have "0 < i \<longrightarrow> rev R ! i \<le> y" "Suc (Suc i) < length (rev R) \<longrightarrow> y \<le> rev R ! Suc i"
    "Suc i < length (rev R)" using j(1-3) i assms(3) by auto
  then show ?thesis unfolding segment_def using x by blast
qed

section \<open>The scale follows the segments\<close>

lemma interpolate_lerp:
  "D ! j \<noteq> D ! Suc j \<Longrightarrow>
     d3_interpolateNumber (R ! j) (R ! Suc j) (d3_uninterpolateNumber (D ! j) (D ! Suc j) x) = lerp D R j x"
  by (simp add: d3_interpolateNumber_def d3_uninterpolateNumber_def uninterpolate_scale_def lerp_def)

lemma polylinear_pieces:
  assumes "sorted_wrt (<) D" "length D = length R" "3 \<le> length D" "length D \<le> 2 ^ 31" "k = length D - 1"
  shows "\<exists>b. bisect_right (\<lambda>d i. js_val d) (map (\<lambda>d. JNum (Fin d)) D) (JNum (Fin x)) 1 k = Some b \<and> 1 \<le> b \<and> b \<le> k \<and>
      segment D R x (d3_interpolateNumber (R ! (b - 1)) (R ! b) (d3_uninterpolateNumber (D ! (b - 1)) (D ! b) x))"
proof -
  have le: "D ! i \<le> D ! j" if "i \<le> j" "j < length D" for i j
    using sorted_wrt_nth_less [OF assms(1), of i j] that by (cases "i = j") simp_all
  have test: "js_lt (JNum (Fin x)) (js_val (js_get (map (\<lambda>d. JNum (Fin d)) D) i)) \<longleftrightarrow> x < D ! i" if "i < length D" for i
    using that by simp
  have "\<forall>i j. 1 \<le> i \<and> i \<le> j \<and> j < k \<and> \<not> js_lt (JNum (Fin x)) (js_val (js_get (map (\<lambda>d. JNum (Fin d)) D) j)) \<longrightarrow>
      \<not> js_lt (JNum (Fin x)) (js_val (js_get (map (\<lambda>d. JNum (Fin d)) D) i))"
  proof (intro allI impI)
    fix i j
    assume a: "1 \<le> i \<and> i \<le> j \<and> j < k \<and> \<not> js_lt (JNum (Fin x)) (js_val (js_get (map (\<lambda>d. JNum (Fin d)) D) j))"
    then show "\<not> js_lt (JNum (Fin x)) (js_val (js_get (map (\<lambda>d. JNum (Fin d)) D) i))"
      using test [of i] test [of j] le [of i j] assms(5) by linarith
  qed
  note mono = this
  have k: "1 \<le> k" "k \<le> 2 ^ 31" using assms(3-5) by auto
  obtain b where b: "bisect_right (\<lambda>d i. js_val d) (map (\<lambda>d. JNum (Fin d)) D) (JNum (Fin x)) 1 k = Some b"
    "1 \<le> b" "b \<le> k" "\<forall>i. 1 \<le> i \<and> i < b \<longrightarrow> \<not> js_lt (JNum (Fin x)) (js_val (js_get (map (\<lambda>d. JNum (Fin d)) D) i))"
    "\<forall>i. b \<le> i \<and> i < k \<longrightarrow> \<not> \<not> js_lt (JNum (Fin x)) (js_val (js_get (map (\<lambda>d. JNum (Fin d)) D) i))"
    using right_search.search_correct [where f = "\<lambda>d i. js_val d", OF k mono] by (elim exE conjE)
  define j where "j = b - 1"
  have j: "b = Suc j" "Suc j < length D" using b assms(3,5) by (auto simp: j_def)
  have "D ! j \<le> x" if "0 < j" using b(4) test [of j] that j by (simp add: not_less)
  moreover have "x \<le> D ! Suc j" if "Suc (Suc j) < length D"
  proof -
    have "\<not> \<not> js_lt (JNum (Fin x)) (js_val (js_get (map (\<lambda>d. JNum (Fin d)) D) b))" using b(5) that j assms(5) by auto
    then show ?thesis using test [of b] j by simp
  qed
  ultimately have "segment D R x (lerp D R j x)" unfolding segment_def using j(2) by (intro exI [of _ j]) simp
  then have "segment D R x (d3_interpolateNumber (R ! (b - 1)) (R ! b) (d3_uninterpolateNumber (D ! (b - 1)) (D ! b) x))"
    using j interpolate_lerp [of D j R x] sorted_wrt_Suc(1) [OF assms(1) j(2)] by simp
  then show ?thesis using b(1-3) by blast
qed

lemma sorted_wrt_ends:
  assumes "2 \<le> length D"
  shows "sorted_wrt (<) D \<Longrightarrow> D ! 0 < (D ! (length D - 1) :: real)"
    "sorted_wrt (>) D \<Longrightarrow> D ! (length D - 1) < (D ! 0 :: real)"
  using assms by (auto simp: sorted_wrt_iff_nth_less)

lemma polylinear_segment:
  assumes "length D = length R" "3 \<le> length D" "length D \<le> 2 ^ 31"
    and "sorted_wrt (<) D \<and> E = D \<and> Q = R \<or> sorted_wrt (>) D \<and> E = rev D \<and> Q = rev R"
  shows "\<exists>y. d3_scale_polylinear D R d3_uninterpolateNumber d3_interpolateNumber x = Some y \<and> segment E Q x y"
proof -
  define k where "k = length D - 1"
  have k: "min (length D) (length R) - 1 = k" using assms(1) by (simp add: k_def)
  have up: "sorted_wrt (<) E" using assms(4) by (auto simp: sorted_wrt_rev)
  have len: "length E = length Q" "3 \<le> length E" "length E \<le> 2 ^ 31" "k = length E - 1" using assms by (auto simp: k_def)
  have EQ: "(if D ! k < D ! 0 then rev D else D) = E" "(if D ! k < D ! 0 then rev R else R) = Q"
    using assms(2,4) sorted_wrt_ends [of D] by (auto simp: k_def)
  obtain b where b: "bisect_right (\<lambda>d i. js_val d) (map (\<lambda>d. JNum (Fin d)) E) (JNum (Fin x)) 1 k = Some b" "1 \<le> b" "b \<le> k"
    "segment E Q x (d3_interpolateNumber (Q ! (b - 1)) (Q ! b) (d3_uninterpolateNumber (E ! (b - 1)) (E ! b) x))"
    using polylinear_pieces [OF up len] by blast
  then show ?thesis
    unfolding d3_scale_polylinear_def Let_def k EQ by (simp del: upt_Suc)
qed

lemma linear_map_segment:
  assumes "length D = length R" "2 \<le> length D" "length D \<le> 2 ^ 31"
    and "sorted_wrt (<) D \<and> E = D \<and> Q = R \<or> sorted_wrt (>) D \<and> E = rev D \<and> Q = rev R"
  shows "\<exists>y. linear_map D R False d3_interpolateNumber x = Some y \<and> segment E Q x y"
proof (cases "3 \<le> length D")
  case True
  then show ?thesis using polylinear_segment [OF assms(1) True assms(3,4)] assms(1) by (simp add: linear_map_def)
next
  case False
  then have two: "length D = 2" "length R = 2" using assms(1,2) by simp_all
  obtain d0 d1 where D: "D = [d0, d1]" using two(1) by (auto simp: numeral_2_eq_2 length_Suc_conv)
  obtain r0 r1 where R: "R = [r0, r1]" using two(2) by (auto simp: numeral_2_eq_2 length_Suc_conv)
  note DR = D R
  have ne: "d0 \<noteq> d1" using assms(4) DR by auto
  have "linear_map D R False d3_interpolateNumber x = Some (lerp D R 0 x)"
    using interpolate_lerp [of D 0 R x] ne by (simp add: DR linear_map_def d3_scale_bilinear_def)
  moreover have "lerp D R 0 x = lerp (rev D) (rev R) 0 x" using ne by (simp add: DR lerp_def field_simps)
  moreover have "segment E Q x (lerp E Q 0 x)" unfolding segment_def using assms(4) by (intro exI [of _ 0]) (auto simp: DR)
  ultimately show ?thesis using assms(4) by auto
qed

text \<open>
  Inverting a linear scale.  When domain and range have the same length, at least two, and
  each is strictly ascending or strictly descending, the unclamped scale with number interpolation
  is defined at every \<open>x\<close> and \<open>invert\<close> takes its value back to \<open>x\<close>, whatever the number of
  segments and the directions of domain and range.
\<close>

theorem linear_invert_roundtrip:
  assumes "length (h ! a) = length rng" "2 \<le> length rng" "length rng \<le> 2 ^ 31"
    and "sorted_wrt (<) (h ! a) \<or> sorted_wrt (>) (h ! a)" "sorted_wrt (<) rng \<or> sorted_wrt (>) rng"
  shows "\<exists>y. linear_scale (d3_scale_linear h a rng d3_interpolateNumber False) x = Some y \<and>
    linear_invert (d3_scale_linear h a rng d3_interpolateNumber False) y = Some x"
proof -
  define D where "D = h ! a"
  have len: "length D = length rng" "2 \<le> length D" "length D \<le> 2 ^ 31" using assms by (simp_all add: D_def)
  obtain E Q where EQ: "sorted_wrt (<) D \<and> E = D \<and> Q = rng \<or> sorted_wrt (>) D \<and> E = rev D \<and> Q = rev rng"
    using assms(4) by (auto simp: D_def)
  obtain F P where FP: "sorted_wrt (<) rng \<and> F = rng \<and> P = D \<or> sorted_wrt (>) rng \<and> F = rev rng \<and> P = rev D"
    using assms(5) by auto
  obtain y where y: "linear_map D rng False d3_interpolateNumber x = Some y" "segment E Q x y"
    using linear_map_segment [OF len EQ] by blast
  obtain x' where x': "linear_map rng D False d3_interpolateNumber y = Some x'" "segment F P y x'"
    using linear_map_segment [of rng D F P y] len FP by auto
  have "segment F P y x"
    using segment_inverse_up [of E Q x y] segment_inverse_down [of E Q x y] y(2) EQ FP len
    by (auto simp: sorted_wrt_rev)
  then have "x' = x" using segment_functional [of F P y x' x] x'(2) FP by (auto simp: sorted_wrt_rev)
  then show ?thesis using y(1) x'(1)
    by (simp add: linear_scale_def linear_invert_def d3_scale_linear_def rescale_def D_def)
qed

theorem linear_invert_roundtrip_witness:
  "\<exists>y. linear_scale (d3_scale_linear [[0, 1, 5]] 0 [10, 4, 2] d3_interpolateNumber False) 3 = Some y \<and>
    linear_invert (d3_scale_linear [[0, 1, 5]] 0 [10, 4, 2] d3_interpolateNumber False) y = Some 3"
  using linear_invert_roundtrip [of "[[0, 1, 5]]" 0 "[10, 4, 2]" 3] by simp

section \<open>Copies share the domain array\<close>

text \<open>
  A copy and its original share the domain array.  Setting a new domain on the copy leaves the
  original's domain alone, but \<open>nice\<close> on the copy rewrites the array that the original reports as
  its domain, while the original keeps the mapping it computed from the old domain.
\<close>

theorem linear_copy_nice_leaks:
  assumes "l_domain s < length h" "(h1, c1) = linear_domain h (linear_copy h s) d" "(h2, c2) = linear_nice h (linear_copy h s) m"
  shows "linear_get_domain h1 s = linear_get_domain h s \<and> linear_get_domain h1 c1 = d \<and>
    linear_get_domain h2 s = d3_scale_linearNice (linear_get_domain h s) m \<and>
    linear_get_domain h2 c2 = linear_get_domain h2 s \<and>
    linear_scale c2 = linear_map (linear_get_domain h2 s) (l_range s) (l_clamp s) (l_interpolate s)"
  using assms
  by (auto simp: linear_domain_def linear_nice_def linear_copy_def linear_get_domain_def alloc_def d3_scale_linear_def
      rescale_def linear_scale_def Let_def nth_append)

lemma tick_step_96: "tick_step (96 / 10) 10 = 1"
proof -
  have "ln (96 / 100 :: real) < 0" "ln (1 / 10 :: real) \<le> ln (96 / 100)" by simp_all
  moreover have "ln (1 / 10 :: real) = - ln 10" by (simp add: ln_div)
  ultimately have "\<lfloor>ln (96 / 100 :: real) / ln 10\<rfloor> = - 1" by (simp add: floor_eq_iff field_simps)
  then show ?thesis by (simp add: tick_step_def)
qed

theorem linear_copy_nice_leaks_witness:
  "let s = d3_scale_linear [[1 / 10, 97 / 10]] 0 [0, 1] d3_interpolateNumber False;
       (h2, c2) = linear_nice [[1 / 10, 97 / 10]] (linear_copy [[1 / 10, 97 / 10]] s) None
   in linear_get_domain [[1 / 10, 97 / 10]] s = [1 / 10, 97 / 10] \<and> linear_get_domain h2 s = [0, 10] \<and>
      linear_scale s (1 / 10) = Some 0"
proof -
  define h :: store where "h = [[1 / 10, 97 / 10]]"
  define s where "s = d3_scale_linear h 0 [0, 1] d3_interpolateNumber False"
  obtain h1 c1 where 1: "(h1, c1) = linear_domain h (linear_copy h s) []" by (metis prod.exhaust)
  obtain h2 c2 where 2: "(h2, c2) = linear_nice h (linear_copy h s) None" by (metis prod.exhaust)
  have dom: "linear_get_domain h s = [1 / 10, 97 / 10]"
    by (simp add: h_def s_def linear_get_domain_def d3_scale_linear_def rescale_def)
  have "d3_scale_linearNice [1 / 10, 97 / 10] None = [0, 10]"
    using tick_step_96 by (simp add: d3_scale_linearNice_def d3_scale_linearTickRange_def tick_count_def d3_scaleExtent_def
        d3_scale_nice_def d3_scale_niceStep_def ceiling_eq_iff)
  then have "linear_get_domain h2 s = [0, 10]"
    using linear_copy_nice_leaks [OF _ 1 2] dom by (simp add: h_def s_def d3_scale_linear_def rescale_def)
  moreover have "linear_scale s (1 / 10) = Some 0"
    by (simp add: s_def h_def linear_scale_def d3_scale_linear_def rescale_def linear_map_def d3_scale_bilinear_def
        d3_interpolateNumber_def d3_uninterpolateNumber_def)
  ultimately show ?thesis using dom 2 unfolding h_def [symmetric] s_def [symmetric] by (auto simp: Let_def split: prod.splits)
qed

end
