(* ===== verification/D3_Discrete.thy ===== *)
theory D3_Discrete
  imports D3_Scale
begin

text \<open>
  Scales with a discrete range or domain (\<open>d3.js\<close> lines 7604 to 7799): the ordinal scale with its
  implicit domain and the three ways of spacing its range, the colour categories, and the
  quantile, quantize and threshold scales.

  Domain values of an ordinal scale are strings, which is what its index uses as keys.  Values
  of a discrete range are JavaScript values; \<open>None\<close> is \<open>undefined\<close>.
\<close>

section \<open>Ordinal scales\<close>

text \<open>How the range was set last, with the arguments: \<open>ranger.t\<close> and \<open>ranger.a\<close>.\<close>

datatype ranger =
  Range "jsval list"
| RangePoints "real \<times> real" "real list"
| RangeBands "real \<times> real" "real list"
| RangeRoundBands "real \<times> real" "real list"

record ordinal =
  o_domain :: "string list"
  o_index :: "nat obj"
  o_range :: "jsval list"
  o_rangeBand :: jsnum
  o_ranger :: ranger

definition ordinal_steps :: "nat \<Rightarrow> jsnum \<Rightarrow> jsnum \<Rightarrow> jsval list" where
  "ordinal_steps n start step = (case d3_range 0 (real n) 1 of
     Some (Inr ks) \<Rightarrow> map (\<lambda>i. JNum (js_add start (js_mul step (Fin i)))) ks
   | _ \<Rightarrow> [])"

definition ordinal_range :: "ordinal \<Rightarrow> jsval list \<Rightarrow> ordinal" where
  "ordinal_range s x = s\<lparr>o_range := x, o_rangeBand := Fin 0, o_ranger := Range x\<rparr>"

definition arg_or :: "real list \<Rightarrow> nat \<Rightarrow> real \<Rightarrow> real" where
  "arg_or args i d = (if i < length args then args ! i else d)"

definition ordinal_rangePoints :: "ordinal \<Rightarrow> real \<times> real \<Rightarrow> real list \<Rightarrow> ordinal" where
  "ordinal_rangePoints s x args =
     (let padding = arg_or args 0 0; n = length (o_domain s); (start, stop) = x;
          step = js_div (Fin (stop - start)) (Fin (max 1 (real n - 1) + padding))
      in s\<lparr>o_range := ordinal_steps n
             (if n < 2 then Fin ((start + stop) / 2)
              else js_add (Fin start) (js_div (js_mul step (Fin padding)) (Fin 2))) step,
           o_rangeBand := Fin 0, o_ranger := RangePoints x args\<rparr>)"

definition ordinal_rangeBands :: "ordinal \<Rightarrow> real \<times> real \<Rightarrow> real list \<Rightarrow> ordinal" where
  "ordinal_rangeBands s x args =
     (let padding = arg_or args 0 0; outerPadding = arg_or args 1 padding; n = length (o_domain s);
          flip = (snd x < fst x); start = (if flip then snd x else fst x); stop = (if flip then fst x else snd x);
          step = js_div (Fin (stop - start)) (Fin (real n - padding + 2 * outerPadding));
          r = ordinal_steps n (js_add (Fin start) (js_mul step (Fin outerPadding))) step
      in s\<lparr>o_range := (if flip then rev r else r),
           o_rangeBand := js_mul step (Fin (1 - padding)), o_ranger := RangeBands x args\<rparr>)"

definition ordinal_rangeRoundBands :: "ordinal \<Rightarrow> real \<times> real \<Rightarrow> real list \<Rightarrow> ordinal" where
  "ordinal_rangeRoundBands s x args =
     (let padding = arg_or args 0 0; outerPadding = arg_or args 1 padding; n = length (o_domain s);
          flip = (snd x < fst x); start = (if flip then snd x else fst x); stop = (if flip then fst x else snd x);
          step = js_floorn (js_div (Fin (stop - start)) (Fin (real n - padding + 2 * outerPadding)));
          err = js_sub (Fin (stop - start)) (js_mul (Fin (real n - padding)) step);
          r = ordinal_steps n (js_add (Fin start) (js_roundn (js_div err (Fin 2)))) step
      in s\<lparr>o_range := (if flip then rev r else r),
           o_rangeBand := js_roundn (js_mul step (Fin (1 - padding))), o_ranger := RangeRoundBands x args\<rparr>)"

definition apply_ranger :: "ordinal \<Rightarrow> ordinal" where
  "apply_ranger s = (case o_ranger s of
     Range x \<Rightarrow> ordinal_range s x
   | RangePoints x args \<Rightarrow> ordinal_rangePoints s x args
   | RangeBands x args \<Rightarrow> ordinal_rangeBands s x args
   | RangeRoundBands x args \<Rightarrow> ordinal_rangeRoundBands s x args)"

fun index_loop :: "string list \<Rightarrow> string list \<Rightarrow> nat obj \<Rightarrow> string list \<times> nat obj" where
  "index_loop [] domain index = (domain, index)"
| "index_loop (xi # x) domain index =
     (if d3_map_has index xi then index_loop x domain index
      else index_loop x (domain @ [xi]) (d3_map_set index xi (length domain + 1)))"

definition ordinal_set_domain :: "ordinal \<Rightarrow> string list \<Rightarrow> ordinal" where
  "ordinal_set_domain s x =
     (let (domain, index) = index_loop x [] [] in apply_ranger (s\<lparr>o_domain := domain, o_index := index\<rparr>))"

definition d3_scale_ordinal :: "string list \<Rightarrow> ranger \<Rightarrow> ordinal" where
  "d3_scale_ordinal domain ranger =
     ordinal_set_domain \<lparr>o_domain = domain, o_index = [], o_range = [], o_rangeBand = Fin 0, o_ranger = ranger\<rparr> domain"

definition scale_ordinal :: ordinal where
  "scale_ordinal = d3_scale_ordinal [] (Range [])"

definition is_range :: "ranger \<Rightarrow> bool" where
  "is_range r = (case r of Range _ \<Rightarrow> True | _ \<Rightarrow> False)"

text \<open>Looking a value up: an unknown value joins the domain when the range is explicit.\<close>

definition ordinal_apply :: "ordinal \<Rightarrow> string \<Rightarrow> ordinal \<times> jsval option" where
  "ordinal_apply s x =
     (let n = length (o_range s); pick = (\<lambda>i. if n = 0 then None else js_get (o_range s) ((i - 1) mod n))
      in case d3_map_get (o_index s) x of
           Some i \<Rightarrow> (s, pick i)
         | None \<Rightarrow>
             if is_range (o_ranger s)
             then let domain = o_domain s @ [x]
                  in (s\<lparr>o_domain := domain, o_index := d3_map_set (o_index s) x (length domain)\<rparr>, pick (length domain))
             else (s, None))"

definition js_extent :: "jsval list \<Rightarrow> jsval \<times> jsval" where
  "js_extent xs =
     (let start = js_val (js_get xs 0); stop = (if xs = [] then JUndef else last xs)
      in if js_lt start stop then (start, stop) else (stop, start))"

definition ordinal_rangeExtent :: "ordinal \<Rightarrow> jsval \<times> jsval" where
  "ordinal_rangeExtent s = (case o_ranger s of
     Range x \<Rightarrow> js_extent x
   | RangePoints (a, b) _ \<Rightarrow> js_extent [JNum (Fin a), JNum (Fin b)]
   | RangeBands (a, b) _ \<Rightarrow> js_extent [JNum (Fin a), JNum (Fin b)]
   | RangeRoundBands (a, b) _ \<Rightarrow> js_extent [JNum (Fin a), JNum (Fin b)])"

definition ordinal_copy :: "ordinal \<Rightarrow> ordinal" where
  "ordinal_copy s = d3_scale_ordinal (o_domain s) (o_ranger s)"

section \<open>Categories\<close>

definition rgb_strings :: "int list \<Rightarrow> jsval list" where
  "rgb_strings cs = map (\<lambda>c. case d3_rgbString c of Inr s \<Rightarrow> JStr s | Inl _ \<Rightarrow> JUndef) cs"

definition d3_category10 :: "jsval list" where
  "d3_category10 = rgb_strings [2062260, 16744206, 2924588, 14034728, 9725885, 9197131, 14907330, 8355711, 12369186, 1556175]"

definition d3_category20 :: "jsval list" where
  "d3_category20 = rgb_strings [2062260, 11454440, 16744206, 16759672, 2924588, 10018698, 14034728, 16750742, 9725885,
     12955861, 9197131, 12885140, 14907330, 16234194, 8355711, 13092807, 12369186, 14408589, 1556175, 10410725]"

definition d3_category20b :: "jsval list" where
  "d3_category20b = rgb_strings [3750777, 5395619, 7040719, 10264286, 6519097, 9216594, 11915115, 13556636, 9202993,
     12426809, 15186514, 15190932, 8666169, 11356490, 14049643, 15177372, 8077683, 10834324, 13528509, 14589654]"

definition d3_category20c :: "jsval list" where
  "d3_category20c = rgb_strings [3244733, 7057110, 10406625, 13032431, 15095053, 16616764, 16625259, 16634018, 3253076,
     7652470, 10607003, 13101504, 7695281, 10394312, 12369372, 14342891, 6513507, 9868950, 12434877, 14277081]"

definition category10 :: ordinal where
  "category10 = ordinal_range scale_ordinal d3_category10"

definition category20 :: ordinal where
  "category20 = ordinal_range scale_ordinal d3_category20"

definition category20b :: ordinal where
  "category20b = ordinal_range scale_ordinal d3_category20b"

definition category20c :: ordinal where
  "category20c = ordinal_range scale_ordinal d3_category20c"

section \<open>Quantile scales\<close>

record quantile_scale =
  q_domain :: "jsval list"
  q_range :: "jsval list"
  q_thresholds :: "jsnum list"

definition quantile_rescale :: "quantile_scale \<Rightarrow> quantile_scale" where
  "quantile_rescale s =
     (let q = length (q_range s)
      in s\<lparr>q_thresholds := map (\<lambda>k. d3_quantile (q_domain s) (real k / real q)) [1..<q]\<rparr>)"

definition d3_scale_quantile :: "jsval list \<Rightarrow> jsval list \<Rightarrow> quantile_scale" where
  "d3_scale_quantile domain rng = quantile_rescale \<lparr>q_domain = domain, q_range = rng, q_thresholds = []\<rparr>"

definition quantile_apply :: "quantile_scale \<Rightarrow> jsval \<Rightarrow> jsval option" where
  "quantile_apply s x0 =
     (let x = to_number x0
      in if x = NaN then None
         else case d3_bisectRight (map JNum (q_thresholds s)) (JNum x) of None \<Rightarrow> None | Some i \<Rightarrow> js_get (q_range s) i)"

definition quantile_set_domain :: "quantile_scale \<Rightarrow> jsval list \<Rightarrow> quantile_scale" where
  "quantile_set_domain s x = quantile_rescale (s\<lparr>q_domain := js_sort d3_ascending (filter (\<lambda>d. \<not> js_isNaN d) x)\<rparr>)"

definition quantile_set_range :: "quantile_scale \<Rightarrow> jsval list \<Rightarrow> quantile_scale" where
  "quantile_set_range s x = quantile_rescale (s\<lparr>q_range := x\<rparr>)"

definition quantile_quantiles :: "quantile_scale \<Rightarrow> jsnum list" where
  "quantile_quantiles s = q_thresholds s"

text \<open>\<open>indexOf\<close> compares with strict equality, under which \<open>NaN\<close> is not equal to itself.\<close>

definition index_of :: "jsval list \<Rightarrow> jsval \<Rightarrow> nat option" where
  "index_of xs y =
     (let i = length (takeWhile (\<lambda>x. x \<noteq> y) xs) in if y = JNum NaN \<or> i = length xs then None else Some i)"

definition quantile_invertExtent :: "quantile_scale \<Rightarrow> jsval \<Rightarrow> jsval \<times> jsval" where
  "quantile_invertExtent s y0 = (case index_of (q_range s) y0 of
     None \<Rightarrow> (JNum NaN, JNum NaN)
   | Some y \<Rightarrow>
       (if y > 0 then JNum (q_thresholds s ! (y - 1)) else js_val (js_get (q_domain s) 0),
        if y < length (q_thresholds s) then JNum (q_thresholds s ! y)
        else if q_domain s = [] then JUndef else last (q_domain s)))"

definition quantile_copy :: "quantile_scale \<Rightarrow> quantile_scale" where
  "quantile_copy s = d3_scale_quantile (q_domain s) (q_range s)"

section \<open>Quantize scales\<close>

record quantize_scale =
  z_x0 :: real
  z_x1 :: real
  z_range :: "jsval list"
  z_kx :: jsnum
  z_i :: int

definition quantize_rescale :: "quantize_scale \<Rightarrow> quantize_scale" where
  "quantize_rescale s =
     s\<lparr>z_kx := js_div (Fin (real (length (z_range s)))) (Fin (z_x1 s - z_x0 s)), z_i := int (length (z_range s)) - 1\<rparr>"

definition d3_scale_quantize :: "real \<Rightarrow> real \<Rightarrow> jsval list \<Rightarrow> quantize_scale" where
  "d3_scale_quantize x0 x1 rng = quantize_rescale \<lparr>z_x0 = x0, z_x1 = x1, z_range = rng, z_kx = Fin 0, z_i = 0\<rparr>"

definition js_get_num :: "'a list \<Rightarrow> jsnum \<Rightarrow> 'a option" where
  "js_get_num xs i = (case i of Fin r \<Rightarrow> if r \<in> \<int> \<and> 0 \<le> r then js_get xs (nat \<lfloor>r\<rfloor>) else None | _ \<Rightarrow> None)"

definition quantize_apply :: "quantize_scale \<Rightarrow> real \<Rightarrow> jsval option" where
  "quantize_apply s x =
     js_get_num (z_range s)
       (js_max2 (Fin 0) (js_min2 (Fin (of_int (z_i s))) (js_floorn (js_mul (z_kx s) (Fin (x - z_x0 s))))))"

definition quantize_domain :: "quantize_scale \<Rightarrow> real list \<Rightarrow> quantize_scale" where
  "quantize_domain s x = quantize_rescale (s\<lparr>z_x0 := hd x, z_x1 := last x\<rparr>)"

definition quantize_range :: "quantize_scale \<Rightarrow> jsval list \<Rightarrow> quantize_scale" where
  "quantize_range s x = quantize_rescale (s\<lparr>z_range := x\<rparr>)"

definition quantize_invertExtent :: "quantize_scale \<Rightarrow> jsval \<Rightarrow> jsnum \<times> jsnum" where
  "quantize_invertExtent s y0 =
     (let y = (case index_of (z_range s) y0 of None \<Rightarrow> NaN
               | Some i \<Rightarrow> js_add (js_div (Fin (real i)) (z_kx s)) (Fin (z_x0 s)))
      in (y, js_add y (js_div (Fin 1) (z_kx s))))"

definition quantize_copy :: "quantize_scale \<Rightarrow> quantize_scale" where
  "quantize_copy s = d3_scale_quantize (z_x0 s) (z_x1 s) (z_range s)"

section \<open>Threshold scales\<close>

record threshold_scale =
  t_domain :: "jsval list"
  t_range :: "jsval list"

definition d3_scale_threshold :: "jsval list \<Rightarrow> jsval list \<Rightarrow> threshold_scale" where
  "d3_scale_threshold domain rng = \<lparr>t_domain = domain, t_range = rng\<rparr>"

definition threshold_apply :: "threshold_scale \<Rightarrow> jsval \<Rightarrow> jsval option" where
  "threshold_apply s x =
     (if js_le x x then case d3_bisectRight (t_domain s) x of None \<Rightarrow> None | Some i \<Rightarrow> js_get (t_range s) i else None)"

definition threshold_domain :: "threshold_scale \<Rightarrow> jsval list \<Rightarrow> threshold_scale" where
  "threshold_domain s x = s\<lparr>t_domain := x\<rparr>"

definition threshold_range :: "threshold_scale \<Rightarrow> jsval list \<Rightarrow> threshold_scale" where
  "threshold_range s x = s\<lparr>t_range := x\<rparr>"

definition threshold_invertExtent :: "threshold_scale \<Rightarrow> jsval \<Rightarrow> jsval option \<times> jsval option" where
  "threshold_invertExtent s y = (case index_of (t_range s) y of
     None \<Rightarrow> (None, None)
   | Some i \<Rightarrow> (if i = 0 then None else js_get (t_domain s) (i - 1), js_get (t_domain s) i))"

definition threshold_copy :: "threshold_scale \<Rightarrow> threshold_scale" where
  "threshold_copy s = d3_scale_threshold (t_domain s) (t_range s)"

section \<open>The implicit domain\<close>

fun grow :: "'a list \<Rightarrow> 'a list \<Rightarrow> 'a list" where
  "grow d [] = d"
| "grow d (x # xs) = grow (if x \<in> set d then d else d @ [x]) xs"

definition pos :: "'a \<Rightarrow> 'a list \<Rightarrow> nat" where
  "pos x ys = length (takeWhile (\<lambda>y. y \<noteq> x) ys)"

lemma pos_snoc [simp]: "x \<notin> set d \<Longrightarrow> pos x (d @ [x]) = length d"
  by (induction d) (auto simp: pos_def)

lemma pos_append: "x \<in> set d \<Longrightarrow> pos x (d @ e) = pos x d"
  by (induction d) (auto simp: pos_def)

lemma grow_extends: "\<exists>e. grow d xs = d @ e"
proof (induction xs arbitrary: d)
  case (Cons x xs)
  from Cons.IH [of d] Cons.IH [of "d @ [x]"] show ?case by auto
qed simp

lemma pos_grow: "x \<in> set d \<Longrightarrow> pos x (grow d xs) = pos x d"
  using grow_extends [of d xs] pos_append by metis

definition index_ok :: "string list \<Rightarrow> nat obj \<Rightarrow> bool" where
  "index_ok d m \<longleftrightarrow> distinct d \<and> (\<forall>k. d3_map_get m k = (if k \<in> set d then Some (pos k d + 1) else None))"

lemma index_ok_push: "index_ok d m \<Longrightarrow> x \<notin> set d \<Longrightarrow> index_ok (d @ [x]) (d3_map_set m x (length d + 1))"
  by (auto simp: index_ok_def d3_map_get_set pos_append)

lemma map_has_get: "d3_map_has m k \<longleftrightarrow> d3_map_get m k \<noteq> None"
  by (simp add: d3_map_has_def d3_map_get_def map_of_eq_None_iff)

lemma index_loop_grow:
  "index_ok d m \<Longrightarrow> fst (index_loop x d m) = grow d x \<and> index_ok (grow d x) (snd (index_loop x d m))"
proof (induction x arbitrary: d m)
  case (Cons xi x)
  have "d3_map_has m xi \<longleftrightarrow> xi \<in> set d" using Cons.prems by (simp add: map_has_get index_ok_def)
  then show ?case using Cons.IH [of d m] Cons.IH [of "d @ [xi]" "d3_map_set m xi (length d + 1)"] Cons.prems index_ok_push
    by simp
qed simp

text \<open>Looking up a sequence of values, left to right.\<close>

fun ordinal_run :: "ordinal \<Rightarrow> string list \<Rightarrow> ordinal \<times> jsval option list" where
  "ordinal_run s [] = (s, [])"
| "ordinal_run s (x # xs) =
     (let (s1, v) = ordinal_apply s x; (s2, vs) = ordinal_run s1 xs in (s2, v # vs))"

lemma ordinal_run_spec:
  assumes "R \<noteq> []"
  shows "index_ok (o_domain s) (o_index s) \<Longrightarrow> o_ranger s = Range R \<Longrightarrow> o_range s = R \<Longrightarrow>
    o_domain (fst (ordinal_run s xs)) = grow (o_domain s) xs \<and>
    snd (ordinal_run s xs) = map (\<lambda>x. Some (R ! (pos x (grow (o_domain s) xs) mod length R))) xs"
proof (induction xs arbitrary: s)
  case (Cons x xs)
  define s1 where "s1 = fst (ordinal_apply s x)"
  define d where "d = (if x \<in> set (o_domain s) then o_domain s else o_domain s @ [x])"
  have get: "d3_map_get (o_index s) x = (if x \<in> set (o_domain s) then Some (pos x (o_domain s) + 1) else None)"
    using Cons.prems(1) by (simp add: index_ok_def)
  have app: "ordinal_apply s x = (s1, Some (R ! (pos x d mod length R)))" "o_domain s1 = d" "o_ranger s1 = Range R" "o_range s1 = R"
    using get Cons.prems assms
    by (simp_all add: ordinal_apply_def s1_def d_def is_range_def Let_def)
  have "index_ok d (o_index s1)"
    using get Cons.prems index_ok_push [of "o_domain s" "o_index s" x]
    by (auto simp: ordinal_apply_def s1_def d_def is_range_def Let_def)
  then have IH: "o_domain (fst (ordinal_run s1 xs)) = grow d xs"
    "snd (ordinal_run s1 xs) = map (\<lambda>x. Some (R ! (pos x (grow d xs) mod length R))) xs"
    using Cons.IH [of s1] app by auto
  have "grow (o_domain s) (x # xs) = grow d xs" "pos x (grow d xs) = pos x d"
    using pos_grow [of x d xs] by (simp_all add: d_def)
  then show ?case using IH app(1) by (simp split: prod.splits) (metis fst_conv snd_conv)
qed simp

text \<open>
  Ordinal lookups.  A scale with an explicit non-empty range and domain \<open>D\<close> answers any
  sequence of lookups as if its domain had been all values of \<open>D\<close> and of the sequence from the
  start, in order of first occurrence: value \<open>x\<close> gets the range element at its position in that
  list, modulo the length of the range; and that list is the domain the scale ends with.
\<close>

theorem ordinal_implicit_domain:
  assumes "R \<noteq> []"
  shows "let s = ordinal_set_domain (ordinal_range scale_ordinal R) D; (s', vs) = ordinal_run s xs
    in o_domain s' = grow [] (D @ xs) \<and>
       vs = map (\<lambda>x. Some (R ! (pos x (grow [] (D @ xs)) mod length R))) xs"
proof -
  define s where "s = ordinal_set_domain (ordinal_range scale_ordinal R) D"
  have ok: "index_ok [] []" by (simp add: index_ok_def d3_map_get_def)
  have app: "grow [] (D @ xs) = grow (grow [] D) xs" for xs
  proof -
    have "grow d (D @ xs) = grow (grow d D) xs" for d :: "string list" by (induction D arbitrary: d) auto
    then show ?thesis by blast
  qed
  obtain m where m: "index_loop D [] [] = (grow [] D, m)" "index_ok (grow [] D) m"
    using index_loop_grow [OF ok, of D] by (metis prod.collapse)
  have "o_domain s = grow [] D" "index_ok (o_domain s) (o_index s)" "o_ranger s = Range R" "o_range s = R"
    using m by (simp_all add: s_def ordinal_set_domain_def ordinal_range_def apply_ranger_def)
  then show ?thesis using ordinal_run_spec [OF assms, of s xs]
    unfolding s_def [symmetric] by (auto simp: app Let_def split: prod.splits)
qed

theorem ordinal_implicit_domain_witness:
  "let s = ordinal_set_domain (ordinal_range scale_ordinal [JStr ''red'', JStr ''blue'']) [''a''];
       (s', vs) = ordinal_run s [''b'', ''c'', ''a'']
   in o_domain s' = [''a'', ''b'', ''c''] \<and> vs = [Some (JStr ''blue''), Some (JStr ''red''), Some (JStr ''red'')]"
  using ordinal_implicit_domain [of "[JStr ''red'', JStr ''blue'']" "[''a'']" "[''b'', ''c'', ''a'']"]
  by (simp add: pos_def)

section \<open>Bands\<close>

lemma ordinal_steps_eq:
  "ordinal_steps n (Fin start) (Fin step) = map (\<lambda>i. JNum (Fin (start + step * real i))) [0..<n]"
proof -
  have "range_count 0 (real n) 1 = n" by (simp add: range_count_def)
  then have "d3_range 0 (real n) 1 = Some (Inr (map real [0..<n]))"
    using d3_range_exact [of 1 0 0 "real n"] by simp
  then show ?thesis by (simp add: ordinal_steps_def comp_def)
qed

text \<open>
  Bands.  For a non-empty domain, an interval from \<open>a\<close> up to \<open>b\<close>, inner padding below 1 and
  non-negative outer padding, \<open>rangeBands\<close> yields one band per domain value; the bands have
  positive width, lie inside the interval and do not overlap, and for the interval taken from
  \<open>b\<close> down to \<open>a\<close> the same bands come in the opposite order.
\<close>

theorem rangeBands_disjoint:
  assumes "o_domain s \<noteq> []" "a < b" "0 \<le> p" "p < 1" "0 \<le> q"
  shows "\<exists>rs w. o_range (ordinal_rangeBands s (a, b) [p, q]) = map (\<lambda>r. JNum (Fin r)) rs \<and>
    o_rangeBand (ordinal_rangeBands s (a, b) [p, q]) = Fin w \<and> 0 < w \<and> length rs = length (o_domain s) \<and>
    (\<forall>i < length rs. a \<le> rs ! i \<and> rs ! i + w \<le> b) \<and>
    (\<forall>i j. i < j \<and> j < length rs \<longrightarrow> rs ! i + w \<le> rs ! j) \<and>
    o_range (ordinal_rangeBands s (b, a) [p, q]) = rev (map (\<lambda>r. JNum (Fin r)) rs)"
proof -
  define n where "n = length (o_domain s)"
  define m where "m = real n - p + 2 * q"
  define step where "step = (b - a) / m"
  define rs where "rs = map (\<lambda>i. a + step * q + step * real i) [0..<n]"
  have n: "1 \<le> n" using assms(1) by (simp add: n_def Suc_le_eq)
  then have m: "0 < m" using assms by (simp add: m_def)
  have step: "0 < step" "step * m = b - a" using m assms(2) by (simp_all add: step_def)
  have r: "o_range (ordinal_rangeBands s (a, b) [p, q]) = map (\<lambda>r. JNum (Fin r)) rs"
    "o_range (ordinal_rangeBands s (b, a) [p, q]) = rev (map (\<lambda>r. JNum (Fin r)) rs)"
    "o_rangeBand (ordinal_rangeBands s (a, b) [p, q]) = Fin (step * (1 - p))"
    using assms(2) m
    by (simp_all add: ordinal_rangeBands_def arg_or_def Let_def n_def [symmetric] m_def [symmetric] step_def [symmetric]
        ordinal_steps_eq rs_def comp_def)
  have "a \<le> rs ! i \<and> rs ! i + step * (1 - p) \<le> b" if "i < n" for i
  proof -
    have "step * (q + real i + (1 - p)) \<le> step * m"
      using that step(1) assms(5) by (intro mult_left_mono) (simp_all add: m_def)
    then have "step * (q + real i + (1 - p)) \<le> b - a" using step(2) by simp
    moreover have "0 \<le> step * (q + real i)" using step(1) assms(5) by simp
    ultimately show ?thesis using that by (simp add: rs_def algebra_simps)
  qed
  moreover have "rs ! i + step * (1 - p) \<le> rs ! j" if "i < j" "j < n" for i j
  proof -
    have "step * (real i + (1 - p)) \<le> step * real j"
      using that step(1) assms(3) by (intro mult_left_mono) simp_all
    then show ?thesis using that by (simp add: rs_def algebra_simps)
  qed
  moreover have "length rs = n" "0 < step * (1 - p)" using step(1) assms(4) by (simp_all add: rs_def)
  ultimately show ?thesis using r n_def by (intro exI [of _ rs] exI [of _ "step * (1 - p)"]) simp
qed

theorem rangeBands_disjoint_witness:
  "\<exists>rs w. o_range (ordinal_rangeBands (d3_scale_ordinal [''a'', ''b'', ''c''] (Range [])) (0, 100) [1 / 10, 1 / 2]) =
      map (\<lambda>r. JNum (Fin r)) rs \<and> length rs = 3 \<and> 0 < w \<and> (\<forall>i < length rs. 0 \<le> rs ! i \<and> rs ! i + w \<le> 100)"
proof -
  define s where "s = d3_scale_ordinal [''a'', ''b'', ''c''] (Range [])"
  have dom: "o_domain s = [''a'', ''b'', ''c'']"
    by (simp add: s_def d3_scale_ordinal_def ordinal_set_domain_def apply_ranger_def ordinal_range_def map_has_get
        d3_map_get_set) (simp add: d3_map_get_def)
  then show ?thesis
    using rangeBands_disjoint [of s 0 100 "1 / 10" "1 / 2"] unfolding s_def [symmetric] by auto
qed

section \<open>Classes and their extents\<close>

lemma index_of_nth: "distinct xs \<Longrightarrow> i < length xs \<Longrightarrow> xs ! i \<noteq> JNum NaN \<Longrightarrow> index_of xs (xs ! i) = Some i"
proof -
  assume d: "distinct xs" and i: "i < length xs" and n: "xs ! i \<noteq> JNum NaN"
  have "takeWhile (\<lambda>x. x \<noteq> xs ! i) xs = take i xs"
  proof (rule takeWhile_eq_take_P_nth)
    show "j < i \<Longrightarrow> j < length xs \<Longrightarrow> xs ! j \<noteq> xs ! i" for j using d i by (simp add: nth_eq_iff_index_eq)
  qed simp
  then show ?thesis using i n by (simp add: index_of_def)
qed

text \<open>
  Quantize scales.  With distinct range values, every number of the domain interval (without its upper end)
  is classified, and the extent that \<open>invertExtent\<close> gives for its class contains it.
\<close>

theorem quantize_invert_brackets:
  assumes "x0 < x1" "distinct rng" "rng \<noteq> []" "JNum NaN \<notin> set rng" "x0 \<le> x" "x < x1"
  shows "\<exists>y u v. quantize_apply (d3_scale_quantize x0 x1 rng) x = Some y \<and>
    quantize_invertExtent (d3_scale_quantize x0 x1 rng) y = (Fin u, Fin v) \<and> u \<le> x \<and> x < v \<and> v - u = (x1 - x0) / real (length rng)"
proof -
  define n where "n = length rng"
  define k where "k = real n / (x1 - x0)"
  define i where "i = nat \<lfloor>k * (x - x0)\<rfloor>"
  have n: "0 < n" using assms(3) by (simp add: n_def)
  then have k: "0 < k" using assms(1) by (simp add: k_def)
  have "k * (x - x0) < k * (x1 - x0)" using k assms(6) by simp
  then have hi: "k * (x - x0) < real n" using assms(1) by (simp add: k_def)
  have lo: "0 \<le> k * (x - x0)" using k assms(5) by simp
  have fl: "of_int \<lfloor>k * (x - x0)\<rfloor> = real i" using lo by (simp add: i_def)
  have i: "i < n" "real i \<le> k * (x - x0)" "k * (x - x0) < real i + 1" using fl hi lo by linarith+
  have "min (real n - 1) (real i) = real i" using i(1) by simp
  then have "quantize_apply (d3_scale_quantize x0 x1 rng) x = Some (rng ! i)"
    using assms(1) i(1) fl
    by (simp add: quantize_apply_def d3_scale_quantize_def quantize_rescale_def n_def [symmetric] k_def [symmetric] js_get_num_def)
  moreover have "index_of rng (rng ! i) = Some i"
    using index_of_nth [OF assms(2)] i(1) assms(4) by (metis n_def nth_mem)
  then have "quantize_invertExtent (d3_scale_quantize x0 x1 rng) (rng ! i) = (Fin (real i / k + x0), Fin (real i / k + x0 + 1 / k))"
    using assms(1) k
    by (simp add: quantize_invertExtent_def d3_scale_quantize_def quantize_rescale_def n_def [symmetric] k_def [symmetric])
  moreover have "real i / k + x0 \<le> x" "x < real i / k + x0 + 1 / k" using i k by (simp_all add: field_simps)
  moreover have "1 / k = (x1 - x0) / real n" by (simp add: k_def)
  ultimately show ?thesis by (auto simp: n_def)
qed

theorem quantize_invert_brackets_witness:
  "\<exists>y u v. quantize_apply (d3_scale_quantize 0 10 [JStr ''low'', JStr ''mid'', JStr ''high'']) 4 = Some y \<and>
    quantize_invertExtent (d3_scale_quantize 0 10 [JStr ''low'', JStr ''mid'', JStr ''high'']) y = (Fin u, Fin v) \<and> u \<le> 4 \<and> 4 < v"
  using quantize_invert_brackets [of 0 10 "[JStr ''low'', JStr ''mid'', JStr ''high'']" 4] by auto

lemma threshold_invert_brackets:
  assumes "length (t_domain s) \<le> 2 ^ 31" "sorted_wrt js_le (t_domain s)"
    and "\<forall>v \<in> set (t_domain s). v \<in> numeric_values \<and> js_valid v" "x \<in> numeric_values" "to_number x \<noteq> NaN"
    and "distinct (t_range s)" "length (t_range s) = length (t_domain s) + 1" "JNum NaN \<notin> set (t_range s)"
  shows "\<exists>y lo hi. threshold_apply s x = Some y \<and> threshold_invertExtent s y = (lo, hi) \<and>
    (case lo of Some l \<Rightarrow> \<not> js_lt x l | None \<Rightarrow> True) \<and> (case hi of Some h \<Rightarrow> js_lt x h | None \<Rightarrow> True)"
proof -
  obtain r where r: "d3_bisectRight (t_domain s) x = Some r" "r \<le> length (t_domain s)"
    "\<forall>i < r. \<not> js_lt x (t_domain s ! i)" "\<forall>i. r \<le> i \<and> i < length (t_domain s) \<longrightarrow> js_lt x (t_domain s ! i)"
    using bisectRight_insertion [OF assms(1-4)] by blast
  have refl: "js_le x x" using assms(4,5) by (cases x) (auto simp: num_le_iff numeric_values_def)
  have y: "threshold_apply s x = Some (t_range s ! r)" using r refl assms(7) by (simp add: threshold_apply_def)
  have "index_of (t_range s) (t_range s ! r) = Some r"
    using index_of_nth [OF assms(6), of r] assms(7,8) r(2) by (metis less_add_one nth_mem order_le_less_trans)
  then have "threshold_invertExtent s (t_range s ! r) =
      (if r = 0 then None else js_get (t_domain s) (r - 1), js_get (t_domain s) r)"
    by (simp add: threshold_invertExtent_def)
  then show ?thesis using y r
    by (intro exI [of _ "t_range s ! r"] exI [of _ "if r = 0 then None else js_get (t_domain s) (r - 1)"]
        exI [of _ "js_get (t_domain s) r"]) (auto simp: js_get_def)
qed

end
