(* ===== verification/D3_Layouts.thy ===== *)
theory D3_Layouts
  imports D3_Statistics D3_Arrays D3_Map
begin

text \<open>
  Layouts that turn tables of numbers into positions (\<open>d3.js\<close> lines 5957 to 6109 and 6482 to
  6740): edge bundling, chords, pies, stacks and histograms.

  Values and angles are finite reals; accessor functions are arguments.  The number of data
  items is a natural number \<open>n\<close> and \<open>d3.range(n)\<close> is \<open>[0..<n]\<close>.
\<close>

section \<open>Edge bundling\<close>

text \<open>
  Nodes are numbers and \<open>par\<close> gives the parent.  The loops follow parent pointers as long as
  there are any; on a cycle they do not end, and \<open>None\<close> stands for that and for reading
  \<open>parent\<close> of \<open>undefined\<close>.
\<close>

partial_function (option) d3_layout_bundleAncestors :: "(nat \<Rightarrow> nat option) \<Rightarrow> nat \<Rightarrow> nat list \<Rightarrow> nat list option" where
  "d3_layout_bundleAncestors par node ancestors = (case par node of
     None \<Rightarrow> Some (ancestors @ [node])
   | Some p \<Rightarrow> d3_layout_bundleAncestors par p (ancestors @ [node]))"

text \<open>The two ancestor lists are consumed from the root; two exhausted lists compare equal for ever.\<close>

fun lca_loop :: "nat list \<Rightarrow> nat list \<Rightarrow> nat option \<Rightarrow> nat option option" where
  "lca_loop (a # as) (b # bs) shared = (if a = b then lca_loop as bs (Some a) else Some shared)"
| "lca_loop [] [] shared = None"
| "lca_loop as bs shared = Some shared"

definition d3_layout_bundleLeastCommonAncestor :: "(nat \<Rightarrow> nat option) \<Rightarrow> nat \<Rightarrow> nat \<Rightarrow> nat option option" where
  "d3_layout_bundleLeastCommonAncestor par a b =
     (if a = b then Some (Some a)
      else case (d3_layout_bundleAncestors par a [], d3_layout_bundleAncestors par b []) of
             (Some as, Some bs) \<Rightarrow> lca_loop (rev as) (rev bs) None
           | _ \<Rightarrow> None)"

partial_function (option) climb :: "(nat \<Rightarrow> nat option) \<Rightarrow> nat \<Rightarrow> nat \<Rightarrow> nat list \<Rightarrow> nat list option" where
  "climb par start lca points =
     (if start = lca then Some points
      else case par start of None \<Rightarrow> None | Some p \<Rightarrow> climb par p lca (points @ [p]))"

partial_function (option) descend :: "(nat \<Rightarrow> nat option) \<Rightarrow> nat \<Rightarrow> nat \<Rightarrow> nat \<Rightarrow> nat list \<Rightarrow> nat list option" where
  "descend par stop lca k points =
     (if stop = lca then Some points
      else case par stop of None \<Rightarrow> None
           | Some p \<Rightarrow> descend par p lca k (take k points @ [stop] @ drop k points))"

definition d3_layout_bundlePath :: "(nat \<Rightarrow> nat option) \<Rightarrow> nat \<times> nat \<Rightarrow> nat list option" where
  "d3_layout_bundlePath par link =
     (let (start, stop) = link
      in case d3_layout_bundleLeastCommonAncestor par start stop of
           Some (Some lca) \<Rightarrow>
             (case climb par start lca [start] of
                None \<Rightarrow> None
              | Some points \<Rightarrow> descend par stop lca (length points) points)
         | _ \<Rightarrow> None)"

definition layout_bundle :: "(nat \<Rightarrow> nat option) \<Rightarrow> (nat \<times> nat) list \<Rightarrow> nat list option list" where
  "layout_bundle par links = map (d3_layout_bundlePath par) links"

section \<open>Chords\<close>

record subgroup =
  sg_index :: nat
  sg_subindex :: nat
  sg_start :: real
  sg_end :: real
  sg_value :: real

record group =
  gr_index :: nat
  gr_start :: real
  gr_end :: real
  gr_value :: real

type_synonym chord_pair = "subgroup \<times> subgroup"
type_synonym sorter = "(real \<Rightarrow> real \<Rightarrow> jsnum) option"

record chord =
  c_matrix :: "real list list"
  c_padding :: real
  c_sortGroups :: sorter
  c_sortSubgroups :: sorter
  c_sortChords :: sorter
  c_chords :: "chord_pair list option"
  c_groups :: "group list option"

definition sorted_by :: "sorter \<Rightarrow> (nat \<Rightarrow> real) \<Rightarrow> nat list \<Rightarrow> nat list" where
  "sorted_by cmp v index = (case cmp of None \<Rightarrow> index | Some c \<Rightarrow> js_sort (\<lambda>a b. c (v a) (v b)) index)"

text \<open>One row of the matrix: its subgroups, and the angle reached.\<close>

fun chord_row_loop :: "nat \<Rightarrow> real list \<Rightarrow> real \<Rightarrow> nat list \<Rightarrow> real \<Rightarrow> subgroup list \<times> real" where
  "chord_row_loop di row k [] x = ([], x)"
| "chord_row_loop di row k (dj # js) x =
     (let v = row ! dj; a1 = x + v * k; (rest, x') = chord_row_loop di row k js a1
      in (\<lparr>sg_index = di, sg_subindex = dj, sg_start = x, sg_end = a1, sg_value = v\<rparr> # rest, x'))"

fun chord_group_loop :: "real list list \<Rightarrow> (nat \<Rightarrow> nat list) \<Rightarrow> real \<Rightarrow> real \<Rightarrow> nat list \<Rightarrow> real \<Rightarrow> subgroup list \<times> group list" where
  "chord_group_loop matrix sub k padding [] x = ([], [])"
| "chord_group_loop matrix sub k padding (di # is) x0 =
     (let (sgs, x) = chord_row_loop di (matrix ! di) k (sub di) x0;
          (sgs', grs) = chord_group_loop matrix sub k padding is (x + padding)
      in (sgs @ sgs', \<lparr>gr_index = di, gr_start = x0, gr_end = x, gr_value = (x - x0) / k\<rparr> # grs))"

definition find_subgroup :: "subgroup list \<Rightarrow> nat \<Rightarrow> nat \<Rightarrow> subgroup option" where
  "find_subgroup sgs i j = find (\<lambda>s. sg_index s = i \<and> sg_subindex s = j) sgs"

definition chord_of :: "subgroup list \<Rightarrow> nat \<Rightarrow> nat \<Rightarrow> chord_pair list" where
  "chord_of sgs i j = (case (find_subgroup sgs i j, find_subgroup sgs j i) of
     (Some source, Some target) \<Rightarrow>
       if sg_value source \<noteq> 0 \<or> sg_value target \<noteq> 0
       then [if sg_value source < sg_value target then (target, source) else (source, target)] else []
   | _ \<Rightarrow> [])"

definition chord_sort :: "sorter \<Rightarrow> chord_pair list \<Rightarrow> chord_pair list" where
  "chord_sort cmp cs = (case cmp of None \<Rightarrow> cs
     | Some c \<Rightarrow> js_sort (\<lambda>a b. c ((sg_value (fst a) + sg_value (snd a)) / 2) ((sg_value (fst b) + sg_value (snd b)) / 2)) cs)"

text \<open>\<open>groups[di] = ...\<close> stores the groups by index, whatever the order they are placed in.\<close>

definition by_index :: "group list \<Rightarrow> nat \<Rightarrow> group list" where
  "by_index grs n = map (\<lambda>i. the (find (\<lambda>g. gr_index g = i) grs)) [0..<n]"

text \<open>The scale \<open>k\<close> divides by the total of the matrix, which must not be zero.\<close>

definition chord_relayout :: "chord \<Rightarrow> chord" where
  "chord_relayout c =
     (let matrix = c_matrix c; n = length matrix;
          groupSums = map (\<lambda>row. sum_list (take n row)) matrix;
          groupIndex = sorted_by (c_sortGroups c) (\<lambda>a. groupSums ! a) [0..<n];
          sub = (\<lambda>i. sorted_by (c_sortSubgroups c) (\<lambda>a. matrix ! i ! a) [0..<n]);
          k = (2 * pi - c_padding c * real n) / sum_list groupSums;
          (sgs, grs) = chord_group_loop matrix sub k (c_padding c) groupIndex 0;
          chords = concat (map (\<lambda>i. concat (map (\<lambda>j. chord_of sgs i j) [i..<n])) [0..<n])
      in c\<lparr>c_chords := Some (chord_sort (c_sortChords c) chords), c_groups := Some (by_index grs n)\<rparr>)"

definition layout_chord :: chord where
  "layout_chord = \<lparr>c_matrix = [], c_padding = 0, c_sortGroups = None, c_sortSubgroups = None, c_sortChords = None,
     c_chords = None, c_groups = None\<rparr>"

definition chord_matrix :: "chord \<Rightarrow> real list list \<Rightarrow> chord" where
  "chord_matrix c x = c\<lparr>c_matrix := x, c_chords := None, c_groups := None\<rparr>"

definition chord_padding :: "chord \<Rightarrow> real \<Rightarrow> chord" where
  "chord_padding c x = c\<lparr>c_padding := x, c_chords := None, c_groups := None\<rparr>"

definition chord_sortGroups :: "chord \<Rightarrow> sorter \<Rightarrow> chord" where
  "chord_sortGroups c x = c\<lparr>c_sortGroups := x, c_chords := None, c_groups := None\<rparr>"

definition chord_sortSubgroups :: "chord \<Rightarrow> sorter \<Rightarrow> chord" where
  "chord_sortSubgroups c x = c\<lparr>c_sortSubgroups := x, c_chords := None\<rparr>"

definition chord_sortChords :: "chord \<Rightarrow> sorter \<Rightarrow> chord" where
  "chord_sortChords c x =
     (let c' = c\<lparr>c_sortChords := x\<rparr>
      in case c_chords c of None \<Rightarrow> c' | Some cs \<Rightarrow> c'\<lparr>c_chords := Some (chord_sort x cs)\<rparr>)"

definition chord_chords :: "chord \<Rightarrow> chord \<times> chord_pair list" where
  "chord_chords c = (let c' = (if c_chords c = None then chord_relayout c else c) in (c', the (c_chords c')))"

definition chord_groups :: "chord \<Rightarrow> chord \<times> group list" where
  "chord_groups c = (let c' = (if c_groups c = None then chord_relayout c else c) in (c', the (c_groups c')))"

section \<open>Pies\<close>

record 'd arc =
  arc_data :: 'd
  arc_value :: real
  arc_start :: real
  arc_end :: real

datatype 'd pie_sort = NoSort | ByValue | ByData "'d \<Rightarrow> 'd \<Rightarrow> jsnum"

record 'd pie =
  pie_value :: "'d \<Rightarrow> nat \<Rightarrow> real"
  pie_sorting :: "'d pie_sort"
  pie_startAngle :: "'d list \<Rightarrow> real"
  pie_endAngle :: "'d list \<Rightarrow> real"

definition pie_index :: "'d pie_sort \<Rightarrow> 'd list \<Rightarrow> real list \<Rightarrow> nat list" where
  "pie_index srt data vs = (case srt of
     NoSort \<Rightarrow> [0..<length data]
   | ByValue \<Rightarrow> js_sort (\<lambda>i j. Fin (vs ! j - vs ! i)) [0..<length data]
   | ByData f \<Rightarrow> js_sort (\<lambda>i j. f (data ! i) (data ! j)) [0..<length data])"

text \<open>The arcs in the order of \<open>index\<close>, each starting where the previous one ends.\<close>

fun pie_loop :: "'d list \<Rightarrow> real list \<Rightarrow> real \<Rightarrow> nat list \<Rightarrow> real \<Rightarrow> (nat \<times> 'd arc) list" where
  "pie_loop data vs k [] a = []"
| "pie_loop data vs k (i # is) a =
     (let d = vs ! i
      in (i, \<lparr>arc_data = data ! i, arc_value = d, arc_start = a, arc_end = a + d * k\<rparr>) # pie_loop data vs k is (a + d * k))"

definition pie_layout :: "'d pie \<Rightarrow> 'd list \<Rightarrow> 'd arc list" where
  "pie_layout p data =
     (let vs = map (\<lambda>(i, d). pie_value p d i) (enumerate 0 data);
          a = pie_startAngle p data;
          k = (pie_endAngle p data - a) / sum_list vs;
          arcs = pie_loop data vs k (pie_index (pie_sorting p) data vs) a
      in map (\<lambda>i. the (map_of arcs i)) [0..<length data])"

definition layout_pie :: "('d \<Rightarrow> nat \<Rightarrow> real) \<Rightarrow> 'd pie" where
  "layout_pie num = \<lparr>pie_value = num, pie_sorting = ByValue, pie_startAngle = (\<lambda>d. 0), pie_endAngle = (\<lambda>d. 2 * pi)\<rparr>"

definition pie_set_value :: "'d pie \<Rightarrow> ('d \<Rightarrow> nat \<Rightarrow> real) \<Rightarrow> 'd pie" where
  "pie_set_value p x = p\<lparr>pie_value := x\<rparr>"

definition pie_set_sort :: "'d pie \<Rightarrow> 'd pie_sort \<Rightarrow> 'd pie" where
  "pie_set_sort p x = p\<lparr>pie_sorting := x\<rparr>"

definition pie_set_startAngle :: "'d pie \<Rightarrow> ('d list \<Rightarrow> real) \<Rightarrow> 'd pie" where
  "pie_set_startAngle p x = p\<lparr>pie_startAngle := x\<rparr>"

definition pie_set_endAngle :: "'d pie \<Rightarrow> ('d list \<Rightarrow> real) \<Rightarrow> 'd pie" where
  "pie_set_endAngle p x = p\<lparr>pie_endAngle := x\<rparr>"

section \<open>Stacks\<close>

text \<open>A point is its \<open>x\<close> and \<open>y\<close> value; a table is a list of series of points of equal length.\<close>

type_synonym point = "real \<times> real"

definition d3_layout_stackSum :: "real \<Rightarrow> point \<Rightarrow> real" where
  "d3_layout_stackSum p d = p + snd d"

definition d3_layout_stackReduceSum :: "point list \<Rightarrow> real" where
  "d3_layout_stackReduceSum d = foldl d3_layout_stackSum 0 d"

fun max_index_loop :: "point list \<Rightarrow> nat \<Rightarrow> nat \<Rightarrow> real \<Rightarrow> nat" where
  "max_index_loop [] i j v = j"
| "max_index_loop (p # ps) i j v =
     (if snd p > v then max_index_loop ps (i + 1) i (snd p) else max_index_loop ps (i + 1) j v)"

definition d3_layout_stackMaxIndex :: "point list \<Rightarrow> nat" where
  "d3_layout_stackMaxIndex array = max_index_loop (tl array) 1 0 (snd (hd array))"

definition d3_layout_stackOrderDefault :: "point list list \<Rightarrow> nat list" where
  "d3_layout_stackOrderDefault data = [0..<length data]"

text \<open>Inside-out: series in the order of their peaks go to the lighter of the two sides.\<close>

fun inside_out_loop :: "real list \<Rightarrow> nat list \<Rightarrow> real \<Rightarrow> real \<Rightarrow> nat list \<Rightarrow> nat list \<Rightarrow> nat list \<times> nat list" where
  "inside_out_loop sm [] tp bt tops bottoms = (tops, bottoms)"
| "inside_out_loop sm (j # js) tp bt tops bottoms =
     (if tp < bt then inside_out_loop sm js (tp + sm ! j) bt (tops @ [j]) bottoms
      else inside_out_loop sm js tp (bt + sm ! j) tops (bottoms @ [j]))"

definition stack_order_insideOut :: "point list list \<Rightarrow> nat list" where
  "stack_order_insideOut data =
     (let mx = map d3_layout_stackMaxIndex data; sm = map d3_layout_stackReduceSum data;
          index = js_sort (\<lambda>a b. Fin (real (mx ! a) - real (mx ! b))) [0..<length data];
          (tops, bottoms) = inside_out_loop sm index 0 0 [] []
      in rev bottoms @ tops)"

definition stack_order_reverse :: "point list list \<Rightarrow> nat list" where
  "stack_order_reverse data = rev [0..<length data]"

definition d3_layout_stackOrders :: "(point list list \<Rightarrow> nat list) obj" where
  "d3_layout_stackOrders = d3_map
     [(''inside-out'', stack_order_insideOut), (''reverse'', stack_order_reverse), (''default'', d3_layout_stackOrderDefault)]"

text \<open>
  An offset returns the baseline of every column; \<open>expand\<close> also rewrites the heights in place, so
  an offset maps the points to the new points and the baseline.
\<close>

type_synonym offset = "point list list \<Rightarrow> point list list \<times> real list"

definition column_sum :: "point list list \<Rightarrow> nat \<Rightarrow> real" where
  "column_sum data j = foldl (\<lambda>v series. v + snd (series ! j)) 0 data"

definition d3_layout_stackOffsetZero :: offset where
  "d3_layout_stackOffsetZero data = (data, replicate (length (hd data)) 0)"

definition stack_offset_silhouette :: offset where
  "stack_offset_silhouette data =
     (let m = length (hd data); sm = map (column_sum data) [0..<m];
          mx = foldl (\<lambda>v w. if w > v then w else v) 0 sm
      in (data, map (\<lambda>j. (mx - sm ! j) / 2) [0..<m]))"

definition wiggle_slope :: "point list list \<Rightarrow> nat \<Rightarrow> real \<Rightarrow> nat \<Rightarrow> real" where
  "wiggle_slope data j dx i =
     foldl (\<lambda>s k. s + (snd (data ! k ! j) - snd (data ! k ! (j - 1))) / dx)
       ((snd (data ! i ! j) - snd (data ! i ! (j - 1))) / (2 * dx)) [0..<i]"

definition wiggle_step :: "point list list \<Rightarrow> nat \<Rightarrow> real" where
  "wiggle_step data j =
     (let s1 = column_sum data j; dx = fst (hd data ! j) - fst (hd data ! (j - 1));
          s2 = foldl (\<lambda>s i. s + wiggle_slope data j dx i * snd (data ! i ! j)) 0 [0..<length data]
      in if s1 \<noteq> 0 then s2 / s1 * dx else 0)"

fun wiggle_loop :: "point list list \<Rightarrow> nat list \<Rightarrow> real \<Rightarrow> real \<Rightarrow> real list \<Rightarrow> real \<times> real list" where
  "wiggle_loop data [] v v0 y0 = (v0, y0)"
| "wiggle_loop data (j # js) v v0 y0 =
     (let w = v - wiggle_step data j in wiggle_loop data js w (if w < v0 then w else v0) (y0 @ [w]))"

definition stack_offset_wiggle :: offset where
  "stack_offset_wiggle data =
     (let (v0, y0) = wiggle_loop data [1..<length (hd data)] 0 0 [0] in (data, map (\<lambda>y. y - v0) y0))"

definition expand_column :: "point list list \<Rightarrow> nat \<Rightarrow> point list list" where
  "expand_column data j =
     (let v = column_sum data j
      in map (\<lambda>series. series[j := (fst (series ! j), if v \<noteq> 0 then snd (series ! j) / v else 1 / real (length data))]) data)"

definition stack_offset_expand :: offset where
  "stack_offset_expand data =
     (let m = length (hd data) in (foldl expand_column data [0..<m], replicate m 0))"

definition d3_layout_stackOffsets :: "offset obj" where
  "d3_layout_stackOffsets = d3_map
     [(''silhouette'', stack_offset_silhouette), (''wiggle'', stack_offset_wiggle), (''expand'', stack_offset_expand),
      (''zero'', d3_layout_stackOffsetZero)]"

record ('d, 'v) stack =
  st_values :: "'d \<Rightarrow> nat \<Rightarrow> 'v list"
  st_order :: "point list list \<Rightarrow> nat list"
  st_offset :: offset
  st_x :: "'v \<Rightarrow> nat \<Rightarrow> real"
  st_y :: "'v \<Rightarrow> nat \<Rightarrow> real"

text \<open>The calls of \<open>out\<close> for one column, from the bottom series to the top one.\<close>

fun stack_column :: "'v list \<Rightarrow> real list \<Rightarrow> real \<Rightarrow> ('v \<times> real \<times> real) list" where
  "stack_column (v # vs) (y # ys) y0 = (v, y0, y) # stack_column vs ys (y0 + y)"
| "stack_column _ _ y0 = []"

definition stack_layout :: "('d, 'v) stack \<Rightarrow> 'd list \<Rightarrow> ('v \<times> real \<times> real) list" where
  "stack_layout st data =
     (let series0 = map (\<lambda>(i, d). st_values st d i) (enumerate 0 data);
          points0 = map (\<lambda>s. map (\<lambda>(i, v). (st_x st v i, st_y st v i)) (enumerate 0 s)) series0;
          orders = st_order st points0;
          series = map (\<lambda>i. series0 ! i) orders;
          (points, offsets) = st_offset st (map (\<lambda>i. points0 ! i) orders)
      in concat (map (\<lambda>j. stack_column (map (\<lambda>s. s ! j) series) (map (\<lambda>p. snd (p ! j)) points) (offsets ! j))
           [0..<length (hd series)]))"

definition stack_set_order :: "('d, 'v) stack \<Rightarrow> string \<Rightarrow> ('d, 'v) stack" where
  "stack_set_order st x =
     st\<lparr>st_order := (case d3_map_get d3_layout_stackOrders x of Some f \<Rightarrow> f | None \<Rightarrow> d3_layout_stackOrderDefault)\<rparr>"

definition stack_set_offset :: "('d, 'v) stack \<Rightarrow> string \<Rightarrow> ('d, 'v) stack" where
  "stack_set_offset st x =
     st\<lparr>st_offset := (case d3_map_get d3_layout_stackOffsets x of Some f \<Rightarrow> f | None \<Rightarrow> d3_layout_stackOffsetZero)\<rparr>"

definition stack_set_values :: "('d, 'v) stack \<Rightarrow> ('d \<Rightarrow> nat \<Rightarrow> 'v list) \<Rightarrow> ('d, 'v) stack" where
  "stack_set_values st x = st\<lparr>st_values := x\<rparr>"

definition stack_set_x :: "('d, 'v) stack \<Rightarrow> ('v \<Rightarrow> nat \<Rightarrow> real) \<Rightarrow> ('d, 'v) stack" where
  "stack_set_x st z = st\<lparr>st_x := z\<rparr>"

definition stack_set_y :: "('d, 'v) stack \<Rightarrow> ('v \<Rightarrow> nat \<Rightarrow> real) \<Rightarrow> ('d, 'v) stack" where
  "stack_set_y st z = st\<lparr>st_y := z\<rparr>"

section \<open>Histograms\<close>

record 'd bin =
  bin_x :: real
  bin_dx :: real
  bin_y :: real
  bin_items :: "'d list"

record 'd histogram =
  h_frequency :: bool
  h_value :: "'d \<Rightarrow> real"
  h_range :: "real list \<Rightarrow> real \<times> real"
  h_bins :: "real \<times> real \<Rightarrow> real list \<Rightarrow> real list"

definition d3_layout_histogramBinFixed :: "real \<times> real \<Rightarrow> nat \<Rightarrow> real list" where
  "d3_layout_histogramBinFixed rng n =
     (let b = fst rng; m = (snd rng - b) / real n in map (\<lambda>x. m * real x + b) [0..<n + 1])"

definition d3_layout_histogramBinSturges :: "real \<times> real \<Rightarrow> real list \<Rightarrow> real list" where
  "d3_layout_histogramBinSturges rng vs =
     d3_layout_histogramBinFixed rng (nat \<lceil>ln (real (length vs)) / ln 2 + 1\<rceil>)"

definition d3_layout_histogramRange :: "real list \<Rightarrow> real \<times> real" where
  "d3_layout_histogramRange vs = (Min (set vs), Max (set vs))"

text \<open>One item: the bin found by bisection between the inner thresholds.\<close>

definition histogram_step ::
  "real list \<Rightarrow> real \<times> real \<Rightarrow> nat \<Rightarrow> real \<Rightarrow> 'd bin list option \<Rightarrow> 'd \<times> real \<Rightarrow> 'd bin list option" where
  "histogram_step thresholds rng m k bins item = (case bins of
     None \<Rightarrow> None
   | Some bs \<Rightarrow>
       let (d, x) = item
       in if fst rng \<le> x \<and> x \<le> snd rng then
            (case bisect_right (\<lambda>d i. js_val d) (map (\<lambda>t. JNum (Fin t)) thresholds) (JNum (Fin x)) 1 m of
               None \<Rightarrow> None
             | Some b \<Rightarrow> Some (bs[b - 1 := (bs ! (b - 1))\<lparr>bin_y := bin_y (bs ! (b - 1)) + k,
                                                       bin_items := bin_items (bs ! (b - 1)) @ [d]\<rparr>]))
          else Some bs)"

definition histogram_layout :: "'d histogram \<Rightarrow> 'd list \<Rightarrow> 'd bin list option" where
  "histogram_layout h data =
     (let vs = map (h_value h) data; rng = h_range h vs; thresholds = h_bins h rng vs; m = length thresholds - 1;
          k = (if h_frequency h then 1 else 1 / real (length vs));
          bins = map (\<lambda>i. \<lparr>bin_x = thresholds ! i, bin_dx = thresholds ! (i + 1) - thresholds ! i, bin_y = 0, bin_items = []\<rparr>) [0..<m]
      in if m > 0 then foldl (histogram_step thresholds rng m k) (Some bins) (zip data vs) else Some bins)"

definition layout_histogram :: "('d \<Rightarrow> real) \<Rightarrow> 'd histogram" where
  "layout_histogram num =
     \<lparr>h_frequency = True, h_value = num, h_range = d3_layout_histogramRange, h_bins = d3_layout_histogramBinSturges\<rparr>"

definition histogram_value :: "'d histogram \<Rightarrow> ('d \<Rightarrow> real) \<Rightarrow> 'd histogram" where
  "histogram_value h x = h\<lparr>h_value := x\<rparr>"

definition histogram_range :: "'d histogram \<Rightarrow> (real list \<Rightarrow> real \<times> real) \<Rightarrow> 'd histogram" where
  "histogram_range h x = h\<lparr>h_range := x\<rparr>"

definition histogram_bins_fixed :: "'d histogram \<Rightarrow> nat \<Rightarrow> 'd histogram" where
  "histogram_bins_fixed h x = h\<lparr>h_bins := (\<lambda>rng vs. d3_layout_histogramBinFixed rng x)\<rparr>"

definition histogram_frequency :: "'d histogram \<Rightarrow> bool \<Rightarrow> 'd histogram" where
  "histogram_frequency h x = h\<lparr>h_frequency := x\<rparr>"

end
