(* ===== verification/D3_Hierarchy.thy ===== *)
theory D3_Hierarchy
  imports D3_Interpolate
begin

text \<open>
  Hierarchical layouts (\<open>d3.js\<close> lines 6360 to 6481 and 7074 to 7133): the hierarchy traversal,
  the partition layout and the cluster layout.

  The input is a finite tree, which is what the children accessor unfolds to.  A layout attaches
  its fields to the nodes in place; the model returns the tree with the fields, with the children
  in the order the layout leaves them in.  Numbers are finite reals.
\<close>

datatype 'a rose = Rose (root: 'a) (kids: "'a rose list")

section \<open>The hierarchy\<close>

record 'd hnode =
  hn_data :: 'd
  hn_depth :: nat
  hn_value :: "real option"

type_synonym 'd hsort = "('d hnode \<Rightarrow> 'd hnode \<Rightarrow> jsnum) option"
type_synonym 'd hvalue = "('d \<Rightarrow> nat \<Rightarrow> jsnum) option"

record 'd hierarchy =
  hy_sort :: "'d hsort"
  hy_value :: "'d hvalue"

text \<open>\<open>+value(...) || 0\<close>: \<open>NaN\<close> counts as zero; an infinite value is outside the model and read as zero.\<close>

definition leaf_value :: "'d hvalue \<Rightarrow> 'd \<Rightarrow> nat \<Rightarrow> real option" where
  "leaf_value val d depth = (case val of
     None \<Rightarrow> None
   | Some f \<Rightarrow> Some (case f d depth of Fin v \<Rightarrow> v | _ \<Rightarrow> 0))"

definition child_value :: "'d hnode rose \<Rightarrow> real" where
  "child_value t = (case hn_value (root t) of Some v \<Rightarrow> v | None \<Rightarrow> 0)"

fun recurse :: "'d hierarchy \<Rightarrow> nat \<Rightarrow> 'd rose \<Rightarrow> 'd hnode rose" where
  "recurse hy depth (Rose d childs) =
     (if childs \<noteq> [] then
        let c = map (recurse hy (depth + 1)) childs;
            v = foldl (\<lambda>v t. v + child_value t) 0 c;
            c' = (case hy_sort hy of None \<Rightarrow> c | Some f \<Rightarrow> js_sort (\<lambda>a b. f (root a) (root b)) c)
        in Rose \<lparr>hn_data = d, hn_depth = depth, hn_value = map_option (\<lambda>_. v) (hy_value hy)\<rparr> c'
      else Rose \<lparr>hn_data = d, hn_depth = depth, hn_value = leaf_value (hy_value hy) d depth\<rparr> [])"

fun preorder :: "'a rose \<Rightarrow> 'a list" where
  "preorder (Rose a ts) = a # concat (map preorder ts)"

text \<open>The nodes are collected in preorder of the input, before the children are sorted.\<close>

definition hierarchy_nodes :: "'d hierarchy \<Rightarrow> 'd rose \<Rightarrow> 'd hnode list" where
  "hierarchy_nodes hy d = preorder (recurse (hy\<lparr>hy_sort := None\<rparr>) 0 d)"

definition hierarchy_tree :: "'d hierarchy \<Rightarrow> 'd rose \<Rightarrow> 'd hnode rose" where
  "hierarchy_tree hy d = recurse hy 0 d"

fun revalue :: "'d hvalue \<Rightarrow> nat \<Rightarrow> 'd hnode rose \<Rightarrow> 'd hnode rose \<times> real" where
  "revalue val depth (Rose n ts) =
     (if ts \<noteq> [] then
        let rs = map (revalue val (depth + 1)) ts; v = foldl (\<lambda>v r. v + snd r) 0 rs
        in (Rose (case val of None \<Rightarrow> n | Some _ \<Rightarrow> n\<lparr>hn_value := Some v\<rparr>) (map fst rs), v)
      else let v = (case leaf_value val (hn_data n) depth of Some v \<Rightarrow> v | None \<Rightarrow> 0)
           in (Rose (case val of None \<Rightarrow> n | Some _ \<Rightarrow> n\<lparr>hn_value := Some v\<rparr>) [], v))"

definition d3_layout_hierarchySort :: "'d hnode \<Rightarrow> 'd hnode \<Rightarrow> jsnum" where
  "d3_layout_hierarchySort a b = (case (hn_value a, hn_value b) of (Some x, Some y) \<Rightarrow> Fin (y - x) | _ \<Rightarrow> NaN)"

definition layout_hierarchy :: "('d \<Rightarrow> nat \<Rightarrow> jsnum) \<Rightarrow> 'd hierarchy" where
  "layout_hierarchy val = \<lparr>hy_sort = Some d3_layout_hierarchySort, hy_value = Some val\<rparr>"

definition set_sort :: "'d hierarchy \<Rightarrow> 'd hsort \<Rightarrow> 'd hierarchy" where
  "set_sort hy x = hy\<lparr>hy_sort := x\<rparr>"

definition set_value :: "'d hierarchy \<Rightarrow> 'd hvalue \<Rightarrow> 'd hierarchy" where
  "set_value hy x = hy\<lparr>hy_value := x\<rparr>"

fun subtrees :: "'a rose \<Rightarrow> 'a rose list" where
  "subtrees (Rose a ts) = Rose a ts # concat (map subtrees ts)"

definition d3_layout_hierarchyLinks :: "'a rose list \<Rightarrow> ('a \<times> 'a) list" where
  "d3_layout_hierarchyLinks nodes = concat (map (\<lambda>p. map (\<lambda>c. (root p, root c)) (kids p)) nodes)"

section \<open>Partition\<close>

record 'n box =
  bx_node :: 'n
  bx_x :: real
  bx_y :: real
  bx_dx :: real
  bx_dy :: real

definition unit_width :: "'d hnode \<Rightarrow> real \<Rightarrow> real" where
  "unit_width n dx = (case hn_value n of Some v \<Rightarrow> if v \<noteq> 0 then dx / v else 0 | None \<Rightarrow> 0)"

fun partition_position :: "real \<Rightarrow> real \<Rightarrow> real \<Rightarrow> 'd hnode rose \<Rightarrow> 'd hnode box rose"
  and partition_children :: "real \<Rightarrow> real \<Rightarrow> real \<Rightarrow> 'd hnode rose list \<Rightarrow> 'd hnode box rose list" where
  "partition_position x dx dy (Rose n cs) =
     Rose \<lparr>bx_node = n, bx_x = x, bx_y = real (hn_depth n) * dy, bx_dx = dx, bx_dy = dy\<rparr>
       (partition_children x (unit_width n dx) dy cs)"
| "partition_children x k dy [] = []"
| "partition_children x k dy (c # cs) =
     (let d = child_value c * k in partition_position x d dy c # partition_children (x + d) k dy cs)"

fun partition_depth :: "'a rose \<Rightarrow> nat" where
  "partition_depth (Rose a ts) = 1 + foldl (\<lambda>d t. max d (partition_depth t)) 0 ts"

record 'd partition_state =
  pt_hierarchy :: "'d hierarchy"
  pt_size :: "real \<times> real"

definition layout_partition :: "('d \<Rightarrow> nat \<Rightarrow> jsnum) \<Rightarrow> 'd partition_state" where
  "layout_partition val = \<lparr>pt_hierarchy = layout_hierarchy val, pt_size = (1, 1)\<rparr>"

definition partition_set_size :: "'d partition_state \<Rightarrow> real \<times> real \<Rightarrow> 'd partition_state" where
  "partition_set_size pt x = pt\<lparr>pt_size := x\<rparr>"

definition partition_layout :: "'d partition_state \<Rightarrow> 'd rose \<Rightarrow> 'd hnode box rose" where
  "partition_layout pt d =
     (let t = hierarchy_tree (pt_hierarchy pt) d; sz = pt_size pt
      in partition_position 0 (fst sz) (snd sz / real (partition_depth t)) t)"

section \<open>Cluster\<close>

text \<open>
  A node of the tree and cluster layouts: the hierarchy's node and its path from the root, which is
  its identity; the parent of a node is its path without the last step.
\<close>

record 'd tnode =
  tn_node :: "'d hnode"
  tn_path :: "nat list"

fun number_tree :: "nat list \<Rightarrow> 'd hnode rose \<Rightarrow> 'd tnode rose"
  and number_list :: "nat list \<Rightarrow> nat \<Rightarrow> 'd hnode rose list \<Rightarrow> 'd tnode rose list" where
  "number_tree p (Rose n cs) = Rose \<lparr>tn_node = n, tn_path = p\<rparr> (number_list p 0 cs)"
| "number_list p i [] = []"
| "number_list p i (c # cs) = number_tree (p @ [i]) c # number_list p (i + 1) cs"

type_synonym 'd separation = "'d tnode \<Rightarrow> 'd tnode \<Rightarrow> real"

definition tn_parent :: "'d tnode \<Rightarrow> nat list option" where
  "tn_parent a = (if tn_path a = [] then None else Some (butlast (tn_path a)))"

definition d3_layout_treeSeparation :: "'d separation" where
  "d3_layout_treeSeparation a b = (if tn_parent a = tn_parent b then 1 else 2)"

record 'd placed =
  pl_node :: "'d tnode"
  pl_x :: real
  pl_y :: real

definition d3_layout_clusterY :: "'d placed rose list \<Rightarrow> real" where
  "d3_layout_clusterY cs = 1 + fold (\<lambda>c m. max m (pl_y (root c))) (tl cs) (pl_y (root (hd cs)))"

definition d3_layout_clusterX :: "'d placed rose list \<Rightarrow> real" where
  "d3_layout_clusterX cs = foldl (\<lambda>x c. x + pl_x (root c)) 0 cs / real (length cs)"

fun d3_layout_clusterLeft :: "'a rose \<Rightarrow> 'a" where
  "d3_layout_clusterLeft (Rose a []) = a"
| "d3_layout_clusterLeft (Rose a (c # cs)) = d3_layout_clusterLeft c"

fun d3_layout_clusterRight :: "'a rose \<Rightarrow> 'a" where
  "d3_layout_clusterRight (Rose a cs) = (case map d3_layout_clusterRight cs of [] \<Rightarrow> a | rs \<Rightarrow> last rs)"

text \<open>The first visit, children before their parent; the state is the previous leaf and its position.\<close>

fun cluster_place :: "'d separation \<Rightarrow> 'd tnode option \<times> real \<Rightarrow> 'd tnode rose \<Rightarrow> 'd placed rose \<times> 'd tnode option \<times> real"
  and cluster_list :: "'d separation \<Rightarrow> 'd tnode option \<times> real \<Rightarrow> 'd tnode rose list \<Rightarrow> 'd placed rose list \<times> 'd tnode option \<times> real" where
  "cluster_place sep s (Rose n cs) =
     (if cs \<noteq> [] then
        let (rs, s') = cluster_list sep s cs
        in (Rose \<lparr>pl_node = n, pl_x = d3_layout_clusterX rs, pl_y = d3_layout_clusterY rs\<rparr> rs, s')
      else case s of
        (None, x) \<Rightarrow> (Rose \<lparr>pl_node = n, pl_x = 0, pl_y = 0\<rparr> [], (Some n, x))
      | (Some prev, x) \<Rightarrow>
          let x' = x + sep n prev in (Rose \<lparr>pl_node = n, pl_x = x', pl_y = 0\<rparr> [], (Some n, x')))"
| "cluster_list sep s [] = ([], s)"
| "cluster_list sep s (c # cs) =
     (let (r, s') = cluster_place sep s c; (rs, s'') = cluster_list sep s' cs in (r # rs, s''))"

fun map_rose :: "('a \<Rightarrow> 'b) \<Rightarrow> 'a rose \<Rightarrow> 'b rose" where
  "map_rose f (Rose a ts) = Rose (f a) (map (map_rose f) ts)"

text \<open>
  The state of the tree and the cluster layout.  Setting \<open>size\<close> to null switches to node sizes and
  leaves no size, so that a layout throws until one is set.
\<close>

record 'd node_layout =
  nl_hierarchy :: "'d hierarchy"
  nl_separation :: "'d separation"
  nl_size :: "(real \<times> real) option"
  nl_nodeSize :: bool

definition layout_cluster :: "'d node_layout" where
  "layout_cluster =
     \<lparr>nl_hierarchy = \<lparr>hy_sort = None, hy_value = None\<rparr>, nl_separation = d3_layout_treeSeparation,
      nl_size = Some (1, 1), nl_nodeSize = False\<rparr>"

definition cluster_separation :: "'d node_layout \<Rightarrow> 'd separation \<Rightarrow> 'd node_layout" where
  "cluster_separation nl x = nl\<lparr>nl_separation := x\<rparr>"

definition cluster_size :: "'d node_layout \<Rightarrow> (real \<times> real) option \<Rightarrow> 'd node_layout" where
  "cluster_size nl x = nl\<lparr>nl_size := x, nl_nodeSize := (x = None)\<rparr>"

definition cluster_nodeSize :: "'d node_layout \<Rightarrow> (real \<times> real) option \<Rightarrow> 'd node_layout" where
  "cluster_nodeSize nl x = nl\<lparr>nl_size := x, nl_nodeSize := (x \<noteq> None)\<rparr>"

definition cluster_size_get :: "'d node_layout \<Rightarrow> (real \<times> real) option" where
  "cluster_size_get nl = (if nl_nodeSize nl then None else nl_size nl)"

definition cluster_nodeSize_get :: "'d node_layout \<Rightarrow> (real \<times> real) option" where
  "cluster_nodeSize_get nl = (if nl_nodeSize nl then nl_size nl else None)"

text \<open>
  The second visit.  The root is visited last, so every other node is scaled against the root's
  unscaled coordinates, and the root against its own.
\<close>

definition cluster_scale :: "'d separation \<Rightarrow> bool \<Rightarrow> real \<times> real \<Rightarrow> 'd placed rose \<Rightarrow> 'd placed rose" where
  "cluster_scale sep nodeSize sz t =
     (let r = root t; left = d3_layout_clusterLeft t; right = d3_layout_clusterRight t;
          x0 = pl_x left - sep (pl_node left) (pl_node right) / 2;
          x1 = pl_x right + sep (pl_node right) (pl_node left) / 2
      in if nodeSize
         then map_rose (\<lambda>n. n\<lparr>pl_x := (pl_x n - pl_x r) * fst sz, pl_y := (pl_y r - pl_y n) * snd sz\<rparr>) t
         else map_rose (\<lambda>n. n\<lparr>pl_x := (pl_x n - x0) / (x1 - x0) * fst sz,
                           pl_y := (1 - (if pl_y r \<noteq> 0 then pl_y n / pl_y r else 1)) * snd sz\<rparr>) t)"

definition cluster_layout :: "'d node_layout \<Rightarrow> 'd rose \<Rightarrow> 'd placed rose option" where
  "cluster_layout nl d =
     map_option (\<lambda>sz. cluster_scale (nl_separation nl) (nl_nodeSize nl) sz
         (fst (cluster_place (nl_separation nl) (None, 0) (number_tree [] (hierarchy_tree (nl_hierarchy nl) d)))))
       (nl_size nl)"

section \<open>Values\<close>

text \<open>The sum of the leaf values, the reference for the accumulated value of a node.\<close>

fun leaf_sum :: "('d \<Rightarrow> nat \<Rightarrow> jsnum) \<Rightarrow> nat \<Rightarrow> 'd rose \<Rightarrow> real" where
  "leaf_sum f k (Rose d ts) =
     (if ts = [] then the (leaf_value (Some f) d k) else sum_list (map (leaf_sum f (k + 1)) ts))"

fun all_leaves :: "('d \<Rightarrow> nat \<Rightarrow> bool) \<Rightarrow> nat \<Rightarrow> 'd rose \<Rightarrow> bool" where
  "all_leaves P k (Rose d ts) = (if ts = [] then P d k else list_all (all_leaves P (k + 1)) ts)"

lemma foldl_plus_sum_list: "foldl (\<lambda>(v :: real) t. v + g t) a ts = a + sum_list (map g ts)"
  by (induction ts arbitrary: a) (auto simp: algebra_simps)

lemma sum_list_js_sort [simp]: "sum_list (map g (js_sort cmp xs)) = (sum_list (map g xs) :: real)"
  by (metis mset_js_sort mset_map sum_mset_sum_list)

lemma root_recurse [simp]: "hn_data (root (recurse hy k t)) = root t" "hn_depth (root (recurse hy k t)) = k"
  by (cases t; simp add: Let_def)+

lemma recurse_value:
  "hy_value hy = Some f \<Longrightarrow> hn_value (root (recurse hy k t)) = Some (leaf_sum f k t)"
proof (induction f k t rule: leaf_sum.induct)
  case (1 f k d ts)
  then have "map child_value (map (recurse hy (k + 1)) ts) = map (leaf_sum f (k + 1)) ts"
    by (cases "ts = []") (auto simp: child_value_def)
  then show ?case using 1(2) by (auto simp: Let_def foldl_plus_sum_list leaf_value_def o_def cong: map_cong)
qed

lemma child_value_recurse: "hy_value hy = Some f \<Longrightarrow> child_value (recurse hy k t) = leaf_sum f k t"
  by (simp add: child_value_def recurse_value)

lemma leaf_sum_pos:
  "all_leaves (\<lambda>d k. \<exists>v > 0. f d k = Fin v) k t \<Longrightarrow> 0 < leaf_sum f k t"
proof (induction f k t rule: leaf_sum.induct)
  case (1 f k d ts)
  show ?case
  proof (cases ts)
    case (Cons a as)
    moreover have "0 \<le> sum_list (map (leaf_sum f (k + 1)) as)"
      using 1 Cons by (intro sum_list_nonneg) (auto simp: list_all_iff less_imp_le)
    ultimately show ?thesis using 1 by (auto simp: list_all_iff intro: add_pos_nonneg)
  qed (use 1 in \<open>auto simp: leaf_value_def\<close>)
qed

lemma kids_recurse: "set (kids (recurse hy k (Rose d ts))) = recurse hy (k + 1) ` set ts"
  by (auto simp: Let_def split: option.splits)

lemma sum_kids_recurse:
  "hy_value hy = Some f \<Longrightarrow> ts \<noteq> [] \<Longrightarrow> sum_list (map child_value (kids (recurse hy k (Rose d ts)))) = leaf_sum f k (Rose d ts)"
  by (auto simp: Let_def child_value_recurse o_def split: option.splits)

section \<open>Partition tiles\<close>

text \<open>Boxes that follow each other from \<open>a\<close> to \<open>b\<close> without gap or overlap, all in the row \<open>y\<close>.\<close>

fun contiguous :: "real \<Rightarrow> real \<Rightarrow> real \<Rightarrow> 'n box list \<Rightarrow> bool" where
  "contiguous y a b [] = (a = b)"
| "contiguous y a b (c # cs) = (bx_x c = a \<and> 0 \<le> bx_dx c \<and> bx_y c = y \<and> contiguous y (a + bx_dx c) b cs)"

lemma root_partition_position [simp]:
  "root (partition_position x dx dy t) = \<lparr>bx_node = root t, bx_x = x, bx_y = real (hn_depth (root t)) * dy, bx_dx = dx, bx_dy = dy\<rparr>"
  by (cases t) simp

lemma partition_children_contiguous:
  "(\<And>c. c \<in> set cs \<Longrightarrow> 0 \<le> child_value c \<and> real (hn_depth (root c)) * dy = y) \<Longrightarrow> 0 \<le> k \<Longrightarrow>
   b = x + sum_list (map child_value cs) * k \<Longrightarrow> contiguous y x b (map root (partition_children x k dy cs))"
  by (induction cs arbitrary: x) (auto simp: Let_def algebra_simps)

lemma partition_children_mem:
  "t \<in> set (partition_children x k dy cs) \<Longrightarrow> \<exists>c \<in> set cs. \<exists>x'. t = partition_position x' (child_value c * k) dy c"
  by (induction cs arbitrary: x) (auto simp: Let_def)

definition tiled :: "'d hnode box rose \<Rightarrow> bool" where
  "tiled t = (kids t = [] \<or>
     contiguous (bx_y (root t) + bx_dy (root t)) (bx_x (root t)) (bx_x (root t) + bx_dx (root t)) (map root (kids t)))"

lemma partition_position_tiled:
  "hy_value hy = Some f \<Longrightarrow> all_leaves (\<lambda>d k. \<exists>v > 0. f d k = Fin v) k d \<Longrightarrow> 0 \<le> dx \<Longrightarrow>
   t \<in> set (subtrees (partition_position x dx dy (recurse hy k d))) \<Longrightarrow> tiled t"
proof (induction f k d arbitrary: x dx rule: leaf_sum.induct)
  case (1 f k a ts)
  let ?n = "root (recurse hy k (Rose a ts))" and ?cs = "kids (recurse hy k (Rose a ts))"
  define u where "u = unit_width ?n dx"
  have pos: "0 < leaf_sum f k (Rose a ts)" by (rule leaf_sum_pos) (rule 1(3))
  have n: "hn_depth ?n = k" "hn_value ?n = Some (leaf_sum f k (Rose a ts))"
    using 1(2) recurse_value root_recurse by (metis, metis)
  then have u: "u = dx / leaf_sum f k (Rose a ts)" "0 \<le> u" using pos 1(4) by (auto simp: u_def unit_width_def)
  have kid: "0 < child_value c \<and> hn_depth (root c) = k + 1" if "c \<in> set ?cs" for c
    using that 1(2,3) unfolding kids_recurse by (auto simp: child_value_recurse list_all_iff leaf_sum_pos split: if_splits)
  have split: "partition_position x dx dy (recurse hy k (Rose a ts)) =
      Rose \<lparr>bx_node = ?n, bx_x = x, bx_y = real k * dy, bx_dx = dx, bx_dy = dy\<rparr> (partition_children x u dy ?cs)"
    using n(1) unfolding u_def by (cases "recurse hy k (Rose a ts)") simp
  have top: "tiled (partition_position x dx dy (recurse hy k (Rose a ts)))"
  proof (cases "ts = []")
    case True
    then show ?thesis by (simp add: tiled_def)
  next
    case False
    have "contiguous (real k * dy + dy) x (x + dx) (map root (partition_children x u dy ?cs))"
      using kid u pos sum_kids_recurse [OF 1(2) False, of k a]
      by (intro partition_children_contiguous) (auto simp: algebra_simps less_imp_le)
    then show ?thesis unfolding split tiled_def by simp
  qed
  show ?case
  proof (cases "t = partition_position x dx dy (recurse hy k (Rose a ts))")
    case True
    then show ?thesis using top by simp
  next
    case False
    then obtain b where b: "b \<in> set (partition_children x u dy ?cs)" "t \<in> set (subtrees b)"
      using 1(5) unfolding split by auto
    then obtain c x' where c: "c \<in> set ?cs" "b = partition_position x' (child_value c * u) dy c"
      using partition_children_mem by blast
    then obtain d where d: "d \<in> set ts" "c = recurse hy (k + 1) d" unfolding kids_recurse by auto
    have "ts \<noteq> []" "all_leaves (\<lambda>d k. \<exists>v > 0. f d k = Fin v) (k + 1) d"
      using d(1) 1(3) by (auto simp: list_all_iff split: if_splits)
    moreover have "0 \<le> child_value c * u" using kid [OF c(1)] u(2) by simp
    ultimately show ?thesis using 1(1) [OF _ d(1) 1(2)] b(2) c(2) d(2) by blast
  qed
qed

text \<open>
  Partition.  When every leaf has a positive value, the root fills the width of the layout and the
  children of every node tile its interval: in the row below their parent, from its left edge to
  its right edge, without gap or overlap.
\<close>

theorem partition_tiles:
  assumes "hy_value (pt_hierarchy pt) = Some f" "all_leaves (\<lambda>d k. \<exists>v > 0. f d k = Fin v) 0 d" "0 \<le> fst (pt_size pt)"
  shows "bx_x (root (partition_layout pt d)) = 0 \<and> bx_y (root (partition_layout pt d)) = 0 \<and>
    bx_dx (root (partition_layout pt d)) = fst (pt_size pt) \<and>
    (\<forall>t \<in> set (subtrees (partition_layout pt d)). tiled t)"
  using partition_position_tiled [OF assms] unfolding partition_layout_def hierarchy_tree_def by (simp add: Let_def)

theorem partition_tiles_witness:
  "list_all tiled (subtrees (partition_layout (layout_partition (\<lambda>v k. Fin v)) (Rose 0 [Rose 1 [], Rose 3 []])))"
  using partition_tiles [of "layout_partition (\<lambda>v k. Fin v)" "\<lambda>v k. Fin v" "Rose 0 [Rose 1 [], Rose 3 []]"]
  by (simp add: layout_partition_def layout_hierarchy_def list_all_iff)

end
