(* ===== verification/D3_Treemap.thy ===== *)
theory D3_Treemap
  imports D3_Hierarchy
begin

text \<open>
  The treemap layout (\<open>d3.js\<close> lines 7134 to 7306): squarified, sliced and sticky treemaps with
  padding and rounding.

  The layout attaches a rectangle, an area and a row mark \<open>z\<close> to every node; the model returns the
  tree with them.  Positions and values are finite reals and the two sizes are not negative.  Areas are
  numbers of the language: a node whose values cancel to zero has an infinite scale factor, and its
  children of positive value have infinite areas.
\<close>

section \<open>State\<close>

record rect =
  r_x :: real
  r_y :: real
  r_dx :: real
  r_dy :: real

record cell =
  c_rect :: rect
  c_area :: jsnum
  c_z :: "bool option"

type_synonym sides = "real \<times> real \<times> real \<times> real"

datatype pad_value = PadNumber real | PadSides sides
datatype 'd padding = NoPadding | PadConstant pad_value | PadFunction "'d hnode \<Rightarrow> nat \<Rightarrow> pad_value option"

record 'd treemap =
  tm_hierarchy :: "'d hierarchy"
  tm_round :: "real \<Rightarrow> real"
  tm_size :: "real \<times> real"
  tm_padding :: "'d padding"
  tm_mode :: string
  tm_ratio :: real
  tm_sticky :: bool
  tm_stickies :: "('d hnode \<times> cell) rose option"

definition d3_layout_treemapPadNull :: "rect \<Rightarrow> rect" where
  "d3_layout_treemapPadNull node = \<lparr>r_x = r_x node, r_y = r_y node, r_dx = r_dx node, r_dy = r_dy node\<rparr>"

definition d3_layout_treemapPad :: "rect \<Rightarrow> sides \<Rightarrow> rect" where
  "d3_layout_treemapPad node padding =
     (let (p0, p1, p2, p3) = padding;
          x = r_x node + p3; y = r_y node + p0; dx = r_dx node - p1 - p3; dy = r_dy node - p0 - p2
      in \<lparr>r_x = (if dx < 0 then x + dx / 2 else x), r_y = (if dy < 0 then y + dy / 2 else y),
          r_dx = (if dx < 0 then 0 else dx), r_dy = (if dy < 0 then 0 else dy)\<rparr>)"

fun pad_sides :: "pad_value \<Rightarrow> sides" where
  "pad_sides (PadNumber p) = (p, p, p, p)"
| "pad_sides (PadSides s) = s"

fun pad :: "'d padding \<Rightarrow> 'd hnode \<Rightarrow> rect \<Rightarrow> rect" where
  "pad NoPadding n r = d3_layout_treemapPadNull r"
| "pad (PadConstant p) n r = d3_layout_treemapPad r (pad_sides p)"
| "pad (PadFunction f) n r = (case f n (hn_depth n) of
     None \<Rightarrow> d3_layout_treemapPadNull r
   | Some p \<Rightarrow> d3_layout_treemapPad r (pad_sides p))"

section \<open>Squarified rows\<close>

definition scaled_area :: "jsnum \<Rightarrow> real \<Rightarrow> jsnum" where
  "scaled_area k v =
     (let area = js_mul (Fin v) (if num_lt k (Fin 0) then Fin 0 else k) in if area = NaN \<or> num_le area (Fin 0) then Fin 0 else area)"

definition area_scale :: "rect \<Rightarrow> 'd hnode \<Rightarrow> jsnum" where
  "area_scale r n = (case hn_value n of Some v \<Rightarrow> js_div (Fin (r_dx r * r_dy r)) (Fin v) | None \<Rightarrow> NaN)"

text \<open>The area of a row, and the worst aspect ratio of a row of areas along an edge of length \<open>u\<close>.\<close>

definition row_area :: "jsnum list \<Rightarrow> jsnum" where
  "row_area row = foldl js_add (Fin 0) row"

definition worst :: "real \<Rightarrow> jsnum list \<Rightarrow> real \<Rightarrow> jsnum" where
  "worst ratio row u =
     (let areas = filter (\<lambda>r. r \<noteq> Fin 0) row;
          rmin = foldl (\<lambda>m r. if num_lt r m then r else m) PInf areas;
          rmax = foldl (\<lambda>m r. if num_lt m r then r else m) (Fin 0) areas;
          s = js_mul (row_area row) (row_area row); u2 = Fin (u * u)
      in if s = Fin 0 \<or> s = NaN then PInf
         else js_max2 (js_div (js_mul (js_mul u2 rmax) (Fin ratio)) s) (js_div s (js_mul (js_mul u2 rmin) (Fin ratio))))"

fun round_with :: "(real \<Rightarrow> real) \<Rightarrow> jsnum \<Rightarrow> jsnum" where
  "round_with rnd (Fin x) = Fin (rnd x)"
| "round_with rnd x = x"

text \<open>
  The smaller of a finite number and another one, as a finite number.  Areas are neither negative nor \<open>NaN\<close> and
  sides are not negative, so that the last case does not occur.
\<close>

fun min_with :: "real \<Rightarrow> jsnum \<Rightarrow> real" where
  "min_with m (Fin x) = min m x"
| "min_with m PInf = m"
| "min_with m _ = m"

text \<open>
  A row of areas placed along the edge: the cells in order and the position reached.  The last
  cell of a row is widened to the end of the edge and carries the direction \<open>z\<close>.
\<close>

fun place_row :: "(real \<Rightarrow> real) \<Rightarrow> real \<Rightarrow> real \<Rightarrow> jsnum list \<Rightarrow> real \<Rightarrow> (real \<times> real) list" where
  "place_row rnd stop v [] p = []"
| "place_row rnd stop v [a] p = [(p, stop - p)]"
| "place_row rnd stop v (a # as) p =
     (let d = min_with (stop - p) (if v \<noteq> 0 then round_with rnd (js_div a (Fin v)) else Fin 0) in (p, d) # place_row rnd stop v as (p + d))"

definition row_marks :: "nat \<Rightarrow> bool \<Rightarrow> bool option list" where
  "row_marks n z = replicate (n - 1) None @ [Some z]"

definition treemap_position :: "(real \<Rightarrow> real) \<Rightarrow> jsnum list \<Rightarrow> real \<Rightarrow> rect \<Rightarrow> bool \<Rightarrow> cell list \<times> rect" where
  "treemap_position rnd row u rect flush =
     (let v0 = (if u \<noteq> 0 then round_with rnd (js_div (row_area row) (Fin u)) else Fin 0)
      in if u = r_dx rect then
           let v = (if flush \<or> num_lt (Fin (r_dy rect)) v0 then r_dy rect else min_with (r_dy rect) v0)
           in (map (\<lambda>((x, dx), a, z). \<lparr>c_rect = \<lparr>r_x = x, r_y = r_y rect, r_dx = dx, r_dy = v\<rparr>, c_area = a, c_z = z\<rparr>)
                 (zip (place_row rnd (r_x rect + r_dx rect) v row (r_x rect)) (zip row (row_marks (length row) True))),
               rect\<lparr>r_y := r_y rect + v, r_dy := r_dy rect - v\<rparr>)
         else
           let v = (if flush \<or> num_lt (Fin (r_dx rect)) v0 then r_dx rect else min_with (r_dx rect) v0)
           in (map (\<lambda>((y, dy), a, z). \<lparr>c_rect = \<lparr>r_x = r_x rect, r_y = y, r_dx = v, r_dy = dy\<rparr>, c_area = a, c_z = z\<rparr>)
                 (zip (place_row rnd (r_y rect + r_dy rect) v row (r_y rect)) (zip row (row_marks (length row) False))),
               rect\<lparr>r_x := r_x rect + v, r_dx := r_dx rect - v\<rparr>))"

text \<open>
  The main loop.  \<open>rest\<close> holds the remaining areas, last child first; a child that worsens the
  row starts a new row, where any score that is a number is good enough.  An infinite area has the score
  \<open>NaN\<close>, so that its row is refused even when it is the only one; positioning the empty row that is left
  throws, \<open>None\<close>.  (The area of the row before, from which the infinite area was taken off again, is then
  \<open>NaN\<close>; the layout throws whatever it is.)
\<close>

fun squarify_loop ::
  "(real \<Rightarrow> real) \<Rightarrow> real \<Rightarrow> bool \<Rightarrow> jsnum list \<Rightarrow> jsnum list \<Rightarrow> jsnum \<Rightarrow> real \<Rightarrow> rect \<Rightarrow> cell list option" where
  "squarify_loop rnd ratio sq [] row best u rect =
     (if row \<noteq> [] then Some (fst (treemap_position rnd row u rect True)) else Some [])"
| "squarify_loop rnd ratio sq (a # rest) row best u rect =
     (let score = worst ratio (row @ [a]) u
      in if \<not> sq then squarify_loop rnd ratio sq rest (row @ [a]) best u rect
         else if num_le score best then squarify_loop rnd ratio sq rest (row @ [a]) score u rect
         else if row = [] then None
         else let (cells, rect') = treemap_position rnd row u rect False; u' = min (r_dx rect') (r_dy rect'); score' = worst ratio [a] u'
              in if num_le score' PInf then map_option (\<lambda>cs. cells @ cs) (squarify_loop rnd ratio sq rest [a] score' u' rect')
                 else None)"

definition edge :: "string \<Rightarrow> nat \<Rightarrow> rect \<Rightarrow> real" where
  "edge mode depth rect =
     (if mode = ''slice'' then r_dx rect
      else if mode = ''dice'' then r_dy rect
      else if mode = ''slice-dice'' then if odd depth then r_dy rect else r_dx rect
      else min (r_dx rect) (r_dy rect))"

text \<open>The cells of the children of a node, in the order of the children.\<close>

definition squarify_cells :: "'d treemap \<Rightarrow> 'd hnode \<Rightarrow> cell \<Rightarrow> real list \<Rightarrow> cell list option" where
  "squarify_cells tm n c vs =
     (let rect = pad (tm_padding tm) n (c_rect c); k = area_scale rect n
      in map_option rev
           (squarify_loop (tm_round tm) (tm_ratio tm) (tm_mode tm = ''squarify'') (map (scaled_area k) (rev vs)) [] PInf
              (edge (tm_mode tm) (hn_depth n) rect) rect))"

fun squarify :: "'d treemap \<Rightarrow> cell \<Rightarrow> 'd hnode rose \<Rightarrow> ('d hnode \<times> cell) rose option"
  and squarify_list :: "'d treemap \<Rightarrow> cell list \<Rightarrow> 'd hnode rose list \<Rightarrow> ('d hnode \<times> cell) rose list option" where
  "squarify tm c (Rose n cs) =
     (if cs = [] then Some (Rose (n, c) [])
      else case squarify_cells tm n c (map child_value cs) of
             None \<Rightarrow> None
           | Some cells \<Rightarrow> map_option (Rose (n, c)) (squarify_list tm cells cs))"
| "squarify_list tm cells [] = Some []"
| "squarify_list tm cells (t # ts) =
     (case (squarify tm (hd cells) t, squarify_list tm (tl cells) ts) of
        (Some t', Some ts') \<Rightarrow> Some (t' # ts')
      | _ \<Rightarrow> None)"

section \<open>Sticky rows\<close>

text \<open>
  A sticky layout keeps the rows of the previous one, which the marks \<open>z\<close> delimit.  Children
  after the last mark keep their rectangle.
\<close>

fun stickify_loop :: "(real \<Rightarrow> real) \<Rightarrow> cell list \<Rightarrow> cell list \<Rightarrow> rect \<Rightarrow> cell list" where
  "stickify_loop rnd [] row rect = row"
| "stickify_loop rnd (c # rest) row rect =
     (case c_z c of
        None \<Rightarrow> stickify_loop rnd rest (row @ [c]) rect
      | Some b \<Rightarrow>
          let (cells, rect') = treemap_position rnd (map c_area (row @ [c])) (if b then r_dx rect else r_dy rect) rect (rest = [])
          in cells @ stickify_loop rnd rest [] rect')"

fun stickify :: "'d treemap \<Rightarrow> cell \<Rightarrow> ('d hnode \<times> cell) rose \<Rightarrow> ('d hnode \<times> cell) rose"
  and stickify_list :: "'d treemap \<Rightarrow> cell list \<Rightarrow> ('d hnode \<times> cell) rose list \<Rightarrow> ('d hnode \<times> cell) rose list" where
  "stickify tm c (Rose nc cs) =
     (let n = fst nc; rect = pad (tm_padding tm) n (c_rect c); k = area_scale rect n;
          items = map (\<lambda>t. (snd (root t))\<lparr>c_area := scaled_area k (case hn_value (fst (root t)) of Some v \<Rightarrow> v | None \<Rightarrow> 0)\<rparr>) cs
      in if cs = [] then Rose (n, c) []
         else Rose (n, c) (stickify_list tm (rev (stickify_loop (tm_round tm) (rev items) [] rect)) cs))"
| "stickify_list tm cells [] = []"
| "stickify_list tm cells (t # ts) = stickify tm (hd cells) t # stickify_list tm (tl cells) ts"

section \<open>The layout\<close>

definition root_cell :: "'d treemap \<Rightarrow> 'd hnode \<Rightarrow> cell" where
  "root_cell tm n =
     (let r = \<lparr>r_x = 0, r_y = 0, r_dx = fst (tm_size tm), r_dy = snd (tm_size tm)\<rparr>
      in \<lparr>c_rect = r, c_area = scaled_area (area_scale r n) (case hn_value n of Some v \<Rightarrow> v | None \<Rightarrow> 0), c_z = None\<rparr>)"

fun forget_cells :: "('d hnode \<times> cell) rose \<Rightarrow> 'd hnode rose" where
  "forget_cells (Rose nc cs) = Rose (fst nc) (map forget_cells cs)"

fun replace_nodes :: "'d hnode rose \<Rightarrow> ('d hnode \<times> cell) rose \<Rightarrow> ('d hnode \<times> cell) rose"
  and replace_list :: "'d hnode rose list \<Rightarrow> ('d hnode \<times> cell) rose list \<Rightarrow> ('d hnode \<times> cell) rose list" where
  "replace_nodes (Rose n ts) (Rose nc cs) = Rose (n, snd nc) (replace_list ts cs)"
| "replace_list (t # ts) (c # cs) = replace_nodes t c # replace_list ts cs"
| "replace_list _ _ = []"

definition treemap_layout :: "'d treemap \<Rightarrow> 'd rose \<Rightarrow> 'd treemap \<times> ('d hnode \<times> cell) rose option" where
  "treemap_layout tm d =
     (let result = (case tm_stickies tm of
            None \<Rightarrow> (let t = hierarchy_tree (tm_hierarchy tm) d in squarify tm (root_cell tm (root t)) t)
          | Some old \<Rightarrow>
              (let t = replace_nodes (fst (revalue (hy_value (tm_hierarchy tm)) 0 (forget_cells old))) old
               in Some (stickify tm (root_cell tm (fst (root t))) t)))
      in (if tm_sticky tm then tm\<lparr>tm_stickies := result\<rparr> else tm, result))"

definition treemap_size :: "'d treemap \<Rightarrow> real \<times> real \<Rightarrow> 'd treemap" where
  "treemap_size tm x = tm\<lparr>tm_size := x\<rparr>"

definition treemap_padding :: "'d treemap \<Rightarrow> 'd padding \<Rightarrow> 'd treemap" where
  "treemap_padding tm x = tm\<lparr>tm_padding := x\<rparr>"

definition treemap_round :: "'d treemap \<Rightarrow> bool \<Rightarrow> 'd treemap" where
  "treemap_round tm x = tm\<lparr>tm_round := (if x then js_round else (\<lambda>v. v))\<rparr>"

definition treemap_sticky :: "'d treemap \<Rightarrow> bool \<Rightarrow> 'd treemap" where
  "treemap_sticky tm x = tm\<lparr>tm_sticky := x, tm_stickies := None\<rparr>"

definition treemap_ratio :: "'d treemap \<Rightarrow> real \<Rightarrow> 'd treemap" where
  "treemap_ratio tm x = tm\<lparr>tm_ratio := x\<rparr>"

definition treemap_mode :: "'d treemap \<Rightarrow> string \<Rightarrow> 'd treemap" where
  "treemap_mode tm x = tm\<lparr>tm_mode := x\<rparr>"

definition layout_treemap :: "('d \<Rightarrow> nat \<Rightarrow> jsnum) \<Rightarrow> 'd treemap" where
  "layout_treemap val =
     \<lparr>tm_hierarchy = layout_hierarchy val, tm_round = js_round, tm_size = (1, 1), tm_padding = NoPadding,
      tm_mode = ''squarify'', tm_ratio = 1 / 2 * (1 + sqrt 5), tm_sticky = False, tm_stickies = None\<rparr>"

section \<open>Cells tile their rectangle\<close>

definition rect_ok :: "rect \<Rightarrow> bool" where
  "rect_ok r = (0 \<le> r_dx r \<and> 0 \<le> r_dy r)"

definition inside :: "rect \<Rightarrow> rect \<Rightarrow> bool" where
  "inside a b = (rect_ok a \<and> r_x b \<le> r_x a \<and> r_y b \<le> r_y a \<and>
     r_x a + r_dx a \<le> r_x b + r_dx b \<and> r_y a + r_dy a \<le> r_y b + r_dy b)"

definition apart :: "rect \<Rightarrow> rect \<Rightarrow> bool" where
  "apart a b = (r_x a + r_dx a \<le> r_x b \<or> r_x b + r_dx b \<le> r_x a \<or> r_y a + r_dy a \<le> r_y b \<or> r_y b + r_dy b \<le> r_y a)"

definition rect_area :: "rect \<Rightarrow> real" where
  "rect_area r = r_dx r * r_dy r"

text \<open>A list of rectangles that fills a rectangle: inside it, pairwise apart, and with its total area.\<close>

definition fills :: "rect list \<Rightarrow> rect \<Rightarrow> bool" where
  "fills rs r = ((\<forall>c \<in> set rs. inside c r) \<and> sorted_wrt apart rs \<and> sum_list (map rect_area rs) = rect_area r)"

lemma inside_trans: "inside a b \<Longrightarrow> inside b c \<Longrightarrow> inside a c"
  by (auto simp: inside_def)

lemma apart_inside: "apart a b \<Longrightarrow> inside c b \<Longrightarrow> apart a c"
  by (auto simp: apart_def inside_def rect_ok_def)

lemma apart_sym: "apart a b \<Longrightarrow> apart b a"
  by (auto simp: apart_def)

lemma fills_rev: "fills rs r \<Longrightarrow> fills (rev rs) r"
  by (auto simp: fills_def sorted_wrt_rev rev_map [symmetric] intro: sorted_wrt_mono_rel [rotated] apart_sym)

definition keeps_nonneg :: "(real \<Rightarrow> real) \<Rightarrow> bool" where
  "keeps_nonneg rnd = (\<forall>x \<ge> 0. 0 \<le> rnd x)"

text \<open>Areas are not negative and never \<open>NaN\<close>.\<close>

fun area_ok :: "jsnum \<Rightarrow> bool" where
  "area_ok (Fin x) = (0 \<le> x)"
| "area_ok PInf = True"
| "area_ok _ = False"

lemma area_ok_div: "area_ok a \<Longrightarrow> 0 < v \<Longrightarrow> area_ok (js_div a (Fin v))"
  by (cases a) auto

lemma area_ok_round: "keeps_nonneg rnd \<Longrightarrow> area_ok a \<Longrightarrow> area_ok (round_with rnd a)"
  by (cases a) (auto simp: keeps_nonneg_def)

lemma area_ok_add: "area_ok a \<Longrightarrow> area_ok b \<Longrightarrow> area_ok (js_add a b)"
  by (cases a; cases b) auto

lemma row_area_ok: "\<forall>a \<in> set row. area_ok a \<Longrightarrow> area_ok (row_area row)"
proof -
  have "area_ok m \<Longrightarrow> \<forall>a \<in> set row. area_ok a \<Longrightarrow> area_ok (foldl js_add m row)" for m
    by (induction row arbitrary: m) (simp_all add: area_ok_add)
  then show "\<forall>a \<in> set row. area_ok a \<Longrightarrow> area_ok (row_area row)" by (simp add: row_area_def)
qed

lemma min_with_bounds: "area_ok a \<Longrightarrow> 0 \<le> m \<Longrightarrow> 0 \<le> min_with m a \<and> min_with m a \<le> m"
  by (cases a) auto

text \<open>The share of a length that an area gets, rounded and cut to what is left.\<close>

lemma share_bounds:
  "keeps_nonneg rnd \<Longrightarrow> area_ok a \<Longrightarrow> 0 \<le> v \<Longrightarrow> 0 \<le> m \<Longrightarrow>
   0 \<le> min_with m (if v \<noteq> 0 then round_with rnd (js_div a (Fin v)) else Fin 0) \<and>
   min_with m (if v \<noteq> 0 then round_with rnd (js_div a (Fin v)) else Fin 0) \<le> m"
  by (rule min_with_bounds) (simp_all add: area_ok_round area_ok_div)

lemma length_place_row [simp]: "length (place_row rnd stop v as p) = length as"
  by (induction rnd stop v as p rule: place_row.induct) (auto simp: Let_def)

lemma place_row_bounds:
  "keeps_nonneg rnd \<Longrightarrow> \<forall>a \<in> set as. area_ok a \<Longrightarrow> 0 \<le> v \<Longrightarrow> p \<le> stop \<Longrightarrow>
   (\<forall>(x, d) \<in> set (place_row rnd stop v as p). p \<le> x \<and> 0 \<le> d \<and> x + d \<le> stop) \<and>
   sorted_wrt (\<lambda>(x, d) (x', d'). x + d \<le> x') (place_row rnd stop v as p)"
proof (induction rnd stop v as p rule: place_row.induct)
  case (3 rnd stop v a b as p)
  define d where "d = min_with (stop - p) (if v \<noteq> 0 then round_with rnd (js_div a (Fin v)) else Fin 0)"
  have d: "0 \<le> d" "p + d \<le> stop" using share_bounds [of rnd a v "stop - p"] 3 by (simp_all add: d_def)
  have "(\<forall>(x, e) \<in> set (place_row rnd stop v (b # as) (p + d)). p + d \<le> x \<and> 0 \<le> e \<and> x + e \<le> stop) \<and>
      sorted_wrt (\<lambda>(x, d) (x', d'). x + d \<le> x') (place_row rnd stop v (b # as) (p + d))"
    using 3 d(2) by (intro "3.IH" [OF d_def]) auto
  then show ?case unfolding place_row.simps(3) Let_def d_def [symmetric] using d by fastforce
qed auto

lemma place_row_total: "as \<noteq> [] \<Longrightarrow> (\<Sum>(x, d) \<leftarrow> place_row rnd stop v as p. d) = stop - p"
  by (induction rnd stop v as p rule: place_row.induct) (auto simp: Let_def)

definition across :: "real \<Rightarrow> real \<Rightarrow> real \<times> real \<Rightarrow> rect" where
  "across y v = (\<lambda>(x, d). \<lparr>r_x = x, r_y = y, r_dx = d, r_dy = v\<rparr>)"

definition down :: "real \<Rightarrow> real \<Rightarrow> real \<times> real \<Rightarrow> rect" where
  "down x v = (\<lambda>(y, d). \<lparr>r_x = x, r_y = y, r_dx = v, r_dy = d\<rparr>)"

lemma length_row_marks [simp]: "0 < n \<Longrightarrow> length (row_marks n z) = n"
  by (simp add: row_marks_def)

lemma map_zip_rects:
  "length ps = length ys \<Longrightarrow>
   map (\<lambda>x. \<lparr>r_x = fst (fst x), r_y = y, r_dx = snd (fst x), r_dy = v\<rparr>) (zip ps ys) = map (across y v) ps"
  "length ps = length ys \<Longrightarrow>
   map (\<lambda>x. \<lparr>r_x = x', r_y = fst (fst x), r_dx = v, r_dy = snd (fst x)\<rparr>) (zip ps ys) = map (down x' v) ps"
  by (induction ps ys rule: list_induct2) (auto simp: across_def down_def)

definition row_depth :: "(real \<Rightarrow> real) \<Rightarrow> jsnum list \<Rightarrow> real \<Rightarrow> bool \<Rightarrow> real \<Rightarrow> real" where
  "row_depth rnd row u flush m =
     (let v0 = (if u \<noteq> 0 then round_with rnd (js_div (row_area row) (Fin u)) else Fin 0)
      in if flush \<or> num_lt (Fin m) v0 then m else min_with m v0)"

lemma treemap_position_rects:
  assumes "row \<noteq> []"
  shows "map c_rect (fst (treemap_position rnd row u rect flush)) =
      (if u = r_dx rect
       then map (across (r_y rect) (row_depth rnd row u flush (r_dy rect)))
              (place_row rnd (r_x rect + r_dx rect) (row_depth rnd row u flush (r_dy rect)) row (r_x rect))
       else map (down (r_x rect) (row_depth rnd row u flush (r_dx rect)))
              (place_row rnd (r_y rect + r_dy rect) (row_depth rnd row u flush (r_dx rect)) row (r_y rect)))"
    and "snd (treemap_position rnd row u rect flush) =
      (if u = r_dx rect
       then let v = row_depth rnd row u flush (r_dy rect) in rect\<lparr>r_y := r_y rect + v, r_dy := r_dy rect - v\<rparr>
       else let v = row_depth rnd row u flush (r_dx rect) in rect\<lparr>r_x := r_x rect + v, r_dx := r_dx rect - v\<rparr>)"
  using assms
  by (simp_all add: treemap_position_def Let_def row_depth_def case_prod_beta comp_def map_zip_rects)

lemma row_depth_bounds:
  "keeps_nonneg rnd \<Longrightarrow> \<forall>a \<in> set row. area_ok a \<Longrightarrow> 0 \<le> u \<Longrightarrow> 0 \<le> m \<Longrightarrow>
   0 \<le> row_depth rnd row u flush m \<and> row_depth rnd row u flush m \<le> m"
  using share_bounds [of rnd "row_area row" u m] row_area_ok [of row] by (simp add: row_depth_def Let_def)

lemma row_depth_flush [simp]: "row_depth rnd row u True m = m"
  by (simp add: row_depth_def)

lemma sum_across: "sum_list (map (rect_area \<circ> across y v) ps) = (\<Sum>(x, d) \<leftarrow> ps. d) * v"
  by (induction ps) (auto simp: across_def rect_area_def algebra_simps)

lemma sum_down: "sum_list (map (rect_area \<circ> down x v) ps) = v * (\<Sum>(y, d) \<leftarrow> ps. d)"
  by (induction ps) (auto simp: down_def rect_area_def algebra_simps)

text \<open>A row cuts a strip off the rectangle: its cells fill the strip and are apart from the rest.\<close>

lemma treemap_position_splits:
  assumes "keeps_nonneg rnd" "\<forall>a \<in> set row. area_ok a" "0 \<le> u" "rect_ok rect" "row \<noteq> []"
    and "treemap_position rnd row u rect flush = (cells, rest)"
  shows "length cells = length row \<and> rect_ok rest \<and> inside rest rect \<and> (\<forall>c \<in> set (map c_rect cells). inside c rect \<and> apart c rest) \<and>
    sorted_wrt apart (map c_rect cells) \<and> sum_list (map rect_area (map c_rect cells)) + rect_area rest = rect_area rect \<and>
    (flush \<longrightarrow> rect_area rest = 0)"
proof (cases "u = r_dx rect")
  case True
  define v where "v = row_depth rnd row u flush (r_dy rect)"
  define ps where "ps = place_row rnd (r_x rect + r_dx rect) v row (r_x rect)"
  have v: "0 \<le> v" "v \<le> r_dy rect" "flush \<Longrightarrow> v = r_dy rect"
    using row_depth_bounds [OF assms(1-3), of "r_dy rect" flush] assms(4) by (auto simp: v_def rect_ok_def)
  have cells: "map c_rect cells = map (across (r_y rect) v) ps" "rest = rect\<lparr>r_y := r_y rect + v, r_dy := r_dy rect - v\<rparr>"
    using treemap_position_rects [OF assms(5), of rnd u rect flush] assms(6) True by (simp_all add: v_def ps_def Let_def)
  have b: "\<forall>(x, d) \<in> set ps. r_x rect \<le> x \<and> 0 \<le> d \<and> x + d \<le> r_x rect + r_dx rect"
      "sorted_wrt (\<lambda>(x, d) (x', d'). x + d \<le> x') ps"
    using place_row_bounds [OF assms(1,2) v(1), of "r_x rect" "r_x rect + r_dx rect"] assms(4) by (auto simp: ps_def rect_ok_def)
  have "length (map c_rect cells) = length row" unfolding cells(1) by (simp add: ps_def)
  moreover have "\<forall>c \<in> set (map c_rect cells). inside c rect \<and> apart c rest"
    unfolding cells using b(1) v by (auto simp: across_def inside_def apart_def rect_ok_def)
  moreover have "sorted_wrt apart (map c_rect cells)"
    unfolding cells sorted_wrt_map using b(2) by (rule sorted_wrt_mono_rel [rotated]) (auto simp: across_def apart_def)
  moreover have "sum_list (map rect_area (map c_rect cells)) = r_dx rect * v"
    unfolding cells using place_row_total [OF assms(5), of rnd _ v] by (simp add: sum_across ps_def)
  ultimately show ?thesis using v assms(4) unfolding cells(2) by (auto simp: rect_ok_def inside_def rect_area_def algebra_simps)
next
  case False
  define v where "v = row_depth rnd row u flush (r_dx rect)"
  define ps where "ps = place_row rnd (r_y rect + r_dy rect) v row (r_y rect)"
  have v: "0 \<le> v" "v \<le> r_dx rect" "flush \<Longrightarrow> v = r_dx rect"
    using row_depth_bounds [OF assms(1-3), of "r_dx rect" flush] assms(4) by (auto simp: v_def rect_ok_def)
  have cells: "map c_rect cells = map (down (r_x rect) v) ps" "rest = rect\<lparr>r_x := r_x rect + v, r_dx := r_dx rect - v\<rparr>"
    using treemap_position_rects [OF assms(5), of rnd u rect flush] assms(6) False by (simp_all add: v_def ps_def Let_def)
  have b: "\<forall>(x, d) \<in> set ps. r_y rect \<le> x \<and> 0 \<le> d \<and> x + d \<le> r_y rect + r_dy rect"
      "sorted_wrt (\<lambda>(x, d) (x', d'). x + d \<le> x') ps"
    using place_row_bounds [OF assms(1,2) v(1), of "r_y rect" "r_y rect + r_dy rect"] assms(4) by (auto simp: ps_def rect_ok_def)
  have "length (map c_rect cells) = length row" unfolding cells(1) by (simp add: ps_def)
  moreover have "\<forall>c \<in> set (map c_rect cells). inside c rect \<and> apart c rest"
    unfolding cells using b(1) v by (auto simp: down_def inside_def apart_def rect_ok_def)
  moreover have "sorted_wrt apart (map c_rect cells)"
    unfolding cells sorted_wrt_map using b(2) by (rule sorted_wrt_mono_rel [rotated]) (auto simp: down_def apart_def)
  moreover have "sum_list (map rect_area (map c_rect cells)) = v * r_dy rect"
    unfolding cells using place_row_total [OF assms(5), of rnd _ v] by (simp add: sum_down ps_def)
  ultimately show ?thesis using v assms(4) unfolding cells(2) by (auto simp: rect_ok_def inside_def rect_area_def algebra_simps)
qed

lemma fills_append:
  assumes "\<forall>c \<in> set as. inside c r \<and> apart c r'" "sorted_wrt apart as" "sum_list (map rect_area as) + rect_area r' = rect_area r"
    and "inside r' r" "fills bs r'"
  shows "fills (as @ bs) r"
  using assms unfolding fills_def by (auto simp: sorted_wrt_append intro: inside_trans apart_inside)

text \<open>
  The squarifying loop never positions an empty row where the areas are finite, nor does any other mode, and the cells fill the
  rectangle.
\<close>

lemma worst_single: "0 \<le> a \<Longrightarrow> worst ratio [Fin a] u \<noteq> NaN"
  by (simp add: worst_def row_area_def js_max2_def Let_def js_inf_def)

lemma worst_single_le: "0 \<le> a \<Longrightarrow> num_le (worst ratio [Fin a] u) PInf"
  using worst_single [of a ratio u] by (cases "worst ratio [Fin a] u") auto

definition loop_area :: "bool \<Rightarrow> jsnum \<Rightarrow> bool" where
  "loop_area sq a = (area_ok a \<and> (sq \<longrightarrow> a \<noteq> PInf))"

lemma loop_area_Fin: "loop_area True a \<Longrightarrow> \<exists>x \<ge> 0. a = Fin x"
  by (cases a) (auto simp: loop_area_def)

lemma squarify_loop_fills:
  "keeps_nonneg rnd \<Longrightarrow> \<forall>a \<in> set rest \<union> set row. loop_area sq a \<Longrightarrow> 0 \<le> u \<Longrightarrow> rect_ok rect \<Longrightarrow>
   row \<noteq> [] \<or> rest \<noteq> [] \<and> best = PInf \<Longrightarrow>
   \<exists>cells. squarify_loop rnd ratio sq rest row best u rect = Some cells \<and>
     length cells = length row + length rest \<and> fills (map c_rect cells) rect"
proof (induction rnd ratio sq rest row best u rect rule: squarify_loop.induct)
  case (1 rnd ratio sq row best u rect)
  obtain cells rest where p: "treemap_position rnd row u rect True = (cells, rest)" by fastforce
  show ?case using treemap_position_splits [OF 1(1) _ 1(3,4) _ p] 1(2,5) p by (simp add: fills_def loop_area_def)
next
  case (2 rnd ratio sq a rest row best u rect)
  define score where "score = worst ratio (row @ [a]) u"
  show ?case
  proof (cases "\<not> sq \<or> num_le score best")
    case True
    then show ?thesis using "2.IH"(1,2) [OF score_def] "2.prems" by (auto simp: score_def Let_def)
  next
    case False
    then obtain x where a: "a = Fin x" "0 \<le> x" using loop_area_Fin [of a] "2.prems"(2) by auto
    then have row: "row \<noteq> []" using "2.prems"(5) False worst_single_le [of x ratio u] by (auto simp: score_def)
    obtain cells rect' where p: "treemap_position rnd row u rect False = (cells, rect')" by fastforce
    have s: "length cells = length row \<and> rect_ok rect' \<and> inside rect' rect \<and>
        (\<forall>c \<in> set (map c_rect cells). inside c rect \<and> apart c rect') \<and> sorted_wrt apart (map c_rect cells) \<and>
        sum_list (map rect_area (map c_rect cells)) + rect_area rect' = rect_area rect \<and> (False \<longrightarrow> rect_area rect' = 0)"
      using "2.prems" row by (intro treemap_position_splits [OF _ _ _ _ _ p]) (auto simp: loop_area_def)
    let ?w = "min (r_dx rect') (r_dy rect')"
    have n: "num_le (worst ratio [a] ?w) PInf" using worst_single_le [OF a(2)] a(1) by simp
    have "\<exists>cs. squarify_loop rnd ratio sq rest [a] (worst ratio [a] ?w) ?w rect' = Some cs \<and>
        length cs = length [a] + length rest \<and> fills (map c_rect cs) rect'"
      using "2.prems" s False row n by (intro "2.IH"(3) [OF score_def _ _ _ p [symmetric] refl refl]) (auto simp: rect_ok_def)
    then obtain cs where cs: "squarify_loop rnd ratio sq rest [a] (worst ratio [a] ?w) ?w rect' = Some cs"
        "length cs = 1 + length rest" "fills (map c_rect cs) rect'" by auto
    have "fills (map c_rect (cells @ cs)) rect"
      unfolding map_append using s cs(3) by (intro fills_append [of _ _ rect']) auto
    then show ?thesis using False row p cs s n by (simp add: score_def Let_def)
  qed
qed

definition filled :: "'d treemap \<Rightarrow> ('d hnode \<times> cell) rose \<Rightarrow> bool" where
  "filled tm t = (kids t = [] \<or>
     fills (map (\<lambda>c. c_rect (snd (root c))) (kids t)) (pad (tm_padding tm) (fst (root t)) (c_rect (snd (root t)))))"

lemma pad_ok: "rect_ok r \<Longrightarrow> rect_ok (pad p n r)"
  by (cases p) (auto simp: rect_ok_def d3_layout_treemapPadNull_def d3_layout_treemapPad_def Let_def split: option.splits prod.splits)

lemma edge_nonneg: "rect_ok r \<Longrightarrow> 0 \<le> edge mode depth r"
  by (auto simp: edge_def rect_ok_def)

lemma scaled_area_ok: "area_ok (scaled_area k v)"
  by (cases k) (auto simp: scaled_area_def Let_def js_inf_def)

text \<open>Areas are finite unless the values of the children of a node cancel.\<close>

definition cancelled :: "'d hnode \<Rightarrow> real list \<Rightarrow> bool" where
  "cancelled n vs = (hn_value n = Some 0 \<and> (\<exists>v \<in> set vs. 0 < v))"

lemma scaled_area_finite: "\<not> cancelled n vs \<Longrightarrow> v \<in> set vs \<Longrightarrow> scaled_area (area_scale r n) v \<noteq> PInf"
  by (cases "hn_value n") (auto simp: cancelled_def scaled_area_def area_scale_def Let_def js_inf_def not_less)

lemma squarify_cells_fill:
  assumes "keeps_nonneg (tm_round tm)" "rect_ok (c_rect c)" "vs \<noteq> []" "tm_mode tm = ''squarify'' \<Longrightarrow> \<not> cancelled n vs"
  obtains cells where "squarify_cells tm n c vs = Some cells" "length cells = length vs"
    "fills (map c_rect cells) (pad (tm_padding tm) n (c_rect c))"
proof -
  define rect where "rect = pad (tm_padding tm) n (c_rect c)"
  define as where "as = map (scaled_area (area_scale rect n)) (rev vs)"
  have "\<forall>a \<in> set as. loop_area (tm_mode tm = ''squarify'') a"
    using assms(4) scaled_area_finite [of n vs] by (auto simp: as_def loop_area_def scaled_area_ok)
  then obtain cs where "squarify_loop (tm_round tm) (tm_ratio tm) (tm_mode tm = ''squarify'') as [] PInf (edge (tm_mode tm) (hn_depth n) rect) rect = Some cs"
      "length cs = length ([] :: real list) + length as" "fills (map c_rect cs) rect"
    using squarify_loop_fills [OF assms(1), of as "[]" "tm_mode tm = ''squarify''" "edge (tm_mode tm) (hn_depth n) rect" rect PInf "tm_ratio tm"]
      assms(2,3) by (auto simp: as_def edge_nonneg rect_def pad_ok)
  then show thesis
    by (intro that [of "rev cs"]) (auto simp: squarify_cells_def Let_def as_def rect_def rev_map [symmetric] fills_rev)
qed

lemma fills_ok: "fills rs r \<Longrightarrow> c \<in> set rs \<Longrightarrow> rect_ok c"
  by (auto simp: fills_def inside_def)

definition cancels :: "'d hnode rose \<Rightarrow> bool" where
  "cancels t = cancelled (root t) (map child_value (kids t))"

lemma squarify_filled:
  "keeps_nonneg (tm_round tm) \<Longrightarrow> rect_ok (c_rect c) \<Longrightarrow> (\<forall>s \<in> set (subtrees t). tm_mode tm = ''squarify'' \<longrightarrow> \<not> cancels s) \<Longrightarrow>
   \<exists>t'. squarify tm c t = Some t' \<and> snd (root t') = c \<and> (\<forall>s \<in> set (subtrees t'). filled tm s)"
  "keeps_nonneg (tm_round tm) \<Longrightarrow> \<forall>c \<in> set cells. rect_ok (c_rect c) \<Longrightarrow> length cells = length ts \<Longrightarrow>
   (\<forall>t \<in> set ts. \<forall>s \<in> set (subtrees t). tm_mode tm = ''squarify'' \<longrightarrow> \<not> cancels s) \<Longrightarrow>
   \<exists>ts'. squarify_list tm cells ts = Some ts' \<and> map (\<lambda>t. snd (root t)) ts' = cells \<and> (\<forall>t' \<in> set ts'. \<forall>s \<in> set (subtrees t'). filled tm s)"
proof (induction tm c t and tm cells ts rule: squarify_squarify_list.induct)
  case (1 tm c n cs)
  show ?case
  proof (cases "cs = []")
    case False
    have "tm_mode tm = ''squarify'' \<Longrightarrow> \<not> cancelled n (map child_value cs)" using "1.prems"(3) by (simp add: cancels_def)
    then obtain cells where cells: "squarify_cells tm n c (map child_value cs) = Some cells" "length cells = length (map child_value cs)"
        "fills (map c_rect cells) (pad (tm_padding tm) n (c_rect c))"
      using squarify_cells_fill [OF "1.prems"(1,2), of "map child_value cs" n] False by blast
    have "\<forall>c \<in> set cells. rect_ok (c_rect c)" using fills_ok [OF cells(3)] by simp
    then obtain ts' where ts: "squarify_list tm cells cs = Some ts'" "map (\<lambda>t. snd (root t)) ts' = cells"
        "\<forall>t' \<in> set ts'. \<forall>s \<in> set (subtrees t'). filled tm s"
      using "1.IH" [OF False cells(1) "1.prems"(1)] cells(2) "1.prems"(3) by auto
    have "map (\<lambda>c. c_rect (snd (root c))) ts' = map c_rect cells" unfolding ts(2) [symmetric] by simp
    then have "filled tm (Rose (n, c) ts')" using cells(3) by (simp add: filled_def)
    then show ?thesis using False cells(1) ts(1,3) by auto
  qed (simp add: filled_def)
next
  case (3 tm cells t ts)
  then obtain c cs where cells: "cells = c # cs" by (cases cells) auto
  obtain t' where t: "squarify tm c t = Some t'" "snd (root t') = c" "\<forall>s \<in> set (subtrees t'). filled tm s"
    using 3 cells by auto
  obtain ts' where ts: "squarify_list tm cs ts = Some ts'" "map (\<lambda>t. snd (root t)) ts' = cs"
      "\<forall>t' \<in> set ts'. \<forall>s \<in> set (subtrees t'). filled tm s"
    using 3 cells by auto
  show ?case using t ts by (auto simp: cells)
qed auto

lemma js_round_nonneg: "keeps_nonneg js_round"
  by (auto simp: keeps_nonneg_def js_round_def)

text \<open>
  The values of the leaves: finite or \<open>NaN\<close>, which counts as zero, and not negative in the squarified mode.  Then no values
  cancel there.
\<close>

definition leaf_fits :: "'d treemap \<Rightarrow> jsnum \<Rightarrow> bool" where
  "leaf_fits tm v = (case v of NaN \<Rightarrow> True | Fin x \<Rightarrow> tm_mode tm \<noteq> ''squarify'' \<or> 0 \<le> x | _ \<Rightarrow> False)"

definition values_fit :: "'d treemap \<Rightarrow> 'd rose \<Rightarrow> bool" where
  "values_fit tm d = (case hy_value (tm_hierarchy tm) of None \<Rightarrow> True | Some f \<Rightarrow> all_leaves (\<lambda>d k. leaf_fits tm (f d k)) 0 d)"

lemma leaf_sum_nonneg:
  "tm_mode tm = ''squarify'' \<Longrightarrow> all_leaves (\<lambda>d k. leaf_fits tm (f d k)) k t \<Longrightarrow> 0 \<le> leaf_sum f k t"
proof (induction f k t rule: leaf_sum.induct)
  case (1 f k d ts)
  show ?case
  proof (cases "ts = []")
    case True
    then show ?thesis using 1(2,3) by (auto simp: leaf_value_def leaf_fits_def split: jsnum.splits)
  next
    case False
    then have "\<forall>t \<in> set ts. 0 \<le> leaf_sum f (k + 1) t" using 1 by (auto simp: list_all_iff)
    then show ?thesis using False by (auto intro!: sum_list_nonneg)
  qed
qed

lemma recurse_not_cancels:
  assumes "tm_mode tm = ''squarify''" "hy_value hy = Some f" "all_leaves (\<lambda>d k. leaf_fits tm (f d k)) k t"
  shows "\<not> cancels (recurse hy k t)"
proof (cases t)
  case (Rose d ts)
  have n: "\<forall>t \<in> set ts. 0 \<le> leaf_sum f (k + 1) t"
    using assms(3) leaf_sum_nonneg [OF assms(1), of f "k + 1"] unfolding Rose by (cases "ts = []") (auto simp: list_all_iff)
  have v: "set (map child_value (kids (recurse hy k t))) = leaf_sum f (k + 1) ` set ts"
    using kids_recurse [of hy k d ts] child_value_recurse [OF assms(2)] unfolding Rose by (auto simp: image_image)
  have "\<forall>t \<in> set ts. leaf_sum f (k + 1) t = 0" if "leaf_sum f k t = 0"
    using that n sum_list_nonneg_eq_0_iff [of "map (leaf_sum f (k + 1)) ts"] unfolding Rose by (cases "ts = []") auto
  then show ?thesis unfolding cancels_def cancelled_def v recurse_value [OF assms(2)] by auto
qed

lemma subtrees_recurse_not_cancels:
  "tm_mode tm = ''squarify'' \<Longrightarrow> hy_value hy = Some f \<Longrightarrow> all_leaves (\<lambda>d k. leaf_fits tm (f d k)) k t \<Longrightarrow>
   \<forall>s \<in> set (subtrees (recurse hy k t)). \<not> cancels s"
proof (induction hy k t rule: recurse.induct)
  case (1 hy k d ts)
  let ?t = "recurse hy k (Rose d ts)"
  have l: "ts \<noteq> [] \<Longrightarrow> \<forall>t \<in> set ts. all_leaves (\<lambda>d k. leaf_fits tm (f d k)) (k + 1) t" using 1(4) by (simp add: list_all_iff)
  have "set (subtrees ?t) = insert ?t (\<Union>c \<in> set (kids ?t). set (subtrees c))" by (cases ?t) simp
  then show ?case using recurse_not_cancels [OF 1(2-4)] l "1.IH" [OF _ _ 1(2,3)] unfolding kids_recurse by (cases "ts = []") auto
qed

lemma hierarchy_not_cancels:
  assumes "values_fit tm d" "tm_mode tm = ''squarify''" "s \<in> set (subtrees (hierarchy_tree (tm_hierarchy tm) d))"
  shows "\<not> cancels s"
proof (cases "hy_value (tm_hierarchy tm)")
  case (Some f)
  then show ?thesis using subtrees_recurse_not_cancels [OF assms(2) Some, of 0 d] assms(1,3) by (simp add: values_fit_def hierarchy_tree_def)
next
  case None
  have "hn_value (root s) = None" if "s \<in> set (subtrees (recurse hy k d))" "hy_value hy = None" for hy k and d :: "'a rose"
    using that
  proof (induction hy k d rule: recurse.induct)
    case (1 hy k d ts)
    let ?t = "recurse hy k (Rose d ts)"
    have "set (subtrees ?t) = insert ?t (\<Union>c \<in> set (kids ?t). set (subtrees c))" by (cases ?t) simp
    moreover have "hn_value (root ?t) = None" using 1(3) by (simp add: Let_def leaf_value_def)
    ultimately show ?case using 1 unfolding kids_recurse by (cases "ts = []") auto
  qed
  then show ?thesis using assms(3) None by (auto simp: cancels_def cancelled_def hierarchy_tree_def)
qed

text \<open>
  (C30) Treemaps.  A fresh treemap layout succeeds in every mode, with every padding and with or without rounding, where the
  values of the leaves are finite (\<open>NaN\<close> counts as zero), in the squarified mode not negative, and the size is not negative.
  The root gets the whole size, and the cells of the children of every node fill the padded
  rectangle of their parent: they lie inside it, no two of them overlap, and their areas add up to it.
\<close>

theorem treemap_fills:
  assumes "tm_stickies tm = None" "tm_round tm = js_round \<or> tm_round tm = (\<lambda>v. v)"
    and "0 \<le> fst (tm_size tm)" "0 \<le> snd (tm_size tm)" "values_fit tm d"
  shows "\<exists>t. snd (treemap_layout tm d) = Some t \<and>
    c_rect (snd (root t)) = \<lparr>r_x = 0, r_y = 0, r_dx = fst (tm_size tm), r_dy = snd (tm_size tm)\<rparr> \<and>
    (\<forall>s \<in> set (subtrees t). filled tm s)"
proof -
  define h where "h = hierarchy_tree (tm_hierarchy tm) d"
  have r: "c_rect (root_cell tm (root h)) = \<lparr>r_x = 0, r_y = 0, r_dx = fst (tm_size tm), r_dy = snd (tm_size tm)\<rparr>"
    by (simp add: root_cell_def Let_def)
  have "keeps_nonneg (\<lambda>v. v)" by (simp add: keeps_nonneg_def)
  then have "keeps_nonneg (tm_round tm)" using assms(2) js_round_nonneg by (elim disjE) (simp_all only:)
  then obtain t where "squarify tm (root_cell tm (root h)) h = Some t" "snd (root t) = root_cell tm (root h)"
      "\<forall>s \<in> set (subtrees t). filled tm s"
    using squarify_filled(1) [of tm "root_cell tm (root h)" h] assms(3,4) r hierarchy_not_cancels [OF assms(5)] by (auto simp: rect_ok_def h_def)
  then show ?thesis using assms(1) r by (simp add: treemap_layout_def Let_def h_def)
qed

theorem treemap_fills_witness:
  "\<exists>t. snd (treemap_layout (treemap_size (layout_treemap (\<lambda>v k. Fin v)) (600, 400)) (Rose 0 [Rose 6 [], Rose 4 [], Rose 2 []])) = Some t \<and>
    list_all (filled (treemap_size (layout_treemap (\<lambda>v k. Fin v)) (600, 400))) (subtrees t)"
proof -
  define tm :: "real treemap" where "tm = treemap_size (layout_treemap (\<lambda>v k. Fin v)) (600, 400)"
  have tm: "tm_stickies tm = None" "tm_round tm = js_round \<or> tm_round tm = (\<lambda>v. v)" "0 \<le> fst (tm_size tm)" "0 \<le> snd (tm_size tm)"
    "values_fit tm (Rose 0 [Rose 6 [], Rose 4 [], Rose 2 []])"
    by (simp_all add: tm_def treemap_size_def layout_treemap_def values_fit_def layout_hierarchy_def leaf_fits_def)
  show ?thesis unfolding tm_def [symmetric] list_all_iff using treemap_fills [OF tm] by blast
qed

text \<open>Values that cancel: two children of values five and minus five make the squarified layout position an empty row, and throw.\<close>

lemma treemap_cancelled_throws:
  "snd (treemap_layout (treemap_size (layout_treemap (\<lambda>v k. Fin v)) (600, 400)) (Rose 0 [Rose 5 [], Rose (- 5) []])) = None"
proof -
  have "0 < 1 + sqrt (5 :: real)" by (rule add_pos_nonneg) simp_all
  then show ?thesis
    by (simp add: treemap_layout_def treemap_size_def layout_treemap_def layout_hierarchy_def hierarchy_tree_def leaf_value_def child_value_def Let_def
        root_cell_def area_scale_def scaled_area_def squarify_cells_def d3_layout_treemapPadNull_def edge_def js_inf_def worst_def row_area_def
        treemap_position_def row_marks_def js_max2_def)
qed

end
