(* ===== verification/D3_Date.thy ===== *)
theory D3_Date
  imports JS_Prelude
begin

text \<open>
  Dates.  A date is its time value, an integral number of milliseconds since the epoch; the bound of
  the language's time values and invalid dates are not modelled.  The calendar is the one of the
  language definition: the day of a year, the proleptic Gregorian calendar, and days that carry over.

  A \<open>date_class\<close> holds the methods the library calls on dates.  \<open>Date z\<close> is the built-in class in the
  time zone \<open>z\<close>, which belongs to the environment and is a parameter; \<open>d3_date_utc\<close> is the wrapper class
  of \<open>d3.js\<close> lines 2249 to 2313.
\<close>

section \<open>The calendar\<close>

definition ms_per_day :: int where
  "ms_per_day = 86400000"

definition day_from_year :: "int \<Rightarrow> int" where
  "day_from_year y = 365 * (y - 1970) + (y - 1969) div 4 - (y - 1901) div 100 + (y - 1601) div 400"

definition is_leap :: "int \<Rightarrow> bool" where
  "is_leap y = (y mod 4 = 0 \<and> (y mod 100 \<noteq> 0 \<or> y mod 400 = 0))"

definition year_of_day :: "int \<Rightarrow> int" where
  "year_of_day d =
     (let y = 1970 + (400 * d) div 146097
      in if d < day_from_year y then y - 1 else if day_from_year (y + 1) \<le> d then y + 1 else y)"

definition month_starts :: "bool \<Rightarrow> int list" where
  "month_starts leap =
     (if leap then [0, 31, 60, 91, 121, 152, 182, 213, 244, 274, 305, 335] else [0, 31, 59, 90, 120, 151, 181, 212, 243, 273, 304, 334])"

definition month_start :: "int \<Rightarrow> int \<Rightarrow> int" where
  "month_start y m = month_starts (is_leap y) ! nat m"

definition month_of_day :: "int \<Rightarrow> int" where
  "month_of_day d =
     (let y = year_of_day d in int (length (takeWhile (\<lambda>s. s \<le> d - day_from_year y) (tl (month_starts (is_leap y))))))"

definition date_of_day :: "int \<Rightarrow> int" where
  "date_of_day d = d - day_from_year (year_of_day d) - month_start (year_of_day d) (month_of_day d) + 1"

definition make_day :: "int \<Rightarrow> int \<Rightarrow> int \<Rightarrow> int" where
  "make_day y m d = (let y' = y + m div 12 in day_from_year y' + month_start y' (m mod 12) + d - 1)"

definition make_time :: "int \<Rightarrow> int \<Rightarrow> int \<Rightarrow> int \<Rightarrow> int" where
  "make_time h m s ms = h * 3600000 + m * 60000 + s * 1000 + ms"

definition time_day :: "int \<Rightarrow> int" where
  "time_day t = t div ms_per_day"

definition time_within_day :: "int \<Rightarrow> int" where
  "time_within_day t = t mod ms_per_day"

section \<open>Date classes\<close>

text \<open>The time zone: the offset in minutes at a time value, and the time value of a local time.\<close>

record zone =
  z_offset :: "int \<Rightarrow> int"
  z_utc :: "int \<Rightarrow> int"

definition fixed_zone :: "int \<Rightarrow> zone" where
  "fixed_zone m = \<lparr>z_offset = (\<lambda>t. m), z_utc = (\<lambda>l. l + m * 60000)\<rparr>"

definition local_time :: "zone \<Rightarrow> int \<Rightarrow> int" where
  "local_time z t = t - z_offset z t * 60000"

text \<open>
  The methods as functions of the time value; a setter returns the new time value.  Setters
  take all their arguments; a call with fewer passes the present fields.  There is no
  \<open>Date.prototype.setUTCDay\<close>, so that calling \<open>setDay\<close> throws, which is \<open>None\<close>.
\<close>

record date_class =
  getDate :: "int \<Rightarrow> int"
  getDay :: "int \<Rightarrow> int"
  getFullYear :: "int \<Rightarrow> int"
  getHours :: "int \<Rightarrow> int"
  getMilliseconds :: "int \<Rightarrow> int"
  getMinutes :: "int \<Rightarrow> int"
  getMonth :: "int \<Rightarrow> int"
  getSeconds :: "int \<Rightarrow> int"
  getTime :: "int \<Rightarrow> int"
  getTimezoneOffset :: "int \<Rightarrow> int"
  valueOf :: "int \<Rightarrow> int"
  setDate :: "int \<Rightarrow> int \<Rightarrow> int"
  setDay :: "int \<Rightarrow> int \<Rightarrow> int option"
  setFullYear :: "int \<Rightarrow> int \<Rightarrow> int \<Rightarrow> int \<Rightarrow> int"
  setHours :: "int \<Rightarrow> int \<Rightarrow> int \<Rightarrow> int \<Rightarrow> int \<Rightarrow> int"
  setMilliseconds :: "int \<Rightarrow> int \<Rightarrow> int"
  setMinutes :: "int \<Rightarrow> int \<Rightarrow> int \<Rightarrow> int \<Rightarrow> int"
  setMonth :: "int \<Rightarrow> int \<Rightarrow> int \<Rightarrow> int"
  setSeconds :: "int \<Rightarrow> int \<Rightarrow> int \<Rightarrow> int"
  setTime :: "int \<Rightarrow> int \<Rightarrow> int"
  newDate :: "int \<Rightarrow> int \<Rightarrow> int"

definition getUTCDate :: "int \<Rightarrow> int" where "getUTCDate t = date_of_day (time_day t)"
definition getUTCDay :: "int \<Rightarrow> int" where "getUTCDay t = (time_day t + 4) mod 7"
definition getUTCFullYear :: "int \<Rightarrow> int" where "getUTCFullYear t = year_of_day (time_day t)"
definition getUTCHours :: "int \<Rightarrow> int" where "getUTCHours t = time_within_day t div 3600000"
definition getUTCMilliseconds :: "int \<Rightarrow> int" where "getUTCMilliseconds t = time_within_day t mod 1000"
definition getUTCMinutes :: "int \<Rightarrow> int" where "getUTCMinutes t = time_within_day t div 60000 mod 60"
definition getUTCMonth :: "int \<Rightarrow> int" where "getUTCMonth t = month_of_day (time_day t)"
definition getUTCSeconds :: "int \<Rightarrow> int" where "getUTCSeconds t = time_within_day t div 1000 mod 60"

definition make_date :: "int \<Rightarrow> int \<Rightarrow> int" where
  "make_date day time = day * ms_per_day + time"

definition setUTCFullYear :: "int \<Rightarrow> int \<Rightarrow> int \<Rightarrow> int \<Rightarrow> int" where
  "setUTCFullYear t y m d = make_date (make_day y m d) (time_within_day t)"

definition setUTCMonth :: "int \<Rightarrow> int \<Rightarrow> int \<Rightarrow> int" where
  "setUTCMonth t m d = setUTCFullYear t (getUTCFullYear t) m d"

definition setUTCDate :: "int \<Rightarrow> int \<Rightarrow> int" where
  "setUTCDate t d = setUTCMonth t (getUTCMonth t) d"

definition setUTCHours :: "int \<Rightarrow> int \<Rightarrow> int \<Rightarrow> int \<Rightarrow> int \<Rightarrow> int" where
  "setUTCHours t h m s ms = make_date (time_day t) (make_time h m s ms)"

definition setUTCMinutes :: "int \<Rightarrow> int \<Rightarrow> int \<Rightarrow> int \<Rightarrow> int" where
  "setUTCMinutes t m s ms = setUTCHours t (getUTCHours t) m s ms"

definition setUTCSeconds :: "int \<Rightarrow> int \<Rightarrow> int \<Rightarrow> int" where
  "setUTCSeconds t s ms = setUTCMinutes t (getUTCMinutes t) s ms"

definition setUTCMilliseconds :: "int \<Rightarrow> int \<Rightarrow> int" where
  "setUTCMilliseconds t ms = setUTCSeconds t (getUTCSeconds t) ms"

text \<open>The built-in class in a time zone: the fields of the local time; \<open>newDate\<close> is \<open>new Date(year, month)\<close>.\<close>

definition Date :: "zone \<Rightarrow> date_class" where
  "Date z =
     \<lparr>getDate = (\<lambda>t. getUTCDate (local_time z t)), getDay = (\<lambda>t. getUTCDay (local_time z t)),
      getFullYear = (\<lambda>t. getUTCFullYear (local_time z t)), getHours = (\<lambda>t. getUTCHours (local_time z t)),
      getMilliseconds = (\<lambda>t. getUTCMilliseconds (local_time z t)), getMinutes = (\<lambda>t. getUTCMinutes (local_time z t)),
      getMonth = (\<lambda>t. getUTCMonth (local_time z t)), getSeconds = (\<lambda>t. getUTCSeconds (local_time z t)),
      getTime = (\<lambda>t. t), getTimezoneOffset = z_offset z, valueOf = (\<lambda>t. t),
      setDate = (\<lambda>t d. z_utc z (setUTCDate (local_time z t) d)), setDay = (\<lambda>t d. None),
      setFullYear = (\<lambda>t y m d. z_utc z (setUTCFullYear (local_time z t) y m d)),
      setHours = (\<lambda>t h m s ms. z_utc z (setUTCHours (local_time z t) h m s ms)),
      setMilliseconds = (\<lambda>t ms. z_utc z (setUTCMilliseconds (local_time z t) ms)),
      setMinutes = (\<lambda>t m s ms. z_utc z (setUTCMinutes (local_time z t) m s ms)),
      setMonth = (\<lambda>t m d. z_utc z (setUTCMonth (local_time z t) m d)),
      setSeconds = (\<lambda>t s ms. z_utc z (setUTCSeconds (local_time z t) s ms)),
      setTime = (\<lambda>t v. v), newDate = (\<lambda>y m. z_utc z (make_date (make_day y m 1) 0))\<rparr>"

text \<open>The wrapper class: the methods of \<open>Date\<close> forwarded to their UTC counterparts.\<close>

definition d3_date_utc :: date_class where
  "d3_date_utc =
     \<lparr>getDate = getUTCDate, getDay = getUTCDay, getFullYear = getUTCFullYear, getHours = getUTCHours,
      getMilliseconds = getUTCMilliseconds, getMinutes = getUTCMinutes, getMonth = getUTCMonth, getSeconds = getUTCSeconds,
      getTime = (\<lambda>t. t), getTimezoneOffset = (\<lambda>t. 0), valueOf = (\<lambda>t. t),
      setDate = setUTCDate, setDay = (\<lambda>t d. None), setFullYear = setUTCFullYear, setHours = setUTCHours,
      setMilliseconds = setUTCMilliseconds, setMinutes = setUTCMinutes, setMonth = setUTCMonth, setSeconds = setUTCSeconds,
      setTime = (\<lambda>t v. v), newDate = (\<lambda>y m. make_date (make_day y m 1) 0)\<rparr>"

text \<open>The wrapper class is the built-in class in the zone of offset zero.\<close>

lemma d3_date_utc_is_Date: "d3_date_utc = Date (fixed_zone 0)"
  by (simp add: d3_date_utc_def Date_def fixed_zone_def local_time_def)

section \<open>Calendar facts\<close>

lemma div_bounds: "0 < k \<Longrightarrow> k * (x div k) \<le> x" "0 < k \<Longrightarrow> x < k * (x div k) + k" for x k :: int
  using mult_div_mod_eq [of k x] pos_mod_bound [of k x] pos_mod_sign [of k x] by linarith+

lemma div_unique: "0 < k \<Longrightarrow> k * q \<le> x \<Longrightarrow> x < k * q + k \<Longrightarrow> x div k = q" for x k q :: int
  using int_div_pos_eq [of x k q "x - k * q"] by linarith

lemma div_Suc: "0 < k \<Longrightarrow> (x + 1) div k = x div k + (if (x + 1) mod k = 0 then 1 else 0)" for x k :: int
proof (cases "x + 1 < k * (x div k) + k")
  case True
  moreover assume k: "0 < k"
  ultimately have q: "(x + 1) div k = x div k" using div_bounds [OF k, of x] by (intro div_unique) linarith+
  then have "(x + 1) mod k \<noteq> 0" using mult_div_mod_eq [of k "x + 1"] div_bounds [OF k, of x] by auto
  then show ?thesis using q by simp
next
  case False
  moreover assume k: "0 < k"
  ultimately have x: "x + 1 = k * (x div k + 1)" using div_bounds [OF k, of x] by (simp add: algebra_simps)
  then have "(x + 1) div k = x div k + 1" "(x + 1) mod k = 0" using k by (metis nonzero_mult_div_cancel_left less_irrefl, metis mod_mult_self1_is_0)
  then show ?thesis by simp
qed

lemma day_from_year_Suc: "day_from_year (y + 1) = day_from_year y + (if is_leap y then 366 else 365)"
proof -
  have m: "(y - 1968) mod 4 = y mod 4" "(y - 1900) mod 100 = y mod 100" "(y - 1600) mod 400 = y mod 400"
    using mod_mult_self1 [of y "- 492" 4] mod_mult_self1 [of y "- 19" 100] mod_mult_self1 [of y "- 4" 400] by simp_all
  define a b c where "a = (y - 1969) div 4" and "b = (y - 1901) div 100" and "c = (y - 1601) div 400"
  have s: "y + 1 - 1969 = y - 1968" "y + 1 - 1901 = y - 1900" "y + 1 - 1601 = y - 1600" by simp_all
  have e: "y - 1969 + 1 = y - 1968" "y - 1901 + 1 = y - 1900" "y - 1601 + 1 = y - 1600" by simp_all
  note d = div_Suc [of 4 "y - 1969", OF zero_less_numeral, unfolded e m] div_Suc [of 100 "y - 1901", OF zero_less_numeral, unfolded e m]
    div_Suc [of 400 "y - 1601", OF zero_less_numeral, unfolded e m]
  have "(y + 1 - 1969) div 4 = a + (if y mod 4 = 0 then 1 else 0)" "(y + 1 - 1901) div 100 = b + (if y mod 100 = 0 then 1 else 0)"
    "(y + 1 - 1601) div 400 = c + (if y mod 400 = 0 then 1 else 0)"
    by (simp_all only: s a_def b_def c_def d)
  then have "day_from_year (y + 1) = 365 * (y + 1 - 1970) + (a + (if y mod 4 = 0 then 1 else 0)) -
      (b + (if y mod 100 = 0 then 1 else 0)) + (c + (if y mod 400 = 0 then 1 else 0))"
    by (simp only: day_from_year_def)
  moreover have "day_from_year y = 365 * (y - 1970) + a - b + c" by (simp only: day_from_year_def a_def b_def c_def)
  moreover have "400 dvd y \<Longrightarrow> 100 dvd y" "100 dvd y \<Longrightarrow> 4 dvd y"
    by (rule dvd_trans [of 100 400], simp, assumption, rule dvd_trans [of 4 100], simp, assumption)
  then have "y mod 400 = 0 \<Longrightarrow> y mod 100 = 0" "y mod 100 = 0 \<Longrightarrow> y mod 4 = 0" by (simp_all only: dvd_eq_mod_eq_0)
  ultimately show ?thesis unfolding is_leap_def by (cases "y mod 4 = 0"; cases "y mod 100 = 0"; cases "y mod 400 = 0") simp_all
qed

lemma day_from_year_bounds:
  "146097 * (y - 1970) - 506 \<le> 400 * day_from_year y" "400 * day_from_year y \<le> 146097 * (y - 1970) + 589"
proof -
  define a b c where "a = (y - 1969) div 4" and "b = (y - 1901) div 100" and "c = (y - 1601) div 400"
  have "4 * a \<le> y - 1969" "y - 1969 < 4 * a + 4" "100 * b \<le> y - 1901" "y - 1901 < 100 * b + 100"
    "400 * c \<le> y - 1601" "y - 1601 < 400 * c + 400"
    unfolding a_def b_def c_def by (rule div_bounds, rule zero_less_numeral)+
  then show "146097 * (y - 1970) - 506 \<le> 400 * day_from_year y" and "400 * day_from_year y \<le> 146097 * (y - 1970) + 589"
    unfolding day_from_year_def a_def [symmetric] b_def [symmetric] c_def [symmetric] by (simp_all add: algebra_simps)
qed

lemma year_of_day_bounds: "day_from_year (year_of_day d) \<le> d \<and> d < day_from_year (year_of_day d + 1)"
proof -
  define q where "q = (400 * d) div 146097"
  have "146097 * q \<le> 400 * d" "400 * d < 146097 * q + 146097"
    unfolding q_def by (rule div_bounds, rule zero_less_numeral)+
  then have "day_from_year (1970 + q - 1) \<le> d" "d < day_from_year (1970 + q + 2)"
    using day_from_year_bounds(2) [of "1970 + q - 1"] day_from_year_bounds(1) [of "1970 + q + 2"] by (simp_all add: algebra_simps)
  then show ?thesis unfolding year_of_day_def q_def [symmetric] by (simp add: Let_def algebra_simps)
qed

lemma day_from_year_mono: "x < y \<Longrightarrow> day_from_year (x + 1) \<le> day_from_year y"
proof (induction y rule: int_gr_induct [where k = x])
  case (step i)
  then show ?case using day_from_year_Suc [of i] by (auto split: if_splits)
qed simp_all

lemma year_of_day_unique: "day_from_year y \<le> d \<Longrightarrow> d < day_from_year (y + 1) \<Longrightarrow> year_of_day d = y"
  using year_of_day_bounds [of d] day_from_year_mono [of y "year_of_day d"] day_from_year_mono [of "year_of_day d" y]
  by linarith

lemma month_starts_props [simp]:
  "length (month_starts l) = 12" "month_starts l ! 0 = 0" "sorted (month_starts l)" "distinct (month_starts l)"
  "x \<in> set (month_starts l) \<Longrightarrow> x < 365"
  by (auto simp: month_starts_def split: if_splits)

lemma make_day_first:
  assumes "0 \<le> m" "m < 12"
  shows "make_day y m d = day_from_year y + month_starts (is_leap y) ! nat m + d - 1"
  using assms by (simp add: make_day_def month_start_def)

text \<open>The day after the last day of a month is the first of the next.\<close>

lemma make_day_next:
  assumes "0 \<le> m" "m < 12"
  shows "make_day y (m + 1) 1 = (if m = 11 then day_from_year (y + 1) else day_from_year y + month_starts (is_leap y) ! (nat m + 1))"
proof (cases "m = 11")
  case False
  then show ?thesis using assms by (simp add: make_day_first nat_add_distrib)
qed (simp add: make_day_def month_start_def)

lemma takeWhile_bracket:
  fixes k :: "'a :: linorder"
  assumes "s \<noteq> []" "s ! 0 \<le> k" and i: "i = length (takeWhile (\<lambda>x. x \<le> k) (tl s))"
  shows "i < length s" "s ! i \<le> k" "i + 1 < length s \<Longrightarrow> k < s ! (i + 1)"
proof -
  show "i < length s" using length_takeWhile_le [of "\<lambda>x. x \<le> k" "tl s"] assms(1) i by (cases s) auto
  show "s ! i \<le> k"
  proof (cases i)
    case (Suc j)
    then have "takeWhile (\<lambda>x. x \<le> k) (tl s) ! j \<in> set (takeWhile (\<lambda>x. x \<le> k) (tl s))" using i by simp
    then have "takeWhile (\<lambda>x. x \<le> k) (tl s) ! j \<le> k" by (rule set_takeWhileD [THEN conjunct2])
    moreover have "takeWhile (\<lambda>x. x \<le> k) (tl s) ! j = tl s ! j" using Suc i by (intro takeWhile_nth) simp
    ultimately show ?thesis using Suc assms(1) by (cases s) auto
  qed (use assms(2) in simp)
  show "k < s ! (i + 1)" if "i + 1 < length s"
  proof -
    have "length (takeWhile (\<lambda>x. x \<le> k) (tl s)) < length (tl s)" using that i by simp
    then have "\<not> tl s ! i \<le> k" unfolding i by (rule nth_length_takeWhile)
    then show ?thesis using assms(1) by (cases s) auto
  qed
qed

lemma month_of_day_bounds:
  "0 \<le> month_of_day d \<and> month_of_day d < 12 \<and> make_day (year_of_day d) (month_of_day d) 1 \<le> d \<and>
   d < make_day (year_of_day d) (month_of_day d + 1) 1"
proof -
  define y where "y = year_of_day d"
  define s where "s = month_starts (is_leap y)"
  define i where "i = length (takeWhile (\<lambda>x. x \<le> d - day_from_year y) (tl s))"
  have m: "month_of_day d = int i" by (simp add: month_of_day_def y_def s_def i_def Let_def)
  have y: "day_from_year y \<le> d" "d < day_from_year (y + 1)" using year_of_day_bounds by (simp_all add: y_def)
  have "s \<noteq> []" "s ! 0 \<le> d - day_from_year y" using y(1) by (auto simp: s_def simp flip: length_0_conv)
  note b = takeWhile_bracket [OF this i_def]
  have "length s = 12" by (simp add: s_def)
  then have "make_day y (int i) 1 \<le> d" "d < make_day y (int i + 1) 1"
    using b y(2) by (auto simp: make_day_first make_day_next s_def [symmetric] split: if_splits)
  then show ?thesis using b(1) \<open>length s = 12\<close> unfolding m y_def [symmetric] by simp
qed

lemma month_starts_unique:
  assumes "i < 12" "j < 12" "month_starts l ! i \<le> k" "i \<noteq> 11 \<Longrightarrow> k < month_starts l ! (i + 1)"
    and "month_starts l ! j \<le> k" "j \<noteq> 11 \<Longrightarrow> k < month_starts l ! (j + 1)"
  shows "i = j"
proof (rule ccontr)
  assume "i \<noteq> j"
  then consider "i < j" | "j < i" by linarith
  then show False
  proof cases
    case 1
    then have "month_starts l ! (i + 1) \<le> month_starts l ! j" using assms(2) by (intro sorted_nth_mono) auto
    then show False using 1 assms by auto
  next
    case 2
    then have "month_starts l ! (j + 1) \<le> month_starts l ! i" using assms(1) by (intro sorted_nth_mono) auto
    then show False using 2 assms by auto
  qed
qed

lemma civil_unique:
  assumes "0 \<le> m" "m < 12" "make_day y m 1 \<le> d" "d < make_day y (m + 1) 1"
  shows "year_of_day d = y \<and> month_of_day d = m"
proof -
  have "0 \<le> month_starts (is_leap y) ! nat m" using assms(1,2) by (auto simp: month_starts_def nth_Cons')
  moreover have "day_from_year y + month_starts (is_leap y) ! (nat m + 1) \<le> day_from_year (y + 1)" if "m \<noteq> 11"
  proof -
    have "nat m + 1 < length (month_starts (is_leap y))" using that assms(1,2) by simp
    then have "month_starts (is_leap y) ! (nat m + 1) < 365" by (rule month_starts_props(5) [OF nth_mem])
    then show ?thesis unfolding day_from_year_Suc by (cases "is_leap y") auto
  qed
  ultimately have y: "year_of_day d = y" using assms by (intro year_of_day_unique) (auto simp: make_day_first make_day_next split: if_splits)
  have "nat (month_of_day d) = nat m"
    using month_of_day_bounds [of d] assms unfolding y
    by (intro month_starts_unique [of _ _ "is_leap y" "d - day_from_year y"])
      (auto simp: make_day_first make_day_next nat_add_distrib split: if_splits)
  then show ?thesis using y assms(1) month_of_day_bounds [of d] by (simp add: eq_nat_nat_iff)
qed


lemma date_of_day_eq: "date_of_day d = d - make_day (year_of_day d) (month_of_day d) 1 + 1"
  using month_of_day_bounds [of d] by (simp add: date_of_day_def make_day_first month_start_def)

lemma make_day_shift: "make_day y m d = make_day y m 1 + d - 1"
  by (simp add: make_day_def Let_def)

lemma make_day_year: "make_day (y + k) m d = make_day y (m + 12 * k) d"
  by (simp add: make_day_def add.assoc)

lemma make_day_norm: "make_day y m d = make_day (y + m div 12) (m mod 12) d"
  by (simp add: make_day_def)

lemma month_length_pos: "make_day y m 1 < make_day y (m + 1) 1"
proof -
  define y' m' where "y' = y + m div 12" and "m' = m mod 12"
  have m': "0 \<le> m'" "m' < 12" by (simp_all add: m'_def)
  have "make_day y' m' 1 < make_day y' (m' + 1) 1"
  proof (cases "m' = 11")
    case True
    then show ?thesis using make_day_next [of 11 y'] by (auto simp: make_day_first day_from_year_Suc month_starts_def)
  next
    case False
    then have "nat m' + 1 < length (month_starts (is_leap y'))" using m' by simp
    then have "month_starts (is_leap y') ! nat m' < month_starts (is_leap y') ! (nat m' + 1)"
      by (intro sorted_wrt_nth_less [of "(<)"]) (simp_all add: strict_sorted_iff)
    then show ?thesis using m' False by (simp add: make_day_first make_day_next nat_add_distrib)
  qed
  moreover have "make_day y' m' 1 = make_day y m 1" unfolding y'_def m'_def by (rule make_day_norm [symmetric])
  moreover have "make_day y' (m' + 1) 1 = make_day y (m + 1) 1"
    using make_day_year [of y "m div 12" "m' + 1" 1] mult_div_mod_eq [of 12 m] by (simp add: y'_def m'_def algebra_simps)
  ultimately show ?thesis by simp
qed

text \<open>The fields of the first of a month, whatever the month argument.\<close>

lemma first_fields:
  "year_of_day (make_day y m 1) = y + m div 12" "month_of_day (make_day y m 1) = m mod 12" "date_of_day (make_day y m 1) = 1"
proof -
  have n: "make_day y m 1 = make_day (y + m div 12) (m mod 12) 1" by (rule make_day_norm)
  have "year_of_day (make_day y m 1) = y + m div 12 \<and> month_of_day (make_day y m 1) = m mod 12"
    unfolding n by (rule civil_unique) (simp_all add: month_length_pos)
  then show c: "year_of_day (make_day y m 1) = y + m div 12" "month_of_day (make_day y m 1) = m mod 12" by auto
  show "date_of_day (make_day y m 1) = 1" unfolding date_of_day_eq c n [symmetric] by simp
qed

text \<open>The fields of a day rebuild it.\<close>

lemma make_day_fields: "make_day (year_of_day d) (month_of_day d) (date_of_day d) = d"
  by (subst make_day_shift) (simp add: date_of_day_eq)

lemma date_of_day_pos: "1 \<le> date_of_day d"
  using month_of_day_bounds [of d] by (simp add: date_of_day_eq)

section \<open>Time facts\<close>

lemma ms_per_day_pos [simp]: "0 < ms_per_day"
  by (simp add: ms_per_day_def)

lemma time_day_make_date [simp]: "0 \<le> r \<Longrightarrow> r < ms_per_day \<Longrightarrow> time_day (make_date d r) = d"
  unfolding time_day_def make_date_def by (intro div_unique) (simp_all add: algebra_simps)

lemma time_within_make_date [simp]: "0 \<le> r \<Longrightarrow> r < ms_per_day \<Longrightarrow> time_within_day (make_date d r) = r"
  unfolding time_within_day_def make_date_def by simp

lemma make_date_fields: "make_date (time_day t) (time_within_day t) = t"
  by (simp add: make_date_def time_day_def time_within_day_def)

lemma time_within_bounds: "0 \<le> time_within_day t" "time_within_day t < ms_per_day"
  by (simp_all add: time_within_day_def)

lemma time_day_bounds: "time_day t = d \<longleftrightarrow> make_date d 0 \<le> t \<and> t < make_date (d + 1) 0"
proof
  assume "time_day t = d"
  then show "make_date d 0 \<le> t \<and> t < make_date (d + 1) 0"
    using div_bounds [OF ms_per_day_pos, of t] by (auto simp: time_day_def make_date_def algebra_simps)
next
  assume "make_date d 0 \<le> t \<and> t < make_date (d + 1) 0"
  then show "time_day t = d" unfolding time_day_def by (intro div_unique) (auto simp: make_date_def algebra_simps)
qed

end
