(* ===== verification/D3_Time.thy ===== *)
theory D3_Time
  imports D3_Date
begin

text \<open>
  Time intervals (\<open>d3.js\<close> lines 2315 to 2422 and 9106 to 9144): rounding a date down, up or to the
  nearest boundary of an interval, offsetting it, and listing the boundaries in a range, for seconds,
  minutes, hours, days, weeks from any weekday, months and years.

  The global variable \<open>d3_date\<close>, the class of the dates an interval creates, is the argument \<open>dc\<close>.
  Offsets and boundaries are integers, the \<open>dt\<close> of a range is a real.
\<close>

section \<open>Intervals\<close>

type_synonym date_floor = "int \<Rightarrow> int"
type_synonym date_step = "int \<Rightarrow> int \<Rightarrow> int"

record interval =
  iv_floor :: date_floor
  iv_round :: "int \<Rightarrow> int"
  iv_ceil :: "int \<Rightarrow> int"
  iv_offset :: date_step
  iv_range :: "int \<Rightarrow> int \<Rightarrow> real \<Rightarrow> int list option"

definition interval_offset :: "date_step \<Rightarrow> int \<Rightarrow> int \<Rightarrow> int" where
  "interval_offset step date k = step date k"

definition interval_round :: "date_floor \<Rightarrow> date_step \<Rightarrow> int \<Rightarrow> int" where
  "interval_round lo step date =
     (let d0 = lo date; d1 = interval_offset step d0 1 in if date - d0 < d1 - date then d0 else d1)"

definition interval_ceil :: "date_floor \<Rightarrow> date_step \<Rightarrow> int \<Rightarrow> int" where
  "interval_ceil lo step date = step (lo (date - 1)) 1"

text \<open>The loop runs until the stepped time reaches the end; \<open>None\<close> when it never does.\<close>

definition selected :: "(int \<Rightarrow> int) \<Rightarrow> real \<Rightarrow> int \<Rightarrow> bool" where
  "selected number dt time = (if dt > 1 then js_rem (Fin (of_int (number time))) (Fin dt) = Fin 0 else True)"

partial_function (option) range_loop ::
  "date_step \<Rightarrow> (int \<Rightarrow> int) \<Rightarrow> real \<Rightarrow> int \<Rightarrow> int \<Rightarrow> int list \<Rightarrow> int list option" where
  "range_loop step number dt time t1 found =
     (if time < t1
      then range_loop step number dt (step time 1) t1 (if selected number dt time then found @ [time] else found)
      else Some found)"

definition interval_range :: "date_floor \<Rightarrow> date_step \<Rightarrow> (int \<Rightarrow> int) \<Rightarrow> int \<Rightarrow> int \<Rightarrow> real \<Rightarrow> int list option" where
  "interval_range lo step number t0 t1 dt = range_loop step number dt (interval_ceil lo step t0) t1 []"

definition d3_time_interval :: "date_floor \<Rightarrow> date_step \<Rightarrow> (int \<Rightarrow> int) \<Rightarrow> interval" where
  "d3_time_interval lo step number =
     \<lparr>iv_floor = lo, iv_round = interval_round lo step, iv_ceil = interval_ceil lo step,
      iv_offset = interval_offset step, iv_range = interval_range lo step number\<rparr>"

text \<open>The UTC form of a method runs it with the wrapper class as the global date class.\<close>

definition d3_time_interval_utc :: "(date_class \<Rightarrow> 'a) \<Rightarrow> 'a" where
  "d3_time_interval_utc method = method d3_date_utc"

section \<open>The intervals of the library\<close>

definition day_floor :: "date_class \<Rightarrow> date_floor" where
  "day_floor dc date = setFullYear dc (newDate dc 2000 0) (getFullYear dc date) (getMonth dc date) (getDate dc date)"

definition day_step :: "date_class \<Rightarrow> date_step" where
  "day_step dc date k = setDate dc date (getDate dc date + k)"

definition time_day_interval :: "date_class \<Rightarrow> interval" where
  "time_day_interval dc = d3_time_interval (day_floor dc) (day_step dc) (\<lambda>date. getDate dc date - 1)"

definition year_floor :: "date_class \<Rightarrow> date_floor" where
  "year_floor dc date = setMonth dc (day_floor dc date) 0 1"

definition year_step :: "date_class \<Rightarrow> date_step" where
  "year_step dc date k = setFullYear dc date (getFullYear dc date + k) (getMonth dc date) (getDate dc date)"

definition time_year :: "date_class \<Rightarrow> interval" where
  "time_year dc = d3_time_interval (year_floor dc) (year_step dc) (getFullYear dc)"

definition dayOfYear :: "date_class \<Rightarrow> int \<Rightarrow> int" where
  "dayOfYear dc date =
     (let year = year_floor dc date
      in (date - year - (getTimezoneOffset dc date - getTimezoneOffset dc year) * 60000) div 86400000)"

text \<open>Weeks that start on the weekday of index \<open>w\<close>; the library shifts by \<open>i = 7 - w\<close>.\<close>

definition weekday_floor :: "date_class \<Rightarrow> int \<Rightarrow> date_floor" where
  "weekday_floor dc w date =
     (let i = 7 - w; d = day_floor dc date in setDate dc d (getDate dc d - (getDay dc d + i) mod 7))"

definition week_step :: "date_class \<Rightarrow> date_step" where
  "week_step dc date k = setDate dc date (getDate dc date + k * 7)"

definition weekdayOfYear :: "date_class \<Rightarrow> int \<Rightarrow> int \<Rightarrow> int" where
  "weekdayOfYear dc w date =
     (let i = 7 - w; day = getDay dc (year_floor dc date) in (dayOfYear dc date + (day + i) mod 7) div 7)"

definition week_number :: "date_class \<Rightarrow> int \<Rightarrow> int \<Rightarrow> int" where
  "week_number dc w date =
     (let i = 7 - w; day = getDay dc (year_floor dc date)
      in (dayOfYear dc date + (day + i) mod 7) div 7 - (if day \<noteq> i then 1 else 0))"

definition time_weekday :: "date_class \<Rightarrow> int \<Rightarrow> interval" where
  "time_weekday dc w = d3_time_interval (weekday_floor dc w) (week_step dc) (week_number dc w)"

definition time_week :: "date_class \<Rightarrow> interval" where
  "time_week dc = time_weekday dc 0"

definition weekOfYear :: "date_class \<Rightarrow> int \<Rightarrow> int" where
  "weekOfYear dc date = weekdayOfYear dc 0 date"

definition second_floor :: date_floor where
  "second_floor date = date div 1000 * 1000"

definition second_step :: "date_class \<Rightarrow> date_step" where
  "second_step dc date k = setTime dc date (getTime dc date + k * 1000)"

definition time_second :: "date_class \<Rightarrow> interval" where
  "time_second dc = d3_time_interval second_floor (second_step dc) (getSeconds dc)"

definition minute_floor :: date_floor where
  "minute_floor date = date div 60000 * 60000"

definition minute_step :: "date_class \<Rightarrow> date_step" where
  "minute_step dc date k = setTime dc date (getTime dc date + k * 60000)"

definition time_minute :: "date_class \<Rightarrow> interval" where
  "time_minute dc = d3_time_interval minute_floor (minute_step dc) (getMinutes dc)"

text \<open>The hours of the local time: the offset is taken out before rounding and put back after it.\<close>

definition hour_floor :: "date_class \<Rightarrow> date_floor" where
  "hour_floor dc date =
     (let off = getTimezoneOffset dc date * 60000 in (date - off) div 3600000 * 3600000 + off)"

definition hour_step :: "date_class \<Rightarrow> date_step" where
  "hour_step dc date k = setTime dc date (getTime dc date + k * 3600000)"

definition time_hour :: "date_class \<Rightarrow> interval" where
  "time_hour dc = d3_time_interval (hour_floor dc) (hour_step dc) (getHours dc)"

definition month_floor :: "date_class \<Rightarrow> date_floor" where
  "month_floor dc date = setDate dc (day_floor dc date) 1"

definition month_step :: "date_class \<Rightarrow> date_step" where
  "month_step dc date k = setMonth dc date (getMonth dc date + k) (getDate dc date)"

definition time_month :: "date_class \<Rightarrow> interval" where
  "time_month dc = d3_time_interval (month_floor dc) (month_step dc) (getMonth dc)"

section \<open>The contract of an interval\<close>

text \<open>
  A date lies between its floor and the next boundary, and every date in between has the same
  floor.  The client's facts on ceiling, rounding and ranges follow from that alone.
\<close>

locale time_interval =
  fixes lo :: "int \<Rightarrow> int" and step :: "int \<Rightarrow> int \<Rightarrow> int"
  assumes floor_le: "lo t \<le> t"
    and next_gt: "t < step (lo t) 1"
    and floor_between: "lo t \<le> s \<Longrightarrow> s < step (lo t) 1 \<Longrightarrow> lo s = lo t"
    and step_boundary: "lo (step (lo t) 1) = step (lo t) 1"
begin

definition boundary :: "int \<Rightarrow> bool" where
  "boundary b = (lo b = b)"

lemma boundary_floor: "boundary (lo t)"
  unfolding boundary_def using floor_le [of t] next_gt [of t] by (intro floor_between) auto

lemma boundary_le_floor: "boundary b \<Longrightarrow> b \<le> t \<Longrightarrow> b \<le> lo t"
  using floor_between [of t b] next_gt [of t] unfolding boundary_def by (metis leI le_less_trans floor_le linear)

lemma no_boundary_between: "boundary b \<Longrightarrow> lo t < b \<Longrightarrow> step (lo t) 1 \<le> b"
  using floor_between [of t b] unfolding boundary_def by (metis less_le linorder_not_le)

lemma boundary_step: "boundary b \<Longrightarrow> boundary (step b 1)"
  using step_boundary [of b] by (simp add: boundary_def)

lemma step_gt: "boundary b \<Longrightarrow> b < step b 1"
  using next_gt [of b] by (simp add: boundary_def)

lemma ceil_least:
  "boundary (interval_ceil lo step t) \<and> t \<le> interval_ceil lo step t \<and>
   (boundary b \<longrightarrow> t \<le> b \<longrightarrow> interval_ceil lo step t \<le> b)"
proof -
  have "interval_ceil lo step t \<le> b" if "boundary b" "t \<le> b"
    using no_boundary_between [OF that(1), of "t - 1"] floor_le [of "t - 1"] that(2) by (simp add: interval_ceil_def)
  moreover have "t \<le> interval_ceil lo step t" using next_gt [of "t - 1"] by (simp add: interval_ceil_def)
  ultimately show ?thesis using boundary_step [OF boundary_floor] by (simp add: interval_ceil_def)
qed

lemma round_nearest:
  "boundary (interval_round lo step t) \<and> (boundary b \<longrightarrow> \<bar>t - interval_round lo step t\<bar> \<le> \<bar>t - b\<bar>)"
proof -
  have "\<bar>t - interval_round lo step t\<bar> \<le> \<bar>t - b\<bar>" if "boundary b"
  proof (cases "b \<le> t")
    case True
    then show ?thesis using boundary_le_floor [OF that True] floor_le [of t] next_gt [of t]
      by (simp add: interval_round_def interval_offset_def Let_def)
  next
    case False
    then show ?thesis using no_boundary_between [OF that, of t] floor_le [of t] next_gt [of t]
      by (simp add: interval_round_def interval_offset_def Let_def)
  qed
  then show ?thesis using boundary_floor [of t] boundary_step [OF boundary_floor, of t]
    by (simp add: interval_round_def interval_offset_def Let_def)
qed

text \<open>The range loop ends, and lists the selected boundaries from the first to the end in order.\<close>

lemma range_loop_lists:
  "boundary time \<Longrightarrow> \<exists>ts. range_loop step number dt time t1 acc = Some (acc @ ts) \<and> sorted_wrt (<) ts \<and>
     set ts = {b. boundary b \<and> time \<le> b \<and> b < t1 \<and> selected number dt b}"
proof (induction "nat (t1 - time)" arbitrary: time acc rule: less_induct)
  case less
  show ?case
  proof (cases "time < t1")
    case True
    let ?acc = "if selected number dt time then acc @ [time] else acc"
    have up: "boundary (step time 1)" "time < step time 1" using boundary_step step_gt less(2) by auto
    then obtain ts where ts: "range_loop step number dt (step time 1) t1 ?acc = Some (?acc @ ts)" "sorted_wrt (<) ts"
        "set ts = {b. boundary b \<and> step time 1 \<le> b \<and> b < t1 \<and> selected number dt b}"
      using less(1) [of "step time 1" ?acc] True by auto
    have "time \<le> b \<longleftrightarrow> b = time \<or> step time 1 \<le> b" if "boundary b" for b
    proof (cases "time < b")
      case True
      then show ?thesis using no_boundary_between [OF that, of time] less(2) by (simp add: boundary_def)
    qed (use up(2) in auto)
    then have "set (if selected number dt time then time # ts else ts) = {b. boundary b \<and> time \<le> b \<and> b < t1 \<and> selected number dt b}"
      using True less(2) by (auto simp: ts(3))
    moreover have "sorted_wrt (<) (if selected number dt time then time # ts else ts)" using ts(2) up(2) by (auto simp: ts(3))
    moreover have "range_loop step number dt time t1 acc = Some (acc @ (if selected number dt time then time # ts else ts))"
      using True ts(1) by (subst range_loop.simps) auto
    ultimately show ?thesis by blast
  next
    case False
    then have "range_loop step number dt time t1 acc = Some (acc @ [])" by (subst range_loop.simps) simp
    then show ?thesis using False by (intro exI [of _ "[]"]) auto
  qed
qed

lemma range_lists:
  "\<exists>ts. interval_range lo step number t0 t1 dt = Some ts \<and> sorted_wrt (<) ts \<and>
     set ts = {b. boundary b \<and> t0 \<le> b \<and> b < t1 \<and> selected number dt b}"
proof -
  obtain ts where ts: "range_loop step number dt (interval_ceil lo step t0) t1 [] = Some ts" "sorted_wrt (<) ts"
      "set ts = {b. boundary b \<and> interval_ceil lo step t0 \<le> b \<and> b < t1 \<and> selected number dt b}"
    using range_loop_lists [of "interval_ceil lo step t0" number dt t1 "[]"] ceil_least [of t0] by auto
  moreover have "interval_ceil lo step t0 \<le> b \<longleftrightarrow> t0 \<le> b" if "boundary b" for b using ceil_least [of t0 b] that by auto
  ultimately show ?thesis by (auto simp: interval_range_def)
qed

end

section \<open>Intervals on days and in a time zone\<close>

text \<open>An interval on day numbers gives one on time values, and an interval can be shifted by an offset.\<close>

lemma interval_of_days:
  assumes "time_interval lo st"
  shows "time_interval (\<lambda>t. make_date (lo (time_day t)) 0) (\<lambda>t k. make_date (st (time_day t) k) (time_within_day t))"
proof -
  have mono: "make_date a 0 \<le> make_date b 0" if "a \<le> b" for a b using that by (simp add: make_date_def)
  note d = time_day_bounds [of _ "time_day t" for t, THEN iffD1, OF refl]
  show ?thesis
  proof
    fix t s
    show "make_date (lo (time_day t)) 0 \<le> t"
      using d [of t] mono [OF time_interval.floor_le [OF assms, of "time_day t"]] by linarith
    have "time_day t + 1 \<le> st (lo (time_day t)) 1" using time_interval.next_gt [OF assms, of "time_day t"] by linarith
    then show "t < make_date (st (time_day (make_date (lo (time_day t)) 0)) 1) (time_within_day (make_date (lo (time_day t)) 0))"
      using d [of t] mono [of "time_day t + 1"] by fastforce
    show "make_date (lo (time_day (make_date (st (time_day (make_date (lo (time_day t)) 0)) 1) (time_within_day (make_date (lo (time_day t)) 0))))) 0 =
        make_date (st (time_day (make_date (lo (time_day t)) 0)) 1) (time_within_day (make_date (lo (time_day t)) 0))"
      using time_interval.step_boundary [OF assms, of "time_day t"] by simp
    assume s: "make_date (lo (time_day t)) 0 \<le> s"
      "s < make_date (st (time_day (make_date (lo (time_day t)) 0)) 1) (time_within_day (make_date (lo (time_day t)) 0))"
    have "lo (time_day t) \<le> time_day s"
    proof (rule ccontr)
      assume "\<not> lo (time_day t) \<le> time_day s"
      then have "make_date (time_day s + 1) 0 \<le> make_date (lo (time_day t)) 0" by (intro mono) linarith
      then show False using s(1) d [of s] by linarith
    qed
    moreover have "time_day s < st (lo (time_day t)) 1"
    proof (rule ccontr)
      assume "\<not> time_day s < st (lo (time_day t)) 1"
      then have "make_date (st (lo (time_day t)) 1) 0 \<le> make_date (time_day s) 0" by (intro mono) linarith
      moreover have "s < make_date (st (lo (time_day t)) 1) 0" using s(2) by simp
      ultimately show False using d [of s] by linarith
    qed
    ultimately have "lo (time_day s) = lo (time_day t)" by (rule time_interval.floor_between [OF assms])
    then show "make_date (lo (time_day s)) 0 = make_date (lo (time_day t)) 0" by (simp only:)
  qed
qed

lemma interval_shift:
  assumes "time_interval lo st"
  shows "time_interval (\<lambda>t. lo (t - c) + c) (\<lambda>t k. st (t - c) k + c)"
proof
  fix t s
  show "lo (t - c) + c \<le> t" using time_interval.floor_le [OF assms, of "t - c"] by simp
  show "t < st (lo (t - c) + c - c) 1 + c" using time_interval.next_gt [OF assms, of "t - c"] by simp
  show "lo (st (lo (t - c) + c - c) 1 + c - c) + c = st (lo (t - c) + c - c) 1 + c"
    using time_interval.step_boundary [OF assms, of "t - c"] by simp
  show "lo (s - c) + c = lo (t - c) + c" if "lo (t - c) + c \<le> s" "s < st (lo (t - c) + c - c) 1 + c"
    using time_interval.floor_between [OF assms, of "t - c" "s - c"] that by simp
qed

lemma interval_div:
  assumes "0 < u"
  shows "time_interval (\<lambda>t. t div u * u) (\<lambda>t k. t + k * u)"
proof
  fix t s
  show "t div u * u \<le> t" "t < t div u * u + 1 * u" using div_bounds [OF assms, of t] by (simp_all add: mult.commute)
  show "(t div u * u + 1 * u) div u * u = t div u * u + 1 * u" using assms by (simp add: distrib_right)
  show "s div u * u = t div u * u" if "t div u * u \<le> s" "s < t div u * u + 1 * u"
    using div_unique [OF assms, of "t div u" s] that by (simp add: mult.commute)
qed

lemma interval_each_day: "time_interval (\<lambda>d. d) (\<lambda>d k. d + k)"
  by unfold_locales simp_all

lemma interval_weekday: "time_interval (\<lambda>d. d - ((d + 4) mod 7 + (7 - w)) mod 7) (\<lambda>d k. d + k * 7)"
proof -
  have eq: "d - ((d + 4) mod 7 + (7 - w)) mod 7 = (d - (w - 4)) div 7 * 7 + (w - 4)" for d
  proof -
    have "((d + 4) mod 7 + (7 - w)) mod 7 = (d + 4 + (7 - w)) mod 7" by (simp only: mod_add_left_eq)
    also have "d + 4 + (7 - w) = (d - (w - 4)) + 1 * 7" by simp
    also have "\<dots> mod 7 = (d - (w - 4)) mod 7" by (rule mod_mult_self1)
    finally show ?thesis using mult_div_mod_eq [of 7 "d - (w - 4)"] by linarith
  qed
  show ?thesis unfolding eq using interval_shift [OF interval_div [of 7], of "w - 4"] by simp
qed


lemma interval_month:
  "time_interval (\<lambda>d. make_day (year_of_day d) (month_of_day d) 1)
     (\<lambda>d k. make_day (year_of_day d) (month_of_day d + k) (date_of_day d))"
proof
  fix t s
  define y m where "y = year_of_day t" and "m = month_of_day t"
  have b: "0 \<le> m" "m < 12" "make_day y m 1 \<le> t" "t < make_day y (m + 1) 1"
    using month_of_day_bounds [of t] by (auto simp: y_def m_def)
  have f: "year_of_day (make_day y m 1) = y" "month_of_day (make_day y m 1) = m" "date_of_day (make_day y m 1) = 1"
    using b(1,2) first_fields [of y m] by simp_all
  note fold = y_def [symmetric] m_def [symmetric] f
  show "make_day (year_of_day t) (month_of_day t) 1 \<le> t" unfolding fold by (rule b)
  show "t < make_day (year_of_day (make_day (year_of_day t) (month_of_day t) 1))
      (month_of_day (make_day (year_of_day t) (month_of_day t) 1) + 1) (date_of_day (make_day (year_of_day t) (month_of_day t) 1))"
    unfolding fold by (rule b)
  show "make_day (year_of_day s) (month_of_day s) 1 = make_day (year_of_day t) (month_of_day t) 1"
    if "make_day (year_of_day t) (month_of_day t) 1 \<le> s" "s < make_day (year_of_day (make_day (year_of_day t) (month_of_day t) 1))
      (month_of_day (make_day (year_of_day t) (month_of_day t) 1) + 1) (date_of_day (make_day (year_of_day t) (month_of_day t) 1))"
    using civil_unique [OF b(1,2) that [unfolded fold]] by (simp add: y_def m_def)
  show "make_day
      (year_of_day (make_day (year_of_day (make_day (year_of_day t) (month_of_day t) 1))
        (month_of_day (make_day (year_of_day t) (month_of_day t) 1) + 1) (date_of_day (make_day (year_of_day t) (month_of_day t) 1))))
      (month_of_day (make_day (year_of_day (make_day (year_of_day t) (month_of_day t) 1))
        (month_of_day (make_day (year_of_day t) (month_of_day t) 1) + 1) (date_of_day (make_day (year_of_day t) (month_of_day t) 1)))) 1 =
      make_day (year_of_day (make_day (year_of_day t) (month_of_day t) 1))
        (month_of_day (make_day (year_of_day t) (month_of_day t) 1) + 1) (date_of_day (make_day (year_of_day t) (month_of_day t) 1))"
    unfolding fold first_fields by (rule make_day_norm [symmetric])
qed

lemma interval_year:
  "time_interval (\<lambda>d. make_day (year_of_day d) 0 1) (\<lambda>d k. make_day (year_of_day d + k) (month_of_day d) (date_of_day d))"
proof
  fix t s
  define y where "y = year_of_day t"
  have jan: "make_day z 0 1 = day_from_year z" for z by (simp add: make_day_first)
  have b: "day_from_year y \<le> t" "t < day_from_year (y + 1)" using year_of_day_bounds [of t] by (auto simp: y_def)
  have f: "year_of_day (day_from_year z) = z" "month_of_day (day_from_year z) = 0" "date_of_day (day_from_year z) = 1" for z
    using first_fields [of z 0] by (simp_all add: jan)
  show "make_day (year_of_day t) 0 1 \<le> t" using b by (simp add: jan y_def)
  show "t < make_day (year_of_day (make_day (year_of_day t) 0 1) + 1) (month_of_day (make_day (year_of_day t) 0 1)) (date_of_day (make_day (year_of_day t) 0 1))"
    using b by (simp add: jan f y_def)
  show "make_day (year_of_day s) 0 1 = make_day (year_of_day t) 0 1"
    if "make_day (year_of_day t) 0 1 \<le> s"
      "s < make_day (year_of_day (make_day (year_of_day t) 0 1) + 1) (month_of_day (make_day (year_of_day t) 0 1)) (date_of_day (make_day (year_of_day t) 0 1))"
    using that year_of_day_unique [of y s] by (simp add: jan f y_def)
  show "make_day (year_of_day (make_day (year_of_day (make_day (year_of_day t) 0 1) + 1) (month_of_day (make_day (year_of_day t) 0 1)) (date_of_day (make_day (year_of_day t) 0 1)))) 0 1 =
      make_day (year_of_day (make_day (year_of_day t) 0 1) + 1) (month_of_day (make_day (year_of_day t) 0 1)) (date_of_day (make_day (year_of_day t) 0 1))"
    by (simp add: jan f)
qed

text \<open>The floors and steps of the library in a zone of fixed offset, over the local days.\<close>

lemma Date_fixed [simp]:
  "local_time (fixed_zone z) t = t - z * 60000" "z_utc (fixed_zone z) l = l + z * 60000" "z_offset (fixed_zone z) t = z"
  by (simp_all add: fixed_zone_def local_time_def)

lemma Date_fixed_methods [simp]:
  "getDate (Date (fixed_zone z)) t = date_of_day (time_day (t - z * 60000))"
  "getDay (Date (fixed_zone z)) t = (time_day (t - z * 60000) + 4) mod 7"
  "getFullYear (Date (fixed_zone z)) t = year_of_day (time_day (t - z * 60000))"
  "getMonth (Date (fixed_zone z)) t = month_of_day (time_day (t - z * 60000))"
  "getTime (Date (fixed_zone z)) t = t" "getTimezoneOffset (Date (fixed_zone z)) t = z" "setTime (Date (fixed_zone z)) t v = v"
  "newDate (Date (fixed_zone z)) y m = make_date (make_day y m 1) 0 + z * 60000"
  "setFullYear (Date (fixed_zone z)) t y m d = make_date (make_day y m d) (time_within_day (t - z * 60000)) + z * 60000"
  "setMonth (Date (fixed_zone z)) t m d =
     make_date (make_day (year_of_day (time_day (t - z * 60000))) m d) (time_within_day (t - z * 60000)) + z * 60000"
  "setDate (Date (fixed_zone z)) t d =
     make_date (make_day (year_of_day (time_day (t - z * 60000))) (month_of_day (time_day (t - z * 60000))) d)
       (time_within_day (t - z * 60000)) + z * 60000"
  by (simp_all add: Date_def setUTCDate_def setUTCMonth_def setUTCFullYear_def getUTCFullYear_def getUTCMonth_def getUTCDate_def getUTCDay_def)

lemma day_floor_fixed: "day_floor (Date (fixed_zone z)) t = make_date (time_day (t - z * 60000)) 0 + z * 60000"
  by (simp add: day_floor_def make_day_fields)

lemma make_day_fields_shift: "make_day (year_of_day d) (month_of_day d) (date_of_day d + k) = d + k"
  by (subst make_day_shift) (simp add: date_of_day_eq)

lemma make_day_fields_back: "make_day (year_of_day d) (month_of_day d) (date_of_day d - k) = d - k"
  using make_day_fields_shift [of d "- k"] by simp

lemma interval_in_zone:
  assumes "time_interval lo st" "\<And>t. F t = make_date (lo (time_day (t - c))) 0 + c"
    and "\<And>t k. S t k = make_date (st (time_day (t - c)) k) (time_within_day (t - c)) + c"
  shows "time_interval F S"
proof -
  have "F = (\<lambda>t. make_date (lo (time_day (t - c))) 0 + c)"
    "S = (\<lambda>t k. make_date (st (time_day (t - c)) k) (time_within_day (t - c)) + c)"
    using assms(2,3) by (simp_all only: fun_eq_iff) auto
  then show ?thesis using interval_shift [OF interval_of_days [OF assms(1)], of c] by (simp only:)
qed

interpretation days: time_interval "day_floor (Date (fixed_zone z))" "day_step (Date (fixed_zone z))" for z
  by (rule interval_in_zone [OF interval_each_day, of _ "z * 60000"])
    (simp_all add: day_floor_fixed day_step_def make_day_fields_shift)

interpretation weekdays: time_interval "weekday_floor (Date (fixed_zone z)) w" "week_step (Date (fixed_zone z))" for z w
  by (rule interval_in_zone [OF interval_weekday, of _ "z * 60000"])
    (simp_all add: weekday_floor_def day_floor_fixed week_step_def Let_def make_day_fields_shift make_day_fields_back)

interpretation months: time_interval "month_floor (Date (fixed_zone z))" "month_step (Date (fixed_zone z))" for z
  by (rule interval_in_zone [OF interval_month, of _ "z * 60000"])
    (simp_all add: month_floor_def day_floor_fixed month_step_def)

interpretation years: time_interval "year_floor (Date (fixed_zone z))" "year_step (Date (fixed_zone z))" for z
  by (rule interval_in_zone [OF interval_year, of _ "z * 60000"])
    (simp_all add: year_floor_def day_floor_fixed year_step_def)

interpretation seconds: time_interval second_floor "second_step (Date z)" for z
  using interval_div [of 1000] by (simp add: second_floor_def [abs_def] second_step_def [abs_def] Date_def)

interpretation minutes: time_interval minute_floor "minute_step (Date z)" for z
  using interval_div [of 60000] by (simp add: minute_floor_def [abs_def] minute_step_def [abs_def] Date_def)

interpretation hours: time_interval "hour_floor (Date (fixed_zone z))" "hour_step (Date (fixed_zone z))" for z
  using interval_shift [OF interval_div [of 3600000], of "z * 60000"]
  by (simp add: hour_floor_def [abs_def] hour_step_def [abs_def] Let_def)

section \<open>What every interval of the library promises\<close>

datatype time_unit = Second | Minute | Hour | Day | Weekday int | Month | Year

fun unit_number :: "date_class \<Rightarrow> time_unit \<Rightarrow> int \<Rightarrow> int" where
  "unit_number dc Second = getSeconds dc"
| "unit_number dc Minute = getMinutes dc"
| "unit_number dc Hour = getHours dc"
| "unit_number dc Day = (\<lambda>date. getDate dc date - 1)"
| "unit_number dc (Weekday w) = week_number dc w"
| "unit_number dc Month = getMonth dc"
| "unit_number dc Year = getFullYear dc"

fun unit_interval :: "date_class \<Rightarrow> time_unit \<Rightarrow> interval" where
  "unit_interval dc Second = time_second dc"
| "unit_interval dc Minute = time_minute dc"
| "unit_interval dc Hour = time_hour dc"
| "unit_interval dc Day = time_day_interval dc"
| "unit_interval dc (Weekday w) = time_weekday dc w"
| "unit_interval dc Month = time_month dc"
| "unit_interval dc Year = time_year dc"

lemmas interval_defs = time_second_def time_minute_def time_hour_def time_day_interval_def time_weekday_def time_month_def time_year_def

lemma unit_range:
  "\<exists>ts. iv_range (unit_interval (Date (fixed_zone z)) u) t0 t1 dt = Some ts \<and> sorted_wrt (<) ts \<and>
     set ts = {b. iv_floor (unit_interval (Date (fixed_zone z)) u) b = b \<and> t0 \<le> b \<and> b < t1 \<and>
       selected (unit_number (Date (fixed_zone z)) u) dt b}"
  by (cases u)
    (simp_all add: interval_defs d3_time_interval_def seconds.range_lists [unfolded seconds.boundary_def]
      minutes.range_lists [unfolded minutes.boundary_def] hours.range_lists [unfolded hours.boundary_def]
      days.range_lists [unfolded days.boundary_def] weekdays.range_lists [unfolded weekdays.boundary_def]
      months.range_lists [unfolded months.boundary_def] years.range_lists [unfolded years.boundary_def])

subsection \<open>Boundaries by the calendar\<close>

text \<open>
  The boundaries and their numbers in the words of the calendar: the time value of a local day and a time of the day, and the time values at which the
  second, minute, hour, day, month or year \<open>n\<close> begins.  Days are numbered from zero within their month.  Weeks begin at the midnights of their weekday;
  they carry any number here.
\<close>

definition zone_time :: "int \<Rightarrow> int \<Rightarrow> int \<Rightarrow> int" where
  "zone_time z day time = day * 86400000 + time + z * 60000"

fun begins :: "int \<Rightarrow> time_unit \<Rightarrow> int \<Rightarrow> int \<Rightarrow> bool" where
  "begins z Second n b = (\<exists>day h m. 0 \<le> h \<and> h < 24 \<and> 0 \<le> m \<and> m < 60 \<and> 0 \<le> n \<and> n < 60 \<and> b = zone_time z day (h * 3600000 + m * 60000 + n * 1000))"
| "begins z Minute n b = (\<exists>day h. 0 \<le> h \<and> h < 24 \<and> 0 \<le> n \<and> n < 60 \<and> b = zone_time z day (h * 3600000 + n * 60000))"
| "begins z Hour n b = (\<exists>day. 0 \<le> n \<and> n < 24 \<and> b = zone_time z day (n * 3600000))"
| "begins z Day n b = (\<exists>y m. 0 \<le> m \<and> m < 12 \<and> 0 \<le> n \<and> make_day y m (n + 1) < make_day y (m + 1) 1 \<and> b = zone_time z (make_day y m (n + 1)) 0)"
| "begins z (Weekday w) n b = (\<exists>day. (day + 4) mod 7 = w mod 7 \<and> b = zone_time z day 0)"
| "begins z Month n b = (\<exists>y. 0 \<le> n \<and> n < 12 \<and> b = zone_time z (make_day y n 1) 0)"
| "begins z Year n b = (b = zone_time z (make_day n 0 1) 0)"

definition multiple_of :: "real \<Rightarrow> int \<Rightarrow> bool" where
  "multiple_of dt n = (\<exists>k :: int. of_int n = dt * of_int k)"

lemma selected_multiple: "selected number dt b = (1 < dt \<longrightarrow> multiple_of dt (number b))"
proof (cases "1 < dt")
  case True
  let ?n = "of_int (number b) :: real"
  have "?n - dt * of_int q = 0 \<Longrightarrow> multiple_of dt (number b)" for q :: int unfolding multiple_of_def by (intro exI [of _ q]) simp
  moreover have "?n - dt * of_int (if ?n / dt < 0 then \<lceil>?n / dt\<rceil> else \<lfloor>?n / dt\<rfloor>) = 0" if "multiple_of dt (number b)"
    using that True unfolding multiple_of_def by auto
  ultimately show ?thesis using True unfolding selected_def by (auto simp del: of_int_ceiling_cancel of_int_floor_cancel)
qed (simp add: selected_def)

lemma clock_parts:
  fixes r :: int
  shows "r div 60000 = r div 1000 div 60" "r div 3600000 = r div 60000 div 60"
  by (simp_all flip: zdiv_zmult2_eq)

lemma clock_sum:
  fixes r :: int
  shows "r mod 3600000 = 0 \<Longrightarrow> r = r div 3600000 * 3600000"
    "r mod 60000 = 0 \<Longrightarrow> r = r div 3600000 * 3600000 + r div 60000 mod 60 * 60000"
    "r mod 1000 = 0 \<Longrightarrow> r = r div 3600000 * 3600000 + r div 60000 mod 60 * 60000 + r div 1000 mod 60 * 1000"
proof -
  have q: "r div 60000 = r div 3600000 * 60 + r div 60000 mod 60" "r div 1000 = r div 60000 * 60 + r div 1000 mod 60"
    using div_mult_mod_eq [of "r div 60000" 60] div_mult_mod_eq [of "r div 1000" 60] clock_parts [of r] by linarith+
  show "r mod 3600000 = 0 \<Longrightarrow> r = r div 3600000 * 3600000" using div_mult_mod_eq [of r 3600000] by linarith
  show "r mod 60000 = 0 \<Longrightarrow> r = r div 3600000 * 3600000 + r div 60000 mod 60 * 60000"
    using div_mult_mod_eq [of r 60000] q(1) by linarith
  show "r mod 1000 = 0 \<Longrightarrow> r = r div 3600000 * 3600000 + r div 60000 mod 60 * 60000 + r div 1000 mod 60 * 1000"
    using div_mult_mod_eq [of r 1000] q by linarith
qed

lemma clock_reading:
  fixes h m n :: int
  assumes "0 \<le> m" "m < 60" "0 \<le> n" "n < 60"
  shows "(h * 3600000 + m * 60000 + n * 1000) div 1000 = (h * 60 + m) * 60 + n" "((h * 60 + m) * 60 + n) mod 60 = n"
    "(h * 3600000 + m * 60000) div 60000 = h * 60 + m" "(h * 60 + m) mod 60 = m"
  using assms by (auto intro!: div_unique mod_pos_pos_trivial simp: mod_add_left_eq [symmetric])

lemma zone_time_fields:
  assumes "0 \<le> r" "r < 86400000"
  shows "(zone_time z day r - z * 60000) mod 86400000 = r" "b = zone_time z ((b - z * 60000) div 86400000) ((b - z * 60000) mod 86400000)"
  using assms by (simp_all add: zone_time_def)

lemma zone_boundary:
  fixes b z u :: int
  assumes "60000 mod u = 0 \<or> z * 60000 mod u = 0" "86400000 mod u = 0"
  shows "b div u * u = b \<longleftrightarrow> (b - z * 60000) mod 86400000 mod u = 0"
proof -
  have z: "u dvd z * 60000" "u dvd 86400000" using assms by (auto simp: mod_eq_0_iff_dvd)
  have "b div u * u = b \<longleftrightarrow> u dvd b" by (metis dvd_div_mult_self dvd_triv_right)
  also have "\<dots> \<longleftrightarrow> u dvd b - z * 60000" using z(1) by (simp add: dvd_diff_right_iff dvd_diff_left_iff)
  also have "\<dots> \<longleftrightarrow> (b - z * 60000) mod 86400000 mod u = 0" using z(2) by (simp add: mod_mod_cancel mod_eq_0_iff_dvd)
  finally show ?thesis .
qed

lemma hour_range: "0 \<le> t mod 86400000 div 3600000 \<and> t mod 86400000 div 3600000 < 24" for t :: int
proof -
  have "t mod 86400000 < 24 * 3600000" using pos_mod_bound [of 86400000 t] by simp
  then have "t mod 86400000 div 3600000 < 24" using div_bounds(1) [of 3600000 "t mod 86400000"] by linarith
  then show ?thesis by (simp add: pos_imp_zdiv_nonneg_iff)
qed

lemma sixty: "0 \<le> t mod 60 \<and> t mod 60 < 60" for t :: int
  by simp

lemma second_fields:
  "begins z Second n b \<longleftrightarrow> b div 1000 * 1000 = b \<and> (b - z * 60000) mod 86400000 div 1000 mod 60 = n"
proof -
  let ?r = "(b - z * 60000) mod 86400000"
  have f: "b div 1000 * 1000 = b \<longleftrightarrow> ?r mod 1000 = 0" by (rule zone_boundary) simp_all
  show ?thesis
  proof
    assume "begins z Second n b"
    then obtain day h m where a: "0 \<le> h" "h < 24" "0 \<le> m" "m < 60" "0 \<le> n" "n < 60" "b = zone_time z day (h * 3600000 + m * 60000 + n * 1000)" by auto
    then have r: "?r = h * 3600000 + m * 60000 + n * 1000" using zone_time_fields(1) [of "h * 3600000 + m * 60000 + n * 1000"] by simp
    have "?r mod 1000 = 0" unfolding r by (simp add: mod_eq_0_iff_dvd)
    moreover have "?r div 1000 mod 60 = n" unfolding r clock_reading(1) [OF a(3-6)] by (rule clock_reading(2) [OF a(3-6)])
    ultimately show "b div 1000 * 1000 = b \<and> ?r div 1000 mod 60 = n" unfolding f by blast
  next
    assume "b div 1000 * 1000 = b \<and> ?r div 1000 mod 60 = n"
    then have n: "?r mod 1000 = 0" "?r div 1000 mod 60 = n" using f by auto
    have "b = zone_time z ((b - z * 60000) div 86400000) (?r div 3600000 * 3600000 + ?r div 60000 mod 60 * 60000 + n * 1000)"
      unfolding clock_sum(3) [OF n(1), symmetric, unfolded n(2)] by (rule zone_time_fields(2) [of 0]) simp_all
    moreover have "0 \<le> n" "n < 60" using n by auto
    ultimately show "begins z Second n b" unfolding begins.simps using hour_range [of "b - z * 60000"] sixty [of "?r div 60000"] by blast
  qed
qed

lemma minute_fields:
  "begins z Minute n b \<longleftrightarrow> b div 60000 * 60000 = b \<and> (b - z * 60000) mod 86400000 div 60000 mod 60 = n"
proof -
  let ?r = "(b - z * 60000) mod 86400000"
  have f: "b div 60000 * 60000 = b \<longleftrightarrow> ?r mod 60000 = 0" by (rule zone_boundary) simp_all
  show ?thesis
  proof
    assume "begins z Minute n b"
    then obtain day h where a: "0 \<le> h" "h < 24" "0 \<le> n" "n < 60" "b = zone_time z day (h * 3600000 + n * 60000)" by auto
    then have r: "?r = h * 3600000 + n * 60000" using zone_time_fields(1) [of "h * 3600000 + n * 60000"] by simp
    have "?r mod 60000 = 0" unfolding r by (simp add: mod_eq_0_iff_dvd)
    moreover have "?r div 60000 mod 60 = n" unfolding r clock_reading(3) [OF a(3,4) a(3,4)] by (rule clock_reading(4) [OF a(3,4) a(3,4)])
    ultimately show "b div 60000 * 60000 = b \<and> ?r div 60000 mod 60 = n" unfolding f by blast
  next
    assume "b div 60000 * 60000 = b \<and> ?r div 60000 mod 60 = n"
    then have n: "?r mod 60000 = 0" "?r div 60000 mod 60 = n" using f by auto
    have "b = zone_time z ((b - z * 60000) div 86400000) (?r div 3600000 * 3600000 + n * 60000)"
      unfolding clock_sum(2) [OF n(1), symmetric, unfolded n(2)] by (rule zone_time_fields(2) [of 0]) simp_all
    moreover have "0 \<le> n" "n < 60" using n by auto
    ultimately show "begins z Minute n b" unfolding begins.simps using hour_range [of "b - z * 60000"] by blast
  qed
qed

lemma hour_fields:
  "begins z Hour n b \<longleftrightarrow> (b - z * 60000) div 3600000 * 3600000 + z * 60000 = b \<and> (b - z * 60000) mod 86400000 div 3600000 = n"
proof -
  let ?r = "(b - z * 60000) mod 86400000"
  have f: "(b - z * 60000) div 3600000 * 3600000 + z * 60000 = b \<longleftrightarrow> ?r mod 3600000 = 0"
    using zone_boundary [of 3600000 0 "b - z * 60000"] by (auto simp: algebra_simps)
  show ?thesis
  proof
    assume "begins z Hour n b"
    then obtain day where a: "0 \<le> n" "n < 24" "b = zone_time z day (n * 3600000)" by auto
    then have r: "?r = n * 3600000" using zone_time_fields(1) [of "n * 3600000"] by simp
    then show "(b - z * 60000) div 3600000 * 3600000 + z * 60000 = b \<and> ?r div 3600000 = n" unfolding f r by simp
  next
    assume "(b - z * 60000) div 3600000 * 3600000 + z * 60000 = b \<and> ?r div 3600000 = n"
    then have n: "?r mod 3600000 = 0" "?r div 3600000 = n" using f by auto
    have "b = zone_time z ((b - z * 60000) div 86400000) (n * 3600000)"
      unfolding clock_sum(1) [OF n(1), symmetric, unfolded n(2)] by (rule zone_time_fields(2) [of 0]) simp_all
    then show "begins z Hour n b" unfolding begins.simps using hour_range [of "b - z * 60000", unfolded n(2)] by blast
  qed
qed

lemma zone_day: "b = zone_time z d 0 \<longleftrightarrow> time_day (b - z * 60000) = d \<and> make_date (time_day (b - z * 60000)) 0 + z * 60000 = b"
  by (auto simp: zone_time_def time_day_def make_date_def ms_per_day_def)

lemma day_fields: "(\<exists>y m. 0 \<le> m \<and> m < 12 \<and> 0 \<le> n \<and> make_day y m (n + 1) < make_day y (m + 1) 1 \<and> d = make_day y m (n + 1)) \<longleftrightarrow> n = date_of_day d - 1"
proof
  assume "\<exists>y m. 0 \<le> m \<and> m < 12 \<and> 0 \<le> n \<and> make_day y m (n + 1) < make_day y (m + 1) 1 \<and> d = make_day y m (n + 1)"
  then obtain y m where m: "0 \<le> m" "m < 12" "0 \<le> n" "d < make_day y (m + 1) 1" "d = make_day y m (n + 1)" by blast
  then have "make_day y m 1 \<le> d" using make_day_shift [of y m "n + 1"] by simp
  then have "year_of_day d = y" "month_of_day d = m" using civil_unique [OF m(1,2) _ m(4)] by auto
  then show "n = date_of_day d - 1" using m(5) make_day_shift [of y m "n + 1"] by (simp add: date_of_day_eq)
next
  assume n: "n = date_of_day d - 1"
  show "\<exists>y m. 0 \<le> m \<and> m < 12 \<and> 0 \<le> n \<and> make_day y m (n + 1) < make_day y (m + 1) 1 \<and> d = make_day y m (n + 1)"
    using month_of_day_bounds [of d] date_of_day_pos [of d] make_day_fields [of d] n
    by (intro exI [of _ "year_of_day d"] exI [of _ "month_of_day d"]) auto
qed

lemma calendar_fields:
  fixes z b :: int
  defines "d \<equiv> time_day (b - z * 60000)"
  shows "begins z Day n b \<longleftrightarrow> make_date d 0 + z * 60000 = b \<and> date_of_day d - 1 = n"
    "begins z Month n b \<longleftrightarrow> make_date (make_day (year_of_day d) (month_of_day d) 1) 0 + z * 60000 = b \<and> month_of_day d = n"
    "begins z Year n b \<longleftrightarrow> make_date (make_day (year_of_day d) 0 1) 0 + z * 60000 = b \<and> year_of_day d = n"
    "begins z (Weekday w) n b \<longleftrightarrow> make_date d 0 + z * 60000 = b \<and> (d + 4) mod 7 = w mod 7"
proof -
  show "begins z Day n b \<longleftrightarrow> make_date d 0 + z * 60000 = b \<and> date_of_day d - 1 = n"
    using day_fields [of n d] unfolding begins.simps zone_day d_def [symmetric] by auto
  have e: "make_date (make_day y m 1) 0 + z * 60000 = b \<longleftrightarrow> b = zone_time z (make_day y m 1) 0" for y m
    by (auto simp: zone_time_def make_date_def ms_per_day_def)
  have "begins z Month n b" if "b = zone_time z (make_day (year_of_day d) n 1) 0" "month_of_day d = n"
    using that month_of_day_bounds [of d] by auto
  moreover have "b = zone_time z (make_day (year_of_day d) (month_of_day d) 1) 0 \<and> month_of_day d = n" if "begins z Month n b"
  proof -
    obtain y where y: "0 \<le> n" "n < 12" "b = zone_time z (make_day y n 1) 0" using \<open>begins z Month n b\<close> by auto
    then have "d = make_day y n 1" unfolding d_def zone_day by simp
    then show ?thesis using y first_fields [of y n] by simp
  qed
  ultimately show "begins z Month n b \<longleftrightarrow> make_date (make_day (year_of_day d) (month_of_day d) 1) 0 + z * 60000 = b \<and> month_of_day d = n"
    unfolding e by blast
  have "d = make_day n 0 1" if "b = zone_time z (make_day n 0 1) 0" using that unfolding d_def zone_day by simp
  then show "begins z Year n b \<longleftrightarrow> make_date (make_day (year_of_day d) 0 1) 0 + z * 60000 = b \<and> year_of_day d = n"
    using first_fields [of n 0] unfolding e by auto
  show "begins z (Weekday w) n b \<longleftrightarrow> make_date d 0 + z * 60000 = b \<and> (d + 4) mod 7 = w mod 7"
    unfolding begins.simps zone_day d_def [symmetric] by auto
qed

lemma begins_unit:
  assumes "\<forall>w. u \<noteq> Weekday w"
  shows "begins z u n b \<longleftrightarrow> iv_floor (unit_interval (Date (fixed_zone z)) u) b = b \<and> unit_number (Date (fixed_zone z)) u b = n"
proof -
  have hms: "getSeconds (Date (fixed_zone z)) b = (b - z * 60000) mod 86400000 div 1000 mod 60"
    "getMinutes (Date (fixed_zone z)) b = (b - z * 60000) mod 86400000 div 60000 mod 60"
    "getHours (Date (fixed_zone z)) b = (b - z * 60000) mod 86400000 div 3600000"
    by (simp_all add: Date_def getUTCSeconds_def getUTCMinutes_def getUTCHours_def time_within_day_def ms_per_day_def)
  show ?thesis using assms
    by (cases u) (simp_all add: second_fields minute_fields hour_fields calendar_fields interval_defs d3_time_interval_def second_floor_def minute_floor_def
      hour_floor_def day_floor_fixed month_floor_def year_floor_def Let_def hms del: begins.simps)
qed

lemma begins_weekday: "(\<exists>n. begins z (Weekday w) n b) \<longleftrightarrow> iv_floor (unit_interval (Date (fixed_zone z)) (Weekday w)) b = b"
proof -
  define d where "d = time_day (b - z * 60000)"
  have k: "make_date (d - k) 0 + z * 60000 = b \<longleftrightarrow> k = 0 \<and> make_date d 0 + z * 60000 = b" if "0 \<le> k" for k
  proof -
    have "d * 86400000 \<le> b - z * 60000" using div_bounds(1) [of 86400000 "b - z * 60000"] by (simp add: d_def time_day_def ms_per_day_def)
    then have "(d - k) * 86400000 + z * 60000 = b \<Longrightarrow> k = 0" using that by (simp add: left_diff_distrib)
    then show ?thesis by (auto simp: make_date_def ms_per_day_def)
  qed
  have "((d + 4) mod 7 + (7 - w)) mod 7 = (d + 4 + (7 - w)) mod 7" by (rule mod_add_left_eq)
  also have "d + 4 + (7 - w) = d + 4 - w + 7" by simp
  also have "\<dots> mod 7 = (d + 4 - w) mod 7" by (rule mod_add_self2)
  also have "\<dots> = 0 \<longleftrightarrow> (d + 4) mod 7 = w mod 7" by (simp only: mod_eq_dvd_iff mod_eq_0_iff_dvd)
  finally have "((d + 4) mod 7 + (7 - w)) mod 7 = 0 \<longleftrightarrow> (d + 4) mod 7 = w mod 7" .
  then show ?thesis using k [of "((d + 4) mod 7 + (7 - w)) mod 7"]
    by (simp add: calendar_fields interval_defs d3_time_interval_def weekday_floor_def day_floor_fixed Let_def make_day_fields_back d_def [symmetric] del: begins.simps) auto
qed

text \<open>
  (C34) Ranges of dates.  In a time zone of fixed offset, UTC among them, the range of every interval of the library ends and lists, in order and without
  repetition, exactly the time values from \<open>t0\<close> on and before \<open>t1\<close> at which by the calendar a second, minute, hour, day, week, month or year begins; with
  a step greater than one, only those whose number within the minute, hour, day, month or year, or whose year, is a multiple of the step.  (A step of weeks
  greater than one is not covered: the code numbers weeks wrongly.)
\<close>

theorem time_range_boundaries:
  assumes "dt \<le> 1 \<or> (\<forall>w. u \<noteq> Weekday w)"
  shows "\<exists>ts. iv_range (unit_interval (Date (fixed_zone z)) u) t0 t1 dt = Some ts \<and> sorted_wrt (<) ts \<and>
     set ts = {b. t0 \<le> b \<and> b < t1 \<and> (\<exists>n. begins z u n b \<and> (1 < dt \<longrightarrow> multiple_of dt n))}"
proof -
  have "(iv_floor (unit_interval (Date (fixed_zone z)) u) b = b \<and> selected (unit_number (Date (fixed_zone z)) u) dt b) =
      (\<exists>n. begins z u n b \<and> (1 < dt \<longrightarrow> multiple_of dt n))" for b
  proof (cases "\<forall>w. u \<noteq> Weekday w")
    case True
    then show ?thesis using begins_unit [OF True, of z _ b] by (auto simp: selected_multiple)
  next
    case False
    then show ?thesis using assms begins_weekday [of z _ b] by (auto simp: selected_multiple)
  qed
  then show ?thesis using unit_range [of z u t0 t1 dt] by (simp add: conj_ac)
qed

text \<open>Every second month of the year 2000 in UTC, from the second of January on and before the first of June: the months with numbers two and four.\<close>

theorem time_range_boundaries_witness:
  "\<exists>ts. iv_range (time_month d3_date_utc) 946771200000 959817600000 2 = Some ts \<and> sorted_wrt (<) ts \<and>
     set ts = {b. 946771200000 \<le> b \<and> b < 959817600000 \<and> (\<exists>n. begins 0 Month n b \<and> multiple_of 2 n)} \<and> 951868800000 \<in> set ts"
proof -
  have "begins 0 Month 2 951868800000" by (simp add: zone_time_def exI [of _ 2000] make_day_def day_from_year_def month_start_def month_starts_def is_leap_def Let_def)
  moreover have "multiple_of 2 2" unfolding multiple_of_def by (rule exI [of _ 1]) simp
  ultimately have "\<exists>n. begins 0 Month n 951868800000 \<and> multiple_of 2 n" by blast
  then show ?thesis using time_range_boundaries [of 2 Month 0 946771200000 959817600000] by (auto simp: d3_date_utc_is_Date simp del: begins.simps)
qed

lemmas interval_floor_facts =
  seconds.floor_le minutes.floor_le hours.floor_le days.floor_le weekdays.floor_le months.floor_le years.floor_le
  seconds.next_gt minutes.next_gt hours.next_gt days.next_gt weekdays.next_gt months.next_gt years.next_gt
  seconds.boundary_floor [unfolded seconds.boundary_def] minutes.boundary_floor [unfolded minutes.boundary_def]
  hours.boundary_floor [unfolded hours.boundary_def] days.boundary_floor [unfolded days.boundary_def]
  weekdays.boundary_floor [unfolded weekdays.boundary_def] months.boundary_floor [unfolded months.boundary_def]
  years.boundary_floor [unfolded years.boundary_def]

lemma unit_floor:
  fixes z :: int and u :: time_unit
  defines "I \<equiv> unit_interval (Date (fixed_zone z)) u"
  shows "iv_floor I t \<le> t" "t < iv_offset I (iv_floor I t) 1" "iv_floor I (iv_floor I t) = iv_floor I t"
  unfolding I_def by (cases u; simp add: interval_defs d3_time_interval_def interval_offset_def interval_floor_facts)+

lemma unit_ceil:
  fixes z :: int and u :: time_unit
  defines "I \<equiv> unit_interval (Date (fixed_zone z)) u"
  shows "iv_floor I (iv_ceil I t) = iv_ceil I t \<and> t \<le> iv_ceil I t \<and> (iv_floor I b = b \<longrightarrow> t \<le> b \<longrightarrow> iv_ceil I t \<le> b)"
  using seconds.ceil_least [unfolded seconds.boundary_def] minutes.ceil_least [unfolded minutes.boundary_def]
    hours.ceil_least [unfolded hours.boundary_def] days.ceil_least [unfolded days.boundary_def]
    weekdays.ceil_least [unfolded weekdays.boundary_def] months.ceil_least [unfolded months.boundary_def]
    years.ceil_least [unfolded years.boundary_def]
  unfolding I_def by (cases u) (simp_all add: interval_defs d3_time_interval_def)

lemma unit_round:
  fixes z :: int and u :: time_unit
  defines "I \<equiv> unit_interval (Date (fixed_zone z)) u"
  shows "iv_floor I (iv_round I t) = iv_round I t \<and> (iv_floor I b = b \<longrightarrow> \<bar>t - iv_round I t\<bar> \<le> \<bar>t - b\<bar>)"
  using seconds.round_nearest [unfolded seconds.boundary_def] minutes.round_nearest [unfolded minutes.boundary_def]
    hours.round_nearest [unfolded hours.boundary_def] days.round_nearest [unfolded days.boundary_def]
    weekdays.round_nearest [unfolded weekdays.boundary_def] months.round_nearest [unfolded months.boundary_def]
    years.round_nearest [unfolded years.boundary_def]
  unfolding I_def by (cases u) (simp_all add: interval_defs d3_time_interval_def)

text \<open>
  Rounding dates.  In a time zone of fixed offset, for every interval of the library, the floor of a date is a boundary
  at or before the date with the next boundary after it, the ceiling is the first boundary at or
  after the date, and rounding gives a boundary than which no other is nearer.
\<close>

theorem time_rounding:
  assumes "I = unit_interval (Date (fixed_zone z)) u"
  shows "iv_floor I (iv_floor I t) = iv_floor I t \<and> iv_floor I t \<le> t \<and> t < iv_offset I (iv_floor I t) 1 \<and>
    iv_floor I (iv_ceil I t) = iv_ceil I t \<and> t \<le> iv_ceil I t \<and> iv_floor I (iv_round I t) = iv_round I t \<and>
    (\<forall>b. iv_floor I b = b \<longrightarrow> (t \<le> b \<longrightarrow> iv_ceil I t \<le> b) \<and> \<bar>t - iv_round I t\<bar> \<le> \<bar>t - b\<bar>)"
  unfolding assms using unit_floor [where z = z and u = u and t = t] unit_ceil [where z = z and u = u and t = t]
    unit_round [where z = z and u = u and t = t] by blast

theorem time_rounding_witness:
  "iv_floor (time_month d3_date_utc) 951782400000 = 949363200000 \<and> iv_floor (time_month d3_date_utc) 949363200000 = 949363200000"
proof -
  have f: "iv_floor (time_month d3_date_utc) 951782400000 = 949363200000" by code_simp
  moreover have "unit_interval (Date (fixed_zone 0)) Month = time_month d3_date_utc" by (simp add: d3_date_utc_is_Date)
  ultimately show ?thesis using time_rounding [of "time_month d3_date_utc" 0 Month 951782400000] by simp
qed

text \<open>
  The number of a week is meant to count the weeks of a year from zero.  It compares the weekday of
  the first of January with the shift \<open>7 - w\<close> and not with \<open>w\<close>, so that the first Monday of 2018, a first of
  January, has number \<open>-1\<close> while the first Monday of 2019, a seventh of January, has number \<open>0\<close>.
\<close>

lemma week_number_of_first_monday:
  "week_number d3_date_utc 1 1514764800000 = -1" "week_number d3_date_utc 1 1546819200000 = 0"
  by code_simp+

end
