(* ===== verification/D3_TimeFormat.thy ===== *)
theory D3_TimeFormat
  imports D3_Time D3_Map D3_Format
begin

text \<open>
  Formatting and parsing dates (\<open>d3.js\<close> lines 2423 to 2739 and 9094 to 9105).

  A template is walked as a list of characters, and the text that is parsed as the rest that is
  still to be read, which is \<open>string.substring(i)\<close>.  The directives \<open>%c\<close>, \<open>%x\<close> and \<open>%X\<close> stand for templates of the
  locale, which may contain directives again; the argument \<open>n\<close> bounds that nesting, and \<open>None\<close> stands
  for exceeding it.  The English locale needs two levels.
\<close>

section \<open>Locales\<close>

record time_locale =
  lc_dateTime :: string
  lc_date :: string
  lc_time :: string
  lc_periods :: "string list"
  lc_days :: "string list"
  lc_shortDays :: "string list"
  lc_months :: "string list"
  lc_shortMonths :: "string list"

definition d3_time_enUS :: time_locale where
  "d3_time_enUS =
     \<lparr>lc_dateTime = ''%a %b %e %X %Y'', lc_date = ''%m/%d/%Y'', lc_time = ''%H:%M:%S'', lc_periods = [''AM'', ''PM''],
      lc_days = [''Sunday'', ''Monday'', ''Tuesday'', ''Wednesday'', ''Thursday'', ''Friday'', ''Saturday''],
      lc_shortDays = [''Sun'', ''Mon'', ''Tue'', ''Wed'', ''Thu'', ''Fri'', ''Sat''],
      lc_months = [''January'', ''February'', ''March'', ''April'', ''May'', ''June'', ''July'', ''August'', ''September'',
        ''October'', ''November'', ''December''],
      lc_shortMonths = [''Jan'', ''Feb'', ''Mar'', ''Apr'', ''May'', ''Jun'', ''Jul'', ''Aug'', ''Sep'', ''Oct'', ''Nov'', ''Dec'']\<rparr>"

section \<open>Formatting\<close>

text \<open>The remainder of the language takes the sign of the dividend.\<close>

definition js_irem :: "int \<Rightarrow> int \<Rightarrow> int" where
  "js_irem a b = (if a < 0 then - ((- a) mod b) else a mod b)"

definition d3_time_formatPads :: "char \<Rightarrow> string option" where
  "d3_time_formatPads c =
     (if c = CHR ''-'' then Some [] else if c = CHR ''_'' then Some '' '' else if c = CHR ''0'' then Some ''0'' else None)"

definition d3_time_formatPad :: "int \<Rightarrow> string \<Rightarrow> nat \<Rightarrow> string" where
  "d3_time_formatPad v fill width =
     (let s = dec_digits (nat \<bar>v\<bar>)
      in (if v < 0 then ''-'' else []) @ (if length s < width then concat (replicate (width - length s) fill) @ s else s))"

definition d3_time_zone :: "date_class \<Rightarrow> int \<Rightarrow> string" where
  "d3_time_zone dc d =
     (let z = getTimezoneOffset dc d
      in (if z > 0 then ''-'' else ''+'') @ d3_time_formatPad (\<bar>z\<bar> div 60) ''0'' 2 @ d3_time_formatPad (\<bar>z\<bar> mod 60) ''0'' 2)"

definition name_at :: "string list \<Rightarrow> int \<Rightarrow> string" where
  "name_at names i = (case js_get names (nat i) of Some s \<Rightarrow> s | None \<Rightarrow> [])"

text \<open>
  The table of directives; \<open>sub\<close> formats a template of the locale.  \<open>None\<close> is an unknown directive,
  \<open>Some None\<close> one whose nested template does not end.
\<close>

definition d3_time_formats ::
  "time_locale \<Rightarrow> date_class \<Rightarrow> (string \<Rightarrow> string option) \<Rightarrow> char \<Rightarrow> int \<Rightarrow> string \<Rightarrow> string option option" where
  "d3_time_formats lc dc sub c d p =
     (if c = CHR ''a'' then Some (Some (name_at (lc_shortDays lc) (getDay dc d)))
      else if c = CHR ''A'' then Some (Some (name_at (lc_days lc) (getDay dc d)))
      else if c = CHR ''b'' then Some (Some (name_at (lc_shortMonths lc) (getMonth dc d)))
      else if c = CHR ''B'' then Some (Some (name_at (lc_months lc) (getMonth dc d)))
      else if c = CHR ''c'' then Some (sub (lc_dateTime lc))
      else if c = CHR ''d'' \<or> c = CHR ''e'' then Some (Some (d3_time_formatPad (getDate dc d) p 2))
      else if c = CHR ''H'' then Some (Some (d3_time_formatPad (getHours dc d) p 2))
      else if c = CHR ''I'' then
        Some (Some (d3_time_formatPad (if getHours dc d mod 12 \<noteq> 0 then getHours dc d mod 12 else 12) p 2))
      else if c = CHR ''j'' then Some (Some (d3_time_formatPad (1 + dayOfYear dc d) p 3))
      else if c = CHR ''L'' then Some (Some (d3_time_formatPad (getMilliseconds dc d) p 3))
      else if c = CHR ''m'' then Some (Some (d3_time_formatPad (getMonth dc d + 1) p 2))
      else if c = CHR ''M'' then Some (Some (d3_time_formatPad (getMinutes dc d) p 2))
      else if c = CHR ''p'' then Some (Some (name_at (lc_periods lc) (if getHours dc d \<ge> 12 then 1 else 0)))
      else if c = CHR ''S'' then Some (Some (d3_time_formatPad (getSeconds dc d) p 2))
      else if c = CHR ''U'' then Some (Some (d3_time_formatPad (weekdayOfYear dc 0 d) p 2))
      else if c = CHR ''w'' then Some (Some (d3_time_formatPad (getDay dc d) [] 1))
      else if c = CHR ''W'' then Some (Some (d3_time_formatPad (weekdayOfYear dc 1 d) p 2))
      else if c = CHR ''x'' then Some (sub (lc_date lc))
      else if c = CHR ''X'' then Some (sub (lc_time lc))
      else if c = CHR ''y'' then Some (Some (d3_time_formatPad (js_irem (getFullYear dc d) 100) p 2))
      else if c = CHR ''Y'' then Some (Some (d3_time_formatPad (js_irem (getFullYear dc d) 10000) p 4))
      else if c = CHR ''Z'' then Some (Some (d3_time_zone dc d))
      else if c = CHR ''%'' then Some (Some ''%'')
      else None)"

text \<open>One directive with its pad: an unknown one stands for its own character.\<close>

definition format_directive ::
  "time_locale \<Rightarrow> date_class \<Rightarrow> (string \<Rightarrow> string option) \<Rightarrow> char \<Rightarrow> string option \<Rightarrow> int \<Rightarrow> string option" where
  "format_directive lc dc sub c p d =
     (case d3_time_formats lc dc sub c d (case p of None \<Rightarrow> if c = CHR ''e'' then '' '' else ''0'' | Some f \<Rightarrow> f) of
        None \<Rightarrow> Some [c]
      | Some r \<Rightarrow> r)"

definition append_some :: "string option \<Rightarrow> string option \<Rightarrow> string option" where
  "append_some a b = (case (a, b) of (Some s, Some t) \<Rightarrow> Some (s @ t) | _ \<Rightarrow> None)"

fun d3_time_format :: "time_locale \<Rightarrow> date_class \<Rightarrow> nat \<Rightarrow> string \<Rightarrow> int \<Rightarrow> string option" where
  "d3_time_format lc dc n [] d = Some []"
| "d3_time_format lc dc n (ch # r) d =
     (if ch \<noteq> CHR ''%'' then append_some (Some [ch]) (d3_time_format lc dc n r d)
      else let sub = (\<lambda>t. case n of 0 \<Rightarrow> None | Suc m \<Rightarrow> d3_time_format lc dc m t d)
           in case r of
                [] \<Rightarrow> Some []
              | c # r' \<Rightarrow>
                  (case d3_time_formatPads c of
                     None \<Rightarrow> append_some (format_directive lc dc sub c None d) (d3_time_format lc dc n r' d)
                   | Some p \<Rightarrow>
                       (case r' of
                          [] \<Rightarrow> Some []
                        | c' # r'' \<Rightarrow> append_some (format_directive lc dc sub c' (Some p) d) (d3_time_format lc dc n r'' d))))"

section \<open>Parsing\<close>

text \<open>The fields read so far; a field the template does not set is \<open>None\<close> or has its default.\<close>

record parsed =
  pd_y :: int
  pd_m :: int
  pd_d :: int
  pd_H :: int
  pd_M :: int
  pd_S :: int
  pd_L :: int
  pd_Z :: "int option"
  pd_p :: "int option"
  pd_j :: "int option"
  pd_w :: "int option"
  pd_W :: "int option"
  pd_U :: "int option"

type_synonym parser = "parsed \<Rightarrow> string \<Rightarrow> (parsed \<times> string) option"

definition to_lower :: "char \<Rightarrow> char" where
  "to_lower c = (let n = charCode c in if (65 \<le> n \<and> n \<le> 90) \<or> (192 \<le> n \<and> n \<le> 222 \<and> n \<noteq> 215) then char_of (n + 32) else c)"

text \<open>\<open>d3_time_numberRe\<close>, blanks and digits, on the next \<open>k\<close> characters: the number and the rest.\<close>

definition d3_time_numberRe :: "nat option \<Rightarrow> string \<Rightarrow> (int \<times> string) option" where
  "d3_time_numberRe k s =
     (let sub = (case k of None \<Rightarrow> s | Some k \<Rightarrow> take k s); ws = takeWhile is_ws sub;
          ds = takeWhile is_digit (dropWhile is_ws sub)
      in if ds = [] then None else Some (int (dec_val ds), drop (length ws + length ds) s))"

definition parse_field :: "nat option \<Rightarrow> (int \<Rightarrow> parsed \<Rightarrow> parsed) \<Rightarrow> parser" where
  "parse_field k upd date s = map_option (\<lambda>(v, r). (upd v date, r)) (d3_time_numberRe k s)"

definition d3_time_formatLookup :: "string list \<Rightarrow> nat obj" where
  "d3_time_formatLookup names = foldl (\<lambda>m (i, s). d3_map_set m (map to_lower s) i) [] (enumerate 0 names)"

text \<open>\<open>d3_time_formatRe\<close>: the first name that is a prefix of the text up to case.\<close>

definition d3_time_formatRe :: "string list \<Rightarrow> string \<Rightarrow> string option" where
  "d3_time_formatRe names s =
     map_option (\<lambda>n. take (length n) s) (find (\<lambda>n. map to_lower (take (length n) s) = map to_lower n) names)"

definition parse_name :: "string list \<Rightarrow> (int \<Rightarrow> parsed \<Rightarrow> parsed) \<Rightarrow> parser" where
  "parse_name names upd date s = (case d3_time_formatRe names s of
     None \<Rightarrow> None
   | Some n \<Rightarrow>
       (case d3_map_get (d3_time_formatLookup names) (map to_lower n) of
          None \<Rightarrow> None
        | Some i \<Rightarrow> Some (upd (int i) date, drop (length n) s)))"

definition d3_time_parseWeekdayAbbrev :: "time_locale \<Rightarrow> parser" where
  "d3_time_parseWeekdayAbbrev lc = parse_name (lc_shortDays lc) (\<lambda>v d. d\<lparr>pd_w := Some v\<rparr>)"

definition d3_time_parseWeekday :: "time_locale \<Rightarrow> parser" where
  "d3_time_parseWeekday lc = parse_name (lc_days lc) (\<lambda>v d. d\<lparr>pd_w := Some v\<rparr>)"

definition d3_time_parseMonthAbbrev :: "time_locale \<Rightarrow> parser" where
  "d3_time_parseMonthAbbrev lc = parse_name (lc_shortMonths lc) (\<lambda>v d. d\<lparr>pd_m := v\<rparr>)"

definition d3_time_parseMonth :: "time_locale \<Rightarrow> parser" where
  "d3_time_parseMonth lc = parse_name (lc_months lc) (\<lambda>v d. d\<lparr>pd_m := v\<rparr>)"

text \<open>A period always takes two characters, so that a shorter rest fails.\<close>

definition d3_time_parseAmPm :: "time_locale \<Rightarrow> parser" where
  "d3_time_parseAmPm lc date s =
     (if length s < 2 then None
      else map_option (\<lambda>n. (date\<lparr>pd_p := Some (int n)\<rparr>, drop 2 s))
             (d3_map_get (d3_time_formatLookup (lc_periods lc)) (map to_lower (take 2 s))))"

definition d3_time_parseWeekdayNumber :: parser where
  "d3_time_parseWeekdayNumber = parse_field (Some 1) (\<lambda>v d. d\<lparr>pd_w := Some v\<rparr>)"

definition d3_time_parseWeekNumberSunday :: parser where
  "d3_time_parseWeekNumberSunday = parse_field None (\<lambda>v d. d\<lparr>pd_U := Some v\<rparr>)"

definition d3_time_parseWeekNumberMonday :: parser where
  "d3_time_parseWeekNumberMonday = parse_field None (\<lambda>v d. d\<lparr>pd_W := Some v\<rparr>)"

definition d3_time_parseFullYear :: parser where
  "d3_time_parseFullYear = parse_field (Some 4) (\<lambda>v d. d\<lparr>pd_y := v\<rparr>)"

definition d3_time_expandYear :: "int \<Rightarrow> int" where
  "d3_time_expandYear d = d + (if d > 68 then 1900 else 2000)"

definition d3_time_parseYear :: parser where
  "d3_time_parseYear = parse_field (Some 2) (\<lambda>v d. d\<lparr>pd_y := d3_time_expandYear v\<rparr>)"

definition d3_time_parseZone :: parser where
  "d3_time_parseZone date s =
     (let t = take 5 s
      in if length t = 5 \<and> (hd t = CHR ''+'' \<or> hd t = CHR ''-'') \<and> list_all is_digit (tl t)
         then Some (date\<lparr>pd_Z := Some (if hd t = CHR ''-'' then - int (dec_val (tl t)) else int (dec_val (tl t)))\<rparr>, drop 5 s)
         else None)"

definition d3_time_parseMonthNumber :: parser where
  "d3_time_parseMonthNumber = parse_field (Some 2) (\<lambda>v d. d\<lparr>pd_m := v - 1\<rparr>)"

definition d3_time_parseDay :: parser where
  "d3_time_parseDay = parse_field (Some 2) (\<lambda>v d. d\<lparr>pd_d := v\<rparr>)"

definition d3_time_parseDayOfYear :: parser where
  "d3_time_parseDayOfYear = parse_field (Some 3) (\<lambda>v d. d\<lparr>pd_j := Some v\<rparr>)"

definition d3_time_parseHour24 :: parser where
  "d3_time_parseHour24 = parse_field (Some 2) (\<lambda>v d. d\<lparr>pd_H := v\<rparr>)"

definition d3_time_parseMinutes :: parser where
  "d3_time_parseMinutes = parse_field (Some 2) (\<lambda>v d. d\<lparr>pd_M := v\<rparr>)"

definition d3_time_parseSeconds :: parser where
  "d3_time_parseSeconds = parse_field (Some 2) (\<lambda>v d. d\<lparr>pd_S := v\<rparr>)"

definition d3_time_parseMilliseconds :: parser where
  "d3_time_parseMilliseconds = parse_field (Some 3) (\<lambda>v d. d\<lparr>pd_L := v\<rparr>)"

definition d3_time_parseLiteralPercent :: parser where
  "d3_time_parseLiteralPercent date s = (case s of c # r \<Rightarrow> if c = CHR ''%'' then Some (date, r) else None | [] \<Rightarrow> None)"

definition d3_time_parsers :: "time_locale \<Rightarrow> (string \<Rightarrow> parser) \<Rightarrow> char \<Rightarrow> parser option" where
  "d3_time_parsers lc sub c =
     (if c = CHR ''a'' then Some (d3_time_parseWeekdayAbbrev lc)
      else if c = CHR ''A'' then Some (d3_time_parseWeekday lc)
      else if c = CHR ''b'' then Some (d3_time_parseMonthAbbrev lc)
      else if c = CHR ''B'' then Some (d3_time_parseMonth lc)
      else if c = CHR ''c'' then Some (sub (lc_dateTime lc))
      else if c = CHR ''d'' \<or> c = CHR ''e'' then Some d3_time_parseDay
      else if c = CHR ''H'' \<or> c = CHR ''I'' then Some d3_time_parseHour24
      else if c = CHR ''j'' then Some d3_time_parseDayOfYear
      else if c = CHR ''L'' then Some d3_time_parseMilliseconds
      else if c = CHR ''m'' then Some d3_time_parseMonthNumber
      else if c = CHR ''M'' then Some d3_time_parseMinutes
      else if c = CHR ''p'' then Some (d3_time_parseAmPm lc)
      else if c = CHR ''S'' then Some d3_time_parseSeconds
      else if c = CHR ''U'' then Some d3_time_parseWeekNumberSunday
      else if c = CHR ''w'' then Some d3_time_parseWeekdayNumber
      else if c = CHR ''W'' then Some d3_time_parseWeekNumberMonday
      else if c = CHR ''x'' then Some (sub (lc_date lc))
      else if c = CHR ''X'' then Some (sub (lc_time lc))
      else if c = CHR ''y'' then Some d3_time_parseYear
      else if c = CHR ''Y'' then Some d3_time_parseFullYear
      else if c = CHR ''Z'' then Some d3_time_parseZone
      else if c = CHR ''%'' then Some d3_time_parseLiteralPercent
      else None)"

text \<open>Matching a text against a template; \<open>None\<close> is the result \<open>-1\<close>.\<close>

fun d3_time_parse :: "time_locale \<Rightarrow> nat \<Rightarrow> string \<Rightarrow> parser" where
  "d3_time_parse lc n [] date s = Some (date, s)"
| "d3_time_parse lc n (ch # r) date s =
     (if s = [] then None
      else if ch = CHR ''%'' then
        let sub = (\<lambda>t date s. case n of 0 \<Rightarrow> None | Suc m \<Rightarrow> d3_time_parse lc m t date s);
            run = (\<lambda>c. case d3_time_parsers lc sub c of None \<Rightarrow> None | Some p \<Rightarrow> p date s)
        in case r of
             [] \<Rightarrow> None
           | c # r' \<Rightarrow>
               if d3_time_formatPads c \<noteq> None
               then (case r' of
                       [] \<Rightarrow> None
                     | c' # r'' \<Rightarrow> (case run c' of None \<Rightarrow> None | Some (date', s') \<Rightarrow> d3_time_parse lc n r'' date' s'))
               else (case run c of None \<Rightarrow> None | Some (date', s') \<Rightarrow> d3_time_parse lc n r' date' s')
      else if hd s = ch then d3_time_parse lc n r date (tl s)
      else None)"

definition parse_defaults :: parsed where
  "parse_defaults =
     \<lparr>pd_y = 1900, pd_m = 0, pd_d = 1, pd_H = 0, pd_M = 0, pd_S = 0, pd_L = 0, pd_Z = None, pd_p = None, pd_j = None,
      pd_w = None, pd_W = None, pd_U = None\<rparr>"

text \<open>
  The date the fields describe, in the class \<open>dc\<close> and from the initial time value \<open>t\<close>: \<open>now\<close> for the
  built-in class, zero for the wrapper class, whose initial date is invalid.
\<close>

definition date_of_fields :: "date_class \<Rightarrow> int \<Rightarrow> parsed \<Rightarrow> int" where
  "date_of_fields dc t d =
     (let h = (case pd_p d of None \<Rightarrow> pd_H d | Some p \<Rightarrow> js_irem (pd_H d) 12 + p * 12);
          z = (case pd_Z d of None \<Rightarrow> 0 | Some z \<Rightarrow> z);
          week = (\<lambda>w. let t1 = setFullYear dc t (pd_y d) 0 1
                       in case (pd_W d, pd_U d) of
                            (Some W, _) \<Rightarrow> Some (setFullYear dc t1 (pd_y d) 0 (js_irem (w + 6) 7 + W * 7 - js_irem (getDay dc t1 + 5) 7))
                          | (None, Some U) \<Rightarrow> Some (setFullYear dc t1 (pd_y d) 0 (w + U * 7 - js_irem (getDay dc t1 + 6) 7))
                          | (None, None) \<Rightarrow> None);
          day = (case pd_j d of
              Some j \<Rightarrow> setFullYear dc t (pd_y d) 0 j
            | None \<Rightarrow>
                (case Option.bind (pd_w d) week of
                   Some t2 \<Rightarrow> t2
                 | None \<Rightarrow> setFullYear dc t (pd_y d) (pd_m d) (pd_d d)))
      in setHours dc day (h + z div 100) (pd_M d + js_irem z 100) (pd_S d) (pd_L d))"

definition format_parse :: "time_locale \<Rightarrow> date_class \<Rightarrow> int \<Rightarrow> nat \<Rightarrow> string \<Rightarrow> string \<Rightarrow> int option" where
  "format_parse lc dc now n template s = (case d3_time_parse lc n template parse_defaults s of
     Some (d, []) \<Rightarrow> Some (if pd_Z d \<noteq> None then date_of_fields d3_date_utc 0 d else date_of_fields dc now d)
   | _ \<Rightarrow> None)"

definition d3_time_format_utc :: "time_locale \<Rightarrow> nat \<Rightarrow> string \<Rightarrow> int \<Rightarrow> string option" where
  "d3_time_format_utc lc n template date = d3_time_format lc d3_date_utc n template date"

definition format_parse_utc :: "time_locale \<Rightarrow> nat \<Rightarrow> string \<Rightarrow> string \<Rightarrow> int option" where
  "format_parse_utc lc n template s = format_parse lc d3_date_utc 0 n template s"

definition d3_time_formatIso :: string where
  "d3_time_formatIso = ''%Y-%m-%dT%H:%M:%S.%LZ''"

text \<open>The first format whose predicate accepts the date; running off the end throws.\<close>

fun d3_time_formatMulti :: "(string \<Rightarrow> int \<Rightarrow> string option) \<Rightarrow> (string \<times> (int \<Rightarrow> bool)) list \<Rightarrow> int \<Rightarrow> string option" where
  "d3_time_formatMulti fmt [] date = None"
| "d3_time_formatMulti fmt ((template, accepts) # fs) date =
     (if accepts date then fmt template date else d3_time_formatMulti fmt fs date)"

section \<open>Padded numbers\<close>

lemma base_digits_length: "n < 10 ^ Suc k \<Longrightarrow> length (base_digits 10 n) \<le> Suc k"
proof (induction k arbitrary: n)
  case (Suc k)
  show ?case
  proof (cases "n < 10")
    case False
    have "n div 10 < 10 ^ Suc k" using Suc.prems by (simp add: less_mult_imp_div_less mult.commute)
    then show ?thesis using Suc.IH [of "n div 10"] False by (simp add: base_digits.simps [of 10 n])
  qed (simp add: base_digits.simps [of 10 n])
qed (simp add: base_digits.simps)

lemma concat_replicate_single: "concat (replicate m [c]) = replicate m c"
  by (induction m) simp_all

text \<open>A number padded with zeros to its width is read back as that number.\<close>

lemma formatPad_digits:
  assumes "0 \<le> v" "v < 10 ^ k" "0 < k"
  obtains s where "d3_time_formatPad v ''0'' k = s" "length s = k" "list_all is_digit s" "int (dec_val s) = v"
proof -
  define ds where "ds = dec_digits (nat v)"
  have "nat v < 10 ^ k" using assms(1,2) by (simp add: nat_less_iff)
  then have l: "length ds \<le> k" using base_digits_length [of "nat v" "k - 1"] assms(3) by (simp add: ds_def dec_digits_def)
  have d: "list_all is_digit ds" "dec_val ds = nat v" using dec_digits_spec [of "nat v"] by (auto simp: ds_def)
  have "d3_time_formatPad v ''0'' k = replicate (k - length ds) (CHR ''0'') @ ds"
    using assms(1) l by (auto simp: d3_time_formatPad_def Let_def ds_def concat_replicate_single)
  moreover have "list_all is_digit (replicate (k - length ds) (CHR ''0'') @ ds)"
    using d(1) by (auto simp: list_all_iff is_digit_def charCode_def)
  ultimately show thesis using that [of "replicate (k - length ds) (CHR ''0'') @ ds"] l d(2) assms(1) by (simp add: dec_val_zeros)
qed

lemma digit_not_ws: "is_digit c \<Longrightarrow> \<not> is_ws c"
  by (auto simp: is_digit_def is_ws_def)

lemma numberRe_pad:
  assumes "0 \<le> v" "v < 10 ^ k" "0 < k"
  shows "d3_time_numberRe (Some k) (d3_time_formatPad v ''0'' k @ r) = Some (v, r)"
proof -
  obtain s where s: "d3_time_formatPad v ''0'' k = s" "length s = k" "list_all is_digit s" "int (dec_val s) = v"
    using formatPad_digits [OF assms] by blast
  then obtain c cs where c: "s = c # cs" "is_digit c" using assms(3) by (cases s) auto
  have "takeWhile is_ws s = []" "dropWhile is_ws s = s" using c digit_not_ws by auto
  moreover have "takeWhile is_digit s = s" using s(3) by (simp add: takeWhile_eq_all_conv list_all_iff)
  ultimately show ?thesis unfolding s(1) using s(2,4) c(1) by (auto simp: d3_time_numberRe_def Let_def)
qed

lemma pad_not_empty: "0 \<le> v \<Longrightarrow> v < 10 ^ k \<Longrightarrow> 0 < k \<Longrightarrow> d3_time_formatPad v ''0'' k @ r \<noteq> []"
  using formatPad_digits [of v k] by (metis append_is_Nil_conv length_0_conv less_irrefl)

section \<open>The ISO format\<close>

lemma time_fields: "make_time (getUTCHours t) (getUTCMinutes t) (getUTCSeconds t) (getUTCMilliseconds t) = time_within_day t"
proof -
  define w where "w = time_within_day t"
  have "w div 3600000 = w div 60000 div 60" "w div 60000 = w div 1000 div 60" by (simp_all add: zdiv_zmult2_eq [symmetric])
  then show ?thesis
    using mult_div_mod_eq [of 60 "w div 60000"] mult_div_mod_eq [of 60 "w div 1000"] mult_div_mod_eq [of 1000 w]
    unfolding make_time_def getUTCHours_def getUTCMinutes_def getUTCSeconds_def getUTCMilliseconds_def w_def [symmetric] by linarith
qed

lemma time_field_bounds:
  "0 \<le> getUTCHours t" "getUTCHours t < 24" "0 \<le> getUTCMinutes t" "getUTCMinutes t < 60"
  "0 \<le> getUTCSeconds t" "getUTCSeconds t < 60" "0 \<le> getUTCMilliseconds t" "getUTCMilliseconds t < 1000"
proof -
  have w: "0 \<le> time_within_day t" "time_within_day t < 24 * 3600000" using time_within_bounds [of t] by (simp_all add: ms_per_day_def)
  show "0 \<le> getUTCHours t" using w(1) by (simp add: getUTCHours_def pos_imp_zdiv_nonneg_iff)
  show "getUTCHours t < 24" using w(2) div_bounds(1) [of 3600000 "time_within_day t", OF zero_less_numeral]
    unfolding getUTCHours_def by linarith
qed (simp_all add: getUTCMinutes_def getUTCSeconds_def getUTCMilliseconds_def)

lemma month_length_le: "make_day y (m + 1) 1 - make_day y m 1 \<le> 31" if "0 \<le> m" "m < 12"
proof -
  have "m = 0 \<or> m = 1 \<or> m = 2 \<or> m = 3 \<or> m = 4 \<or> m = 5 \<or> m = 6 \<or> m = 7 \<or> m = 8 \<or> m = 9 \<or> m = 10 \<or> m = 11"
    using that by presburger
  then show ?thesis
    by (elim disjE) (auto simp: make_day_first make_day_next [of 11, simplified] day_from_year_Suc month_starts_def)
qed

lemma date_field_bounds:
  "0 \<le> getUTCMonth t" "getUTCMonth t < 12" "0 \<le> getUTCDate t" "getUTCDate t < 100"
  using month_of_day_bounds [of "time_day t"] date_of_day_pos [of "time_day t"]
    month_length_le [of "month_of_day (time_day t)" "year_of_day (time_day t)"]
  by (simp_all add: getUTCMonth_def getUTCDate_def date_of_day_eq)


lemma d3_date_utc_methods [simp]:
  "getFullYear d3_date_utc = getUTCFullYear" "getMonth d3_date_utc = getUTCMonth" "getDate d3_date_utc = getUTCDate"
  "getHours d3_date_utc = getUTCHours" "getMinutes d3_date_utc = getUTCMinutes" "getSeconds d3_date_utc = getUTCSeconds"
  "getMilliseconds d3_date_utc = getUTCMilliseconds" "setFullYear d3_date_utc = setUTCFullYear" "setHours d3_date_utc = setUTCHours"
  by (simp_all add: d3_date_utc_def)

lemma formatIso_text:
  "d3_time_format_utc lc n d3_time_formatIso t =
     Some (d3_time_formatPad (js_irem (getUTCFullYear t) 10000) ''0'' 4 @ ''-'' @ d3_time_formatPad (getUTCMonth t + 1) ''0'' 2 @ ''-'' @
       d3_time_formatPad (getUTCDate t) ''0'' 2 @ ''T'' @ d3_time_formatPad (getUTCHours t) ''0'' 2 @ '':'' @
       d3_time_formatPad (getUTCMinutes t) ''0'' 2 @ '':'' @ d3_time_formatPad (getUTCSeconds t) ''0'' 2 @ ''.'' @
       d3_time_formatPad (getUTCMilliseconds t) ''0'' 3 @ ''Z'')"
  by (simp add: d3_time_format_utc_def d3_time_formatIso_def format_directive_def d3_time_formats_def d3_time_formatPads_def
      append_some_def Let_def)

lemma parseIso_text:
  assumes "0 \<le> y" "y < 10000" "0 \<le> m" "m < 100" "0 \<le> d" "d < 100" "0 \<le> h" "h < 100" "0 \<le> mi" "mi < 100" "0 \<le> s" "s < 100"
    "0 \<le> l" "l < 1000"
  shows "d3_time_parse lc n d3_time_formatIso parse_defaults
      (d3_time_formatPad y ''0'' 4 @ ''-'' @ d3_time_formatPad m ''0'' 2 @ ''-'' @
       d3_time_formatPad d ''0'' 2 @ ''T'' @ d3_time_formatPad h ''0'' 2 @ '':'' @
       d3_time_formatPad mi ''0'' 2 @ '':'' @ d3_time_formatPad s ''0'' 2 @ ''.'' @ d3_time_formatPad l ''0'' 3 @ ''Z'') =
    Some (parse_defaults\<lparr>pd_y := y, pd_m := m - 1, pd_d := d, pd_H := h, pd_M := mi, pd_S := s, pd_L := l\<rparr>, [])"
proof -
  have n: "d3_time_numberRe (Some 4) (d3_time_formatPad y ''0'' 4 @ r) = Some (y, r)"
    "d3_time_numberRe (Some 2) (d3_time_formatPad m ''0'' 2 @ r) = Some (m, r)"
    "d3_time_numberRe (Some 2) (d3_time_formatPad d ''0'' 2 @ r) = Some (d, r)"
    "d3_time_numberRe (Some 2) (d3_time_formatPad h ''0'' 2 @ r) = Some (h, r)"
    "d3_time_numberRe (Some 2) (d3_time_formatPad mi ''0'' 2 @ r) = Some (mi, r)"
    "d3_time_numberRe (Some 2) (d3_time_formatPad s ''0'' 2 @ r) = Some (s, r)"
    "d3_time_numberRe (Some 3) (d3_time_formatPad l ''0'' 3 @ r) = Some (l, r)" for r
    using assms by (simp_all add: numberRe_pad)
  show ?thesis
    by (simp add: d3_time_formatIso_def d3_time_formatPads_def d3_time_parsers_def Let_def n parse_field_def
        d3_time_parseFullYear_def d3_time_parseMonthNumber_def d3_time_parseDay_def d3_time_parseHour24_def
        d3_time_parseMinutes_def d3_time_parseSeconds_def d3_time_parseMilliseconds_def)
qed

text \<open>
  (C33) ISO dates.  Every time in the years 0 to 9999 survives formatting with the UTC format \<open>%Y-%m-%dT%H:%M:%S.%LZ\<close>
  and parsing the text with the same format, to the millisecond.
\<close>

theorem time_iso_roundtrip:
  assumes "0 \<le> getUTCFullYear t" "getUTCFullYear t < 10000"
  shows "Option.bind (d3_time_format_utc lc n d3_time_formatIso t) (format_parse_utc lc n d3_time_formatIso) = Some t"
proof -
  have "js_irem (getUTCFullYear t) 10000 = getUTCFullYear t" using assms by (simp add: js_irem_def)
  moreover have "date_of_fields d3_date_utc 0 (parse_defaults\<lparr>pd_y := getUTCFullYear t, pd_m := getUTCMonth t + 1 - 1, pd_d := getUTCDate t,
      pd_H := getUTCHours t, pd_M := getUTCMinutes t, pd_S := getUTCSeconds t, pd_L := getUTCMilliseconds t\<rparr>) = t"
    using make_date_fields [of t] make_day_fields [of "time_day t"] time_within_bounds [of 0]
    by (simp add: date_of_fields_def parse_defaults_def js_irem_def setUTCHours_def setUTCFullYear_def time_fields
        getUTCFullYear_def getUTCMonth_def getUTCDate_def)
  ultimately show ?thesis
    using date_field_bounds [of t] time_field_bounds [of t] assms
      parseIso_text [of "getUTCFullYear t" "getUTCMonth t + 1" "getUTCDate t" "getUTCHours t" "getUTCMinutes t"
        "getUTCSeconds t" "getUTCMilliseconds t" lc n]
    by (simp add: formatIso_text format_parse_utc_def format_parse_def)
qed

theorem time_iso_roundtrip_witness:
  "Option.bind (d3_time_format_utc d3_time_enUS 2 d3_time_formatIso 951782400123)
     (format_parse_utc d3_time_enUS 2 d3_time_formatIso) = Some 951782400123"
proof -
  have "getUTCFullYear 951782400123 = 2000" by code_simp
  then show ?thesis by (intro time_iso_roundtrip) simp_all
qed


text \<open>
  Zones.  The directive \<open>%Z\<close> prints the offset of the local time and reads it back with the wrong sign:
  in the zone eight hours behind UTC the epoch is printed as four in the afternoon, \<open>-0800\<close>, of the last day
  of 1969, and parsing that text gives a time sixteen hours earlier; a zone of five and a half hours behind is off
  by twelve hours, because the hours are rounded down as well.
\<close>

theorem time_zone_roundtrip_fails:
  "d3_time_format d3_time_enUS (Date (fixed_zone 480)) 2 ''%Y-%m-%d %H:%M %Z'' 0 = Some ''1969-12-31 16:00 -0800'' \<and>
   format_parse d3_time_enUS (Date (fixed_zone 480)) 0 2 ''%Y-%m-%d %H:%M %Z'' ''1969-12-31 16:00 -0800'' = Some (- 16 * 3600000) \<and>
   d3_time_format d3_time_enUS (Date (fixed_zone 330)) 2 ''%Y-%m-%d %H:%M %Z'' 0 = Some ''1969-12-31 18:30 -0530'' \<and>
   format_parse d3_time_enUS (Date (fixed_zone 330)) 0 2 ''%Y-%m-%d %H:%M %Z'' ''1969-12-31 18:30 -0530'' = Some (- 12 * 3600000)"
  by code_simp

end
