(* ===== verification/D3_TimeScale.thy ===== *)
theory D3_TimeScale
  imports D3_TimeFormat D3_Scale
begin

text \<open>
  Time scales (\<open>d3.js\<close> lines 9145 to 9247): a linear scale over time values, ticks at the
  boundaries of a suitable interval, nice domains, and tick formats that show the coarsest field in use.

  Time values enter the linear scale as reals and leave it as dates, which drops the fraction.
  The form of \<open>ticks\<close> that takes a bare range function is left out.
\<close>

section \<open>Tick intervals\<close>

definition d3_time_scaleDate :: "real \<Rightarrow> int" where
  "d3_time_scaleDate t = (if t < 0 then \<lceil>t\<rceil> else \<lfloor>t\<rfloor>)"

datatype tick_interval = Milliseconds | Interval interval

text \<open>\<open>d3_time_scaleMilliseconds\<close> ranges over numbers and rounds to itself.\<close>

definition ti_range :: "tick_interval \<Rightarrow> int \<Rightarrow> int \<Rightarrow> real \<Rightarrow> (range_error + int list) option" where
  "ti_range ti start stop step = (case ti of
     Milliseconds \<Rightarrow> map_option (map_sum id (map d3_time_scaleDate)) (d3_range (of_int start) (of_int stop) step)
   | Interval iv \<Rightarrow> map_option Inr (iv_range iv start stop step))"

definition ti_floor :: "tick_interval \<Rightarrow> int \<Rightarrow> int" where
  "ti_floor ti d = (case ti of Milliseconds \<Rightarrow> d | Interval iv \<Rightarrow> iv_floor iv d)"

definition ti_ceil :: "tick_interval \<Rightarrow> int \<Rightarrow> int" where
  "ti_ceil ti d = (case ti of Milliseconds \<Rightarrow> d | Interval iv \<Rightarrow> iv_ceil iv d)"

definition d3_time_scaleSteps :: "real list" where
  "d3_time_scaleSteps =
     [1000, 5000, 15000, 30000, 60000, 300000, 900000, 1800000, 3600000, 10800000, 21600000, 43200000, 86400000,
      172800000, 604800000, 2592000000, 7776000000, 31536000000]"

definition scale_methods :: "(time_unit \<times> real) list" where
  "scale_methods =
     [(Second, 1), (Second, 5), (Second, 15), (Second, 30), (Minute, 1), (Minute, 5), (Minute, 15), (Minute, 30),
      (Hour, 1), (Hour, 3), (Hour, 6), (Hour, 12), (Day, 1), (Day, 2), (Weekday 0, 1), (Month, 1), (Month, 3), (Year, 1)]"

definition d3_time_scaleLocalMethods :: "date_class \<Rightarrow> (interval \<times> real) list" where
  "d3_time_scaleLocalMethods dc = map (\<lambda>(u, k). (unit_interval dc u, k)) scale_methods"

definition d3_time_scaleUtcMethods :: "(interval \<times> real) list" where
  "d3_time_scaleUtcMethods = d3_time_scaleLocalMethods d3_date_utc"

text \<open>The methods of a scale are those of its class \<open>dc\<close>; \<open>methods.year\<close> is its year interval.\<close>

definition tickMethod :: "date_class \<Rightarrow> int \<times> int \<Rightarrow> real \<Rightarrow> (tick_interval \<times> real) option" where
  "tickMethod dc extent cnt =
     (let (e0, e1) = extent; target = of_int (e1 - e0) / cnt
      in case d3_bisectRight (map (\<lambda>s. JNum (Fin s)) d3_time_scaleSteps) (JNum (Fin target)) of
           None \<Rightarrow> None
         | Some i \<Rightarrow>
             if i = length d3_time_scaleSteps then
               Some (Interval (time_year dc), snd (d3_scale_linearTickRange [of_int e0 / 31536000000, of_int e1 / 31536000000] (Some cnt)))
             else if i = 0 then Some (Milliseconds, snd (d3_scale_linearTickRange [of_int e0, of_int e1] (Some cnt)))
             else let (iv, k) = d3_time_scaleLocalMethods dc !
                        (if target / d3_time_scaleSteps ! (i - 1) < d3_time_scaleSteps ! i / target then i - 1 else i)
                  in Some (Interval iv, k))"

section \<open>The scale\<close>

record time_scale =
  ts_linear :: linear
  ts_class :: date_class
  ts_format :: "int \<Rightarrow> string option"

datatype tick_argument = DefaultTicks | TickCount real | TickInterval interval real

definition time_apply :: "time_scale \<Rightarrow> int \<Rightarrow> real option" where
  "time_apply ts x = linear_scale (ts_linear ts) (of_int x)"

definition time_invert :: "time_scale \<Rightarrow> real \<Rightarrow> int option" where
  "time_invert ts x = map_option d3_time_scaleDate (linear_invert (ts_linear ts) x)"

definition time_get_domain :: "store \<Rightarrow> time_scale \<Rightarrow> int list" where
  "time_get_domain h ts = map d3_time_scaleDate (linear_get_domain h (ts_linear ts))"

definition time_domain :: "store \<Rightarrow> time_scale \<Rightarrow> int list \<Rightarrow> store \<times> time_scale" where
  "time_domain h ts x = (let (h', l) = linear_domain h (ts_linear ts) (map of_int x) in (h', ts\<lparr>ts_linear := l\<rparr>))"

definition date_extent :: "int list \<Rightarrow> int \<times> int" where
  "date_extent domain = (let start = hd domain; stop = last domain in if start < stop then (start, stop) else (stop, start))"

definition tick_method_of :: "time_scale \<Rightarrow> int \<times> int \<Rightarrow> tick_argument \<Rightarrow> (tick_interval \<times> real) option" where
  "tick_method_of ts extent arg = (case arg of
     DefaultTicks \<Rightarrow> tickMethod (ts_class ts) extent 10
   | TickCount n \<Rightarrow> tickMethod (ts_class ts) extent n
   | TickInterval iv k \<Rightarrow> Some (Interval iv, k))"

text \<open>A date is skipped when the range of one millisecond from it is empty.\<close>

definition skipped :: "tick_interval \<Rightarrow> real \<Rightarrow> int \<Rightarrow> bool option" where
  "skipped ti skip date = (case ti_range ti date (date + 1) skip of
     Some (Inr ts) \<Rightarrow> Some (ts = [])
   | _ \<Rightarrow> None)"

partial_function (option) nice_down :: "tick_interval \<Rightarrow> real \<Rightarrow> int \<Rightarrow> int option" where
  "nice_down ti skip date =
     (let d = ti_floor ti date
      in case skipped ti skip d of
           None \<Rightarrow> None
         | Some b \<Rightarrow> if b then nice_down ti skip (d - 1) else Some d)"

partial_function (option) nice_up :: "tick_interval \<Rightarrow> real \<Rightarrow> int \<Rightarrow> int option" where
  "nice_up ti skip date =
     (let d = ti_ceil ti date
      in case skipped ti skip d of
           None \<Rightarrow> None
         | Some b \<Rightarrow> if b then nice_up ti skip (d + 1) else Some d)"

definition time_nice :: "store \<Rightarrow> time_scale \<Rightarrow> tick_argument \<Rightarrow> (store \<times> time_scale) option" where
  "time_nice h ts arg =
     (let domain = time_get_domain h ts; (e0, e1) = date_extent domain
      in case tick_method_of ts (e0, e1) arg of
           None \<Rightarrow> None
         | Some (ti, skip) \<Rightarrow>
             let down = (if skip > 1 then nice_down ti skip e0 else Some (ti_floor ti e0));
                 up = (if skip > 1 then nice_up ti skip e1 else Some (ti_ceil ti e1))
             in case (down, up) of
                  (Some a, Some b) \<Rightarrow>
                    Some (time_domain h ts (map d3_time_scaleDate
                      (d3_scale_nice (map of_int domain) \<lparr>nice_floor = (\<lambda>x. of_int a), nice_ceil = (\<lambda>x. of_int b)\<rparr>)))
                | _ \<Rightarrow> None)"

definition time_ticks :: "store \<Rightarrow> time_scale \<Rightarrow> tick_argument \<Rightarrow> (range_error + int list) option" where
  "time_ticks h ts arg =
     (let (e0, e1) = date_extent (time_get_domain h ts)
      in case tick_method_of ts (e0, e1) arg of
           None \<Rightarrow> None
         | Some (ti, skip) \<Rightarrow> ti_range ti e0 (e1 + 1) (if skip < 1 then 1 else skip))"

definition time_tickFormat :: "time_scale \<Rightarrow> int \<Rightarrow> string option" where
  "time_tickFormat ts = ts_format ts"

definition time_copy :: "store \<Rightarrow> time_scale \<Rightarrow> time_scale" where
  "time_copy h ts = ts\<lparr>ts_linear := linear_copy h (ts_linear ts)\<rparr>"

text \<open>The formats of the ticks, from milliseconds to years; a predicate is a field that is not zero.\<close>

definition scale_formats :: "date_class \<Rightarrow> (string \<times> (int \<Rightarrow> bool)) list" where
  "scale_formats dc =
     [(''.%L'', \<lambda>d. getMilliseconds dc d \<noteq> 0), ('':%S'', \<lambda>d. getSeconds dc d \<noteq> 0), (''%I:%M'', \<lambda>d. getMinutes dc d \<noteq> 0),
      (''%I %p'', \<lambda>d. getHours dc d \<noteq> 0), (''%a %d'', \<lambda>d. getDay dc d \<noteq> 0 \<and> getDate dc d \<noteq> 1), (''%b %d'', \<lambda>d. getDate dc d \<noteq> 1),
      (''%B'', \<lambda>d. getMonth dc d \<noteq> 0), (''%Y'', \<lambda>d. True)]"

definition d3_time_scaleLocalFormat :: "date_class \<Rightarrow> int \<Rightarrow> string option" where
  "d3_time_scaleLocalFormat dc = d3_time_formatMulti (d3_time_format d3_time_enUS dc 2) (scale_formats dc)"

definition d3_time_scaleUtcFormat :: "int \<Rightarrow> string option" where
  "d3_time_scaleUtcFormat = d3_time_formatMulti (d3_time_format_utc d3_time_enUS 2) (scale_formats d3_date_utc)"

definition d3_time_scale :: "date_class \<Rightarrow> store \<Rightarrow> store \<times> time_scale" where
  "d3_time_scale dc h =
     (let (h', l) = scale_linear h in (h', \<lparr>ts_linear = l, ts_class = dc, ts_format = d3_time_scaleLocalFormat dc\<rparr>))"

definition d3_time_scale_utc :: "store \<Rightarrow> store \<times> time_scale" where
  "d3_time_scale_utc h =
     (let (h', l) = scale_linear h in (h', \<lparr>ts_linear = l, ts_class = d3_date_utc, ts_format = d3_time_scaleUtcFormat\<rparr>))"

section \<open>Ticks\<close>

lemma steps_index:
  obtains i where "d3_bisectRight (map (\<lambda>s. JNum (Fin s)) d3_time_scaleSteps) (JNum (Fin x)) = Some i" "i \<le> 18"
    "1000 \<le> x \<longrightarrow> i \<noteq> 0"
proof -
  let ?a = "map (\<lambda>s. JNum (Fin s)) d3_time_scaleSteps"
  have "sorted_wrt js_le ?a" by (simp add: d3_time_scaleSteps_def)
  moreover have "length ?a = 18" "\<forall>v \<in> set ?a. v \<in> numeric_values \<and> js_valid v" "JNum (Fin x) \<in> numeric_values"
    by (auto simp: d3_time_scaleSteps_def numeric_values_def js_valid_def)
  ultimately obtain i where i: "d3_bisectRight ?a (JNum (Fin x)) = Some i" "i \<le> 18"
      "\<forall>j. i \<le> j \<and> j < 18 \<longrightarrow> js_lt (JNum (Fin x)) (?a ! j)"
    using bisectRight_insertion [of ?a "JNum (Fin x)"] by auto
  have "js_lt (JNum (Fin x)) (?a ! 0)" if "i = 0" using i(3) that by simp
  then have "i = 0 \<Longrightarrow> x < 1000" by (simp add: d3_time_scaleSteps_def)
  then have "1000 \<le> x \<longrightarrow> i \<noteq> 0" by linarith
  then show thesis using that i(1,2) by blast
qed

text \<open>From a second per tick on, the tick method is an interval of the library.\<close>

lemma tickMethod_unit:
  assumes "1000 \<le> of_int (e1 - e0) / n"
  obtains u k where "tickMethod dc (e0, e1) n = Some (Interval (unit_interval dc u), k)"
proof -
  define x where "x = of_int (e1 - e0) / n"
  obtain i where i: "d3_bisectRight (map (\<lambda>s. JNum (Fin s)) d3_time_scaleSteps) (JNum (Fin x)) = Some i" "i \<le> 18" "i \<noteq> 0"
    using steps_index [of x] assms by (auto simp: x_def)
  have len: "length d3_time_scaleSteps = 18" "length scale_methods = 18" by (simp_all add: d3_time_scaleSteps_def scale_methods_def)
  show thesis
  proof (cases "i = 18")
    case True
    then show thesis using that [of Year] i(1) len(1) by (simp add: tickMethod_def Let_def x_def)
  next
    case False
    define j where "j = (if x / d3_time_scaleSteps ! (i - 1) < d3_time_scaleSteps ! i / x then i - 1 else i)"
    have "j < 18" using False i(2) by (auto simp: j_def)
    moreover obtain u k where "scale_methods ! j = (u, k)" by fastforce
    ultimately have "d3_time_scaleLocalMethods dc ! j = (unit_interval dc u, k)" using len(2) by (simp add: d3_time_scaleLocalMethods_def)
    then have "tickMethod dc (e0, e1) n = Some (Interval (unit_interval dc u), k)"
      using i False len(1) unfolding tickMethod_def Let_def prod.case x_def [symmetric] by (auto simp: j_def split: if_splits)
    then show thesis by (rule that)
  qed
qed

text \<open>
  Time ticks.  For a domain of a second or more per tick, the ticks of a time scale in a zone of fixed offset
  are, in order, boundaries of one interval of the library within the domain: all of them, or every
  \<open>k\<close>-th by number.
\<close>

theorem time_ticks_boundaries:
  assumes "ts_class ts = Date (fixed_zone z)" "date_extent (time_get_domain h ts) = (e0, e1)" "1000 \<le> of_int (e1 - e0) / n"
  shows "\<exists>u k ds. time_ticks h ts (TickCount n) = Some (Inr ds) \<and> sorted_wrt (<) ds \<and>
    set ds = {b. iv_floor (unit_interval (Date (fixed_zone z)) u) b = b \<and> e0 \<le> b \<and> b \<le> e1 \<and>
      selected (unit_number (Date (fixed_zone z)) u) k b}"
proof -
  obtain u k where m: "tickMethod (Date (fixed_zone z)) (e0, e1) n = Some (Interval (unit_interval (Date (fixed_zone z)) u), k)"
    using tickMethod_unit [OF assms(3)] by blast
  define k' where "k' = (if k < 1 then 1 else k)"
  obtain ds where "iv_range (unit_interval (Date (fixed_zone z)) u) e0 (e1 + 1) k' = Some ds" "sorted_wrt (<) ds"
      "set ds = {b. iv_floor (unit_interval (Date (fixed_zone z)) u) b = b \<and> e0 \<le> b \<and> b < e1 + 1 \<and>
        selected (unit_number (Date (fixed_zone z)) u) k' b}"
    using unit_range by blast
  then show ?thesis using m assms(1,2)
    by (intro exI [of _ u] exI [of _ k'] exI [of _ ds]) (auto simp: time_ticks_def tick_method_of_def ti_range_def k'_def)
qed


theorem time_ticks_boundaries_witness:
  "\<exists>ds. time_ticks [[0, 3600000]] (snd (d3_time_scale_utc []))  (TickCount 6) = Some (Inr ds) \<and> sorted_wrt (<) ds"
proof -
  define ts where "ts = snd (d3_time_scale_utc [])"
  have "ts_class ts = Date (fixed_zone 0)" by (simp add: ts_def d3_time_scale_utc_def scale_linear_def alloc_def d3_date_utc_is_Date)
  moreover have "date_extent (time_get_domain [[0, 3600000]] ts) = (0, 3600000)"
    by (simp add: ts_def d3_time_scale_utc_def scale_linear_def alloc_def time_get_domain_def linear_get_domain_def
        d3_scale_linear_def rescale_def d3_time_scaleDate_def date_extent_def)
  ultimately show ?thesis using time_ticks_boundaries [of ts 0 "[[0, 3600000]]" 0 3600000 6] unfolding ts_def [symmetric] by auto
qed

end
