(* ===== verification/D3_Geom.thy ===== *)
theory D3_Geom
  imports JS_Prelude
begin

text \<open>
  Plane geometry (\<open>d3.js\<close> lines 1182 to 1184 and 4700 to 4803): the convex hull by two monotone chains, the area and
  the centroid of a polygon, and clipping a polygon by a convex one.

  Coordinates are finite reals.
\<close>

type_synonym pt = "real \<times> real"

definition d3_cross2d :: "pt \<Rightarrow> pt \<Rightarrow> pt \<Rightarrow> real" where
  "d3_cross2d a b c = (fst b - fst a) * (snd c - snd a) - (snd b - snd a) * (fst c - fst a)"

section \<open>The convex hull\<close>

record 'd hull_of =
  hull_x :: "'d \<Rightarrow> nat \<Rightarrow> real"
  hull_y :: "'d \<Rightarrow> nat \<Rightarrow> real"

definition hull_set_x :: "'d hull_of \<Rightarrow> ('d \<Rightarrow> nat \<Rightarrow> real) \<Rightarrow> 'd hull_of" where
  "hull_set_x h f = h\<lparr>hull_x := f\<rparr>"

definition hull_set_y :: "'d hull_of \<Rightarrow> ('d \<Rightarrow> nat \<Rightarrow> real) \<Rightarrow> 'd hull_of" where
  "hull_set_y h f = h\<lparr>hull_y := f\<rparr>"

text \<open>The array \<open>hull\<close> with its length \<open>hs\<close> is a stack, written with its top first.\<close>

fun hull_pop :: "pt list \<Rightarrow> nat list \<Rightarrow> nat \<Rightarrow> nat list" where
  "hull_pop points (b # a # s) i =
     (if d3_cross2d (points ! a) (points ! b) (points ! i) \<le> 0 then hull_pop points (a # s) i else b # a # s)"
| "hull_pop points s i = s"

definition d3_geom_hullUpper :: "pt list \<Rightarrow> nat list" where
  "d3_geom_hullUpper points = rev (foldl (\<lambda>s i. i # hull_pop points s i) [1, 0] [2..<length points])"

definition d3_geom_hullOrder :: "pt \<times> nat \<Rightarrow> pt \<times> nat \<Rightarrow> jsnum" where
  "d3_geom_hullOrder a b =
     Fin (if fst (fst a) - fst (fst b) \<noteq> 0 then fst (fst a) - fst (fst b) else snd (fst a) - snd (fst b))"

definition hull_points :: "'d hull_of \<Rightarrow> 'd list \<Rightarrow> (pt \<times> nat) list" where
  "hull_points h data = js_sort d3_geom_hullOrder (map (\<lambda>(i, d). ((hull_x h d i, hull_y h d i), i)) (enumerate 0 data))"

definition hull_flipped :: "(pt \<times> nat) list \<Rightarrow> pt list" where
  "hull_flipped points = map (\<lambda>p. (fst (fst p), - snd (fst p))) points"

text \<open>The positions, in the data, of the vertices of the hull.\<close>

definition hull_positions :: "'d hull_of \<Rightarrow> 'd list \<Rightarrow> nat list" where
  "hull_positions h data =
     (if length data < 3 then []
      else let points = hull_points h data;
               upper = d3_geom_hullUpper (map fst points);
               lower = d3_geom_hullUpper (hull_flipped points);
               skipLeft = (if hd lower = hd upper then 1 else 0);
               skipRight = (if last lower = last upper then 1 else 0)
           in map (\<lambda>i. snd (points ! i)) (rev upper) @
              map (\<lambda>i. snd (points ! (lower ! i))) [skipLeft..<length lower - skipRight])"

definition d3_geom_hull :: "'d hull_of \<Rightarrow> 'd list \<Rightarrow> 'd list" where
  "d3_geom_hull h data = map (\<lambda>i. data ! i) (hull_positions h data)"

section \<open>The area and the centroid\<close>

definition polygon_area :: "pt list \<Rightarrow> real" where
  "polygon_area p = snd (foldl (\<lambda>(a, area) b. (b, area + (snd a * fst b - fst a * snd b))) (last p, 0) p) * (1 / 2)"

definition polygon_centroid_scaled :: "pt list \<Rightarrow> real \<Rightarrow> pt" where
  "polygon_centroid_scaled p k =
     (let (b, x, y) = foldl (\<lambda>(a, x, y) b. let c = fst a * snd b - fst b * snd a
                              in (b, x + (fst a + fst b) * c, y + (snd a + snd b) * c)) (last p, 0, 0) p
      in (x * k, y * k))"

text \<open>The centroid of a polygon without an area has no value: the code divides by zero.\<close>

definition polygon_centroid :: "pt list \<Rightarrow> pt option" where
  "polygon_centroid p =
     (if polygon_area p = 0 then None else Some (polygon_centroid_scaled p (- 1 / (6 * polygon_area p))))"

section \<open>Chains that sweep the points\<close>

definition cross :: "pt \<Rightarrow> pt \<Rightarrow> real" where
  "cross u v = fst u * snd v - snd u * fst v"

text \<open>Directions that lead on in a sweep from left to right, and up or down where points share a vertical line.\<close>

definition onward :: "real \<Rightarrow> pt \<Rightarrow> bool" where
  "onward up u = (0 < fst u \<or> fst u = 0 \<and> 0 \<le> up * snd u)"

definition vec :: "pt \<Rightarrow> pt \<Rightarrow> pt" where
  "vec a b = (fst b - fst a, snd b - snd a)"

lemma cross2d_cross: "d3_cross2d a b c = cross (vec a b) (vec a c)"
  by (simp add: d3_cross2d_def cross_def vec_def)

lemma cross_turn:
  assumes "up = 1 \<or> up = - 1" "onward up u" "onward up v" "onward up w" "v \<noteq> (0, 0)" "0 \<le> cross u v" "0 \<le> cross v w"
  shows "0 \<le> cross u w"
proof (cases "fst v = 0")
  case False
  then have v: "0 < fst v" using assms(3) by (auto simp: onward_def)
  have "fst v * cross u w = fst w * cross u v + fst u * cross v w"
    by (simp add: cross_def algebra_simps)
  moreover have "0 \<le> fst w * cross u v" "0 \<le> fst u * cross v w" using assms(2,4,6,7) by (auto simp: onward_def)
  ultimately have "0 \<le> fst v * cross u w" by linarith
  then show ?thesis using v by (simp add: zero_le_mult_iff)
next
  case True
  then have "snd v \<noteq> 0" using assms(5) by (auto simp: prod_eq_iff)
  then consider "up = 1" "0 < snd v" | "up = - 1" "snd v < 0" using assms(1,3) True by (auto simp: onward_def)
  then show ?thesis
  proof cases
    case 1
    then have "fst w = 0" using assms(4,7) True by (auto simp: onward_def cross_def mult_le_0_iff)
    then show ?thesis using assms(2,4) 1 by (auto simp: onward_def cross_def)
  next
    case 2
    then have "fst u = 0" using assms(2,6) True by (auto simp: onward_def cross_def zero_le_mult_iff)
    then show ?thesis using assms(2,4) 2 by (auto simp: onward_def cross_def mult_le_0_iff)
  qed
qed

text \<open>
  Points in the order of a sweep.  Every later point lies onward of every earlier one; the laws below are what the scan for
  one chain relies on.
\<close>

locale sweep =
  fixes points :: "pt list" and up :: real
  assumes up: "up = 1 \<or> up = - 1"
    and onwards: "i \<le> j \<Longrightarrow> j < length points \<Longrightarrow> onward up (vec (points ! i) (points ! j))"
begin

definition turn :: "nat \<Rightarrow> nat \<Rightarrow> nat \<Rightarrow> real" where
  "turn a b c = d3_cross2d (points ! a) (points ! b) (points ! c)"

text \<open>A chain, top first: its edges have the first \<open>k\<close> points on their left, and it turns left at every vertex.\<close>

fun chain :: "nat \<Rightarrow> nat list \<Rightarrow> bool" where
  "chain k (b # a # s) = (a < b \<and> b < k \<and> (\<forall>j<k. 0 \<le> turn a b j) \<and> (s \<noteq> [] \<longrightarrow> 0 < turn (hd s) a b) \<and> chain k (a # s))"
| "chain k [a] = (a = 0)"
| "chain k [] = False"

text \<open>What is known of the vertex that was removed above the top of a chain.\<close>

definition removed :: "nat \<Rightarrow> nat list \<Rightarrow> bool" where
  "removed k s = (hd s = k - 1 \<or> (\<exists>c. hd s < c \<and> c < k \<and> turn (hd s) c k \<le> 0 \<and> (\<forall>j<k. 0 \<le> turn (hd s) c j) \<and>
     (points ! c \<noteq> points ! hd s \<or> hd s = 0 \<and> c = k - 1) \<and> (tl s \<noteq> [] \<longrightarrow> 0 < turn (hd (tl s)) (hd s) c)))"

lemma turn_self [simp]: "turn a b a = 0" "turn a b b = 0" "turn a a b = 0"
  by (simp_all add: turn_def d3_cross2d_def)

lemma turn_equal: "points ! a = points ! b \<Longrightarrow> turn a b c = 0"
  by (simp add: turn_def d3_cross2d_def)

lemma chain_pop:
  "chain k s \<Longrightarrow> removed k s \<Longrightarrow>
   chain k (hull_pop points s k) \<and> removed k (hull_pop points s k) \<and>
   (tl (hull_pop points s k) \<noteq> [] \<longrightarrow> 0 < turn (hd (tl (hull_pop points s k))) (hd (hull_pop points s k)) k)"
proof (induction s)
  case (Cons b t)
  show ?case
  proof (cases "\<exists>a s. t = a # s \<and> turn a b k \<le> 0")
    case True
    then obtain a s where t: "t = a # s" "turn a b k \<le> 0" by blast
    have "points ! b \<noteq> points ! a \<or> a = 0 \<and> b = k - 1"
    proof (cases "points ! b = points ! a")
      case eq: True
      have "s = []" using Cons(2) eq t(1) by (cases s) (auto simp: turn_def d3_cross2d_def)
      then have "a = 0" using Cons(2) t(1) by simp
      moreover have "b = k - 1" using Cons(3) turn_equal [of a b] eq t(1) by (auto simp: removed_def)
      ultimately show ?thesis by simp
    qed simp
    then have "removed k (a # s)" using Cons(2) t by (auto simp: removed_def)
    then show ?thesis using Cons t by (simp add: turn_def)
  next
    case False
    then have "hull_pop points (b # t) k = b # t" by (cases t) (auto simp: turn_def)
    then show ?thesis using Cons(2,3) False by (cases t) auto
  qed
qed simp

text \<open>The orientation of three points, seen from each of them.\<close>

lemma turn_cross:
  "turn a b c = cross (vec (points ! a) (points ! b)) (vec (points ! a) (points ! c))"
  "turn a b c = cross (vec (points ! a) (points ! b)) (vec (points ! b) (points ! c))"
  "turn a b c = cross (vec (points ! c) (points ! a)) (vec (points ! a) (points ! b))"
  "turn a b c = cross (vec (points ! c) (points ! b)) (vec (points ! a) (points ! b))"
  by (simp_all add: turn_def d3_cross2d_def cross_def vec_def algebra_simps)

lemma vec_nonzero: "turn a b c \<noteq> 0 \<Longrightarrow> vec (points ! a) (points ! b) \<noteq> (0, 0)"
  by (auto simp: turn_def d3_cross2d_def vec_def)

lemma chain_ascends: "chain k s \<Longrightarrow> b \<in> set s \<Longrightarrow> b \<le> hd s \<and> (b < k \<or> b = 0)"
proof (induction s)
  case (Cons c t)
  then show ?case by (cases t) fastforce+
qed simp

lemma chain_next:
  "chain k s \<Longrightarrow> k < length points \<Longrightarrow> (tl s \<noteq> [] \<longrightarrow> 0 \<le> turn (hd (tl s)) (hd s) k) \<Longrightarrow> chain (Suc k) s"
proof (induction s)
  case (Cons b t)
  show ?case
  proof (cases t)
    case t: (Cons a s)
    have "0 \<le> turn a' a k" if "s = a' # s'" for a' s'
    proof -
      have o: "a' < a" "a < b" "b < k" "0 < turn a' a b" using Cons(2) t that by auto
      then have "0 \<le> turn a b k" "vec (points ! a) (points ! b) \<noteq> (0, 0)"
        using Cons(4) t vec_nonzero [of a b a'] by (auto simp: turn_def d3_cross2d_def vec_def algebra_simps)
      then show ?thesis
        using cross_turn [OF up, of "vec (points ! a') (points ! a)" "vec (points ! a) (points ! b)" "vec (points ! a) (points ! k)"]
          onwards [of a' a] onwards [of a b] onwards [of a k] o Cons(3) by (simp add: turn_cross(2) [of a' a] turn_cross(1) [of a b])
    qed
    then have "chain (Suc k) t" using Cons t by (cases s) auto
    then show ?thesis using Cons(2,4) t by (auto simp: less_Suc_eq)
  qed (use Cons in simp)
qed simp

text \<open>A new edge from the top of the remaining chain has all points so far on its left.\<close>

lemma new_edge_left:
  assumes "chain k s" "removed k s" "k < length points" "tl s \<noteq> [] \<longrightarrow> 0 < turn (hd (tl s)) (hd s) k" "j < k" "0 < k"
  shows "0 \<le> turn (hd s) k j"
proof (cases "j \<le> hd s")
  case True
  show ?thesis
  proof (cases "tl s = []")
    case True': True
    then have "hd s = 0" using assms(1) by (cases s) auto
    then show ?thesis using True by simp
  next
    case False
    then obtain b a s' where s: "s = b # a # s'" using assms(1) by (cases s; cases "tl s") auto
    have "0 \<le> turn a b j" "0 < turn a b k" "a < b" "b < k" using assms s by auto
    moreover from this have "vec (points ! a) (points ! b) \<noteq> (0, 0)" using vec_nonzero [of a b k] by simp
    ultimately show ?thesis
      using cross_turn [OF up, of "vec (points ! j) (points ! b)" "vec (points ! a) (points ! b)" "vec (points ! b) (points ! k)"]
        onwards [of a b] onwards [of j b] onwards [of b k] True s assms(3)
      by (simp add: turn_cross(2) [of a b k] turn_cross(4) [of a b j] turn_cross(3) [of b k j])
  qed
next
  case False
  then have "hd s \<noteq> k - 1" using assms(5) by linarith
  then obtain c where c: "hd s < c" "c < k" "turn (hd s) c k \<le> 0" "0 \<le> turn (hd s) c j"
      "points ! c \<noteq> points ! hd s \<or> hd s = 0 \<and> c = k - 1"
    using assms(2,5) by (auto simp: removed_def)
  show ?thesis
  proof (cases "points ! c = points ! hd s")
    case True
    then have "onward up (vec (points ! 0) (points ! j))" "onward up (vec (points ! j) (points ! 0))" "hd s = 0"
      using onwards [of 0 j] onwards [of j c] c assms(3,5) False by auto
    then have "points ! j = points ! hd s"
      using up by (auto simp: onward_def vec_def prod_eq_iff)
    then show ?thesis by (simp add: turn_def d3_cross2d_def)
  next
    case ne: False
    then have "vec (points ! hd s) (points ! c) \<noteq> (0, 0)" by (auto simp: vec_def prod_eq_iff)
    moreover have "0 \<le> cross (vec (points ! hd s) (points ! k)) (vec (points ! hd s) (points ! c))"
      using c(3) by (simp add: turn_cross(1) cross_def algebra_simps)
    ultimately show ?thesis
      using cross_turn [OF up, of "vec (points ! hd s) (points ! k)" "vec (points ! hd s) (points ! c)" "vec (points ! hd s) (points ! j)"]
        onwards [of "hd s" k] onwards [of "hd s" c] onwards [of "hd s" j] c False assms(3,5) by (simp add: turn_cross(1))
  qed
qed

lemma chain_step:
  assumes "chain k s" "hd s = k - 1" "k < length points" "0 < k"
  shows "chain (Suc k) (k # hull_pop points s k)"
proof -
  let ?t = "hull_pop points s k"
  have t: "chain k ?t" "removed k ?t" "tl ?t \<noteq> [] \<longrightarrow> 0 < turn (hd (tl ?t)) (hd ?t) k"
    using chain_pop [OF assms(1)] assms(2) by (auto simp: removed_def)
  then obtain b r where b: "?t = b # r" by (cases ?t) auto
  have "b < k" using chain_ascends [OF t(1), of b] b assms(4) by auto
  moreover have "0 \<le> turn b k j" if "j < Suc k" for j
    using new_edge_left [OF t(1,2) assms(3) t(3), of j] that b assms(4) by (cases "j = k") auto
  moreover have "chain (Suc k) (b # r)" using chain_next [OF t(1) assms(3)] t(3) b by auto
  ultimately show ?thesis using b t(3) by simp
qed

lemma chain_all:
  assumes "2 \<le> length points"
  shows "chain (length points) (rev (d3_geom_hullUpper points)) \<and> hd (rev (d3_geom_hullUpper points)) = length points - 1"
proof -
  have "chain k (foldl (\<lambda>s i. i # hull_pop points s i) [1, 0] [2..<k]) \<and> hd (foldl (\<lambda>s i. i # hull_pop points s i) [1, 0] [2..<k]) = k - 1"
    if "2 \<le> k" "k \<le> length points" for k
    using that
  proof (induction k rule: dec_induct)
    case base
    then show ?case by (auto simp: numeral_2_eq_2 less_Suc_eq)
  next
    case (step k)
    then show ?case using chain_step [of k "foldl (\<lambda>s i. i # hull_pop points s i) [1, 0] [2..<k]"] by simp
  qed
  then show ?thesis using assms by (simp add: d3_geom_hullUpper_def)
qed

lemma chain_edge:
  "chain k s \<Longrightarrow> Suc i < length s \<Longrightarrow> s ! Suc i < s ! i \<and> (\<forall>j<k. 0 \<le> turn (s ! Suc i) (s ! i) j)"
proof (induction s arbitrary: i)
  case (Cons b t)
  then show ?case by (cases t; cases i) auto
qed simp

lemma chain_last: "chain k s \<Longrightarrow> s \<noteq> [] \<and> last s = 0"
proof (induction s)
  case (Cons b t)
  then show ?case by (cases t) auto
qed simp

lemma upper_edge:
  assumes "2 \<le> length points" "Suc i < length (d3_geom_hullUpper points)" "j < length points"
  shows "d3_geom_hullUpper points ! i < d3_geom_hullUpper points ! Suc i \<and>
    0 \<le> turn (d3_geom_hullUpper points ! i) (d3_geom_hullUpper points ! Suc i) j"
proof -
  let ?u = "d3_geom_hullUpper points" and ?m = "length (d3_geom_hullUpper points) - Suc (Suc i)"
  have "rev ?u ! Suc ?m = ?u ! i" "rev ?u ! ?m = ?u ! Suc i" using assms(2) by (simp_all add: rev_nth Suc_diff_Suc)
  then show ?thesis using chain_edge [of "length points" "rev ?u" ?m] chain_all [OF assms(1)] assms(2,3) by simp
qed

lemma upper_ends:
  assumes "2 \<le> length points"
  shows "d3_geom_hullUpper points \<noteq> []" "hd (d3_geom_hullUpper points) = 0" "last (d3_geom_hullUpper points) = length points - 1"
    "set (d3_geom_hullUpper points) \<subseteq> {..<length points}"
proof -
  have c: "chain (length points) (rev (d3_geom_hullUpper points))" "hd (rev (d3_geom_hullUpper points)) = length points - 1"
    using chain_all [OF assms] by auto
  show ne: "d3_geom_hullUpper points \<noteq> []" using chain_last [OF c(1)] by simp
  show "hd (d3_geom_hullUpper points) = 0" using chain_last [OF c(1)] by (simp add: last_rev)
  show "last (d3_geom_hullUpper points) = length points - 1" using c(2) by (simp add: hd_rev)
  show "set (d3_geom_hullUpper points) \<subseteq> {..<length points}" using chain_ascends [OF c(1)] assms by force
qed

end

section \<open>The hull of the data\<close>

definition hull_pos :: "'d hull_of \<Rightarrow> 'd list \<Rightarrow> nat \<Rightarrow> pt" where
  "hull_pos h data i = (hull_x h (data ! i) i, hull_y h (data ! i) i)"

definition lex_le :: "pt \<Rightarrow> pt \<Rightarrow> bool" where
  "lex_le p q = (fst p < fst q \<or> fst p = fst q \<and> snd p \<le> snd q)"

interpretation hullOrder: comparator d3_geom_hullOrder UNIV
  by unfold_locales (auto simp: d3_geom_hullOrder_def split: if_splits)

lemma hull_points_sorted: "sorted_wrt (\<lambda>p q. lex_le (fst p) (fst q)) (hull_points h data)"
proof -
  have "sorted_wrt (\<lambda>a b. \<not> cmp_pos (d3_geom_hullOrder a b)) (hull_points h data)"
    unfolding hull_points_def by (rule hullOrder.sorted_js_sort) simp
  then show ?thesis
    by (rule sorted_wrt_mono_rel [rotated]) (auto simp: d3_geom_hullOrder_def lex_le_def split: if_splits)
qed

lemma length_hull_points [simp]: "length (hull_points h data) = length data"
  by (simp add: hull_points_def)

lemma length_hull_flipped [simp]: "length (hull_flipped ps) = length ps"
  by (simp add: hull_flipped_def)

lemma hull_points_lex: "i \<le> j \<Longrightarrow> j < length data \<Longrightarrow> lex_le (fst (hull_points h data ! i)) (fst (hull_points h data ! j))"
  using sorted_wrt_nth_less [OF hull_points_sorted, of i j h data] by (cases "i = j") (auto simp: lex_le_def)

lemma hull_points_onward:
  assumes "i \<le> j" "j < length data"
  shows "onward 1 (vec (map fst (hull_points h data) ! i) (map fst (hull_points h data) ! j))"
    and "onward (- 1) (vec (hull_flipped (hull_points h data) ! i) (hull_flipped (hull_points h data) ! j))"
  using hull_points_lex [OF assms, of h] assms by (auto simp: lex_le_def onward_def vec_def hull_flipped_def)

interpretation upper: sweep "map fst (hull_points h data)" 1 for h :: "'d hull_of" and data :: "'d list"
proof (unfold_locales, goal_cases)
  case (2 i j)
  then show ?case using hull_points_onward(1) [of i j data h] by simp
qed simp

interpretation lower: sweep "hull_flipped (hull_points h data)" "- 1" for h :: "'d hull_of" and data :: "'d list"
proof (unfold_locales, goal_cases)
  case (2 i j)
  then show ?case using hull_points_onward(2) [of i j data h] by simp
qed simp

lemma hull_points_pos:
  assumes "i < length data"
  shows "snd (hull_points h data ! i) < length data" "fst (hull_points h data ! i) = hull_pos h data (snd (hull_points h data ! i))"
proof -
  have "hull_points h data ! i \<in> set (hull_points h data)" using assms by (intro nth_mem) simp
  then show "snd (hull_points h data ! i) < length data" "fst (hull_points h data ! i) = hull_pos h data (snd (hull_points h data ! i))"
    by (auto simp: hull_points_def hull_pos_def in_set_enumerate_eq)
qed

lemma hull_points_all: "k < length data \<Longrightarrow> \<exists>i<length data. snd (hull_points h data ! i) = k"
proof -
  assume k: "k < length data"
  then have "((hull_x h (data ! k) k, hull_y h (data ! k) k), k) \<in> set (hull_points h data)"
    by (force simp: hull_points_def in_set_enumerate_eq)
  then show ?thesis by (metis in_set_conv_nth length_hull_points snd_conv)
qed

text \<open>The edges of a closed polygon, and those of a path.\<close>

definition edges :: "'a list \<Rightarrow> ('a \<times> 'a) list" where
  "edges p = zip p (rotate1 p)"

definition steps :: "'a list \<Rightarrow> ('a \<times> 'a) list" where
  "steps p = zip p (tl p)"

lemma steps_simps [simp]: "steps [] = []" "steps [a] = []" "steps (a # b # p) = (a, b) # steps (b # p)"
  by (simp_all add: steps_def)

lemma steps_append: "p \<noteq> [] \<Longrightarrow> q \<noteq> [] \<Longrightarrow> steps (p @ q) = steps p @ steps (last p # q)"
proof (induction p)
  case (Cons a p)
  then show ?case by (cases p; cases q) auto
qed simp

lemma steps_snoc: "p \<noteq> [] \<Longrightarrow> steps (p @ [a]) = steps p @ [(last p, a)]"
  using steps_append [of p "[a]"] by simp

lemma in_steps: "(a, b) \<in> set (steps p) \<longleftrightarrow> (\<exists>i. Suc i < length p \<and> a = p ! i \<and> b = p ! Suc i)"
  by (auto simp: steps_def in_set_zip nth_tl less_diff_conv)

lemma steps_rev: "set (steps (rev p)) = (\<lambda>(a, b). (b, a)) ` set (steps p)"
proof (induction p)
  case (Cons a p)
  then show ?case using steps_snoc [of "rev p" a] by (cases p) auto
qed simp

lemma edges_steps: "p \<noteq> [] \<Longrightarrow> edges p = steps (p @ [hd p])"
  using zip_append1 [of p "[hd p]" "rotate1 p"] by (cases p) (simp_all add: edges_def steps_def)

lemma steps_map: "steps (map f p) = map (\<lambda>(a, b). (f a, f b)) (steps p)"
  by (simp add: steps_def map_tl [symmetric] zip_map_map)

lemma edges_map: "edges (map f p) = map (\<lambda>(a, b). (f a, f b)) (edges p)"
  by (simp add: edges_def rotate1_map zip_map_map)

lemma two_chains_edges:
  assumes "u \<noteq> []" "l = hd u # m @ [last u]"
  shows "set (edges (rev u @ m)) = set (steps (rev u)) \<union> set (steps l)"
proof -
  have "edges (rev u @ m) = steps (rev u @ (m @ [last u]))" using assms(1) by (simp add: edges_steps hd_append hd_rev)
  also have "\<dots> = steps (rev u) @ steps (last (rev u) # m @ [last u])" using assms(1) by (intro steps_append) auto
  finally show ?thesis using assms by (simp add: last_rev)
qed

text \<open>What a polygon of two chains from the first to the last point of the sweep has to satisfy to be the hull of the data.\<close>

definition sweeps :: "(nat \<Rightarrow> pt) \<Rightarrow> nat list \<Rightarrow> bool" where
  "sweeps pos p = (list_all (\<lambda>(i, j). lex_le (pos i) (pos j)) (steps p))"

definition holds_all :: "(nat \<Rightarrow> pt) \<Rightarrow> nat \<Rightarrow> nat list \<Rightarrow> bool" where
  "holds_all pos n p = (list_all (\<lambda>(i, j). \<forall>k<n. d3_cross2d (pos i) (pos j) (pos k) \<le> 0) (edges p))"

lemma middle_nth: "map (\<lambda>i. f ((a # m @ [b]) ! i)) [1..<Suc (length m)] = map f m"
proof (rule nth_equalityI)
  fix i
  assume "i < length (map (\<lambda>i. f ((a # m @ [b]) ! i)) [1..<Suc (length m)])"
  then show "map (\<lambda>i. f ((a # m @ [b]) ! i)) [1..<Suc (length m)] ! i = map f m ! i"
    by (simp add: nth_append del: upt_Suc)
qed (simp del: upt_Suc)

lemma hull_positions_chains:
  assumes "3 \<le> length data"
  obtains u l m where "u = d3_geom_hullUpper (map fst (hull_points h data))" "l = d3_geom_hullUpper (hull_flipped (hull_points h data))"
    "l = hd u # m @ [last u]" "hull_positions h data = map (\<lambda>i. snd (hull_points h data ! i)) (rev u @ m)"
proof -
  define u where "u = d3_geom_hullUpper (map fst (hull_points h data))"
  define l where "l = d3_geom_hullUpper (hull_flipped (hull_points h data))"
  define m where "m = butlast (tl l)"
  have u: "u \<noteq> []" "hd u = 0" "last u = length data - 1"
    using upper.upper_ends [of h data] assms by (simp_all add: u_def)
  have l: "l \<noteq> []" "hd l = 0" "last l = length data - 1"
    using lower.upper_ends [of h data] assms by (simp_all add: l_def)
  then have t: "tl l \<noteq> []" using assms by (cases l) auto
  then have "tl l = m @ [last l]" unfolding m_def by (metis append_butlast_last_id last_tl)
  then have l': "l = hd u # m @ [last u]" by (metis l u(2,3) list.collapse)
  have "map (\<lambda>i. f (l ! i)) [1..<length l - 1] = map f m" for f :: "nat \<Rightarrow> nat"
    using middle_nth [of f "hd u" m "last u"] l' by simp
  then have "hull_positions h data = map (\<lambda>i. snd (hull_points h data ! i)) (rev u @ m)"
    using assms u l by (simp add: hull_positions_def Let_def u_def [symmetric] l_def [symmetric])
  then show thesis using that u_def l_def l' by blast
qed

lemma hull_positions_mem:
  assumes "3 \<le> length data" "k \<in> set (hull_positions h data)"
  shows "k < length data"
proof -
  obtain u l m where c: "u = d3_geom_hullUpper (map fst (hull_points h data))" "l = d3_geom_hullUpper (hull_flipped (hull_points h data))"
    "l = hd u # m @ [last u]" "hull_positions h data = map (\<lambda>i. snd (hull_points h data ! i)) (rev u @ m)"
    using hull_positions_chains [OF assms(1)] by blast
  have "set u \<subseteq> {..<length data}" using upper.upper_ends(4) [of h data] assms(1) by (simp add: c(1))
  moreover have "set m \<subseteq> {..<length data}"
    using lower.upper_ends(4) [of h data] assms(1) c(3) by (auto simp: c(2) [symmetric])
  ultimately show ?thesis using assms(2) hull_points_pos(1) [of _ data h] by (auto simp: c(4))
qed

lemma upper_step:
  assumes "3 \<le> length data" "(a, b) \<in> set (steps (d3_geom_hullUpper (map fst (hull_points h data))))"
  shows "a < b \<and> b < length data \<and> (\<forall>j<length data.
    0 \<le> d3_cross2d (fst (hull_points h data ! a)) (fst (hull_points h data ! b)) (fst (hull_points h data ! j)))"
proof -
  obtain i where i: "Suc i < length (d3_geom_hullUpper (map fst (hull_points h data)))"
      "a = d3_geom_hullUpper (map fst (hull_points h data)) ! i" "b = d3_geom_hullUpper (map fst (hull_points h data)) ! Suc i"
    using assms(2) unfolding in_steps by blast
  have b: "b < length data" using upper.upper_ends(4) [of h data] assms(1) nth_mem [OF i(1)] i(3) by auto
  moreover have "a < b" using upper.upper_edge [of h data i b] i b assms(1) by simp
  ultimately show ?thesis
    using upper.upper_edge [of h data i] assms(1) i(1) by (simp add: upper.turn_def i(2,3) [symmetric])
qed

lemma lower_step:
  assumes "3 \<le> length data" "(a, b) \<in> set (steps (d3_geom_hullUpper (hull_flipped (hull_points h data))))"
  shows "a < b \<and> b < length data \<and> (\<forall>j<length data.
    d3_cross2d (fst (hull_points h data ! a)) (fst (hull_points h data ! b)) (fst (hull_points h data ! j)) \<le> 0)"
proof -
  let ?l = "d3_geom_hullUpper (hull_flipped (hull_points h data))"
  obtain i where i: "Suc i < length ?l" "a = ?l ! i" "b = ?l ! Suc i"
    using assms(2) unfolding in_steps by blast
  have b: "b < length data" using lower.upper_ends(4) [of h data] assms(1) nth_mem [OF i(1)] i(3) by auto
  moreover have ab: "a < b" using lower.upper_edge [of h data i b] i b assms(1) by simp
  moreover have "d3_cross2d (fst (hull_points h data ! a)) (fst (hull_points h data ! b)) (fst (hull_points h data ! j)) =
      - d3_cross2d (hull_flipped (hull_points h data) ! a) (hull_flipped (hull_points h data) ! b) (hull_flipped (hull_points h data) ! j)" if "j < length data" for j
    using that b ab by (simp add: d3_cross2d_def hull_flipped_def algebra_simps)
  ultimately show ?thesis
    using lower.upper_edge [of h data i] assms(1) i(1) by (simp add: lower.turn_def i(2,3) [symmetric])
qed

lemma hull_lex:
  "i \<le> j \<Longrightarrow> j < length data \<Longrightarrow>
   lex_le (hull_pos h data (snd (hull_points h data ! i))) (hull_pos h data (snd (hull_points h data ! j)))"
  using hull_points_lex [of i j data h] by (simp add: hull_points_pos(2))

lemma hull_lex_ends:
  assumes "k < length data"
  shows "lex_le (hull_pos h data (snd (hull_points h data ! 0))) (hull_pos h data k) \<and>
    lex_le (hull_pos h data k) (hull_pos h data (snd (hull_points h data ! (length data - 1))))"
proof -
  obtain i where "i < length data" "snd (hull_points h data ! i) = k" using hull_points_all [OF assms, of h] by blast
  then show ?thesis using hull_lex [of 0 i data h] hull_lex [of i "length data - 1" data h] by auto
qed

lemma hull_edge_right:
  assumes "3 \<le> length data" "k < length data"
    "(b, a) \<in> set (steps (d3_geom_hullUpper (map fst (hull_points h data)))) \<or>
     (a, b) \<in> set (steps (d3_geom_hullUpper (hull_flipped (hull_points h data))))"
  shows "d3_cross2d (hull_pos h data (snd (hull_points h data ! a))) (hull_pos h data (snd (hull_points h data ! b))) (hull_pos h data k) \<le> 0"
proof -
  obtain i where i: "i < length data" "snd (hull_points h data ! i) = k" using hull_points_all [OF assms(2), of h] by blast
  from assms(3) have "a < length data \<and> b < length data \<and>
    d3_cross2d (fst (hull_points h data ! a)) (fst (hull_points h data ! b)) (fst (hull_points h data ! i)) \<le> 0"
  proof
    assume "(b, a) \<in> set (steps (d3_geom_hullUpper (map fst (hull_points h data))))"
    from upper_step [OF assms(1) this] i(1) show ?thesis by (auto simp: d3_cross2d_def algebra_simps)
  next
    assume "(a, b) \<in> set (steps (d3_geom_hullUpper (hull_flipped (hull_points h data))))"
    from lower_step [OF assms(1) this] i(1) show ?thesis by auto
  qed
  then show ?thesis using i by (auto simp: hull_points_pos(2))
qed

lemma hull_positions_hold:
  assumes "3 \<le> length data"
  shows "holds_all (hull_pos h data) (length data) (hull_positions h data)"
proof -
  let ?at = "\<lambda>i. snd (hull_points h data ! i)"
  obtain u l m where c: "u = d3_geom_hullUpper (map fst (hull_points h data))" "l = d3_geom_hullUpper (hull_flipped (hull_points h data))"
    "l = hd u # m @ [last u]" "hull_positions h data = map ?at (rev u @ m)"
    using hull_positions_chains [OF assms] by blast
  have "u \<noteq> []" using upper.upper_ends(1) [of h data] assms by (simp add: c(1))
  then have "(b, a) \<in> set (steps u) \<or> (a, b) \<in> set (steps l)" if "(a, b) \<in> set (edges (rev u @ m))" for a b
    using that two_chains_edges [OF _ c(3)] by (auto simp: steps_rev)
  then show ?thesis
    unfolding holds_all_def edges_map c using hull_edge_right [OF assms, of _ _ _ h] by (fastforce simp: list_all_iff)
qed

text \<open>
  (C26) Convex hulls.  For three or more points the result of \<open>d3.geom.hull\<close> lists vertices along two chains between the first
  and the last point of the data in the order of their coordinates, back along the one and forth along the other, and
  every point of the data lies on the right of or on every edge.
\<close>

theorem hull_encloses:
  assumes "3 \<le> length data"
  shows "\<exists>u m. d3_geom_hull h data = map (\<lambda>i. data ! i) (rev u @ m) \<and> set (u @ m) \<subseteq> {..<length data} \<and> u \<noteq> [] \<and>
    sweeps (hull_pos h data) u \<and> sweeps (hull_pos h data) (hd u # m @ [last u]) \<and>
    (\<forall>k<length data. lex_le (hull_pos h data (hd u)) (hull_pos h data k) \<and> lex_le (hull_pos h data k) (hull_pos h data (last u))) \<and>
    holds_all (hull_pos h data) (length data) (rev u @ m)"
proof -
  let ?n = "length data" and ?at = "\<lambda>i. snd (hull_points h data ! i)"
  obtain u l m where c: "u = d3_geom_hullUpper (map fst (hull_points h data))" "l = d3_geom_hullUpper (hull_flipped (hull_points h data))"
    "l = hd u # m @ [last u]" "hull_positions h data = map ?at (rev u @ m)"
    using hull_positions_chains [OF assms] by blast
  have u: "u \<noteq> []" "hd u = 0" "last u = ?n - 1" "set u \<subseteq> {..<?n}" using upper.upper_ends [of h data] assms by (simp_all add: c(1))
  have m: "set m \<subseteq> {..<?n}" using lower.upper_ends(4) [of h data] assms c(3) by (auto simp: c(2) [symmetric])
  have su: "sweeps (hull_pos h data) (map ?at u)"
    using upper_step [OF assms, of _ _ h] by (fastforce simp: sweeps_def steps_map list_all_iff c(1) intro: hull_lex)
  have sl: "sweeps (hull_pos h data) (map ?at l)"
    using lower_step [OF assms, of _ _ h] by (fastforce simp: sweeps_def steps_map list_all_iff c(2) intro: hull_lex)
  have "holds_all (hull_pos h data) ?n (map ?at (rev u @ m))" using hull_positions_hold [OF assms, of h] by (simp only: c(4))
  then show ?thesis
    using su sl hull_lex_ends [of _ data h] u m c(3,4) hull_points_pos(1) [of _ data h]
    by (intro exI [of _ "map ?at u"] exI [of _ "map ?at m"])
      (auto simp: d3_geom_hull_def rev_map hd_map last_map)
qed

theorem hull_encloses_witness:
  "\<exists>u m. d3_geom_hull \<lparr>hull_x = (\<lambda>p i. fst p), hull_y = (\<lambda>p i. snd p)\<rparr> [(0, 0), (2, 0), (1, 1), (1, 3)] =
     map (\<lambda>i. [(0, 0), (2, 0), (1, 1), (1, 3)] ! i) (rev u @ m) \<and>
   holds_all (hull_pos \<lparr>hull_x = (\<lambda>p i. fst p), hull_y = (\<lambda>p i. snd p)\<rparr> [(0, 0), (2, 0), (1, 1), (1, 3)]) 4 (rev u @ m)"
  using hull_encloses [of "[(0, 0), (2, 0), (1, 1), (1, 3)]" "\<lparr>hull_x = (\<lambda>p i. fst p), hull_y = (\<lambda>p i. snd p)\<rparr>"]
  by (simp add: numeral_eq_Suc) blast

section \<open>Area and centroid of a convex polygon\<close>

definition cycle_sum :: "(pt \<Rightarrow> pt \<Rightarrow> real) \<Rightarrow> pt list \<Rightarrow> real" where
  "cycle_sum f p = sum_list (map (\<lambda>(a, b). f a b) (edges p))"

lemma path_sum:
  "foldl (\<lambda>(a, s) b. (b, s + f a b)) (a, s) p = (last (a # p), s + sum_list (map (\<lambda>(a, b). f a b) (steps (a # p))) :: real)"
proof (induction p arbitrary: a s)
  case (Cons b p)
  then show ?case by (cases p) auto
qed simp

lemma path_sum2:
  "foldl (\<lambda>(a, s, t) b. (b, s + f a b, t + g a b)) (a, s, t) p =
   (last (a # p), s + sum_list (map (\<lambda>(a, b). f a b) (steps (a # p))) :: real, t + sum_list (map (\<lambda>(a, b). g a b) (steps (a # p))) :: real)"
proof (induction p arbitrary: a s t)
  case (Cons b p)
  then show ?case by (cases p) auto
qed simp

lemma closed_steps: "p \<noteq> [] \<Longrightarrow> sum_list (map h (steps (last p # p))) = sum_list (map h (edges p :: (pt \<times> pt) list) :: real list)"
  using steps_snoc [of p "hd p"] by (cases p) (auto simp: edges_steps)

lemma cycle_sum_simps:
  "cycle_sum (\<lambda>a b. f a b + g a b) p = cycle_sum f p + cycle_sum g p"
  "cycle_sum (\<lambda>a b. c * f a b) p = c * cycle_sum f p"
  by (simp_all add: cycle_sum_def case_prod_unfold sum_list_addf sum_list_const_mult)

lemma cycle_sum_telescope: "cycle_sum (\<lambda>a b. g b - g a) p = 0"
proof (cases "p = []")
  case False
  have "sum_list (map (\<lambda>(a, b). g b - g a) (steps (a # p))) = g (last (a # p)) - g a" for a
  proof (induction p arbitrary: a)
    case (Cons b p)
    then show ?case by (cases p) auto
  qed simp
  from this [of "last p"] show ?thesis using False by (simp add: cycle_sum_def closed_steps [symmetric])
qed (simp add: cycle_sum_def edges_def)

lemma cycle_sum_cong: "(\<And>a b. f a b = g a b + (d b - d a)) \<Longrightarrow> cycle_sum f p = cycle_sum g p"
proof -
  assume "\<And>a b. f a b = g a b + (d b - d a)"
  then have "f = (\<lambda>a b. g a b + (d b - d a))" by blast
  then show ?thesis using cycle_sum_telescope [of d p] cycle_sum_simps(1) [of g "\<lambda>a b. d b - d a" p] by simp
qed

lemma cycle_sum_mono: "(\<And>a b. (a, b) \<in> set (edges p) \<Longrightarrow> f a b \<le> g a b) \<Longrightarrow> cycle_sum f p \<le> cycle_sum g p"
  unfolding cycle_sum_def by (rule sum_list_mono) auto

lemma polygon_area_sum: "p \<noteq> [] \<Longrightarrow> polygon_area p = - cycle_sum cross p / 2"
proof -
  assume p: "p \<noteq> []"
  have "polygon_area p = cycle_sum (\<lambda>a b. snd a * fst b - fst a * snd b) p / 2"
    using path_sum [of "\<lambda>a b. snd a * fst b - fst a * snd b" "last p" 0 p] p
    by (simp add: polygon_area_def cycle_sum_def closed_steps)
  also have "cycle_sum (\<lambda>a b. snd a * fst b - fst a * snd b) p = - cycle_sum cross p"
    using cycle_sum_simps(2) [of "- 1" cross p] by (simp add: cross_def)
  finally show ?thesis by simp
qed

text \<open>The area as a sum of triangles with a common corner.\<close>

lemma polygon_area_fan: "p \<noteq> [] \<Longrightarrow> polygon_area p = - cycle_sum (\<lambda>a b. d3_cross2d a b q) p / 2"
proof -
  assume p: "p \<noteq> []"
  have "cycle_sum (\<lambda>a b. d3_cross2d a b q) p = cycle_sum cross p"
    by (rule cycle_sum_cong [where d = "\<lambda>b. cross b q"]) (simp add: d3_cross2d_def cross_def algebra_simps)
  then show ?thesis using polygon_area_sum [OF p] by simp
qed

text \<open>An affine function at the centroid, as the weighted mean over the triangles.\<close>

lemma centroid_affine:
  assumes "p \<noteq> []" "polygon_centroid p = Some c"
  shows "- 6 * polygon_area p * (u * fst c + v * snd c + w) =
    cycle_sum (\<lambda>a b. d3_cross2d a b q * ((u * fst a + v * snd a + w) + (u * fst b + v * snd b + w) + (u * fst q + v * snd q + w))) p"
proof -
  let ?A = "polygon_area p"
  let ?X = "cycle_sum (\<lambda>a b. (fst a + fst b) * cross a b) p" and ?Y = "cycle_sum (\<lambda>a b. (snd a + snd b) * cross a b) p"
  let ?G = "\<lambda>b. u * (fst b * fst b * snd q - fst b * snd b * fst q + fst q * cross b q) +
    v * (fst b * snd b * snd q - snd b * snd b * fst q + snd q * cross b q)"
  have A: "?A \<noteq> 0" and c: "c = (?X * (- 1 / (6 * ?A)), ?Y * (- 1 / (6 * ?A)))"
    using assms path_sum2 [of "\<lambda>a b. (fst a + fst b) * (fst a * snd b - fst b * snd a)" "\<lambda>a b. (snd a + snd b) * (fst a * snd b - fst b * snd a)" "last p" 0 0 p]
    by (auto simp: polygon_centroid_def polygon_centroid_scaled_def Let_def cycle_sum_def closed_steps cross_def mult.commute split: if_splits)
  have "- 6 * ?A * (u * fst c + v * snd c + w) = u * ?X + v * ?Y + 3 * w * cycle_sum (\<lambda>a b. d3_cross2d a b q) p"
    using A by (simp add: c field_simps polygon_area_fan [OF assms(1), of q])
  also have "\<dots> = cycle_sum (\<lambda>a b. u * ((fst a + fst b) * cross a b) + v * ((snd a + snd b) * cross a b) + 3 * w * d3_cross2d a b q) p"
    by (simp add: cycle_sum_simps)
  also have "\<dots> = cycle_sum (\<lambda>a b. d3_cross2d a b q * ((u * fst a + v * snd a + w) + (u * fst b + v * snd b + w) + (u * fst q + v * snd q + w))) p"
    by (rule cycle_sum_cong [symmetric, where d = ?G]) (simp add: d3_cross2d_def cross_def algebra_simps)
  finally show ?thesis .
qed

lemma convex_area:
  assumes "p \<noteq> []" "\<And>a b q. (a, b) \<in> set (edges p) \<Longrightarrow> q \<in> set p \<Longrightarrow> d3_cross2d a b q \<le> 0"
  shows "0 \<le> polygon_area p"
  using cycle_sum_mono [of p "\<lambda>a b. d3_cross2d a b (hd p)" "\<lambda>a b. 0"] assms
  by (simp add: polygon_area_fan [of p "hd p"] cycle_sum_def case_prod_unfold)

lemma convex_centroid:
  assumes "p \<noteq> []" "\<And>a b q. (a, b) \<in> set (edges p) \<Longrightarrow> q \<in> set p \<Longrightarrow> d3_cross2d a b q \<le> 0"
    and "polygon_centroid p = Some c" "(e, f) \<in> set (edges p)"
  shows "d3_cross2d e f c \<le> 0"
proof -
  let ?L = "\<lambda>z. - (snd f - snd e) * fst z + (fst f - fst e) * snd z + ((snd f - snd e) * fst e - (fst f - fst e) * snd e)"
  have L: "d3_cross2d e f z = ?L z" for z by (simp add: d3_cross2d_def algebra_simps)
  have ends: "a \<in> set p \<and> b \<in> set p" if "(a, b) \<in> set (edges p)" for a b
    using set_zip_leftD [of a b p "rotate1 p"] set_zip_rightD [of a b p "rotate1 p"] that by (simp add: edges_def)
  have "0 \<le> d3_cross2d a b (hd p) * (d3_cross2d e f a + d3_cross2d e f b + d3_cross2d e f (hd p))" if "(a, b) \<in> set (edges p)" for a b
    using assms(1) assms(2) [OF that, of "hd p"] assms(2) [OF assms(4)] ends [OF that]
    by (intro mult_nonpos_nonpos add_nonpos_nonpos) auto
  then have "0 \<le> cycle_sum (\<lambda>a b. d3_cross2d a b (hd p) * (d3_cross2d e f a + d3_cross2d e f b + d3_cross2d e f (hd p))) p"
    using cycle_sum_mono [of p "\<lambda>a b. 0" "\<lambda>a b. d3_cross2d a b (hd p) * (d3_cross2d e f a + d3_cross2d e f b + d3_cross2d e f (hd p))"]
    by (simp add: cycle_sum_def case_prod_unfold)
  then have "0 \<le> - 6 * polygon_area p * ?L c" by (simp only: L centroid_affine [OF assms(1,3), where q = "hd p"])
  moreover have "0 < polygon_area p" using convex_area [OF assms(1,2)] assms(3) by (auto simp: polygon_centroid_def split: if_splits)
  ultimately show ?thesis by (simp add: L mult_le_0_iff)
qed

text \<open>
  Area and centroid of a hull.  The area of the hull's polygon is not negative, and when the polygon has an area its
  centroid lies on the right of or on every edge, that is, inside the hull.
\<close>

theorem hull_centroid_inside:
  assumes "p = map (\<lambda>i. hull_pos h data i) (hull_positions h data)"
  shows "0 \<le> polygon_area p \<and>
    (case polygon_centroid p of None \<Rightarrow> polygon_area p = 0 | Some c \<Rightarrow> list_all (\<lambda>(a, b). d3_cross2d a b c \<le> 0) (edges p))"
proof (cases "length data < 3")
  case True
  then show ?thesis using assms by (simp add: hull_positions_def polygon_area_def polygon_centroid_def)
next
  case False
  then have n: "3 \<le> length data" by simp
  show ?thesis
  proof (cases "p = []")
    case False
    have at: "k < length data" if "k \<in> set (hull_positions h data)" for k using hull_positions_mem [OF n that] .
    have c: "d3_cross2d a b q \<le> 0" if "(a, b) \<in> set (edges p)" "q \<in> set p" for a b q
      using hull_positions_hold [OF n, of h] that at by (fastforce simp: assms edges_map holds_all_def list_all_iff)
    have "list_all (\<lambda>(a, b). d3_cross2d a b z \<le> 0) (edges p)" if "polygon_centroid p = Some z" for z
      using convex_centroid [OF False c that] by (auto simp: list_all_iff)
    then show ?thesis using convex_area [OF False c] by (auto simp: polygon_centroid_def split: option.split if_splits)
  qed (simp add: polygon_area_def polygon_centroid_def)
qed

theorem hull_centroid_inside_witness:
  "0 \<le> polygon_area (map (hull_pos \<lparr>hull_x = (\<lambda>p i. fst p), hull_y = (\<lambda>p i. snd p)\<rparr> [(0, 0), (2, 0), (1, 1), (1, 3)])
     (hull_positions \<lparr>hull_x = (\<lambda>p i. fst p), hull_y = (\<lambda>p i. snd p)\<rparr> [(0, 0), (2, 0), (1, 1), (1, 3)]))"
  using hull_centroid_inside [OF refl] by blast

end
