(* ===== verification/D3_Clip.thy ===== *)
theory D3_Clip
  imports D3_Geom
begin

text \<open>
  Clipping a polygon (\<open>d3.js\<close> lines 4752 to 4803): the sides of the clip polygon cut the subject one after the other.

  The subject is an array that is emptied and refilled for every side.  An element may be \<open>undefined\<close>, written
  \<open>None\<close>, because a closed polygon is closed again by a copy of its first element even when nothing is left of it.  A read
  of a coordinate of \<open>undefined\<close> throws; the result \<open>None\<close> stands for that.
\<close>

section \<open>The operations\<close>

definition d3_geom_polygonInside :: "pt \<Rightarrow> pt \<Rightarrow> pt \<Rightarrow> bool" where
  "d3_geom_polygonInside p a b = ((fst b - fst a) * (snd p - snd a) < (snd b - snd a) * (fst p - fst a))"

definition d3_geom_polygonIntersect :: "pt \<Rightarrow> pt \<Rightarrow> pt \<Rightarrow> pt \<Rightarrow> pt" where
  "d3_geom_polygonIntersect c d a b =
     (let x1 = fst c; x3 = fst a; x21 = fst d - x1; x43 = fst b - x3;
          y1 = snd c; y3 = snd a; y21 = snd d - y1; y43 = snd b - y3;
          ua = (x43 * (y1 - y3) - y43 * (x1 - x3)) / (y43 * x21 - x43 * y21)
      in (x1 + ua * x21, y1 + ua * y21))"

definition d3_geom_polygonClosed :: "pt list \<Rightarrow> bool option" where
  "d3_geom_polygonClosed coordinates =
     (if coordinates = [] then None
      else let a = hd coordinates; b = last coordinates in Some (\<not> (fst a - fst b \<noteq> 0 \<or> snd a - snd b \<noteq> 0)))"

text \<open>The scan of the input along one side, with the previous element \<open>c\<close> and the points pushed so far.\<close>

fun clip_scan :: "pt \<Rightarrow> pt \<Rightarrow> pt option \<Rightarrow> pt option list \<Rightarrow> pt option list \<Rightarrow> pt option list option" where
  "clip_scan a b c [] subject = Some subject"
| "clip_scan a b (Some c) (Some d # ds) subject =
     clip_scan a b (Some d) ds
       (if d3_geom_polygonInside d a b then
          (if \<not> d3_geom_polygonInside c a b then subject @ [Some (d3_geom_polygonIntersect c d a b)] else subject) @ [Some d]
        else if d3_geom_polygonInside c a b then subject @ [Some (d3_geom_polygonIntersect c d a b)] else subject)"
| "clip_scan a b c (d # ds) subject = None"

definition clip_side :: "bool \<Rightarrow> pt \<Rightarrow> pt \<Rightarrow> pt option list \<Rightarrow> pt option list option" where
  "clip_side shut a b input =
     (let m = length input - (if shut then 1 else 0);
          c = (if m = 0 then None else input ! (m - 1))
      in map_option (\<lambda>subject. if shut then subject @ [if subject = [] then None else hd subject] else subject)
           (clip_scan a b c (take m input) []))"

fun clip_sides :: "bool \<Rightarrow> pt \<Rightarrow> pt list \<Rightarrow> pt option list \<Rightarrow> pt option list option" where
  "clip_sides shut a [] subject = Some subject"
| "clip_sides shut a (b # bs) subject = Option.bind (clip_side shut a b subject) (clip_sides shut b bs)"

definition open_ring :: "pt list \<Rightarrow> bool \<Rightarrow> pt list" where
  "open_ring p shut = (if shut then butlast p else p)"

definition polygon_clip :: "pt list \<Rightarrow> pt list \<Rightarrow> pt option list option" where
  "polygon_clip this subject =
     Option.bind (d3_geom_polygonClosed subject) (\<lambda>shut.
       Option.bind (d3_geom_polygonClosed this) (\<lambda>tshut.
         let ring = open_ring this tshut
         in if ring = [] then Some (map Some subject) else clip_sides shut (last ring) ring (map Some subject)))"

section \<open>One side\<close>

lemma inside_cross: "d3_geom_polygonInside p a b \<longleftrightarrow> d3_cross2d a b p < 0"
  by (auto simp: d3_geom_polygonInside_def d3_cross2d_def)

text \<open>The intersection is taken only where the line separates the two points; it is a mean of them and lies on the line.\<close>

lemma intersect_between:
  assumes "d3_cross2d a b c < 0 \<and> 0 \<le> d3_cross2d a b d \<or> 0 \<le> d3_cross2d a b c \<and> d3_cross2d a b d < 0"
  obtains t where "0 \<le> t" "t \<le> 1" "\<And>e f. d3_cross2d e f (d3_geom_polygonIntersect c d a b) = (1 - t) * d3_cross2d e f c + t * d3_cross2d e f d"
    "d3_cross2d a b (d3_geom_polygonIntersect c d a b) = 0"
proof -
  let ?A = "d3_cross2d a b c" and ?B = "d3_cross2d a b d"
  define t where "t = ?A / (?A - ?B)"
  have AB: "?A - ?B \<noteq> 0" using assms by linarith
  have p: "d3_geom_polygonIntersect c d a b = (fst c + t * (fst d - fst c), snd c + t * (snd d - snd c))"
    unfolding d3_geom_polygonIntersect_def t_def Let_def by (simp add: d3_cross2d_def algebra_simps)
  have m: "d3_cross2d e f (d3_geom_polygonIntersect c d a b) = (1 - t) * d3_cross2d e f c + t * d3_cross2d e f d" for e f
    by (simp add: p d3_cross2d_def algebra_simps)
  have t: "0 \<le> t" "t \<le> 1" using assms by (auto simp: t_def divide_le_eq zero_le_divide_iff)
  have "(1 - t) * ?A + t * ?B = ?A - t * (?A - ?B)" by (simp add: algebra_simps)
  also have "\<dots> = 0" using AB by (simp add: t_def)
  finally show thesis using that t m by metis
qed

text \<open>Scanning a list without \<open>undefined\<close>: the pushed points, in terms of pairs of neighbours.\<close>

definition clip_pair :: "pt \<Rightarrow> pt \<Rightarrow> pt \<Rightarrow> pt \<Rightarrow> pt list" where
  "clip_pair a b c d =
     (if d3_geom_polygonInside c a b = d3_geom_polygonInside d a b then [] else [d3_geom_polygonIntersect c d a b]) @
     (if d3_geom_polygonInside d a b then [d] else [])"

lemma clip_scan_pairs:
  "clip_scan a b (Some c) (map Some ds) out = Some (out @ map Some (concat (map (\<lambda>(c, d). clip_pair a b c d) (steps (c # ds)))))"
proof (induction ds arbitrary: c out)
  case (Cons d ds)
  then show ?case by (cases ds) (auto simp: clip_pair_def)
qed simp

definition clip_ring :: "pt \<Rightarrow> pt \<Rightarrow> pt list \<Rightarrow> pt list" where
  "clip_ring a b p = (if p = [] then [] else concat (map (\<lambda>(c, d). clip_pair a b c d) (steps (last p # p))))"

text \<open>The points of a subject, without the closing element.\<close>

definition closing :: "bool \<Rightarrow> pt list \<Rightarrow> pt option list" where
  "closing shut p = map Some p @ (if shut then [if p = [] then None else Some (hd p)] else [])"

lemma closing_elems: "set (closing shut p) \<subseteq> insert None (Some ` set p)"
  by (cases p) (auto simp: closing_def)

text \<open>The closing element itself is not read.\<close>

lemma clip_side_ring:
  "clip_side shut a b (map Some p @ (if shut then [x] else [])) = Some (closing shut (clip_ring a b p))"
proof (cases "p = []")
  case True
  then show ?thesis by (auto simp: clip_side_def closing_def clip_ring_def)
next
  case False
  then have "(map Some p @ q) ! (length p - 1) = Some (last p)" for q by (simp add: nth_append last_conv_nth)
  then have scan: "clip_scan a b ((map Some p @ q) ! (length p - 1)) (map Some p) [] = Some (map Some (clip_ring a b p))" for q
    using False clip_scan_pairs [of a b "last p" p "[]"] by (simp add: clip_ring_def)
  show ?thesis
    using False scan [of "[]"] scan [of "[x]"] by (auto simp: clip_side_def closing_def hd_map)
qed

fun clip_rings :: "pt \<Rightarrow> pt list \<Rightarrow> pt list \<Rightarrow> pt list" where
  "clip_rings a [] p = p"
| "clip_rings a (b # bs) p = clip_rings b bs (clip_ring a b p)"

lemma clip_sides_rings: "clip_sides shut a bs (closing shut p) = Some (closing shut (clip_rings a bs p))"
proof (induction bs arbitrary: a p)
  case (Cons b bs)
  have "clip_side shut a b (closing shut p) = Some (closing shut (clip_ring a b p))"
    using clip_side_ring [of shut a b p "if p = [] then None else Some (hd p)"] by (simp add: closing_def)
  then show ?case using Cons by simp
qed simp

lemma polygon_clip_rings:
  assumes "this \<noteq> []" "subject \<noteq> []" "ring = open_ring this (hd this = last this)" "shut = (hd subject = last subject)" "ring \<noteq> []"
  shows "polygon_clip this subject = Some (closing shut (clip_rings (last ring) ring (open_ring subject shut)))"
proof -
  have c: "d3_geom_polygonClosed p = Some (hd p = last p)" if "p \<noteq> []" for p
    using that by (auto simp: d3_geom_polygonClosed_def prod_eq_iff Let_def)
  obtain b bs where r: "ring = b # bs" using assms(5) by (cases ring) auto
  have s: "map Some subject = map Some (open_ring subject shut) @ (if shut then [Some (last subject)] else [])"
    using assms(2) map_append [of Some "butlast subject" "[last subject]"] by (simp add: open_ring_def del: map_append)
  have "polygon_clip this subject = clip_sides shut (last ring) ring (map Some subject)"
    using assms by (simp add: polygon_clip_def c Let_def)
  also have "\<dots> = Some (closing shut (clip_rings (last ring) ring (open_ring subject shut)))"
    unfolding s r by (simp add: clip_side_ring clip_sides_rings)
  finally show ?thesis .
qed

section \<open>All sides\<close>

definition right_of :: "(pt \<times> pt) list \<Rightarrow> pt \<Rightarrow> bool" where
  "right_of sides v = list_all (\<lambda>(a, b). d3_cross2d a b v \<le> 0) sides"

definition strictly_right_of :: "(pt \<times> pt) list \<Rightarrow> pt \<Rightarrow> bool" where
  "strictly_right_of sides v = list_all (\<lambda>(a, b). d3_cross2d a b v < 0) sides"

lemma clip_pair_right:
  assumes "v \<in> set (clip_pair a b c d)"
  shows "d3_cross2d a b v \<le> 0" and "d3_cross2d e f c \<le> 0 \<Longrightarrow> d3_cross2d e f d \<le> 0 \<Longrightarrow> d3_cross2d e f v \<le> 0"
proof -
  consider "v = d" "d3_cross2d a b d < 0"
    | "v = d3_geom_polygonIntersect c d a b" "d3_cross2d a b c < 0 \<and> 0 \<le> d3_cross2d a b d \<or> 0 \<le> d3_cross2d a b c \<and> d3_cross2d a b d < 0"
    using assms by (auto simp: clip_pair_def inside_cross split: if_splits)
  then have "d3_cross2d a b v \<le> 0 \<and> (d3_cross2d e f c \<le> 0 \<longrightarrow> d3_cross2d e f d \<le> 0 \<longrightarrow> d3_cross2d e f v \<le> 0)"
  proof cases
    case 2
    from intersect_between [OF 2(2)] obtain t where "0 \<le> t" "t \<le> 1" "d3_cross2d e f v = (1 - t) * d3_cross2d e f c + t * d3_cross2d e f d"
      "d3_cross2d a b v = 0" using 2(1) by metis
    then show ?thesis by (auto intro!: add_nonpos_nonpos mult_nonneg_nonpos)
  qed auto
  then show "d3_cross2d a b v \<le> 0" "d3_cross2d e f c \<le> 0 \<Longrightarrow> d3_cross2d e f d \<le> 0 \<Longrightarrow> d3_cross2d e f v \<le> 0" by auto
qed

lemma clip_ring_right:
  assumes "v \<in> set (clip_ring a b p)"
  shows "d3_cross2d a b v \<le> 0" and "(\<And>w. w \<in> set p \<Longrightarrow> d3_cross2d e f w \<le> 0) \<Longrightarrow> d3_cross2d e f v \<le> 0"
proof -
  obtain c d where cd: "(c, d) \<in> set (steps (last p # p))" "v \<in> set (clip_pair a b c d)" "p \<noteq> []"
    using assms by (auto simp: clip_ring_def split: if_splits)
  then have "c \<in> set p" "d \<in> set p"
    using set_zip_leftD [of c d "last p # p" p] set_zip_rightD [of c d "last p # p" p] by (auto simp: steps_def)
  then show "d3_cross2d a b v \<le> 0" "(\<And>w. w \<in> set p \<Longrightarrow> d3_cross2d e f w \<le> 0) \<Longrightarrow> d3_cross2d e f v \<le> 0"
    using clip_pair_right [OF cd(2)] by auto
qed

lemma clip_rings_right:
  "list_all (right_of sides) p \<Longrightarrow> list_all (right_of (sides @ steps (a # bs))) (clip_rings a bs p)"
proof (induction bs arbitrary: a p sides)
  case (Cons b bs)
  have "list_all (right_of (sides @ [(a, b)])) (clip_ring a b p)"
    using clip_ring_right [of _ a b p] Cons.prems by (fastforce simp: list_all_iff right_of_def)
  from Cons.IH [OF this, of b] show ?case by simp
qed simp

lemma clip_ring_keeps: "w \<in> set p \<Longrightarrow> d3_cross2d a b w < 0 \<Longrightarrow> w \<in> set (clip_ring a b p)"
proof -
  assume w: "w \<in> set p" "d3_cross2d a b w < 0"
  then obtain i where "i < length p" "w = p ! i" by (auto simp: in_set_conv_nth)
  then have "((last p # p) ! i, w) \<in> set (steps (last p # p))" by (auto simp: in_steps)
  moreover have "w \<in> set (clip_pair a b ((last p # p) ! i) w)" using w by (simp add: clip_pair_def inside_cross)
  moreover have "p \<noteq> []" using w(1) by auto
  ultimately show ?thesis 
    by (auto simp: clip_ring_def case_prod_unfold intro!: bexI [of _ "((last p # p) ! i, w)"])
qed

lemma clip_rings_keep: "w \<in> set p \<Longrightarrow> strictly_right_of (steps (a # bs)) w \<Longrightarrow> w \<in> set (clip_rings a bs p)"
  by (induction bs arbitrary: a p) (auto simp: strictly_right_of_def clip_ring_keeps)

lemma open_ring_set:
  assumes "2 \<le> length p" "shut \<Longrightarrow> hd p = last p"
  shows "set (open_ring p shut) = set p"
proof -
  obtain a q where p: "p = a # q" "q \<noteq> []" using assms(1) by (cases p; cases "tl p") auto
  have "set q = set (butlast q @ [last q])" by (simp only: append_butlast_last_id [OF p(2)])
  then have "set q = insert (last q) (set (butlast q))" by (simp only: set_append list.set) blast
  then show ?thesis using p assms(2) by (auto simp: open_ring_def)
qed



text \<open>A closed subject of which nothing is left becomes an array with the element \<open>undefined\<close>, not an empty array.\<close>

lemma clip_nothing_left:
  assumes "2 \<le> length subject" "hd subject = last subject" "this \<noteq> []" "ring = open_ring this (hd this = last this)" "ring \<noteq> []"
    and "clip_rings (last ring) ring (butlast subject) = []"
  shows "polygon_clip this subject = Some [None]"
proof -
  have "subject \<noteq> []" "True = (hd subject = last subject)" using assms(1,2) by auto
  from polygon_clip_rings [OF assms(3) this(1) assms(4) this(2) assms(5)] show ?thesis
    using assms(6) by (simp add: open_ring_def [of subject] closing_def)
qed

lemma clip_nothing_left_square:
  "polygon_clip [(0, 0), (0, 2), (2, 2), (2, 0)] [(5, 5), (6, 5), (5, 6), (5, 5)] = Some [None]"
  by (rule clip_nothing_left [OF _ _ _ refl])
    (simp_all add: open_ring_def clip_ring_def clip_pair_def d3_geom_polygonInside_def)

end
