(* ===== verification/D3_Selection.thy ===== *)
theory D3_Selection
  imports D3_Map
begin

text \<open>
  Selections and the data join (\<open>d3.js\<close> lines 483 to 523 and 764 to 966): selecting, filtering, sorting and visiting groups
  of nodes, joining them with data by index or by key, and filling the entering places.

  A node is a number and its \<open>__data__\<close> property is kept in a store; the rest of the document is whatever the record of the
  store is extended with, and only selector and callback functions touch it.  An element of a group is a node or \<open>None\<close>, which stands
  for \<open>null\<close>, \<open>undefined\<close> and holes.  Throwing a type error is the result \<open>None\<close>.
\<close>

section \<open>Groups\<close>

type_synonym node = nat

record 'd doc =
  node_data :: "node \<Rightarrow> 'd option"

definition set_data :: "('d, 'z) doc_scheme \<Rightarrow> node \<Rightarrow> 'd \<Rightarrow> ('d, 'z) doc_scheme" where
  "set_data st n d = st\<lparr>node_data := (node_data st)(n := Some d)\<rparr>"

record node_group =
  members :: "node option list"
  parentNode :: node

text \<open>A selector is called on a node with its data and its two indices; it may change the document.\<close>

type_synonym ('d, 'z) selector = "node \<Rightarrow> 'd option \<Rightarrow> nat \<Rightarrow> nat \<Rightarrow> ('d, 'z) doc_scheme \<Rightarrow> node option \<times> ('d, 'z) doc_scheme"

fun select_members :: "('d, 'z) selector \<Rightarrow> nat \<Rightarrow> nat \<Rightarrow> node option list \<Rightarrow> ('d, 'z) doc_scheme \<Rightarrow> node option list \<times> ('d, 'z) doc_scheme" where
  "select_members sel j i [] st = ([], st)"
| "select_members sel j i (None # g) st = (let (sub, st') = select_members sel j (Suc i) g st in (None # sub, st'))"
| "select_members sel j i (Some n # g) st =
     (let (subnode, st1) = sel n (node_data st n) i j st;
          st2 = (case (subnode, node_data st1 n) of (Some s, Some d) \<Rightarrow> set_data st1 s d | _ \<Rightarrow> st1);
          (sub, st3) = select_members sel j (Suc i) g st2
      in (subnode # sub, st3))"

fun select_groups :: "('d, 'z) selector \<Rightarrow> nat \<Rightarrow> node_group list \<Rightarrow> ('d, 'z) doc_scheme \<Rightarrow> node_group list \<times> ('d, 'z) doc_scheme" where
  "select_groups sel j [] st = ([], st)"
| "select_groups sel j (g # gs) st =
     (let (sub, st1) = select_members sel j 0 (members g) st; (subs, st2) = select_groups sel (Suc j) gs st1
      in (g\<lparr>members := sub\<rparr> # subs, st2))"

definition selection_select :: "('d, 'z) selector \<Rightarrow> node_group list \<Rightarrow> ('d, 'z) doc_scheme \<Rightarrow> node_group list \<times> ('d, 'z) doc_scheme" where
  "selection_select sel groups st = select_groups sel 0 groups st"

text \<open>\<open>selectAll\<close> makes a group of every node; the selector returns an array of nodes.\<close>

type_synonym ('d, 'z) selector_all = "node \<Rightarrow> 'd option \<Rightarrow> nat \<Rightarrow> nat \<Rightarrow> ('d, 'z) doc_scheme \<Rightarrow> node option list \<times> ('d, 'z) doc_scheme"

fun select_all_members :: "('d, 'z) selector_all \<Rightarrow> nat \<Rightarrow> nat \<Rightarrow> node option list \<Rightarrow> ('d, 'z) doc_scheme \<Rightarrow> node_group list \<times> ('d, 'z) doc_scheme" where
  "select_all_members sel j i [] st = ([], st)"
| "select_all_members sel j i (None # g) st = select_all_members sel j (Suc i) g st"
| "select_all_members sel j i (Some n # g) st =
     (let (ns, st1) = sel n (node_data st n) i j st; (subs, st2) = select_all_members sel j (Suc i) g st1
      in (\<lparr>members = ns, parentNode = n\<rparr> # subs, st2))"

fun select_all_groups :: "('d, 'z) selector_all \<Rightarrow> nat \<Rightarrow> node_group list \<Rightarrow> ('d, 'z) doc_scheme \<Rightarrow> node_group list \<times> ('d, 'z) doc_scheme" where
  "select_all_groups sel j [] st = ([], st)"
| "select_all_groups sel j (g # gs) st =
     (let (subs, st1) = select_all_members sel j 0 (members g) st; (more, st2) = select_all_groups sel (Suc j) gs st1
      in (subs @ more, st2))"

definition selection_selectAll :: "('d, 'z) selector_all \<Rightarrow> node_group list \<Rightarrow> ('d, 'z) doc_scheme \<Rightarrow> node_group list \<times> ('d, 'z) doc_scheme" where
  "selection_selectAll sel groups st = select_all_groups sel 0 groups st"

fun each_member :: "(node \<Rightarrow> nat \<Rightarrow> nat \<Rightarrow> 's \<Rightarrow> 's) \<Rightarrow> nat \<Rightarrow> nat \<Rightarrow> node option list \<Rightarrow> 's \<Rightarrow> 's" where
  "each_member f j i [] st = st"
| "each_member f j i (None # g) st = each_member f j (Suc i) g st"
| "each_member f j i (Some n # g) st = each_member f j (Suc i) g (f n i j st)"

fun each_group :: "(node \<Rightarrow> nat \<Rightarrow> nat \<Rightarrow> 's \<Rightarrow> 's) \<Rightarrow> nat \<Rightarrow> node_group list \<Rightarrow> 's \<Rightarrow> 's" where
  "each_group f j [] st = st"
| "each_group f j (g # gs) st = each_group f (Suc j) gs (each_member f j 0 (members g) st)"

definition d3_selection_each :: "node_group list \<Rightarrow> (node \<Rightarrow> nat \<Rightarrow> nat \<Rightarrow> 's \<Rightarrow> 's) \<Rightarrow> 's \<Rightarrow> 's" where
  "d3_selection_each groups callback st = each_group callback 0 groups st"

definition selection_each :: "node_group list \<Rightarrow> (node \<Rightarrow> 'd option \<Rightarrow> nat \<Rightarrow> nat \<Rightarrow> ('d, 'z) doc_scheme \<Rightarrow> ('d, 'z) doc_scheme) \<Rightarrow> ('d, 'z) doc_scheme \<Rightarrow> ('d, 'z) doc_scheme" where
  "selection_each groups callback st = d3_selection_each groups (\<lambda>n i j st. callback n (node_data st n) i j st) st"

definition selection_size :: "node_group list \<Rightarrow> nat" where
  "selection_size groups = d3_selection_each groups (\<lambda>n i j k. Suc k) 0"

fun first_node :: "node option list \<Rightarrow> node option" where
  "first_node [] = None"
| "first_node (Some n # g) = Some n"
| "first_node (None # g) = first_node g"

fun selection_node :: "node_group list \<Rightarrow> node option" where
  "selection_node [] = None"
| "selection_node (g # gs) = (case first_node (members g) of None \<Rightarrow> selection_node gs | Some n \<Rightarrow> Some n)"

definition selection_empty :: "node_group list \<Rightarrow> bool" where
  "selection_empty groups = (selection_node groups = None)"

text \<open>\<open>datum(value)\<close> sets the property of every node, \<open>null\<close> deletes it.\<close>

definition selection_datum :: "node_group list \<Rightarrow> 'd option \<Rightarrow> ('d, 'z) doc_scheme \<Rightarrow> ('d, 'z) doc_scheme" where
  "selection_datum groups v st =
     selection_each groups (\<lambda>n d i j st. st\<lparr>node_data := (node_data st)(n := v)\<rparr>) st"

fun filter_members :: "(node \<Rightarrow> 'd option \<Rightarrow> nat \<Rightarrow> nat \<Rightarrow> bool) \<Rightarrow> ('d, 'z) doc_scheme \<Rightarrow> nat \<Rightarrow> nat \<Rightarrow> node option list \<Rightarrow> node option list" where
  "filter_members p st j i [] = []"
| "filter_members p st j i (None # g) = filter_members p st j (Suc i) g"
| "filter_members p st j i (Some n # g) =
     (if p n (node_data st n) i j then Some n # filter_members p st j (Suc i) g else filter_members p st j (Suc i) g)"

definition selection_filter :: "(node \<Rightarrow> 'd option \<Rightarrow> nat \<Rightarrow> nat \<Rightarrow> bool) \<Rightarrow> node_group list \<Rightarrow> ('d, 'z) doc_scheme \<Rightarrow> node_group list" where
  "selection_filter p groups st = map (\<lambda>(j, g). g\<lparr>members := filter_members p st j 0 (members g)\<rparr>) (enumerate 0 groups)"

section \<open>The data join\<close>

text \<open>Entering places hold the datum of an object with nothing but \<open>__data__\<close>.\<close>

record 'd data_join =
  enterNodes :: "'d option list"
  updateNodes :: "node option list"
  exitNodes :: "node option list"

text \<open>The first loop: nodes by their key, and the nodes whose key was seen before.\<close>

fun index_nodes :: "(node \<Rightarrow> 'd option \<Rightarrow> nat \<Rightarrow> string) \<Rightarrow> ('d, 'z) doc_scheme \<Rightarrow> nat \<Rightarrow> node option list \<Rightarrow> node obj \<Rightarrow>
    (node obj \<times> string list \<times> node option list) option" where
  "index_nodes kf st i [] m = Some (m, [], [])"
| "index_nodes kf st i (None # g) m = None"
| "index_nodes kf st i (Some n # g) m =
     (let k = kf n (node_data st n) i
      in map_option (\<lambda>(m', ks, ex). (m', k # ks, (if d3_map_has m k then Some n else None) # ex))
           (index_nodes kf st (Suc i) g (if d3_map_has m k then m else d3_map_set m k n)))"

text \<open>The second loop: every datum updates the node of its key or enters, unless its key came before.\<close>

fun match_data :: "('d \<Rightarrow> nat \<Rightarrow> string) \<Rightarrow> nat \<Rightarrow> 'd list \<Rightarrow> node obj \<Rightarrow> 'd obj \<Rightarrow> ('d, 'z) doc_scheme \<Rightarrow>
    node option list \<times> 'd option list \<times> node obj \<times> ('d, 'z) doc_scheme" where
  "match_data kf i [] nodeBy dataBy st = ([], [], nodeBy, st)"
| "match_data kf i (d # ds) nodeBy dataBy st =
     (let k = kf d i;
          (u, e, st1) = (case d3_map_get nodeBy k of
             Some n \<Rightarrow> (Some n, None, set_data st n d)
           | None \<Rightarrow> (None, if d3_map_has dataBy k then None else Some d, st));
          (us, es, nodeBy', st') = match_data kf (Suc i) ds (snd (d3_map_remove nodeBy k)) (d3_map_set dataBy k d) st1
      in (u # us, e # es, nodeBy', st'))"

text \<open>The third loop: nodes whose key no datum has leave.\<close>

definition exit_unmatched :: "node obj \<Rightarrow> string list \<Rightarrow> node option list \<Rightarrow> node option list \<Rightarrow> node option list" where
  "exit_unmatched nodeBy ks ex g = map (\<lambda>(k, e, n). if d3_map_has nodeBy k then n else e) (zip ks (zip ex g))"

definition bind_keyed :: "(node \<Rightarrow> 'd option \<Rightarrow> nat \<Rightarrow> string) \<Rightarrow> ('d \<Rightarrow> nat \<Rightarrow> string) \<Rightarrow> node option list \<Rightarrow> 'd list \<Rightarrow>
    ('d, 'z) doc_scheme \<Rightarrow> ('d data_join \<times> ('d, 'z) doc_scheme) option" where
  "bind_keyed nkey dkey grp groupData st =
     map_option (\<lambda>(m, ks, ex).
       let (us, es, m', st') = match_data dkey 0 groupData m [] st
       in (\<lparr>enterNodes = es, updateNodes = us, exitNodes = exit_unmatched m' ks ex grp\<rparr>, st'))
     (index_nodes nkey st 0 grp [])"

text \<open>Without a key, by index.\<close>

fun bind_both :: "node option list \<Rightarrow> 'd list \<Rightarrow> ('d, 'z) doc_scheme \<Rightarrow> 'd data_join \<times> ('d, 'z) doc_scheme" where
  "bind_both [] ds st = (\<lparr>enterNodes = map Some ds, updateNodes = map (\<lambda>_. None) ds, exitNodes = []\<rparr>, st)"
| "bind_both (n # g) [] st = (\<lparr>enterNodes = [], updateNodes = [], exitNodes = n # g\<rparr>, st)"
| "bind_both (n # g) (d # ds) st =
     (let (jn, st') = bind_both g ds (case n of None \<Rightarrow> st | Some x \<Rightarrow> set_data st x d)
      in (\<lparr>enterNodes = (if n = None then Some d else None) # enterNodes jn, updateNodes = n # updateNodes jn,
           exitNodes = None # exitNodes jn\<rparr>, st'))"

definition bind_join :: "((node \<Rightarrow> 'd option \<Rightarrow> nat \<Rightarrow> string) \<times> ('d \<Rightarrow> nat \<Rightarrow> string)) option \<Rightarrow> node option list \<Rightarrow> 'd list \<Rightarrow>
    ('d, 'z) doc_scheme \<Rightarrow> ('d data_join \<times> ('d, 'z) doc_scheme) option" where
  "bind_join kf grp groupData st = (case kf of
     Some (nkey, dkey) \<Rightarrow> bind_keyed nkey dkey grp groupData st
   | None \<Rightarrow> Some (bind_both grp groupData st))"

text \<open>The join of a whole selection; the data of a group may be computed from the data of its parent.\<close>

fun data_groups :: "((node \<Rightarrow> 'd option \<Rightarrow> nat \<Rightarrow> string) \<times> ('d \<Rightarrow> nat \<Rightarrow> string)) option \<Rightarrow> (node \<Rightarrow> 'd option \<Rightarrow> nat \<Rightarrow> 'd list) \<Rightarrow> nat \<Rightarrow>
    node_group list \<Rightarrow> ('d, 'z) doc_scheme \<Rightarrow> ((node \<times> 'd data_join) list \<times> ('d, 'z) doc_scheme) option" where
  "data_groups kf f i [] st = Some ([], st)"
| "data_groups kf f i (g # gs) st =
     Option.bind (bind_join kf (members g) (f (parentNode g) (node_data st (parentNode g)) i) st) (\<lambda>(jn, st1).
       map_option (\<lambda>(jns, st2). ((parentNode g, jn) # jns, st2)) (data_groups kf f (Suc i) gs st1))"

definition selection_data :: "((node \<Rightarrow> 'd option \<Rightarrow> nat \<Rightarrow> string) \<times> ('d \<Rightarrow> nat \<Rightarrow> string)) option \<Rightarrow> (node \<Rightarrow> 'd option \<Rightarrow> nat \<Rightarrow> 'd list) \<Rightarrow>
    node_group list \<Rightarrow> ('d, 'z) doc_scheme \<Rightarrow> ((node \<times> 'd data_join) list \<times> ('d, 'z) doc_scheme) option" where
  "selection_data kf f groups st = data_groups kf f 0 groups st"

definition selection_get_data :: "node_group list \<Rightarrow> ('d, 'z) doc_scheme \<Rightarrow> 'd option list" where
  "selection_get_data groups st = map (\<lambda>n. Option.bind n (node_data st)) (members (hd groups))"

section \<open>Entering\<close>

text \<open>
  \<open>enter().select\<close> calls the selector on the parent for every entering place, gives the node the datum and stores
  it in the update group too, which is the same array the update selection has.  A selector without a result throws.
\<close>

fun enter_members :: "('d, 'z) selector \<Rightarrow> node \<Rightarrow> nat \<Rightarrow> nat \<Rightarrow> 'd option list \<Rightarrow> node option list \<Rightarrow> ('d, 'z) doc_scheme \<Rightarrow>
    (node option list \<times> node option list \<times> ('d, 'z) doc_scheme) option" where
  "enter_members sel parent j i [] ups st = Some ([], ups, st)"
| "enter_members sel parent j i (None # es) ups st =
     map_option (\<lambda>(sub, ups', st'). (None # sub, ups', st')) (enter_members sel parent j (Suc i) es ups st)"
| "enter_members sel parent j i (Some d # es) ups st =
     (case sel parent (Some d) i j st of
        (None, st1) \<Rightarrow> None
      | (Some s, st1) \<Rightarrow>
          map_option (\<lambda>(sub, ups', st'). (Some s # sub, ups', st'))
            (enter_members sel parent j (Suc i) es (ups[i := Some s]) (set_data st1 s d)))"

fun enter_groups :: "('d, 'z) selector \<Rightarrow> nat \<Rightarrow> (node \<times> 'd data_join) list \<Rightarrow> ('d, 'z) doc_scheme \<Rightarrow>
    (node_group list \<times> (node \<times> 'd data_join) list \<times> ('d, 'z) doc_scheme) option" where
  "enter_groups sel j [] st = Some ([], [], st)"
| "enter_groups sel j ((p, jn) # jns) st =
     Option.bind (enter_members sel p j 0 (enterNodes jn) (updateNodes jn) st) (\<lambda>(sub, ups, st1).
       map_option (\<lambda>(subs, jns', st2). (\<lparr>members = sub, parentNode = p\<rparr> # subs, (p, jn\<lparr>updateNodes := ups\<rparr>) # jns', st2))
         (enter_groups sel (Suc j) jns st1))"

definition enter_select :: "('d, 'z) selector \<Rightarrow> (node \<times> 'd data_join) list \<Rightarrow> ('d, 'z) doc_scheme \<Rightarrow>
    (node_group list \<times> (node \<times> 'd data_join) list \<times> ('d, 'z) doc_scheme) option" where
  "enter_select sel jns st = enter_groups sel 0 jns st"

text \<open>
  The node to insert before: the first update node after index \<open>i\<close>.  The function keeps the group and the index it has
  reached, so that a sequence of calls with rising indices scans a group once.
\<close>

function next_update :: "node option list \<Rightarrow> nat \<Rightarrow> node option \<times> nat" where
  "next_update grp i0 =
     (if i0 < length grp \<and> grp ! i0 \<noteq> None then (grp ! i0, i0)
      else if Suc i0 < length grp then next_update grp (Suc i0) else (None, Suc i0))"
  by pat_completeness auto
termination by (relation "measure (\<lambda>(grp, i0). length grp - i0)") auto

definition d3_selection_enterInsertBefore :: "node option list list \<Rightarrow> (nat \<times> nat) option \<Rightarrow> nat \<Rightarrow> nat \<Rightarrow> node option \<times> (nat \<times> nat) option" where
  "d3_selection_enterInsertBefore updates s i j =
     (let i0 = (case s of Some (j0, i0) \<Rightarrow> if j0 = j then i0 else 0 | None \<Rightarrow> 0);
          i1 = (if i \<ge> i0 then i + 1 else i0);
          (n, i2) = next_update (updates ! j) i1
      in (n, Some (j, i2)))"

section \<open>Sorting\<close>

definition d3_selection_sortComparator :: "('d option \<Rightarrow> 'd option \<Rightarrow> jsnum) \<Rightarrow> ('d, 'z) doc_scheme \<Rightarrow> node option \<Rightarrow> node option \<Rightarrow> jsnum" where
  "d3_selection_sortComparator cmp st a b = (case (a, b) of
     (Some m, Some n) \<Rightarrow> cmp (node_data st m) (node_data st n)
   | _ \<Rightarrow> Fin ((if a = None then 1 else 0) - (if b = None then 1 else 0)))"

definition sort_groups :: "('d option \<Rightarrow> 'd option \<Rightarrow> jsnum) \<Rightarrow> node_group list \<Rightarrow> ('d, 'z) doc_scheme \<Rightarrow> node_group list" where
  "sort_groups cmp groups st = map (\<lambda>g. g\<lparr>members := js_sort (d3_selection_sortComparator cmp st) (members g)\<rparr>) groups"

text \<open>
  \<open>order\<close> walks a group backwards and moves a node before its successor unless it is there.  The document's
  \<open>nextSibling\<close> and \<open>insertBefore\<close>, called on the parent of the second node, are parameters.
\<close>

fun order_members :: "('s \<Rightarrow> node \<Rightarrow> node option) \<Rightarrow> ('s \<Rightarrow> node \<Rightarrow> node \<Rightarrow> 's) \<Rightarrow> node option list \<Rightarrow> node option \<Rightarrow> 's \<Rightarrow> 's" where
  "order_members sibling insert_before [] nxt st = st"
| "order_members sibling insert_before (None # g) nxt st = order_members sibling insert_before g nxt st"
| "order_members sibling insert_before (Some n # g) nxt st =
     order_members sibling insert_before g (Some n)
       (case nxt of None \<Rightarrow> st | Some x \<Rightarrow> if sibling st n \<noteq> Some x then insert_before st n x else st)"

definition order_group :: "('s \<Rightarrow> node \<Rightarrow> node option) \<Rightarrow> ('s \<Rightarrow> node \<Rightarrow> node \<Rightarrow> 's) \<Rightarrow> node option list \<Rightarrow> 's \<Rightarrow> 's" where
  "order_group sibling insert_before g st =
     (if g = [] then st else order_members sibling insert_before (rev (butlast g)) (last g) st)"

definition selection_order :: "('s \<Rightarrow> node \<Rightarrow> node option) \<Rightarrow> ('s \<Rightarrow> node \<Rightarrow> node \<Rightarrow> 's) \<Rightarrow> node_group list \<Rightarrow> 's \<Rightarrow> 's" where
  "selection_order sibling insert_before groups st = fold (\<lambda>g. order_group sibling insert_before (members g)) groups st"

definition selection_sort :: "(('d, 'z) doc_scheme \<Rightarrow> node \<Rightarrow> node option) \<Rightarrow> (('d, 'z) doc_scheme \<Rightarrow> node \<Rightarrow> node \<Rightarrow> ('d, 'z) doc_scheme) \<Rightarrow>
    ('d option \<Rightarrow> 'd option \<Rightarrow> jsnum) \<Rightarrow> node_group list \<Rightarrow> ('d, 'z) doc_scheme \<Rightarrow> node_group list \<times> ('d, 'z) doc_scheme" where
  "selection_sort sibling insert_before cmp groups st =
     (let gs = sort_groups cmp groups st in (gs, selection_order sibling insert_before gs st))"

end
