(* ===== verification/D3_Join.thy ===== *)
theory D3_Join
  imports D3_Selection
begin

text \<open>
  Facts about the data join: which places of the three groups are filled, what becomes of the data of the nodes, and that
  joining and then entering leaves a node for every datum.
\<close>

section \<open>The three loops of a keyed join\<close>

definition node_keys :: "(node \<Rightarrow> 'd option \<Rightarrow> nat \<Rightarrow> string) \<Rightarrow> ('d, 'z) doc_scheme \<Rightarrow> nat \<Rightarrow> node list \<Rightarrow> string list" where
  "node_keys nkey st i ns = map (\<lambda>(i, n). nkey n (node_data st n) i) (enumerate i ns)"

definition data_keys :: "('d \<Rightarrow> nat \<Rightarrow> string) \<Rightarrow> nat \<Rightarrow> 'd list \<Rightarrow> string list" where
  "data_keys dkey i ds = map (\<lambda>(i, d). dkey d i) (enumerate i ds)"

lemma key_lists [simp]:
  "node_keys nkey st i [] = []" "node_keys nkey st i (n # ns) = nkey n (node_data st n) i # node_keys nkey st (Suc i) ns"
  "data_keys dkey i [] = []" "data_keys dkey i (d # ds) = dkey d i # data_keys dkey (Suc i) ds"
  "length (node_keys nkey st i ns) = length ns" "length (data_keys dkey i ds) = length ds"
  by (simp_all add: node_keys_def data_keys_def)

lemma index_nodes_spec:
  "d3_map_invar m \<Longrightarrow>
   \<exists>m' ex. index_nodes nkey st i (map Some ns) m = Some (m', node_keys nkey st i ns, ex) \<and> d3_map_invar m' \<and> length ex = length ns \<and>
     (\<forall>k. d3_map_get m' k = (case d3_map_get m k of Some n \<Rightarrow> Some n | None \<Rightarrow> map_of (zip (node_keys nkey st i ns) ns) k)) \<and>
     (\<forall>j<length ns. ex ! j =
        (if d3_map_has m (node_keys nkey st i ns ! j) \<or> node_keys nkey st i ns ! j \<in> set (take j (node_keys nkey st i ns)) then Some (ns ! j) else None))"
proof (induction ns arbitrary: i m)
  case Nil
  then show ?case by (auto split: option.split)
next
  case (Cons n ns)
  define k0 where "k0 = nkey n (node_data st n) i"
  define m1 where "m1 = (if d3_map_has m k0 then m else d3_map_set m k0 n)"
  let ?ks = "node_keys nkey st (Suc i) ns"
  have m: "d3_map_invar m1" using Cons.prems by (simp add: m1_def d3_map_invar_set)
  from Cons.IH [OF m, of "Suc i"] obtain m' ex where IH: "index_nodes nkey st (Suc i) (map Some ns) m1 = Some (m', ?ks, ex)"
    "d3_map_invar m'" "length ex = length ns"
    "\<And>k. d3_map_get m' k = (case d3_map_get m1 k of Some n \<Rightarrow> Some n | None \<Rightarrow> map_of (zip ?ks ns) k)"
    "\<And>j. j < length ns \<Longrightarrow> ex ! j = (if d3_map_has m1 (?ks ! j) \<or> ?ks ! j \<in> set (take j ?ks) then Some (ns ! j) else None)" by blast
  have g: "d3_map_get m1 k = (case d3_map_get m k of Some n \<Rightarrow> Some n | None \<Rightarrow> if k = k0 then Some n else None)" for k
    using Cons.prems by (auto simp: m1_def d3map.get_put d3map.has_get split: option.split)
  have h: "d3_map_has m1 k \<longleftrightarrow> d3_map_has m k \<or> k = k0" for k
    using g [of k] by (auto simp: d3map.has_get split: option.splits if_splits)
  have "index_nodes nkey st i (map Some (n # ns)) m = Some (m', k0 # ?ks, (if d3_map_has m k0 then Some n else None) # ex)"
    using IH(1) by (simp add: Let_def k0_def [symmetric] m1_def [symmetric])
  moreover have "d3_map_get m' k = (case d3_map_get m k of Some n \<Rightarrow> Some n | None \<Rightarrow> map_of (zip (k0 # ?ks) (n # ns)) k)" for k
    by (auto simp: IH(4) g split: option.split)
  moreover have "((if d3_map_has m k0 then Some n else None) # ex) ! j =
      (if d3_map_has m ((k0 # ?ks) ! j) \<or> (k0 # ?ks) ! j \<in> set (take j (k0 # ?ks)) then Some ((n # ns) ! j) else None)"
    if "j < length (n # ns)" for j
    using that IH(5) [of "j - 1"] by (cases j) (auto simp: h)
  ultimately show ?case using IH(2,3) by (simp only: key_lists k0_def [symmetric]) (auto intro!: exI [of _ m'])
qed

text \<open>The writes to the nodes' data, one for every filled place.\<close>

fun store_data :: "(node option \<times> 'd) list \<Rightarrow> ('d, 'z) doc_scheme \<Rightarrow> ('d, 'z) doc_scheme" where
  "store_data [] st = st"
| "store_data ((None, d) # ps) st = store_data ps st"
| "store_data ((Some n, d) # ps) st = store_data ps (set_data st n d)"

lemma match_data_spec:
  "d3_map_invar nb \<Longrightarrow> d3_map_invar db \<Longrightarrow> match_data dkey i ds nb db st = (us, es, nb', st') \<Longrightarrow>
   length us = length ds \<and> length es = length ds \<and> st' = store_data (zip us ds) st \<and> d3_map_invar nb' \<and>
   (\<forall>k. d3_map_get nb' k = (if k \<in> set (data_keys dkey i ds) then None else d3_map_get nb k)) \<and>
   (\<forall>j<length ds. us ! j = (if data_keys dkey i ds ! j \<in> set (take j (data_keys dkey i ds)) then None else d3_map_get nb (data_keys dkey i ds ! j)) \<and>
     es ! j = (if data_keys dkey i ds ! j \<in> set (take j (data_keys dkey i ds)) \<or> d3_map_has nb (data_keys dkey i ds ! j) \<or>
       d3_map_has db (data_keys dkey i ds ! j) then None else Some (ds ! j)))"
proof (induction ds arbitrary: i nb db st us es nb' st')
  case (Cons d ds)
  define k0 where "k0 = dkey d i"
  let ?ks = "data_keys dkey (Suc i) ds" and ?nb = "snd (d3_map_remove nb k0)" and ?db = "d3_map_set db k0 d"
  define u where "u = d3_map_get nb k0"
  define e where "e = (if d3_map_has nb k0 \<or> d3_map_has db k0 then None else Some d)"
  define st1 where "st1 = (case u of None \<Rightarrow> st | Some n \<Rightarrow> set_data st n d)"
  obtain us1 es1 nb1 st2 where r: "match_data dkey (Suc i) ds ?nb ?db st1 = (us1, es1, nb1, st2)" by (metis prod_cases4)
  have eq: "us = u # us1" "es = e # es1" "nb' = nb1" "st' = st2"
    using Cons.prems(3) r by (auto simp: Let_def k0_def [symmetric] u_def e_def st1_def d3map.has_get split: option.splits)
  have "d3_map_invar ?nb" "d3_map_invar ?db" using Cons.prems(1,2) by (auto intro: d3_map_invar_remove d3_map_invar_set)
  note IH = Cons.IH [OF this r]
  have g: "d3_map_get ?nb k = (if k = k0 then None else d3_map_get nb k)" for k using Cons.prems(1) by (rule d3map.get_remove)
  have h: "d3_map_has ?nb k \<longleftrightarrow> k \<noteq> k0 \<and> d3_map_has nb k" for k using g [of k] by (simp add: d3map.has_get)
  have h': "d3_map_has ?db k \<longleftrightarrow> k = k0 \<or> d3_map_has db k" for k
    using d3map.get_put [OF Cons.prems(2), of k0 d k] by (simp add: d3map.has_get)
  have s: "store_data ((u, d) # zip us1 ds) st = store_data (zip us1 ds) st1" by (simp add: st1_def split: option.split)
  have "us ! j = (if (k0 # ?ks) ! j \<in> set (take j (k0 # ?ks)) then None else d3_map_get nb ((k0 # ?ks) ! j)) \<and>
      es ! j = (if (k0 # ?ks) ! j \<in> set (take j (k0 # ?ks)) \<or> d3_map_has nb ((k0 # ?ks) ! j) \<or> d3_map_has db ((k0 # ?ks) ! j) then None else Some ((d # ds) ! j))"
    if "j < length (d # ds)" for j
    using that IH by (cases j) (auto simp: eq u_def e_def g h h')
  then show ?case using IH by (simp only: key_lists k0_def [symmetric] eq) (auto simp: g s)
qed simp

lemma node_data_set_data [simp]: "node_data (set_data st n d) m = (if m = n then Some d else node_data st m)"
  by (simp add: set_data_def)

lemma store_data_other: "Some n \<notin> fst ` set ps \<Longrightarrow> node_data (store_data ps st) n = node_data st n"
  by (induction ps st rule: store_data.induct) auto

lemma store_data_at:
  "(Some n, d) \<in> set ps \<Longrightarrow> distinct (filter (\<lambda>u. u \<noteq> None) (map fst ps)) \<Longrightarrow> node_data (store_data ps st) n = Some d"
proof (induction ps st rule: store_data.induct)
  case (3 n' d' ps st)
  then show ?case by (cases "n' = n") (auto simp: store_data_other)
qed auto

section \<open>The keyed join\<close>

definition somes :: "'a option list \<Rightarrow> 'a list" where
  "somes xs = List.map_filter (\<lambda>x. x) xs"

lemma somes_simps [simp]: "somes [] = []" "somes (None # xs) = somes xs" "somes (Some a # xs) = a # somes xs"
  by (simp_all add: somes_def map_filter_simps)

lemma in_somes: "a \<in> set (somes xs) \<longleftrightarrow> Some a \<in> set xs"
proof (induction xs)
  case (Cons x xs)
  then show ?case by (cases x) auto
qed simp

lemma distinct_somes: "distinct (filter (\<lambda>u. u \<noteq> None) xs) \<longleftrightarrow> distinct (somes xs)"
proof (induction xs)
  case (Cons x xs)
  then show ?case by (cases x) (auto simp: in_somes)
qed simp

lemma distinct_somes_nth:
  "(\<And>i j a. i < j \<Longrightarrow> j < length xs \<Longrightarrow> xs ! i = Some a \<Longrightarrow> xs ! j = Some a \<Longrightarrow> False) \<Longrightarrow> distinct (somes xs)"
proof (induction xs)
  case (Cons x xs)
  have "distinct (somes xs)" using Cons.prems by (intro Cons.IH) (metis Suc_less_eq length_Cons nth_Cons_Suc)
  moreover have "Some a \<notin> set xs" if "x = Some a" for a
  proof
    assume "Some a \<in> set xs"
    then obtain i where "i < length xs" "xs ! i = Some a" by (auto simp: in_set_conv_nth)
    then show False using Cons.prems [of 0 "Suc i" a] that by simp
  qed
  ultimately show ?case by (cases x) (auto simp: in_somes)
qed simp

lemma somes_nth_inj:
  "distinct (somes xs) \<Longrightarrow> i < length xs \<Longrightarrow> j < length xs \<Longrightarrow> xs ! i = Some a \<Longrightarrow> xs ! j = Some a \<Longrightarrow> i = j"
proof (induction xs arbitrary: i j)
  case (Cons x xs)
  have "Some a \<notin> set xs" if "x = Some a" using Cons.prems(1) that by (auto simp: in_somes)
  moreover have "distinct (somes xs)" using Cons.prems(1) by (cases x) auto
  ultimately show ?case using Cons.prems Cons.IH by (cases i; cases j) (auto simp: in_set_conv_nth)
qed simp

lemma zip_mem: "xs ! i = x \<Longrightarrow> ys ! i = y \<Longrightarrow> i < length xs \<Longrightarrow> i < length ys \<Longrightarrow> (x, y) \<in> set (zip xs ys)"
  by (auto simp: in_set_zip)

text \<open>A first occurrence of a key in a list.\<close>

lemma first_key: "k \<in> set ks \<Longrightarrow> \<exists>j<length ks. ks ! j = k \<and> k \<notin> set (take j ks)"
proof (induction ks)
  case (Cons a ks)
  show ?case
  proof (cases "a = k")
    case False
    then obtain j where "j < length ks" "ks ! j = k" "k \<notin> set (take j ks)" using Cons by auto
    then show ?thesis using False by (intro exI [of _ "Suc j"]) auto
  qed (auto intro: exI [of _ 0])
qed simp

lemma map_of_first:
  "length ks = length ns \<Longrightarrow> map_of (zip ks ns) k = Some n \<longleftrightarrow> (\<exists>j<length ks. ks ! j = k \<and> k \<notin> set (take j ks) \<and> ns ! j = n)"
proof (induction ks ns rule: list_induct2)
  case (Cons a ks b ns)
  show ?case
  proof (cases "a = k")
    case True
    then show ?thesis by (auto simp: nth_Cons' take_Cons' split: if_splits)
  next
    case False
    then show ?thesis using Cons.IH by (auto simp: less_Suc_eq_0_disj)
  qed
qed simp

lemma take_nth_neq: "i < j \<Longrightarrow> j < length xs \<Longrightarrow> xs ! j \<notin> set (take j xs) \<Longrightarrow> xs ! i \<noteq> xs ! j"
  by (metis in_set_conv_nth length_take min.absorb4 nth_take)

text \<open>The places of a keyed join.\<close>

definition keyed_places :: "string list \<Rightarrow> node list \<Rightarrow> string list \<Rightarrow> 'd list \<Rightarrow> 'd data_join \<Rightarrow> bool" where
  "keyed_places ks ns kd ds jn =
     (length (updateNodes jn) = length ds \<and> length (enterNodes jn) = length ds \<and> length (exitNodes jn) = length ns \<and>
      (\<forall>i<length ds. updateNodes jn ! i = (if kd ! i \<in> set (take i kd) then None else map_of (zip ks ns) (kd ! i)) \<and>
        enterNodes jn ! i = (if kd ! i \<in> set (take i kd) \<or> kd ! i \<in> set ks then None else Some (ds ! i))) \<and>
      (\<forall>j<length ns. exitNodes jn ! j = (if ks ! j \<in> set (take j ks) \<or> ks ! j \<notin> set kd then Some (ns ! j) else None)))"

lemma bind_keyed_places:
  assumes "ks = node_keys nkey st 0 ns" "kd = data_keys dkey 0 ds"
  obtains jn where "bind_keyed nkey dkey (map Some ns) ds st = Some (jn, store_data (zip (updateNodes jn) ds) st)" "keyed_places ks ns kd ds jn"
proof -
  obtain m ex where i: "index_nodes nkey st 0 (map Some ns) [] = Some (m, ks, ex)" "d3_map_invar m" "length ex = length ns"
      "\<And>k. d3_map_get m k = map_of (zip ks ns) k" "\<And>j. j < length ns \<Longrightarrow> ex ! j = (if ks ! j \<in> set (take j ks) then Some (ns ! j) else None)"
    using index_nodes_spec [of "[]" nkey st 0 ns] by (auto simp: assms(1) d3_map_get_def d3_map_has_def)
  obtain us es m' st' where r: "match_data dkey 0 ds m [] st = (us, es, m', st')" by (metis prod_cases4)
  have l: "length ks = length ns" "length kd = length ds" by (simp_all add: assms)
  have hm: "d3_map_has m k \<longleftrightarrow> k \<in> set ks" for k
    using l(1) by (metis d3map.has_get i(4) map_of_zip_is_None)
  note d = match_data_spec [OF i(2) d3_map_invar_Nil r]
  have "d3_map_has m' k \<longleftrightarrow> k \<in> set ks \<and> k \<notin> set kd" for k using d hm [of k] by (auto simp: d3map.has_get assms(2) split: if_splits)
  then have ex: "exit_unmatched m' ks ex (map Some ns) ! j = (if ks ! j \<in> set (take j ks) \<or> ks ! j \<notin> set kd then Some (ns ! j) else None)"
    if "j < length ns" for j
    using that l i(3,5) by (simp add: exit_unmatched_def)
  let ?jn = "\<lparr>enterNodes = es, updateNodes = us, exitNodes = exit_unmatched m' ks ex (map Some ns)\<rparr>"
  have "bind_keyed nkey dkey (map Some ns) ds st = Some (?jn, store_data (zip us ds) st)"
    using i(1) r d by (simp add: bind_keyed_def)
  moreover have "keyed_places ks ns kd ds ?jn"
    using d ex l i(3) hm by (auto simp: keyed_places_def assms(2) i(4) d3_map_has_def exit_unmatched_def)
  ultimately show thesis using that by simp
qed

definition first_at :: "'a list \<Rightarrow> nat \<Rightarrow> bool" where
  "first_at ks j = (j < length ks \<and> ks ! j \<notin> set (take j ks))"

lemma first_at_unique: "first_at ks i \<Longrightarrow> first_at ks j \<Longrightarrow> ks ! i = ks ! j \<Longrightarrow> i = j"
  using take_nth_neq [of i j ks] take_nth_neq [of j i ks] by (cases i j rule: linorder_cases) (auto simp: first_at_def)

lemma keyed_update_iff:
  assumes "keyed_places ks ns kd ds jn" "length ks = length ns" "length kd = length ds" "i < length ds"
  shows "updateNodes jn ! i = Some n \<longleftrightarrow> first_at kd i \<and> (\<exists>j. first_at ks j \<and> ks ! j = kd ! i \<and> ns ! j = n)"
  using assms map_of_first [OF assms(2), of "kd ! i" n] by (auto simp: keyed_places_def first_at_def)

lemma keyed_exit_iff:
  assumes "keyed_places ks ns kd ds jn" "length ks = length ns" "j < length ns"
  shows "exitNodes jn ! j = Some n \<longleftrightarrow> ns ! j = n \<and> (\<not> first_at ks j \<or> ks ! j \<notin> set kd)"
  using assms by (auto simp: keyed_places_def first_at_def)

lemma keyed_update_distinct:
  assumes "keyed_places ks ns kd ds jn" "length ks = length ns" "length kd = length ds" "distinct ns"
  shows "distinct (somes (updateNodes jn))"
proof (rule distinct_somes_nth)
  fix i i' n
  assume a: "i < i'" "i' < length (updateNodes jn)" "updateNodes jn ! i = Some n" "updateNodes jn ! i' = Some n"
  then have b: "i < length ds" "i' < length ds" using assms(1) by (auto simp: keyed_places_def)
  obtain j j' where "j < length ns" "j' < length ns" "ns ! j = n" "ns ! j' = n" "ks ! j = kd ! i" "ks ! j' = kd ! i'" "first_at kd i" "first_at kd i'"
    using a(3,4) assms(2) by (auto simp: keyed_update_iff [OF assms(1-3)] b first_at_def)
  then show False using assms(4) a(1) first_at_unique [of kd i i'] by (metis nth_eq_iff_index_eq order_less_irrefl)
qed

lemma keyed_update_nodes:
  assumes "keyed_places ks ns kd ds jn" "length ks = length ns" "length kd = length ds"
  shows "n \<in> set (somes (updateNodes jn)) \<longleftrightarrow> (\<exists>j. first_at ks j \<and> ns ! j = n \<and> ks ! j \<in> set kd)"
proof
  assume "n \<in> set (somes (updateNodes jn))"
  moreover have "length (updateNodes jn) = length ds" using assms(1) by (simp add: keyed_places_def)
  ultimately obtain i where "i < length ds" "updateNodes jn ! i = Some n" by (metis in_somes in_set_conv_nth)
  then show "\<exists>j. first_at ks j \<and> ns ! j = n \<and> ks ! j \<in> set kd" using assms(3) keyed_update_iff [OF assms] by (metis nth_mem)
next
  assume "\<exists>j. first_at ks j \<and> ns ! j = n \<and> ks ! j \<in> set kd"
  then obtain j where j: "first_at ks j" "ns ! j = n" "ks ! j \<in> set kd" by blast
  obtain i where "i < length ds" "kd ! i = ks ! j" "first_at kd i" using first_key [OF j(3)] assms(3) by (auto simp: first_at_def)
  then have "i < length (updateNodes jn)" "updateNodes jn ! i = Some n"
    using j keyed_update_iff [OF assms, of i n] assms(1) by (auto simp: keyed_places_def)
  then show "n \<in> set (somes (updateNodes jn))" by (metis in_somes nth_mem)
qed

lemma keyed_partition:
  assumes "keyed_places ks ns kd ds jn" "length ks = length ns" "length kd = length ds" "distinct ns"
  shows "distinct (somes (updateNodes jn) @ somes (exitNodes jn)) \<and> set (somes (updateNodes jn) @ somes (exitNodes jn)) = set ns"
proof -
  have l: "length (exitNodes jn) = length ns" using assms(1) by (simp add: keyed_places_def)
  note e = keyed_exit_iff [OF assms(1,2)]
  have "distinct (somes (exitNodes jn))"
  proof (rule distinct_somes_nth)
    fix j j' n
    assume "j < j'" "j' < length (exitNodes jn)" "exitNodes jn ! j = Some n" "exitNodes jn ! j' = Some n"
    then show False using e [of j n] e [of j' n] assms(4) l by (auto simp: nth_eq_iff_index_eq)
  qed
  moreover have "n \<in> set (somes (exitNodes jn)) \<longleftrightarrow> (\<exists>j. j < length ns \<and> ns ! j = n \<and> (\<not> first_at ks j \<or> ks ! j \<notin> set kd))" for n
    using e l by (auto simp: in_somes in_set_conv_nth [of "Some n"])
  ultimately show ?thesis
    using keyed_update_distinct [OF assms] keyed_update_nodes [OF assms(1-3)] assms(2,4)
    by (auto simp: nth_eq_iff_index_eq in_set_conv_nth [of _ ns] first_at_def) blast
qed

text \<open>
  (C3) The keyed join.  For a group of distinct nodes and any key functions the join never throws.  A datum updates the first node with its
  key, unless an earlier datum has that key too; it enters when no node and no earlier datum has its key; a node leaves when its
  key belongs to no datum or to an earlier node.  Every node is in exactly one place of the updating and the leaving nodes, an
  updating node carries its datum, and the data of all other nodes is unchanged.
\<close>

theorem data_join_keyed:
  assumes "distinct ns" "ks = node_keys nkey st 0 ns" "kd = data_keys dkey 0 ds"
  shows "\<exists>jn st'. bind_join (Some (nkey, dkey)) (map Some ns) ds st = Some (jn, st') \<and> keyed_places ks ns kd ds jn \<and>
    distinct (somes (updateNodes jn) @ somes (exitNodes jn)) \<and> set (somes (updateNodes jn) @ somes (exitNodes jn)) = set ns \<and>
    (\<forall>i n. i < length ds \<longrightarrow> updateNodes jn ! i = Some n \<longrightarrow> node_data st' n = Some (ds ! i)) \<and>
    (\<forall>n. Some n \<notin> set (updateNodes jn) \<longrightarrow> node_data st' n = node_data st n)"
proof -
  obtain jn where j: "bind_keyed nkey dkey (map Some ns) ds st = Some (jn, store_data (zip (updateNodes jn) ds) st)" "keyed_places ks ns kd ds jn"
    using bind_keyed_places [OF assms(2,3)] .
  have l: "length ks = length ns" "length kd = length ds" "length (updateNodes jn) = length ds" using assms j(2) by (auto simp: keyed_places_def)
  have d: "distinct (filter (\<lambda>u. u \<noteq> None) (map fst (zip (updateNodes jn) ds)))"
    using keyed_update_distinct [OF j(2) l(1,2) assms(1)] by (simp only: map_fst_zip [OF l(3)] distinct_somes)
  have "node_data (store_data (zip (updateNodes jn) ds) st) n = Some (ds ! i)" if "i < length ds" "updateNodes jn ! i = Some n" for i n
    using store_data_at [OF zip_mem d] that l(3) by metis
  moreover have "node_data (store_data (zip (updateNodes jn) ds) st) n = node_data st n" if "Some n \<notin> set (updateNodes jn)" for n
    using that by (intro store_data_other) (auto dest: set_zip_leftD)
  ultimately show ?thesis using j keyed_partition [OF j(2) l(1,2) assms(1)] by (auto simp: bind_join_def)
qed

theorem data_join_keyed_witness:
  "\<exists>jn st'. bind_join (Some (\<lambda>n d i. case d of Some x \<Rightarrow> x | None \<Rightarrow> '''', \<lambda>d i. d)) (map Some [4, 7]) [''b'', ''c'']
     \<lparr>node_data = (\<lambda>_. None)(4 := Some ''a'', 7 := Some ''b'')\<rparr> = Some (jn, st') \<and>
   set (somes (updateNodes jn) @ somes (exitNodes jn)) = {4, 7}"
proof -
  have "distinct [4, 7 :: nat]" by simp
  from data_join_keyed [OF this refl refl] show ?thesis by fastforce
qed

section \<open>Joins with a place for every datum\<close>

text \<open>Every datum has exactly one place: an updating node that carries it, or an entering place.\<close>

definition join_complete :: "'d list \<Rightarrow> 'd data_join \<Rightarrow> ('d, 'z) doc_scheme \<Rightarrow> bool" where
  "join_complete ds jn st =
     (length (updateNodes jn) = length ds \<and> length (enterNodes jn) = length ds \<and> distinct (somes (updateNodes jn)) \<and>
      (\<forall>i<length ds. case updateNodes jn ! i of
         None \<Rightarrow> enterNodes jn ! i = Some (ds ! i)
       | Some n \<Rightarrow> enterNodes jn ! i = None \<and> node_data st n = Some (ds ! i)))"

lemma keyed_join_complete:
  assumes "bind_join (Some (nkey, dkey)) (map Some ns) ds st = Some (jn, st')" "distinct ns" "distinct (data_keys dkey 0 ds)"
  shows "join_complete ds jn st' \<and> set (updateNodes jn) \<subseteq> insert None (Some ` set ns)"
proof -
  let ?kd = "data_keys dkey 0 ds" and ?ks = "node_keys nkey st 0 ns"
  obtain jn' where "bind_keyed nkey dkey (map Some ns) ds st = Some (jn', store_data (zip (updateNodes jn') ds) st)" "keyed_places ?ks ns ?kd ds jn'"
    using bind_keyed_places [OF refl refl] .
  then have j: "keyed_places ?ks ns ?kd ds jn" "st' = store_data (zip (updateNodes jn) ds) st" using assms(1) by (auto simp: bind_join_def)
  have l: "length ?ks = length ns" "length ?kd = length ds" "length (updateNodes jn) = length ds" using j(1) by (auto simp: keyed_places_def)
  have u: "distinct (somes (updateNodes jn))" using keyed_update_distinct [OF j(1) l(1,2) assms(2)] .
  have d: "distinct (filter (\<lambda>u. u \<noteq> None) (map fst (zip (updateNodes jn) ds)))" using u by (simp only: map_fst_zip [OF l(3)] distinct_somes)
  have dat: "node_data st' n = Some (ds ! i)" if "i < length ds" "updateNodes jn ! i = Some n" for i n
    unfolding j(2) using store_data_at [OF zip_mem d] that l(3) by metis
  have f: "?kd ! i \<notin> set (take i ?kd)" if "i < length ds" for i
    using assms(3) that l(2) by (auto simp: in_set_conv_nth nth_eq_iff_index_eq)
  have p: "updateNodes jn ! i = map_of (zip ?ks ns) (?kd ! i)" "enterNodes jn ! i = (if ?kd ! i \<in> set ?ks then None else Some (ds ! i))"
    if "i < length ds" for i using j(1) that f [OF that] by (auto simp: keyed_places_def)
  have "case updateNodes jn ! i of None \<Rightarrow> enterNodes jn ! i = Some (ds ! i) | Some n \<Rightarrow> enterNodes jn ! i = None \<and> node_data st' n = Some (ds ! i)"
    if "i < length ds" for i
    using p [OF that] dat [OF that] map_of_zip_is_None [OF l(1), of "?kd ! i"] by (cases "map_of (zip ?ks ns) (?kd ! i)") auto
  moreover have "set (updateNodes jn) \<subseteq> insert None (Some ` set ns)"
    using keyed_partition [OF j(1) l(1,2) assms(2)] in_somes [of _ "updateNodes jn"] 
    by (metis Un_iff image_eqI insert_iff not_None_eq set_append subsetI)
  ultimately show ?thesis using j(1) u by (auto simp: join_complete_def keyed_places_def)
qed

text \<open>By index, the groups may have empty places.\<close>

lemma bind_both_spec:
  "bind_both grp ds st = (jn, st') \<Longrightarrow>
   st' = store_data (zip (updateNodes jn) ds) st \<and> length (updateNodes jn) = length ds \<and> length (enterNodes jn) = length ds \<and>
   length (exitNodes jn) = length grp \<and>
   (\<forall>i<length ds. updateNodes jn ! i = (if i < length grp then grp ! i else None) \<and>
     enterNodes jn ! i = (if updateNodes jn ! i = None then Some (ds ! i) else None)) \<and>
   (\<forall>j<length grp. exitNodes jn ! j = (if j < length ds then None else grp ! j))"
proof (induction grp ds st arbitrary: jn st' rule: bind_both.induct)
  case (1 ds st)
  have "store_data (zip (map (\<lambda>_. None) ds) ds) st = st" by (induction ds) auto
  with 1 show ?case by auto
next
  case (3 n g d ds st)
  obtain jn1 st1 where r: "bind_both g ds (case n of None \<Rightarrow> st | Some x \<Rightarrow> set_data st x d) = (jn1, st1)" by fastforce
  then have eq: "jn = \<lparr>enterNodes = (if n = None then Some d else None) # enterNodes jn1, updateNodes = n # updateNodes jn1,
      exitNodes = None # exitNodes jn1\<rparr>" "st' = st1" using 3(2) by auto
  have "store_data (zip (n # us) (d # ds)) st = store_data (zip us ds) (case n of None \<Rightarrow> st | Some x \<Rightarrow> set_data st x d)" for us
    by (cases n) auto
  then show ?case using 3(1) [OF r] by (auto simp: eq less_Suc_eq_0_disj)
qed auto

lemma index_join_complete:
  assumes "bind_join None grp ds st = Some (jn, st')" "distinct (somes grp)"
  shows "join_complete ds jn st' \<and> set (updateNodes jn) \<subseteq> insert None (set grp)"
proof -
  have s: "bind_both grp ds st = (jn, st')" using assms(1) by (simp add: bind_join_def)
  note b = bind_both_spec [OF s]
  have "\<not> (i < j \<and> j < length (updateNodes jn) \<and> updateNodes jn ! i = Some a \<and> updateNodes jn ! j = Some a)" for i j a
  proof
    assume a: "i < j \<and> j < length (updateNodes jn) \<and> updateNodes jn ! i = Some a \<and> updateNodes jn ! j = Some a"
    then have "i < length grp" "j < length grp" "grp ! i = Some a" "grp ! j = Some a" using b by (auto split: if_splits)
    then show False using a assms(2) somes_nth_inj [of grp i j a] by auto
  qed
  then have u: "distinct (somes (updateNodes jn))" by (intro distinct_somes_nth) blast
  have l: "length (updateNodes jn) = length ds" and st': "st' = store_data (zip (updateNodes jn) ds) st" using b by blast+
  have d: "distinct (filter (\<lambda>u. u \<noteq> None) (map fst (zip (updateNodes jn) ds)))" using u by (simp only: map_fst_zip [OF l] distinct_somes)
  have dat: "node_data st' n = Some (ds ! i)" if "i < length ds" "updateNodes jn ! i = Some n" for i n
    unfolding st' using store_data_at [OF zip_mem d] that l by metis
  have "case updateNodes jn ! i of None \<Rightarrow> enterNodes jn ! i = Some (ds ! i) | Some n \<Rightarrow> enterNodes jn ! i = None \<and> node_data st' n = Some (ds ! i)"
    if "i < length ds" for i
    using b that dat [OF that] by (cases "updateNodes jn ! i") auto
  moreover have "set (updateNodes jn) \<subseteq> insert None (set grp)" using b by (fastforce simp: in_set_conv_nth)
  moreover have "length (enterNodes jn) = length ds" using b by blast
  ultimately show ?thesis using l u unfolding join_complete_def by blast
qed

section \<open>Entering\<close>

text \<open>
  What entering relies on of the function that creates the nodes: it returns a node that was not in the document before and leaves the data of
  the nodes in the document as they are; the data property does not decide which nodes are in the document.
\<close>

definition creates :: "('d, 'z) selector \<Rightarrow> (('d, 'z) doc_scheme \<Rightarrow> node set) \<Rightarrow> bool" where
  "creates sel present =
     ((\<forall>p d i j st. \<exists>s st'. sel p d i j st = (Some s, st') \<and> s \<notin> present st \<and> present st' = insert s (present st) \<and>
        (\<forall>n \<in> present st. node_data st' n = node_data st n)) \<and>
      (\<forall>st n d. present (set_data st n d) = present st))"

definition entered :: "('d, 'z) doc_scheme \<Rightarrow> 'd option list \<Rightarrow> node option list \<Rightarrow> bool" where
  "entered st es sub = list_all2 (\<lambda>e s. case e of None \<Rightarrow> s = None | Some d \<Rightarrow> \<exists>n. s = Some n \<and> node_data st n = Some d) es sub"

definition fill :: "node option list \<Rightarrow> node option list \<Rightarrow> node option list" where
  "fill ups sub = map2 (\<lambda>u s. if s = None then u else s) ups sub"

lemma enter_members_spec:
  assumes "creates sel present"
  shows "length rest = length es \<Longrightarrow>
    \<exists>sub st'. enter_members sel p j (length pre) es (pre @ rest) st = Some (sub, pre @ fill rest sub, st') \<and> entered st' es sub \<and>
      distinct (somes sub) \<and> set (somes sub) \<inter> present st = {} \<and> present st' = present st \<union> set (somes sub) \<and>
      (\<forall>n \<in> present st. node_data st' n = node_data st n)"
proof (induction es arbitrary: pre rest st)
  case Nil
  then show ?case by (simp add: entered_def fill_def)
next
  case (Cons e es)
  obtain u rest1 where rest: "rest = u # rest1" "length rest1 = length es" using Cons.prems by (cases rest) auto
  show ?case
  proof (cases e)
    case None
    obtain sub st' where r: "enter_members sel p j (length (pre @ [u])) es ((pre @ [u]) @ rest1) st = Some (sub, (pre @ [u]) @ fill rest1 sub, st')"
      "entered st' es sub" "distinct (somes sub)" "set (somes sub) \<inter> present st = {}" "present st' = present st \<union> set (somes sub)"
      "\<forall>n \<in> present st. node_data st' n = node_data st n"
      using Cons.IH [OF rest(2)] by blast
    then show ?thesis using None rest(1) by (auto simp: entered_def fill_def)
  next
    case (Some d)
    obtain s st1 where s: "sel p (Some d) (length pre) j st = (Some s, st1)" "s \<notin> present st" "present st1 = insert s (present st)"
      "\<forall>n \<in> present st. node_data st1 n = node_data st n" using assms unfolding creates_def by blast
    have pr: "present (set_data st1 s d) = insert s (present st)" using assms s(3) by (simp add: creates_def)
    obtain sub st' where r: "enter_members sel p j (length (pre @ [Some s])) es ((pre @ [Some s]) @ rest1) (set_data st1 s d) =
        Some (sub, (pre @ [Some s]) @ fill rest1 sub, st')"
      "entered st' es sub" "distinct (somes sub)" "set (somes sub) \<inter> insert s (present st) = {}" "present st' = insert s (present st) \<union> set (somes sub)"
      "\<forall>n \<in> insert s (present st). node_data st' n = node_data (set_data st1 s d) n"
      using Cons.IH [OF rest(2), of "pre @ [Some s]" "set_data st1 s d"] unfolding pr by blast
    have "node_data st' s = Some d" "\<forall>n \<in> present st. node_data st' n = node_data st n" using r(6) s(2,4) by auto
    then show ?thesis using Some r s(1,2) rest(1) by (auto simp: entered_def fill_def list_update_append)
  qed
qed

lemma fill_place:
  assumes "join_complete ds jn st1" "entered st2 (enterNodes jn) sub" "i < length ds"
  shows "(\<exists>n. updateNodes jn ! i = Some n \<and> sub ! i = None \<and> fill (updateNodes jn) sub ! i = Some n \<and> node_data st1 n = Some (ds ! i)) \<or>
    (\<exists>n. updateNodes jn ! i = None \<and> sub ! i = Some n \<and> fill (updateNodes jn) sub ! i = Some n \<and> node_data st2 n = Some (ds ! i))"
proof -
  have l: "length (updateNodes jn) = length ds" "length (enterNodes jn) = length ds" "length sub = length ds"
    using assms(1,2) by (auto simp: join_complete_def entered_def list_all2_lengthD)
  have "case enterNodes jn ! i of None \<Rightarrow> sub ! i = None | Some d \<Rightarrow> \<exists>n. sub ! i = Some n \<and> node_data st2 n = Some d"
    using list_all2_nthD2 [of _ "enterNodes jn" sub i] assms(2,3) l by (simp add: entered_def)
  moreover have "case updateNodes jn ! i of None \<Rightarrow> enterNodes jn ! i = Some (ds ! i) | Some n \<Rightarrow> enterNodes jn ! i = None \<and> node_data st1 n = Some (ds ! i)"
    using assms(1,3) by (simp add: join_complete_def)
  ultimately show ?thesis using l assms(3) by (cases "updateNodes jn ! i") (auto simp: fill_def)
qed

lemma fill_complete:
  assumes "join_complete ds jn st1" "entered st2 (enterNodes jn) sub" "distinct (somes sub)" "set (somes sub) \<inter> P = {}"
    and "set (updateNodes jn) \<subseteq> insert None (Some ` P)" "\<forall>n \<in> P. node_data st2 n = node_data st1 n"
  shows "\<exists>us. fill (updateNodes jn) sub = map Some us \<and> distinct us \<and> map (node_data st2) us = map Some ds"
proof -
  let ?f = "fill (updateNodes jn) sub"
  have l: "length (updateNodes jn) = length ds" "length sub = length ds" "length ?f = length ds"
    using assms(1,2) by (auto simp: join_complete_def entered_def fill_def dest: list_all2_lengthD)
  note place = fill_place [OF assms(1,2)]
  have old: "n \<in> P" if "i < length ds" "updateNodes jn ! i = Some n" for i n
    using assms(5) that l(1) by (metis (no_types, lifting) image_iff insert_iff nth_mem option.distinct(1) option.inject subsetD)
  have new: "n \<notin> P" if "i < length ds" "sub ! i = Some n" for i n
    using assms(4) that l(2) by (metis disjoint_iff in_somes nth_mem)
  have dat: "\<exists>n. ?f ! i = Some n \<and> node_data st2 n = Some (ds ! i)" if "i < length ds" for i
    using place [OF that] old [OF that] assms(6) by auto
  have "distinct (somes ?f)"
  proof (rule distinct_somes_nth)
    fix i j a
    assume a: "i < j" "j < length ?f" "?f ! i = Some a" "?f ! j = Some a"
    then have "i < length ds" "j < length ds" using l by auto
    moreover have "distinct (somes (updateNodes jn))" using assms(1) by (simp add: join_complete_def)
    ultimately show False
      using place [of i] place [of j] a old [of i a] old [of j a] new [of i a] new [of j a] l
        somes_nth_inj [of "updateNodes jn" i j a] somes_nth_inj [OF assms(3), of i j a] by auto
  qed
  moreover have m: "?f = map Some (map the ?f)" using dat l(3) by (auto intro!: nth_equalityI simp: list_eq_iff_nth_eq) (metis option.sel)
  moreover have "somes (map Some xs) = xs" for xs :: "node list" by (induction xs) auto
  ultimately have "distinct (map the ?f)" by metis
  moreover have "map (node_data st2) (map the ?f) = map Some ds" using dat l(3) by (auto simp: list_eq_iff_nth_eq) (metis option.sel)
  ultimately show ?thesis using m by blast
qed

lemma present_store_data: "creates sel present \<Longrightarrow> present (store_data ps st) = present st"
  by (induction ps st rule: store_data.induct) (auto simp: creates_def)

text \<open>
  (C4) Joining and entering.  After joining data with a group by index, or by keys that are different for all data, and
  creating a node for every entering place, the update group has one node for every datum, these nodes are distinct, and each
  carries its datum; the nodes that were created are not nodes of the document before.
\<close>

theorem join_enter_complete:
  assumes "creates sel present" "distinct ns" "set ns \<subseteq> present st"
    and "case kf of None \<Rightarrow> somes grp = ns | Some (nkey, dkey) \<Rightarrow> grp = map Some ns \<and> distinct (data_keys dkey 0 ds)"
    and "bind_join kf grp ds st = Some (jn, st1)"
  shows "\<exists>sub jn' st2. enter_select sel [(p, jn)] st1 = Some ([\<lparr>members = sub, parentNode = p\<rparr>], [(p, jn')], st2) \<and>
    (\<exists>us. updateNodes jn' = map Some us \<and> distinct us \<and> map (node_data st2) us = map Some ds) \<and> set (somes sub) \<inter> present st1 = {}"
proof -
  have c: "join_complete ds jn st1 \<and> set (updateNodes jn) \<subseteq> insert None (Some ` set ns)"
  proof (cases kf)
    case None
    have "set grp \<subseteq> insert None (Some ` set ns)" using assms(4) None in_somes [of _ grp] by (auto simp: image_iff) (metis not_None_eq)
    then show ?thesis using index_join_complete [of grp ds st jn st1] assms(2,4,5) None by auto
  next
    case (Some k)
    then show ?thesis using keyed_join_complete [of "fst k" "snd k" ns ds st jn st1] assms(2,4,5) by (cases k) auto
  qed
  have st1: "\<exists>ps. st1 = store_data ps st"
  proof (cases kf)
    case None
    then show ?thesis using assms(5) bind_both_spec [of grp ds st jn st1] by (auto simp: bind_join_def)
  next
    case (Some k)
    then show ?thesis using assms(4,5) bind_keyed_places [OF refl refl, of "fst k" "snd k" ns ds st] by (cases k) (auto simp: bind_join_def)
  qed
  then have pr: "present st1 = present st" using present_store_data [OF assms(1)] by auto
  obtain sub st2 where e: "enter_members sel p 0 0 (enterNodes jn) (updateNodes jn) st1 = Some (sub, fill (updateNodes jn) sub, st2)"
    "entered st2 (enterNodes jn) sub" "distinct (somes sub)" "set (somes sub) \<inter> present st1 = {}" "\<forall>n \<in> present st1. node_data st2 n = node_data st1 n"
    using enter_members_spec [OF assms(1), of "updateNodes jn" "enterNodes jn" p 0 "[]" st1] c by (auto simp: join_complete_def)
  have "set (updateNodes jn) \<subseteq> insert None (Some ` present st1)" using c assms(3) pr by blast
  then show ?thesis using e(1,4) fill_complete [OF conjunct1 [OF c] e(2-4) _ e(5)] by (auto simp: enter_select_def)
qed

text \<open>A document that numbers its nodes, with a selector that appends the next one.\<close>

record 'd page = "'d doc" +
  next_node :: node

definition page_append :: "('d, \<lparr>next_node :: node\<rparr>) selector" where
  "page_append p d i j st = (Some (next_node st), st\<lparr>next_node := Suc (next_node st)\<rparr>)"

lemma page_append_creates: "creates (page_append :: ('d, \<lparr>next_node :: node\<rparr>) selector) (\<lambda>st. {..<next_node st})"
  by (auto simp: creates_def page_append_def set_data_def)

theorem join_enter_complete_witness:
  "\<exists>jn st1 sub jn' st2 us. bind_join None [Some 0] [''a'', ''b''] \<lparr>node_data = \<lambda>_. None, next_node = 1\<rparr> = Some (jn, st1) \<and>
     enter_select page_append [(0, jn)] st1 = Some ([\<lparr>members = sub, parentNode = 0\<rparr>], [(0, jn')], st2) \<and>
     updateNodes jn' = map Some us \<and> map (node_data st2) us = [Some ''a'', Some ''b'']"
proof -
  obtain jn st1 where b: "bind_join None [Some 0] [''a'', ''b''] \<lparr>node_data = \<lambda>_. None, next_node = 1\<rparr> = Some (jn, st1)"
    by (simp add: bind_join_def split: prod.split)
  have "distinct [0 :: node]" "set [0] \<subseteq> {..<next_node \<lparr>node_data = \<lambda>_. None, next_node = 1\<rparr>}" by simp_all
  from join_enter_complete [OF page_append_creates this _ b, of 0] show ?thesis using b by fastforce
qed

end
