(* ===== verification/D3_Order.thy ===== *)
theory D3_Order
  imports D3_Join
begin

text \<open>Sorting a selection moves its nodes in the document, next to each other and in the order of their data.\<close>

section \<open>Moving nodes\<close>

text \<open>
  The documented behaviour of the two operations, for the nodes among the children \<open>kids st\<close> of one parent: the sibling is the next
  child, and inserting before a child removes the node from its place first.
\<close>

definition next_child :: "node list \<Rightarrow> node \<Rightarrow> node option" where
  "next_child ks n = (case dropWhile (\<lambda>x. x \<noteq> n) ks of _ # x # _ \<Rightarrow> Some x | _ \<Rightarrow> None)"

definition put_before :: "node list \<Rightarrow> node \<Rightarrow> node \<Rightarrow> node list" where
  "put_before ks n x = (let r = remove1 n ks in takeWhile (\<lambda>y. y \<noteq> x) r @ n # dropWhile (\<lambda>y. y \<noteq> x) r)"

definition child_order :: "('s \<Rightarrow> node list) \<Rightarrow> ('s \<Rightarrow> node \<Rightarrow> node option) \<Rightarrow> ('s \<Rightarrow> node \<Rightarrow> node \<Rightarrow> 's) \<Rightarrow> bool" where
  "child_order kids sibling insert_before =
     (\<forall>st n x. distinct (kids st) \<longrightarrow> n \<in> set (kids st) \<longrightarrow> sibling st n = next_child (kids st) n \<and>
        (x \<in> set (kids st) \<longrightarrow> n \<noteq> x \<longrightarrow> kids (insert_before st n x) = put_before (kids st) n x))"

lemma next_child_append: "distinct (pre @ n # post) \<Longrightarrow> next_child (pre @ n # post) n = (case post of [] \<Rightarrow> None | x # _ \<Rightarrow> Some x)"
  by (auto simp: next_child_def dropWhile_append split: list.split)

lemma put_before_append:
  assumes "distinct (pre @ x # post)" "n \<noteq> x"
  shows "put_before (pre @ x # post) n x = remove1 n pre @ n # x # remove1 n post"
proof -
  have "remove1 n (pre @ x # post) = remove1 n pre @ x # remove1 n post"
    using assms by (cases "n \<in> set pre") (auto simp: remove1_append remove1_idem disjoint_iff)
  moreover have "\<forall>y \<in> set (remove1 n pre). y \<noteq> x" using assms(1) notin_set_remove1 [of x pre n] by auto
  ultimately show ?thesis by (simp add: put_before_def)
qed

text \<open>One move, in front of a block of nodes.\<close>

lemma order_move:
  assumes "child_order kids sibling insert_before" "kids st = pre @ x # b @ post" "distinct (kids st)" "n \<in> set (pre @ post)"
    and "st' = (if sibling st n \<noteq> Some x then insert_before st n x else st)"
  shows "kids st' = remove1 n pre @ n # x # b @ remove1 n post"
proof -
  have d: "n \<noteq> x" "n \<notin> set b" using assms(2-4) by auto
  have sib: "sibling st n = next_child (kids st) n" and ins: "kids (insert_before st n x) = put_before (kids st) n x"
    using assms(1-4) d by (auto simp: child_order_def)
  have p: "put_before (kids st) n x = remove1 n pre @ n # x # b @ remove1 n post"
    using put_before_append [of pre x "b @ post" n] assms(2,3) d by (auto simp: remove1_append)
  show ?thesis
  proof (cases "sibling st n = Some x")
    case True
    have "n \<notin> set post"
    proof
      assume "n \<in> set post"
      then obtain q1 q2 where "post = q1 @ n # q2" by (auto simp: in_set_conv_decomp)
      then show False using True sib assms(2,3) next_child_append [of "pre @ x # b @ q1" n q2] by (cases q2) auto
    qed
    then obtain p1 p2 where q: "pre = p1 @ n # p2" using assms(4) by (auto simp: in_set_conv_decomp)
    then have "p2 = []" using True sib assms(2,3) next_child_append [of p1 n "p2 @ x # b @ post"] by (cases p2) auto
    then show ?thesis using True assms(2,3,5) q \<open>n \<notin> set post\<close> by (auto simp: remove1_append remove1_idem)
  qed (use assms(5) ins p in simp)
qed

text \<open>The children outside a set of nodes keep their order.\<close>

lemma order_members_block:
  assumes "child_order kids sibling insert_before"
  shows "kids st = pre @ x # b @ post \<Longrightarrow> distinct (kids st) \<Longrightarrow> distinct (somes g) \<Longrightarrow> set (somes g) \<subseteq> set (pre @ post) \<Longrightarrow>
    \<exists>pre' post'. kids (order_members sibling insert_before g (Some x) st) = pre' @ rev (somes g) @ x # b @ post' \<and>
      filter (\<lambda>n. n \<notin> set (somes g)) (pre @ post) = pre' @ post'"
proof (induction g arbitrary: st pre x b post)
  case Nil
  then show ?case by auto
next
  case (Cons m g)
  show ?case
  proof (cases m)
    case None
    then show ?thesis using Cons by simp
  next
    case (Some n)
    define st' where "st' = (if sibling st n \<noteq> Some x then insert_before st n x else st)"
    have n: "n \<in> set (pre @ post)" "n \<notin> set (somes g)" "distinct (somes g)" "set (somes g) \<subseteq> set (pre @ post)" using Cons.prems Some by auto
    have k: "kids st' = remove1 n pre @ n # (x # b) @ remove1 n post"
      using order_move [OF assms Cons.prems(1,2) n(1) st'_def] by simp
    have d: "distinct (kids st')" using Cons.prems(1,2) n(1) unfolding k by (auto simp: distinct_remove1)
    have sub: "set (somes g) \<subseteq> set (remove1 n pre @ remove1 n post)" using n Cons.prems(1,2) by (auto simp: set_remove1_eq)
    from Cons.IH [OF k d n(3) sub] obtain pre' post' where
      r: "kids (order_members sibling insert_before g (Some n) st') = pre' @ rev (somes g) @ n # (x # b) @ post'"
        "filter (\<lambda>n. n \<notin> set (somes g)) (remove1 n pre @ remove1 n post) = pre' @ post'" by blast
    have f: "remove1 n pre = filter (\<lambda>y. y \<noteq> n) pre" "remove1 n post = filter (\<lambda>y. y \<noteq> n) post"
      using Cons.prems(1,2) by (auto simp: distinct_remove1_removeAll removeAll_filter_not_eq intro!: filter_cong)
    show ?thesis using r Some by (auto simp: st'_def f conj_commute)
  qed
qed

lemma somes_append: "somes (xs @ ys) = somes xs @ somes ys"
  by (simp add: somes_def List.map_filter_def)

lemma somes_rev: "somes (rev xs) = rev (somes xs)"
  by (simp add: somes_def List.map_filter_def rev_map rev_filter)

lemma order_members_none:
  assumes "child_order kids sibling insert_before" "distinct (kids st)" "distinct (somes g)" "set (somes g) \<subseteq> set (kids st)"
  shows "\<exists>pre post. kids (order_members sibling insert_before g None st) = pre @ rev (somes g) @ post \<and>
    filter (\<lambda>n. n \<notin> set (somes g)) (kids st) = pre @ post"
  using assms(3,4)
proof (induction g)
  case Nil
  then show ?case by (auto intro: exI [of _ "kids st"])
next
  case (Cons m g)
  show ?case
  proof (cases m)
    case None
    then show ?thesis using Cons by simp
  next
    case (Some n)
    then obtain pre post where k: "kids st = pre @ n # [] @ post" using Cons.prems by (auto simp: in_set_conv_decomp [of n])
    have "distinct (somes g)" "set (somes g) \<subseteq> set (pre @ post)" using Cons.prems Some k by auto
    from order_members_block [OF assms(1) k assms(2) this] obtain pre' post' where
      "kids (order_members sibling insert_before g (Some n) st) = pre' @ rev (somes g) @ n # post'"
      "filter (\<lambda>n. n \<notin> set (somes g)) (pre @ post) = pre' @ post'" by auto
    moreover have "filter (\<lambda>y. y \<noteq> n \<and> y \<notin> set (somes g)) pre = filter (\<lambda>y. y \<notin> set (somes g)) pre"
      "filter (\<lambda>y. y \<noteq> n \<and> y \<notin> set (somes g)) post = filter (\<lambda>y. y \<notin> set (somes g)) post"
      using assms(2) k by (auto intro!: filter_cong)
    ultimately show ?thesis using Some k by auto
  qed
qed

lemma order_group_block:
  assumes "child_order kids sibling insert_before" "distinct (kids st)" "distinct (somes g)" "set (somes g) \<subseteq> set (kids st)"
  shows "\<exists>pre post. kids (order_group sibling insert_before g st) = pre @ somes g @ post \<and>
    filter (\<lambda>n. n \<notin> set (somes g)) (kids st) = pre @ post"
proof (cases "g = []")
  case True
  then show ?thesis by (auto simp: order_group_def intro: exI [of _ "kids st"])
next
  case False
  then obtain h l where g: "g = h @ [l]" by (cases g rule: rev_cases) auto
  have "order_group sibling insert_before g st = order_members sibling insert_before (rev g) None st"
    by (cases l) (simp_all add: g order_group_def)
  then show ?thesis using order_members_none [OF assms(1,2), of "rev g"] assms(3,4) by (simp add: somes_rev)
qed

section \<open>Sorting\<close>

text \<open>A comparator of the data gives one of the nodes, with the empty places last.\<close>

lemma sortComparator_order:
  assumes "comparator cmp UNIV"
  shows "comparator (d3_selection_sortComparator cmp st) UNIV"
proof (rule comparator.intro, goal_cases)
  case (1 x y)
  then show ?case using comparator.cmp_asym [OF assms] by (auto simp: d3_selection_sortComparator_def split: option.splits)
next
  case (2 x y z)
  then show ?case
    using comparator.cmp_trans [OF assms, of "Option.bind x (node_data st)" "Option.bind y (node_data st)" "Option.bind z (node_data st)"]
    by (auto simp: d3_selection_sortComparator_def split: option.splits if_splits)
qed

lemma sorted_somes:
  "sorted_wrt (\<lambda>a b. \<not> cmp_pos (d3_selection_sortComparator cmp st a b)) xs \<Longrightarrow>
   sorted_wrt (\<lambda>m n. \<not> cmp_pos (cmp (node_data st m) (node_data st n))) (somes xs)"
proof (induction xs)
  case (Cons x xs)
  then show ?case by (cases x) (auto simp: in_somes d3_selection_sortComparator_def dest!: bspec [where x = "Some _"])
qed simp

lemma mset_somes: "mset xs = mset ys \<Longrightarrow> mset (somes xs) = mset (somes ys)"
  unfolding somes_def List.map_filter_def by (metis mset_filter mset_map)

text \<open>
  (C5) Sorting a selection.  With a comparator that orders the data, sorting a group of nodes with one parent moves them next to each other in the
  document, in an order of ascending data and with no node lost, and leaves the order of the parent's other children as it was.
\<close>

theorem selection_sort_order:
  assumes "child_order kids sibling insert_before" "comparator cmp UNIV"
    and "distinct (kids st)" "distinct (somes (members g))" "set (somes (members g)) \<subseteq> set (kids st)"
  shows "\<exists>pre ns post. kids (snd (selection_sort sibling insert_before cmp [g] st)) = pre @ ns @ post \<and>
    mset ns = mset (somes (members g)) \<and> sorted_wrt (\<lambda>m n. \<not> cmp_pos (cmp (node_data st m) (node_data st n))) ns \<and>
    filter (\<lambda>n. n \<notin> set ns) (kids st) = pre @ post"
proof -
  define h where "h = js_sort (d3_selection_sortComparator cmp st) (members g)"
  have m: "mset (somes h) = mset (somes (members g))" by (rule mset_somes) (simp add: h_def)
  have "sorted_wrt (\<lambda>a b. \<not> cmp_pos (d3_selection_sortComparator cmp st a b)) h"
    unfolding h_def by (rule comparator.sorted_js_sort [OF sortComparator_order [OF assms(2)]]) simp
  then have s: "sorted_wrt (\<lambda>m n. \<not> cmp_pos (cmp (node_data st m) (node_data st n))) (somes h)" by (rule sorted_somes)
  have "distinct (somes h)" "set (somes h) \<subseteq> set (kids st)" using assms(4,5) m by (metis mset_eq_imp_distinct_iff, metis mset_eq_setD)
  from order_group_block [OF assms(1,3) this] m s show ?thesis
    by (auto simp: selection_sort_def selection_order_def sort_groups_def Let_def h_def [symmetric])
qed

text \<open>A document with the children of one parent.\<close>

record 'd listing = "'d doc" +
  children :: "node list"

definition by_number :: "real option \<Rightarrow> real option \<Rightarrow> jsnum" where
  "by_number a b = Fin ((case a of None \<Rightarrow> 0 | Some x \<Rightarrow> x) - (case b of None \<Rightarrow> 0 | Some y \<Rightarrow> y))"

theorem selection_sort_order_witness:
  "\<exists>pre ns post. children (snd (selection_sort (\<lambda>st. next_child (children st)) (\<lambda>st n x. st\<lparr>children := put_before (children st) n x\<rparr>) by_number
       [\<lparr>members = [Some 1, None, Some 2], parentNode = 0\<rparr>] \<lparr>node_data = (\<lambda>n. Some (- real n)), children = [1, 3, 2]\<rparr>)) = pre @ ns @ post \<and>
     mset ns = mset [1, 2]"
proof -
  let ?st = "\<lparr>node_data = (\<lambda>n. Some (- real n)), children = [1, 3, 2]\<rparr>" and ?g = "\<lparr>members = [Some 1, None, Some 2], parentNode = 0\<rparr>"
  have c: "child_order (children :: (real, \<lparr>children :: node list\<rparr>) doc_scheme \<Rightarrow> node list) (\<lambda>st. next_child (children st))
      (\<lambda>st n x. st\<lparr>children := put_before (children st) n x\<rparr>)" by (simp add: child_order_def)
  have o: "comparator by_number UNIV" by (rule comparator.intro) (auto simp: by_number_def)
  have "distinct (children ?st)" "distinct (somes (members ?g))" "set (somes (members ?g)) \<subseteq> set (children ?st)" by simp_all
  from selection_sort_order [OF c o this] show ?thesis by (simp only: somes_simps node_group.select_convs) blast
qed

end
