(* ===== verification/D3_Transition.thy ===== *)
theory D3_Transition
  imports D3_Interpolate
begin

text \<open>
  Transitions of one node (\<open>d3.js\<close> lines 960 to 982, 8440 to 8448 and 8551 to 8660): the lock on the node, scheduling and configuring
  transitions, and the callbacks that start, tick and stop them.

  A transition of the node and the state of its timer callback are kept together under its number.  Calls that the transition makes, the deletion of the lock
  included, are listed as events.  A tween is given by what its initialiser returns when the transition starts: a function of
  the eased time or nothing.  Times are reals.
\<close>

section \<open>State\<close>

type_synonym 'w tween = "(real \<Rightarrow> 'w) option"

record 'w transition =
  tr_tween :: "'w tween obj"
  tr_time :: real
  tr_ease :: "real \<Rightarrow> real"
  tr_delay :: real
  tr_duration :: real
  tr_event :: bool

text \<open>What the first callback captures of its transition.\<close>

record settings =
  st_ease :: "real \<Rightarrow> real"
  st_duration :: real
  st_delay :: real

text \<open>
  The callback the timer will call next: the one of \<open>d3_transitionNode\<close>, \<open>start\<close>, the one queued by \<open>start\<close> with the elapsed time
  and the tweens, or \<open>tick\<close>.
\<close>

datatype 'w callback =
    Scheduled
  | Start settings
  | Launch settings real "(real \<Rightarrow> 'w) list"
  | Tick settings "(real \<Rightarrow> 'w) list"

record 'w lock =
  active :: nat
  count :: nat
  transitions :: "nat \<Rightarrow> ('w transition \<times> 'w callback) option"

datatype 'w trans_event = StartEvent nat | Tween nat 'w | EndEvent nat | Unlocked

type_synonym 'w node_state = "'w lock option"

section \<open>Scheduling and configuring\<close>

definition d3_transitionNode :: "nat \<Rightarrow> 'w transition \<Rightarrow> 'w node_state \<Rightarrow> 'w node_state" where
  "d3_transitionNode tid inherit nd =
     (let lk = (case nd of Some l \<Rightarrow> l | None \<Rightarrow> \<lparr>active = 0, count = 0, transitions = (\<lambda>_. None)\<rparr>)
      in case transitions lk tid of
           Some _ \<Rightarrow> Some lk
         | None \<Rightarrow> Some (lk\<lparr>transitions := (transitions lk)(tid := Some
             (\<lparr>tr_tween = [], tr_time = tr_time inherit, tr_ease = tr_ease inherit, tr_delay = tr_delay inherit,
               tr_duration = tr_duration inherit, tr_event = False\<rparr>, Scheduled)), count := Suc (count lk)\<rparr>))"

text \<open>The defaults of \<open>selection.transition\<close>, and the settings a chained transition inherits.\<close>

definition default_transition :: "real \<Rightarrow> (real \<Rightarrow> real) \<Rightarrow> 'w transition" where
  "default_transition now ease = \<lparr>tr_tween = [], tr_time = now, tr_ease = ease, tr_delay = 0, tr_duration = 250, tr_event = False\<rparr>"

definition chained :: "'w transition \<Rightarrow> 'w transition" where
  "chained t = t\<lparr>tr_delay := tr_delay t + tr_duration t\<rparr>"

text \<open>A setter on a transition that the lock no longer has throws, which is \<open>None\<close>.\<close>

definition configure :: "('w transition \<Rightarrow> 'w transition) \<Rightarrow> nat \<Rightarrow> 'w node_state \<Rightarrow> 'w node_state option" where
  "configure f tid nd = (case nd of
     None \<Rightarrow> None
   | Some lk \<Rightarrow> (case transitions lk tid of
       None \<Rightarrow> None
     | Some (t, c) \<Rightarrow> Some (Some (lk\<lparr>transitions := (transitions lk)(tid := Some (f t, c))\<rparr>))))"

definition transition_ease :: "(real \<Rightarrow> real) \<Rightarrow> nat \<Rightarrow> 'w node_state \<Rightarrow> 'w node_state option" where
  "transition_ease v = configure (\<lambda>t. t\<lparr>tr_ease := v\<rparr>)"

definition transition_delay :: "real \<Rightarrow> nat \<Rightarrow> 'w node_state \<Rightarrow> 'w node_state option" where
  "transition_delay v = configure (\<lambda>t. t\<lparr>tr_delay := v\<rparr>)"

definition transition_duration :: "real \<Rightarrow> nat \<Rightarrow> 'w node_state \<Rightarrow> 'w node_state option" where
  "transition_duration v = configure (\<lambda>t. t\<lparr>tr_duration := max 1 v\<rparr>)"

definition transition_tween :: "string \<Rightarrow> 'w tween option \<Rightarrow> nat \<Rightarrow> 'w node_state \<Rightarrow> 'w node_state option" where
  "transition_tween name tw = configure (\<lambda>t. t\<lparr>tr_tween :=
     (case tw of None \<Rightarrow> snd (d3_map_remove (tr_tween t) name) | Some w \<Rightarrow> d3_map_set (tr_tween t) name w)\<rparr>)"

definition transition_each :: "nat \<Rightarrow> 'w node_state \<Rightarrow> 'w node_state option" where
  "transition_each = configure (\<lambda>t. t\<lparr>tr_event := True\<rparr>)"

definition d3_selection_interrupt :: "'w node_state \<Rightarrow> 'w node_state" where
  "d3_selection_interrupt nd = map_option (\<lambda>lk. lk\<lparr>active := Suc (active lk)\<rparr>) nd"

section \<open>Callbacks\<close>

text \<open>Each callback returns the state, the events, and whether its timer is finished.\<close>

definition stop :: "nat \<Rightarrow> 'w lock \<Rightarrow> 'w node_state \<times> 'w trans_event list \<times> bool" where
  "stop tid lk =
     (if count lk - 1 \<noteq> 0 then (Some (lk\<lparr>count := count lk - 1, transitions := (transitions lk)(tid := None)\<rparr>), [], True)
      else (None, [Unlocked], True))"

definition set_callback :: "'w lock \<Rightarrow> nat \<Rightarrow> 'w transition \<Rightarrow> 'w callback \<Rightarrow> 'w lock" where
  "set_callback lk tid t c = lk\<lparr>transitions := (transitions lk)(tid := Some (t, c))\<rparr>"

definition start :: "nat \<Rightarrow> settings \<Rightarrow> 'w transition \<Rightarrow> real \<Rightarrow> 'w lock \<Rightarrow> 'w node_state \<times> 'w trans_event list \<times> bool" where
  "start tid s t elapsed lk =
     (if active lk > tid then stop tid lk
      else (Some (set_callback (lk\<lparr>active := tid\<rparr>) tid t
              (Launch s elapsed (List.map_filter (\<lambda>(k, w). w) (d3_map_forEach (tr_tween t))))),
            (if tr_event t then [StartEvent tid] else []), False))"

definition first_callback :: "nat \<Rightarrow> 'w transition \<Rightarrow> real \<Rightarrow> 'w lock \<Rightarrow> 'w node_state \<times> 'w trans_event list \<times> bool" where
  "first_callback tid t elapsed lk =
     (let s = \<lparr>st_ease = tr_ease t, st_duration = tr_duration t, st_delay = tr_delay t\<rparr>
      in if tr_delay t \<le> elapsed then start tid s t (elapsed - tr_delay t) lk
         else (Some (set_callback lk tid t (Start s)), [], False))"

definition tick :: "nat \<Rightarrow> settings \<Rightarrow> (real \<Rightarrow> 'w) list \<Rightarrow> 'w transition \<Rightarrow> real \<Rightarrow> 'w lock \<Rightarrow> 'w node_state \<times> 'w trans_event list \<times> bool" where
  "tick tid s tweened t elapsed lk =
     (if active lk \<noteq> tid then stop tid lk
      else let x = elapsed / st_duration s; e = st_ease s x; calls = map (\<lambda>f. Tween tid (f e)) (rev tweened)
           in if x \<ge> 1
              then (let (nd, evs, r) = stop tid lk in (nd, calls @ (if tr_event t then [EndEvent tid] else []) @ evs, r))
              else (Some (set_callback lk tid t (Tick s tweened)), calls, False))"

text \<open>The queued callback ticks once at the time of the start, or at one millisecond.\<close>

definition fire :: "nat \<Rightarrow> real \<Rightarrow> 'w lock \<Rightarrow> 'w node_state \<times> 'w trans_event list \<times> bool" where
  "fire tid elapsed lk = (case transitions lk tid of
     None \<Rightarrow> (Some lk, [], True)
   | Some (t, Scheduled) \<Rightarrow> first_callback tid t elapsed lk
   | Some (t, Start s) \<Rightarrow> start tid s t elapsed lk
   | Some (t, Launch s e tweened) \<Rightarrow> tick tid s tweened t (if e = 0 then 1 else e) lk
   | Some (t, Tick s tweened) \<Rightarrow> tick tid s tweened t elapsed lk)"

section \<open>Runs\<close>

inductive trans_step :: "'w node_state \<Rightarrow> 'w trans_event list \<Rightarrow> 'w node_state \<Rightarrow> bool" where
  schedule: "trans_step nd [] (d3_transitionNode tid inherit nd)"
| set_ease: "transition_ease f tid nd = Some nd' \<Longrightarrow> trans_step nd [] nd'"
| set_delay: "transition_delay v tid nd = Some nd' \<Longrightarrow> trans_step nd [] nd'"
| set_duration: "transition_duration v tid nd = Some nd' \<Longrightarrow> trans_step nd [] nd'"
| set_tween: "transition_tween name w tid nd = Some nd' \<Longrightarrow> trans_step nd [] nd'"
| listen: "transition_each tid nd = Some nd' \<Longrightarrow> trans_step nd [] nd'"
| interrupt: "trans_step nd [] (d3_selection_interrupt nd)"
| callback: "transitions lk tid \<noteq> None \<Longrightarrow> fire tid elapsed lk = (nd', evs, done) \<Longrightarrow> trans_step (Some lk) evs nd'"

inductive trans_run :: "'w node_state \<Rightarrow> 'w trans_event list \<Rightarrow> 'w node_state \<Rightarrow> bool" where
  idle: "trans_run nd [] nd"
| more: "trans_run nd evs nd1 \<Longrightarrow> trans_step nd1 evs' nd2 \<Longrightarrow> trans_run nd (evs @ evs') nd2"

inductive_cases trans_stepE: "trans_step nd evs nd'"

fun event_tid :: "'w trans_event \<Rightarrow> nat" where
  "event_tid (StartEvent i) = i"
| "event_tid (Tween i w) = i"
| "event_tid (EndEvent i) = i"
| "event_tid Unlocked = 0"

text \<open>The number of transitions is the count of the lock, and only the transitions up to the active one have started.\<close>

definition started :: "'w callback \<Rightarrow> bool" where
  "started c = (case c of Scheduled \<Rightarrow> False | Start _ \<Rightarrow> False | _ \<Rightarrow> True)"

definition lock_ok :: "'w lock \<Rightarrow> bool" where
  "lock_ok lk = (finite (dom (transitions lk)) \<and> card (dom (transitions lk)) = count lk \<and> 0 < count lk \<and>
     (\<forall>tid t c. transitions lk tid = Some (t, c) \<longrightarrow> started c \<longrightarrow> tid \<le> active lk))"

definition node_ok :: "'w node_state \<Rightarrow> bool" where
  "node_ok nd = (case nd of None \<Rightarrow> True | Some lk \<Rightarrow> lock_ok lk)"

lemma node_ok_simps [simp]: "node_ok None" "node_ok (Some lk) = lock_ok lk"
  by (simp_all add: node_ok_def)

lemma transitionNode_some: "\<exists>lk. d3_transitionNode tid inh nd = Some lk"
  by (auto simp: d3_transitionNode_def Let_def split: option.split)

lemma node_ok_transitionNode: "node_ok nd \<Longrightarrow> node_ok (d3_transitionNode tid inh nd)"
  by (cases nd) (auto simp: d3_transitionNode_def Let_def lock_ok_def started_def domIff card_insert_if split: option.splits)

lemma node_ok_configure:
  assumes "node_ok nd" "configure f tid nd = Some nd'"
  shows "node_ok nd' \<and> map_option active nd' = map_option active nd"
proof -
  obtain lk t c where l: "nd = Some lk" "transitions lk tid = Some (t, c)" "nd' = Some (lk\<lparr>transitions := (transitions lk)(tid := Some (f t, c))\<rparr>)"
    using assms(2) by (auto simp: configure_def split: option.splits)
  moreover have "insert tid (dom (transitions lk)) = dom (transitions lk)" using l(2) by blast
  ultimately show ?thesis using assms(1) by (auto simp: lock_ok_def split: if_splits)
qed

lemma node_ok_interrupt: "node_ok nd \<Longrightarrow> node_ok (d3_selection_interrupt nd)"
  by (cases nd) (auto simp: d3_selection_interrupt_def lock_ok_def le_SucI)

text \<open>
  What a callback does: it keeps the lock well-formed, unlocks at most at the end, and every other event is one of
  its transition, which is not older than the active one and is the active one after it.
\<close>

definition fires_ok :: "nat \<Rightarrow> 'w lock \<Rightarrow> 'w node_state \<times> 'w trans_event list \<times> bool \<Rightarrow> bool" where
  "fires_ok tid lk r = (case r of (nd, evs, done) \<Rightarrow> node_ok nd \<and>
     (\<exists>es. list_all (\<lambda>e. e \<noteq> Unlocked \<and> event_tid e = tid) es \<and> (es \<noteq> [] \<longrightarrow> active lk \<le> tid) \<and>
       evs = es @ (if nd = None then [Unlocked] else []) \<and>
       (\<forall>lk'. nd = Some lk' \<longrightarrow> active lk \<le> active lk' \<and> (es \<noteq> [] \<longrightarrow> active lk' = tid))))"

lemma fires_okI:
  assumes "node_ok nd" "list_all (\<lambda>e. e \<noteq> Unlocked \<and> event_tid e = tid) es" "es \<noteq> [] \<Longrightarrow> active lk \<le> tid"
    and "evs = es @ (if nd = None then [Unlocked] else [])" "\<And>lk'. nd = Some lk' \<Longrightarrow> active lk \<le> active lk' \<and> (es \<noteq> [] \<longrightarrow> active lk' = tid)"
  shows "fires_ok tid lk (nd, evs, done)"
  unfolding fires_ok_def using assms by auto

lemma stop_ok:
  assumes "lock_ok lk" "transitions lk tid \<noteq> None"
  shows "case stop tid lk of (nd, evs, done) \<Rightarrow> node_ok nd \<and> evs = (if nd = None then [Unlocked] else []) \<and>
    (\<forall>lk'. nd = Some lk' \<longrightarrow> active lk' = active lk)"
proof -
  have "card (dom (transitions lk) - {tid}) = count lk - 1" using assms by (subst card_Diff_singleton) (auto simp: lock_ok_def)
  then show ?thesis using assms by (auto simp: stop_def lock_ok_def split: if_splits)
qed

lemma stop_fires:
  assumes "lock_ok lk" "transitions lk tid \<noteq> None"
  shows "fires_ok tid lk (stop tid lk)"
proof -
  obtain nd evs r where st: "stop tid lk = (nd, evs, r)" by (metis prod_cases3)
  show ?thesis unfolding st using stop_ok [OF assms] st by (intro fires_okI [where es = "[]"]) auto
qed

lemma set_callback_ok:
  assumes "lock_ok lk" "transitions lk tid \<noteq> None" "started c \<Longrightarrow> tid \<le> active lk"
  shows "lock_ok (set_callback lk tid t c)"
proof -
  have "insert tid (dom (transitions lk)) = dom (transitions lk)" using assms(2) by blast
  then show ?thesis using assms by (auto simp: lock_ok_def set_callback_def split: if_splits)
qed

lemma start_ok:
  assumes "lock_ok lk" "transitions lk tid \<noteq> None"
  shows "fires_ok tid lk (start tid s t elapsed lk)"
proof (cases "active lk > tid")
  case True
  then show ?thesis using stop_fires [OF assms] by (simp add: start_def)
next
  case False
  then have "lock_ok (lk\<lparr>active := tid\<rparr>)" using assms(1) by (auto simp: lock_ok_def) (metis leI le_trans)
  then show ?thesis using False set_callback_ok [of "lk\<lparr>active := tid\<rparr>" tid] assms(2)
    by (auto simp: start_def set_callback_def intro!: fires_okI [where es = "if tr_event t then [StartEvent tid] else []"])
qed

lemma tick_ok:
  assumes "lock_ok lk" "transitions lk tid \<noteq> None"
  shows "fires_ok tid lk (tick tid s tweened t elapsed lk)"
proof (cases "active lk = tid")
  case False
  then show ?thesis using stop_fires [OF assms] by (simp add: tick_def)
next
  case True
  let ?calls = "map (\<lambda>f. Tween tid (f (st_ease s (elapsed / st_duration s)))) (rev tweened)"
  let ?ended = "if tr_event t then [EndEvent tid] else []"
  obtain nd evs r where st: "stop tid lk = (nd, evs, r)" by (metis prod_cases3)
  show ?thesis
  proof (cases "elapsed / st_duration s \<ge> 1")
    case t: True
    have p: "node_ok nd" "evs = (if nd = None then [Unlocked] else [])" "\<And>lk'. nd = Some lk' \<Longrightarrow> active lk' = tid"
      using stop_ok [OF assms] True unfolding st by auto
    have "fires_ok tid lk (nd, (?calls @ ?ended) @ evs, r)"
      by (rule fires_okI [where es = "?calls @ ?ended", OF p(1)]) (use True p(2,3) in \<open>auto simp: list_all_iff\<close>)
    then show ?thesis using True t st by (simp add: tick_def Let_def)
  next
    case f: False
    have "fires_ok tid lk (Some (set_callback lk tid t (Tick s tweened)), ?calls, False)"
      by (rule fires_okI [where es = ?calls]) (use True set_callback_ok [OF assms, of "Tick s tweened"] in \<open>simp_all add: list_all_iff set_callback_def\<close>)
    then show ?thesis using True f by (simp add: tick_def Let_def)
  qed
qed

lemma fire_ok:
  assumes "lock_ok lk" "transitions lk tid \<noteq> None"
  shows "fires_ok tid lk (fire tid elapsed lk)"
proof -
  obtain t c where c: "transitions lk tid = Some (t, c)" using assms(2) by auto
  have d: "fires_ok tid lk (first_callback tid t elapsed lk)"
  proof (cases "tr_delay t \<le> elapsed")
    case True
    then show ?thesis using start_ok [OF assms] by (simp add: first_callback_def Let_def)
  next
    case False
    then show ?thesis using set_callback_ok [OF assms, of "Start \<lparr>st_ease = tr_ease t, st_duration = tr_duration t, st_delay = tr_delay t\<rparr>"]
      by (auto simp: first_callback_def Let_def started_def set_callback_def intro!: fires_okI [where es = "[]"])
  qed
  show ?thesis using d start_ok [OF assms] tick_ok [OF assms] by (cases c) (auto simp: fire_def c)
qed

lemma configure_some: "configure f tid nd = Some nd' \<Longrightarrow> \<exists>lk lk'. nd = Some lk \<and> nd' = Some lk'"
  by (auto simp: configure_def split: option.splits)

lemmas transition_setters = transition_ease_def transition_delay_def transition_duration_def transition_tween_def transition_each_def

lemma step_quiet:
  assumes "trans_step nd evs nd'" "node_ok nd"
  obtains "node_ok nd'" "evs = []" "nd' \<noteq> None \<or> nd = None" "\<And>lk lk'. nd = Some lk \<Longrightarrow> nd' = Some lk' \<Longrightarrow> active lk \<le> active lk'"
  | lk tid d where "nd = Some lk" "fires_ok tid lk (nd', evs, d)"
proof -
  note quiet_case = that(1)
  have quiet: thesis if c: "configure f tid nd = Some nd'" and e: "evs = []" for f tid
    using configure_some [OF c] node_ok_configure [OF assms(2) c] e by (auto intro: quiet_case)
  show thesis
    using assms(1)
  proof (cases rule: trans_step.cases)
    case (schedule tid inherit)
    show thesis
      by (rule quiet_case) (use schedule node_ok_transitionNode [OF assms(2)] in \<open>auto simp: d3_transitionNode_def Let_def split: option.splits\<close>)
  next
    case (callback lk tid elapsed d)
    then show thesis using that(2) [of lk tid d] fire_ok [of lk tid elapsed] assms(2) by simp
  next
    case interrupt
    show thesis
      by (rule quiet_case) (use interrupt node_ok_interrupt [OF assms(2)] in \<open>auto simp: d3_selection_interrupt_def\<close>)
  qed (use quiet in \<open>auto simp: transition_setters\<close>)
qed

text \<open>Events of one lock come in the order of the transitions' numbers.\<close>

definition in_order :: "'w trans_event \<Rightarrow> 'w trans_event \<Rightarrow> bool" where
  "in_order e e' = (e = Unlocked \<or> e' = Unlocked \<or> event_tid e \<le> event_tid e')"

definition run_ok :: "'w trans_event list \<Rightarrow> 'w node_state \<Rightarrow> bool" where
  "run_ok evs nd = (node_ok nd \<and> successively in_order evs \<and>
     (evs = [] \<or> last evs = Unlocked \<or> (\<exists>lk. nd = Some lk \<and> event_tid (last evs) \<le> active lk)))"

lemma same_in_order: "list_all (\<lambda>e. e \<noteq> Unlocked \<and> event_tid e = tid) es \<Longrightarrow> successively in_order es"
proof (induction es)
  case (Cons e es)
  then show ?case by (cases es) (auto simp: in_order_def)
qed simp

lemma run_ok_fires:
  assumes "run_ok evs (Some lk)" "fires_ok tid lk (nd', evs', d)"
  shows "run_ok (evs @ evs') nd'"
proof -
  obtain es where es: "node_ok nd'" "list_all (\<lambda>e. e \<noteq> Unlocked \<and> event_tid e = tid) es" "es \<noteq> [] \<Longrightarrow> active lk \<le> tid"
      "evs' = es @ (if nd' = None then [Unlocked] else [])" "\<And>lk'. nd' = Some lk' \<Longrightarrow> active lk \<le> active lk' \<and> (es \<noteq> [] \<longrightarrow> active lk' = tid)"
    using assms(2) by (auto simp: fires_ok_def)
  have hd_last: "es \<noteq> [] \<Longrightarrow> event_tid (hd es) = tid \<and> event_tid (last es) = tid"
    using es(2) by (cases es) (auto simp: list_all_iff)
  have "evs \<noteq> [] \<Longrightarrow> es \<noteq> [] \<Longrightarrow> in_order (last evs) (hd es)"
    using assms(1) es(3) hd_last by (auto simp: run_ok_def in_order_def)
  moreover have "in_order e Unlocked" for e :: "'a trans_event" by (simp add: in_order_def)
  ultimately have "evs \<noteq> [] \<Longrightarrow> evs' \<noteq> [] \<Longrightarrow> in_order (last evs) (hd evs')" "successively in_order evs'"
    using same_in_order [OF es(2)] unfolding es(4) by (cases es, auto simp: successively_append_iff)
  then have "successively in_order (evs @ evs')" using assms(1) by (auto simp: run_ok_def successively_append_iff)
  moreover have "event_tid (last (evs @ es)) \<le> active lk' \<or> evs @ es = [] \<or> last (evs @ es) = Unlocked" if "nd' = Some lk'" for lk'
    using es(5) [OF that] hd_last assms(1) by (cases "es = []") (auto simp: run_ok_def)
  ultimately show ?thesis using es(1,4) by (cases nd') (auto simp: run_ok_def)
qed

lemma run_ok_step:
  assumes "run_ok evs nd" "trans_step nd evs' nd'"
  shows "run_ok (evs @ evs') nd'"
proof -
  have "node_ok nd" using assms(1) by (simp add: run_ok_def)
  from step_quiet [OF assms(2) this] show ?thesis
  proof cases
    case 1
    then show ?thesis using assms(1) by (cases nd; cases nd') (auto simp: run_ok_def, meson le_trans)
  next
    case (2 lk tid d)
    then show ?thesis using run_ok_fires assms(1) by blast
  qed
qed

lemma run_ok_run: "trans_run nd evs nd' \<Longrightarrow> nd = None \<Longrightarrow> run_ok evs nd'"
  by (induction rule: trans_run.induct) (auto simp: run_ok_def [of "[]"] intro: run_ok_step)

text \<open>
  (C9) The lock of a node.  Whatever transitions are scheduled, configured, interrupted and run on a node, in every
  reachable state the count of its lock is the number of its transitions and is not zero, so that the lock is deleted exactly with the last
  of them, and no transition later than the active one has started.
\<close>

theorem transition_lock_invariant:
  assumes "trans_run None evs (Some lk)"
  shows "finite (dom (transitions lk)) \<and> card (dom (transitions lk)) = count lk \<and> count lk \<noteq> 0 \<and>
    (\<forall>tid t c. transitions lk tid = Some (t, c) \<longrightarrow> started c \<longrightarrow> tid \<le> active lk)"
  using run_ok_run [OF assms refl] by (simp add: run_ok_def lock_ok_def)

theorem transition_lock_invariant_witness:
  "\<exists>lk :: nat lock. trans_run None [] (Some lk) \<and> card (dom (transitions lk)) = 1 \<and> count lk = 1"
proof -
  let ?t = "default_transition 0 d3_ease_cubicInOut :: nat transition"
  obtain lk where lk: "d3_transitionNode 1 ?t None = Some lk" using transitionNode_some by blast
  have r: "trans_run None [] (Some lk)"
    using trans_run.more [OF trans_run.idle, of None "[]" "Some lk"] trans_step.schedule [of None 1 ?t] lk by simp
  then have "card (dom (transitions lk)) = count lk" using transition_lock_invariant by blast
  then show ?thesis using lk r by (intro exI [of _ lk]) (auto simp: d3_transitionNode_def Let_def)
qed

text \<open>
  (C10) The newest transition wins.  Between two deletions of the lock, the events and tween calls of a node come in the order of the
  numbers of the transitions: once a transition has started, no older one changes the node again.
\<close>

theorem transition_newest_wins:
  assumes "trans_run None (before @ evs @ rest) nd" "Unlocked \<notin> set evs"
  shows "sorted (map event_tid evs)"
proof -
  have "successively in_order evs" using run_ok_run [OF assms(1) refl] by (simp add: run_ok_def successively_append_iff)
  then have "successively (\<lambda>e e'. event_tid e \<le> event_tid e') evs"
    using assms(2) by (induction evs rule: induct_list012) (auto simp: in_order_def)
  then have "successively (\<le>) (map event_tid evs)" by (simp add: successively_map)
  then show ?thesis by (simp add: successively_conv_sorted_wrt)
qed

theorem transition_newest_wins_witness:
  "\<exists>nd :: nat node_state. trans_run None [StartEvent 1] nd \<and> sorted (map event_tid [StartEvent 1 :: nat trans_event])"
proof -
  let ?t = "default_transition 0 d3_ease_cubicInOut :: nat transition"
  define lk where "lk = \<lparr>active = 0, count = 1, transitions = (\<lambda>_. None)(1 := Some (?t\<lparr>tr_event := True\<rparr>, Scheduled))\<rparr>"
  obtain nd where f: "fire 1 0 lk = (nd, [StartEvent 1], False)"
    by (simp add: fire_def lk_def first_callback_def start_def default_transition_def Let_def)
  have s: "trans_step None [] (d3_transitionNode 1 ?t None)" by (rule trans_step.schedule)
  have "transition_each 1 (d3_transitionNode 1 ?t None) = Some (Some lk)"
    by (simp add: transition_each_def configure_def d3_transitionNode_def default_transition_def lk_def Let_def)
  from trans_step.listen [OF this] have l: "trans_step (d3_transitionNode 1 ?t None) [] (Some lk)" .
  have "trans_step (Some lk) [StartEvent 1] nd" by (rule trans_step.callback [OF _ f]) (simp add: lk_def)
  from trans_run.more [OF trans_run.more [OF trans_run.more [OF trans_run.idle s] l] this] have r: "trans_run None [StartEvent 1] nd" by simp
  then show ?thesis using transition_newest_wins [of "[]" "[StartEvent 1]" "[]" nd] by auto
qed

section \<open>Completion\<close>

text \<open>
  The time of the timer that will call the callback: the time of the transition for the first callback and for the one that \<open>start\<close> queues, and the delay later
  once the first callback has set it.  The queue calls a timer when its time has come, with the time that has passed since.
\<close>

definition timer_time :: "'w transition \<Rightarrow> 'w callback \<Rightarrow> real" where
  "timer_time t c = (case c of Scheduled \<Rightarrow> tr_time t | Start s \<Rightarrow> st_delay s + tr_time t | Launch s e ws \<Rightarrow> tr_time t | Tick s ws \<Rightarrow> st_delay s + tr_time t)"

definition visit :: "nat \<Rightarrow> real \<Rightarrow> 'w lock \<Rightarrow> 'w node_state \<times> 'w trans_event list \<times> bool" where
  "visit tid now lk = (case transitions lk tid of
     None \<Rightarrow> (Some lk, [], True)
   | Some (t, c) \<Rightarrow> if now \<ge> timer_time t c then fire tid (now - timer_time t c) lk else (Some lk, [], False))"

text \<open>The visits of the timer of one transition, at the given times.\<close>

fun visits :: "nat \<Rightarrow> real list \<Rightarrow> 'w node_state \<Rightarrow> 'w node_state \<times> 'w trans_event list" where
  "visits tid [] nd = (nd, [])"
| "visits tid (n # ns) nd = (case nd of
     None \<Rightarrow> (None, [])
   | Some lk \<Rightarrow> (case visit tid n lk of (nd', evs, d) \<Rightarrow> let (nd2, evs2) = visits tid ns nd' in (nd2, evs @ evs2)))"

definition tween_calls :: "nat \<Rightarrow> (real \<Rightarrow> 'w) list \<Rightarrow> real \<Rightarrow> 'w trans_event list" where
  "tween_calls tid ws e = map (\<lambda>f. Tween tid (f e)) (rev ws)"

definition alone :: "nat \<Rightarrow> nat \<Rightarrow> 'w transition \<Rightarrow> 'w callback \<Rightarrow> 'w lock" where
  "alone act tid t c = \<lparr>active = act, count = 1, transitions = (\<lambda>_. None)(tid := Some (t, c))\<rparr>"

lemma visits_append:
  "visits tid (ms @ ns) nd = (case visits tid ms nd of (nd', evs) \<Rightarrow> case visits tid ns nd' of (nd2, evs2) \<Rightarrow> (nd2, evs @ evs2))"
proof (induction ms arbitrary: nd)
  case Nil
  then show ?case by (cases nd) (auto split: prod.splits)
next
  case (Cons m ms)
  show ?case
  proof (cases nd)
    case None
    then show ?thesis by (cases ns) auto
  next
    case (Some lk)
    then show ?thesis using Cons by (auto split: prod.splits)
  qed
qed

lemma visit_tick:
  assumes "0 < st_duration s" "st_delay s + tr_time t \<le> n" "x = n - (st_delay s + tr_time t)"
  shows "visit tid n (alone tid tid t (Tick s ws)) =
    (if st_duration s \<le> x then (None, tween_calls tid ws (st_ease s (x / st_duration s)) @ (if tr_event t then [EndEvent tid] else []) @ [Unlocked], True)
     else (Some (alone tid tid t (Tick s ws)), tween_calls tid ws (st_ease s (x / st_duration s)), False))"
  using assms by (simp add: visit_def timer_time_def fire_def alone_def tick_def tween_calls_def stop_def set_callback_def Let_def)

lemma visits_tick:
  assumes "0 < st_duration s" "a = st_delay s + tr_time t" "\<forall>n \<in> set ns. a \<le> n \<and> n < a + st_duration s" "a + st_duration s \<le> n0"
  shows "visits tid (ns @ [n0]) (Some (alone tid tid t (Tick s ws))) =
    (None, concat (map (\<lambda>n. tween_calls tid ws (st_ease s ((n - a) / st_duration s))) (ns @ [n0])) @ (if tr_event t then [EndEvent tid] else []) @ [Unlocked])"
  using assms(3)
proof (induction ns)
  case Nil
  then show ?case using assms(1,2,4) by (simp add: visit_tick)
next
  case (Cons n ns)
  then show ?case using assms(1,2) by (simp add: visit_tick)
qed

text \<open>Until its delay has passed a transition only exchanges its callback.\<close>

definition waiting :: "'w transition \<Rightarrow> 'w callback \<Rightarrow> bool" where
  "waiting t c \<longleftrightarrow> c = Scheduled \<or> c = Start \<lparr>st_ease = tr_ease t, st_duration = tr_duration t, st_delay = tr_delay t\<rparr>"

lemma visits_waiting:
  assumes "\<forall>b \<in> set bs. b < tr_delay t + tr_time t" "waiting t c"
  shows "\<exists>c'. waiting t c' \<and> visits tid bs (Some (alone 0 tid t c)) = (Some (alone 0 tid t c'), [])"
  using assms
proof (induction bs arbitrary: c)
  case (Cons b bs)
  have "\<exists>c'. waiting t c' \<and> visit tid b (alone 0 tid t c) = (Some (alone 0 tid t c'), [], False)"
    using Cons.prems by (auto simp: waiting_def visit_def timer_time_def fire_def first_callback_def alone_def set_callback_def Let_def)
  then show ?case using Cons.IH Cons.prems by fastforce
qed auto

lemma visit_starts:
  assumes "waiting t c" "0 \<le> tr_delay t" "tr_delay t + tr_time t \<le> n"
    and "ws = List.map_filter (\<lambda>(k, w). w) (d3_map_forEach (tr_tween t))"
  shows "visit tid n (alone 0 tid t c) =
    (Some (alone tid tid t (Launch \<lparr>st_ease = tr_ease t, st_duration = tr_duration t, st_delay = tr_delay t\<rparr> (n - (tr_delay t + tr_time t)) ws)),
     if tr_event t then [StartEvent tid] else [], False)"
  using assms
  by (auto simp: waiting_def visit_def timer_time_def fire_def first_callback_def start_def alone_def set_callback_def Let_def algebra_simps)


lemma cubicInOut_end: "\<forall>x \<ge> 1. d3_ease_cubicInOut x = 1"
  by (simp add: d3_ease_cubicInOut_def)

definition delayed :: "nat transition" where
  "delayed = (default_transition 10 d3_ease_cubicInOut)\<lparr>tr_delay := 100\<rparr>"


section \<open>Interrupting twice\<close>

text \<open>
  Interrupting twice.  When the active transition of a node is interrupted twice, or once more than there are new transitions, before its next tick, the next transition of the
  node is dropped without starting: its number is below the active number of the lock, which the interruptions have raised.
\<close>

theorem interrupt_drops_next:
  assumes "lock_ok lk" "Suc (active lk) = tid" "transitions lk tid = None"
    and "d3_transitionNode tid inherit (d3_selection_interrupt (d3_selection_interrupt (Some lk))) = Some lk'" "tr_delay inherit \<le> elapsed"
  shows "case fire tid elapsed lk' of (nd, evs, finished) \<Rightarrow> evs = [] \<and> finished \<and> (\<exists>lk2. nd = Some lk2 \<and> transitions lk2 tid = None)"
  using assms by (auto simp: d3_selection_interrupt_def d3_transitionNode_def fire_def first_callback_def start_def stop_def Let_def lock_ok_def)

theorem interrupt_drops_next_witness:
  "\<exists>lk'. d3_transitionNode 6 (default_transition 0 d3_ease_cubicInOut) (d3_selection_interrupt (d3_selection_interrupt
      (Some \<lparr>active = 5, count = 1, transitions = (\<lambda>_. None)(5 := Some (default_transition 0 d3_ease_cubicInOut :: nat transition, Scheduled))\<rparr>))) = Some lk' \<and>
    fst (snd (fire 6 0 lk')) = []"
proof -
  define lk where "lk = \<lparr>active = 5, count = 1, transitions = (\<lambda>_. None)(5 := Some (default_transition 0 d3_ease_cubicInOut :: nat transition, Scheduled))\<rparr>"
  obtain lk' where n: "d3_transitionNode 6 (default_transition 0 d3_ease_cubicInOut) (d3_selection_interrupt (d3_selection_interrupt (Some lk))) = Some lk'"
    using transitionNode_some by blast
  have "lock_ok lk" "Suc (active lk) = 6" "transitions lk 6 = None" "tr_delay (default_transition 0 d3_ease_cubicInOut :: nat transition) \<le> 0"
    by (auto simp: lk_def lock_ok_def started_def default_transition_def split: if_splits)
  from interrupt_drops_next [OF this(1-3) n this(4)] n show ?thesis unfolding lk_def [symmetric] by (auto split: prod.splits)
qed

end
