(* ===== verification/D3_Quadtree.thy ===== *)
theory D3_Quadtree
  imports JS_Prelude
begin

text \<open>
  The quadtree (\<open>d3.js\<close> lines 5452 to 5579): building the tree from data, adding a point, and visiting the
  nodes.

  A coordinate is a finite real or \<open>None\<close> for \<open>NaN\<close>; \<open>D3_QuadNumbers\<close> has the same over all numbers of the language, infinite ones included, and
  shows that both agree where no coordinate is infinite.  Insertion follows the recursion of the code, which need not
  end when a point lies outside the extent; \<open>None\<close> stands for not ending.
\<close>

section \<open>Nodes\<close>

record 'd qpoint =
  qp_data :: 'd
  qp_x :: real
  qp_y :: real

datatype 'd quad =
  Quad (q_leaf: bool) (q_point: "'d qpoint option") "'d quad option" "'d quad option" "'d quad option" "'d quad option"

definition d3_geom_quadtreeNode :: "'d quad" where
  "d3_geom_quadtreeNode = Quad True None None None None None"

fun q_node :: "'d quad \<Rightarrow> nat \<Rightarrow> 'd quad option" where
  "q_node (Quad l p a b c d) i = (if i = 0 then a else if i = 1 then b else if i = 2 then c else d)"

fun set_node :: "'d quad \<Rightarrow> nat \<Rightarrow> 'd quad \<Rightarrow> 'd quad" where
  "set_node (Quad l p a b c d) i n =
     (if i = 0 then Quad False p (Some n) b c d else if i = 1 then Quad False p a (Some n) c d
      else if i = 2 then Quad False p a b (Some n) d else Quad False p a b c (Some n))"

fun set_point :: "'d quad \<Rightarrow> 'd qpoint option \<Rightarrow> 'd quad" where
  "set_point (Quad l p a b c d) x = Quad l x a b c d"

record area =
  a_x1 :: real
  a_y1 :: real
  a_x2 :: real
  a_y2 :: real

section \<open>Insertion\<close>

definition quad_right :: "'d qpoint \<Rightarrow> area \<Rightarrow> bool" where
  "quad_right p r = (qp_x p \<ge> (a_x1 r + a_x2 r) / 2)"

definition quad_bottom :: "'d qpoint \<Rightarrow> area \<Rightarrow> bool" where
  "quad_bottom p r = (qp_y p \<ge> (a_y1 r + a_y2 r) / 2)"

definition quad_index :: "'d qpoint \<Rightarrow> area \<Rightarrow> nat" where
  "quad_index p r = (if quad_bottom p r then 2 else 0) + (if quad_right p r then 1 else 0)"

definition quad_area :: "'d qpoint \<Rightarrow> area \<Rightarrow> area" where
  "quad_area p r =
     (let sx = (a_x1 r + a_x2 r) / 2; sy = (a_y1 r + a_y2 r) / 2
      in \<lparr>a_x1 = (if quad_right p r then sx else a_x1 r), a_y1 = (if quad_bottom p r then sy else a_y1 r),
          a_x2 = (if quad_right p r then a_x2 r else sx), a_y2 = (if quad_bottom p r then a_y2 r else sy)\<rparr>)"

text \<open>The child a point goes to, an existing node or a new one.\<close>

definition quad_child :: "'d quad \<Rightarrow> 'd qpoint \<Rightarrow> area \<Rightarrow> 'd quad" where
  "quad_child n p r = (case q_node n (quad_index p r) of None \<Rightarrow> d3_geom_quadtreeNode | Some c \<Rightarrow> c)"

definition quad_close :: "'d qpoint \<Rightarrow> 'd qpoint \<Rightarrow> bool" where
  "quad_close p q = (\<bar>qp_x p - qp_x q\<bar> + \<bar>qp_y p - qp_y q\<bar> < 1 / 100)"

partial_function (option) quad_insert :: "'d quad \<Rightarrow> 'd qpoint \<Rightarrow> area \<Rightarrow> 'd quad option" where
  "quad_insert n d r =
     (if q_leaf n then
        (case q_point n of
           None \<Rightarrow> Some (set_point n (Some d))
         | Some p \<Rightarrow>
             if quad_close p d then
               Option.bind (quad_insert (quad_child n d r) d (quad_area d r)) (\<lambda>c. Some (set_node n (quad_index d r) c))
             else
               Option.bind (quad_insert (quad_child (set_point n None) p r) p (quad_area p r)) (\<lambda>c.
                 Option.bind
                   (quad_insert (quad_child (set_node (set_point n None) (quad_index p r) c) d r) d (quad_area d r))
                   (\<lambda>c'. Some (set_node (set_node (set_point n None) (quad_index p r) c) (quad_index d r) c'))))
      else Option.bind (quad_insert (quad_child n d r) d (quad_area d r)) (\<lambda>c. Some (set_node n (quad_index d r) c)))"

text \<open>A point with a coordinate that is not a number is ignored.\<close>

definition quad_add :: "'d quad option \<Rightarrow> 'd \<Rightarrow> real option \<Rightarrow> real option \<Rightarrow> area \<Rightarrow> 'd quad option" where
  "quad_add t d x y r = (case (x, y) of
     (Some x, Some y) \<Rightarrow> Option.bind t (\<lambda>n. quad_insert n \<lparr>qp_data = d, qp_x = x, qp_y = y\<rparr> r)
   | _ \<Rightarrow> t)"

section \<open>Building\<close>

record 'd quadtree =
  qt_x :: "'d \<Rightarrow> nat \<Rightarrow> real option"
  qt_y :: "'d \<Rightarrow> nat \<Rightarrow> real option"
  qt_extent :: "area option"

definition quadtree_extent :: "'d quadtree \<Rightarrow> area option \<Rightarrow> 'd quadtree" where
  "quadtree_extent qt x = qt\<lparr>qt_extent := x\<rparr>"

definition quadtree_size :: "'d quadtree \<Rightarrow> (real \<times> real) option \<Rightarrow> 'd quadtree" where
  "quadtree_size qt x = qt\<lparr>qt_extent := map_option (\<lambda>(w, h). \<lparr>a_x1 = 0, a_y1 = 0, a_x2 = w, a_y2 = h\<rparr>) x\<rparr>"

definition quadtree_size_get :: "'d quadtree \<Rightarrow> (real \<times> real) option" where
  "quadtree_size_get qt = map_option (\<lambda>r. (a_x2 r - a_x1 r, a_y2 r - a_y1 r)) (qt_extent qt)"

definition quadtree_set_x :: "'d quadtree \<Rightarrow> ('d \<Rightarrow> nat \<Rightarrow> real option) \<Rightarrow> 'd quadtree" where
  "quadtree_set_x qt f = qt\<lparr>qt_x := f\<rparr>"

definition quadtree_set_y :: "'d quadtree \<Rightarrow> ('d \<Rightarrow> nat \<Rightarrow> real option) \<Rightarrow> 'd quadtree" where
  "quadtree_set_y qt f = qt\<lparr>qt_y := f\<rparr>"

text \<open>The least and the greatest coordinate so far; the bounds start infinite, which is \<open>None\<close>.\<close>

definition bound_step :: "(real \<times> real) option \<Rightarrow> real option \<Rightarrow> (real \<times> real) option" where
  "bound_step b x = (case x of
     None \<Rightarrow> b
   | Some v \<Rightarrow> (case b of None \<Rightarrow> Some (v, v) | Some (lo, hi) \<Rightarrow> Some (if v < lo then v else lo, if v > hi then v else hi)))"

definition square_area :: "area \<Rightarrow> area" where
  "square_area r =
     (let dx = a_x2 r - a_x1 r; dy = a_y2 r - a_y1 r
      in if dx > dy then r\<lparr>a_y2 := a_y1 r + dx\<rparr> else r\<lparr>a_x2 := a_x1 r + dy\<rparr>)"

text \<open>
  The area of the root.  Without any number among the coordinates of one axis the bounds stay infinite; then no
  point is inserted, and the area does not matter.
\<close>

definition root_area :: "'d quadtree \<Rightarrow> (real option \<times> real option) list \<Rightarrow> area" where
  "root_area qt ps = square_area (case qt_extent qt of
     Some r \<Rightarrow> r
   | None \<Rightarrow>
       (case (foldl bound_step None (map fst ps), foldl bound_step None (map snd ps)) of
          (Some (x1, x2), Some (y1, y2)) \<Rightarrow> \<lparr>a_x1 = x1, a_y1 = y1, a_x2 = x2, a_y2 = y2\<rparr>
        | _ \<Rightarrow> \<lparr>a_x1 = 0, a_y1 = 0, a_x2 = 0, a_y2 = 0\<rparr>))"

definition quadtree_build :: "'d quadtree \<Rightarrow> 'd list \<Rightarrow> area \<times> 'd quad option" where
  "quadtree_build qt data =
     (let ps = map (\<lambda>(i, d). (qt_x qt d i, qt_y qt d i)) (enumerate 0 data); r = root_area qt ps
      in (r, foldl (\<lambda>t (d, x, y). quad_add t d x y r) (Some d3_geom_quadtreeNode) (zip data ps)))"

text \<open>
  The call \<open>d3.geom.quadtree(points)\<close> with the points' \<open>x\<close> and \<open>y\<close> properties, optionally with a width and a height or
  the two corners of the extent.
\<close>

datatype compat_args = Compat_Points | Compat_Size real real | Compat_Extent area

definition quadtree_compat :: "('d \<Rightarrow> real option) \<Rightarrow> ('d \<Rightarrow> real option) \<Rightarrow> 'd list \<Rightarrow> compat_args \<Rightarrow> area \<times> 'd quad option" where
  "quadtree_compat cx cy points args =
     quadtree_build \<lparr>qt_x = \<lambda>d i. cx d, qt_y = \<lambda>d i. cy d, qt_extent =
       (case args of Compat_Points \<Rightarrow> None | Compat_Size w h \<Rightarrow> Some \<lparr>a_x1 = 0, a_y1 = 0, a_x2 = w, a_y2 = h\<rparr> | Compat_Extent r \<Rightarrow> Some r)\<rparr> points"

section \<open>Visiting\<close>

text \<open>The nodes in the order of the calls of \<open>f\<close>; a true result skips the children.\<close>

fun d3_geom_quadtreeVisit :: "('d quad \<Rightarrow> area \<Rightarrow> bool) \<Rightarrow> 'd quad \<Rightarrow> area \<Rightarrow> ('d quad \<times> area) list" where
  "d3_geom_quadtreeVisit f (Quad l p a b c d) r =
     (let sx = (a_x1 r + a_x2 r) / 2; sy = (a_y1 r + a_y2 r) / 2
      in (Quad l p a b c d, r) #
         (if f (Quad l p a b c d) r then []
          else (case a of None \<Rightarrow> [] | Some n \<Rightarrow> d3_geom_quadtreeVisit f n (r\<lparr>a_x2 := sx, a_y2 := sy\<rparr>)) @
               (case b of None \<Rightarrow> [] | Some n \<Rightarrow> d3_geom_quadtreeVisit f n (r\<lparr>a_x1 := sx, a_y2 := sy\<rparr>)) @
               (case c of None \<Rightarrow> [] | Some n \<Rightarrow> d3_geom_quadtreeVisit f n (r\<lparr>a_y1 := sy, a_x2 := sx\<rparr>)) @
               (case d of None \<Rightarrow> [] | Some n \<Rightarrow> d3_geom_quadtreeVisit f n (r\<lparr>a_x1 := sx, a_y1 := sy\<rparr>))))"

section \<open>Well-formed trees\<close>

definition in_area :: "'d qpoint \<Rightarrow> area \<Rightarrow> bool" where
  "in_area p r = (a_x1 r \<le> qp_x p \<and> qp_x p \<le> a_x2 r \<and> a_y1 r \<le> qp_y p \<and> qp_y p \<le> a_y2 r)"

definition node_area :: "nat \<Rightarrow> area \<Rightarrow> area" where
  "node_area i r =
     (let sx = (a_x1 r + a_x2 r) / 2; sy = (a_y1 r + a_y2 r) / 2
      in if i = 0 then r\<lparr>a_x2 := sx, a_y2 := sy\<rparr> else if i = 1 then r\<lparr>a_x1 := sx, a_y2 := sy\<rparr>
         else if i = 2 then r\<lparr>a_y1 := sy, a_x2 := sx\<rparr> else r\<lparr>a_x1 := sx, a_y1 := sy\<rparr>)"

fun quad_pts :: "'d quad \<Rightarrow> 'd qpoint multiset" where
  "quad_pts (Quad l p a b c d) =
     (case p of None \<Rightarrow> {#} | Some x \<Rightarrow> {#x#}) + (case a of None \<Rightarrow> {#} | Some n \<Rightarrow> quad_pts n) +
     (case b of None \<Rightarrow> {#} | Some n \<Rightarrow> quad_pts n) + (case c of None \<Rightarrow> {#} | Some n \<Rightarrow> quad_pts n) +
     (case d of None \<Rightarrow> {#} | Some n \<Rightarrow> quad_pts n)"

text \<open>A leaf has no children, and every point lies in the area of its node.\<close>

fun quad_ok :: "'d quad \<Rightarrow> area \<Rightarrow> bool" where
  "quad_ok (Quad l p a b c d) r =
     ((l \<longrightarrow> a = None \<and> b = None \<and> c = None \<and> d = None) \<and> (case p of None \<Rightarrow> True | Some x \<Rightarrow> in_area x r) \<and>
      (case a of None \<Rightarrow> True | Some n \<Rightarrow> quad_ok n (node_area 0 r)) \<and> (case b of None \<Rightarrow> True | Some n \<Rightarrow> quad_ok n (node_area 1 r)) \<and>
      (case c of None \<Rightarrow> True | Some n \<Rightarrow> quad_ok n (node_area 2 r)) \<and> (case d of None \<Rightarrow> True | Some n \<Rightarrow> quad_ok n (node_area 3 r)))"

definition node_pts :: "'d quad option \<Rightarrow> 'd qpoint multiset" where
  "node_pts n = (case n of None \<Rightarrow> {#} | Some q \<Rightarrow> quad_pts q)"

lemma quad_index_lt: "quad_index p r < 4"
  by (simp add: quad_index_def)

lemma quad_area_eq: "quad_area p r = node_area (quad_index p r) r"
  by (cases r) (auto simp: quad_area_def node_area_def quad_index_def Let_def)

lemma in_area_child: "in_area p r \<Longrightarrow> in_area p (node_area (quad_index p r) r)"
  by (auto simp: in_area_def node_area_def quad_index_def quad_right_def quad_bottom_def Let_def)

lemma quad_new [simp]: "quad_ok d3_geom_quadtreeNode r" "quad_pts d3_geom_quadtreeNode = {#}"
  by (simp_all add: d3_geom_quadtreeNode_def)

lemma quad_ok_node: "quad_ok n r \<Longrightarrow> i < 4 \<Longrightarrow> q_node n i = Some c \<Longrightarrow> quad_ok c (node_area i r)"
  by (cases n) (auto simp: less_Suc_eq numeral_eq_Suc split: if_splits)

lemma quad_ok_set_node: "quad_ok n r \<Longrightarrow> i < 4 \<Longrightarrow> quad_ok c (node_area i r) \<Longrightarrow> quad_ok (set_node n i c) r"
  by (cases n) (auto simp: less_Suc_eq numeral_eq_Suc)

lemma quad_pts_set_node:
  "i < 4 \<Longrightarrow> quad_pts (set_node n i c) + node_pts (q_node n i) = quad_pts n + quad_pts c"
  by (cases n) (auto simp: less_Suc_eq numeral_eq_Suc node_pts_def ac_simps)

lemma quad_pts_child: "quad_pts (quad_child n p r) = node_pts (q_node n (quad_index p r))"
  by (auto simp: quad_child_def node_pts_def split: option.splits)

text \<open>Putting a child back that has gained one point.\<close>

lemma quad_put:
  assumes "quad_ok n r" "quad_ok c (quad_area p r)" "quad_pts c = add_mset p (quad_pts (quad_child n p r))"
  shows "quad_ok (set_node n (quad_index p r) c) r \<and> quad_pts (set_node n (quad_index p r) c) = add_mset p (quad_pts n)"
  using assms quad_ok_set_node [OF assms(1) quad_index_lt, of c p r]
    quad_pts_set_node [OF quad_index_lt, of n p r c] by (simp add: quad_area_eq quad_pts_child)

lemma quad_insert_new [simp]: "quad_insert d3_geom_quadtreeNode p r = Some (Quad True (Some p) None None None None)"
  by (subst quad_insert.simps) (simp add: d3_geom_quadtreeNode_def)

section \<open>Insertion ends\<close>

text \<open>\<open>narrow r k\<close> bounds the number of times the area can be halved before its points are close.\<close>

definition narrow :: "area \<Rightarrow> nat \<Rightarrow> bool" where
  "narrow r k = (a_x2 r - a_x1 r \<le> 2 ^ k / 400 \<and> a_y2 r - a_y1 r \<le> 2 ^ k / 400)"

lemma narrow_child: "narrow r (Suc k) \<Longrightarrow> narrow (quad_area p r) k"
  by (auto simp: narrow_def quad_area_def Let_def field_simps)

lemma narrow_close: "narrow r 0 \<Longrightarrow> in_area p r \<Longrightarrow> in_area q r \<Longrightarrow> quad_close p q"
  unfolding narrow_def in_area_def quad_close_def power_0 by linarith

lemma narrow_exists: obtains k where "narrow r k"
proof -
  define m where "m = max (a_x2 r - a_x1 r) (a_y2 r - a_y1 r)"
  obtain k where "m * 400 < 2 ^ k" using real_arch_pow [of 2 "m * 400"] by auto
  moreover have "a_x2 r - a_x1 r \<le> m" "a_y2 r - a_y1 r \<le> m" by (simp_all add: m_def)
  ultimately have "narrow r k" unfolding narrow_def by linarith
  then show thesis by (rule that)
qed

lemma quad_insert_leaf:
  "narrow r k \<Longrightarrow> quad_ok (Quad True p None None None None) r \<Longrightarrow> in_area d r \<Longrightarrow>
   \<exists>n. quad_insert (Quad True p None None None None) d r = Some n \<and> quad_ok n r \<and>
     quad_pts n = add_mset d (quad_pts (Quad True p None None None None))"
proof (induction k arbitrary: r p)
  case (0 r p)
  show ?case
  proof (cases p)
    case (Some x)
    then have "quad_close x d" using 0 narrow_close by auto
    moreover have "quad_child (Quad True p None None None None) d r = d3_geom_quadtreeNode" by (simp add: quad_child_def)
    moreover have "quad_ok (Quad True (Some d) None None None None) (quad_area d r)" using in_area_child [OF 0(3)] by (simp add: quad_area_eq)
    ultimately show ?thesis using quad_put [OF 0(2), of "Quad True (Some d) None None None None" d] Some
      by (subst quad_insert.simps) simp
  qed (use 0 in \<open>subst quad_insert.simps, simp\<close>)
next
  case (Suc k r p)
  show ?case
  proof (cases p)
    case (Some x)
    define n0 where "n0 = Quad True (None :: 'a qpoint option) None None None None"
    define c where "c = Quad True (Some x) None None None None"
    define n1 where "n1 = set_node n0 (quad_index x r) c"
    have ok0: "quad_ok n0 r" "quad_child n0 x r = d3_geom_quadtreeNode" by (simp_all add: n0_def quad_child_def)
    have fresh: "quad_ok (Quad True (Some y) None None None None) (quad_area y r)" if "in_area y r" for y :: "'a qpoint"
      using in_area_child [OF that] by (simp add: quad_area_eq)
    have x: "in_area x r" using Suc(3) Some by simp
    have n1: "quad_ok n1 r" "quad_pts n1 = {#x#}"
      using quad_put [OF ok0(1), of c x] fresh [OF x] ok0(2) by (auto simp: n1_def c_def n0_def)
    obtain p' where leaf: "quad_child n1 d r = Quad True p' None None None None"
      using quad_index_lt [of x r] quad_index_lt [of d r]
      by (auto simp: quad_child_def n1_def n0_def c_def d3_geom_quadtreeNode_def less_Suc_eq numeral_eq_Suc)
    have "quad_ok (quad_child n1 d r) (quad_area d r)"
      using quad_ok_node [OF n1(1) quad_index_lt, of d r] by (auto simp: quad_child_def quad_area_eq split: option.split)
    then obtain c' where c': "quad_insert (quad_child n1 d r) d (quad_area d r) = Some c'" "quad_ok c' (quad_area d r)"
        "quad_pts c' = add_mset d (quad_pts (quad_child n1 d r))"
      using Suc.IH [OF narrow_child [OF Suc(2), of d], of p'] in_area_child [OF Suc(4)] unfolding leaf quad_area_eq by blast
    show ?thesis
    proof (cases "quad_close x d")
      case True
      moreover have "quad_child (Quad True p None None None None) d r = d3_geom_quadtreeNode" by (simp add: quad_child_def)
      ultimately show ?thesis using quad_put [OF Suc(3), of "Quad True (Some d) None None None None" d] fresh [OF Suc(4)] Some
        by (subst quad_insert.simps) simp
    next
      case False
      have "quad_insert (Quad True p None None None None) d r = Some (set_node n1 (quad_index d r) c')"
        using False Some c'(1) ok0(2) by (subst quad_insert.simps) (simp add: n1_def c_def n0_def)
      then show ?thesis using quad_put [OF n1(1) c'(2,3)] n1(2) Some by simp
    qed
  qed (use Suc in \<open>subst quad_insert.simps, simp\<close>)
qed


lemma q_node_size: "q_node n i = Some c \<Longrightarrow> size c < size n"
  by (cases n) (auto split: if_splits)

lemma quad_insert_ends:
  "quad_ok n r \<Longrightarrow> in_area d r \<Longrightarrow>
   \<exists>n'. quad_insert n d r = Some n' \<and> quad_ok n' r \<and> quad_pts n' = add_mset d (quad_pts n)"
proof (induction "size n" arbitrary: n r rule: less_induct)
  case less
  show ?case
  proof (cases "q_leaf n")
    case True
    then obtain p where "n = Quad True p None None None None" using less(2) by (cases n) auto
    then show ?thesis using narrow_exists [of r] quad_insert_leaf [of r _ p d] less(2,3) by metis
  next
    case False
    have "in_area d (quad_area d r)" using in_area_child [OF less(3)] by (simp add: quad_area_eq)
    have "\<exists>c. quad_insert (quad_child n d r) d (quad_area d r) = Some c \<and> quad_ok c (quad_area d r) \<and>
        quad_pts c = add_mset d (quad_pts (quad_child n d r))"
    proof (cases "q_node n (quad_index d r)")
      case None
      then show ?thesis using \<open>in_area d (quad_area d r)\<close> by (simp add: quad_child_def)
    next
      case (Some m)
      then show ?thesis using less(1) [OF q_node_size [OF Some], of "quad_area d r"] \<open>in_area d (quad_area d r)\<close>
          quad_ok_node [OF less(2) quad_index_lt Some] by (simp add: quad_child_def quad_area_eq)
    qed
    then obtain c where c: "quad_insert (quad_child n d r) d (quad_area d r) = Some c" "quad_ok c (quad_area d r)"
        "quad_pts c = add_mset d (quad_pts (quad_child n d r))" by blast
    then have "quad_insert n d r = Some (set_node n (quad_index d r) c)" using False by (subst quad_insert.simps) simp
    then show ?thesis using quad_put [OF less(2) c(2,3)] by blast
  qed
qed

section \<open>Building a tree\<close>

text \<open>The points with two numeric coordinates, the ones a tree holds.\<close>

fun item_points :: "('d \<times> real option \<times> real option) list \<Rightarrow> 'd qpoint list" where
  "item_points [] = []"
| "item_points ((d, Some x, Some y) # items) = \<lparr>qp_data = d, qp_x = x, qp_y = y\<rparr> # item_points items"
| "item_points (_ # items) = item_points items"

lemma quad_add_skip [simp]: "quad_add t d None y r = t" "quad_add t d x None r = t"
  by (simp_all add: quad_add_def split: option.split)

lemma build_loop:
  "quad_ok n r \<Longrightarrow> \<forall>p \<in> set (item_points items). in_area p r \<Longrightarrow>
   \<exists>n'. foldl (\<lambda>t (d, x, y). quad_add t d x y r) (Some n) items = Some n' \<and> quad_ok n' r \<and>
     quad_pts n' = quad_pts n + mset (item_points items)"
proof (induction items arbitrary: n rule: item_points.induct)
  case (2 d x y items)
  then obtain n1 where n1: "quad_insert n \<lparr>qp_data = d, qp_x = x, qp_y = y\<rparr> r = Some n1" "quad_ok n1 r"
      "quad_pts n1 = add_mset \<lparr>qp_data = d, qp_x = x, qp_y = y\<rparr> (quad_pts n)"
    using quad_insert_ends [of n r "\<lparr>qp_data = d, qp_x = x, qp_y = y\<rparr>"] by auto
  show ?case using "2.IH" [OF n1(2)] "2.prems"(2) n1 by (simp add: quad_add_def)
qed simp_all

lemma bound_steps:
  "foldl bound_step b xs = Some (lo, hi) \<Longrightarrow>
   (\<forall>v. Some v \<in> set xs \<longrightarrow> lo \<le> v \<and> v \<le> hi) \<and> (\<forall>lo0 hi0. b = Some (lo0, hi0) \<longrightarrow> lo \<le> lo0 \<and> hi0 \<le> hi)"
proof (induction xs arbitrary: b)
  case (Cons x xs)
  then have IH: "(\<forall>v. Some v \<in> set xs \<longrightarrow> lo \<le> v \<and> v \<le> hi) \<and> (\<forall>lo0 hi0. bound_step b x = Some (lo0, hi0) \<longrightarrow> lo \<le> lo0 \<and> hi0 \<le> hi)"
    by simp
  show ?case
  proof (cases x)
    case None
    then show ?thesis using IH by (simp add: bound_step_def)
  next
    case (Some v)
    then show ?thesis using IH by (cases b) (force simp: bound_step_def split: if_splits)+
  qed
qed simp

lemma bound_steps_Some: "Some v \<in> set xs \<or> b \<noteq> None \<Longrightarrow> foldl bound_step b xs \<noteq> None"
proof (induction xs arbitrary: b)
  case (Cons x xs)
  then have "Some v \<in> set xs \<or> bound_step b x \<noteq> None" by (auto simp: bound_step_def split: option.splits)
  then show ?case using Cons.IH by simp
qed auto

lemma item_points_mem:
  "p \<in> set (item_points items) \<Longrightarrow> Some (qp_x p) \<in> fst ` snd ` set items \<and> Some (qp_y p) \<in> snd ` snd ` set items"
  by (induction items rule: item_points.induct) force+

lemma square_area_mono: "in_area p r \<Longrightarrow> in_area p (square_area r)"
  by (auto simp: in_area_def square_area_def Let_def)

lemma root_area_holds:
  assumes "qt_extent qt = None" "p \<in> set (item_points items)"
  shows "in_area p (root_area qt (map snd items))"
proof -
  let ?xs = "map fst (map snd items)" and ?ys = "map snd (map snd items)"
  have m: "Some (qp_x p) \<in> set ?xs" "Some (qp_y p) \<in> set ?ys" using item_points_mem [OF assms(2)] by (simp_all only: set_map)
  obtain x1 x2 y1 y2 where b: "foldl bound_step None ?xs = Some (x1, x2)" "foldl bound_step None ?ys = Some (y1, y2)"
    using bound_steps_Some [of _ ?xs None] bound_steps_Some [of _ ?ys None] m by (metis not_None_eq surj_pair)
  have "in_area p \<lparr>a_x1 = x1, a_y1 = y1, a_x2 = x2, a_y2 = y2\<rparr>"
    using bound_steps [OF b(1)] bound_steps [OF b(2)] m by (auto simp: in_area_def)
  then show ?thesis using b by (simp add: root_area_def assms(1) square_area_mono)
qed

section \<open>Visiting a tree\<close>

lemma visit_points:
  "mset (concat (map (\<lambda>(n, r). case q_point n of None \<Rightarrow> [] | Some p \<Rightarrow> [p]) (d3_geom_quadtreeVisit (\<lambda>n r. False) n r))) = quad_pts n"
proof (induction n arbitrary: r)
  case (Quad l p a b c d)
  let ?f = "\<lambda>(n, r). case q_point n of None \<Rightarrow> [] | Some p \<Rightarrow> [p]"
  let ?v = "\<lambda>n s. case n of None \<Rightarrow> [] | Some m \<Rightarrow> d3_geom_quadtreeVisit (\<lambda>n r. False) m s"
  have "mset (concat (map ?f (?v a s))) = node_pts a" "mset (concat (map ?f (?v b s))) = node_pts b"
    "mset (concat (map ?f (?v c s))) = node_pts c" "mset (concat (map ?f (?v d s))) = node_pts d" for s
    using Quad by (auto simp: node_pts_def split: option.split)
  then show ?case by (simp add: Let_def node_pts_def split: option.split)
qed

lemma visit_areas:
  "quad_ok n r \<Longrightarrow> (m, s) \<in> set (d3_geom_quadtreeVisit f n r) \<Longrightarrow> q_point m = Some p \<Longrightarrow> in_area p s"
proof (induction n arbitrary: r)
  case (Quad l p' a b c d)
  let ?v = "\<lambda>n s. case n of None \<Rightarrow> [] | Some m \<Rightarrow> d3_geom_quadtreeVisit f m s"
  have "set (d3_geom_quadtreeVisit f (Quad l p' a b c d) r) \<subseteq> {(Quad l p' a b c d, r)} \<union>
      set (?v a (node_area 0 r)) \<union> set (?v b (node_area 1 r)) \<union> set (?v c (node_area 2 r)) \<union> set (?v d (node_area 3 r))"
    by (simp add: Let_def node_area_def) blast
  then consider "(m, s) = (Quad l p' a b c d, r)" | "(m, s) \<in> set (?v a (node_area 0 r))" | "(m, s) \<in> set (?v b (node_area 1 r))"
    | "(m, s) \<in> set (?v c (node_area 2 r))" | "(m, s) \<in> set (?v d (node_area 3 r))"
    using Quad(6) by blast
  then show ?case
  proof cases
    case 1
    then show ?thesis using Quad(5,7) by simp
  next
    case 2
    then obtain n where "a = Some n" "(m, s) \<in> set (d3_geom_quadtreeVisit f n (node_area 0 r))" by (cases a) auto
    then show ?thesis using Quad(1) [of n "node_area 0 r"] Quad(5,7) by simp
  next
    case 3
    then obtain n where "b = Some n" "(m, s) \<in> set (d3_geom_quadtreeVisit f n (node_area 1 r))" by (cases b) auto
    then show ?thesis using Quad(2) [of n "node_area 1 r"] Quad(5,7) by simp
  next
    case 4
    then obtain n where "c = Some n" "(m, s) \<in> set (d3_geom_quadtreeVisit f n (node_area 2 r))" by (cases c) auto
    then show ?thesis using Quad(3) [of n "node_area 2 r"] Quad(5,7) by simp
  next
    case 5
    then obtain n where "d = Some n" "(m, s) \<in> set (d3_geom_quadtreeVisit f n (node_area 3 r))" by (cases d) auto
    then show ?thesis using Quad(4) [of n "node_area 3 r"] Quad(5,7) by simp
  qed
qed

definition build_items :: "'d quadtree \<Rightarrow> 'd list \<Rightarrow> ('d \<times> real option \<times> real option) list" where
  "build_items qt data = map (\<lambda>(i, d). (d, qt_x qt d i, qt_y qt d i)) (enumerate 0 data)"

definition visited_points :: "('d quad \<times> area) list \<Rightarrow> 'd qpoint list" where
  "visited_points vs = concat (map (\<lambda>(n, r). case q_point n of None \<Rightarrow> [] | Some p \<Rightarrow> [p]) vs)"

lemma build_items_zip:
  "zip data (map (\<lambda>(i, d). (qt_x qt d i, qt_y qt d i)) (enumerate k data)) = map (\<lambda>(i, d). (d, qt_x qt d i, qt_y qt d i)) (enumerate k data)"
  by (induction data arbitrary: k) auto

lemma build_items_snd: "map (\<lambda>(i, d). (qt_x qt d i, qt_y qt d i)) (enumerate 0 data) = map snd (build_items qt data)"
  by (simp add: build_items_def case_prod_beta)

lemma build_items_zip': "zip data (map snd (build_items qt data)) = build_items qt data"
  by (simp only: build_items_snd [symmetric] build_items_zip) (simp only: build_items_def)

section \<open>Points outside an explicit extent\<close>

definition beyond :: "'d qpoint \<Rightarrow> area \<Rightarrow> bool" where
  "beyond p r = (a_x1 r \<le> a_x2 r \<and> a_y1 r \<le> a_y2 r \<and> a_x2 r < qp_x p \<and> a_y2 r < qp_y p)"

lemma beyond_child: "beyond p r \<Longrightarrow> quad_index p r = 3 \<and> beyond q (quad_area p r) = beyond q r" if "beyond q r"
  using that by (auto simp: beyond_def quad_index_def quad_right_def quad_bottom_def quad_area_def Let_def)

text \<open>A result of an insertion: a new node becomes a leaf, and two points beyond the area give no result.\<close>

definition insert_result :: "'d quad \<Rightarrow> 'd qpoint \<Rightarrow> area \<Rightarrow> 'd quad \<Rightarrow> bool" where
  "insert_result n d r n' = ((n = d3_geom_quadtreeNode \<longrightarrow> n' = Quad True (Some d) None None None None) \<and>
     \<not> (\<exists>p. n = Quad True (Some p) None None None None \<and> \<not> quad_close p d \<and> beyond p r \<and> beyond d r))"

lemma quad_insert_stuck:
  assumes "quad_insert n d r = Some n'"
  shows "insert_result n d r n'"
proof (rule quad_insert.raw_induct [where P = insert_result, OF _ assms])
  fix ins :: "'a quad \<Rightarrow> 'a qpoint \<Rightarrow> area \<Rightarrow> 'a quad option" and n :: "'a quad" and d :: "'a qpoint" and r :: area and n' :: "'a quad"
  assume 1: "\<And>n d r n'. ins n d r = Some n' \<Longrightarrow> insert_result n d r n'"
    "(if q_leaf n then
        (case q_point n of
           None \<Rightarrow> Some (set_point n (Some d))
         | Some p \<Rightarrow>
             if quad_close p d then
               Option.bind (ins (quad_child n d r) d (quad_area d r)) (\<lambda>c. Some (set_node n (quad_index d r) c))
             else
               Option.bind (ins (quad_child (set_point n None) p r) p (quad_area p r)) (\<lambda>c.
                 Option.bind
                   (ins (quad_child (set_node (set_point n None) (quad_index p r) c) d r) d (quad_area d r))
                   (\<lambda>c'. Some (set_node (set_node (set_point n None) (quad_index p r) c) (quad_index d r) c'))))
      else Option.bind (ins (quad_child n d r) d (quad_area d r)) (\<lambda>c. Some (set_node n (quad_index d r) c))) = Some n'"
  have "False" if "n = Quad True (Some p) None None None None" "\<not> quad_close p d" "beyond p r" "beyond d r" for p
  proof -
    note a = that
    have i: "quad_index p r = 3" "quad_index d r = 3" "beyond p (quad_area d r)" "beyond d (quad_area d r)"
      using beyond_child that(3,4) by blast+
    obtain c c' where c: "ins d3_geom_quadtreeNode p (quad_area p r) = Some c"
        "ins (quad_child (set_node (set_point n None) 3 c) d r) d (quad_area d r) = Some c'"
      using 1(2) unfolding a(1) using a(2) i by (auto simp: quad_child_def bind_eq_Some_conv)
    have "c = Quad True (Some p) None None None None" using 1(1) [OF c(1)] by (simp add: insert_result_def)
    then have "quad_child (set_node (set_point n None) 3 c) d r = Quad True (Some p) None None None None"
      using a(1) i(2) by (simp add: quad_child_def)
    then show False using 1(1) [OF c(2)] a(2) i(3,4) by (auto simp: insert_result_def)
  qed
  moreover have "n' = Quad True (Some d) None None None None" if "n = d3_geom_quadtreeNode"
    using 1(2) that by (simp add: d3_geom_quadtreeNode_def)
  ultimately show "insert_result n d r n'" unfolding insert_result_def by blast
qed



end
