(* ===== verification/D3_Force.thy ===== *)
theory D3_Force
  imports D3_Quadtree
begin

text \<open>
  The force layout (\<open>d3.js\<close> lines 6110 to 6359): starting and cooling, relaxing links, gravity, and charges accumulated in a quadtree.

  A node is known by its index.  Positions are finite reals; the random source is a parameter, an infinite
  sequence with the number of values used so far.  A quotient by a total charge of zero, which is no number, is \<open>None\<close>.
\<close>

section \<open>State\<close>

record fnode =
  n_x :: real
  n_y :: real
  n_px :: real
  n_py :: real
  n_weight :: nat
  n_fixed :: nat

record flink =
  l_source :: nat
  l_target :: nat

datatype fevent = ForceStart real | ForceTick real | ForceEnd

record force =
  f_nodes :: "fnode list"
  f_links :: "flink list"
  f_distances :: "real list"
  f_strengths :: "real list"
  f_charges :: "real list"
  f_charging :: bool
  f_size :: "real \<times> real"
  f_alpha :: real
  f_friction :: real
  f_gravity :: real
  f_theta2 :: real
  f_chargeDistance2 :: "real option"
  f_random :: nat
  f_events :: "fevent list"
  f_timers :: nat

section \<open>Charges\<close>

text \<open>A quad with its total charge and the centre of its charge.\<close>

datatype fquad =
  FQuad (fq_leaf: bool) (fq_point: "nat option") (fq_pointCharge: real) (fq_charge: real) (fq_centre: "(real \<times> real) option")
    "fquad option" "fquad option" "fquad option" "fquad option"

type_synonym places = "(nat \<Rightarrow> real \<times> real) \<times> nat"

text \<open>
  The centre of a quad: a child without a centre adds no number, and then the quad has none, as it has none when its charge is zero.
\<close>

definition add_child :: "fquad option \<Rightarrow> real \<times> (real \<times> real) option \<Rightarrow> real \<times> (real \<times> real) option" where
  "add_child c s = (case c of
     None \<Rightarrow> s
   | Some q \<Rightarrow> (fst s + fq_charge q, (case (snd s, fq_centre q) of
       (Some (sx, sy), Some (cx, cy)) \<Rightarrow> Some (sx + fq_charge q * cx, sy + fq_charge q * cy) | _ \<Rightarrow> None)))"

definition centre_of :: "real \<times> (real \<times> real) option \<Rightarrow> (real \<times> real) option" where
  "centre_of s = (case snd s of None \<Rightarrow> None | Some (sx, sy) \<Rightarrow> if fst s = 0 then None else Some (sx / fst s, sy / fst s))"

text \<open>The point of a quad that has children is moved at random first.\<close>

definition shake :: "(nat \<Rightarrow> real) \<Rightarrow> bool \<Rightarrow> nat \<Rightarrow> places \<Rightarrow> places" where
  "shake rnd leaf i st = (if leaf then st else
     ((fst st)(i := (fst (fst st i) + (rnd (snd st) - 1 / 2), snd (fst st i) + (rnd (Suc (snd st)) - 1 / 2))), Suc (Suc (snd st))))"

fun d3_layout_forceAccumulate :: "(nat \<Rightarrow> real) \<Rightarrow> real \<Rightarrow> real list \<Rightarrow> nat quad \<Rightarrow> places \<Rightarrow> fquad \<times> places"
  and accumulate_child :: "(nat \<Rightarrow> real) \<Rightarrow> real \<Rightarrow> real list \<Rightarrow> bool \<Rightarrow> nat quad option \<Rightarrow> places \<Rightarrow> fquad option \<times> places" where
  "d3_layout_forceAccumulate rnd alpha charges (Quad leaf p a b c d) st =
     (let (a', st1) = accumulate_child rnd alpha charges leaf a st;
          (b', st2) = accumulate_child rnd alpha charges leaf b st1;
          (c', st3) = accumulate_child rnd alpha charges leaf c st2;
          (d', st4) = accumulate_child rnd alpha charges leaf d st3;
          tot = add_child d' (add_child c' (add_child b' (add_child a' (0, Some (0, 0)))))
      in case p of
           None \<Rightarrow> (FQuad leaf None 0 (fst tot) (centre_of tot) a' b' c' d', st4)
         | Some pt \<Rightarrow>
             (let i = qp_data pt; st5 = shake rnd leaf i st4; k = alpha * charges ! i; (x, y) = fst st5 i;
                  tot' = (fst tot + k, map_option (\<lambda>(sx, sy). (sx + k * x, sy + k * y)) (snd tot))
              in (FQuad leaf (Some i) k (fst tot') (centre_of tot') a' b' c' d', st5)))"
| "accumulate_child rnd alpha charges leaf None st = (None, st)"
| "accumulate_child rnd alpha charges leaf (Some q) st =
     (if leaf then (None, st) else let (q', st') = d3_layout_forceAccumulate rnd alpha charges q st in (Some q', st'))"

text \<open>
  One step of the visit for a node at \<open>x\<close>, \<open>y\<close>: the new previous position of the node, and whether the children are skipped.  With \<open>theta\<close> zero the
  quotient is infinite or no number, and not less than the distance.
\<close>

definition repulse :: "real \<Rightarrow> real option \<Rightarrow> nat \<Rightarrow> real \<times> real \<Rightarrow> fquad \<Rightarrow> real \<Rightarrow> real \<times> real \<Rightarrow> bool \<times> real \<times> real" where
  "repulse theta2 cd2 i pos q dw p =
     (if fq_point q \<noteq> Some i then
        (case fq_centre q of
           None \<Rightarrow> (fq_charge q = 0, p)
         | Some (cx, cy) \<Rightarrow>
             (let dx = cx - fst pos; dy = cy - snd pos; dn = dx * dx + dy * dy;
                  near = (case cd2 of None \<Rightarrow> True | Some m \<Rightarrow> dn < m)
              in if theta2 \<noteq> 0 \<and> dw * dw / theta2 < dn then
                   (True, if near then (fst p - dx * (fq_charge q / dn), snd p - dy * (fq_charge q / dn)) else p)
                 else (fq_charge q = 0,
                   if fq_point q \<noteq> None \<and> dn \<noteq> 0 \<and> near then (fst p - dx * (fq_pointCharge q / dn), snd p - dy * (fq_pointCharge q / dn)) else p)))
      else (fq_charge q = 0, p))"

fun repulse_visit :: "real \<Rightarrow> real option \<Rightarrow> nat \<Rightarrow> real \<times> real \<Rightarrow> fquad \<Rightarrow> area \<Rightarrow> real \<times> real \<Rightarrow> real \<times> real" where
  "repulse_visit theta2 cd2 i pos (FQuad l q pc ch ct a b c d) r p =
     (let (skip, p1) = repulse theta2 cd2 i pos (FQuad l q pc ch ct a b c d) (a_x2 r - a_x1 r) p
      in if skip then p1
         else let sx = (a_x1 r + a_x2 r) / 2; sy = (a_y1 r + a_y2 r) / 2;
                  p2 = (case a of None \<Rightarrow> p1 | Some n \<Rightarrow> repulse_visit theta2 cd2 i pos n (r\<lparr>a_x2 := sx, a_y2 := sy\<rparr>) p1);
                  p3 = (case b of None \<Rightarrow> p2 | Some n \<Rightarrow> repulse_visit theta2 cd2 i pos n (r\<lparr>a_x1 := sx, a_y2 := sy\<rparr>) p2);
                  p4 = (case c of None \<Rightarrow> p3 | Some n \<Rightarrow> repulse_visit theta2 cd2 i pos n (r\<lparr>a_y1 := sy, a_x2 := sx\<rparr>) p3)
              in (case d of None \<Rightarrow> p4 | Some n \<Rightarrow> repulse_visit theta2 cd2 i pos n (r\<lparr>a_x1 := sx, a_y1 := sy\<rparr>) p4))"

section \<open>A tick\<close>

definition relax :: "real \<Rightarrow> real \<Rightarrow> real \<Rightarrow> flink \<Rightarrow> fnode list \<Rightarrow> fnode list" where
  "relax alpha strength dst lk nodes =
     (let s = nodes ! l_source lk; t = nodes ! l_target lk; x = n_x t - n_x s; y = n_y t - n_y s; l2 = x * x + y * y
      in if l2 \<noteq> 0 then
           let l = alpha * strength * (sqrt l2 - dst) / sqrt l2;
               k = real (n_weight s) / real (n_weight t + n_weight s); k' = 1 - k;
               t' = t\<lparr>n_x := n_x t - x * l * k, n_y := n_y t - y * l * k\<rparr>;
               s' = s\<lparr>n_x := n_x s + x * l * k', n_y := n_y s + y * l * k'\<rparr>
           in nodes[l_target lk := t', l_source lk := s']
         else nodes)"

fun relax_all :: "real \<Rightarrow> (flink \<times> real \<times> real) list \<Rightarrow> fnode list \<Rightarrow> fnode list" where
  "relax_all alpha [] nodes = nodes"
| "relax_all alpha ((lk, strength, dst) # ls) nodes = relax_all alpha ls (relax alpha strength dst lk nodes)"

definition gravitate :: "real \<Rightarrow> real \<times> real \<Rightarrow> fnode list \<Rightarrow> fnode list" where
  "gravitate k sz nodes =
     (if k \<noteq> 0 then map (\<lambda>n. n\<lparr>n_x := n_x n + (fst sz / 2 - n_x n) * k, n_y := n_y n + (snd sz / 2 - n_y n) * k\<rparr>) nodes else nodes)"

definition set_places :: "(nat \<Rightarrow> real \<times> real) \<Rightarrow> fnode list \<Rightarrow> fnode list" where
  "set_places f nodes = map (\<lambda>(i, n). n\<lparr>n_x := fst (f i), n_y := snd (f i)\<rparr>) (enumerate 0 nodes)"

text \<open>The charges: the quadtree of the nodes, the accumulated charges, and a visit for every node that is not fixed.\<close>

definition repel :: "(nat \<Rightarrow> real) \<Rightarrow> force \<Rightarrow> fnode list \<Rightarrow> (fnode list \<times> nat) option" where
  "repel rnd f nodes =
     (let (r, t) = quadtree_compat (\<lambda>i. Some (n_x (nodes ! i))) (\<lambda>i. Some (n_y (nodes ! i))) [0..<length nodes] Compat_Points
      in map_option (\<lambda>n.
           let (q, places, k) = d3_layout_forceAccumulate rnd (f_alpha f) (f_charges f) n (\<lambda>i. (n_x (nodes ! i), n_y (nodes ! i)), f_random f);
               nodes1 = set_places places nodes
           in (map (\<lambda>(i, nd). if n_fixed nd \<noteq> 0 then nd
                 else let (px, py) = repulse_visit (f_theta2 f) (f_chargeDistance2 f) i (n_x nd, n_y nd) q r (n_px nd, n_py nd)
                      in nd\<lparr>n_px := px, n_py := py\<rparr>) (enumerate 0 nodes1), k)) t)"

definition integrate :: "real \<Rightarrow> fnode \<Rightarrow> fnode" where
  "integrate friction n =
     (if n_fixed n \<noteq> 0 then n\<lparr>n_x := n_px n, n_y := n_py n\<rparr>
      else n\<lparr>n_x := n_x n - (n_px n - n_x n) * friction, n_px := n_x n,
             n_y := n_y n - (n_py n - n_y n) * friction, n_py := n_y n\<rparr>)"

text \<open>A true result ends the timer.\<close>

definition force_tick :: "(nat \<Rightarrow> real) \<Rightarrow> force \<Rightarrow> (bool \<times> force) option" where
  "force_tick rnd f =
     (let a = f_alpha f * (99 / 100)
      in if a < 5 / 1000 then Some (True, f\<lparr>f_alpha := 0, f_events := f_events f @ [ForceEnd]\<rparr>)
         else
           let f1 = f\<lparr>f_alpha := a\<rparr>;
               nodes1 = relax_all a (zip (f_links f) (zip (f_strengths f) (f_distances f))) (f_nodes f);
               nodes2 = gravitate (a * f_gravity f) (f_size f) nodes1
           in map_option (\<lambda>(nodes3, k). (False, f1\<lparr>f_nodes := map (integrate (f_friction f)) nodes3, f_random := k,
                  f_events := f_events f @ [ForceTick a]\<rparr>))
                (if f_charging f then repel rnd f1 nodes2 else Some (nodes2, f_random f)))"

section \<open>Running\<close>

text \<open>\<open>f_timers\<close> counts the timers that call \<open>force.tick\<close>.\<close>

definition force_alpha :: "real \<Rightarrow> force \<Rightarrow> force" where
  "force_alpha x f =
     (if f_alpha f \<noteq> 0 then f\<lparr>f_alpha := (if x > 0 then x else 0)\<rparr>
      else if x > 0 then f\<lparr>f_alpha := x, f_events := f_events f @ [ForceStart x], f_timers := Suc (f_timers f)\<rparr>
      else f)"

definition force_resume :: "force \<Rightarrow> force" where
  "force_resume = force_alpha (1 / 10)"

definition force_stop :: "force \<Rightarrow> force" where
  "force_stop = force_alpha 0"

text \<open>Before the first start the coordinates of a node may be missing.\<close>

record inode =
  i_x :: "real option"
  i_y :: "real option"
  i_px :: "real option"
  i_py :: "real option"
  i_fixed :: nat

text \<open>
  A missing coordinate is taken from a neighbour that has one.  The lists of neighbours stay empty, though: inside \<open>position\<close> the variable \<open>m\<close>
  that bounds the loop over the links is the local one, which is \<open>undefined\<close> there.
\<close>

definition neighbors :: "nat \<Rightarrow> nat list list" where
  "neighbors n = replicate n []"

definition position :: "(nat \<Rightarrow> real) \<Rightarrow> nat \<Rightarrow> (inode \<Rightarrow> real option) \<Rightarrow> real \<Rightarrow> inode list \<Rightarrow> nat \<Rightarrow> real \<times> nat" where
  "position rnd i dmn sz nodes k =
     (case List.find (\<lambda>j. dmn (nodes ! j) \<noteq> None) (neighbors (length nodes) ! i) of
        Some j \<Rightarrow> (the (dmn (nodes ! j)), k)
      | None \<Rightarrow> (rnd k * sz, Suc k))"

definition place_node :: "(nat \<Rightarrow> real) \<Rightarrow> real \<times> real \<Rightarrow> nat \<Rightarrow> inode list \<times> nat \<Rightarrow> inode list \<times> nat" where
  "place_node rnd sz i st =
     (let (nodes, k) = st; nd = nodes ! i;
          (x, k1) = (case i_x nd of Some x \<Rightarrow> (x, k) | None \<Rightarrow> position rnd i i_x (fst sz) nodes k);
          (y, k2) = (case i_y nd of Some y \<Rightarrow> (y, k1) | None \<Rightarrow> position rnd i i_y (snd sz) nodes k1)
      in (nodes[i := nd\<lparr>i_x := Some x, i_y := Some y, i_px := Some (case i_px nd of Some p \<Rightarrow> p | None \<Rightarrow> x),
            i_py := Some (case i_py nd of Some p \<Rightarrow> p | None \<Rightarrow> y)\<rparr>], k2))"

definition link_weight :: "flink list \<Rightarrow> nat \<Rightarrow> nat" where
  "link_weight links i = length (filter (\<lambda>l. l_source l = i) links) + length (filter (\<lambda>l. l_target l = i) links)"

definition force_start :: "(nat \<Rightarrow> real) \<Rightarrow> inode list \<Rightarrow> (flink \<Rightarrow> nat \<Rightarrow> real) \<Rightarrow> (flink \<Rightarrow> nat \<Rightarrow> real) \<Rightarrow> (nat \<Rightarrow> real) \<Rightarrow> force \<Rightarrow> force" where
  "force_start rnd nodes linkDistance linkStrength charge f =
     (let (placed, k) = fold (place_node rnd (f_size f)) [0..<length nodes] (nodes, f_random f);
          links = f_links f
      in force_resume (f\<lparr>f_nodes := map (\<lambda>(i, nd). \<lparr>n_x = the (i_x nd), n_y = the (i_y nd), n_px = the (i_px nd), n_py = the (i_py nd),
             n_weight = link_weight links i, n_fixed = i_fixed nd\<rparr>) (enumerate 0 placed),
           f_distances := map (\<lambda>(i, l). linkDistance l i) (enumerate 0 links), f_strengths := map (\<lambda>(i, l). linkStrength l i) (enumerate 0 links),
           f_charges := map charge [0..<length nodes], f_random := k\<rparr>))"

text \<open>
  The settings; the nodes, \<open>linkDistance\<close>, \<open>linkStrength\<close> and \<open>charge\<close> are arguments of \<open>force_start\<close>, the functions as such and a number as the
  constant function of it.
\<close>

definition force_links :: "flink list \<Rightarrow> force \<Rightarrow> force" where
  "force_links x f = f\<lparr>f_links := x\<rparr>"

definition force_size :: "real \<times> real \<Rightarrow> force \<Rightarrow> force" where
  "force_size x f = f\<lparr>f_size := x\<rparr>"

definition force_friction :: "real \<Rightarrow> force \<Rightarrow> force" where
  "force_friction x f = f\<lparr>f_friction := x\<rparr>"

definition force_chargeDistance :: "real \<Rightarrow> force \<Rightarrow> force" where
  "force_chargeDistance x f = f\<lparr>f_chargeDistance2 := Some (x * x)\<rparr>"

definition force_gravity :: "real \<Rightarrow> force \<Rightarrow> force" where
  "force_gravity x f = f\<lparr>f_gravity := x\<rparr>"

definition force_theta :: "real \<Rightarrow> force \<Rightarrow> force" where
  "force_theta x f = f\<lparr>f_theta2 := x * x\<rparr>"

text \<open>Dragging moves the previous position of a node, which is where a fixed node goes, and keeps the layout warm.\<close>

definition dragmove :: "nat \<Rightarrow> real \<times> real \<Rightarrow> force \<Rightarrow> force" where
  "dragmove i e f = force_resume (f\<lparr>f_nodes := (f_nodes f)[i := (f_nodes f ! i)\<lparr>n_px := fst e, n_py := snd e\<rparr>]\<rparr>)"

text \<open>The timer calls \<open>force.tick\<close> until it returns true.\<close>

fun force_run :: "(nat \<Rightarrow> real) \<Rightarrow> nat \<Rightarrow> force \<Rightarrow> force option" where
  "force_run rnd 0 f = None"
| "force_run rnd (Suc n) f = (case force_tick rnd f of
     None \<Rightarrow> None
   | Some (b, f') \<Rightarrow> if b then Some (f'\<lparr>f_timers := f_timers f' - 1\<rparr>) else force_run rnd n f')"

text \<open>The bits of \<open>fixed\<close> that dragging and hovering set and clear.\<close>

definition d3_layout_forceDragstart :: "fnode \<Rightarrow> fnode" where
  "d3_layout_forceDragstart d = d\<lparr>n_fixed := or (n_fixed d) 2\<rparr>"

definition d3_layout_forceDragend :: "fnode \<Rightarrow> fnode" where
  "d3_layout_forceDragend d = d\<lparr>n_fixed := n_fixed d - and (n_fixed d) 6\<rparr>"

definition d3_layout_forceMouseover :: "fnode \<Rightarrow> fnode" where
  "d3_layout_forceMouseover d = d\<lparr>n_fixed := or (n_fixed d) 4, n_px := n_x d, n_py := n_y d\<rparr>"

definition d3_layout_forceMouseout :: "fnode \<Rightarrow> fnode" where
  "d3_layout_forceMouseout d = d\<lparr>n_fixed := n_fixed d - and (n_fixed d) 4\<rparr>"

end
