(* ===== verification/D3_Force_Facts.thy ===== *)
theory D3_Force_Facts
  imports D3_Force
begin

text \<open>
  Facts about the force layout: accumulated charges are the sums over the points of a quad, the visit with \<open>theta\<close> zero is the direct sum over all
  other nodes, relaxing links keeps the weighted centre, and the simulation cools down and ends.
\<close>

section \<open>Accumulated charges\<close>

definition quad_ids :: "nat quad \<Rightarrow> nat multiset" where
  "quad_ids n = image_mset qp_data (quad_pts n)"

definition child_ids :: "bool \<Rightarrow> nat quad option \<Rightarrow> nat multiset" where
  "child_ids leaf n = (if leaf then {#} else case n of None \<Rightarrow> {#} | Some q \<Rightarrow> quad_ids q)"

definition charge_sum :: "real \<Rightarrow> real list \<Rightarrow> nat multiset \<Rightarrow> real" where
  "charge_sum alpha charges m = (\<Sum>i\<in>#m. alpha * charges ! i)"

definition moment :: "real \<Rightarrow> real list \<Rightarrow> (nat \<Rightarrow> real) \<Rightarrow> nat multiset \<Rightarrow> real" where
  "moment alpha charges f m = (\<Sum>i\<in>#m. alpha * charges ! i * f i)"

definition total_ok :: "real \<Rightarrow> real list \<Rightarrow> nat multiset \<Rightarrow> (nat \<Rightarrow> real \<times> real) \<Rightarrow> real \<times> (real \<times> real) option \<Rightarrow> bool" where
  "total_ok alpha charges m f t = (fst t = charge_sum alpha charges m \<and>
     (\<forall>sx sy. snd t = Some (sx, sy) \<longrightarrow> sx = moment alpha charges (fst \<circ> f) m \<and> sy = moment alpha charges (snd \<circ> f) m))"

definition quad_sums :: "real \<Rightarrow> real list \<Rightarrow> nat multiset \<Rightarrow> (nat \<Rightarrow> real \<times> real) \<Rightarrow> fquad \<Rightarrow> bool" where
  "quad_sums alpha charges m f q = (fq_charge q = charge_sum alpha charges m \<and>
     (\<forall>cx cy. fq_centre q = Some (cx, cy) \<longrightarrow> fq_charge q \<noteq> 0 \<and>
        fq_charge q * cx = moment alpha charges (fst \<circ> f) m \<and> fq_charge q * cy = moment alpha charges (snd \<circ> f) m))"

definition child_sums :: "real \<Rightarrow> real list \<Rightarrow> nat multiset \<Rightarrow> (nat \<Rightarrow> real \<times> real) \<Rightarrow> fquad option \<Rightarrow> bool" where
  "child_sums alpha charges m f c = (case c of None \<Rightarrow> m = {#} | Some q \<Rightarrow> quad_sums alpha charges m f q)"

definition frame :: "nat multiset \<Rightarrow> places \<Rightarrow> places \<Rightarrow> bool" where
  "frame m st st' = (\<forall>i. i \<notin># m \<longrightarrow> fst st' i = fst st i)"

lemma moment_cong: "(\<And>i. i \<in># m \<Longrightarrow> f i = g i) \<Longrightarrow> moment alpha charges f m = moment alpha charges g m"
  by (simp add: moment_def cong: image_mset_cong)

lemma sums_add [simp]:
  "charge_sum alpha charges (m + m') = charge_sum alpha charges m + charge_sum alpha charges m'"
  "moment alpha charges f (m + m') = moment alpha charges f m + moment alpha charges f m'"
  "charge_sum alpha charges {#} = 0" "moment alpha charges f {#} = 0"
  "charge_sum alpha charges (add_mset i m) = charge_sum alpha charges m + alpha * charges ! i"
  "moment alpha charges f (add_mset i m) = moment alpha charges f m + alpha * charges ! i * f i"
  by (simp_all add: charge_sum_def moment_def)

lemma total_add:
  assumes "total_ok alpha charges m (fst st) t" "child_sums alpha charges m' (fst st') c" "frame m' st st'" "set_mset m \<inter> set_mset m' = {}"
  shows "total_ok alpha charges (m + m') (fst st') (add_child c t)"
proof -
  have same: "moment alpha charges (g \<circ> fst st) m = moment alpha charges (g \<circ> fst st') m" for g :: "real \<times> real \<Rightarrow> real"
    using assms(3,4) by (intro moment_cong) (auto simp: frame_def)
  show ?thesis
    using assms(1,2) by (auto simp: total_ok_def child_sums_def quad_sums_def add_child_def same split: option.splits)
qed

lemma centre_sums: "total_ok alpha charges m f t \<Longrightarrow> quad_sums alpha charges m f (FQuad l p pc (fst t) (centre_of t) a b c d)"
  by (auto simp: total_ok_def quad_sums_def centre_of_def split: option.splits if_splits)

lemma frame_trans: "frame m st st1 \<Longrightarrow> frame m' st1 st2 \<Longrightarrow> frame (m + m') st st2"
  by (simp add: frame_def)

lemma shake_frame: "frame {#i#} st (shake rnd leaf i st)"
  by (simp add: frame_def shake_def)

lemma count_disjoint: "(\<And>i. count m i + count m' i \<le> 1) \<Longrightarrow> set_mset m \<inter> set_mset m' = {}"
proof -
  assume c: "\<And>i. count m i + count m' i \<le> 1"
  have "False" if "i \<in># m" "i \<in># m'" for i
    using c [of i] that count_greater_eq_one_iff [of m i] count_greater_eq_one_iff [of m' i] by linarith
  then show ?thesis by blast
qed

lemma counts_five:
  assumes "\<And>i. count p i + count a i + count b i + count c i + count d i \<le> 1"
  shows "set_mset a \<inter> set_mset b = {}" "set_mset (a + b) \<inter> set_mset c = {}" "set_mset (a + b + c) \<inter> set_mset d = {}"
    "set_mset (a + b + c + d) \<inter> set_mset p = {}"
    and "\<And>i. count a i \<le> 1" "\<And>i. count b i \<le> 1" "\<And>i. count c i \<le> 1" "\<And>i. count d i \<le> 1"
proof -
  have s: "count a i + count b i \<le> 1" "count (a + b) i + count c i \<le> 1" "count (a + b + c) i + count d i \<le> 1"
    "count (a + b + c + d) i + count p i \<le> 1" "count a i \<le> 1" "count b i \<le> 1" "count c i \<le> 1" "count d i \<le> 1" for i
    using assms [of i] unfolding count_union by linarith+
  show "set_mset a \<inter> set_mset b = {}" "set_mset (a + b) \<inter> set_mset c = {}" "set_mset (a + b + c) \<inter> set_mset d = {}"
    "set_mset (a + b + c + d) \<inter> set_mset p = {}" "\<And>i. count a i \<le> 1" "\<And>i. count b i \<le> 1" "\<And>i. count c i \<le> 1" "\<And>i. count d i \<le> 1"
    using s by (auto intro!: count_disjoint simp del: set_mset_union)
qed

text \<open>The sums of a quad from those of its children.\<close>

lemma children_total:
  assumes "child_sums alpha charges ma (fst st1) a'" "frame ma st st1" "child_sums alpha charges mb (fst st2) b'" "frame mb st1 st2"
    and "child_sums alpha charges mc (fst st3) c'" "frame mc st2 st3" "child_sums alpha charges md (fst st4) d'" "frame md st3 st4"
    and "set_mset ma \<inter> set_mset mb = {}" "set_mset (ma + mb) \<inter> set_mset mc = {}" "set_mset (ma + mb + mc) \<inter> set_mset md = {}"
  shows "total_ok alpha charges (ma + mb + mc + md) (fst st4) (add_child d' (add_child c' (add_child b' (add_child a' (0, Some (0, 0)))))) \<and>
    frame (ma + mb + mc + md) st st4"
proof -
  have "total_ok alpha charges {#} (fst st) (0, Some (0, 0))" by (simp add: total_ok_def)
  from total_add [OF this assms(1,2)] have "total_ok alpha charges ma (fst st1) (add_child a' (0, Some (0, 0)))" by simp
  from total_add [OF total_add [OF total_add [OF this assms(3,4,9)] assms(5,6,10)] assms(7,8,11)]
  show ?thesis using frame_trans [OF frame_trans [OF frame_trans [OF assms(2,4)] assms(6)] assms(8)] by simp
qed

lemma quad_total:
  assumes "total_ok alpha charges m (fst st4) t" "frame m st st4" "set_mset m \<inter> {i} = {}" "st5 = shake rnd leaf i st4"
    and "k = alpha * charges ! i" "t' = (fst t + k, map_option (\<lambda>(sx, sy). (sx + k * fst (fst st5 i), sy + k * snd (fst st5 i))) (snd t))"
  shows "quad_sums alpha charges (m + {#i#}) (fst st5) (FQuad l p pc (fst t') (centre_of t') a b c d) \<and> frame (m + {#i#}) st st5"
proof -
  have f5: "frame {#i#} st4 st5" unfolding assms(4) by (rule shake_frame)
  have "moment alpha charges (g \<circ> fst st4) m = moment alpha charges (g \<circ> fst st5) m" for g :: "real \<times> real \<Rightarrow> real"
    using f5 assms(3) by (intro moment_cong) (auto simp: frame_def)
  then have "total_ok alpha charges (m + {#i#}) (fst st5) t'" using assms(1) by (auto simp: total_ok_def assms(5,6))
  from centre_sums [OF this] frame_trans [OF assms(2) f5] show ?thesis by simp
qed

lemma accumulate_sums:
  "quad_ok n r \<Longrightarrow> (\<forall>i. count (quad_ids n) i \<le> 1) \<Longrightarrow> d3_layout_forceAccumulate rnd alpha charges n st = (q, st') \<Longrightarrow>
     quad_sums alpha charges (quad_ids n) (fst st') q \<and> frame (quad_ids n) st st'"
  "(\<forall>n. ch = Some n \<longrightarrow> quad_ok n r) \<Longrightarrow> (\<forall>i. count (child_ids leaf ch) i \<le> 1) \<Longrightarrow> accumulate_child rnd alpha charges leaf ch st = (c, st'') \<Longrightarrow>
     child_sums alpha charges (child_ids leaf ch) (fst st'') c \<and> frame (child_ids leaf ch) st st''"
proof (induction rnd alpha charges n st and rnd alpha charges leaf ch st arbitrary: r q st' and r c st'' rule: d3_layout_forceAccumulate_accumulate_child.induct)
  case (1 rnd alpha charges leaf p a b c d st)
  obtain a' st1 where A: "accumulate_child rnd alpha charges leaf a st = (a', st1)" by (metis prod.exhaust)
  obtain b' st2 where B: "accumulate_child rnd alpha charges leaf b st1 = (b', st2)" by (metis prod.exhaust)
  obtain c' st3 where C: "accumulate_child rnd alpha charges leaf c st2 = (c', st3)" by (metis prod.exhaust)
  obtain d' st4 where D: "accumulate_child rnd alpha charges leaf d st3 = (d', st4)" by (metis prod.exhaust)
  let ?ma = "child_ids leaf a" and ?mb = "child_ids leaf b" and ?mc = "child_ids leaf c" and ?md = "child_ids leaf d"
  let ?mp = "case p of None \<Rightarrow> {#} | Some pt \<Rightarrow> {#qp_data pt#}"
  have ids: "quad_ids (Quad leaf p a b c d) = ?mp + ?ma + ?mb + ?mc + ?md"
    using 1(5) by (cases leaf) (auto simp: quad_ids_def child_ids_def split: option.split)
  have cnt: "count ?mp i + count ?ma i + count ?mb i + count ?mc i + count ?md i \<le> 1" for i
    using 1(6) unfolding ids by (simp add: count_union)
  note dis = counts_five(1-4) [OF cnt] and one = counts_five(5-8) [OF cnt]
  have ok: "\<forall>n. a = Some n \<longrightarrow> quad_ok n (node_area 0 r)" "\<forall>n. b = Some n \<longrightarrow> quad_ok n (node_area 1 r)"
    "\<forall>n. c = Some n \<longrightarrow> quad_ok n (node_area 2 r)" "\<forall>n. d = Some n \<longrightarrow> quad_ok n (node_area 3 r)" using 1(5) by auto
  have IA: "child_sums alpha charges ?ma (fst st1) a' \<and> frame ?ma st st1" using 1(1) [OF ok(1) _ A] one by blast
  have IB: "child_sums alpha charges ?mb (fst st2) b' \<and> frame ?mb st1 st2" using 1(2) [OF A [symmetric] refl ok(2) _ B] one by blast
  have IC: "child_sums alpha charges ?mc (fst st3) c' \<and> frame ?mc st2 st3"
    using 1(3) [OF A [symmetric] refl B [symmetric] refl ok(3) _ C] one by blast
  have ID: "child_sums alpha charges ?md (fst st4) d' \<and> frame ?md st3 st4"
    using 1(4) [OF A [symmetric] refl B [symmetric] refl C [symmetric] refl ok(4) _ D] one by blast
  define t where "t = add_child d' (add_child c' (add_child b' (add_child a' (0, Some (0, 0)))))"
  have t: "total_ok alpha charges (?ma + ?mb + ?mc + ?md) (fst st4) t" "frame (?ma + ?mb + ?mc + ?md) st st4"
    using children_total [of alpha charges ?ma st1 a' st ?mb st2 b' ?mc st3 c' ?md st4 d'] IA IB IC ID dis(1-3) unfolding t_def by blast+
  show ?case
  proof (cases p)
    case None
    then have "q = FQuad leaf None 0 (fst t) (centre_of t) a' b' c' d'" "st' = st4" using 1(7) A B C D by (auto simp: t_def Let_def)
    then show ?thesis using None t(2) centre_sums [OF t(1)] ids by simp
  next
    case (Some pt)
    let ?i = "qp_data pt" and ?k = "alpha * charges ! qp_data pt"
    define st5 where "st5 = shake rnd leaf ?i st4"
    define t' where "t' = (fst t + ?k, map_option (\<lambda>(sx, sy). (sx + ?k * fst (fst st5 ?i), sy + ?k * snd (fst st5 ?i))) (snd t))"
    have "q = FQuad leaf (Some ?i) ?k (fst t') (centre_of t') a' b' c' d'" "st' = st5"
      using 1(7) A B C D Some by (auto simp: t_def [symmetric] st5_def [symmetric] t'_def case_prod_unfold Let_def)
    then show ?thesis
      using quad_total [OF t _ st5_def refl t'_def, where l = leaf and p = "Some ?i" and pc = ?k and a = a' and b = b' and c = c' and d = d']
        dis(4) Some ids by (simp add: ac_simps)
  qed
next
  case (2 rnd alpha charges leaf st)
  then show ?case by (auto simp: child_sums_def child_ids_def frame_def)
next
  case (3 rnd alpha charges leaf q st)
  then show ?case
  proof (cases leaf)
    case True
    then show ?thesis using 3(4) by (auto simp: child_sums_def child_ids_def frame_def)
  next
    case False
    obtain q' s where "d3_layout_forceAccumulate rnd alpha charges q st = (q', s)" by (metis prod.exhaust)
    then show ?thesis using 3 False by (auto simp: child_sums_def child_ids_def)
  qed
qed

section \<open>Trees without coincident points\<close>

text \<open>When no two points are close, only leaves hold points.\<close>

fun plain :: "'d quad \<Rightarrow> bool" where
  "plain (Quad l p a b c d) =
     (if l then a = None \<and> b = None \<and> c = None \<and> d = None
      else p = None \<and> (case a of None \<Rightarrow> True | Some n \<Rightarrow> plain n) \<and> (case b of None \<Rightarrow> True | Some n \<Rightarrow> plain n) \<and>
        (case c of None \<Rightarrow> True | Some n \<Rightarrow> plain n) \<and> (case d of None \<Rightarrow> True | Some n \<Rightarrow> plain n))"

lemma plain_new [simp]: "plain d3_geom_quadtreeNode"
  by (simp add: d3_geom_quadtreeNode_def)

lemma plain_child: "plain n \<Longrightarrow> plain (quad_child n d r)"
  by (cases n) (auto simp: quad_child_def quad_index_def split: option.splits if_splits)

lemma plain_set_node: "plain n \<Longrightarrow> q_point n = None \<Longrightarrow> plain c \<Longrightarrow> plain (set_node n i c)"
  by (cases n) (auto split: if_splits)

lemma plain_set_point: "plain n \<Longrightarrow> plain (set_point n None)"
  by (cases n) auto

lemma child_pts: "quad_pts (quad_child n d r) \<subseteq># quad_pts n"
  using quad_pts_set_node [OF quad_index_lt, of n d r d3_geom_quadtreeNode] by (simp add: quad_pts_child subset_mset.le_iff_add) (metis union_commute)

lemma put_pts: "quad_pts c = add_mset d (quad_pts (quad_child n d r)) \<Longrightarrow> quad_pts (set_node n (quad_index d r) c) = add_mset d (quad_pts n)"
  using quad_pts_set_node [OF quad_index_lt, of n d r c] by (simp add: quad_pts_child)

definition inserts_plain :: "'d quad \<Rightarrow> 'd qpoint \<Rightarrow> area \<Rightarrow> 'd quad \<Rightarrow> bool" where
  "inserts_plain n d r n' = (plain n \<longrightarrow> (\<forall>p \<in># quad_pts n. \<not> quad_close p d) \<longrightarrow> plain n' \<and> quad_pts n' = add_mset d (quad_pts n))"

lemma quad_insert_plain:
  assumes "quad_insert n d r = Some n'"
  shows "inserts_plain n d r n'"
proof (rule quad_insert.raw_induct [where P = inserts_plain, OF _ assms])
  fix ins :: "'a quad \<Rightarrow> 'a qpoint \<Rightarrow> area \<Rightarrow> 'a quad option" and n :: "'a quad" and d :: "'a qpoint" and r :: area and n' :: "'a quad"
  assume IH: "\<And>n d r n'. ins n d r = Some n' \<Longrightarrow> inserts_plain n d r n'"
    and body: "(if q_leaf n then
        (case q_point n of
           None \<Rightarrow> Some (set_point n (Some d))
         | Some p \<Rightarrow>
             if quad_close p d then
               Option.bind (ins (quad_child n d r) d (quad_area d r)) (\<lambda>c. Some (set_node n (quad_index d r) c))
             else
               Option.bind (ins (quad_child (set_point n None) p r) p (quad_area p r)) (\<lambda>c.
                 Option.bind
                   (ins (quad_child (set_node (set_point n None) (quad_index p r) c) d r) d (quad_area d r))
                   (\<lambda>c'. Some (set_node (set_node (set_point n None) (quad_index p r) c) (quad_index d r) c'))))
      else Option.bind (ins (quad_child n d r) d (quad_area d r)) (\<lambda>c. Some (set_node n (quad_index d r) c))) = Some n'"
  show "inserts_plain n d r n'"
    unfolding inserts_plain_def
  proof (intro impI)
    assume pl: "plain n" and far: "\<forall>p \<in># quad_pts n. \<not> quad_close p d"
    have put: "plain (set_node m (quad_index x r) c) \<and> quad_pts (set_node m (quad_index x r) c) = add_mset x (quad_pts m)"
      if "ins (quad_child m x r) x (quad_area x r) = Some c" "plain m" "q_point m = None" "\<forall>p \<in># quad_pts m. \<not> quad_close p x" for m x c
      using IH [OF that(1)] plain_child [OF that(2)] plain_set_node [OF that(2,3)] put_pts [of c x m r] child_pts [of m x r] that(4)
      by (auto simp: inserts_plain_def dest: mset_subset_eqD)
    show "plain n' \<and> quad_pts n' = add_mset d (quad_pts n)"
    proof (cases "q_leaf n")
      case False
      then have "q_point n = None" using pl by (cases n) auto
      then show ?thesis using put [OF _ pl _ far] body False by (auto simp: bind_eq_Some_conv)
    next
      case leaf: True
      then obtain p where n: "n = Quad True p None None None None" using pl by (cases n) auto
      show ?thesis
      proof (cases p)
        case None
        then show ?thesis using body n by auto
      next
        case (Some x)
        let ?m = "Quad True None None None None None"
        have nc: "\<not> quad_close x d" using far n Some by simp
        then obtain c c' where c: "ins (quad_child ?m x r) x (quad_area x r) = Some c"
            "ins (quad_child (set_node ?m (quad_index x r) c) d r) d (quad_area d r) = Some c'"
            "n' = set_node (set_node ?m (quad_index x r) c) (quad_index d r) c'"
          using body n Some by (auto simp: bind_eq_Some_conv)
        have m1: "plain (set_node ?m (quad_index x r) c) \<and> quad_pts (set_node ?m (quad_index x r) c) = {#x#}" using put [OF c(1)] by simp
        have "q_point (set_node ?m (quad_index x r) c) = None" by simp
        then show ?thesis using put [OF c(2)] m1 nc c(3) n Some by auto
      qed
    qed
  qed
qed

section \<open>The visit is a direct sum\<close>

text \<open>The push that the charge at one place gives a node, per coordinate \<open>g\<close>.\<close>

definition push :: "real \<Rightarrow> real list \<Rightarrow> real option \<Rightarrow> real \<times> real \<Rightarrow> (nat \<Rightarrow> real \<times> real) \<Rightarrow> (real \<times> real \<Rightarrow> real) \<Rightarrow> nat \<Rightarrow> real" where
  "push alpha charges cd2 pos f g j =
     (let dx = fst (f j) - fst pos; dy = snd (f j) - snd pos; dn = dx * dx + dy * dy
      in if (case cd2 of None \<Rightarrow> True | Some m \<Rightarrow> dn < m) then (g (f j) - g pos) * (alpha * charges ! j / dn) else 0)"

definition pushes :: "real \<Rightarrow> real list \<Rightarrow> real option \<Rightarrow> real \<times> real \<Rightarrow> (nat \<Rightarrow> real \<times> real) \<Rightarrow> nat \<Rightarrow> nat multiset \<Rightarrow> real \<times> real \<Rightarrow> real \<times> real" where
  "pushes alpha charges cd2 pos f i m p =
     (fst p - (\<Sum>j\<in>#filter_mset (\<lambda>j. j \<noteq> i) m. push alpha charges cd2 pos f fst j),
      snd p - (\<Sum>j\<in>#filter_mset (\<lambda>j. j \<noteq> i) m. push alpha charges cd2 pos f snd j))"

lemma pushes_add: "pushes alpha charges cd2 pos f i m' (pushes alpha charges cd2 pos f i m p) = pushes alpha charges cd2 pos f i (m + m') p"
  by (simp add: pushes_def)

lemma pushes_empty [simp]: "pushes alpha charges cd2 pos f i {#} p = p"
  by (simp add: pushes_def)

definition one_sign :: "real \<Rightarrow> real list \<Rightarrow> nat multiset \<Rightarrow> bool" where
  "one_sign alpha charges m = ((\<forall>i \<in># m. 0 < alpha * charges ! i) \<or> (\<forall>i \<in># m. alpha * charges ! i < 0))"

lemma sum_mset_pos: "m \<noteq> {#} \<Longrightarrow> \<forall>i \<in># m. 0 < f i \<Longrightarrow> 0 < (\<Sum>i\<in>#m. f i :: real)"
proof (induction m)
  case (add x m)
  then show ?case by (cases "m = {#}") (auto intro: add_pos_pos)
qed simp

lemma sum_mset_minus: "(\<Sum>i\<in>#m. - f i :: real) = - (\<Sum>i\<in>#m. f i)"
  by (induction m) auto

lemma one_sign_nonzero: "one_sign alpha charges m \<Longrightarrow> charge_sum alpha charges m = 0 \<longleftrightarrow> m = {#}"
  using sum_mset_pos [of m "\<lambda>i. alpha * charges ! i"] sum_mset_pos [of m "\<lambda>i. - (alpha * charges ! i)"]
  by (cases "m = {#}") (auto simp: one_sign_def charge_sum_def sum_mset_minus)

text \<open>Accumulating a tree whose points are all in leaves moves nothing and keeps its shape.\<close>

fun visit_ok :: "real \<Rightarrow> real list \<Rightarrow> (nat \<Rightarrow> real \<times> real) \<Rightarrow> nat multiset \<Rightarrow> fquad \<Rightarrow> bool" where
  "visit_ok alpha charges f m (FQuad l p pc ch ct a b c d) =
     (ch = charge_sum alpha charges m \<and>
      (case p of
         Some i \<Rightarrow> m = {#i#} \<and> pc = alpha * charges ! i \<and> (ch \<noteq> 0 \<longrightarrow> ct = Some (f i)) \<and> a = None \<and> b = None \<and> c = None \<and> d = None
       | None \<Rightarrow> (\<exists>ma mb mc md. m = ma + mb + mc + md \<and> (case a of None \<Rightarrow> ma = {#} | Some q \<Rightarrow> visit_ok alpha charges f ma q) \<and>
           (case b of None \<Rightarrow> mb = {#} | Some q \<Rightarrow> visit_ok alpha charges f mb q) \<and> (case c of None \<Rightarrow> mc = {#} | Some q \<Rightarrow> visit_ok alpha charges f mc q) \<and>
           (case d of None \<Rightarrow> md = {#} | Some q \<Rightarrow> visit_ok alpha charges f md q))))"

lemma visit_direct:
  "visit_ok alpha charges f m q \<Longrightarrow> one_sign alpha charges m \<Longrightarrow> repulse_visit 0 cd2 i pos q r p = pushes alpha charges cd2 pos f i m p"
proof (induction q arbitrary: m r p)
  case (FQuad l pt pc ch ct a b c d)
  have ch: "ch = 0 \<longleftrightarrow> m = {#}" using FQuad.prems one_sign_nonzero by auto
  show ?case
  proof (cases pt)
    case (Some j)
    then have j: "m = {#j#}" "pc = alpha * charges ! j" "ct = Some (f j)" "a = None" "b = None" "c = None" "d = None"
      using FQuad.prems ch by auto
    show ?thesis
      using Some j ch by (auto simp: repulse_def pushes_def push_def Let_def case_prod_unfold split: option.splits)
  next
    case None
    then obtain ma mb mc md where m: "m = ma + mb + mc + md" "case a of None \<Rightarrow> ma = {#} | Some q \<Rightarrow> visit_ok alpha charges f ma q"
      "case b of None \<Rightarrow> mb = {#} | Some q \<Rightarrow> visit_ok alpha charges f mb q" "case c of None \<Rightarrow> mc = {#} | Some q \<Rightarrow> visit_ok alpha charges f mc q"
      "case d of None \<Rightarrow> md = {#} | Some q \<Rightarrow> visit_ok alpha charges f md q" using FQuad.prems(1) by auto
    have sg: "one_sign alpha charges ma" "one_sign alpha charges mb" "one_sign alpha charges mc" "one_sign alpha charges md"
      using FQuad.prems(2) m(1) by (auto simp: one_sign_def)
    let ?v = "\<lambda>q s p. case q of None \<Rightarrow> p | Some n \<Rightarrow> repulse_visit 0 cd2 i pos n s p"
    have v: "?v a s p = pushes alpha charges cd2 pos f i ma p" "?v b s p = pushes alpha charges cd2 pos f i mb p"
      "?v c s p = pushes alpha charges cd2 pos f i mc p" "?v d s p = pushes alpha charges cd2 pos f i md p" for s p
      using m sg FQuad.IH by (auto split: option.splits)
    have "repulse 0 cd2 i pos (FQuad l pt pc ch ct a b c d) dw p = (m = {#}, p)" for dw
      using None ch by (auto simp: repulse_def Let_def split: option.split)
    then show ?thesis using m(1) by (simp add: Let_def v pushes_add add.assoc)
  qed
qed

definition child_visit_ok :: "real \<Rightarrow> real list \<Rightarrow> (nat \<Rightarrow> real \<times> real) \<Rightarrow> nat multiset \<Rightarrow> fquad option \<Rightarrow> bool" where
  "child_visit_ok alpha charges f m c = (case c of None \<Rightarrow> m = {#} | Some q \<Rightarrow> visit_ok alpha charges f m q)"

lemma visit_charge: "visit_ok alpha charges f m q \<Longrightarrow> fq_charge q = charge_sum alpha charges m"
  by (cases q) auto

lemma fst_add_child: "child_visit_ok alpha charges f m c \<Longrightarrow> fst (add_child c t) = fst t + charge_sum alpha charges m"
  by (cases c) (auto simp: add_child_def child_visit_ok_def visit_charge)

lemma accumulate_plain:
  "plain n \<Longrightarrow> d3_layout_forceAccumulate rnd alpha charges n st = (q, st') \<Longrightarrow> st' = st \<and> visit_ok alpha charges (fst st) (quad_ids n) q"
  "(\<forall>n. ch = Some n \<longrightarrow> plain n) \<Longrightarrow> accumulate_child rnd alpha charges leaf ch st = (c, st'') \<Longrightarrow>
     st'' = st \<and> child_visit_ok alpha charges (fst st) (child_ids leaf ch) c"
proof (induction rnd alpha charges n st and rnd alpha charges leaf ch st arbitrary: q st' and c st'' rule: d3_layout_forceAccumulate_accumulate_child.induct)
  case (1 rnd alpha charges leaf p a b c d st)
  show ?case
  proof (cases leaf)
    case True
    then have n: "a = None" "b = None" "c = None" "d = None" using 1(5) by auto
    show ?thesis
    proof (cases p)
      case None
      then show ?thesis using 1(6) True n by (auto simp: add_child_def quad_ids_def)
    next
      case (Some pt)
      then show ?thesis using 1(6) True n by (auto simp: add_child_def quad_ids_def shake_def centre_of_def case_prod_unfold Let_def)
    qed
  next
    case False
    obtain a' st1 where A: "accumulate_child rnd alpha charges leaf a st = (a', st1)" by (metis prod.exhaust)
    obtain b' st2 where B: "accumulate_child rnd alpha charges leaf b st1 = (b', st2)" by (metis prod.exhaust)
    obtain c' st3 where C: "accumulate_child rnd alpha charges leaf c st2 = (c', st3)" by (metis prod.exhaust)
    obtain d' st4 where D: "accumulate_child rnd alpha charges leaf d st3 = (d', st4)" by (metis prod.exhaust)
    have pl: "p = None" "\<forall>n. a = Some n \<longrightarrow> plain n" "\<forall>n. b = Some n \<longrightarrow> plain n" "\<forall>n. c = Some n \<longrightarrow> plain n" "\<forall>n. d = Some n \<longrightarrow> plain n"
      using 1(5) False by auto
    have IA: "st1 = st" "child_visit_ok alpha charges (fst st) (child_ids leaf a) a'" using 1(1) [OF pl(2) A] by auto
    have IB: "st2 = st" "child_visit_ok alpha charges (fst st) (child_ids leaf b) b'" using 1(2) [OF A [symmetric] refl pl(3) B] IA(1) by auto
    have IC: "st3 = st" "child_visit_ok alpha charges (fst st) (child_ids leaf c) c'"
      using 1(3) [OF A [symmetric] refl B [symmetric] refl pl(4) C] IB(1) by auto
    have ID: "st4 = st" "child_visit_ok alpha charges (fst st) (child_ids leaf d) d'"
      using 1(4) [OF A [symmetric] refl B [symmetric] refl C [symmetric] refl pl(5) D] IC(1) by auto
    have ids: "quad_ids (Quad leaf p a b c d) = child_ids leaf a + child_ids leaf b + child_ids leaf c + child_ids leaf d"
      using False pl(1) by (auto simp: quad_ids_def child_ids_def split: option.split)
    define t where "t = add_child d' (add_child c' (add_child b' (add_child a' (0, Some (0, 0)))))"
    have "q = FQuad leaf None 0 (fst t) (centre_of t) a' b' c' d'" "st' = st4" using 1(6) A B C D pl(1) by (auto simp: t_def Let_def)
    moreover have "fst t = charge_sum alpha charges (quad_ids (Quad leaf p a b c d))"
      unfolding t_def ids using fst_add_child IA(2) IB(2) IC(2) ID(2) by simp
    ultimately show ?thesis
      using ids IA(2) IB(2) IC(2) ID(1,2) by (auto simp: child_visit_ok_def)
  qed
next
  case (3 rnd alpha charges leaf q st)
  obtain q' s where "d3_layout_forceAccumulate rnd alpha charges q st = (q', s)" by (metis prod.exhaust)
  then show ?case using 3 by (cases leaf) (auto simp: child_visit_ok_def child_ids_def)
qed (auto simp: child_visit_ok_def child_ids_def)

section \<open>The tree of the nodes\<close>

definition apart :: "'d qpoint list \<Rightarrow> bool" where
  "apart ps = sorted_wrt (\<lambda>p q. \<not> quad_close p q) ps"

lemma quad_add_some: "quad_add (Some n) d (Some x) (Some y) r = quad_insert n \<lparr>qp_data = d, qp_x = x, qp_y = y\<rparr> r"
  by (simp add: quad_add_def)

lemma build_none: "foldl (\<lambda>t (d, x, y). quad_add t d x y r) None items = None"
proof (induction items)
  case (Cons i items)
  then show ?case by (cases i) (auto simp: quad_add_def split: option.split)
qed simp

lemma build_plain:
  "foldl (\<lambda>t (d, x, y). quad_add t d x y r) (Some n) items = Some n' \<Longrightarrow> plain n \<Longrightarrow> quad_pts n = mset ps \<Longrightarrow> apart (ps @ item_points items) \<Longrightarrow> plain n'"
proof (induction items arbitrary: n ps rule: item_points.induct)
  case (2 d x y items)
  let ?p = "\<lparr>qp_data = d, qp_x = x, qp_y = y\<rparr>"
  obtain n1 where n1: "quad_insert n ?p r = Some n1" "foldl (\<lambda>t (d, x, y). quad_add t d x y r) (Some n1) items = Some n'"
    using 2(2) build_none [of r items] by (cases "quad_insert n ?p r") (simp_all add: quad_add_some)
  have "\<forall>q \<in># quad_pts n. \<not> quad_close q ?p" using 2(4,5) by (auto simp: apart_def sorted_wrt_append)
  then have "plain n1" "quad_pts n1 = mset (ps @ [?p])" using quad_insert_plain [OF n1(1)] 2(3,4) by (auto simp: inserts_plain_def)
  moreover have "apart ((ps @ [?p]) @ item_points items)" using 2(5) by simp
  ultimately show ?case by (rule 2(1) [OF n1(2)])
qed (simp_all add: apart_def)

definition node_place :: "fnode list \<Rightarrow> nat \<Rightarrow> real \<times> real" where
  "node_place nodes i = (n_x (nodes ! i), n_y (nodes ! i))"

definition node_point :: "fnode list \<Rightarrow> nat \<Rightarrow> nat qpoint" where
  "node_point nodes i = \<lparr>qp_data = i, qp_x = n_x (nodes ! i), qp_y = n_y (nodes ! i)\<rparr>"

lemma nodes_tree_built:
  assumes "quadtree_compat (\<lambda>i. Some (n_x (nodes ! i))) (\<lambda>i. Some (n_y (nodes ! i))) [0..<length nodes] Compat_Points = (r, t)"
  obtains items n where "item_points items = map (node_point nodes) [0..<length nodes]" "t = Some n" "quad_pts n = mset (item_points items)"
    "foldl (\<lambda>t (d, x, y). quad_add t d x y r) (Some d3_geom_quadtreeNode) items = Some n"
proof -
  define qt :: "nat quadtree" where "qt = \<lparr>qt_x = \<lambda>d i. Some (n_x (nodes ! d)), qt_y = \<lambda>d i. Some (n_y (nodes ! d)), qt_extent = None\<rparr>"
  let ?items = "build_items qt [0..<length nodes]"
  have b: "quadtree_build qt [0..<length nodes] = (r, t)" using assms by (simp add: quadtree_compat_def qt_def)
  have r: "r = root_area qt (map snd ?items)" "t = foldl (\<lambda>t (d, x, y). quad_add t d x y r) (Some d3_geom_quadtreeNode) ?items"
    using b by (auto simp: quadtree_build_def Let_def build_items_snd build_items_zip')
  have "item_points (map (\<lambda>(i, d). (d, Some (n_x (nodes ! d)), Some (n_y (nodes ! d)))) (enumerate k ds)) = map (node_point nodes) ds" for k ds
    by (induction ds arbitrary: k) (auto simp: node_point_def)
  then have pts: "item_points ?items = map (node_point nodes) [0..<length nodes]" by (simp add: build_items_def qt_def)
  have "\<forall>p \<in> set (item_points ?items). in_area p r" unfolding r(1) using root_area_holds [of qt] by (auto simp: qt_def)
  then obtain n where "t = Some n" "quad_pts n = mset (item_points ?items)"
    using build_loop [of d3_geom_quadtreeNode r ?items] by (auto simp: r(2))
  then show thesis using that [OF pts] r(2) by simp
qed

lemma nodes_tree:
  assumes "quadtree_compat (\<lambda>i. Some (n_x (nodes ! i))) (\<lambda>i. Some (n_y (nodes ! i))) [0..<length nodes] Compat_Points = (r, t)"
    and "apart (map (node_point nodes) [0..<length nodes])"
  shows "\<exists>n. t = Some n \<and> plain n \<and> quad_ids n = mset [0..<length nodes]"
proof -
  obtain items n where n: "item_points items = map (node_point nodes) [0..<length nodes]" "t = Some n" "quad_pts n = mset (item_points items)"
    "foldl (\<lambda>t (d, x, y). quad_add t d x y r) (Some d3_geom_quadtreeNode) items = Some n" using nodes_tree_built [OF assms(1)] by blast
  have "plain n" using build_plain [OF n(4), of "[]"] assms(2) n(1) by simp
  moreover have "quad_ids n = mset [0..<length nodes]"
    unfolding quad_ids_def n(3) n(1) mset_map [symmetric] map_map by (simp add: node_point_def comp_def)
  ultimately show ?thesis using n(2) by blast
qed

lemma set_places_same: "(\<And>i. i < length nodes \<Longrightarrow> f i = node_place nodes i) \<Longrightarrow> set_places f nodes = nodes"
  by (auto simp: set_places_def node_place_def enumerate_eq_zip intro!: nth_equalityI)

lemma pushes_sum:
  "pushes alpha charges cd2 pos f i (mset [0..<n]) p =
   (fst p - (\<Sum>j \<in> {..<n} - {i}. push alpha charges cd2 pos f fst j), snd p - (\<Sum>j \<in> {..<n} - {i}. push alpha charges cd2 pos f snd j))"
proof -
  have "filter_mset (\<lambda>j. j \<noteq> i) (mset [0..<n]) = mset_set ({..<n} - {i})"
    by (auto simp: multiset_eq_iff count_mset_set' mset_set_upto_eq_mset_upto [symmetric] lessThan_atLeast0)
  then show ?thesis by (simp only: pushes_def sum_unfold_sum_mset)
qed

text \<open>
  (C12) Charges.  With \<open>theta\<close> zero, charges of one sign and no two nodes within a hundredth of each other, the visits of the quadtree give every node that is not fixed exactly the sum of
  the pushes of all other nodes within the charge distance; no node is moved at random.
\<close>

theorem repel_direct_sum:
  assumes "f_theta2 f = 0" "one_sign (f_alpha f) (f_charges f) (mset [0..<length nodes])" "apart (map (node_point nodes) [0..<length nodes])"
  shows "repel rnd f nodes = Some (map (\<lambda>(i, nd). if n_fixed nd \<noteq> 0 then nd else
     nd\<lparr>n_px := n_px nd - (\<Sum>j \<in> {..<length nodes} - {i}. push (f_alpha f) (f_charges f) (f_chargeDistance2 f) (n_x nd, n_y nd) (node_place nodes) fst j),
        n_py := n_py nd - (\<Sum>j \<in> {..<length nodes} - {i}. push (f_alpha f) (f_charges f) (f_chargeDistance2 f) (n_x nd, n_y nd) (node_place nodes) snd j)\<rparr>)
     (enumerate 0 nodes), f_random f)"
proof -
  obtain r t where b: "quadtree_compat (\<lambda>i. Some (n_x (nodes ! i))) (\<lambda>i. Some (n_y (nodes ! i))) [0..<length nodes] Compat_Points = (r, t)"
    by (metis prod.exhaust)
  obtain n where n: "t = Some n" "plain n" "quad_ids n = mset [0..<length nodes]" using nodes_tree [OF b assms(3)] by blast
  obtain q st' where a: "d3_layout_forceAccumulate rnd (f_alpha f) (f_charges f) n (node_place nodes, f_random f) = (q, st')" by (metis prod.exhaust)
  have q: "st' = (node_place nodes, f_random f)" "visit_ok (f_alpha f) (f_charges f) (node_place nodes) (mset [0..<length nodes]) q"
    using accumulate_plain(1) [OF n(2) a] n(3) by auto
  have p: "(\<lambda>i. (n_x (nodes ! i), n_y (nodes ! i))) = node_place nodes" by (simp add: node_place_def fun_eq_iff)
  have v: "repulse_visit 0 cd2 i pos q r p =
      (fst p - (\<Sum>j \<in> {..<length nodes} - {i}. push (f_alpha f) (f_charges f) cd2 pos (node_place nodes) fst j),
       snd p - (\<Sum>j \<in> {..<length nodes} - {i}. push (f_alpha f) (f_charges f) cd2 pos (node_place nodes) snd j))" for cd2 i pos p
    using visit_direct [OF q(2) assms(2)] unfolding pushes_sum .
  have s: "set_places (node_place nodes) nodes = nodes" by (rule set_places_same) simp
  show ?thesis
    unfolding repel_def b n(1) p using a q(1) s by (simp add: assms(1) v case_prod_unfold Let_def cong: if_cong)
qed


text \<open>Three nodes in a triangle, the last one fixed: one push from each of the other two for the first.\<close>

definition three_nodes :: "fnode list" where
  "three_nodes = [\<lparr>n_x = 0, n_y = 0, n_px = 0, n_py = 0, n_weight = 1, n_fixed = 0\<rparr>,
     \<lparr>n_x = 2, n_y = 0, n_px = 2, n_py = 0, n_weight = 2, n_fixed = 0\<rparr>, \<lparr>n_x = 0, n_y = 4, n_px = 0, n_py = 4, n_weight = 1, n_fixed = 1\<rparr>]"

definition three_force :: force where
  "three_force = \<lparr>f_nodes = three_nodes, f_links = [\<lparr>l_source = 0, l_target = 1\<rparr>, \<lparr>l_source = 1, l_target = 2\<rparr>], f_distances = [20, 20],
     f_strengths = [1, 1], f_charges = [-30, -30, -30], f_charging = True, f_size = (1, 1), f_alpha = 1 / 10, f_friction = 9 / 10, f_gravity = 1 / 10,
     f_theta2 = 0, f_chargeDistance2 = None, f_random = 0, f_events = [], f_timers = 1\<rparr>"

theorem repel_direct_sum_witness:
  "map_option (\<lambda>(ns, k). (n_px (ns ! 0), n_py (ns ! 0), n_px (ns ! 2), k)) (repel (\<lambda>_. 0) three_force three_nodes) = Some (3 / 2, 3 / 4, 0, 0)"
proof -
  have n: "[0..<length three_nodes] = [0, 1, 2]" by (simp add: three_nodes_def upt_rec)
  have a: "apart (map (node_point three_nodes) [0..<length three_nodes])"
    unfolding n by (simp add: apart_def node_point_def three_nodes_def quad_close_def)
  have o: "one_sign (f_alpha three_force) (f_charges three_force) (mset [0..<length three_nodes])"
    unfolding n by (simp add: one_sign_def three_force_def)
  have t: "f_theta2 three_force = 0" by (simp add: three_force_def)
  have s: "{..<length three_nodes} - {0} = {1, 2}" by (auto simp: three_nodes_def)
  show ?thesis
    unfolding repel_direct_sum [OF t o a]
    using s by (simp add: push_def three_nodes_def three_force_def node_place_def)
qed


section \<open>Links\<close>

text \<open>Relaxing a link moves its two ends along the link by shares that keep the centre of the nodes weighted by their numbers of links.\<close>

definition weighted :: "(fnode \<Rightarrow> real) \<Rightarrow> fnode list \<Rightarrow> real" where
  "weighted g nodes = (\<Sum>n \<leftarrow> nodes. real (n_weight n) * g n)"

definition link_ok :: "fnode list \<Rightarrow> flink \<Rightarrow> bool" where
  "link_ok nodes lk = (l_source lk < length nodes \<and> l_target lk < length nodes \<and> 0 < n_weight (nodes ! l_source lk) + n_weight (nodes ! l_target lk))"

lemma weighted_update:
  "i < length nodes \<Longrightarrow> weighted g (nodes[i := n]) = weighted g nodes - real (n_weight (nodes ! i)) * g (nodes ! i) + real (n_weight n) * g n"
proof (induction nodes arbitrary: i)
  case (Cons a nodes)
  then show ?case by (cases i) (auto simp: weighted_def)
qed simp

lemma weighted_two:
  assumes "i \<noteq> j" "i < length nodes" "j < length nodes" "n_weight s' = n_weight (nodes ! i)" "n_weight t' = n_weight (nodes ! j)"
    and "0 < n_weight (nodes ! i) + n_weight (nodes ! j)" "k = real (n_weight (nodes ! i)) / real (n_weight (nodes ! j) + n_weight (nodes ! i))"
    and "g t' = g (nodes ! j) - d * k" "g s' = g (nodes ! i) + d * (1 - k)"
  shows "weighted g (nodes[j := t', i := s']) = weighted g nodes"
proof -
  define a b where ab: "a = real (n_weight (nodes ! i))" "b = real (n_weight (nodes ! j))"
  have "a + b \<noteq> 0" using assms(6) unfolding ab by linarith
  then have "k * (a + b) = a" using assms(7) unfolding ab by (simp add: add.commute)
  then have "b * k = a * (1 - k)" by (simp add: algebra_simps)
  then have "b * (d * k) = a * (d * (1 - k))" by (simp add: mult.left_commute)
  moreover have "weighted g (nodes[j := t', i := s']) = weighted g nodes - b * g (nodes ! j) + b * g t' - a * g (nodes ! i) + a * g s'"
    using assms(1-5) ab by (simp add: weighted_update)
  ultimately show ?thesis unfolding assms(8,9) by (simp add: right_diff_distrib distrib_left)
qed

definition moved :: "fnode list \<Rightarrow> nat \<Rightarrow> nat \<Rightarrow> real \<Rightarrow> real \<Rightarrow> real \<Rightarrow> fnode list" where
  "moved nodes i j dx dy k = nodes[
     j := (nodes ! j)\<lparr>n_x := n_x (nodes ! j) - dx * k, n_y := n_y (nodes ! j) - dy * k\<rparr>,
     i := (nodes ! i)\<lparr>n_x := n_x (nodes ! i) + dx * (1 - k), n_y := n_y (nodes ! i) + dy * (1 - k)\<rparr>]"

lemma relax_moves:
  "relax alpha st dst lk nodes = nodes \<or> l_source lk \<noteq> l_target lk \<and> (\<exists>dx dy. relax alpha st dst lk nodes =
     moved nodes (l_source lk) (l_target lk) dx dy (real (n_weight (nodes ! l_source lk)) / real (n_weight (nodes ! l_target lk) + n_weight (nodes ! l_source lk))))"
proof -
  let ?s = "nodes ! l_source lk" and ?t = "nodes ! l_target lk"
  define l where "l = alpha * st * (sqrt ((n_x ?t - n_x ?s) * (n_x ?t - n_x ?s) + (n_y ?t - n_y ?s) * (n_y ?t - n_y ?s)) - dst) /
    sqrt ((n_x ?t - n_x ?s) * (n_x ?t - n_x ?s) + (n_y ?t - n_y ?s) * (n_y ?t - n_y ?s))"
  show ?thesis
  proof (cases "(n_x ?t - n_x ?s) * (n_x ?t - n_x ?s) + (n_y ?t - n_y ?s) * (n_y ?t - n_y ?s) \<noteq> 0")
    case True
    then have "l_source lk \<noteq> l_target lk" by auto
    moreover have "relax alpha st dst lk nodes = moved nodes (l_source lk) (l_target lk) ((n_x ?t - n_x ?s) * l) ((n_y ?t - n_y ?s) * l)
        (real (n_weight ?s) / real (n_weight ?t + n_weight ?s))"
      unfolding relax_def Let_def moved_def if_P [OF True] l_def by (rule refl)
    ultimately show ?thesis by blast
  qed (simp add: relax_def)
qed

lemma relax_weighted:
  assumes "link_ok nodes lk"
  shows "weighted n_x (relax alpha st dst lk nodes) = weighted n_x nodes \<and> weighted n_y (relax alpha st dst lk nodes) = weighted n_y nodes"
proof -
  have "weighted g (moved nodes (l_source lk) (l_target lk) dx dy
      (real (n_weight (nodes ! l_source lk)) / real (n_weight (nodes ! l_target lk) + n_weight (nodes ! l_source lk)))) = weighted g nodes"
    if "l_source lk \<noteq> l_target lk" "g = n_x \<and> d = dx \<or> g = n_y \<and> d = dy" for g d dx dy
    unfolding moved_def using assms that(2) by (intro weighted_two [where d = d, OF that(1)]) (auto simp: link_ok_def)
  then show ?thesis using relax_moves [of alpha st dst lk nodes] by metis
qed

text \<open>What relaxing a link leaves alone.\<close>

definition same_state :: "fnode list \<Rightarrow> fnode list \<Rightarrow> bool" where
  "same_state nodes nodes' = list_all2 (\<lambda>n n'. n_px n' = n_px n \<and> n_py n' = n_py n \<and> n_weight n' = n_weight n \<and> n_fixed n' = n_fixed n) nodes nodes'"

lemma same_state_nth:
  assumes "same_state nodes nodes'" "i < length nodes"
  shows "n_px (nodes' ! i) = n_px (nodes ! i)" "n_py (nodes' ! i) = n_py (nodes ! i)" "n_weight (nodes' ! i) = n_weight (nodes ! i)" "n_fixed (nodes' ! i) = n_fixed (nodes ! i)"
  using assms by (auto simp: same_state_def list_all2_conv_all_nth)

lemma same_state_length: "same_state nodes nodes' \<Longrightarrow> length nodes' = length nodes"
  by (simp add: same_state_def list_all2_lengthD [symmetric])

lemma same_state_trans: "same_state a b \<Longrightarrow> same_state b c \<Longrightarrow> same_state a c"
  by (auto simp: same_state_def list_all2_conv_all_nth)

lemma same_state_update: "same_state nodes nodes' \<Longrightarrow> same_state nodes (nodes'[i := (nodes ! i)\<lparr>n_x := x, n_y := y\<rparr>])"
  by (cases "i < length nodes'") (auto simp: same_state_def list_all2_conv_all_nth nth_list_update)

lemma same_state_refl: "same_state nodes nodes"
  by (simp add: same_state_def list.rel_refl)

lemma moved_state: "same_state nodes (moved nodes i j dx dy k)"
  unfolding moved_def by (rule same_state_update [OF same_state_update [OF same_state_refl]])

lemma relax_state: "same_state nodes (relax alpha st dst lk nodes)"
  using relax_moves [of alpha st dst lk nodes] by (metis moved_state same_state_refl)

lemma relax_all_state: "same_state nodes (relax_all alpha ls nodes)"
proof (induction alpha ls nodes rule: relax_all.induct)
  case (2 alpha lk st dst ls nodes)
  then show ?case using same_state_trans relax_state by simp blast
qed (simp add: same_state_refl)

lemma gravitate_state: "same_state nodes (gravitate k sz nodes)"
  by (simp add: same_state_def gravitate_def list_all2_conv_all_nth)

text \<open>
  Links.  Relaxing the links of a tick, each between nodes of the layout and counted in a weight of its ends, keeps the centre of the nodes weighted by
  their numbers of links in both coordinates.
\<close>

theorem relax_keeps_centre:
  assumes "\<forall>(lk, st, dst) \<in> set ls. link_ok nodes lk"
  shows "weighted n_x (relax_all alpha ls nodes) = weighted n_x nodes \<and> weighted n_y (relax_all alpha ls nodes) = weighted n_y nodes"
  using assms
proof (induction alpha ls nodes rule: relax_all.induct)
  case (2 alpha lk st dst ls nodes)
  have "link_ok (relax alpha st dst lk nodes) l" if "link_ok nodes l" for l
    using that same_state_nth [OF relax_state] same_state_length [OF relax_state] by (simp add: link_ok_def)
  then show ?case using 2 relax_weighted [of nodes lk] by fastforce
qed simp

theorem relax_keeps_centre_witness:
  "weighted n_x (relax_all (1 / 10) [(\<lparr>l_source = 0, l_target = 1\<rparr>, 1, 20), (\<lparr>l_source = 1, l_target = 2\<rparr>, 1, 20)] three_nodes) = 4"
proof -
  have "\<forall>(lk, st, dst) \<in> set [(\<lparr>l_source = 0, l_target = 1\<rparr>, 1, 20), (\<lparr>l_source = 1, l_target = 2\<rparr>, 1, 20 :: real)]. link_ok three_nodes lk"
    by (simp add: link_ok_def three_nodes_def)
  then have "weighted n_x (relax_all (1 / 10) [(\<lparr>l_source = 0, l_target = 1\<rparr>, 1, 20), (\<lparr>l_source = 1, l_target = 2\<rparr>, 1, 20)] three_nodes) = weighted n_x three_nodes"
    using relax_keeps_centre by blast
  then show ?thesis by (simp add: weighted_def three_nodes_def)
qed


section \<open>Ticks\<close>

lemma repel_some: "\<exists>nodes' k. repel rnd f nodes = Some (nodes', k)"
proof -
  obtain r t where b: "quadtree_compat (\<lambda>i. Some (n_x (nodes ! i))) (\<lambda>i. Some (n_y (nodes ! i))) [0..<length nodes] Compat_Points = (r, t)"
    by (metis prod.exhaust)
  obtain n where "t = Some n" by (rule nodes_tree_built [OF b])
  then show ?thesis unfolding repel_def b by (simp add: case_prod_unfold Let_def)
qed

text \<open>The nodes before the last step of a tick, and a tick by them.\<close>

definition pulled :: "force \<Rightarrow> real \<Rightarrow> fnode list" where
  "pulled f a = gravitate (a * f_gravity f) (f_size f) (relax_all a (zip (f_links f) (zip (f_strengths f) (f_distances f))) (f_nodes f))"

definition pushed :: "(nat \<Rightarrow> real) \<Rightarrow> force \<Rightarrow> real \<Rightarrow> (fnode list \<times> nat) option" where
  "pushed rnd f a = (if f_charging f then repel rnd (f\<lparr>f_alpha := a\<rparr>) (pulled f a) else Some (pulled f a, f_random f))"

lemma pushed_some: "\<exists>nodes' k. pushed rnd f a = Some (nodes', k)"
  using repel_some by (simp add: pushed_def)

lemma force_tick_warm:
  assumes "a = f_alpha f * (99 / 100)" "5 / 1000 \<le> a" "pushed rnd f a = Some (nodes', k)"
  shows "force_tick rnd f = Some (False, f\<lparr>f_alpha := a, f_nodes := map (integrate (f_friction f)) nodes', f_random := k, f_events := f_events f @ [ForceTick a]\<rparr>)"
proof -
  have "\<not> a < 5 / 1000" using assms(2) by simp
  then show ?thesis using assms(3) unfolding force_tick_def pushed_def pulled_def Let_def assms(1) [symmetric] by simp
qed

lemma tick_warm:
  assumes "5 / 1000 \<le> f_alpha f * (99 / 100)"
  shows "\<exists>f'. force_tick rnd f = Some (False, f') \<and> f_alpha f' = f_alpha f * (99 / 100) \<and> f_events f' = f_events f @ [ForceTick (f_alpha f * (99 / 100))] \<and>
    f_timers f' = f_timers f"
proof -
  obtain nodes' k where "pushed rnd f (f_alpha f * (99 / 100)) = Some (nodes', k)" using pushed_some by blast
  from force_tick_warm [OF refl assms this] show ?thesis by simp
qed

text \<open>The values of \<open>alpha\<close> after each of a number of ticks, and the run that ends with the first one under five thousandths.\<close>

definition cooled :: "real \<Rightarrow> nat \<Rightarrow> real" where
  "cooled a i = a * (99 / 100) ^ i"

lemma cooled_Suc: "cooled a (Suc i) = cooled (a * (99 / 100)) i"
  by (simp add: cooled_def)

lemma run_cools:
  assumes "\<forall>i < n. 5 / 1000 \<le> cooled (f_alpha f) (Suc i)" "cooled (f_alpha f) (Suc n) < 5 / 1000"
  shows "\<exists>f'. force_run rnd (Suc n) f = Some f' \<and> f_alpha f' = 0 \<and> f_timers f' = f_timers f - 1 \<and>
    f_events f' = f_events f @ map (\<lambda>i. ForceTick (cooled (f_alpha f) (Suc i))) [0..<n] @ [ForceEnd]"
  using assms
proof (induction n arbitrary: f)
  case 0
  then show ?case by (simp add: cooled_def force_tick_def)
next
  case (Suc n)
  have "5 / 1000 \<le> f_alpha f * (99 / 100)" using Suc(2) by (auto simp: cooled_def)
  then obtain f1 where f1: "force_tick rnd f = Some (False, f1)" "f_alpha f1 = f_alpha f * (99 / 100)" "f_timers f1 = f_timers f"
    "f_events f1 = f_events f @ [ForceTick (f_alpha f * (99 / 100))]" using tick_warm by blast
  have c: "cooled (f_alpha f1) i = cooled (f_alpha f) (Suc i)" for i by (simp add: cooled_Suc f1(2))
  have "\<forall>i < n. 5 / 1000 \<le> cooled (f_alpha f1) (Suc i)" "cooled (f_alpha f1) (Suc n) < 5 / 1000" using Suc(2,3) by (auto simp: c)
  from Suc(1) [OF this] show ?case
    using f1(1,3,4) by (simp add: c upt_conv_Cons map_Suc_upt [symmetric] del: upt_Suc) (simp add: cooled_def comp_def)
qed

lemma power4_bracket:
  fixes x :: real
  assumes "0 \<le> l" "l \<le> x" "x \<le> u" "l' \<le> l ^ 4 * c" "u ^ 4 * c \<le> u'" "0 \<le> c"
  shows "l' \<le> x ^ 4 * c \<and> x ^ 4 * c \<le> u'"
proof -
  have "l ^ 4 \<le> x ^ 4" "x ^ 4 \<le> u ^ 4" using assms(1-3) by (auto intro!: power_mono)
  then have "l ^ 4 * c \<le> x ^ 4 * c" "x ^ 4 * c \<le> u ^ 4 * c" using assms(6) by (auto intro: mult_right_mono)
  then show ?thesis using assms(4,5) by linarith
qed

lemma cooling_threshold: "1 / 20 \<le> (99 / 100 :: real) ^ 298" "(99 / 100 :: real) ^ 299 < 1 / 20"
proof -
  let ?c = "99 / 100 :: real"
  have n: "(?c ^ 9) ^ 4 * ?c = ?c ^ 37" "(?c ^ 37) ^ 4 * ?c = ?c ^ 149" "(?c ^ 149) ^ 2 = ?c ^ 298" "(?c ^ 149) ^ 2 * ?c = ?c ^ 299"
    by (simp_all only: power_mult [symmetric] power_Suc2 [symmetric]) simp_all
  have "913517 / 1000000 \<le> ?c ^ 9" "?c ^ 9 \<le> 913518 / 1000000" by (simp_all add: power_divide)
  then have "689448 / 1000000 \<le> (?c ^ 9) ^ 4 * ?c \<and> (?c ^ 9) ^ 4 * ?c \<le> 689452 / 1000000" by (rule power4_bracket [rotated]) (simp_all add: power_divide)
  then have "22368 / 100000 \<le> (?c ^ 37) ^ 4 * ?c \<and> (?c ^ 37) ^ 4 * ?c \<le> 2237 / 10000" unfolding n(1) by (elim conjE, intro power4_bracket [where l = "689448 / 1000000" and u = "689452 / 1000000"]) (simp_all add: power_divide)
  then have b: "22368 / 100000 \<le> ?c ^ 149" "?c ^ 149 \<le> 2237 / 10000" unfolding n(2) by auto
  have "(22368 / 100000) ^ 2 \<le> (?c ^ 149) ^ 2" by (rule power_mono [OF b(1)]) simp
  moreover have sq: "1 / 20 \<le> (22368 / 100000 :: real) ^ 2" "(2237 / 10000) ^ 2 * ?c < 1 / 20" by (simp_all add: power_divide)
  ultimately show "1 / 20 \<le> ?c ^ 298" unfolding n(3) by linarith
  have "(?c ^ 149) ^ 2 * ?c \<le> (2237 / 10000) ^ 2 * ?c" by (intro mult_right_mono power_mono b(2)) simp_all
  then show "?c ^ 299 < 1 / 20" unfolding n(4) using sq(2) by linarith
qed

text \<open>
  (C13) Cooling.  A layout that was resumed, with any nodes, links and settings, ends with its 299th tick: the 298 ticks before it report the cooling \<open>alpha\<close>,
  the last one reports the end, leaves \<open>alpha\<close> zero and releases its timer.
\<close>

theorem force_run_ends:
  assumes "f_alpha f = 1 / 10"
  shows "\<exists>f'. force_run rnd 299 f = Some f' \<and> f_alpha f' = 0 \<and> f_timers f' = f_timers f - 1 \<and>
    f_events f' = f_events f @ map (\<lambda>i. ForceTick (cooled (1 / 10) (Suc i))) [0..<298] @ [ForceEnd]"
proof -
  have low: "5 / 1000 \<le> cooled (1 / 10) 298" using cooling_threshold(1) unfolding cooled_def by linarith
  have warm: "5 / 1000 \<le> cooled (f_alpha f) (Suc i)" if "i < 298" for i
  proof -
    have "(99 / 100 :: real) ^ 298 \<le> (99 / 100) ^ Suc i" using that by (intro power_decreasing) auto
    then show ?thesis using low unfolding cooled_def assms by linarith
  qed
  have n: "(299 :: nat) = Suc 298" by simp
  have cold: "cooled (f_alpha f) (Suc 298) < 5 / 1000" using cooling_threshold(2) unfolding assms cooled_def n by linarith
  show ?thesis unfolding n using run_cools [of 298 f rnd] warm cold unfolding assms by blast
qed


theorem force_run_ends_witness:
  "\<exists>f'. force_run (\<lambda>_. 0) 299 three_force = Some f' \<and> f_alpha f' = 0 \<and> f_timers f' = 0 \<and>
    f_events f' = map (\<lambda>i. ForceTick (cooled (1 / 10) (Suc i))) [0..<298] @ [ForceEnd]"
proof -
  have "f_alpha three_force = 1 / 10" "f_timers three_force - 1 = 0" "f_events three_force = []" by (simp_all add: three_force_def)
  then show ?thesis using force_run_ends [of three_force "\<lambda>_. 0"] by (metis append_Nil)
qed

text \<open>A fixed node keeps its previous position, and goes there at the end of a tick.\<close>

definition at_rest :: "fnode \<Rightarrow> fnode \<Rightarrow> bool" where
  "at_rest n n' = (n_fixed n' = n_fixed n \<and> n_px n' = n_px n \<and> n_py n' = n_py n \<and> n_x n' = n_px n \<and> n_y n' = n_py n)"

lemma repel_fixed:
  assumes "repel rnd f nodes = Some (nodes', k)"
  shows "length nodes' = length nodes"
    and "i < length nodes \<Longrightarrow> n_fixed (nodes' ! i) = n_fixed (nodes ! i)"
    and "i < length nodes \<Longrightarrow> n_fixed (nodes ! i) \<noteq> 0 \<Longrightarrow> n_px (nodes' ! i) = n_px (nodes ! i) \<and> n_py (nodes' ! i) = n_py (nodes ! i)"
  using assms by (auto simp: repel_def Let_def case_prod_unfold set_places_def enumerate_eq_zip)

lemma pulled_state: "same_state (f_nodes f) (pulled f a)"
  unfolding pulled_def by (rule same_state_trans [OF relax_all_state gravitate_state])

lemma pushed_fixed:
  assumes "pushed rnd f a = Some (nodes', k)"
  shows "length nodes' = length (f_nodes f)"
    and "i < length (f_nodes f) \<Longrightarrow> n_fixed (nodes' ! i) = n_fixed (f_nodes f ! i)"
    and "i < length (f_nodes f) \<Longrightarrow> n_fixed (f_nodes f ! i) \<noteq> 0 \<Longrightarrow> n_px (nodes' ! i) = n_px (f_nodes f ! i) \<and> n_py (nodes' ! i) = n_py (f_nodes f ! i)"
proof -
  note ps = same_state_length [OF pulled_state [of f a]] same_state_nth [OF pulled_state [of f a]]
  show "length nodes' = length (f_nodes f)" using assms repel_fixed(1) ps(1) by (auto simp: pushed_def split: if_splits)
  show "n_fixed (nodes' ! i) = n_fixed (f_nodes f ! i)" if "i < length (f_nodes f)"
    using assms repel_fixed(2) [of rnd _ "pulled f a" nodes' k i] ps that by (auto simp: pushed_def split: if_splits)
  show "n_px (nodes' ! i) = n_px (f_nodes f ! i) \<and> n_py (nodes' ! i) = n_py (f_nodes f ! i)" if "i < length (f_nodes f)" "n_fixed (f_nodes f ! i) \<noteq> 0"
    using assms repel_fixed(3) [of rnd _ "pulled f a" nodes' k i] ps that by (auto simp: pushed_def split: if_splits)
qed

text \<open>
  Fixed nodes.  Whatever links, gravity and charges do, a tick that does not end the layout leaves every fixed node, the dragged one among them, exactly at its
  previous position.
\<close>

theorem force_tick_fixed:
  assumes "force_tick rnd f = Some (False, f')" "i < length (f_nodes f)" "n_fixed (f_nodes f ! i) \<noteq> 0"
  shows "at_rest (f_nodes f ! i) (f_nodes f' ! i)"
proof -
  let ?a = "f_alpha f * (99 / 100)"
  obtain nodes' k where p: "pushed rnd f ?a = Some (nodes', k)" using pushed_some by blast
  have "5 / 1000 \<le> ?a" using assms(1) by (auto simp: force_tick_def Let_def split: if_splits)
  from force_tick_warm [OF refl this p] assms(1) have "f_nodes f' = map (integrate (f_friction f)) nodes'" by auto
  then show ?thesis using pushed_fixed [OF p] assms(2,3) by (auto simp: at_rest_def integrate_def)
qed

theorem force_tick_fixed_witness:
  "\<exists>f'. force_tick (\<lambda>_. 0) three_force = Some (False, f') \<and> n_x (f_nodes f' ! 2) = 0 \<and> n_y (f_nodes f' ! 2) = 4"
proof -
  obtain f' where f': "force_tick (\<lambda>_. 0) three_force = Some (False, f')" using tick_warm [of three_force] by (auto simp: three_force_def)
  have "at_rest (f_nodes three_force ! 2) (f_nodes f' ! 2)" by (rule force_tick_fixed [OF f']) (simp_all add: three_force_def three_nodes_def)
  then show ?thesis using f' by (simp add: at_rest_def three_force_def three_nodes_def)
qed

text \<open>
  A layout that is stopped and resumed before its next tick is running twice: \<open>stop\<close> only clears \<open>alpha\<close> and leaves the timer to end itself, so \<open>resume\<close> starts another one, and
  every later round of the timers advances and cools the layout by two ticks.
\<close>

theorem force_resume_twice:
  assumes "f_alpha f \<noteq> 0"
  shows "f_timers (force_resume (force_stop f)) = Suc (f_timers f) \<and> f_alpha (force_resume (force_stop f)) = 1 / 10"
  using assms by (simp add: force_resume_def force_stop_def force_alpha_def)

theorem force_resume_twice_witness: "f_timers (force_resume (force_stop three_force)) = 2"
proof -
  have "f_alpha three_force \<noteq> 0" "f_timers three_force = 1" by (simp_all add: three_force_def)
  then show ?thesis using force_resume_twice [of three_force] by simp
qed


text \<open>
  A coordinate that is missing is always drawn at random, also where a neighbour has one.
\<close>

lemma position_random: "i < length nodes \<Longrightarrow> position rnd i dmn sz nodes k = (rnd k * sz, Suc k)"
  by (simp add: position_def neighbors_def)

end
