(* ===== verification/D3_Line.thy ===== *)
theory D3_Line
  imports D3_Geom
begin

text \<open>
  Path generators for lines and areas (\<open>d3.js\<close> lines 7867 to 8225).

  A path is the array of strings and numbers that the code joins: \<open>Txt\<close> a string, \<open>Num\<close> a finite number, whose
  text it contains.  A point in a string is its two coordinates with a comma.
  Literal digits in strings of the code are numbers here.  The interpolators are called with at least one point.
\<close>

section \<open>Paths\<close>

datatype tok = Txt string | Num real

type_synonym path = "tok list"

definition point_text :: "pt \<Rightarrow> path" where
  "point_text p = [Num (fst p), Txt '','', Num (snd p)]"

section \<open>Interpolators\<close>

fun d3_svg_lineLinear :: "pt list \<Rightarrow> path" where
  "d3_svg_lineLinear [] = []"
| "d3_svg_lineLinear [p] = point_text p"
| "d3_svg_lineLinear (p # ps) = point_text p @ [Txt ''L''] @ d3_svg_lineLinear ps"

definition d3_svg_lineLinearClosed :: "pt list \<Rightarrow> path" where
  "d3_svg_lineLinearClosed points = d3_svg_lineLinear points @ [Txt ''Z'']"

fun step_loop :: "pt \<Rightarrow> pt list \<Rightarrow> path" where
  "step_loop p [] = []"
| "step_loop p (q # qs) = [Txt ''H'', Num ((fst p + fst q) / 2), Txt ''V'', Num (snd q)] @ step_loop q qs"

definition d3_svg_lineStep :: "pt list \<Rightarrow> path" where
  "d3_svg_lineStep points = point_text (hd points) @ step_loop (hd points) (tl points) @
     (if length points > 1 then [Txt ''H'', Num (fst (last points))] else [])"

definition d3_svg_lineStepBefore :: "pt list \<Rightarrow> path" where
  "d3_svg_lineStepBefore points = point_text (hd points) @ concat (map (\<lambda>p. [Txt ''V'', Num (snd p), Txt ''H'', Num (fst p)]) (tl points))"

definition d3_svg_lineStepAfter :: "pt list \<Rightarrow> path" where
  "d3_svg_lineStepAfter points = point_text (hd points) @ concat (map (\<lambda>p. [Txt ''H'', Num (fst p), Txt ''V'', Num (snd p)]) (tl points))"

subsection \<open>Hermite splines\<close>

definition shift_pt :: "pt \<Rightarrow> real \<Rightarrow> pt \<Rightarrow> pt" where
  "shift_pt p k t = (fst p + k * fst t, snd p + k * snd t)"

definition points_text :: "pt list \<Rightarrow> path" where
  "points_text ps = tl (concat (map (\<lambda>p. Txt '','' # point_text p) ps))"

text \<open>The loop over the tangents from the third on; it also returns the last point and tangent, and the points that are left.\<close>

fun hermite_loop :: "pt \<Rightarrow> pt \<Rightarrow> pt list \<Rightarrow> pt list \<Rightarrow> path \<times> pt \<times> pt \<times> pt list" where
  "hermite_loop p t (q # ps) (u # ts) =
     (let (path, r) = hermite_loop q u ps ts in ([Txt ''S''] @ points_text [shift_pt q (- 1) u, q] @ path, r))"
| "hermite_loop p t ps ts = ([], p, t, ps)"

definition hermite_middle :: "pt \<Rightarrow> pt \<Rightarrow> pt \<Rightarrow> pt list \<Rightarrow> pt list \<Rightarrow> path \<times> pt \<times> pt \<times> pt list" where
  "hermite_middle p0 p t0 ps ts = (case (ps, ts) of
     (q # ps', t # ts') \<Rightarrow>
       (let (path, r) = hermite_loop q t ps' ts' in ([Txt ''C''] @ points_text [shift_pt p0 1 t0, shift_pt q (- 1) t, q] @ path, r))
   | _ \<Rightarrow> ([], p, t0, ps))"

definition d3_svg_lineHermite :: "pt list \<Rightarrow> pt list \<Rightarrow> path" where
  "d3_svg_lineHermite points tangents =
     (if length tangents < 1 \<or> length points \<noteq> length tangents \<and> length points \<noteq> length tangents + 2 then d3_svg_lineLinear points
      else
        let quad = (length points \<noteq> length tangents); t0 = tangents ! 0;
            p0 = (if quad then points ! 1 else points ! 0); p = points ! 1;
            path = (if quad then [Txt ''Q''] @ points_text [shift_pt p (- 2 / 3) t0, p] else []);
            (path', p', t', rest) = hermite_middle p0 p t0 (drop (if quad then 2 else 1) points) (drop 1 tangents)
        in path @ path' @ (if quad then [Txt ''Q''] @ points_text [shift_pt p' (2 / 3) t', hd rest] else []))"

fun cardinal_tangents :: "real \<Rightarrow> pt list \<Rightarrow> pt list" where
  "cardinal_tangents a (p0 # p1 # p2 # ps) = (a * (fst p2 - fst p0), a * (snd p2 - snd p0)) # cardinal_tangents a (p1 # p2 # ps)"
| "cardinal_tangents a ps = []"

definition d3_svg_lineCardinalTangents :: "pt list \<Rightarrow> real \<Rightarrow> pt list" where
  "d3_svg_lineCardinalTangents points tension = cardinal_tangents ((1 - tension) / 2) points"

definition d3_svg_lineCardinalOpen :: "pt list \<Rightarrow> real \<Rightarrow> path" where
  "d3_svg_lineCardinalOpen points tension =
     (if length points < 4 then d3_svg_lineLinear points
      else point_text (points ! 1) @ d3_svg_lineHermite (butlast (tl points)) (d3_svg_lineCardinalTangents points tension))"

definition d3_svg_lineCardinalClosed :: "pt list \<Rightarrow> real \<Rightarrow> path" where
  "d3_svg_lineCardinalClosed points tension =
     (if length points < 3 then d3_svg_lineLinear points
      else let points' = points @ [hd points]
           in point_text (hd points) @ d3_svg_lineHermite points'
                (d3_svg_lineCardinalTangents ([points' ! (length points' - 2)] @ points' @ [points' ! 1]) tension))"

definition d3_svg_lineCardinal :: "pt list \<Rightarrow> real \<Rightarrow> path" where
  "d3_svg_lineCardinal points tension =
     (if length points < 3 then d3_svg_lineLinear points
      else point_text (hd points) @ d3_svg_lineHermite points (d3_svg_lineCardinalTangents points tension))"

subsection \<open>B-splines\<close>

definition d3_svg_lineDot4 :: "real list \<Rightarrow> real list \<Rightarrow> real" where
  "d3_svg_lineDot4 a b = a ! 0 * b ! 0 + a ! 1 * b ! 1 + a ! 2 * b ! 2 + a ! 3 * b ! 3"

definition d3_svg_lineBasisBezier1 :: "real list" where
  "d3_svg_lineBasisBezier1 = [0, 2 / 3, 1 / 3, 0]"

definition d3_svg_lineBasisBezier2 :: "real list" where
  "d3_svg_lineBasisBezier2 = [0, 1 / 3, 2 / 3, 0]"

definition d3_svg_lineBasisBezier3 :: "real list" where
  "d3_svg_lineBasisBezier3 = [0, 1 / 6, 2 / 3, 1 / 6]"

text \<open>The last four points, whose coordinates the code keeps as \<open>px\<close> and \<open>py\<close>.\<close>

definition dot_point :: "real list \<Rightarrow> pt list \<Rightarrow> pt" where
  "dot_point a w = (d3_svg_lineDot4 a (map fst w), d3_svg_lineDot4 a (map snd w))"

definition d3_svg_lineBasisBezier :: "pt list \<Rightarrow> path" where
  "d3_svg_lineBasisBezier w =
     [Txt ''C''] @ points_text [dot_point d3_svg_lineBasisBezier1 w, dot_point d3_svg_lineBasisBezier2 w, dot_point d3_svg_lineBasisBezier3 w]"

fun basis_loop :: "pt list \<Rightarrow> pt list \<Rightarrow> path" where
  "basis_loop w [] = []"
| "basis_loop w (p # ps) = d3_svg_lineBasisBezier (tl w @ [p]) @ basis_loop (tl w @ [p]) ps"

definition d3_svg_lineBasis :: "pt list \<Rightarrow> path" where
  "d3_svg_lineBasis points =
     (if length points < 3 then d3_svg_lineLinear points
      else let p0 = points ! 0; w = [p0, p0, p0, points ! 1]
           in point_text p0 @ [Txt ''L''] @ point_text (dot_point d3_svg_lineBasisBezier3 w) @
              basis_loop w (drop 2 (points @ [last points])) @ [Txt ''L''] @ point_text (last points))"

definition d3_svg_lineBasisOpen :: "pt list \<Rightarrow> path" where
  "d3_svg_lineBasisOpen points =
     (if length points < 4 then d3_svg_lineLinear points
      else let w = (0, 0) # take 3 points
           in point_text (dot_point d3_svg_lineBasisBezier3 w) @ basis_loop w (drop 3 points))"

definition d3_svg_lineBasisClosed :: "pt list \<Rightarrow> path" where
  "d3_svg_lineBasisClosed points =
     (let n = length points; w = map (\<lambda>i. points ! (i mod n)) [0..<4]
      in point_text (dot_point d3_svg_lineBasisBezier3 w) @ basis_loop w (map (\<lambda>i. points ! (i mod n)) [4..<n + 4]))"

definition d3_svg_lineBundle :: "pt list \<Rightarrow> real \<Rightarrow> path" where
  "d3_svg_lineBundle points tension =
     (let n = length points - 1
      in if n \<noteq> 0 then
           let x0 = fst (points ! 0); y0 = snd (points ! 0); dx = fst (points ! n) - x0; dy = snd (points ! n) - y0
           in d3_svg_lineBasis (map (\<lambda>(i, p). let t = real i / real n
                in (tension * fst p + (1 - tension) * (x0 + t * dx), tension * snd p + (1 - tension) * (y0 + t * dy))) (enumerate 0 points))
         else d3_svg_lineBasis points)"

subsection \<open>Monotone splines\<close>

text \<open>A slope between points with equal first coordinates is infinite or no number; a tangent of no number is zero.\<close>

definition d3_svg_lineSlope :: "pt \<Rightarrow> pt \<Rightarrow> jsnum" where
  "d3_svg_lineSlope p0 p1 = js_div (Fin (snd p1 - snd p0)) (Fin (fst p1 - fst p0))"

fun differences_loop :: "jsnum \<Rightarrow> pt \<Rightarrow> pt list \<Rightarrow> jsnum list" where
  "differences_loop d p1 [] = [d]"
| "differences_loop d p1 (p # ps) = js_div (js_add d (d3_svg_lineSlope p1 p)) (Fin 2) # differences_loop (d3_svg_lineSlope p1 p) p ps"

definition d3_svg_lineFiniteDifferences :: "pt list \<Rightarrow> jsnum list" where
  "d3_svg_lineFiniteDifferences points =
     (let d = d3_svg_lineSlope (points ! 0) (points ! 1) in d # differences_loop d (points ! 1) (drop 2 points))"

fun js_sqrt :: "jsnum \<Rightarrow> jsnum" where
  "js_sqrt (Fin x) = (if x < 0 then NaN else Fin (sqrt x))"
| "js_sqrt PInf = PInf"
| "js_sqrt NInf = NaN"
| "js_sqrt NaN = NaN"

fun js_abs :: "jsnum \<Rightarrow> jsnum" where
  "js_abs (Fin x) = Fin \<bar>x\<bar>"
| "js_abs NInf = PInf"
| "js_abs x = x"

definition limit_slopes :: "jsnum \<Rightarrow> jsnum \<Rightarrow> jsnum \<Rightarrow> jsnum \<times> jsnum" where
  "limit_slopes d m m' =
     (if num_lt (js_abs d) (Fin (1 / 1000000)) then (Fin 0, Fin 0)
      else let a = js_div m d; b = js_div m' d; s = js_add (js_mul a a) (js_mul b b)
           in if num_lt (Fin 9) s then let s' = js_div (js_mul d (Fin 3)) (js_sqrt s) in (js_mul s' a, js_mul s' b) else (m, m'))"

fun monotone_loop :: "pt list \<Rightarrow> jsnum list \<Rightarrow> jsnum list" where
  "monotone_loop (p # q # ps) (m # m' # ms) =
     (let (k, k') = limit_slopes (d3_svg_lineSlope p q) m m' in k # monotone_loop (q # ps) (k' # ms))"
| "monotone_loop ps ms = ms"

definition js_or0 :: "jsnum \<Rightarrow> jsnum" where
  "js_or0 x = (if x = NaN then Fin 0 else x)"

definition monotone_tangent :: "real \<Rightarrow> jsnum \<Rightarrow> jsnum \<times> jsnum" where
  "monotone_tangent dx m =
     (let s = js_div (Fin dx) (js_mul (Fin 6) (js_add (Fin 1) (js_mul m m))) in (js_or0 s, js_or0 (js_mul m s)))"

definition fin_of :: "jsnum \<Rightarrow> real" where
  "fin_of x = (case x of Fin r \<Rightarrow> r | _ \<Rightarrow> 0)"

text \<open>All tangents are finite, see \<open>monotone_tangent_finite\<close>, so \<open>fin_of\<close> only takes their values.\<close>

definition d3_svg_lineMonotoneTangents :: "pt list \<Rightarrow> pt list" where
  "d3_svg_lineMonotoneTangents points =
     (let j = length points - 1; m = monotone_loop points (d3_svg_lineFiniteDifferences points)
      in map (\<lambda>i. map_prod fin_of fin_of (monotone_tangent (fst (points ! min j (i + 1)) - fst (points ! (i - 1))) (m ! i))) [0..<Suc j])"

definition d3_svg_lineMonotone :: "pt list \<Rightarrow> path" where
  "d3_svg_lineMonotone points =
     (if length points < 3 then d3_svg_lineLinear points
      else point_text (hd points) @ d3_svg_lineHermite points (d3_svg_lineMonotoneTangents points))"

subsection \<open>The table of interpolators\<close>

datatype line_interpolator = Linear | LinearClosed | Step | StepBefore | StepAfter | Basis | BasisOpen | BasisClosed | Bundle
  | Cardinal | CardinalOpen | CardinalClosed | Monotone | Custom "pt list \<Rightarrow> real \<Rightarrow> path"

definition d3_svg_lineInterpolators :: "(string \<times> line_interpolator) list" where
  "d3_svg_lineInterpolators = [(''linear'', Linear), (''linear-closed'', LinearClosed), (''step'', Step), (''step-before'', StepBefore),
     (''step-after'', StepAfter), (''basis'', Basis), (''basis-open'', BasisOpen), (''basis-closed'', BasisClosed), (''bundle'', Bundle),
     (''cardinal'', Cardinal), (''cardinal-open'', CardinalOpen), (''cardinal-closed'', CardinalClosed), (''monotone'', Monotone)]"

fun interpolate_with :: "line_interpolator \<Rightarrow> pt list \<Rightarrow> real \<Rightarrow> path" where
  "interpolate_with Linear points _ = d3_svg_lineLinear points"
| "interpolate_with LinearClosed points _ = d3_svg_lineLinearClosed points"
| "interpolate_with Step points _ = d3_svg_lineStep points"
| "interpolate_with StepBefore points _ = d3_svg_lineStepBefore points"
| "interpolate_with StepAfter points _ = d3_svg_lineStepAfter points"
| "interpolate_with Basis points _ = d3_svg_lineBasis points"
| "interpolate_with BasisOpen points _ = d3_svg_lineBasisOpen points"
| "interpolate_with BasisClosed points _ = d3_svg_lineBasisClosed points"
| "interpolate_with Bundle points tension = d3_svg_lineBundle points tension"
| "interpolate_with Cardinal points tension = d3_svg_lineCardinal points tension"
| "interpolate_with CardinalOpen points tension = d3_svg_lineCardinalOpen points tension"
| "interpolate_with CardinalClosed points tension = d3_svg_lineCardinalClosed points tension"
| "interpolate_with Monotone points _ = d3_svg_lineMonotone points"
| "interpolate_with (Custom f) points tension = f points tension"

definition interpolator_named :: "string \<Rightarrow> line_interpolator" where
  "interpolator_named k = (case map_of d3_svg_lineInterpolators k of None \<Rightarrow> Linear | Some f \<Rightarrow> f)"

definition interpolator_closed :: "line_interpolator \<Rightarrow> bool" where
  "interpolator_closed f = (case f of LinearClosed \<Rightarrow> True | BasisClosed \<Rightarrow> True | CardinalClosed \<Rightarrow> True | _ \<Rightarrow> False)"

definition interpolator_reverse :: "line_interpolator \<Rightarrow> line_interpolator" where
  "interpolator_reverse f = (case f of StepBefore \<Rightarrow> StepAfter | StepAfter \<Rightarrow> StepBefore | _ \<Rightarrow> f)"

section \<open>Lines\<close>

record 'd svg_line =
  line_projection :: "pt list \<Rightarrow> pt list"
  line_x :: "'d \<Rightarrow> nat \<Rightarrow> real"
  line_y :: "'d \<Rightarrow> nat \<Rightarrow> real"
  line_defined :: "'d \<Rightarrow> nat \<Rightarrow> bool"
  line_interpolate :: line_interpolator
  line_tension :: real

definition d3_svg_line :: "(pt list \<Rightarrow> pt list) \<Rightarrow> pt svg_line" where
  "d3_svg_line proj = \<lparr>line_projection = proj, line_x = \<lambda>d _. fst d, line_y = \<lambda>d _. snd d, line_defined = \<lambda>_ _. True,
     line_interpolate = Linear, line_tension = 7 / 10\<rparr>"

definition d3_svg_lineRadial :: "pt list \<Rightarrow> pt list" where
  "d3_svg_lineRadial points = map (\<lambda>p. (fst p * cos (snd p - pi / 2), fst p * sin (snd p - pi / 2))) points"

definition line_segment :: "'d svg_line \<Rightarrow> pt list \<Rightarrow> path" where
  "line_segment l points = Txt ''M'' # interpolate_with (line_interpolate l) (line_projection l points) (line_tension l)"

fun line_loop :: "'d svg_line \<Rightarrow> nat \<Rightarrow> 'd list \<Rightarrow> pt list \<Rightarrow> path" where
  "line_loop l i [] points = (if points \<noteq> [] then line_segment l points else [])"
| "line_loop l i (d # data) points =
     (if line_defined l d i then line_loop l (Suc i) data (points @ [(line_x l d i, line_y l d i)])
      else if points \<noteq> [] then line_segment l points @ line_loop l (Suc i) data []
      else line_loop l (Suc i) data points)"

text \<open>The path of the data, or null where nothing is defined.\<close>

definition line_path :: "'d svg_line \<Rightarrow> 'd list \<Rightarrow> path option" where
  "line_path l data = (let segments = line_loop l 0 data [] in if segments \<noteq> [] then Some segments else None)"

definition line_set_interpolate :: "'d svg_line \<Rightarrow> string \<Rightarrow> 'd svg_line" where
  "line_set_interpolate l k = l\<lparr>line_interpolate := interpolator_named k\<rparr>"

definition line_set_x :: "'d svg_line \<Rightarrow> ('d \<Rightarrow> nat \<Rightarrow> real) \<Rightarrow> 'd svg_line" where
  "line_set_x l v = l\<lparr>line_x := v\<rparr>"

definition line_set_y :: "'d svg_line \<Rightarrow> ('d \<Rightarrow> nat \<Rightarrow> real) \<Rightarrow> 'd svg_line" where
  "line_set_y l v = l\<lparr>line_y := v\<rparr>"

definition line_set_defined :: "'d svg_line \<Rightarrow> ('d \<Rightarrow> nat \<Rightarrow> bool) \<Rightarrow> 'd svg_line" where
  "line_set_defined l v = l\<lparr>line_defined := v\<rparr>"

definition line_set_tension :: "'d svg_line \<Rightarrow> (real) \<Rightarrow> 'd svg_line" where
  "line_set_tension l v = l\<lparr>line_tension := v\<rparr>"

section \<open>Areas\<close>

text \<open>
  An area has two accessors for each coordinate; where they are one and the same function, the second value is the first one.
\<close>

record 'd svg_area =
  area_projection :: "pt list \<Rightarrow> pt list"
  area_x0 :: "'d \<Rightarrow> nat \<Rightarrow> real"
  area_x1 :: "('d \<Rightarrow> nat \<Rightarrow> real) option"
  area_y0 :: "'d \<Rightarrow> nat \<Rightarrow> real"
  area_y1 :: "('d \<Rightarrow> nat \<Rightarrow> real) option"
  area_defined :: "'d \<Rightarrow> nat \<Rightarrow> bool"
  area_interpolate :: line_interpolator
  area_tension :: real

definition d3_svg_area :: "(pt list \<Rightarrow> pt list) \<Rightarrow> pt svg_area" where
  "d3_svg_area proj = \<lparr>area_projection = proj, area_x0 = \<lambda>d _. fst d, area_x1 = None, area_y0 = \<lambda>_ _. 0, area_y1 = Some (\<lambda>d _. snd d),
     area_defined = \<lambda>_ _. True, area_interpolate = Linear, area_tension = 7 / 10\<rparr>"

definition area_low :: "'d svg_area \<Rightarrow> 'd \<Rightarrow> nat \<Rightarrow> pt" where
  "area_low a d i = (area_x0 a d i, area_y0 a d i)"

definition area_high :: "'d svg_area \<Rightarrow> 'd \<Rightarrow> nat \<Rightarrow> pt" where
  "area_high a d i = ((case area_x1 a of None \<Rightarrow> area_x0 a d i | Some f \<Rightarrow> f d i), (case area_y1 a of None \<Rightarrow> area_y0 a d i | Some f \<Rightarrow> f d i))"

definition area_segment :: "'d svg_area \<Rightarrow> pt list \<Rightarrow> pt list \<Rightarrow> path" where
  "area_segment a points0 points1 = Txt ''M'' # interpolate_with (area_interpolate a) (area_projection a points1) (area_tension a) @
     Txt (if interpolator_closed (area_interpolate a) then ''M'' else ''L'') #
     interpolate_with (interpolator_reverse (area_interpolate a)) (area_projection a (rev points0)) (area_tension a) @ [Txt ''Z'']"

fun area_loop :: "'d svg_area \<Rightarrow> nat \<Rightarrow> 'd list \<Rightarrow> pt list \<Rightarrow> pt list \<Rightarrow> path" where
  "area_loop a i [] points0 points1 = (if points0 \<noteq> [] then area_segment a points0 points1 else [])"
| "area_loop a i (d # data) points0 points1 =
     (if area_defined a d i then area_loop a (Suc i) data (points0 @ [area_low a d i]) (points1 @ [area_high a d i])
      else if points0 \<noteq> [] then area_segment a points0 points1 @ area_loop a (Suc i) data [] []
      else area_loop a (Suc i) data points0 points1)"

definition area_path :: "'d svg_area \<Rightarrow> 'd list \<Rightarrow> path option" where
  "area_path a data = (let segments = area_loop a 0 data [] [] in if segments \<noteq> [] then Some segments else None)"

definition area_set_interpolate :: "'d svg_area \<Rightarrow> string \<Rightarrow> 'd svg_area" where
  "area_set_interpolate a k = a\<lparr>area_interpolate := interpolator_named k\<rparr>"

text \<open>Setting one of two accessors keeps the other one.\<close>

definition area_set_x0 :: "'d svg_area \<Rightarrow> ('d \<Rightarrow> nat \<Rightarrow> real) \<Rightarrow> 'd svg_area" where
  "area_set_x0 a f = a\<lparr>area_x0 := f, area_x1 := Some (case area_x1 a of None \<Rightarrow> area_x0 a | Some g \<Rightarrow> g)\<rparr>"

definition area_set_x1 :: "'d svg_area \<Rightarrow> ('d \<Rightarrow> nat \<Rightarrow> real) \<Rightarrow> 'd svg_area" where
  "area_set_x1 a f = a\<lparr>area_x1 := Some f\<rparr>"

definition area_set_y0 :: "'d svg_area \<Rightarrow> ('d \<Rightarrow> nat \<Rightarrow> real) \<Rightarrow> 'd svg_area" where
  "area_set_y0 a f = a\<lparr>area_y0 := f, area_y1 := Some (case area_y1 a of None \<Rightarrow> area_y0 a | Some g \<Rightarrow> g)\<rparr>"

definition area_set_y1 :: "'d svg_area \<Rightarrow> ('d \<Rightarrow> nat \<Rightarrow> real) \<Rightarrow> 'd svg_area" where
  "area_set_y1 a f = a\<lparr>area_y1 := Some f\<rparr>"

definition area_set_x :: "'d svg_area \<Rightarrow> ('d \<Rightarrow> nat \<Rightarrow> real) \<Rightarrow> 'd svg_area" where
  "area_set_x a f = a\<lparr>area_x0 := f, area_x1 := None\<rparr>"

definition area_set_y :: "'d svg_area \<Rightarrow> ('d \<Rightarrow> nat \<Rightarrow> real) \<Rightarrow> 'd svg_area" where
  "area_set_y a f = a\<lparr>area_y0 := f, area_y1 := None\<rparr>"

definition area_set_defined :: "'d svg_area \<Rightarrow> ('d \<Rightarrow> nat \<Rightarrow> bool) \<Rightarrow> 'd svg_area" where
  "area_set_defined a v = a\<lparr>area_defined := v\<rparr>"

definition area_set_tension :: "'d svg_area \<Rightarrow> (real) \<Rightarrow> 'd svg_area" where
  "area_set_tension a v = a\<lparr>area_tension := v\<rparr>"

end
