(* ===== verification/D3_Line_Facts.thy ===== *)
theory D3_Line_Facts
  imports D3_Line
begin

text \<open>
  What the paths of lines and areas draw.  Path data is read by the grammar of SVG paths, as far as the code uses it: a command letter and its numbers, into
  pieces of lines, curves and arcs.  Every path is well formed; Hermite splines pass through their points with the tangents they are given;
  B-splines are smooth and stay inside the box of their points.
\<close>

section \<open>Reading paths\<close>

type_synonym cmd = "char \<times> real list"

fun chunk :: "path \<Rightarrow> real list \<times> cmd list" where
  "chunk [] = ([], [])"
| "chunk (Num x # ts) = (case chunk ts of (ns, cs) \<Rightarrow> (x # ns, cs))"
| "chunk (Txt s # ts) = (case chunk ts of (ns, cs) \<Rightarrow> if s = '','' \<or> s = '' '' then (ns, cs) else ([], (hd s, ns) # cs))"

lemma chunk_pairs:
  "chunk (Num x # ts) = (x # fst (chunk ts), snd (chunk ts))"
  "chunk (Txt s # ts) = (if s = '','' \<or> s = '' '' then chunk ts else ([], (hd s, fst (chunk ts)) # snd (chunk ts)))"
  by (simp_all add: case_prod_unfold)

lemmas chunk_eval = chunk.simps

declare chunk.simps(2,3) [simp del]

declare chunk_pairs [simp]

datatype piece = LinePiece pt pt | CubicPiece pt pt pt pt | QuadPiece pt pt pt | ArcPiece pt real real bool bool pt

record pen =
  pen_start :: pt
  pen_at :: pt
  pen_control :: "pt option"

definition pen_to :: "pen \<Rightarrow> pt \<Rightarrow> pt option \<Rightarrow> pen" where
  "pen_to pn p c = pn\<lparr>pen_at := p, pen_control := c\<rparr>"

fun line_run :: "pen \<Rightarrow> real list \<Rightarrow> (piece list \<times> pen) option" where
  "line_run pn [] = Some ([], pn)"
| "line_run pn [x] = None"
| "line_run pn (x # y # ns) = map_option (\<lambda>(ps, pn'). (LinePiece (pen_at pn) (x, y) # ps, pn')) (line_run (pen_to pn (x, y) None) ns)"

text \<open>The first control point of a smooth curve is the reflection of the last one of the curve before.\<close>

definition reflected :: "pen \<Rightarrow> pt" where
  "reflected pn = (case pen_control pn of None \<Rightarrow> pen_at pn | Some c \<Rightarrow> (2 * fst (pen_at pn) - fst c, 2 * snd (pen_at pn) - snd c))"

definition draw_cmd :: "pen \<Rightarrow> cmd \<Rightarrow> (piece list \<times> pen) option" where
  "draw_cmd pn cmd = (let (c, ns) = cmd in
     if c = CHR ''M'' then (case ns of [x, y] \<Rightarrow> Some ([], \<lparr>pen_start = (x, y), pen_at = (x, y), pen_control = None\<rparr>) | _ \<Rightarrow> None)
     else if c = CHR ''L'' then (if ns = [] then None else line_run pn ns)
     else if c = CHR ''H'' then (case ns of [x] \<Rightarrow> line_run pn [x, snd (pen_at pn)] | _ \<Rightarrow> None)
     else if c = CHR ''V'' then (case ns of [y] \<Rightarrow> line_run pn [fst (pen_at pn), y] | _ \<Rightarrow> None)
     else if c = CHR ''C'' then (case ns of [x1, y1, x2, y2, x, y] \<Rightarrow>
       Some ([CubicPiece (pen_at pn) (x1, y1) (x2, y2) (x, y)], pen_to pn (x, y) (Some (x2, y2))) | _ \<Rightarrow> None)
     else if c = CHR ''S'' then (case ns of [x2, y2, x, y] \<Rightarrow>
       Some ([CubicPiece (pen_at pn) (reflected pn) (x2, y2) (x, y)], pen_to pn (x, y) (Some (x2, y2))) | _ \<Rightarrow> None)
     else if c = CHR ''Q'' then (case ns of [x1, y1, x, y] \<Rightarrow> Some ([QuadPiece (pen_at pn) (x1, y1) (x, y)], pen_to pn (x, y) None) | _ \<Rightarrow> None)
     else if c = CHR ''A'' then (case ns of [rx, ry, rot, large, swp, x, y] \<Rightarrow>
       Some ([ArcPiece (pen_at pn) rx ry (large \<noteq> 0) (swp \<noteq> 0) (x, y)], pen_to pn (x, y) None) | _ \<Rightarrow> None)
     else if c = CHR ''Z'' then (case ns of [] \<Rightarrow> Some ([LinePiece (pen_at pn) (pen_start pn)], pen_to pn (pen_start pn) None) | _ \<Rightarrow> None)
     else None)"

fun draw :: "pen \<Rightarrow> cmd list \<Rightarrow> (piece list \<times> pen) option" where
  "draw pn [] = Some ([], pn)"
| "draw pn (c # cs) = (case draw_cmd pn c of
     None \<Rightarrow> None
   | Some (ps, pn') \<Rightarrow> map_option (\<lambda>(qs, pn''). (ps @ qs, pn'')) (draw pn' cs))"

definition origin :: pen where
  "origin = \<lparr>pen_start = (0, 0), pen_at = (0, 0), pen_control = None\<rparr>"

text \<open>A path has no numbers before its first command, which moves.\<close>

definition read_path :: "path \<Rightarrow> (piece list \<times> pen) option" where
  "read_path path = (case chunk path of
     ([], (c, ns) # cs) \<Rightarrow> if c = CHR ''M'' then draw origin ((c, ns) # cs) else None
   | _ \<Rightarrow> None)"

section \<open>Well-formed paths\<close>

text \<open>
  The code joins the texts with no separator of its own, so two numbers must have a comma or a space between them, and a comma or a space stands only between
  numbers.  The characters of a number are digits, its signs, the point and the exponent, so a scanner that takes the longest run of them finds the tokens
  of such a path again.
\<close>

definition command_letter :: "string \<Rightarrow> bool" where
  "command_letter s = (s \<in> {''M'', ''L'', ''H'', ''V'', ''C'', ''S'', ''Q'', ''A'', ''Z''})"

fun separated :: "path \<Rightarrow> bool" where
  "separated [] = True"
| "separated [Num x] = True"
| "separated (Num x # Num y # ts) = False"
| "separated (Num x # Txt s # ts) =
     (if s = '','' \<or> s = '' '' then (case ts of Num y # us \<Rightarrow> True | _ \<Rightarrow> False) \<and> separated ts else command_letter s \<and> separated ts)"
| "separated (Txt s # ts) = (command_letter s \<and> separated ts)"

definition number_char :: "char \<Rightarrow> bool" where
  "number_char c = (c \<in> set ''0123456789.+-e'')"

fun scan_path :: "string \<Rightarrow> string list" where
  "scan_path [] = []"
| "scan_path (c # cs) = (if number_char c then
     (case scan_path cs of w # ws \<Rightarrow> if number_char (hd w) then (c # w) # ws else [c] # w # ws | [] \<Rightarrow> [[c]])
   else [c] # scan_path cs)"

fun written :: "(real \<Rightarrow> string) \<Rightarrow> tok \<Rightarrow> string" where
  "written str (Num x) = str x"
| "written str (Txt s) = s"

definition writes_numbers :: "(real \<Rightarrow> string) \<Rightarrow> bool" where
  "writes_numbers str = (\<forall>x. str x \<noteq> [] \<and> list_all number_char (str x))"

lemma separated_command: "command_letter s \<Longrightarrow> s \<noteq> '','' \<and> s \<noteq> '' '' \<and> (\<exists>c. s = [c] \<and> \<not> number_char c)"
  by (auto simp: command_letter_def number_char_def)

lemma separator_scans: "\<not> number_char CHR '','' \<and> \<not> number_char CHR '' ''"
  by (simp add: number_char_def)

lemma scan_other: "\<not> number_char c \<Longrightarrow> scan_path (c # cs) = [c] # scan_path cs"
  by simp

lemma scan_number:
  assumes "list_all number_char w" "w \<noteq> []" "case cs of [] \<Rightarrow> True | c # _ \<Rightarrow> \<not> number_char c"
  shows "scan_path (w @ cs) = w # scan_path cs"
  using assms
proof (induction w)
  case (Cons c w)
  show ?case
  proof (cases "w = []")
    case True
    then show ?thesis using Cons(2,4) by (auto split: list.splits)
  next
    case False
    then show ?thesis using Cons by (cases w) auto
  qed
qed simp

lemma scan_separated: "separated path \<Longrightarrow> writes_numbers str \<Longrightarrow> scan_path (concat (map (written str) path)) = map (written str) path"
proof (induction path rule: separated.induct)
  case (2 x)
  then show ?case using scan_number [of "str x" "[]"] by (simp add: writes_numbers_def)
next
  case (4 x s ts)
  obtain c where c: "s = [c]" "\<not> number_char c" using 4(3) separated_command separator_scans by (auto split: if_splits)
  then have "scan_path (concat (map (written str) ts)) = map (written str) ts" using 4 by (auto split: if_splits)
  then show ?case using scan_number [of "str x" "c # concat (map (written str) ts)"] c 4(4) by (simp add: writes_numbers_def)
next
  case (5 s ts)
  then obtain c where "s = [c]" "\<not> number_char c" using separated_command by auto
  then show ?case using 5 by simp
qed simp_all

definition arity_ok :: "cmd \<Rightarrow> bool" where
  "arity_ok cmd = (let (c, ns) = cmd in
     c = CHR ''M'' \<and> length ns = 2 \<or> c = CHR ''L'' \<and> ns \<noteq> [] \<and> even (length ns) \<or> c = CHR ''H'' \<and> length ns = 1 \<or> c = CHR ''V'' \<and> length ns = 1 \<or>
     c = CHR ''C'' \<and> length ns = 6 \<or> c = CHR ''S'' \<and> length ns = 4 \<or> c = CHR ''Q'' \<and> length ns = 4 \<or> c = CHR ''A'' \<and> length ns = 7 \<or> c = CHR ''Z'' \<and> ns = [])"

lemma length_eqs:
  "length xs = 2 \<longleftrightarrow> (\<exists>a b. xs = [a, b])" "length xs = 4 \<longleftrightarrow> (\<exists>a b c d. xs = [a, b, c, d])"
  "length xs = 6 \<longleftrightarrow> (\<exists>a b c d e f. xs = [a, b, c, d, e, f])" "length xs = 7 \<longleftrightarrow> (\<exists>a b c d e f g. xs = [a, b, c, d, e, f, g])"
  "length xs = Suc 0 \<longleftrightarrow> (\<exists>a. xs = [a])"
  by (auto simp: numeral_eq_Suc length_Suc_conv)

lemma line_run_even: "even (length ns) \<Longrightarrow> \<exists>ps e. line_run pn ns = Some (ps, e)"
  by (induction pn ns rule: line_run.induct) auto

lemma draw_cmd_simps [simp]:
  "draw_cmd pn (CHR ''M'', [x, y]) = Some ([], \<lparr>pen_start = (x, y), pen_at = (x, y), pen_control = None\<rparr>)"
  "ns \<noteq> [] \<Longrightarrow> draw_cmd pn (CHR ''L'', ns) = line_run pn ns"
  "draw_cmd pn (CHR ''H'', [x]) = line_run pn [x, snd (pen_at pn)]"
  "draw_cmd pn (CHR ''V'', [y]) = line_run pn [fst (pen_at pn), y]"
  "draw_cmd pn (CHR ''C'', [x1, y1, x2, y2, x, y]) = Some ([CubicPiece (pen_at pn) (x1, y1) (x2, y2) (x, y)], pen_to pn (x, y) (Some (x2, y2)))"
  "draw_cmd pn (CHR ''S'', [x2, y2, x, y]) = Some ([CubicPiece (pen_at pn) (reflected pn) (x2, y2) (x, y)], pen_to pn (x, y) (Some (x2, y2)))"
  "draw_cmd pn (CHR ''Q'', [x1, y1, x, y]) = Some ([QuadPiece (pen_at pn) (x1, y1) (x, y)], pen_to pn (x, y) None)"
  "draw_cmd pn (CHR ''A'', [rx, ry, rot, large, swp, x, y]) =
     Some ([ArcPiece (pen_at pn) rx ry (large \<noteq> 0) (swp \<noteq> 0) (x, y)], pen_to pn (x, y) None)"
  "draw_cmd pn (CHR ''Z'', []) = Some ([LinePiece (pen_at pn) (pen_start pn)], pen_to pn (pen_start pn) None)"
  by (simp_all add: draw_cmd_def)

lemma draw_cmd_ok:
  assumes "arity_ok c"
  shows "\<exists>r. draw_cmd pn c = Some r"
proof (cases c)
  case (Pair l ns)
  show ?thesis
    using assms unfolding Pair arity_ok_def Let_def prod.case
    by (elim disjE conjE) (hypsubst, auto simp: length_eqs line_run_even)+
qed

lemma draw_ok: "list_all arity_ok cs \<Longrightarrow> \<exists>ps pn'. draw pn cs = Some (ps, pn')"
proof (induction cs arbitrary: pn)
  case (Cons c cs)
  then obtain ps pn1 where "draw_cmd pn c = Some (ps, pn1)" using draw_cmd_ok [of c pn] by auto
  then show ?case using Cons(1) [of pn1] Cons(2) by auto
qed simp

lemma draw_append: "draw pn (cs @ cs') = (case draw pn cs of None \<Rightarrow> None | Some (ps, pn') \<Rightarrow> map_option (\<lambda>(qs, e). (ps @ qs, e)) (draw pn' cs'))"
  by (induction cs arbitrary: pn) (auto split: option.split simp: option.map_comp comp_def case_prod_unfold option.map_ident)

text \<open>The text of an interpolated line: the numbers of its first point, and commands.\<close>

lemma separated_append: "separated a \<Longrightarrow> separated b \<Longrightarrow> fst (chunk b) = [] \<Longrightarrow> separated (a @ b)"
proof (induction a rule: separated.induct)
  case (2 x)
  then show ?case by (cases b rule: separated.cases) (auto dest: separated_command)
qed (auto split: if_splits list.splits tok.splits)

lemma command_letters [simp]:
  "command_letter ''M''" "command_letter ''L''" "command_letter ''H''" "command_letter ''V''" "command_letter ''C''" "command_letter ''S''"
  "command_letter ''Q''" "command_letter ''A''" "command_letter ''Z''" "\<not> command_letter '',''" "\<not> command_letter '' ''"
  by (simp_all add: command_letter_def)

lemma separated_number: "fst (chunk ts) = [] \<Longrightarrow> separated (Num x # ts) = separated ts"
  by (cases ts rule: separated.cases) (auto split: if_splits list.splits tok.splits)

lemma separated_point: "fst (chunk ts) = [] \<Longrightarrow> separated (point_text p @ ts) = separated ts" "separated (point_text p)"
  by (simp_all add: point_text_def separated_number)

lemma chunk_append: "fst (chunk ts') = [] \<Longrightarrow> chunk (ts @ ts') = (fst (chunk ts), snd (chunk ts) @ snd (chunk ts'))"
  by (induction ts rule: chunk.induct) (auto simp: prod_eq_iff)

lemma chunk_point [simp]: "chunk (point_text p @ ts) = (fst p # snd p # fst (chunk ts), snd (chunk ts))"
  by (simp add: point_text_def)

lemma chunk_point_end [simp]: "chunk (point_text p) = ([fst p, snd p], [])"
  by (simp add: point_text_def)

lemma points_text_Cons [simp]: "points_text [] = []" "points_text [p] = point_text p"
  "points_text (p # q # ps) = point_text p @ Txt '','' # points_text (q # ps)"
  by (simp_all add: points_text_def point_text_def)

definition coords :: "pt list \<Rightarrow> real list" where
  "coords ps = concat (map (\<lambda>p. [fst p, snd p]) ps)"

lemma coords_Cons [simp]: "coords [] = []" "coords (p # ps) = fst p # snd p # coords ps"
  by (simp_all add: coords_def)

lemma chunk_points_end [simp]: "chunk (points_text ps) = (coords ps, [])"
  by (induction ps rule: induct_list012) simp_all

lemma separated_points: "fst (chunk ts) = [] \<Longrightarrow> ps \<noteq> [] \<Longrightarrow> separated (points_text ps @ ts) = separated ts"
proof (induction ps rule: induct_list012)
  case (3 p q ps)
  then have "separated (points_text (q # ps) @ ts) = separated ts" by simp
  then show ?case by (cases ps) (simp_all add: point_text_def separated_number)
qed (simp_all add: separated_point)

lemma separated_points_end: "ps \<noteq> [] \<Longrightarrow> separated (points_text ps)"
  using separated_points [of "[]" ps] by simp

lemma chunk_points [simp]: "chunk (points_text ps @ ts) = (coords ps @ fst (chunk ts), snd (chunk ts))"
  by (induction ps rule: induct_list012) simp_all


section \<open>The commands of the interpolators\<close>

lemma chunk_linear [simp]: "chunk (d3_svg_lineLinear (p # ps)) = (coords [p], map (\<lambda>q. (CHR ''L'', coords [q])) ps)"
  by (induction ps arbitrary: p) (simp_all add: point_text_def)

lemma chunk_steps:
  "fst (chunk (step_loop p ps)) = []" "list_all arity_ok (snd (chunk (step_loop p ps)))"
  by (induction p ps rule: step_loop.induct) (simp_all add: arity_ok_def)

lemma chunk_concat:
  "\<forall>p \<in> set ps. fst (chunk (f p)) = [] \<Longrightarrow> chunk (concat (map f ps)) = ([], concat (map (\<lambda>p. snd (chunk (f p))) ps))"
  by (induction ps) (simp_all add: chunk_append)

lemma chunk_bezier [simp]:
  "chunk (d3_svg_lineBasisBezier w) = ([], [(CHR ''C'', coords [dot_point d3_svg_lineBasisBezier1 w, dot_point d3_svg_lineBasisBezier2 w, dot_point d3_svg_lineBasisBezier3 w])])"
  by (simp add: d3_svg_lineBasisBezier_def point_text_def)

lemma chunk_basis:
  "fst (chunk (basis_loop w ps)) = []" "list_all arity_ok (snd (chunk (basis_loop w ps)))"
  by (induction w ps rule: basis_loop.induct) (simp_all add: chunk_append arity_ok_def)

lemma chunk_hermite_loop:
  "fst (chunk (fst (hermite_loop p t ps ts))) = []" "list_all arity_ok (snd (chunk (fst (hermite_loop p t ps ts))))"
  by (induction p t ps ts rule: hermite_loop.induct) (auto simp: case_prod_unfold Let_def arity_ok_def point_text_def)

lemma chunk_hermite_middle:
  "fst (chunk (fst (hermite_middle p0 p t0 ps ts))) = []" "list_all arity_ok (snd (chunk (fst (hermite_middle p0 p t0 ps ts))))"
  using chunk_hermite_loop by (auto simp: hermite_middle_def case_prod_unfold Let_def arity_ok_def point_text_def split: list.split)

text \<open>Hermite splines follow the text of their first point; where there are too few tangents they are lines again.\<close>

definition hermite_fits :: "pt list \<Rightarrow> pt list \<Rightarrow> bool" where
  "hermite_fits points tangents = (1 \<le> length tangents \<and> (length points = length tangents \<or> length points = length tangents + 2))"

lemma chunk_hermite:
  assumes "hermite_fits points tangents"
  shows "fst (chunk (d3_svg_lineHermite points tangents)) = []" "list_all arity_ok (snd (chunk (d3_svg_lineHermite points tangents)))"
proof -
  have "\<not> (length tangents < 1 \<or> length points \<noteq> length tangents \<and> length points \<noteq> length tangents + 2)"
    using assms by (auto simp: hermite_fits_def)
  then show "fst (chunk (d3_svg_lineHermite points tangents)) = []" "list_all arity_ok (snd (chunk (d3_svg_lineHermite points tangents)))"
    unfolding d3_svg_lineHermite_def Let_def using chunk_hermite_middle
    by (auto simp: case_prod_unfold chunk_append arity_ok_def simp del: points_text_Cons)
qed

lemma separated_linear: "separated (d3_svg_lineLinear points)"
  by (induction points rule: d3_svg_lineLinear.induct) (simp_all add: separated_point)

lemma separated_steps: "separated (step_loop p ps)"
  by (induction p ps rule: step_loop.induct) (simp_all add: separated_number chunk_steps)

lemma separated_concat: "\<forall>p \<in> set ps. fst (chunk (f p)) = [] \<and> separated (f p) \<Longrightarrow> separated (concat (map f ps))"
  by (induction ps) (simp_all add: separated_append chunk_concat)

lemma separated_basis: "separated (basis_loop w ps)"
  by (induction w ps rule: basis_loop.induct)
    (simp_all add: d3_svg_lineBasisBezier_def separated_points separated_append chunk_basis del: points_text_Cons)

lemma separated_hermite_loop: "separated (fst (hermite_loop p t ps ts))"
  by (induction p t ps ts rule: hermite_loop.induct) (simp_all add: case_prod_unfold Let_def separated_points chunk_hermite_loop del: points_text_Cons)

lemma separated_hermite_middle: "separated (fst (hermite_middle p0 p t0 ps ts))"
  using separated_hermite_loop chunk_hermite_loop
  by (auto simp: hermite_middle_def case_prod_unfold Let_def separated_points simp del: points_text_Cons split: list.split)

lemma separated_hermite: "separated (d3_svg_lineHermite points tangents)"
proof -
  have "fst (chunk (fst (hermite_middle p0 p t0 ps ts))) = []" "separated (fst (hermite_middle p0 p t0 ps ts))" for p0 p t0 ps ts
    using chunk_hermite_middle separated_hermite_middle by auto
  then show ?thesis unfolding d3_svg_lineHermite_def Let_def using separated_linear
    by (auto simp: case_prod_unfold chunk_append separated_append separated_points separated_points_end simp del: points_text_Cons)
qed

lemma cardinal_tangents_length: "length (cardinal_tangents a ps) = length ps - 2"
  by (induction a ps rule: cardinal_tangents.induct) auto

lemma monotone_tangents_length: "points \<noteq> [] \<Longrightarrow> length (d3_svg_lineMonotoneTangents points) = length points"
  by (simp add: d3_svg_lineMonotoneTangents_def Let_def)

text \<open>The text of a line: two numbers and then commands with the right numbers of arguments, separated.\<close>

definition line_text_ok :: "path \<Rightarrow> bool" where
  "line_text_ok path = (length (fst (chunk path)) = 2 \<and> list_all arity_ok (snd (chunk path)) \<and> separated path)"

lemma line_text_okI: "fst (chunk path) = [] \<Longrightarrow> list_all arity_ok (snd (chunk path)) \<Longrightarrow> separated path \<Longrightarrow> line_text_ok (point_text p @ path)"
  by (simp add: line_text_ok_def separated_point)

lemma linear_ok: "points \<noteq> [] \<Longrightarrow> line_text_ok (d3_svg_lineLinear points)"
  using separated_linear [of points] by (cases points) (simp_all add: line_text_ok_def arity_ok_def list_all_iff)

lemma basis_ok: "points \<noteq> [] \<Longrightarrow> line_text_ok (d3_svg_lineBasis points)"
  using chunk_basis
  by (auto simp: d3_svg_lineBasis_def Let_def linear_ok chunk_append arity_ok_def separated_point separated_append separated_basis intro!: line_text_okI)

lemma steps_ok:
  "line_text_ok (d3_svg_lineStep points)" "line_text_ok (d3_svg_lineStepBefore points)" "line_text_ok (d3_svg_lineStepAfter points)"
proof -
  show "line_text_ok (d3_svg_lineStep points)"
    unfolding d3_svg_lineStep_def using chunk_steps separated_steps by (intro line_text_okI) (auto simp: chunk_append arity_ok_def separated_append)
  show "line_text_ok (d3_svg_lineStepBefore points)" "line_text_ok (d3_svg_lineStepAfter points)"
    unfolding d3_svg_lineStepBefore_def d3_svg_lineStepAfter_def by (intro line_text_okI separated_concat; simp add: chunk_concat list_all_iff arity_ok_def separated_number)+
qed

lemma bases_ok:
  assumes "points \<noteq> []"
  shows "line_text_ok (d3_svg_lineBasisOpen points)" "line_text_ok (d3_svg_lineBasisClosed points)" "line_text_ok (d3_svg_lineBundle points tension)"
proof -
  show "line_text_ok (d3_svg_lineBasisOpen points)"
    unfolding d3_svg_lineBasisOpen_def Let_def using linear_ok [OF assms] line_text_okI [OF chunk_basis separated_basis] by simp
  show "line_text_ok (d3_svg_lineBasisClosed points)"
    unfolding d3_svg_lineBasisClosed_def Let_def by (rule line_text_okI [OF chunk_basis separated_basis])
  have "map f (enumerate 0 points) \<noteq> []" for f :: "nat \<times> pt \<Rightarrow> pt" using assms by (cases points) simp_all
  then show "line_text_ok (d3_svg_lineBundle points tension)"
    unfolding d3_svg_lineBundle_def Let_def using basis_ok assms by simp
qed

lemma hermite_ok: "hermite_fits ps ts \<Longrightarrow> line_text_ok (point_text p @ d3_svg_lineHermite ps ts)"
  by (intro line_text_okI chunk_hermite separated_hermite)

lemma cardinals_ok:
  assumes "points \<noteq> []"
  shows "line_text_ok (d3_svg_lineCardinal points tension)" "line_text_ok (d3_svg_lineCardinalOpen points tension)"
    "line_text_ok (d3_svg_lineCardinalClosed points tension)" "line_text_ok (d3_svg_lineMonotone points)"
  using linear_ok [OF assms] assms
  by (auto intro!: hermite_ok simp: d3_svg_lineCardinal_def d3_svg_lineCardinalOpen_def d3_svg_lineCardinalClosed_def d3_svg_lineMonotone_def
      d3_svg_lineCardinalTangents_def hermite_fits_def cardinal_tangents_length monotone_tangents_length Let_def simp del: cardinal_tangents.simps)

lemma closed_ok: "points \<noteq> [] \<Longrightarrow> line_text_ok (d3_svg_lineLinearClosed points)"
  using linear_ok [of points] by (simp add: d3_svg_lineLinearClosed_def line_text_ok_def chunk_append arity_ok_def separated_append)

lemma interpolate_ok:
  assumes "points \<noteq> []" "f \<in> snd ` set d3_svg_lineInterpolators"
  shows "line_text_ok (interpolate_with f points tension)"
proof -
  have "snd ` set d3_svg_lineInterpolators = {Linear, LinearClosed, Step, StepBefore, StepAfter, Basis, BasisOpen, BasisClosed, Bundle,
    Cardinal, CardinalOpen, CardinalClosed, Monotone}" unfolding d3_svg_lineInterpolators_def list.set image_insert image_empty snd_conv ..
  then show ?thesis
    using assms(2) linear_ok [OF assms(1)] closed_ok [OF assms(1)] steps_ok basis_ok [OF assms(1)] bases_ok [OF assms(1)] cardinals_ok [OF assms(1)]
    by (cases f) simp_all
qed

lemma segment_reads:
  assumes "points \<noteq> []" "f \<in> snd ` set d3_svg_lineInterpolators"
  shows "\<exists>ns cs. chunk (Txt ''M'' # interpolate_with f points k) = ([], (CHR ''M'', ns) # cs) \<and> list_all arity_ok ((CHR ''M'', ns) # cs) \<and>
    separated (Txt ''M'' # interpolate_with f points k)"
  using interpolate_ok [OF assms] by (auto simp: line_text_ok_def arity_ok_def)

definition keeps_length :: "(pt list \<Rightarrow> pt list) \<Rightarrow> bool" where
  "keeps_length proj = (\<forall>ps. length (proj ps) = length ps)"

definition moves_ok :: "path \<Rightarrow> bool" where
  "moves_ok path = (path = [] \<or> (\<exists>ns cs. chunk path = ([], (CHR ''M'', ns) # cs) \<and> list_all arity_ok ((CHR ''M'', ns) # cs) \<and> separated path))"

lemma moves_ok_append: "moves_ok a \<Longrightarrow> moves_ok b \<Longrightarrow> moves_ok (a @ b)"
  by (cases "a = []"; cases "b = []") (auto simp: moves_ok_def chunk_append separated_append)

lemma moves_ok_read: "moves_ok path \<Longrightarrow> path \<noteq> [] \<Longrightarrow> separated path \<and> (\<exists>ps e. read_path path = Some (ps, e))"
  using draw_ok by (fastforce simp: moves_ok_def read_path_def simp del: draw.simps)

lemma segment_moves:
  assumes "f \<in> snd ` set d3_svg_lineInterpolators" "keeps_length proj" "points \<noteq> []"
  shows "moves_ok (Txt ''M'' # interpolate_with f (proj points) k)"
  using segment_reads [OF _ assms(1), of "proj points" k] assms(2,3) by (auto simp: moves_ok_def keeps_length_def simp del: chunk_pairs simp flip: length_greater_0_conv)

lemma line_loop_moves:
  assumes "line_interpolate l \<in> snd ` set d3_svg_lineInterpolators" "keeps_length (line_projection l)"
  shows "moves_ok (line_loop l i data points)"
  using assms
proof (induction l i data points rule: line_loop.induct)
  case (1 l i points)
  then show ?case using segment_moves [of "line_interpolate l" "line_projection l" points "line_tension l"] by (simp add: line_segment_def moves_ok_def)
next
  case (2 l i d data points)
  then show ?case
    using segment_moves [of "line_interpolate l" "line_projection l" points "line_tension l"] by (simp add: line_segment_def moves_ok_append flip: append_Cons)
qed

lemma line_loop_Nil: "line_loop l i data points = [] \<longleftrightarrow> points = [] \<and> (\<forall>j < length data. \<not> line_defined l (data ! j) (i + j))"
proof (induction l i data points rule: line_loop.induct)
  case (2 l i d data points)
  then show ?case by (auto simp: line_segment_def less_Suc_eq_0_disj)
qed (simp add: line_segment_def)

lemma area_loop_Nil: "length points1 = length points0 \<Longrightarrow>
  area_loop a i data points0 points1 = [] \<longleftrightarrow> points0 = [] \<and> (\<forall>j < length data. \<not> area_defined a (data ! j) (i + j))"
proof (induction a i data points0 points1 rule: area_loop.induct)
  case (2 a i d data points0 points1)
  then show ?case by (auto simp: area_segment_def less_Suc_eq_0_disj)
qed (simp add: area_segment_def)

lemma interpolator_reverse_table: "f \<in> snd ` set d3_svg_lineInterpolators \<Longrightarrow> interpolator_reverse f \<in> snd ` set d3_svg_lineInterpolators"
  by (auto simp: interpolator_reverse_def d3_svg_lineInterpolators_def)

lemma area_segment_moves:
  assumes "area_interpolate a \<in> snd ` set d3_svg_lineInterpolators" "keeps_length (area_projection a)" "points0 \<noteq> []" "points1 \<noteq> []"
  shows "moves_ok (area_segment a points0 points1)"
proof -
  have ne: "area_projection a points1 \<noteq> []" "area_projection a (rev points0) \<noteq> []" using assms(2-4) unfolding keeps_length_def by (metis length_0_conv length_rev)+
  let ?s = "interpolate_with (interpolator_reverse (area_interpolate a)) (area_projection a (rev points0)) (area_tension a)"
  have "line_text_ok ?s" by (rule interpolate_ok [OF ne(2) interpolator_reverse_table [OF assms(1)]])
  then have "fst (chunk (Txt (if interpolator_closed (area_interpolate a) then ''M'' else ''L'') # ?s @ [Txt ''Z''])) = []"
    "list_all arity_ok (snd (chunk (Txt (if interpolator_closed (area_interpolate a) then ''M'' else ''L'') # ?s @ [Txt ''Z''])))"
    "separated (Txt (if interpolator_closed (area_interpolate a) then ''M'' else ''L'') # ?s @ [Txt ''Z''])"
    by (auto simp: line_text_ok_def chunk_append arity_ok_def separated_append)
  moreover obtain ns cs where "chunk (Txt ''M'' # interpolate_with (area_interpolate a) (area_projection a points1) (area_tension a)) = ([], (CHR ''M'', ns) # cs)"
    "list_all arity_ok ((CHR ''M'', ns) # cs)" "separated (Txt ''M'' # interpolate_with (area_interpolate a) (area_projection a points1) (area_tension a))"
    using segment_reads [OF ne(1) assms(1)] by blast
  ultimately show ?thesis unfolding moves_ok_def area_segment_def append_Cons [symmetric] using separated_append by (subst chunk_append) auto
qed

lemma area_loop_moves:
  assumes "area_interpolate a \<in> snd ` set d3_svg_lineInterpolators" "keeps_length (area_projection a)" "length points1 = length points0"
  shows "moves_ok (area_loop a i data points0 points1)"
  using assms
proof (induction a i data points0 points1 rule: area_loop.induct)
  case (1 a i points0 points1)
  then have "points0 \<noteq> [] \<Longrightarrow> moves_ok (area_segment a points0 points1)" using area_segment_moves [of a points0 points1] by fastforce
  then show ?case by (simp add: moves_ok_def)
next
  case (2 a i d data points0 points1)
  then have "points0 \<noteq> [] \<Longrightarrow> moves_ok (area_segment a points0 points1)" using area_segment_moves [of a points0 points1] by fastforce
  then show ?case using 2 by (simp add: moves_ok_append)
qed


definition gap_line :: "real option svg_line" where
  "gap_line = \<lparr>line_projection = d3_svg_lineRadial, line_x = \<lambda>d i. the d, line_y = \<lambda>d i. real i, line_defined = \<lambda>d _. d \<noteq> None,
     line_interpolate = interpolator_named ''monotone'', line_tension = 7 / 10\<rparr>"

definition gap_area :: "real option svg_area" where
  "gap_area = \<lparr>area_projection = (\<lambda>ps. ps), area_x0 = \<lambda>d i. real i, area_x1 = None, area_y0 = \<lambda>d i. 0, area_y1 = Some (\<lambda>d i. the d), area_defined = \<lambda>d _. d \<noteq> None,
     area_interpolate = interpolator_named ''cardinal-closed'', area_tension = 7 / 10\<rparr>"

text \<open>One way of writing whole numbers, with a sign and in base ten; other numbers are cut here.\<close>

fun digits_of :: "nat \<Rightarrow> string" where
  "digits_of n = (if n < 10 then [''0123456789'' ! n] else digits_of (n div 10) @ [''0123456789'' ! (n mod 10)])"

declare digits_of.simps [simp del]

definition whole_text :: "real \<Rightarrow> string" where
  "whole_text x = (if x < 0 then ''-'' else []) @ digits_of (nat \<lfloor>\<bar>x\<bar>\<rfloor>)"

lemma digits_number_char: "list_all number_char (digits_of n) \<and> digits_of n \<noteq> []"
proof (induction n rule: digits_of.induct)
  case (1 n)
  have "k < 10 \<Longrightarrow> number_char (''0123456789'' ! k)" for k
    unfolding number_char_def using nth_mem [of k "''0123456789''"] by fastforce
  then show ?case using 1 by (subst (1 2) digits_of.simps) auto
qed

lemma whole_text_writes: "writes_numbers whole_text"
  using digits_number_char by (simp add: writes_numbers_def whole_text_def number_char_def)



section \<open>Hermite splines\<close>

text \<open>The cubic pieces through given points with given tangents.\<close>

fun spline :: "pt list \<Rightarrow> pt list \<Rightarrow> piece list" where
  "spline (p # q # ps) (t # u # ts) = CubicPiece p (shift_pt p 1 t) (shift_pt q (- 1) u) q # spline (q # ps) (u # ts)"
| "spline ps ts = []"

lemma draw_hermite_loop:
  "hermite_loop p t ps ts = (path, p', t', rest) \<Longrightarrow> length ts \<le> length ps \<Longrightarrow> pen_at pn = p \<Longrightarrow> pen_control pn = Some (shift_pt p (- 1) t) \<Longrightarrow>
   \<exists>e. draw pn (snd (chunk path)) = Some (spline (p # ps) (t # ts), e) \<and> pen_at e = p' \<and> p' = (p # ps) ! length ts \<and> t' = (t # ts) ! length ts \<and> rest = drop (length ts) ps"
proof (induction p t ps ts arbitrary: path pn rule: hermite_loop.induct)
  case (1 p t q ps u ts)
  obtain path1 where h: "hermite_loop q u ps ts = (path1, p', t', rest)" "path = [Txt ''S''] @ points_text [shift_pt q (- 1) u, q] @ path1"
    using 1(2) by (auto simp: Let_def split: prod.splits)
  let ?pn = "pen_to pn q (Some (shift_pt q (- 1) u))"
  have c: "reflected pn = shift_pt p 1 t" using 1(4,5) by (simp add: reflected_def shift_pt_def)
  obtain e where "draw ?pn (snd (chunk path1)) = Some (spline (q # ps) (u # ts), e)" "pen_at e = p'" "p' = (q # ps) ! length ts" "t' = (u # ts) ! length ts" "rest = drop (length ts) ps"
    using 1(1) [OF h(1), of ?pn] 1(3) by (auto simp: pen_to_def)
  moreover have "fst (chunk path1) = []" using chunk_hermite_loop(1) [of q u ps ts] h(1) by simp
  ultimately show ?case using 1(4) c by (simp add: h(2) point_text_def)
qed auto


lemma draw_hermite_middle:
  assumes "hermite_middle p0 p t0 ps ts = (path, p', t', rest)" "length ts \<le> length ps" "pen_at pn = p0"
  shows "\<exists>e. draw pn (snd (chunk path)) = Some (spline (p0 # ps) (t0 # ts), e) \<and>
    (ts \<noteq> [] \<or> p = p0 \<longrightarrow> pen_at e = p' \<and> p' = (p0 # ps) ! length ts \<and> t' = (t0 # ts) ! length ts \<and> rest = drop (length ts) ps)"
proof (cases ts)
  case Nil
  then show ?thesis using assms by (cases ps) (auto simp: hermite_middle_def)
next
  case (Cons t ts')
  then obtain q ps' where ps: "ps = q # ps'" using assms(2) by (cases ps) auto
  obtain path1 where h: "hermite_loop q t ps' ts' = (path1, p', t', rest)" "path = [Txt ''C''] @ points_text [shift_pt p0 1 t0, shift_pt q (- 1) t, q] @ path1"
    using assms(1) by (auto simp: hermite_middle_def Cons ps Let_def split: prod.splits)
  let ?pn = "pen_to pn q (Some (shift_pt q (- 1) t))"
  obtain e where "draw ?pn (snd (chunk path1)) = Some (spline (q # ps') (t # ts'), e)" "pen_at e = p'" "p' = (q # ps') ! length ts'" "t' = (t # ts') ! length ts'"
    "rest = drop (length ts') ps'" using draw_hermite_loop [OF h(1), of ?pn] assms(2) by (auto simp: pen_to_def Cons ps)
  moreover have "fst (chunk path1) = []" using chunk_hermite_loop(1) [of q t ps' ts'] h(1) by simp
  ultimately show ?thesis using assms(3) by (simp add: h(2) point_text_def Cons ps)
qed

lemma draw_hermite_cubic:
  assumes "length points = length tangents" "1 \<le> length tangents" "pen_at pn = hd points"
  shows "\<exists>e. draw pn (snd (chunk (d3_svg_lineHermite points tangents))) = Some (spline points tangents, e)"
proof -
  obtain p ps t ts where e: "points = p # ps" "tangents = t # ts" using assms(1,2) by (cases points; cases tangents) auto
  obtain path p' t' rest where h: "hermite_middle p ((p # ps) ! 1) t ps ts = (path, p', t', rest)" by (metis prod.exhaust)
  have "d3_svg_lineHermite points tangents = path" using assms(1) h by (simp add: d3_svg_lineHermite_def e Let_def)
  then show ?thesis using draw_hermite_middle [OF h, of pn] assms(1,3) by (auto simp: e)
qed

lemma draw_hermite_quad:
  assumes "points = p # q # qs @ [r]" "tangents = t # ts" "length ts = length qs" "pen_at pn = p"
  shows "\<exists>e. draw pn (snd (chunk (d3_svg_lineHermite points tangents))) =
    Some (QuadPiece p (shift_pt q (- 2 / 3) t) q # spline (q # qs) (t # ts) @ [QuadPiece (last (q # qs)) (shift_pt (last (q # qs)) (2 / 3) (last (t # ts))) r], e)"
proof -
  obtain path p' t' rest where h: "hermite_middle q q t (qs @ [r]) ts = (path, p', t', rest)" by (metis prod.exhaust)
  let ?pn = "pen_to pn q None"
  obtain e where e: "draw ?pn (snd (chunk path)) = Some (spline (q # qs @ [r]) (t # ts), e)" "pen_at e = p'" "p' = (q # qs @ [r]) ! length ts"
    "t' = (t # ts) ! length ts" "rest = drop (length ts) (qs @ [r])"
    using draw_hermite_middle [OF h, of ?pn] assms(3) by (auto simp: pen_to_def)
  have l: "p' = last (q # qs)" "t' = last (t # ts)" "hd rest = r" using e(3-5) assms(3) by (auto simp: last_conv_nth nth_append nth_Cons split: nat.splits)
  have "spline (x # ys @ [r]) (u # us) = spline (x # ys) (u # us)" if "length us = length ys" for x ys u us
    using that by (induction ys us arbitrary: x u rule: list_induct2') auto
  then have s: "spline (q # qs @ [r]) (t # ts) = spline (q # qs) (t # ts)" using assms(3) by simp
  have "fst (chunk path) = []" using chunk_hermite_middle(1) [of q q t "qs @ [r]" ts] h by simp
  moreover have "d3_svg_lineHermite points tangents =
      [Txt ''Q''] @ points_text [shift_pt q (- 2 / 3) t, q] @ path @ [Txt ''Q''] @ points_text [shift_pt p' (2 / 3) t', hd rest]"
    using assms(3) h by (simp add: d3_svg_lineHermite_def assms(1,2) Let_def)
  ultimately show ?thesis using e(1,2) l s assms(4) by (auto simp: point_text_def chunk_append draw_append)
qed


text \<open>The ends of a piece, and its directions there.\<close>

fun piece_end :: "piece \<Rightarrow> pt" where
  "piece_end (LinePiece a b) = b"
| "piece_end (CubicPiece a b c d) = d"
| "piece_end (QuadPiece a b c) = c"
| "piece_end (ArcPiece a rx ry l s b) = b"

fun piece_start :: "piece \<Rightarrow> pt" where
  "piece_start (LinePiece a b) = a"
| "piece_start (CubicPiece a b c d) = a"
| "piece_start (QuadPiece a b c) = a"
| "piece_start (ArcPiece a rx ry l s b) = a"

definition pt_minus :: "pt \<Rightarrow> pt \<Rightarrow> pt" where
  "pt_minus p q = (fst p - fst q, snd p - snd q)"

fun leaving :: "piece \<Rightarrow> pt" where
  "leaving (LinePiece a b) = pt_minus b a"
| "leaving (CubicPiece a b c d) = pt_minus b a"
| "leaving (QuadPiece a b c) = pt_minus b a"
| "leaving (ArcPiece a rx ry l s b) = (0, 0)"

fun arriving :: "piece \<Rightarrow> pt" where
  "arriving (LinePiece a b) = pt_minus b a"
| "arriving (CubicPiece a b c d) = pt_minus d c"
| "arriving (QuadPiece a b c) = pt_minus c b"
| "arriving (ArcPiece a rx ry l s b) = (0, 0)"

text \<open>Pieces join smoothly where the direction does not change.\<close>

definition same_direction :: "pt \<Rightarrow> pt \<Rightarrow> bool" where
  "same_direction v w = (\<exists>k > 0. w = (k * fst v, k * snd v))"

definition joined :: "piece \<Rightarrow> piece \<Rightarrow> bool" where
  "joined a b = (piece_start b = piece_end a \<and> same_direction (arriving a) (leaving b))"

definition smooth :: "piece list \<Rightarrow> bool" where
  "smooth ps = successively joined ps"

definition spline_through :: "pt list \<Rightarrow> piece list \<Rightarrow> bool" where
  "spline_through points ps = (smooth ps \<and> map piece_end ps = tl points \<and> map piece_start ps = butlast points)"

lemma same_direction_scaled: "0 < k \<Longrightarrow> 0 < k' \<Longrightarrow> same_direction (k * fst t, k * snd t) (k' * fst t, k' * snd t)"
  unfolding same_direction_def by (rule exI [of _ "k' / k"]) simp

lemma spline_leaves: "length ps = length ts \<Longrightarrow> ps \<noteq> [] \<Longrightarrow> leaving (hd (spline (p # ps) (t # ts))) = t \<and> piece_start (hd (spline (p # ps) (t # ts))) = p"
  by (cases ps; cases ts) (auto simp: shift_pt_def pt_minus_def)

lemma spline_smooth: "length ps = length ts \<Longrightarrow> smooth (spline (p # ps) (t # ts))"
proof (induction ps ts arbitrary: p t rule: list_induct2)
  case (Cons q qs u us)
  have "joined (CubicPiece p (shift_pt p 1 t) (shift_pt q (- 1) u) q) (hd (spline (q # qs) (u # us)))" if "qs \<noteq> []"
    using spline_leaves [OF Cons(1) that, of q u] same_direction_scaled [of 1 1 u] by (simp add: joined_def shift_pt_def pt_minus_def)
  moreover have "qs = [] \<Longrightarrow> spline (q # qs) (u # us) = []" by simp
  ultimately show ?case using Cons(2) [of q u] by (cases "spline (q # qs) (u # us)"; cases qs) (auto simp: smooth_def)
qed (simp add: smooth_def)

lemma spline_knots:
  "length ps = length ts \<Longrightarrow> map piece_end (spline (p # ps) (t # ts)) = ps \<and> map piece_start (spline (p # ps) (t # ts)) = butlast (p # ps)"
  by (induction ps ts arbitrary: p t rule: list_induct2) auto

lemma spline_through_cubic: "length points = length tangents \<Longrightarrow> points \<noteq> [] \<Longrightarrow> spline_through points (spline points tangents)"
  by (cases points; cases tangents) (simp_all add: spline_through_def spline_smooth spline_knots)

lemma spline_last: "length ps = length ts \<Longrightarrow> ps \<noteq> [] \<Longrightarrow>
  spline (p # ps) (t # ts) \<noteq> [] \<and> arriving (last (spline (p # ps) (t # ts))) = last ts \<and> piece_end (last (spline (p # ps) (t # ts))) = last ps"
proof (induction ps ts arbitrary: p t rule: list_induct2)
  case (Cons q qs u us)
  then show ?case by (cases "qs = []") (auto simp: shift_pt_def pt_minus_def)
qed simp

lemma spline_through_quad:
  assumes "length ts = length qs"
  shows "spline_through (p # q # qs @ [r])
    (QuadPiece p (shift_pt q (- 2 / 3) t) q # spline (q # qs) (t # ts) @ [QuadPiece (last (q # qs)) (shift_pt (last (q # qs)) (2 / 3) (last (t # ts))) r])"
proof -
  let ?s = "spline (q # qs) (t # ts)"
  let ?a = "QuadPiece p (shift_pt q (- 2 / 3) t) q" and ?z = "QuadPiece (last (q # qs)) (shift_pt (last (q # qs)) (2 / 3) (last (t # ts))) r"
  have "smooth (?a # ?s @ [?z])"
  proof (cases qs)
    case Nil
    then show ?thesis using assms same_direction_scaled [of "2 / 3" "2 / 3" t] by (simp add: smooth_def joined_def shift_pt_def pt_minus_def)
  next
    case (Cons q' qs')
    then have ne: "qs \<noteq> []" "ts \<noteq> []" using assms by auto
    have s: "?s \<noteq> []" "arriving (last ?s) = last (t # ts)" "piece_end (last ?s) = last (q # qs)" using spline_last [of qs ts q t] ne assms by auto
    have "joined ?a (hd ?s)" using spline_leaves [of qs ts q t] ne assms same_direction_scaled [of "2 / 3" 1 t] by (simp add: joined_def shift_pt_def pt_minus_def)
    moreover have "joined (last ?s) ?z" using s same_direction_scaled [of 1 "2 / 3" "last (t # ts)"] by (simp add: joined_def shift_pt_def pt_minus_def)
    moreover have "smooth ?s" using spline_smooth assms by simp
    ultimately have "smooth ((?a # ?s) @ [?z])" using s(1) unfolding smooth_def successively_append_iff by (cases ?s) auto
    then show ?thesis by simp
  qed
  then show ?thesis using spline_knots [of qs ts q t] assms by (auto simp: spline_through_def butlast_append)
qed

lemma read_line:
  assumes "fst (chunk path) = []"
  shows "read_path (Txt ''M'' # point_text p @ path) = draw \<lparr>pen_start = p, pen_at = p, pen_control = None\<rparr> (snd (chunk path))"
  using assms by (cases "draw \<lparr>pen_start = p, pen_at = p, pen_control = None\<rparr> (snd (chunk path))") (auto simp: read_path_def)

text \<open>Lines that are the text of a point and a Hermite spline from there.\<close>

lemma hermite_line_cubic:
  assumes "length points = length tangents" "points \<noteq> []"
  shows "\<exists>ps e. read_path (Txt ''M'' # point_text (hd points) @ d3_svg_lineHermite points tangents) = Some (ps, e) \<and> spline_through points ps"
proof -
  have f: "hermite_fits points tangents" using assms by (cases points) (auto simp: hermite_fits_def)
  have "1 \<le> length tangents" using f by (simp add: hermite_fits_def)
  with assms(1) obtain e where "draw \<lparr>pen_start = hd points, pen_at = hd points, pen_control = None\<rparr> (snd (chunk (d3_svg_lineHermite points tangents))) =
      Some (spline points tangents, e)" using draw_hermite_cubic by fastforce
  then show ?thesis unfolding read_line [OF chunk_hermite(1) [OF f]] using spline_through_cubic [OF assms] by blast
qed

lemma hermite_line_quad:
  assumes "length points = length tangents + 2" "tangents \<noteq> []"
  shows "\<exists>ps e. read_path (Txt ''M'' # point_text (hd points) @ d3_svg_lineHermite points tangents) = Some (ps, e) \<and> spline_through points ps"
proof -
  have f: "hermite_fits points tangents" using assms by (cases tangents) (auto simp: hermite_fits_def)
  obtain t ts where t: "tangents = t # ts" using assms(2) by (cases tangents) auto
  obtain p q rest where q: "points = p # q # rest" "length rest = Suc (length ts)" using assms(1) by (auto simp: t length_Suc_conv)
  then obtain qs r where r: "points = p # q # qs @ [r]" "length ts = length qs" by (cases rest rule: rev_cases) auto
  have "pen_at \<lparr>pen_start = hd points, pen_at = hd points, pen_control = None\<rparr> = p" by (simp add: r(1))
  from draw_hermite_quad [OF r(1) t r(2) this] spline_through_quad [OF r(2), of p q r t] show ?thesis
    unfolding read_line [OF chunk_hermite(1) [OF f]] r(1) [symmetric] by blast
qed

text \<open>
  (C29) Splines pass through their points.  A cardinal line of three or more points, with any tension, and a monotone line draw one piece between every point and the next
  one, and the pieces join smoothly: the direction of the curve does not jump at a point.  A closed cardinal line does so through the points and back to the first one.
\<close>

theorem splines_through_points:
  assumes "3 \<le> length points"
  shows "(\<exists>ps e. read_path (Txt ''M'' # interpolate_with Cardinal points tension) = Some (ps, e) \<and> spline_through points ps) \<and>
    (\<exists>ps e. read_path (Txt ''M'' # interpolate_with Monotone points tension) = Some (ps, e) \<and> spline_through points ps) \<and>
    (\<exists>ps e. read_path (Txt ''M'' # interpolate_with CardinalClosed points tension) = Some (ps, e) \<and> spline_through (points @ [hd points]) ps)"
proof (intro conjI)
  have ne: "points \<noteq> []" "\<not> length points < 3" using assms by auto
  show "\<exists>ps e. read_path (Txt ''M'' # interpolate_with Cardinal points tension) = Some (ps, e) \<and> spline_through points ps"
    using hermite_line_quad [of points "d3_svg_lineCardinalTangents points tension"] assms
    by (simp add: d3_svg_lineCardinal_def d3_svg_lineCardinalTangents_def cardinal_tangents_length flip: length_greater_0_conv)
  show "\<exists>ps e. read_path (Txt ''M'' # interpolate_with Monotone points tension) = Some (ps, e) \<and> spline_through points ps"
    using hermite_line_cubic [of points "d3_svg_lineMonotoneTangents points"] ne by (simp add: d3_svg_lineMonotone_def monotone_tangents_length)
  let ?ps = "points @ [hd points]"
  show "\<exists>ps e. read_path (Txt ''M'' # interpolate_with CardinalClosed points tension) = Some (ps, e) \<and> spline_through ?ps ps"
    using hermite_line_cubic [of ?ps "d3_svg_lineCardinalTangents ([?ps ! (length ?ps - 2)] @ ?ps @ [?ps ! 1]) tension"] ne
    by (simp add: d3_svg_lineCardinalClosed_def d3_svg_lineCardinalTangents_def cardinal_tangents_length Let_def)
qed

theorem splines_through_points_witness:
  "\<exists>ps e. read_path (Txt ''M'' # d3_svg_lineCardinal [(0, 0), (1, 2), (3, 1), (4, 4)] (7 / 10)) = Some (ps, e) \<and> spline_through [(0, 0), (1, 2), (3, 1), (4, 4)] ps"
  using splines_through_points [of "[(0, 0), (1, 2), (3, 1), (4, 4)]" "7 / 10"] by simp


section \<open>B-splines\<close>

text \<open>The cubic pieces of the windows of four points, each of which starts where the one before ends.\<close>

fun bspline :: "pt list \<Rightarrow> pt list \<Rightarrow> piece list" where
  "bspline w [] = []"
| "bspline w (p # ps) = CubicPiece (dot_point d3_svg_lineBasisBezier3 w) (dot_point d3_svg_lineBasisBezier1 (tl w @ [p]))
     (dot_point d3_svg_lineBasisBezier2 (tl w @ [p])) (dot_point d3_svg_lineBasisBezier3 (tl w @ [p])) # bspline (tl w @ [p]) ps"

fun slide :: "pt list \<Rightarrow> pt list \<Rightarrow> pt list" where
  "slide w [] = w"
| "slide w (p # ps) = slide (tl w @ [p]) ps"

lemma draw_basis:
  "pen_at pn = dot_point d3_svg_lineBasisBezier3 w \<Longrightarrow>
   \<exists>e. draw pn (snd (chunk (basis_loop w ps))) = Some (bspline w ps, e) \<and> pen_at e = dot_point d3_svg_lineBasisBezier3 (slide w ps)"
proof (induction w ps arbitrary: pn rule: basis_loop.induct)
  case (2 w p ps)
  let ?w = "tl w @ [p]"
  let ?pn = "pen_to pn (dot_point d3_svg_lineBasisBezier3 ?w) (Some (dot_point d3_svg_lineBasisBezier2 ?w))"
  obtain e where "draw ?pn (snd (chunk (basis_loop ?w ps))) = Some (bspline ?w ps, e)" "pen_at e = dot_point d3_svg_lineBasisBezier3 (slide ?w ps)"
    using 2(1) [of ?pn] by (auto simp: pen_to_def)
  then show ?case using 2(2) by (simp add: chunk_append chunk_basis)
qed simp

text \<open>Two cubic pieces that join with equal first and second derivatives.\<close>

fun bends_on :: "piece \<Rightarrow> piece \<Rightarrow> bool" where
  "bends_on (CubicPiece a b c d) (CubicPiece a' b' c' d') =
     (a' = d \<and> pt_minus d c = pt_minus b' a' \<and> pt_minus (pt_minus d c) (pt_minus c b) = pt_minus (pt_minus c' b') (pt_minus b' a'))"
| "bends_on a b = False"

definition in_box :: "pt \<Rightarrow> pt \<Rightarrow> pt \<Rightarrow> bool" where
  "in_box lo hi p = (fst lo \<le> fst p \<and> fst p \<le> fst hi \<and> snd lo \<le> snd p \<and> snd p \<le> snd hi)"

fun piece_points :: "piece \<Rightarrow> pt list" where
  "piece_points (LinePiece a b) = [a, b]"
| "piece_points (CubicPiece a b c d) = [a, b, c, d]"
| "piece_points (QuadPiece a b c) = [a, b, c]"
| "piece_points (ArcPiece a rx ry l s b) = [a, b]"

definition inside :: "pt \<Rightarrow> pt \<Rightarrow> piece list \<Rightarrow> bool" where
  "inside lo hi ps = list_all (\<lambda>x. list_all (in_box lo hi) (piece_points x)) ps"

lemmas basis_weights = d3_svg_lineBasisBezier1_def d3_svg_lineBasisBezier2_def d3_svg_lineBasisBezier3_def

lemma dot_points:
  "dot_point d3_svg_lineBasisBezier1 [a, b, c, d] = ((2 * fst b + fst c) / 3, (2 * snd b + snd c) / 3)"
  "dot_point d3_svg_lineBasisBezier2 [a, b, c, d] = ((fst b + 2 * fst c) / 3, (snd b + 2 * snd c) / 3)"
  "dot_point d3_svg_lineBasisBezier3 [a, b, c, d] = ((fst b + 4 * fst c + fst d) / 6, (snd b + 4 * snd c + snd d) / 6)"
  by (simp_all add: dot_point_def basis_weights d3_svg_lineDot4_def numeral_eq_Suc field_simps)

lemma dot_points_in_box:
  assumes "in_box lo hi b" "in_box lo hi c" "in_box lo hi d"
  shows "in_box lo hi (dot_point d3_svg_lineBasisBezier1 [a, b, c, d])" "in_box lo hi (dot_point d3_svg_lineBasisBezier2 [a, b, c, d])"
    "in_box lo hi (dot_point d3_svg_lineBasisBezier3 [a, b, c, d])"
  using assms by (auto simp: dot_points in_box_def)

lemma bspline_inside:
  "list_all (in_box lo hi) [b, c, d] \<Longrightarrow> list_all (in_box lo hi) ps \<Longrightarrow> inside lo hi (bspline [a, b, c, d] ps)"
  by (induction ps arbitrary: a b c d) (simp_all add: inside_def dot_points_in_box)

lemma bspline_bends: "successively bends_on (bspline [a, b, c, d] ps)"
proof (induction ps arbitrary: a b c d)
  case (Cons p ps)
  have "bends_on (CubicPiece (dot_point d3_svg_lineBasisBezier3 [a, b, c, d]) (dot_point d3_svg_lineBasisBezier1 [b, c, d, p]) (dot_point d3_svg_lineBasisBezier2 [b, c, d, p])
      (dot_point d3_svg_lineBasisBezier3 [b, c, d, p])) (hd (bspline [b, c, d, p] ps))" if "ps \<noteq> []"
    using that by (cases ps) (auto simp: dot_points pt_minus_def field_simps)
  then show ?case using Cons [of b c d p] by (cases ps) auto
qed simp

lemma bends_joined: "bends_on a b \<Longrightarrow> joined a b"
  by (induction a b rule: bends_on.induct) (use same_direction_scaled [of 1 1] in \<open>auto simp: joined_def\<close>)

lemma bspline_smooth: "smooth (bspline [a, b, c, d] ps)"
  unfolding smooth_def by (rule successively_mono [OF bspline_bends bends_joined])


lemma slide_drop: "w \<noteq> [] \<Longrightarrow> slide w ps = drop (length ps) (w @ ps)"
proof (induction w ps rule: slide.induct)
  case (2 w p ps)
  then show ?case by (cases w) auto
qed simp

lemma bspline_last: "ps \<noteq> [] \<Longrightarrow> bspline w ps \<noteq> [] \<and> (\<exists>s. last (bspline w ps) = CubicPiece s (dot_point d3_svg_lineBasisBezier1 (slide w ps))
    (dot_point d3_svg_lineBasisBezier2 (slide w ps)) (dot_point d3_svg_lineBasisBezier3 (slide w ps)))"
proof (induction w ps rule: bspline.induct)
  case (2 w p ps)
  then show ?case by (cases "ps = []") auto
qed simp

definition is_cubic :: "piece \<Rightarrow> bool" where
  "is_cubic x = (case x of CubicPiece a b c d \<Rightarrow> True | _ \<Rightarrow> False)"

lemma bspline_cubic: "filter is_cubic (bspline w ps) = bspline w ps"
  by (induction w ps rule: bspline.induct) (simp_all add: is_cubic_def)

text \<open>A curve that is smooth, bends without jumps in its cubic pieces, and whose control points lie inside the box of the points.\<close>

definition fair_curve :: "pt \<Rightarrow> pt \<Rightarrow> piece list \<Rightarrow> bool" where
  "fair_curve lo hi ps = (smooth ps \<and> successively bends_on (filter is_cubic ps) \<and> inside lo hi ps)"

lemma basis_open_curve:
  assumes "list_all (in_box lo hi) ([b, c, d] @ ps)"
  shows "\<exists>e. read_path (Txt ''M'' # point_text (dot_point d3_svg_lineBasisBezier3 [a, b, c, d]) @ basis_loop [a, b, c, d] ps) = Some (bspline [a, b, c, d] ps, e) \<and>
    pen_at e = dot_point d3_svg_lineBasisBezier3 (slide [a, b, c, d] ps) \<and> fair_curve lo hi (bspline [a, b, c, d] ps)"
proof -
  let ?pn = "\<lparr>pen_start = dot_point d3_svg_lineBasisBezier3 [a, b, c, d], pen_at = dot_point d3_svg_lineBasisBezier3 [a, b, c, d], pen_control = None\<rparr>"
  have "fair_curve lo hi (bspline [a, b, c, d] ps)"
    using assms bspline_inside bspline_smooth bspline_bends by (auto simp: fair_curve_def bspline_cubic)
  then show ?thesis unfolding read_line [OF chunk_basis(1)] using draw_basis [of ?pn "[a, b, c, d]" ps] by auto
qed

lemma same_direction_eq: "fst v = fst w \<Longrightarrow> snd v = snd w \<Longrightarrow> same_direction v w"
  using same_direction_scaled [of 1 1 v] by (cases v; cases w) simp

lemma slide_end:
  obtains x y where "slide [p, p, p, q] (qs @ [r, r]) = [x, y, r, r]" "y \<in> set ([p, q] @ qs)"
proof -
  have "length (drop (length qs) ([p, q] @ qs)) = 2" by simp
  then obtain x y where d: "drop (length qs) ([p, q] @ qs) = [x, y]" unfolding length_eqs by blast
  have "slide [p, p, p, q] (qs @ [r, r]) = [x, y, r, r]"
    using drop_append [of "length qs" "[p, q] @ qs" "[r, r]"] d by (simp add: slide_drop)
  moreover have "y \<in> set ([p, q] @ qs)" using d in_set_dropD [of y "length qs" "[p, q] @ qs"] by simp
  ultimately show thesis by (rule that)
qed

lemma read_basis:
  assumes "points = p # q # qs @ [r]" "w = [p, p, p, q]"
  shows "\<exists>e. read_path (Txt ''M'' # d3_svg_lineBasis points) =
    Some (LinePiece p (dot_point d3_svg_lineBasisBezier3 w) # bspline w (qs @ [r, r]) @ [LinePiece (dot_point d3_svg_lineBasisBezier3 (slide w (qs @ [r, r]))) r], e) \<and> pen_at e = r"
proof -
  let ?ts = "[Txt ''L''] @ point_text (dot_point d3_svg_lineBasisBezier3 w) @ basis_loop w (qs @ [r, r]) @ [Txt ''L''] @ point_text r"
  let ?pn = "\<lparr>pen_start = p, pen_at = p, pen_control = None\<rparr>"
  have tx: "d3_svg_lineBasis points = point_text p @ ?ts" by (simp add: d3_svg_lineBasis_def assms Let_def)
  have c: "fst (chunk ?ts) = []" by simp
  have cs: "snd (chunk ?ts) = (CHR ''L'', coords [dot_point d3_svg_lineBasisBezier3 w]) # snd (chunk (basis_loop w (qs @ [r, r]))) @ [(CHR ''L'', coords [r])]"
    by (simp add: chunk_append chunk_basis)
  let ?pn1 = "pen_to ?pn (dot_point d3_svg_lineBasisBezier3 w) None"
  obtain e where "draw ?pn1 (snd (chunk (basis_loop w (qs @ [r, r])))) = Some (bspline w (qs @ [r, r]), e)"
    "pen_at e = dot_point d3_svg_lineBasisBezier3 (slide w (qs @ [r, r]))" using draw_basis [of ?pn1 w] by (auto simp: pen_to_def)
  then have "draw ?pn (snd (chunk ?ts)) =
    Some (LinePiece p (dot_point d3_svg_lineBasisBezier3 w) # bspline w (qs @ [r, r]) @ [LinePiece (dot_point d3_svg_lineBasisBezier3 (slide w (qs @ [r, r]))) r], pen_to e r None)"
    unfolding cs by (simp add: draw_append)
  then show ?thesis unfolding tx read_line [OF c] by (auto simp: pen_to_def)
qed

lemma basis_curve:
  assumes "list_all (in_box lo hi) points" "points = p # q # qs @ [r]"
  shows "\<exists>ps e. read_path (Txt ''M'' # d3_svg_lineBasis points) = Some (ps, e) \<and> fair_curve lo hi ps \<and> piece_start (hd ps) = p \<and> pen_at e = r"
proof -
  let ?w = "[p, p, p, q]" and ?rest = "qs @ [r, r]"
  obtain x y where w: "slide ?w ?rest = [x, y, r, r]" "y \<in> set ([p, q] @ qs)" by (rule slide_end)
  let ?a = "LinePiece p (dot_point d3_svg_lineBasisBezier3 ?w)" and ?s = "bspline ?w ?rest"
  let ?z = "LinePiece (dot_point d3_svg_lineBasisBezier3 [x, y, r, r]) r"
  obtain e where e: "read_path (Txt ''M'' # d3_svg_lineBasis points) = Some (?a # ?s @ [?z], e)" "pen_at e = r" using read_basis [OF assms(2) refl] w(1) by auto
  have box: "in_box lo hi p" "in_box lo hi q" "list_all (in_box lo hi) qs" "in_box lo hi r" "in_box lo hi y" using assms w(2) by (auto simp: list_all_iff)
  have "inside lo hi (?a # ?s @ [?z])" using bspline_inside [of lo hi p p q ?rest p] box by (simp add: inside_def dot_points_in_box)
  moreover obtain s where s: "?s \<noteq> []" "last ?s = CubicPiece s (dot_point d3_svg_lineBasisBezier1 [x, y, r, r]) (dot_point d3_svg_lineBasisBezier2 [x, y, r, r])
      (dot_point d3_svg_lineBasisBezier3 [x, y, r, r])" using bspline_last [of ?rest ?w] w(1) by auto
  have "joined ?a (hd ?s)" by (cases qs) (auto simp: joined_def dot_points pt_minus_def field_simps intro!: same_direction_eq)
  moreover have "joined (last ?s) ?z" unfolding s(2) by (auto simp: joined_def dot_points pt_minus_def field_simps intro!: same_direction_eq)
  ultimately have "smooth ((?a # ?s) @ [?z])" "inside lo hi (?a # ?s @ [?z])"
    using s(1) bspline_smooth [of p p p q ?rest] unfolding smooth_def successively_append_iff by (cases ?s; auto)+
  moreover have "filter is_cubic (?a # ?s @ [?z]) = ?s" by (simp add: bspline_cubic) (simp add: is_cubic_def)
  ultimately have "fair_curve lo hi (?a # ?s @ [?z])" using bspline_bends by (simp add: fair_curve_def)
  then show ?thesis using e by auto
qed


lemma basis_closed_windows:
  assumes "points \<noteq> []"
  shows "slide (map (\<lambda>i. points ! (i mod length points)) [0..<4]) (map (\<lambda>i. points ! (i mod length points)) [4..<length points + 4]) =
    map (\<lambda>i. points ! (i mod length points)) [0..<4]"
proof -
  let ?f = "\<lambda>i. points ! (i mod length points)"
  have "[0..<4] @ [4..<length points + 4] = [0..<length points + 4]" by (metis add.commute le_add1 upt_add_eq_append zero_le)
  then have "map ?f [0..<4] @ map ?f [4..<length points + 4] = map ?f [0..<length points + 4]" by (metis map_append)
  then have "slide (map ?f [0..<4]) (map ?f [4..<length points + 4]) = drop (length points) (map ?f [0..<length points + 4])"
    by (simp add: slide_drop)
  also have "\<dots> = map (\<lambda>i. ?f (i + length points)) [0..<4]" by (auto intro!: nth_equalityI simp: add.commute)
  finally show ?thesis by simp
qed

text \<open>
  B-splines.  The basis line of three or more points inside a box starts at the first point and ends at the last one; the closed one ends where it starts; the open one needs
  four points.  All of them are smooth, have continuous second derivatives along their cubic pieces, and all control points, and with them the curve, stay inside the box.
\<close>

theorem basis_curves:
  assumes "list_all (in_box lo hi) points" "3 \<le> length points"
  shows "(\<exists>ps e. read_path (Txt ''M'' # d3_svg_lineBasis points) = Some (ps, e) \<and> fair_curve lo hi ps \<and> piece_start (hd ps) = hd points \<and> pen_at e = last points) \<and>
    (\<exists>ps e. read_path (Txt ''M'' # d3_svg_lineBasisClosed points) = Some (ps, e) \<and> fair_curve lo hi ps \<and> piece_start (hd ps) = pen_at e) \<and>
    (4 \<le> length points \<longrightarrow> (\<exists>ps e. read_path (Txt ''M'' # d3_svg_lineBasisOpen points) = Some (ps, e) \<and> fair_curve lo hi ps))"
proof (intro conjI impI)
  obtain p q rest where "points = p # q # rest" "rest \<noteq> []" using assms(2) by (auto simp: numeral_3_eq_3 Suc_le_length_iff)
  then obtain qs r where e: "points = p # q # qs @ [r]" by (cases rest rule: rev_cases) auto
  show "\<exists>ps e. read_path (Txt ''M'' # d3_svg_lineBasis points) = Some (ps, e) \<and> fair_curve lo hi ps \<and> piece_start (hd ps) = hd points \<and> pen_at e = last points"
    using basis_curve [OF assms(1) e] by (simp add: e)
  let ?f = "\<lambda>i. points ! (i mod length points)"
  have ne: "points \<noteq> []" "0 < length points" using e by simp_all
  have "in_box lo hi (?f i)" for i using assms(1) ne by (auto simp: list_all_length)
  then have "list_all (in_box lo hi) ([?f 1, ?f 2, ?f 3] @ map ?f [4..<length points + 4])"
    unfolding list_all_iff by (simp only: set_append set_map list.set) blast
  moreover have w: "map ?f [0..<4] = [?f 0, ?f 1, ?f 2, ?f 3]" by (simp add: upt_rec numeral_eq_Suc)
  moreover have "bspline v (map ?f [4..<length points + 4]) \<noteq> [] \<and> piece_start (hd (bspline v (map ?f [4..<length points + 4]))) = dot_point d3_svg_lineBasisBezier3 v" for v
    using ne(2) by (simp add: upt_conv_Cons)
  ultimately show "\<exists>ps e. read_path (Txt ''M'' # d3_svg_lineBasisClosed points) = Some (ps, e) \<and> fair_curve lo hi ps \<and> piece_start (hd ps) = pen_at e"
    using basis_open_curve [of lo hi "?f 1" "?f 2" "?f 3" "map ?f [4..<length points + 4]" "?f 0"] basis_closed_windows [OF ne(1)]
    unfolding d3_svg_lineBasisClosed_def Let_def w by metis
  show "\<exists>ps e. read_path (Txt ''M'' # d3_svg_lineBasisOpen points) = Some (ps, e) \<and> fair_curve lo hi ps" if four: "4 \<le> length points"
  proof -
    obtain b c d rest where "points = b # c # d # rest" using four by (auto simp: numeral_eq_Suc Suc_le_length_iff)
    then show ?thesis using basis_open_curve [of lo hi b c d rest "(0, 0)"] assms(1) four by (auto simp: d3_svg_lineBasisOpen_def Let_def)
  qed
qed

theorem basis_curves_witness:
  "\<exists>ps e. read_path (Txt ''M'' # d3_svg_lineBasis [(0, 0), (1, 2), (3, 1)]) = Some (ps, e) \<and> fair_curve (0, 0) (3, 2) ps \<and> pen_at e = (3, 1)"
  using basis_curves [of "(0, 0)" "(3, 2)" "[(0, 0), (1, 2), (3, 1)]"] by (auto simp: in_box_def)

section \<open>Monotone lines\<close>

lemma monotone_tangent_finite: "\<exists>x y. monotone_tangent dx m = (Fin x, Fin y)"
proof (cases m)
  case (Fin r)
  have "0 < 1 + r * r" using zero_le_square [of r] by linarith
  then have "1 + r * r \<noteq> 0" by simp
  then show ?thesis by (simp add: Fin monotone_tangent_def js_or0_def)
qed (simp_all add: monotone_tangent_def js_or0_def js_inf_def Let_def)

text \<open>The point of a cubic piece at a parameter.\<close>

definition bezier :: "pt \<Rightarrow> pt \<Rightarrow> pt \<Rightarrow> pt \<Rightarrow> real \<Rightarrow> pt" where
  "bezier a b c d t =
     ((1 - t) ^ 3 * fst a + 3 * (1 - t) ^ 2 * t * fst b + 3 * (1 - t) * t ^ 2 * fst c + t ^ 3 * fst d,
      (1 - t) ^ 3 * snd a + 3 * (1 - t) ^ 2 * t * snd b + 3 * (1 - t) * t ^ 2 * snd c + t ^ 3 * snd d)"

text \<open>
  A monotone line leaves the range of its points where their distances differ: the length of a tangent is taken from both neighbours, so that
  from a point after a long gap the curve runs beyond the next one and back, and is no function of the first coordinate any more.
\<close>

lemma monotone_overshoots:
  "\<exists>a b c d ps e. read_path (Txt ''M'' # d3_svg_lineMonotone [(0, 0), (100, 0), (101, 1)]) = Some (ps @ [CubicPiece a b c d], e) \<and>
    fst (bezier a b c d (1 / 3)) > 105"
proof -
  have t: "d3_svg_lineMonotoneTangents [(0, 0), (100, 0), (101, 1)] = [(100 / 6, 0), (101 / 6, 0), (1 / 12, 1 / 12)]"
    by (simp add: d3_svg_lineMonotoneTangents_def d3_svg_lineFiniteDifferences_def d3_svg_lineSlope_def limit_slopes_def monotone_tangent_def js_or0_def fin_of_def Let_def upt_rec numeral_eq_Suc)
  let ?p = "[(0, 0), (100, 0), (101, 1)] :: pt list"
  have f: "hermite_fits ?p (d3_svg_lineMonotoneTangents ?p)" unfolding t by (simp add: hermite_fits_def)
  have "d3_svg_lineMonotone ?p = point_text (0, 0) @ d3_svg_lineHermite ?p (d3_svg_lineMonotoneTangents ?p)" by (simp add: d3_svg_lineMonotone_def)
  moreover obtain e where "draw \<lparr>pen_start = (0, 0), pen_at = (0, 0), pen_control = None\<rparr> (snd (chunk (d3_svg_lineHermite ?p (d3_svg_lineMonotoneTangents ?p)))) =
      Some (spline ?p (d3_svg_lineMonotoneTangents ?p), e)"
    using draw_hermite_cubic [of ?p "d3_svg_lineMonotoneTangents ?p" "\<lparr>pen_start = (0, 0), pen_at = (0, 0), pen_control = None\<rparr>"] by (auto simp: t)
  moreover have "spline ?p (d3_svg_lineMonotoneTangents ?p) = [CubicPiece (0, 0) (100 / 6, 0) (100 - 101 / 6, 0) (100, 0)] @
      [CubicPiece (100, 0) (100 + 101 / 6, 0) (101 - 1 / 12, 1 - 1 / 12) (101, 1)]" by (simp add: t shift_pt_def)
  moreover have "fst (bezier (100, 0) (100 + 101 / 6, 0) (101 - 1 / 12, 1 - 1 / 12) (101, 1) (1 / 3)) > 105"
    by (simp add: bezier_def power2_eq_square power3_eq_cube)
  ultimately show ?thesis using read_line [OF chunk_hermite(1) [OF f], of "(0, 0)"] by metis
qed

end
