(* ===== verification/D3_Shape.thy ===== *)
theory D3_Shape
  imports D3_Line_Facts
begin

text \<open>
  The other path generators: arcs, chords, diagonals and symbols (\<open>d3.js\<close> lines 7825 to 7866 and 8226 to 8376), over finite radii, angles and sizes, and
  what they draw.  Accessors that are numbers are constant functions.
\<close>

section \<open>Arcs\<close>

record 'd svg_arc =
  arc_innerRadius :: "'d \<Rightarrow> nat \<Rightarrow> real"
  arc_outerRadius :: "'d \<Rightarrow> nat \<Rightarrow> real"
  arc_startAngle :: "'d \<Rightarrow> nat \<Rightarrow> real"
  arc_endAngle :: "'d \<Rightarrow> nat \<Rightarrow> real"

definition d3_svg_arcOffset :: real where
  "d3_svg_arcOffset = - (pi / 2)"

definition d3_svg_arcMax :: real where
  "d3_svg_arcMax = 2 * pi - 1 / 1000000"

text \<open>The text of an arc command with equal radii and no rotation.\<close>

definition arc_text :: "real \<Rightarrow> real \<Rightarrow> real \<Rightarrow> pt \<Rightarrow> path" where
  "arc_text r large swp p = [Txt ''A'', Num r, Txt '','', Num r, Txt '' '', Num 0, Txt '' '', Num large, Txt '','', Num swp, Txt '' ''] @ point_text p"

definition polar :: "real \<Rightarrow> real \<Rightarrow> pt" where
  "polar r a = (r * cos a, r * sin a)"

definition arc_path :: "'d svg_arc \<Rightarrow> 'd \<Rightarrow> nat \<Rightarrow> path" where
  "arc_path arc d i =
     (let r0 = arc_innerRadius arc d i; r1 = arc_outerRadius arc d i;
          b0 = arc_startAngle arc d i + d3_svg_arcOffset; b1 = arc_endAngle arc d i + d3_svg_arcOffset;
          (a0, a1) = (if b1 < b0 then (b1, b0) else (b0, b1)); da = a1 - a0; df = (if da < pi then 0 else 1)
      in if da \<ge> d3_svg_arcMax then
           (if r0 \<noteq> 0 then [Txt ''M''] @ point_text (0, r1) @ arc_text r1 1 1 (0, - r1) @ arc_text r1 1 1 (0, r1) @
              [Txt ''M''] @ point_text (0, r0) @ arc_text r0 1 0 (0, - r0) @ arc_text r0 1 0 (0, r0) @ [Txt ''Z'']
            else [Txt ''M''] @ point_text (0, r1) @ arc_text r1 1 1 (0, - r1) @ arc_text r1 1 1 (0, r1) @ [Txt ''Z''])
         else if r0 \<noteq> 0 then [Txt ''M''] @ point_text (polar r1 a0) @ arc_text r1 df 1 (polar r1 a1) @ [Txt ''L''] @ point_text (polar r0 a1) @
           arc_text r0 df 0 (polar r0 a0) @ [Txt ''Z'']
         else [Txt ''M''] @ point_text (polar r1 a0) @ arc_text r1 df 1 (polar r1 a1) @ [Txt ''L''] @ point_text (0, 0) @ [Txt ''Z''])"

definition arc_centroid :: "'d svg_arc \<Rightarrow> 'd \<Rightarrow> nat \<Rightarrow> pt" where
  "arc_centroid arc d i =
     (let r = (arc_innerRadius arc d i + arc_outerRadius arc d i) / 2; a = (arc_startAngle arc d i + arc_endAngle arc d i) / 2 + d3_svg_arcOffset
      in (cos a * r, sin a * r))"

definition arc_set_innerRadius :: "'d svg_arc \<Rightarrow> ('d \<Rightarrow> nat \<Rightarrow> real) \<Rightarrow> 'd svg_arc" where
  "arc_set_innerRadius arc v = arc\<lparr>arc_innerRadius := v\<rparr>"

definition arc_set_outerRadius :: "'d svg_arc \<Rightarrow> ('d \<Rightarrow> nat \<Rightarrow> real) \<Rightarrow> 'd svg_arc" where
  "arc_set_outerRadius arc v = arc\<lparr>arc_outerRadius := v\<rparr>"

definition arc_set_startAngle :: "'d svg_arc \<Rightarrow> ('d \<Rightarrow> nat \<Rightarrow> real) \<Rightarrow> 'd svg_arc" where
  "arc_set_startAngle arc v = arc\<lparr>arc_startAngle := v\<rparr>"

definition arc_set_endAngle :: "'d svg_arc \<Rightarrow> ('d \<Rightarrow> nat \<Rightarrow> real) \<Rightarrow> 'd svg_arc" where
  "arc_set_endAngle arc v = arc\<lparr>arc_endAngle := v\<rparr>"

section \<open>Chords\<close>

record subgroup_arc =
  sg_r :: real
  sg_a0 :: real
  sg_a1 :: real
  sg_p0 :: pt
  sg_p1 :: pt

record ('d, 'g) svg_chord =
  chord_source :: "'d \<Rightarrow> nat \<Rightarrow> 'g"
  chord_target :: "'d \<Rightarrow> nat \<Rightarrow> 'g"
  chord_radius :: "'g \<Rightarrow> nat \<Rightarrow> real"
  chord_startAngle :: "'g \<Rightarrow> nat \<Rightarrow> real"
  chord_endAngle :: "'g \<Rightarrow> nat \<Rightarrow> real"

definition chord_subgroup :: "('d, 'g) svg_chord \<Rightarrow> ('d \<Rightarrow> nat \<Rightarrow> 'g) \<Rightarrow> 'd \<Rightarrow> nat \<Rightarrow> subgroup_arc" where
  "chord_subgroup ch f d i =
     (let g = f d i; r = chord_radius ch g i; a0 = chord_startAngle ch g i + d3_svg_arcOffset; a1 = chord_endAngle ch g i + d3_svg_arcOffset
      in \<lparr>sg_r = r, sg_a0 = a0, sg_a1 = a1, sg_p0 = polar r a0, sg_p1 = polar r a1\<rparr>)"

definition chord_equals :: "subgroup_arc \<Rightarrow> subgroup_arc \<Rightarrow> bool" where
  "chord_equals a b = (sg_a0 a = sg_a0 b \<and> sg_a1 a = sg_a1 b)"

definition chord_arc :: "real \<Rightarrow> pt \<Rightarrow> real \<Rightarrow> path" where
  "chord_arc r p a = arc_text r (if a > pi then 1 else 0) 1 p"

definition chord_curve :: "pt \<Rightarrow> path" where
  "chord_curve p = [Txt ''Q'', Txt '' '', Num 0, Txt '','', Num 0, Txt '' ''] @ point_text p"

definition chord_path :: "('d, 'g) svg_chord \<Rightarrow> 'd \<Rightarrow> nat \<Rightarrow> path" where
  "chord_path ch d i =
     (let s = chord_subgroup ch (chord_source ch) d i; t = chord_subgroup ch (chord_target ch) d i
      in [Txt ''M''] @ point_text (sg_p0 s) @ chord_arc (sg_r s) (sg_p1 s) (sg_a1 s - sg_a0 s) @
         (if chord_equals s t then chord_curve (sg_p0 s)
          else chord_curve (sg_p0 t) @ chord_arc (sg_r t) (sg_p1 t) (sg_a1 t - sg_a0 t) @ chord_curve (sg_p0 s)) @ [Txt ''Z''])"

definition chord_set_radius :: "('d, 'g) svg_chord \<Rightarrow> ('g \<Rightarrow> nat \<Rightarrow> real) \<Rightarrow> ('d, 'g) svg_chord" where
  "chord_set_radius ch v = ch\<lparr>chord_radius := v\<rparr>"

definition chord_set_source :: "('d, 'g) svg_chord \<Rightarrow> ('d \<Rightarrow> nat \<Rightarrow> 'g) \<Rightarrow> ('d, 'g) svg_chord" where
  "chord_set_source ch v = ch\<lparr>chord_source := v\<rparr>"

definition chord_set_target :: "('d, 'g) svg_chord \<Rightarrow> ('d \<Rightarrow> nat \<Rightarrow> 'g) \<Rightarrow> ('d, 'g) svg_chord" where
  "chord_set_target ch v = ch\<lparr>chord_target := v\<rparr>"

definition chord_set_startAngle :: "('d, 'g) svg_chord \<Rightarrow> ('g \<Rightarrow> nat \<Rightarrow> real) \<Rightarrow> ('d, 'g) svg_chord" where
  "chord_set_startAngle ch v = ch\<lparr>chord_startAngle := v\<rparr>"

definition chord_set_endAngle :: "('d, 'g) svg_chord \<Rightarrow> ('g \<Rightarrow> nat \<Rightarrow> real) \<Rightarrow> ('d, 'g) svg_chord" where
  "chord_set_endAngle ch v = ch\<lparr>chord_endAngle := v\<rparr>"

section \<open>Diagonals\<close>

record 'd svg_diagonal =
  diagonal_source :: "'d \<Rightarrow> nat \<Rightarrow> pt"
  diagonal_target :: "'d \<Rightarrow> nat \<Rightarrow> pt"
  diagonal_projection :: "pt \<Rightarrow> pt"

definition diagonal_path :: "'d svg_diagonal \<Rightarrow> 'd \<Rightarrow> nat \<Rightarrow> path" where
  "diagonal_path g d i =
     (let p0 = diagonal_source g d i; p3 = diagonal_target g d i; m = (snd p0 + snd p3) / 2; f = diagonal_projection g
      in [Txt ''M''] @ point_text (f p0) @ [Txt ''C''] @ point_text (f (fst p0, m)) @ [Txt '' ''] @ point_text (f (fst p3, m)) @ [Txt '' ''] @ point_text (f p3))"

definition d3_svg_diagonalRadialProjection :: "(pt \<Rightarrow> pt) \<Rightarrow> pt \<Rightarrow> pt" where
  "d3_svg_diagonalRadialProjection proj d = (let p = proj d in polar (fst p) (snd p + d3_svg_arcOffset))"

definition diagonal_set_source :: "'d svg_diagonal \<Rightarrow> ('d \<Rightarrow> nat \<Rightarrow> pt) \<Rightarrow> 'd svg_diagonal" where
  "diagonal_set_source g v = g\<lparr>diagonal_source := v\<rparr>"

definition diagonal_set_target :: "'d svg_diagonal \<Rightarrow> ('d \<Rightarrow> nat \<Rightarrow> pt) \<Rightarrow> 'd svg_diagonal" where
  "diagonal_set_target g v = g\<lparr>diagonal_target := v\<rparr>"

definition diagonal_set_projection :: "'d svg_diagonal \<Rightarrow> (pt \<Rightarrow> pt) \<Rightarrow> 'd svg_diagonal" where
  "diagonal_set_projection g v = g\<lparr>diagonal_projection := v\<rparr>"

text \<open>
  The default source and target are the pair itself.  A radial diagonal turns a projection into one from polar coordinates when it is set, but it starts with the projection of a plain one.
\<close>

definition d3_svg_diagonal :: "(pt \<times> pt) svg_diagonal" where
  "d3_svg_diagonal = \<lparr>diagonal_source = \<lambda>d _. fst d, diagonal_target = \<lambda>d _. snd d, diagonal_projection = \<lambda>p. p\<rparr>"

definition d3_svg_diagonal_radial :: "(pt \<times> pt) svg_diagonal" where
  "d3_svg_diagonal_radial = d3_svg_diagonal"

definition diagonal_radial_set_projection :: "'d svg_diagonal \<Rightarrow> (pt \<Rightarrow> pt) \<Rightarrow> 'd svg_diagonal" where
  "diagonal_radial_set_projection g v = diagonal_set_projection g (d3_svg_diagonalRadialProjection v)"

section \<open>Symbols\<close>

definition d3_svg_symbolSqrt3 :: real where
  "d3_svg_symbolSqrt3 = sqrt 3"

definition d3_svg_symbolTan30 :: real where
  "d3_svg_symbolTan30 = tan (30 * (pi / 180))"

definition d3_svg_symbolCircle :: "real \<Rightarrow> path" where
  "d3_svg_symbolCircle sz =
     (let r = sqrt (sz / pi) in [Txt ''M''] @ point_text (0, r) @ arc_text r 1 1 (0, - r) @ arc_text r 1 1 (0, r) @ [Txt ''Z''])"

definition symbol_cross :: "real \<Rightarrow> path" where
  "symbol_cross sz =
     (let r = sqrt (sz / 5) / 2
      in [Txt ''M''] @ point_text (- 3 * r, - r) @ [Txt ''H'', Num (- r), Txt ''V'', Num (- 3 * r), Txt ''H'', Num r, Txt ''V'', Num (- r),
          Txt ''H'', Num (3 * r), Txt ''V'', Num r, Txt ''H'', Num r, Txt ''V'', Num (3 * r), Txt ''H'', Num (- r), Txt ''V'', Num r,
          Txt ''H'', Num (- 3 * r), Txt ''Z''])"

definition corners :: "pt list \<Rightarrow> path" where
  "corners ps = (case ps of [] \<Rightarrow> [] | p # qs \<Rightarrow> point_text p @ concat (map (\<lambda>q. Txt '' '' # point_text q) qs))"

definition symbol_diamond :: "real \<Rightarrow> path" where
  "symbol_diamond sz =
     (let ry = sqrt (sz / (2 * d3_svg_symbolTan30)); rx = ry * d3_svg_symbolTan30
      in [Txt ''M''] @ point_text (0, - ry) @ [Txt ''L''] @ corners [(rx, 0), (0, ry), (- rx, 0)] @ [Txt ''Z''])"

definition symbol_square :: "real \<Rightarrow> path" where
  "symbol_square sz =
     (let r = sqrt sz / 2 in [Txt ''M''] @ point_text (- r, - r) @ [Txt ''L''] @ corners [(r, - r), (r, r), (- r, r)] @ [Txt ''Z''])"

definition symbol_triangle_down :: "real \<Rightarrow> path" where
  "symbol_triangle_down sz =
     (let rx = sqrt (sz / d3_svg_symbolSqrt3); ry = rx * d3_svg_symbolSqrt3 / 2
      in [Txt ''M''] @ point_text (0, ry) @ [Txt ''L''] @ corners [(rx, - ry), (- rx, - ry)] @ [Txt ''Z''])"

definition symbol_triangle_up :: "real \<Rightarrow> path" where
  "symbol_triangle_up sz =
     (let rx = sqrt (sz / d3_svg_symbolSqrt3); ry = rx * d3_svg_symbolSqrt3 / 2
      in [Txt ''M''] @ point_text (0, - ry) @ [Txt ''L''] @ corners [(rx, ry), (- rx, ry)] @ [Txt ''Z''])"

definition d3_svg_symbols :: "(string \<times> (real \<Rightarrow> path)) list" where
  "d3_svg_symbols = [(''circle'', d3_svg_symbolCircle), (''cross'', symbol_cross), (''diamond'', symbol_diamond), (''square'', symbol_square),
     (''triangle-down'', symbol_triangle_down), (''triangle-up'', symbol_triangle_up)]"

definition symbol_path :: "('d \<Rightarrow> nat \<Rightarrow> string) \<Rightarrow> ('d \<Rightarrow> nat \<Rightarrow> real) \<Rightarrow> 'd \<Rightarrow> nat \<Rightarrow> path" where
  "symbol_path typ sz d i = (case map_of d3_svg_symbols (typ d i) of None \<Rightarrow> d3_svg_symbolCircle | Some f \<Rightarrow> f) (sz d i)"

section \<open>Closed outlines\<close>

text \<open>An outline starts and ends at one point, and all its arcs are arcs of circles around the origin.\<close>

definition on_circle :: "real \<Rightarrow> pt \<Rightarrow> bool" where
  "on_circle r p = (fst p * fst p + snd p * snd p = r * r)"

fun arc_centred :: "piece \<Rightarrow> bool" where
  "arc_centred (ArcPiece a rx ry large swp b) = (rx = ry \<and> on_circle rx a \<and> on_circle rx b)"
| "arc_centred _ = True"

definition arcs_centred :: "piece list \<Rightarrow> bool" where
  "arcs_centred ps = list_all arc_centred ps"

lemma on_circle_polar [simp]: "on_circle r (polar r a)"
proof -
  have "(r * cos a) * (r * cos a) + (r * sin a) * (r * sin a) = r * r * (cos a * cos a + sin a * sin a)" by algebra
  also have "cos a * cos a + sin a * sin a = 1" using sin_cos_squared_add3 [of a] .
  finally show ?thesis by (simp add: on_circle_def polar_def)
qed

lemma chunk_arc [simp]: "chunk (arc_text r large swp p @ ts) = ([], (CHR ''A'', [r, r, 0, large, swp, fst p, snd p] @ fst (chunk ts)) # snd (chunk ts))"
  by (simp add: arc_text_def)

text \<open>An outline is read from its start; a path of two outlines reads as the one and the other.\<close>

definition outline :: "(piece list \<times> pen) option \<Rightarrow> bool" where
  "outline r = (case r of None \<Rightarrow> False | Some (ps, e) \<Rightarrow> arcs_centred ps \<and> pen_at e = pen_start e)"

lemma on_circle_axis [simp]: "on_circle r (0, r)" "on_circle r (0, - r)"
  by (simp_all add: on_circle_def)

text \<open>
  Outlines.  For all radii and angles an arc is well-formed path data that ends where its last outline starts, and every arc of it has both ends on the circle around the
  origin with its radius; a chord is such an outline with its arcs on the circles of its two groups.
\<close>

theorem arc_outline: "outline (read_path (arc_path arc d i)) \<and> outline (read_path (chord_path ch d i))"
proof
  show "outline (read_path (arc_path arc d i))"
    unfolding arc_path_def Let_def by (auto simp: read_path_def outline_def arcs_centred_def pen_to_def split: if_splits)
  show "outline (read_path (chord_path ch d i))"
    unfolding chord_path_def Let_def chord_arc_def chord_curve_def by (auto simp: read_path_def outline_def arcs_centred_def pen_to_def chord_subgroup_def Let_def split: if_splits)
qed


section \<open>Areas of symbols\<close>

lemma tan30: "0 < d3_svg_symbolTan30"
  unfolding d3_svg_symbolTan30_def by (rule tan_gt_zero) (use pi_gt_zero in auto)

lemma read_corners:
  "fst (chunk ts) = [] \<Longrightarrow> chunk (corners ps @ ts) = (coords ps, snd (chunk ts))"
proof (cases ps)
  case (Cons p qs)
  assume "fst (chunk ts) = []"
  then have "chunk (concat (map (\<lambda>q. Txt '' '' # point_text q) qs) @ ts) = (coords qs, snd (chunk ts))" by (induction qs) (auto simp: prod_eq_iff)
  then show ?thesis by (simp add: Cons corners_def)
qed (auto simp: corners_def prod_eq_iff)

definition outline_area :: "path \<Rightarrow> real option" where
  "outline_area path = map_option (\<lambda>(ps, e). \<bar>polygon_area (map piece_start ps)\<bar>) (read_path path)"

text \<open>The corners of an outline of straight edges.\<close>

lemma outline_area_corners:
  assumes "read_path path = Some (ps, e)" "map piece_start ps = vs" "polygon_area vs = a" "a = sz \<or> a = - sz" "0 \<le> sz"
  shows "outline_area path = Some sz"
  using assms by (auto simp: outline_area_def)

lemma pen_to_simps [simp]: "pen_at (pen_to pn p c) = p" "pen_start (pen_to pn p c) = pen_start pn"
  by (simp_all add: pen_to_def)

lemma draw_edges:
  "draw pn ((CHR ''H'', [x]) # cs) = map_option (\<lambda>(ps, e). (LinePiece (pen_at pn) (x, snd (pen_at pn)) # ps, e)) (draw (pen_to pn (x, snd (pen_at pn)) None) cs)"
  "draw pn ((CHR ''V'', [y]) # cs) = map_option (\<lambda>(ps, e). (LinePiece (pen_at pn) (fst (pen_at pn), y) # ps, e)) (draw (pen_to pn (fst (pen_at pn), y) None) cs)"
  by simp_all

lemma read_move: "chunk path = ([], (CHR ''M'', [a, b]) # cs) \<Longrightarrow> read_path path = draw \<lparr>pen_start = (a, b), pen_at = (a, b), pen_control = None\<rparr> cs"
  by (cases "draw \<lparr>pen_start = (a, b), pen_at = (a, b), pen_control = None\<rparr> cs") (auto simp: read_path_def)

lemma cross_corners:
  "\<exists>ps e. read_path ([Txt ''M''] @ point_text (a, b) @ [Txt ''H'', Num c1, Txt ''V'', Num c2, Txt ''H'', Num c3, Txt ''V'', Num c4,
      Txt ''H'', Num c5, Txt ''V'', Num c6, Txt ''H'', Num c7, Txt ''V'', Num c8, Txt ''H'', Num c9, Txt ''V'', Num c10, Txt ''H'', Num c11, Txt ''Z'']) = Some (ps, e) \<and>
    map piece_start ps = [(a, b), (c1, b), (c1, c2), (c3, c2), (c3, c4), (c5, c4), (c5, c6), (c7, c6), (c7, c8), (c9, c8), (c9, c10), (c11, c10)]"
proof -
  have c: "chunk ([Txt ''M''] @ point_text (a, b) @ [Txt ''H'', Num c1, Txt ''V'', Num c2, Txt ''H'', Num c3, Txt ''V'', Num c4,
      Txt ''H'', Num c5, Txt ''V'', Num c6, Txt ''H'', Num c7, Txt ''V'', Num c8, Txt ''H'', Num c9, Txt ''V'', Num c10, Txt ''H'', Num c11, Txt ''Z'']) =
    ([], (CHR ''M'', [a, b]) # [(CHR ''H'', [c1]), (CHR ''V'', [c2]), (CHR ''H'', [c3]), (CHR ''V'', [c4]), (CHR ''H'', [c5]), (CHR ''V'', [c6]), (CHR ''H'', [c7]),
      (CHR ''V'', [c8]), (CHR ''H'', [c9]), (CHR ''V'', [c10]), (CHR ''H'', [c11]), (CHR ''Z'', [])])" by (simp add: point_text_def chunk_eval del: chunk_pairs)
  show ?thesis unfolding read_move [OF c] by (simp add: draw_edges del: draw.simps) simp
qed

lemma cross_area: "polygon_area [(- 3 * r, - r), (- r, - r), (- r, - 3 * r), (r, - 3 * r), (r, - r), (3 * r, - r), (3 * r, r), (r, r), (r, 3 * r), (- r, 3 * r), (- r, r), (- 3 * r, r)] =
  - (20 * (r * r))"
  by (simp add: polygon_area_def)

lemma polygon_corners:
  "\<exists>ps e. read_path ([Txt ''M''] @ point_text p @ [Txt ''L''] @ corners [q, r] @ [Txt ''Z'']) = Some (ps, e) \<and> map piece_start ps = [p, q, r]"
  "\<exists>ps e. read_path ([Txt ''M''] @ point_text p @ [Txt ''L''] @ corners [q, r, s] @ [Txt ''Z'']) = Some (ps, e) \<and> map piece_start ps = [p, q, r, s]"
  by (simp_all add: read_path_def read_corners)

lemma corner_areas:
  "polygon_area [(0, - b), (a, 0), (0, b), (- a, 0)] = - (2 * (a * b))" "polygon_area [(- a, - a), (a, - a), (a, a), (- a, a)] = - (4 * (a * a))"
  "polygon_area [(0, b), (a, - b), (- a, - b)] = 2 * (a * b)" "polygon_area [(0, - b), (a, b), (- a, b)] = - (2 * (a * b))"
  by (simp_all add: polygon_area_def)

lemma outline_areaI:
  assumes "\<exists>ps e. read_path path = Some (ps, e) \<and> map piece_start ps = vs" "polygon_area vs = sz \<or> polygon_area vs = - sz" "0 \<le> sz"
  shows "outline_area path = Some sz"
  using assms by (auto simp: outline_area_def)

text \<open>
  Symbols.  The outline of every symbol with straight edges encloses exactly the area that was asked for, and the circle has the radius that gives it.
\<close>

theorem symbol_areas:
  assumes "0 \<le> sz"
  shows "outline_area (symbol_cross sz) = Some sz \<and> outline_area (symbol_diamond sz) = Some sz \<and> outline_area (symbol_square sz) = Some sz \<and>
    outline_area (symbol_triangle_down sz) = Some sz \<and> outline_area (symbol_triangle_up sz) = Some sz \<and>
    (\<exists>r ps e. read_path (d3_svg_symbolCircle sz) = Some (ps, e) \<and> ArcPiece (0, r) r r True True (0, - r) \<in> set ps \<and> pi * (r * r) = sz)"
proof (intro conjI)
  have sq: "sqrt (sz / k) * sqrt (sz / k) = sz / k" if "0 < k" for k using assms that by simp
  show "outline_area (symbol_cross sz) = Some sz"
    unfolding symbol_cross_def Let_def by (rule outline_areaI [OF cross_corners]) (use sq [of 5] cross_area [of "sqrt (sz / 5) / 2"] assms in \<open>simp_all\<close>)
  show "outline_area (symbol_square sz) = Some sz"
    unfolding symbol_square_def Let_def by (rule outline_areaI [OF polygon_corners(2)]) (use assms in \<open>simp_all add: corner_areas\<close>)
  have "sqrt (sz / k) * c * sqrt (sz / k) = c * (sz / k)" if "0 < k" for c k using sq [OF that] by (metis mult.assoc mult.commute)
  from this [of "2 * d3_svg_symbolTan30" d3_svg_symbolTan30] show "outline_area (symbol_diamond sz) = Some sz"
    unfolding symbol_diamond_def Let_def by (intro outline_areaI [OF polygon_corners(2)]) (use tan30 assms in \<open>simp_all add: corner_areas\<close>)
  have t: "sqrt (sz / sqrt 3) * (sqrt (sz / sqrt 3) * sqrt 3) = sz" using sq [of "sqrt 3"] by (simp flip: mult.assoc)
  show "outline_area (symbol_triangle_down sz) = Some sz"
    unfolding symbol_triangle_down_def Let_def d3_svg_symbolSqrt3_def by (rule outline_areaI [OF polygon_corners(1)]) (use t assms in \<open>simp_all add: corner_areas\<close>)
  show "outline_area (symbol_triangle_up sz) = Some sz"
    unfolding symbol_triangle_up_def Let_def d3_svg_symbolSqrt3_def by (rule outline_areaI [OF polygon_corners(1)]) (use t assms in \<open>simp_all add: corner_areas\<close>)
  show "\<exists>r ps e. read_path (d3_svg_symbolCircle sz) = Some (ps, e) \<and> ArcPiece (0, r) r r True True (0, - r) \<in> set ps \<and> pi * (r * r) = sz"
    by (rule exI [of _ "sqrt (sz / pi)"]) (use sq [of pi] in \<open>simp add: d3_svg_symbolCircle_def Let_def read_path_def\<close>)
qed

theorem symbol_areas_witness: "outline_area (symbol_cross 20) = Some 20 \<and> outline_area (symbol_triangle_up 64) = Some 64"
  using symbol_areas [of 20] symbol_areas [of 64] by simp


text \<open>A new radial diagonal draws the plain diagonal; only setting the projection, even to the default one, makes it radial.\<close>

lemma diagonal_radial_starts_plain:
  "diagonal_path d3_svg_diagonal_radial d i = diagonal_path d3_svg_diagonal d i"
  "diagonal_path d3_svg_diagonal_radial ((1, 0), (1, 0)) 0 \<noteq> diagonal_path (diagonal_radial_set_projection d3_svg_diagonal_radial (\<lambda>p. p)) ((1, 0), (1, 0)) 0"
  by (simp_all add: d3_svg_diagonal_radial_def diagonal_path_def Let_def diagonal_radial_set_projection_def diagonal_set_projection_def d3_svg_diagonal_def
      d3_svg_diagonalRadialProjection_def polar_def d3_svg_arcOffset_def point_text_def)

end
