(* ===== verification/D3_Sphere.thy ===== *)
theory D3_Sphere
  imports D3_Interpolate
begin

text \<open>
  Spherical coordinates (\<open>d3.js\<close> lines 1179 to 1202, 2888 to 2917, 3730 to 3738, 4297 to 4343, 4400 to 4403 and 4526 to 4539): vectors, rotations,
  distances and great arcs.  Angles are finite reals without rounding.  A map of the sphere is a function of two
  numbers, where \<open>None\<close> is a result that is no number, together with an inverse where it has one.
\<close>

section \<open>Functions\<close>

definition d3_sgn :: "real \<Rightarrow> real" where
  "d3_sgn x = (if x > 0 then 1 else if x < 0 then - 1 else 0)"

definition d3_acos :: "real \<Rightarrow> real" where
  "d3_acos x = (if x > 1 then 0 else if x < - 1 then pi else arccos x)"

definition d3_asin :: "real \<Rightarrow> real" where
  "d3_asin x = (if x > 1 then pi / 2 else if x < - 1 then - (pi / 2) else arcsin x)"

definition d3_sinh :: "real \<Rightarrow> real" where
  "d3_sinh x = (exp x - 1 / exp x) / 2"

definition d3_cosh :: "real \<Rightarrow> real" where
  "d3_cosh x = (exp x + 1 / exp x) / 2"

definition d3_tanh :: "real \<Rightarrow> real" where
  "d3_tanh x = (exp (2 * x) - 1) / (exp (2 * x) + 1)"

definition d3_haversin :: "real \<Rightarrow> real" where
  "d3_haversin x = sin (x / 2) * sin (x / 2)"

section \<open>Vectors\<close>

type_synonym angles = "real \<times> real"
type_synonym vec3 = "real \<times> real \<times> real"

definition d3_geo_cartesian :: "angles \<Rightarrow> vec3" where
  "d3_geo_cartesian s = (cos (snd s) * cos (fst s), cos (snd s) * sin (fst s), sin (snd s))"

fun d3_geo_cartesianDot :: "vec3 \<Rightarrow> vec3 \<Rightarrow> real" where
  "d3_geo_cartesianDot (a, b, c) (d, e, f) = a * d + b * e + c * f"

fun d3_geo_cartesianCross :: "vec3 \<Rightarrow> vec3 \<Rightarrow> vec3" where
  "d3_geo_cartesianCross (a, b, c) (d, e, f) = (b * f - c * e, c * d - a * f, a * e - b * d)"

fun d3_geo_cartesianAdd :: "vec3 \<Rightarrow> vec3 \<Rightarrow> vec3" where
  "d3_geo_cartesianAdd (a, b, c) (d, e, f) = (a + d, b + e, c + f)"

fun d3_geo_cartesianScale :: "vec3 \<Rightarrow> real \<Rightarrow> vec3" where
  "d3_geo_cartesianScale (a, b, c) k = (a * k, b * k, c * k)"

fun d3_geo_cartesianNormalize :: "vec3 \<Rightarrow> vec3 option" where
  "d3_geo_cartesianNormalize (a, b, c) = (let l = sqrt (a * a + b * b + c * c) in if l = 0 then None else Some (a / l, b / l, c / l))"

fun d3_geo_spherical :: "vec3 \<Rightarrow> angles" where
  "d3_geo_spherical (a, b, c) = (js_atan2 b a, d3_asin c)"

definition d3_geo_sphericalEqual :: "angles \<Rightarrow> angles \<Rightarrow> bool" where
  "d3_geo_sphericalEqual a b = (\<bar>fst a - fst b\<bar> < 1 / 1000000 \<and> \<bar>snd a - snd b\<bar> < 1 / 1000000)"

section \<open>Maps and rotations\<close>

type_synonym geo_map = "real \<Rightarrow> real \<Rightarrow> angles option"

record geo_fun =
  forward :: geo_map
  invert :: "geo_map option"

definition then_map :: "geo_map \<Rightarrow> geo_map \<Rightarrow> geo_map" where
  "then_map f g x y = (case f x y of None \<Rightarrow> None | Some (u, v) \<Rightarrow> g u v)"

definition d3_geo_compose :: "geo_fun \<Rightarrow> geo_fun \<Rightarrow> geo_fun" where
  "d3_geo_compose a b = \<lparr>forward = then_map (forward a) (forward b),
     invert = (case (invert a, invert b) of (Some ia, Some ib) \<Rightarrow> Some (then_map ib ia) | _ \<Rightarrow> None)\<rparr>"

definition d3_geo_equirectangular :: geo_fun where
  "d3_geo_equirectangular = \<lparr>forward = (\<lambda>l p. Some (l, p)), invert = Some (\<lambda>l p. Some (l, p))\<rparr>"

definition wrap :: "real \<Rightarrow> real" where
  "wrap l = (if l > pi then l - 2 * pi else if l < - pi then l + 2 * pi else l)"

definition d3_geo_identityRotation :: geo_fun where
  "d3_geo_identityRotation = \<lparr>forward = (\<lambda>l p. Some (wrap l, p)), invert = invert d3_geo_equirectangular\<rparr>"

definition d3_geo_forwardRotation_lambda :: "real \<Rightarrow> geo_map" where
  "d3_geo_forwardRotation_lambda dl l p = Some (wrap (l + dl), p)"

definition d3_geo_rotation_lambda :: "real \<Rightarrow> geo_fun" where
  "d3_geo_rotation_lambda dl = \<lparr>forward = d3_geo_forwardRotation_lambda dl, invert = Some (d3_geo_forwardRotation_lambda (- dl))\<rparr>"

definition d3_geo_rotation_phigamma :: "real \<Rightarrow> real \<Rightarrow> geo_fun" where
  "d3_geo_rotation_phigamma dp dg = \<lparr>
     forward = (\<lambda>l p. let x = cos l * cos p; y = sin l * cos p; z = sin p; k = z * cos dp + x * sin dp
       in Some (js_atan2 (y * cos dg - k * sin dg) (x * cos dp - z * sin dp), d3_asin (k * cos dg + y * sin dg))),
     invert = Some (\<lambda>l p. let x = cos l * cos p; y = sin l * cos p; z = sin p; k = z * cos dg - y * sin dg
       in Some (js_atan2 (y * cos dg + z * sin dg) (x * cos dp + k * sin dp), d3_asin (k * cos dp - x * sin dp)))\<rparr>"

definition d3_geo_rotation :: "real \<Rightarrow> real \<Rightarrow> real \<Rightarrow> geo_fun" where
  "d3_geo_rotation dl dp dg =
     (if dl \<noteq> 0 then (if dp \<noteq> 0 \<or> dg \<noteq> 0 then d3_geo_compose (d3_geo_rotation_lambda dl) (d3_geo_rotation_phigamma dp dg) else d3_geo_rotation_lambda dl)
      else if dp \<noteq> 0 \<or> dg \<noteq> 0 then d3_geo_rotation_phigamma dp dg else d3_geo_identityRotation)"

section \<open>Degrees\<close>

definition d3_radians :: real where
  "d3_radians = pi / 180"

definition d3_degrees :: real where
  "d3_degrees = 180 / pi"

text \<open>\<open>d3.geo.rotation\<close>: the angles of the rotation, the third one optional, and the points are in degrees.\<close>

definition rem360 :: "real \<Rightarrow> real" where
  "rem360 x = x - 360 * of_int (if x / 360 < 0 then \<lceil>x / 360\<rceil> else \<lfloor>x / 360\<rfloor>)"

definition rotation_angles :: "real \<times> real \<times> real option \<Rightarrow> geo_fun" where
  "rotation_angles r = (let (a, b, c) = r in d3_geo_rotation (rem360 a * d3_radians) (b * d3_radians) (case c of None \<Rightarrow> 0 | Some g \<Rightarrow> g * d3_radians))"

definition in_degrees :: "geo_map \<Rightarrow> angles \<Rightarrow> angles option" where
  "in_degrees f c = map_option (\<lambda>(u, v). (u * d3_degrees, v * d3_degrees)) (f (fst c * d3_radians) (snd c * d3_radians))"

definition geo_rotation_forward :: "real \<times> real \<times> real option \<Rightarrow> angles \<Rightarrow> angles option" where
  "geo_rotation_forward r = in_degrees (forward (rotation_angles r))"

definition geo_rotation_invert :: "real \<times> real \<times> real option \<Rightarrow> angles \<Rightarrow> angles option" where
  "geo_rotation_invert r c = (case invert (rotation_angles r) of None \<Rightarrow> None | Some g \<Rightarrow> in_degrees g c)"

section \<open>Distances and great arcs\<close>

definition d3_geo_distance :: "angles \<Rightarrow> angles \<Rightarrow> real" where
  "d3_geo_distance a b =
     (let dl = (fst b - fst a) * d3_radians; p0 = snd a * d3_radians; p1 = snd b * d3_radians;
          t = cos p1 * sin dl; t' = cos p0 * sin p1 - sin p0 * cos p1 * cos dl
      in js_atan2 (sqrt (t * t + t' * t')) (sin p0 * sin p1 + cos p0 * cos p1 * cos dl))"

text \<open>The interpolator along a great arc, with the distance; between opposite points the sine of the distance is zero and there is none.\<close>

definition great_arc_distance :: "real \<Rightarrow> real \<Rightarrow> real \<Rightarrow> real \<Rightarrow> real" where
  "great_arc_distance x0 y0 x1 y1 = 2 * arcsin (sqrt (d3_haversin (y1 - y0) + cos y0 * cos y1 * d3_haversin (x1 - x0)))"

definition d3_geo_interpolate :: "real \<Rightarrow> real \<Rightarrow> real \<Rightarrow> real \<Rightarrow> real \<Rightarrow> angles option" where
  "d3_geo_interpolate x0 y0 x1 y1 t =
     (let d = great_arc_distance x0 y0 x1 y1
      in if d = 0 then Some (x0 * d3_degrees, y0 * d3_degrees)
         else if sin d = 0 then None
         else let B = sin (t * d) * (1 / sin d); A = sin (d - t * d) * (1 / sin d);
                  x = A * (cos y0 * cos x0) + B * (cos y1 * cos x1); y = A * (cos y0 * sin x0) + B * (cos y1 * sin x1); z = A * sin y0 + B * sin y1
              in Some (js_atan2 y x * d3_degrees, js_atan2 z (sqrt (x * x + y * y)) * d3_degrees))"

section \<open>Angles of vectors\<close>

lemma atan2_scale: "0 < k \<Longrightarrow> js_atan2 (k * y) (k * x) = js_atan2 y x"
  by (auto simp: js_atan2_def zero_less_mult_iff mult_less_0_iff zero_le_mult_iff)

lemma atan2_range: "- pi < js_atan2 y x \<and> js_atan2 y x \<le> pi"
proof -
  have b: "- (pi / 2) < arctan (y / x)" "arctan (y / x) < pi / 2" by (rule arctan_lbound, rule arctan_ubound)
  have n: "x < 0 \<Longrightarrow> y \<ge> 0 \<Longrightarrow> arctan (y / x) \<le> 0" "x < 0 \<Longrightarrow> y < 0 \<Longrightarrow> 0 < arctan (y / x)"
    by (auto simp: divide_nonneg_neg divide_neg_neg)
  show ?thesis unfolding js_atan2_def using b n pi_gt_zero by (auto split: if_splits)
qed

lemma angle_unique:
  assumes "sin a = sin b" "cos a = cos b" "- pi < a" "a \<le> pi" "- pi < b" "b \<le> pi"
  shows "a = b"
proof -
  obtain n :: int where n: "a = b + 2 * pi * of_int n" using assms(1,2) sin_cos_eq_iff [of a b] by auto
  have "\<bar>a - b\<bar> < 2 * pi" using assms(3-6) by linarith
  then have "2 * pi * \<bar>of_int n\<bar> < 2 * pi * 1" unfolding n by (simp add: abs_mult)
  then have "n = 0" using pi_gt_zero by (simp add: mult_less_cancel_left_pos)
  then show ?thesis using n by simp
qed

lemma atan2_polar:
  assumes "0 < k" "- pi < a" "a \<le> pi"
  shows "js_atan2 (k * sin a) (k * cos a) = a"
proof -
  have "cos a * cos a + sin a * sin a = 1" using sin_cos_squared_add3 [of a] .
  from atan2_unit [OF this] have "sin (js_atan2 (sin a) (cos a)) = sin a" "cos (js_atan2 (sin a) (cos a)) = cos a" by auto
  then have "js_atan2 (sin a) (cos a) = a" using angle_unique atan2_range assms(2,3) by blast
  then show ?thesis using atan2_scale [OF assms(1)] by simp
qed

lemma asin_sin: "- (pi / 2) \<le> p \<Longrightarrow> p \<le> pi / 2 \<Longrightarrow> d3_asin (sin p) = p"
  by (simp add: d3_asin_def arcsin_sin not_less [symmetric]) (metis not_less sin_ge_minus_one sin_le_one)

lemma atan2_vector:
  assumes "x \<noteq> 0 \<or> y \<noteq> 0"
  shows "sqrt (x * x + y * y) * cos (js_atan2 y x) = x" "sqrt (x * x + y * y) * sin (js_atan2 y x) = y"
proof -
  define r where "r = sqrt (x * x + y * y)"
  have "0 < x * x + y * y" using assms by (simp add: sum_squares_gt_zero_iff)
  then have r: "0 < r" "r * r = x * x + y * y" by (simp_all add: r_def)
  have "(x / r) * (x / r) + (y / r) * (y / r) = 1" using r assms by (simp flip: add_divide_distrib)
  from atan2_unit [OF this] have "cos (js_atan2 (y / r) (x / r)) = x / r" "sin (js_atan2 (y / r) (x / r)) = y / r" by auto
  moreover have "js_atan2 (y / r) (x / r) = js_atan2 y x" using atan2_scale [of "1 / r" y x] r by simp
  ultimately show "sqrt (x * x + y * y) * cos (js_atan2 y x) = x" "sqrt (x * x + y * y) * sin (js_atan2 y x) = y"
    using r by (simp_all add: r_def [symmetric])
qed


section \<open>Points and their vectors\<close>

text \<open>A point of the sphere off the poles, with its longitude in the usual range.\<close>

definition proper :: "angles \<Rightarrow> bool" where
  "proper p = (- pi < fst p \<and> fst p \<le> pi \<and> - (pi / 2) < snd p \<and> snd p < pi / 2)"

lemma proper_cos: "proper p \<Longrightarrow> 0 < cos (snd p)"
  by (auto simp: proper_def intro: cos_gt_zero_pi)

lemma cartesian_unit: "d3_geo_cartesianDot (d3_geo_cartesian p) (d3_geo_cartesian p) = 1"
proof -
  have "cos q * cos l * (cos q * cos l) + cos q * sin l * (cos q * sin l) + sin q * sin q = cos q * cos q * (cos l * cos l + sin l * sin l) + sin q * sin q" for q l :: real
    by algebra
  then show ?thesis using sin_cos_squared_add3 by (simp add: d3_geo_cartesian_def)
qed

lemma spherical_cartesian: "proper p \<Longrightarrow> d3_geo_spherical (d3_geo_cartesian p) = p"
  using proper_cos [of p] by (auto simp: d3_geo_cartesian_def proper_def atan2_polar asin_sin prod_eq_iff)

lemma cartesian_spherical:
  assumes "x * x + y * y + z * z = 1"
  shows "d3_geo_cartesian (d3_geo_spherical (x, y, z)) = (x, y, z)"
proof -
  have z: "z * z \<le> 1" using assms zero_le_square [of x] zero_le_square [of y] by linarith
  then have z1: "- 1 \<le> z" "z \<le> 1" using abs_square_le_1 [of z] by (auto simp: power2_eq_square abs_le_iff)
  then have a: "sin (d3_asin z) = z" "cos (d3_asin z) = sqrt (x * x + y * y)"
    using assms by (auto simp: d3_asin_def cos_arcsin power2_eq_square intro!: arg_cong [of _ _ sqrt])
  show ?thesis
  proof (cases "x = 0 \<and> y = 0")
    case False
    then show ?thesis using atan2_vector [of x y] a by (simp add: d3_geo_cartesian_def)
  qed (use a in \<open>simp add: d3_geo_cartesian_def\<close>)
qed

text \<open>Rotations as matrices.\<close>

fun turn :: "real \<Rightarrow> real \<Rightarrow> vec3 \<Rightarrow> vec3" where
  "turn dp dg (x, y, z) = (x * cos dp - z * sin dp, y * cos dg - (z * cos dp + x * sin dp) * sin dg, (z * cos dp + x * sin dp) * cos dg + y * sin dg)"

fun turn_back :: "real \<Rightarrow> real \<Rightarrow> vec3 \<Rightarrow> vec3" where
  "turn_back dp dg (x, y, z) = (x * cos dp + (z * cos dg - y * sin dg) * sin dp, y * cos dg + z * sin dg, (z * cos dg - y * sin dg) * cos dp - x * sin dp)"

lemma unturn:
  fixes a b c s :: real
  assumes "c * c + s * s = 1"
  shows "(a * c + b * s) * c - (b * c - a * s) * s = a" "(b * c - a * s) * c + (a * c + b * s) * s = b"
    "(a * c - b * s) * c + (b * c + a * s) * s = a" "(b * c + a * s) * c - (a * c - b * s) * s = b"
  using assms by algebra+

lemma turn_back_turn: "turn_back dp dg (turn dp dg v) = v"
  by (cases v) (simp add: unturn sin_cos_squared_add3)

lemma turn_dot: "d3_geo_cartesianDot (turn dp dg v) (turn dp dg w) = d3_geo_cartesianDot v w"
proof (cases v; cases w)
  fix x y z x' y' z' assume e: "v = (x, y, z)" "w = (x', y', z')"
  have planar: "(a * c - b * s) * (a' * c - b' * s) + (b * c + a * s) * (b' * c + a' * s) = a * a' + b * b'" if "c * c + s * s = 1" for a b a' b' c s :: real
    using that by algebra
  let ?k = "z * cos dp + x * sin dp" and ?k' = "z' * cos dp + x' * sin dp"
  have "(y * cos dg - ?k * sin dg) * (y' * cos dg - ?k' * sin dg) + (?k * cos dg + y * sin dg) * (?k' * cos dg + y' * sin dg) = y * y' + ?k * ?k'"
    by (rule planar [OF sin_cos_squared_add3])
  moreover have "(x * cos dp - z * sin dp) * (x' * cos dp - z' * sin dp) + ?k * ?k' = x * x' + z * z'" by (rule planar [OF sin_cos_squared_add3])
  ultimately show ?thesis unfolding e turn.simps d3_geo_cartesianDot.simps by linarith
qed

lemma rotation_phigamma:
  "forward (d3_geo_rotation_phigamma dp dg) l p = Some (d3_geo_spherical (turn dp dg (d3_geo_cartesian (l, p))))"
  "invert (d3_geo_rotation_phigamma dp dg) = Some (\<lambda>l p. Some (d3_geo_spherical (turn_back dp dg (d3_geo_cartesian (l, p)))))"
  by (simp_all add: d3_geo_rotation_phigamma_def d3_geo_cartesian_def Let_def mult.commute fun_eq_iff)


lemma turn_unit: "x * x + y * y + z * z = 1 \<Longrightarrow> turn dp dg (x, y, z) = (x', y', z') \<Longrightarrow> x' * x' + y' * y' + z' * z' = 1"
  using turn_dot [of dp dg "(x, y, z)" "(x, y, z)"] by (auto simp del: turn.simps)

lemma cartesian_turned: "d3_geo_cartesian (d3_geo_spherical (turn dp dg (d3_geo_cartesian p))) = turn dp dg (d3_geo_cartesian p)"
proof -
  obtain x y z x' y' z' where e: "d3_geo_cartesian p = (x, y, z)" "turn dp dg (x, y, z) = (x', y', z')" by (metis prod_cases3)
  have "x' * x' + y' * y' + z' * z' = 1" using turn_unit [OF _ e(2)] cartesian_unit [of p] by (simp add: e(1))
  then show ?thesis unfolding e by (rule cartesian_spherical)
qed

section \<open>Round trips\<close>

text \<open>A map with an inverse on a set of points.\<close>

definition inverts_on :: "(angles \<Rightarrow> bool) \<Rightarrow> geo_fun \<Rightarrow> bool" where
  "inverts_on D f = (\<forall>l p. D (l, p) \<longrightarrow> (\<exists>u v g. forward f l p = Some (u, v) \<and> invert f = Some g \<and> g u v = Some (l, p)))"

lemma inverts_onI:
  assumes "invert f = Some g" "\<And>l p. D (l, p) \<Longrightarrow> \<exists>u v. forward f l p = Some (u, v) \<and> g u v = Some (l, p)"
  shows "inverts_on D f"
  using assms by (auto simp: inverts_on_def)

lemma compose_inverts:
  assumes "inverts_on D f" "inverts_on E g" "\<And>l p u v. D (l, p) \<Longrightarrow> forward f l p = Some (u, v) \<Longrightarrow> E (u, v)"
  shows "inverts_on D (d3_geo_compose f g)"
  unfolding inverts_on_def
proof (intro allI impI)
  fix l p assume d: "D (l, p)"
  obtain u v fi where f: "forward f l p = Some (u, v)" "invert f = Some fi" "fi u v = Some (l, p)" using assms(1) d unfolding inverts_on_def by blast
  obtain x y gi where "forward g u v = Some (x, y)" "invert g = Some gi" "gi x y = Some (u, v)"
    using assms(2) assms(3) [OF d f(1)] unfolding inverts_on_def by blast
  then show "\<exists>x y h. forward (d3_geo_compose f g) l p = Some (x, y) \<and> invert (d3_geo_compose f g) = Some h \<and> h x y = Some (l, p)"
    using f by (auto simp: d3_geo_compose_def then_map_def)
qed

lemma phigamma_inverts: "inverts_on proper (d3_geo_rotation_phigamma dp dg)"
proof (rule inverts_onI [OF rotation_phigamma(2)])
  fix l p assume "proper (l, p)"
  then show "\<exists>u v. forward (d3_geo_rotation_phigamma dp dg) l p = Some (u, v) \<and>
      Some (d3_geo_spherical (turn_back dp dg (d3_geo_cartesian (u, v)))) = Some (l, p)"
    unfolding rotation_phigamma(1) using cartesian_turned [of dp dg "(l, p)"] turn_back_turn spherical_cartesian
    by (cases "d3_geo_spherical (turn dp dg (d3_geo_cartesian (l, p)))") auto
qed

definition inner :: "angles \<Rightarrow> bool" where
  "inner p = (proper p \<and> fst p < pi)"

lemma wrap_range: "\<bar>l\<bar> \<le> 3 * pi \<Longrightarrow> - pi \<le> wrap l \<and> wrap l \<le> pi"
  by (auto simp: wrap_def)

lemma lambda_inverts: "\<bar>dl\<bar> \<le> 2 * pi \<Longrightarrow> inverts_on inner (d3_geo_rotation_lambda dl)"
  by (rule inverts_onI) (auto simp: d3_geo_rotation_lambda_def d3_geo_forwardRotation_lambda_def wrap_def inner_def proper_def)

text \<open>A turn about the pole may end at either side of the antimeridian; the rotation about the other axes takes both for one, and the turn back gives the same point again.\<close>

lemma phigamma_inverts_antimeridian:
  assumes "- pi \<le> u" "u \<le> pi" "- (pi / 2) < p" "p < pi / 2"
  shows "\<exists>x y g. forward (d3_geo_rotation_phigamma dp dg) u p = Some (x, y) \<and> invert (d3_geo_rotation_phigamma dp dg) = Some g \<and>
    g x y = Some (if u = - pi then pi else u, p)"
proof -
  define u' where "u' = (if u = - pi then pi else u)"
  have "d3_geo_cartesian (u, p) = d3_geo_cartesian (u', p)" by (simp add: u'_def d3_geo_cartesian_def)
  then have "forward (d3_geo_rotation_phigamma dp dg) u p = forward (d3_geo_rotation_phigamma dp dg) u' p" by (simp add: rotation_phigamma(1))
  moreover have "proper (u', p)" using assms by (auto simp: proper_def u'_def)
  ultimately show ?thesis using phigamma_inverts [of dp dg] unfolding inverts_on_def u'_def by metis
qed

lemma wrap_back:
  assumes "- pi < l" "l < pi" "\<bar>dl\<bar> \<le> 2 * pi"
  shows "wrap ((if wrap (l + dl) = - pi then pi else wrap (l + dl)) - dl) = l" "- pi \<le> wrap (l + dl)" "wrap (l + dl) \<le> pi"
  using assms by (auto simp: wrap_def split: if_splits)

lemma lambda_phigamma_inverts:
  assumes "\<bar>dl\<bar> \<le> 2 * pi"
  shows "inverts_on inner (d3_geo_compose (d3_geo_rotation_lambda dl) (d3_geo_rotation_phigamma dp dg))"
proof -
  have "\<exists>x y h. then_map (d3_geo_forwardRotation_lambda dl) (forward (d3_geo_rotation_phigamma dp dg)) l p = Some (x, y) \<and>
      invert (d3_geo_rotation_phigamma dp dg) = Some h \<and> then_map h (d3_geo_forwardRotation_lambda (- dl)) x y = Some (l, p)" if "inner (l, p)" for l p
  proof -
    have b: "- pi < l" "l < pi" "- (pi / 2) < p" "p < pi / 2" using that by (auto simp: inner_def proper_def)
    obtain x y g where "forward (d3_geo_rotation_phigamma dp dg) (wrap (l + dl)) p = Some (x, y)" "invert (d3_geo_rotation_phigamma dp dg) = Some g"
      "g x y = Some (if wrap (l + dl) = - pi then pi else wrap (l + dl), p)"
      using phigamma_inverts_antimeridian [OF wrap_back(2,3) [OF b(1,2) assms] b(3,4)] by blast
    then show ?thesis using wrap_back(1) [OF b(1,2) assms] by (auto simp: then_map_def d3_geo_forwardRotation_lambda_def)
  qed
  then show ?thesis by (fastforce simp: inverts_on_def d3_geo_compose_def d3_geo_rotation_lambda_def)
qed

lemma identity_inverts: "inverts_on inner d3_geo_identityRotation"
  by (rule inverts_onI) (auto simp: d3_geo_identityRotation_def d3_geo_equirectangular_def wrap_def inner_def proper_def)

lemma inverts_on_mono: "inverts_on D f \<Longrightarrow> (\<And>p. E p \<Longrightarrow> D p) \<Longrightarrow> inverts_on E f"
  by (simp add: inverts_on_def)

lemma rotation_inverts:
  assumes "\<bar>dl\<bar> \<le> 2 * pi"
  shows "inverts_on inner (d3_geo_rotation dl dp dg)"
proof -
  have "inverts_on inner (d3_geo_rotation_phigamma dp dg)" by (rule inverts_on_mono [OF phigamma_inverts]) (simp add: inner_def)
  then show ?thesis using lambda_phigamma_inverts [OF assms] lambda_inverts [OF assms] identity_inverts by (simp add: d3_geo_rotation_def)
qed

lemma rem360_bound: "\<bar>rem360 x\<bar> < 360"
proof (cases "x / 360 < 0")
  case True
  have "x / 360 \<le> of_int \<lceil>x / 360\<rceil>" "of_int \<lceil>x / 360\<rceil> < x / 360 + 1" by linarith+
  then have "x - 360 * of_int \<lceil>x / 360\<rceil> \<le> 0" "- 360 < x - 360 * of_int \<lceil>x / 360\<rceil>" by linarith+
  then show ?thesis using True by (simp add: rem360_def abs_less_iff)
next
  case False
  have "of_int \<lfloor>x / 360\<rfloor> \<le> x / 360" "x / 360 < of_int \<lfloor>x / 360\<rfloor> + 1" by linarith+
  then have "0 \<le> x - 360 * of_int \<lfloor>x / 360\<rfloor>" "x - 360 * of_int \<lfloor>x / 360\<rfloor> < 360" by linarith+
  then show ?thesis using False by (simp add: rem360_def abs_less_iff)
qed

lemma rem360_radians: "\<bar>rem360 x * d3_radians\<bar> \<le> 2 * pi"
proof -
  have "\<bar>rem360 x\<bar> * d3_radians \<le> 360 * d3_radians" using rem360_bound [of x] pi_gt_zero unfolding d3_radians_def by (intro mult_right_mono) auto
  then show ?thesis by (simp add: abs_mult d3_radians_def)
qed

definition radians :: "angles \<Rightarrow> angles" where
  "radians c = (fst c * d3_radians, snd c * d3_radians)"

lemma degrees_radians [simp]: "x * d3_degrees * d3_radians = x" "x * d3_radians * d3_degrees = x"
  by (simp_all add: d3_radians_def d3_degrees_def)

text \<open>
  (C14) Rotations.  For all angles, also beyond a full turn, inverting a rotation gives back every point that is not a pole and not on the antimeridian.
\<close>

theorem rotation_roundtrip:
  assumes "inner (radians c)"
  shows "\<exists>q. geo_rotation_forward r c = Some q \<and> geo_rotation_invert r q = Some c"
proof -
  obtain l p where c: "radians c = (l, p)" by (metis prod.exhaust)
  have "inverts_on inner (rotation_angles r)" using rotation_inverts [OF rem360_radians] by (cases r) (simp add: rotation_angles_def)
  then obtain u v g where "forward (rotation_angles r) l p = Some (u, v)" "invert (rotation_angles r) = Some g" "g u v = Some (l, p)"
    using assms unfolding inverts_on_def c by blast
  then show ?thesis using c by (auto simp: geo_rotation_forward_def geo_rotation_invert_def in_degrees_def radians_def prod_eq_iff)
qed

theorem rotation_roundtrip_witness:
  "\<exists>q. geo_rotation_forward (400, 30, Some (- 20)) (45, 60) = Some q \<and> geo_rotation_invert (400, 30, Some (- 20)) q = Some (45, 60)"
proof -
  have "inner (radians (45, 60))" using pi_gt_zero unfolding inner_def proper_def radians_def d3_radians_def fst_conv snd_conv by linarith
  then show ?thesis by (rule rotation_roundtrip)
qed

section \<open>Distances\<close>

lemma atan2_arc:
  assumes "- 1 \<le> x" "x \<le> 1" "y * y + x * x = 1" "0 \<le> y"
  shows "js_atan2 y x = arccos x"
proof -
  have "x * x + y * y = 1" using assms(3) by simp
  then have "cos (js_atan2 y x) = x" "sin (js_atan2 y x) = y" using atan2_unit by blast+
  moreover have "cos (arccos x) = x" using assms(1,2) by simp
  moreover have "sin (arccos x) = y"
  proof -
    have "y\<^sup>2 = 1 - x\<^sup>2" using assms(3) by (simp add: power2_eq_square)
    then show ?thesis using assms(1,2,4) by (simp add: sin_arccos_abs real_sqrt_unique)
  qed
  moreover have "0 \<le> arccos x" "arccos x \<le> pi" using arccos_bounded [OF assms(1,2)] by auto
  ultimately show ?thesis using angle_unique [of "js_atan2 y x" "arccos x"] atan2_range [of y x] pi_gt_zero by auto
qed

lemma dot_angles:
  "d3_geo_cartesianDot (d3_geo_cartesian (l0, p0)) (d3_geo_cartesian (l1, p1)) = sin p0 * sin p1 + cos p0 * cos p1 * cos (l1 - l0)"
  by (simp add: d3_geo_cartesian_def cos_diff algebra_simps)

lemma distance_square:
  fixes d p0 p1 :: real
  defines "x \<equiv> sin p0 * sin p1 + cos p0 * cos p1 * cos d" and "t \<equiv> cos p1 * sin d" and "t' \<equiv> cos p0 * sin p1 - sin p0 * cos p1 * cos d"
  shows "t * t + t' * t' + x * x = 1"
proof -
  have "sin d * sin d = 1 - cos d * cos d" "cos p0 * cos p0 = 1 - sin p0 * sin p0" "cos p1 * cos p1 = 1 - sin p1 * sin p1"
    using sin_cos_squared_add3 [of d] sin_cos_squared_add3 [of p0] sin_cos_squared_add3 [of p1] by linarith+
  then show ?thesis unfolding x_def t_def t'_def by algebra
qed

lemma distance_arc: "d3_geo_distance a b = arccos (d3_geo_cartesianDot (d3_geo_cartesian (radians a)) (d3_geo_cartesian (radians b)))"
proof -
  let ?d = "(fst b - fst a) * d3_radians" and ?p = "snd a * d3_radians" and ?q = "snd b * d3_radians"
  define x where "x = sin ?p * sin ?q + cos ?p * cos ?q * cos ?d"
  define y where "y = cos ?q * sin ?d * (cos ?q * sin ?d) + (cos ?p * sin ?q - sin ?p * cos ?q * cos ?d) * (cos ?p * sin ?q - sin ?p * cos ?q * cos ?d)"
  have "0 \<le> y" unfolding y_def by simp
  moreover have "y + x * x = 1" unfolding x_def y_def by (rule distance_square)
  ultimately have b: "x * x \<le> 1" "sqrt y * sqrt y + x * x = 1" by simp_all
  then have "- 1 \<le> x" "x \<le> 1" using abs_square_le_1 [of x] by (auto simp: power2_eq_square abs_le_iff)
  from atan2_arc [OF this b(2)] \<open>0 \<le> y\<close> have "js_atan2 (sqrt y) x = arccos x" by simp
  then show ?thesis unfolding d3_geo_distance_def Let_def radians_def dot_angles x_def y_def by (simp add: left_diff_distrib)
qed

lemma cartesian_wrap: "d3_geo_cartesian (wrap l, p) = d3_geo_cartesian (l, p)"
  by (simp add: d3_geo_cartesian_def wrap_def cos_diff sin_diff)

definition keeps_dots :: "geo_fun \<Rightarrow> bool" where
  "keeps_dots f = (\<forall>a b. \<exists>a' b'. forward f (fst a) (snd a) = Some a' \<and> forward f (fst b) (snd b) = Some b' \<and>
     d3_geo_cartesianDot (d3_geo_cartesian a') (d3_geo_cartesian b') = d3_geo_cartesianDot (d3_geo_cartesian a) (d3_geo_cartesian b))"

lemma lambda_keeps: "keeps_dots (d3_geo_rotation_lambda dl)"
  by (simp add: keeps_dots_def d3_geo_rotation_lambda_def d3_geo_forwardRotation_lambda_def cartesian_wrap dot_angles)

lemma phigamma_keeps: "keeps_dots (d3_geo_rotation_phigamma dp dg)"
  by (simp add: keeps_dots_def rotation_phigamma(1) cartesian_turned turn_dot)

lemma compose_keeps:
  assumes "keeps_dots f" "keeps_dots g"
  shows "keeps_dots (d3_geo_compose f g)"
  unfolding keeps_dots_def
proof (intro allI)
  fix a b
  obtain a1 b1 where f: "forward f (fst a) (snd a) = Some a1" "forward f (fst b) (snd b) = Some b1"
    "d3_geo_cartesianDot (d3_geo_cartesian a1) (d3_geo_cartesian b1) = d3_geo_cartesianDot (d3_geo_cartesian a) (d3_geo_cartesian b)"
    using assms(1) unfolding keeps_dots_def by blast
  obtain a2 b2 where "forward g (fst a1) (snd a1) = Some a2" "forward g (fst b1) (snd b1) = Some b2"
    "d3_geo_cartesianDot (d3_geo_cartesian a2) (d3_geo_cartesian b2) = d3_geo_cartesianDot (d3_geo_cartesian a1) (d3_geo_cartesian b1)"
    using assms(2) unfolding keeps_dots_def by blast
  then show "\<exists>a' b'. forward (d3_geo_compose f g) (fst a) (snd a) = Some a' \<and> forward (d3_geo_compose f g) (fst b) (snd b) = Some b' \<and>
      d3_geo_cartesianDot (d3_geo_cartesian a') (d3_geo_cartesian b') = d3_geo_cartesianDot (d3_geo_cartesian a) (d3_geo_cartesian b)"
    using f by (simp add: d3_geo_compose_def then_map_def case_prod_unfold)
qed

lemma rotation_keeps: "keeps_dots (d3_geo_rotation dl dp dg)"
proof -
  have "keeps_dots d3_geo_identityRotation" by (simp add: keeps_dots_def d3_geo_identityRotation_def cartesian_wrap dot_angles)
  then show ?thesis by (simp add: d3_geo_rotation_def lambda_keeps phigamma_keeps compose_keeps)
qed

text \<open>
  Distances.  A rotation about any angles is defined on all points and keeps all distances, which are the angles between the vectors of the points.
\<close>

theorem rotation_isometry:
  "\<exists>a' b'. geo_rotation_forward r a = Some a' \<and> geo_rotation_forward r b = Some b' \<and> d3_geo_distance a' b' = d3_geo_distance a b \<and>
    d3_geo_distance a b = arccos (d3_geo_cartesianDot (d3_geo_cartesian (radians a)) (d3_geo_cartesian (radians b)))"
proof -
  obtain dl dp dg where r: "rotation_angles r = d3_geo_rotation dl dp dg" by (cases r) (simp add: rotation_angles_def)
  obtain a1 b1 where "forward (rotation_angles r) (fst (radians a)) (snd (radians a)) = Some a1" "forward (rotation_angles r) (fst (radians b)) (snd (radians b)) = Some b1"
    "d3_geo_cartesianDot (d3_geo_cartesian a1) (d3_geo_cartesian b1) = d3_geo_cartesianDot (d3_geo_cartesian (radians a)) (d3_geo_cartesian (radians b))"
    using rotation_keeps [of dl dp dg] unfolding keeps_dots_def r by blast
  then show ?thesis by (simp add: geo_rotation_forward_def in_degrees_def distance_arc case_prod_unfold radians_def)
qed

end
