(* ===== verification/D3_Projection.thy ===== *)
theory D3_Projection
  imports D3_Sphere
begin

text \<open>
  Raw projections of the sphere with their inverses (\<open>d3.js\<close> lines 3747 to 3758, 4297 to 4302 and 4569 to 4687) and the
  projections that scale, translate, centre and rotate them (4215 to 4296).  A result that is no finite number is \<open>None\<close>; streams with clipping and
  resampling are not part of this theory.
\<close>

section \<open>Raw projections\<close>

subsection \<open>Azimuthal projections\<close>

definition js_asin :: "real \<Rightarrow> real option" where
  "js_asin x = (if \<bar>x\<bar> \<le> 1 then Some (arcsin x) else None)"

definition js_quot :: "real \<Rightarrow> real \<Rightarrow> real option" where
  "js_quot x y = (if y = 0 then None else Some (x / y))"

definition azimuthal_forward :: "(real \<Rightarrow> real option) \<Rightarrow> geo_map" where
  "azimuthal_forward scl l p = map_option (\<lambda>k. (k * cos p * sin l, k * sin p)) (scl (cos l * cos p))"

definition azimuthal_invert :: "(real \<Rightarrow> real option) \<Rightarrow> geo_map" where
  "azimuthal_invert ang x y =
     (let r = sqrt (x * x + y * y)
      in case ang r of
           None \<Rightarrow> None
         | Some c \<Rightarrow> map_option (\<lambda>p. (js_atan2 (x * sin c) (r * cos c), p)) (js_asin (if r = 0 then 0 else y * sin c / r)))"

definition d3_geo_azimuthal :: "(real \<Rightarrow> real option) \<Rightarrow> (real \<Rightarrow> real option) \<Rightarrow> geo_fun" where
  "d3_geo_azimuthal scl ang = \<lparr>forward = azimuthal_forward scl, invert = Some (azimuthal_invert ang)\<rparr>"

definition equalArea_scale :: "real \<Rightarrow> real option" where
  "equalArea_scale u = (if 1 + u > 0 then Some (sqrt (2 / (1 + u))) else None)"

definition equalArea_angle :: "real \<Rightarrow> real option" where
  "equalArea_angle r = map_option (\<lambda>a. 2 * a) (js_asin (r / 2))"

definition d3_geo_azimuthalEqualArea :: geo_fun where
  "d3_geo_azimuthalEqualArea = d3_geo_azimuthal equalArea_scale equalArea_angle"

definition equidistant_scale :: "real \<Rightarrow> real option" where
  "equidistant_scale u = (if \<bar>u\<bar> \<le> 1 then (let c = arccos u in if c = 0 then Some 0 else js_quot c (sin c)) else None)"

definition d3_geo_azimuthalEquidistant :: geo_fun where
  "d3_geo_azimuthalEquidistant = d3_geo_azimuthal equidistant_scale Some"

definition d3_geo_gnomonic :: geo_fun where
  "d3_geo_gnomonic = d3_geo_azimuthal (js_quot 1) (\<lambda>r. Some (arctan r))"

definition d3_geo_orthographic :: geo_fun where
  "d3_geo_orthographic = d3_geo_azimuthal (\<lambda>_. Some 1) js_asin"

definition d3_geo_stereographic :: geo_fun where
  "d3_geo_stereographic = d3_geo_azimuthal (\<lambda>u. js_quot 1 (1 + u)) (\<lambda>r. Some (2 * arctan r))"

subsection \<open>Mercator projections\<close>

definition mercator_y :: "real \<Rightarrow> real option" where
  "mercator_y p = (let t = tan (pi / 4 + p / 2) in if t > 0 then Some (ln t) else None)"

definition d3_geo_mercator :: geo_fun where
  "d3_geo_mercator = \<lparr>forward = (\<lambda>l p. map_option (\<lambda>y. (l, y)) (mercator_y p)), invert = Some (\<lambda>x y. Some (x, 2 * arctan (exp y) - pi / 2))\<rparr>"

definition d3_geo_transverseMercator :: geo_fun where
  "d3_geo_transverseMercator = \<lparr>forward = (\<lambda>l p. map_option (\<lambda>x. (x, - l)) (mercator_y p)), invert = Some (\<lambda>x y. Some (- y, 2 * arctan (exp x) - pi / 2))\<rparr>"

subsection \<open>Conic projections\<close>

definition conic_point :: "real \<Rightarrow> real \<Rightarrow> real \<Rightarrow> real \<Rightarrow> angles" where
  "conic_point r0 n r l = (r * sin (l * n), r0 - r * cos (l * n))"

definition conicEqualArea_n :: "real \<Rightarrow> real \<Rightarrow> real" where
  "conicEqualArea_n p0 p1 = (sin p0 + sin p1) / 2"

definition conicEqualArea_C :: "real \<Rightarrow> real \<Rightarrow> real" where
  "conicEqualArea_C p0 p1 = 1 + sin p0 * (2 * conicEqualArea_n p0 p1 - sin p0)"

definition d3_geo_conicEqualArea :: "real \<Rightarrow> real \<Rightarrow> geo_fun" where
  "d3_geo_conicEqualArea p0 p1 =
     (let n = conicEqualArea_n p0 p1; C = conicEqualArea_C p0 p1; r0 = sqrt C / n
      in \<lparr>forward = (\<lambda>l p. if n = 0 \<or> C < 0 \<or> C - 2 * n * sin p < 0 then None else Some (conic_point r0 n (sqrt (C - 2 * n * sin p) / n) l)),
          invert = Some (\<lambda>x y. if n = 0 \<or> C < 0 then None
            else Some (js_atan2 x (r0 - y) / n, d3_asin ((C - (x * x + (r0 - y) * (r0 - y)) * n * n) / (2 * n))))\<rparr>)"

definition conformal_t :: "real \<Rightarrow> real" where
  "conformal_t p = tan (pi / 4 + p / 2)"

definition conicConformal_n :: "real \<Rightarrow> real \<Rightarrow> real" where
  "conicConformal_n p0 p1 = (if p0 = p1 then sin p0 else ln (cos p0 / cos p1) / ln (conformal_t p1 / conformal_t p0))"

text \<open>The parallels are between the poles.\<close>

definition d3_geo_conicConformal :: "real \<Rightarrow> real \<Rightarrow> geo_fun" where
  "d3_geo_conicConformal p0 p1 =
     (let n = conicConformal_n p0 p1; F = cos p0 * (conformal_t p0 powr n) / n
      in if n = 0 then d3_geo_mercator
         else \<lparr>forward = (\<lambda>l p. if \<bar>\<bar>p\<bar> - pi / 2\<bar> < 1 / 1000000 then Some (conic_point F n 0 l)
              else if conformal_t p > 0 then Some (conic_point F n (F / (conformal_t p powr n)) l) else None),
            invert = Some (\<lambda>x y. let r = d3_sgn n * sqrt (x * x + (F - y) * (F - y))
              in if r = 0 then None else Some (js_atan2 x (F - y) / n, 2 * arctan ((F / r) powr (1 / n)) - pi / 2))\<rparr>)"

definition conicEquidistant_n :: "real \<Rightarrow> real \<Rightarrow> real" where
  "conicEquidistant_n p0 p1 = (if p0 = p1 then sin p0 else (cos p0 - cos p1) / (p1 - p0))"

definition d3_geo_conicEquidistant :: "real \<Rightarrow> real \<Rightarrow> geo_fun" where
  "d3_geo_conicEquidistant p0 p1 =
     (let n = conicEquidistant_n p0 p1; G = cos p0 / n + p0
      in if \<bar>n\<bar> < 1 / 1000000 then d3_geo_equirectangular
         else \<lparr>forward = (\<lambda>l p. Some (conic_point G n (G - p) l)),
            invert = Some (\<lambda>x y. Some (js_atan2 x (G - y) / n, G - d3_sgn n * sqrt (x * x + (G - y) * (G - y))))\<rparr>)"

section \<open>Projections\<close>

text \<open>
  The settings of a projection, in radians where the code keeps radians, with the composed map and the translation that \<open>reset\<close> computes from them.
\<close>

record projection =
  pr_project :: geo_fun
  pr_k :: real
  pr_x :: real
  pr_y :: real
  pr_center :: angles
  pr_rotate :: "real \<times> real \<times> real"
  pr_projectRotate :: geo_fun
  pr_delta :: "(real \<times> real) option"

definition projection_reset :: "projection \<Rightarrow> projection" where
  "projection_reset pr =
     (let (dl, dp, dg) = pr_rotate pr
      in pr\<lparr>pr_projectRotate := d3_geo_compose (d3_geo_rotation dl dp dg) (pr_project pr),
            pr_delta := map_option (\<lambda>(u, v). (pr_x pr - u * pr_k pr, pr_y pr + v * pr_k pr)) (forward (pr_project pr) (fst (pr_center pr)) (snd (pr_center pr)))\<rparr>)"

definition d3_geo_projection :: "geo_fun \<Rightarrow> projection" where
  "d3_geo_projection project = projection_reset \<lparr>pr_project = project, pr_k = 150, pr_x = 480, pr_y = 250, pr_center = (0, 0), pr_rotate = (0, 0, 0),
     pr_projectRotate = project, pr_delta = None\<rparr>"

definition projection_mutate :: "projection \<Rightarrow> geo_fun \<Rightarrow> projection" where
  "projection_mutate pr project = projection_reset (pr\<lparr>pr_project := project\<rparr>)"

definition projection_scale :: "projection \<Rightarrow> real \<Rightarrow> projection" where
  "projection_scale pr k = projection_reset (pr\<lparr>pr_k := k\<rparr>)"

definition projection_translate :: "projection \<Rightarrow> real \<times> real \<Rightarrow> projection" where
  "projection_translate pr t = projection_reset (pr\<lparr>pr_x := fst t, pr_y := snd t\<rparr>)"

definition projection_center :: "projection \<Rightarrow> angles \<Rightarrow> projection" where
  "projection_center pr c = projection_reset (pr\<lparr>pr_center := (rem360 (fst c) * d3_radians, rem360 (snd c) * d3_radians)\<rparr>)"

definition projection_rotate :: "projection \<Rightarrow> real \<times> real \<times> real option \<Rightarrow> projection" where
  "projection_rotate pr r = (let (a, b, c) = r in projection_reset (pr\<lparr>pr_rotate :=
     (rem360 a * d3_radians, rem360 b * d3_radians, (case c of None \<Rightarrow> 0 | Some g \<Rightarrow> rem360 g * d3_radians))\<rparr>))"

definition projection_point :: "projection \<Rightarrow> angles \<Rightarrow> (real \<times> real) option" where
  "projection_point pr c = (case (forward (pr_projectRotate pr) (fst c * d3_radians) (snd c * d3_radians), pr_delta pr) of
     (Some (u, v), Some (dx, dy)) \<Rightarrow> Some (u * pr_k pr + dx, dy - v * pr_k pr) | _ \<Rightarrow> None)"

definition projection_invert :: "projection \<Rightarrow> real \<times> real \<Rightarrow> angles option" where
  "projection_invert pr q = (case (invert (pr_projectRotate pr), pr_delta pr) of
     (Some g, Some (dx, dy)) \<Rightarrow> if pr_k pr = 0 then None
        else map_option (\<lambda>(u, v). (u * d3_degrees, v * d3_degrees)) (g ((fst q - dx) / pr_k pr) ((dy - snd q) / pr_k pr))
   | _ \<Rightarrow> None)"

text \<open>The conic projections take their parallels in degrees; the Albers projection for the United States is one of them.\<close>

definition conic_parallels :: "(real \<Rightarrow> real \<Rightarrow> geo_fun) \<Rightarrow> projection \<Rightarrow> real \<times> real \<Rightarrow> projection" where
  "conic_parallels prj pr ps = projection_mutate pr (prj (fst ps * pi / 180) (snd ps * pi / 180))"

definition d3_geo_conic :: "(real \<Rightarrow> real \<Rightarrow> geo_fun) \<Rightarrow> projection" where
  "d3_geo_conic prj = d3_geo_projection (prj 0 (pi / 3))"

definition d3_geo_albers :: projection where
  "d3_geo_albers = projection_scale (conic_parallels d3_geo_conicEqualArea (projection_center (projection_rotate (d3_geo_conic d3_geo_conicEqualArea) (96, 0, None))
     (- 6 / 10, 387 / 10)) (295 / 10, 455 / 10)) 1070"

section \<open>Round trips of azimuthal projections\<close>

text \<open>
  What an azimuthal projection needs of its two functions: for an angular distance \<open>c\<close> from the centre, up to a limit, the radius that the scale gives
  is turned back into \<open>c\<close>.
\<close>

lemma centre_only:
  assumes "- pi < l" "l \<le> pi" "- (pi / 2) < p" "p < pi / 2" "cos l * cos p = 1"
  shows "l = 0 \<and> p = 0"
proof -
  have p: "0 < cos p" using assms(3,4) by (intro cos_gt_zero_pi) auto
  then have "cos l \<le> 1" "cos p \<le> 1" "0 < cos l" using assms(5) zero_less_mult_pos2 [of "cos l" "cos p"] by auto
  moreover from this p have "cos l * cos p \<le> cos l * 1" "cos l * cos p \<le> 1 * cos p" by (auto simp del: mult_1 mult_1_right intro!: mult_left_mono mult_right_mono)
  ultimately have "cos l = 1 \<and> cos p = 1" using assms(5) by linarith
  then show ?thesis using angle_unique [of l 0] angle_unique [of p 0] assms sin_cos_squared_add3 [of l] sin_cos_squared_add3 [of p] pi_gt_zero by auto
qed

locale azimuthal =
  fixes scl ang :: "real \<Rightarrow> real option" and dist_ok :: "real \<Rightarrow> bool"
  assumes range: "dist_ok c \<Longrightarrow> 0 \<le> c \<and> c < pi"
    and returns: "dist_ok c \<Longrightarrow> \<exists>k. scl (cos c) = Some k \<and> (c = 0 \<or> 0 < k) \<and> ang (k * sin c) = Some c"
begin

lemma azimuthal_inverts: "inverts_on (\<lambda>q. proper q \<and> dist_ok (arccos (cos (fst q) * cos (snd q)))) (d3_geo_azimuthal scl ang)"
proof (rule inverts_onI)
  show "invert (d3_geo_azimuthal scl ang) = Some (azimuthal_invert ang)" by (simp add: d3_geo_azimuthal_def)
  fix l p assume d: "proper (l, p) \<and> dist_ok (arccos (cos (fst (l, p)) * cos (snd (l, p))))"
  define u c where u: "u = cos l * cos p" "c = arccos u"
  have b: "- pi < l" "l \<le> pi" "- (pi / 2) < p" "p < pi / 2" "dist_ok c" using d by (auto simp: proper_def u)
  have "\<bar>u\<bar> \<le> 1" unfolding u abs_mult by (rule mult_le_one) auto
  then have c: "cos c = u" "sin c = sqrt (1 - u * u)" "0 \<le> c" "c < pi" using range [OF b(5)] by (auto simp: u sin_arccos_abs power2_eq_square abs_le_iff)
  obtain k where k: "scl u = Some k" "c = 0 \<or> 0 < k" "ang (k * sin c) = Some c" using returns [OF b(5)] c(1) by auto
  have cp: "0 < cos p" using proper_cos [of "(l, p)"] d by simp
  let ?x = "k * cos p * sin l" and ?y = "k * sin p"
  have "?x * ?x + ?y * ?y = (k * sin c) * (k * sin c)"
  proof -
    have "sin c * sin c = 1 - u * u" using \<open>\<bar>u\<bar> \<le> 1\<close> abs_square_le_1 [of u] by (simp add: c(2) power2_eq_square)
    then have "sin c * sin c = cos p * cos p * (sin l * sin l) + sin p * sin p"
      using sin_cos_squared_add3 [of l] sin_cos_squared_add3 [of p] unfolding u(1) by algebra
    then show ?thesis by algebra
  qed
  moreover have "0 \<le> k * sin c" using k(2) c(3,4) sin_ge_zero [of c] by auto
  ultimately have r: "sqrt (?x * ?x + ?y * ?y) = k * sin c" by simp
  have "azimuthal_invert ang ?x ?y = Some (l, p)"
  proof (cases "c = 0")
    case True
    then have "l = 0 \<and> p = 0" using centre_only [of l p] b(1-4) c(1) by (simp add: u)
    then show ?thesis using True k(3) by (simp add: azimuthal_invert_def js_asin_def js_atan2_def)
  next
    case False
    then have s: "0 < sin c" "0 < k" using c(3,4) k(2) by (auto intro: sin_gt_zero)
    have "js_atan2 (?x * sin c) (k * sin c * cos c) = js_atan2 (k * sin c * cos p * sin l) (k * sin c * cos p * cos l)"
      unfolding c(1) u(1) by (simp add: mult_ac)
    also have "\<dots> = l" using s cp b(1,2) by (intro atan2_polar) auto
    finally have "js_atan2 (?x * sin c) (k * sin c * cos c) = l" .
    moreover have "?y * sin c / (k * sin c) = sin p" using s by simp
    ultimately show ?thesis unfolding azimuthal_invert_def r Let_def using k(3) s b(3,4) by (simp add: js_asin_def arcsin_sin)
  qed
  then show "\<exists>x y. forward (d3_geo_azimuthal scl ang) l p = Some (x, y) \<and> azimuthal_invert ang x y = Some (l, p)"
    using k(1) by (simp add: d3_geo_azimuthal_def azimuthal_forward_def u)
qed

end


text \<open>The five azimuthal projections.\<close>

lemma double_half: "0 \<le> c \<Longrightarrow> c < pi \<Longrightarrow> 0 \<le> sin (c / 2) \<and> 0 < cos (c / 2) \<and> sin c = 2 * sin (c / 2) * cos (c / 2) \<and> 1 + cos c = 2 * (cos (c / 2))\<^sup>2"
proof (intro conjI)
  assume c: "0 \<le> c" "c < pi"
  show "0 \<le> sin (c / 2)" "0 < cos (c / 2)" using c by (intro sin_ge_zero, simp_all) (intro cos_gt_zero_pi, simp_all)
  show "sin c = 2 * sin (c / 2) * cos (c / 2)" using sin_double [of "c / 2"] by simp
  show "1 + cos c = 2 * (cos (c / 2))\<^sup>2" using cos_double_cos [of "c / 2"] by simp
qed

interpretation equal_area: azimuthal equalArea_scale equalArea_angle "\<lambda>c. 0 \<le> c \<and> c < pi"
proof
  fix c assume c: "0 \<le> c \<and> c < pi"
  note h = double_half [OF conjunct1 [OF c] conjunct2 [OF c]]
  have k: "sqrt (2 / (1 + cos c)) = 1 / cos (c / 2)" using h by (simp add: real_sqrt_divide)
  moreover have "1 / cos (c / 2) * sin c = 2 * sin (c / 2)" using h by simp
  moreover have "arcsin (sin (c / 2)) = c / 2" using c by (intro arcsin_sin) auto
  moreover have "0 < 1 + cos c" using h by simp
  ultimately show "\<exists>k. equalArea_scale (cos c) = Some k \<and> (c = 0 \<or> 0 < k) \<and> equalArea_angle (k * sin c) = Some c"
    using h by (simp add: equalArea_scale_def equalArea_angle_def js_asin_def)
qed

interpretation equidistant: azimuthal equidistant_scale Some "\<lambda>c. 0 \<le> c \<and> c < pi"
proof
  fix c assume c: "0 \<le> c \<and> c < pi"
  then have "arccos (cos c) = c" by (simp add: arccos_cos)
  moreover have "c = 0 \<or> 0 < sin c" using c by (auto intro: sin_gt_zero)
  ultimately show "\<exists>k. equidistant_scale (cos c) = Some k \<and> (c = 0 \<or> 0 < k) \<and> Some (k * sin c) = Some c"
    using c by (auto simp: equidistant_scale_def js_quot_def)
qed

interpretation gnomonic: azimuthal "js_quot 1" "\<lambda>r. Some (arctan r)" "\<lambda>c. 0 \<le> c \<and> c < pi / 2"
proof
  fix c assume c: "0 \<le> c \<and> c < pi / 2"
  then have "0 < cos c" by (intro cos_gt_zero_pi) auto
  moreover have "arctan (sin c / cos c) = c" using arctan_tan [of c] c by (simp add: tan_def)
  ultimately show "\<exists>k. js_quot 1 (cos c) = Some k \<and> (c = 0 \<or> 0 < k) \<and> Some (arctan (k * sin c)) = Some c" by (simp add: js_quot_def)
qed auto

interpretation orthographic: azimuthal "\<lambda>_. Some 1" js_asin "\<lambda>c. 0 \<le> c \<and> c \<le> pi / 2"
proof
  fix c assume c: "0 \<le> c \<and> c \<le> pi / 2"
  then have "c < pi" using pi_gt_zero by linarith
  then show "0 \<le> c \<and> c < pi" using c by simp
  show "\<exists>k. Some 1 = Some k \<and> (c = 0 \<or> 0 < k) \<and> js_asin (k * sin c) = Some c" using c by (simp add: js_asin_def arcsin_sin)
qed

interpretation stereographic: azimuthal "\<lambda>u. js_quot 1 (1 + u)" "\<lambda>r. Some (2 * arctan r)" "\<lambda>c. 0 \<le> c \<and> c < pi"
proof
  fix c assume c: "0 \<le> c \<and> c < pi"
  note h = double_half [OF conjunct1 [OF c] conjunct2 [OF c]]
  have "1 / (1 + cos c) * sin c = tan (c / 2)" using h by (simp add: tan_def power2_eq_square)
  moreover have "arctan (tan (c / 2)) = c / 2" using c by (intro arctan_tan) auto
  moreover have "0 < 1 + cos c" using h by simp
  ultimately show "\<exists>k. js_quot 1 (1 + cos c) = Some k \<and> (c = 0 \<or> 0 < k) \<and> Some (2 * arctan (k * sin c)) = Some c" by (simp add: js_quot_def)
qed


section \<open>Round trips of cylindrical and conic projections\<close>

definition band :: "angles \<Rightarrow> bool" where
  "band q = (- (pi / 2) < snd q \<and> snd q < pi / 2)"

lemma mercator_back:
  assumes "- (pi / 2) < p" "p < pi / 2"
  shows "\<exists>y. mercator_y p = Some y \<and> 2 * arctan (exp y) - pi / 2 = p"
proof -
  have "0 < tan (pi / 4 + p / 2)" using assms by (intro tan_gt_zero) auto
  moreover have "arctan (tan (pi / 4 + p / 2)) = pi / 4 + p / 2" using assms by (intro arctan_tan) auto
  ultimately show ?thesis by (simp add: mercator_y_def Let_def)
qed

lemma mercator_inverts: "inverts_on band d3_geo_mercator" "inverts_on band d3_geo_transverseMercator"
proof -
  have b: "\<exists>y. mercator_y p = Some y \<and> 2 * arctan (exp y) - pi / 2 = p" if "band (l, p)" for l p using that mercator_back by (simp add: band_def)
  show "inverts_on band d3_geo_mercator"
    by (rule inverts_onI [of _ "\<lambda>x y. Some (x, 2 * arctan (exp y) - pi / 2)"]) (use b in \<open>force simp: d3_geo_mercator_def\<close>)+
  show "inverts_on band d3_geo_transverseMercator"
    by (rule inverts_onI [of _ "\<lambda>x y. Some (- y, 2 * arctan (exp x) - pi / 2)"]) (use b in \<open>force simp: d3_geo_transverseMercator_def\<close>)+
qed

lemma conic_longitude: "0 < n \<Longrightarrow> 0 < r \<Longrightarrow> - pi < l * n \<Longrightarrow> l * n \<le> pi \<Longrightarrow> js_atan2 (r * sin (l * n)) (r * cos (l * n)) / n = l"
  by (simp add: atan2_polar)

lemma conic_radius: "r * sin a * (r * sin a) + r * cos a * (r * cos a) = r * (r :: real)"
  using sin_cos_squared_add3 [of a] by algebra

lemma atan2_negative:
  assumes "r < 0" "- pi \<le> a" "a \<le> pi"
  shows "\<bar>js_atan2 (r * sin a) (r * cos a) - a\<bar> = pi"
proof -
  define b where "b = (if 0 < a then a - pi else a + pi)"
  have b: "- pi < b" "b \<le> pi" "sin b = - sin a" "cos b = - cos a" using assms(2,3) pi_gt_zero by (auto simp: b_def simp del: pi_gt_zero)
  have "js_atan2 (r * sin a) (r * cos a) = js_atan2 ((- r) * sin b) ((- r) * cos b)" by (simp add: b)
  also have "\<dots> = b" using b assms(1) by (intro atan2_polar) auto
  finally show ?thesis using pi_gt_zero by (simp add: b_def)
qed

lemma sin_inside: "- (pi / 2) < p \<Longrightarrow> p < pi / 2 \<Longrightarrow> - 1 < sin p \<and> sin p < 1"
  using sin_mono_less_eq [of p "pi / 2"] sin_mono_less_eq [of "- (pi / 2)" p] by auto

lemma equalArea_radius:
  assumes "conicEqualArea_n p0 p1 \<noteq> 0" "- (pi / 2) < p" "p < pi / 2"
  shows "0 < conicEqualArea_C p0 p1 - 2 * conicEqualArea_n p0 p1 * sin p" "0 \<le> conicEqualArea_C p0 p1"
proof -
  define a b s where abs: "a = sin p0" "b = sin p1" "s = sin p"
  have r: "- 1 \<le> a" "a \<le> 1" "- 1 \<le> b" "b \<le> 1" "- 1 < s" "s < 1" "a + b \<noteq> 0"
    using sin_inside [OF assms(2,3)] assms(1) by (auto simp: abs conicEqualArea_n_def)
  have nn: "0 \<le> (1 - a) * (1 - b)" "0 \<le> (1 + a) * (1 + b)" using r by (auto intro: mult_nonneg_nonneg)
  have pos: "0 < (1 - a) * (1 - b) \<or> 0 < (1 + a) * (1 + b)"
  proof (rule ccontr)
    assume "\<not> ?thesis"
    then have "(1 - a) * (1 - b) = 0" "(1 + a) * (1 + b) = 0" using nn by linarith+
    then have "a + b = 0" by auto
    then show False using r(7) by blast
  qed
  have k: "0 < (1 + s) / 2" "0 < (1 - s) / 2" using r by auto
  have "0 \<le> (1 + s) / 2 * ((1 - a) * (1 - b))" "0 \<le> (1 - s) / 2 * ((1 + a) * (1 + b))" using nn k by simp_all
  moreover have "0 < (1 + s) / 2 * ((1 - a) * (1 - b)) \<or> 0 < (1 - s) / 2 * ((1 + a) * (1 + b))" using pos k by (auto intro: mult_pos_pos)
  ultimately have "0 < (1 + s) / 2 * ((1 - a) * (1 - b)) + (1 - s) / 2 * ((1 + a) * (1 + b))" by linarith
  moreover have "conicEqualArea_C p0 p1 - 2 * conicEqualArea_n p0 p1 * sin p = (1 + s) / 2 * ((1 - a) * (1 - b)) + (1 - s) / 2 * ((1 + a) * (1 + b))"
    by (simp add: conicEqualArea_C_def conicEqualArea_n_def abs field_simps)
  ultimately show "0 < conicEqualArea_C p0 p1 - 2 * conicEqualArea_n p0 p1 * sin p" by simp
  have h: "conicEqualArea_C p0 p1 = ((1 - a) * (1 - b) + (1 + a) * (1 + b)) / 2" by (simp add: conicEqualArea_C_def conicEqualArea_n_def abs field_simps)
  show "0 \<le> conicEqualArea_C p0 p1" unfolding h using nn by simp
qed

text \<open>The conic projection and back: the latitude is always right, the longitude comes from the angle of a point at the signed radius.\<close>

lemma equalArea_forward_invert:
  assumes "conicEqualArea_n p0 p1 \<noteq> 0" "- (pi / 2) < p" "p < pi / 2"
  shows "\<exists>x y g r. forward (d3_geo_conicEqualArea p0 p1) l p = Some (x, y) \<and> invert (d3_geo_conicEqualArea p0 p1) = Some g \<and> r * conicEqualArea_n p0 p1 > 0 \<and>
    g x y = Some (js_atan2 (r * sin (l * conicEqualArea_n p0 p1)) (r * cos (l * conicEqualArea_n p0 p1)) / conicEqualArea_n p0 p1, p)"
proof -
  define n C r where d: "n = conicEqualArea_n p0 p1" "C = conicEqualArea_C p0 p1" "r = sqrt (C - 2 * n * sin p) / n"
  have c: "0 < C - 2 * n * sin p" "0 \<le> C" "n \<noteq> 0" using equalArea_radius [OF assms] assms(1) by (simp_all add: d)
  have rn: "r * n = sqrt (C - 2 * n * sin p)" using c(3) by (simp add: d(3))
  then have r: "0 < r * n" "r * n * (r * n) = C - 2 * n * sin p" using c(1) by simp_all
  have sq: "r * sin (l * n) * (r * sin (l * n)) + r * cos (l * n) * (r * cos (l * n)) = r * r" by (rule conic_radius)
  have "(C - (r * r) * n * n) / (2 * n) = sin p" using r(2) c(3) by (simp add: mult_ac)
  then have lat: "d3_asin ((C - (r * sin (l * n) * (r * sin (l * n)) + r * cos (l * n) * (r * cos (l * n))) * n * n) / (2 * n)) = p"
    unfolding sq using asin_sin [of p] assms(2,3) by simp
  let ?x = "r * sin (l * n)" and ?y = "sqrt C / n - r * cos (l * n)"
  let ?g = "\<lambda>x y. if n = 0 \<or> C < 0 then None else Some (js_atan2 x (sqrt C / n - y) / n, d3_asin ((C - (x * x + (sqrt C / n - y) * (sqrt C / n - y)) * n * n) / (2 * n)))"
  have "forward (d3_geo_conicEqualArea p0 p1) l p = Some (?x, ?y)" "invert (d3_geo_conicEqualArea p0 p1) = Some ?g"
    unfolding d3_geo_conicEqualArea_def Let_def d(1,2) [symmetric] using c by (simp_all add: conic_point_def d(3))
  moreover have "sqrt C / n - ?y = r * cos (l * n)" by simp
  then have "?g ?x ?y = Some (js_atan2 (r * sin (l * n)) (r * cos (l * n)) / n, p)" using c lat by (simp only: if_False less_le_not_le de_Morgan_disj) simp
  ultimately show ?thesis unfolding d(1) [symmetric] using r(1) by blast
qed


lemma scaled_angle:
  fixes n l :: real
  assumes "\<bar>n\<bar> \<le> 1" "- pi < l" "l \<le> pi"
  shows "- pi \<le> l * n" "l * n \<le> pi" "0 < n \<Longrightarrow> - pi < l * n"
proof -
  have "\<bar>l * n\<bar> \<le> \<bar>l\<bar> * 1" unfolding abs_mult using assms(1) by (intro mult_left_mono) auto
  moreover have "\<bar>l\<bar> \<le> pi" using assms(2,3) by (simp add: abs_le_iff)
  ultimately have "\<bar>l * n\<bar> \<le> pi" by simp
  then show "- pi \<le> l * n" "l * n \<le> pi" by (simp_all add: abs_le_iff)
  show "- pi < l * n" if "0 < n"
  proof (cases "l < 0")
    case True
    have "(- l) * n \<le> - l" using True that assms(1) by (intro mult_left_le) auto
    then show ?thesis using assms(2) by simp
  next
    case False
    then have "0 \<le> l * n" using that by simp
    then show ?thesis using pi_gt_zero by linarith
  qed
qed

lemma equalArea_n_bound: "\<bar>conicEqualArea_n p0 p1\<bar> \<le> 1"
proof -
  have "\<bar>a\<bar> \<le> 1 \<Longrightarrow> \<bar>b\<bar> \<le> 1 \<Longrightarrow> \<bar>(a + b) / 2\<bar> \<le> 1" for a b :: real by simp
  then show ?thesis unfolding conicEqualArea_n_def by (metis abs_sin_le_one)
qed

lemma equalArea_inverts:
  assumes "0 < conicEqualArea_n p0 p1"
  shows "inverts_on proper (d3_geo_conicEqualArea p0 p1)"
  unfolding inverts_on_def
proof (intro allI impI)
  fix l p assume b: "proper (l, p)"
  let ?n = "conicEqualArea_n p0 p1"
  have n: "0 < ?n" using assms .
  obtain x y g r where f: "forward (d3_geo_conicEqualArea p0 p1) l p = Some (x, y)" "invert (d3_geo_conicEqualArea p0 p1) = Some g" "r * ?n > 0"
    "g x y = Some (js_atan2 (r * sin (l * ?n)) (r * cos (l * ?n)) / ?n, p)" using equalArea_forward_invert [of p0 p1 p l] n b by (auto simp: proper_def)
  have "- pi < l * ?n" "l * ?n \<le> pi" using scaled_angle [OF equalArea_n_bound] b n by (auto simp: proper_def)
  then have "js_atan2 (r * sin (l * ?n)) (r * cos (l * ?n)) / ?n = l" using f(3) n by (intro conic_longitude) (auto simp: zero_less_mult_iff)
  then show "\<exists>u v g. forward (d3_geo_conicEqualArea p0 p1) l p = Some (u, v) \<and> invert (d3_geo_conicEqualArea p0 p1) = Some g \<and> g u v = Some (l, p)" using f by auto
qed


lemma conformal_inverts:
  assumes "0 < conicConformal_n p0 p1" "- (pi / 2) < p0" "p0 < pi / 2"
  shows "inverts_on (\<lambda>q. \<bar>snd q\<bar> \<le> pi / 2 - 1 / 1000000 \<and> - pi < fst q * conicConformal_n p0 p1 \<and> fst q * conicConformal_n p0 p1 \<le> pi) (d3_geo_conicConformal p0 p1)"
  unfolding inverts_on_def
proof (intro allI impI)
  define n F where d: "n = conicConformal_n p0 p1" "F = cos p0 * (conformal_t p0 powr n) / n"
  have t0: "0 < conformal_t p" if "- (pi / 2) < p" "p < pi / 2" for p unfolding conformal_t_def using that by (intro tan_gt_zero) auto
  have n: "0 < n" "0 < F" using assms t0 [OF assms(2,3)] cos_gt_zero_pi [OF assms(2,3)] by (simp_all add: d)
  fix l p assume "\<bar>snd (l, p)\<bar> \<le> pi / 2 - 1 / 1000000 \<and> - pi < fst (l, p) * conicConformal_n p0 p1 \<and> fst (l, p) * conicConformal_n p0 p1 \<le> pi"
  then have b: "\<bar>p\<bar> \<le> pi / 2 - 1 / 1000000" "- pi < l * n" "l * n \<le> pi" by (simp_all add: d)
  have p: "- (pi / 2) < p" "p < pi / 2" "\<not> \<bar>\<bar>p\<bar> - pi / 2\<bar> < 1 / 1000000" using b(1) by linarith+
  define r where "r = F / (conformal_t p powr n)"
  have r: "0 < r" using n t0 [OF p(1,2)] by (simp add: r_def)
  have sq: "sqrt (r * sin (l * n) * (r * sin (l * n)) + r * cos (l * n) * (r * cos (l * n))) = r" unfolding conic_radius using r by simp
  have "(F / r) powr (1 / n) = conformal_t p" using n t0 [OF p(1,2)] by (simp add: r_def powr_powr)
  moreover have "arctan (conformal_t p) = pi / 4 + p / 2" unfolding conformal_t_def using p by (intro arctan_tan) auto
  ultimately have lat: "2 * arctan ((F / r) powr (1 / n)) - pi / 2 = p" by simp
  let ?x = "r * sin (l * n)" and ?y = "F - r * cos (l * n)"
  let ?g = "\<lambda>x y. let r = d3_sgn n * sqrt (x * x + (F - y) * (F - y)) in if r = 0 then None else Some (js_atan2 x (F - y) / n, 2 * arctan ((F / r) powr (1 / n)) - pi / 2)"
  have "forward (d3_geo_conicConformal p0 p1) l p = Some (?x, ?y)" "invert (d3_geo_conicConformal p0 p1) = Some ?g"
    unfolding d3_geo_conicConformal_def Let_def d(1) [symmetric] unfolding d(2) [symmetric] using n(1) p t0 [OF p(1,2)] by (simp_all add: conic_point_def r_def)
  moreover have "?g ?x ?y = Some (l, p)"
    using conic_longitude [OF n(1) r b(2,3)] lat sq r n by (simp add: d3_sgn_def)
  ultimately show "\<exists>u v g. forward (d3_geo_conicConformal p0 p1) l p = Some (u, v) \<and> invert (d3_geo_conicConformal p0 p1) = Some g \<and> g u v = Some (l, p)" by blast
qed

lemma conicEquidistant_inverts:
  assumes "1 / 1000000 \<le> conicEquidistant_n p0 p1"
  shows "inverts_on (\<lambda>q. snd q < cos p0 / conicEquidistant_n p0 p1 + p0 \<and> - pi < fst q * conicEquidistant_n p0 p1 \<and> fst q * conicEquidistant_n p0 p1 \<le> pi) (d3_geo_conicEquidistant p0 p1)"
  unfolding inverts_on_def
proof (intro allI impI)
  define n G where d: "n = conicEquidistant_n p0 p1" "G = cos p0 / n + p0"
  have n: "0 < n" "\<not> \<bar>n\<bar> < 1 / 1000000" using assms by (simp_all add: d)
  fix l p assume "snd (l, p) < cos p0 / conicEquidistant_n p0 p1 + p0 \<and> - pi < fst (l, p) * conicEquidistant_n p0 p1 \<and> fst (l, p) * conicEquidistant_n p0 p1 \<le> pi"
  then have b: "0 < G - p" "- pi < l * n" "l * n \<le> pi" by (simp_all add: d)
  let ?x = "(G - p) * sin (l * n)" and ?y = "G - (G - p) * cos (l * n)"
  let ?g = "\<lambda>x y. Some (js_atan2 x (G - y) / n, G - d3_sgn n * sqrt (x * x + (G - y) * (G - y)))"
  have "forward (d3_geo_conicEquidistant p0 p1) l p = Some (?x, ?y)" "invert (d3_geo_conicEquidistant p0 p1) = Some ?g"
    unfolding d3_geo_conicEquidistant_def Let_def d(1) [symmetric] unfolding d(2) [symmetric] using n(2) by (simp_all add: conic_point_def)
  moreover have "?g ?x ?y = Some (l, p)"
    using conic_longitude [OF n(1) b] conic_radius [of "G - p" "l * n"] b(1) n(1) by (simp add: d3_sgn_def)
  ultimately show "\<exists>u v g. forward (d3_geo_conicEquidistant p0 p1) l p = Some (u, v) \<and> invert (d3_geo_conicEquidistant p0 p1) = Some g \<and> g u v = Some (l, p)" by blast
qed

text \<open>
  Southern cones.  Where the cone of the equal-area projection opens to the north, the inverse gives every point the wrong longitude, off by half a turn of the cone, because the angle
  is taken from a point at a negative radius; the latitude is right.
\<close>

lemma conic_south:
  assumes "conicEqualArea_n p0 p1 < 0" "proper (l, p)"
  shows "\<exists>x y g l'. forward (d3_geo_conicEqualArea p0 p1) l p = Some (x, y) \<and> invert (d3_geo_conicEqualArea p0 p1) = Some g \<and>
    g x y = Some (l', p) \<and> \<bar>l' - l\<bar> = pi / \<bar>conicEqualArea_n p0 p1\<bar>"
proof -
  let ?n = "conicEqualArea_n p0 p1"
  obtain x y g r where f: "forward (d3_geo_conicEqualArea p0 p1) l p = Some (x, y)" "invert (d3_geo_conicEqualArea p0 p1) = Some g" "r * ?n > 0"
    "g x y = Some (js_atan2 (r * sin (l * ?n)) (r * cos (l * ?n)) / ?n, p)" using equalArea_forward_invert [of p0 p1 p l] assms by (auto simp: proper_def)
  have "r < 0" using f(3) assms(1) by (auto simp: zero_less_mult_iff)
  then have "\<bar>js_atan2 (r * sin (l * ?n)) (r * cos (l * ?n)) - l * ?n\<bar> = pi"
    using scaled_angle [OF equalArea_n_bound] assms(2) by (intro atan2_negative) (auto simp: proper_def)
  moreover have "js_atan2 (r * sin (l * ?n)) (r * cos (l * ?n)) / ?n - l = (js_atan2 (r * sin (l * ?n)) (r * cos (l * ?n)) - l * ?n) / ?n"
    using assms(1) by (simp add: diff_divide_distrib)
  ultimately have "\<bar>js_atan2 (r * sin (l * ?n)) (r * cos (l * ?n)) / ?n - l\<bar> = pi / \<bar>?n\<bar>" by simp
  then show ?thesis using f by blast
qed

lemma library_inverts:
  "inverts_on (\<lambda>q. proper q \<and> cos (fst q) * cos (snd q) > - 1) d3_geo_azimuthalEqualArea \<and>
   inverts_on (\<lambda>q. proper q \<and> cos (fst q) * cos (snd q) > - 1) d3_geo_azimuthalEquidistant \<and>
   inverts_on (\<lambda>q. proper q \<and> cos (fst q) * cos (snd q) > - 1) d3_geo_stereographic \<and>
   inverts_on (\<lambda>q. proper q \<and> cos (fst q) * cos (snd q) > 0) d3_geo_gnomonic \<and>
   inverts_on (\<lambda>q. proper q \<and> cos (fst q) * cos (snd q) \<ge> 0) d3_geo_orthographic \<and>
   inverts_on band d3_geo_mercator \<and> inverts_on band d3_geo_transverseMercator \<and>
   (\<forall>p0 p1. conicEqualArea_n p0 p1 > 0 \<longrightarrow> inverts_on proper (d3_geo_conicEqualArea p0 p1)) \<and>
   (\<forall>p0 p1. 1 / 1000000 \<le> conicEquidistant_n p0 p1 \<longrightarrow> inverts_on (\<lambda>q. snd q < cos p0 / conicEquidistant_n p0 p1 + p0 \<and>
      - pi < fst q * conicEquidistant_n p0 p1 \<and> fst q * conicEquidistant_n p0 p1 \<le> pi) (d3_geo_conicEquidistant p0 p1)) \<and>
   (\<forall>p0 p1. conicConformal_n p0 p1 > 0 \<and> - (pi / 2) < p0 \<and> p0 < pi / 2 \<longrightarrow> inverts_on (\<lambda>q. \<bar>snd q\<bar> \<le> pi / 2 - 1 / 1000000 \<and>
      - pi < fst q * conicConformal_n p0 p1 \<and> fst q * conicConformal_n p0 p1 \<le> pi) (d3_geo_conicConformal p0 p1))"
proof -
  have c: "\<bar>cos l * cos p\<bar> \<le> 1" for l p :: real unfolding abs_mult by (rule mult_le_one) auto
  have far: "0 \<le> arccos (cos l * cos p) \<and> arccos (cos l * cos p) < pi" if "cos l * cos p > - 1" for l p :: real
    using arccos_bounded [of "cos l * cos p"] arccos_less_mono [of "cos l * cos p" "- 1"] c [of l p] that by (auto simp: abs_le_iff)
  have near: "0 \<le> arccos (cos l * cos p) \<and> arccos (cos l * cos p) < pi / 2" if "cos l * cos p > 0" for l p :: real
    using arccos_bounded [of "cos l * cos p"] arccos_less_mono [of "cos l * cos p" 0] c [of l p] that by (auto simp: abs_le_iff)
  have half: "0 \<le> arccos (cos l * cos p) \<and> arccos (cos l * cos p) \<le> pi / 2" if "cos l * cos p \<ge> 0" for l p :: real
    using arccos_bounded [of "cos l * cos p"] arccos_le_mono [of "cos l * cos p" 0] c [of l p] that by (auto simp: abs_le_iff)
  show ?thesis
    unfolding d3_geo_azimuthalEqualArea_def d3_geo_azimuthalEquidistant_def d3_geo_stereographic_def d3_geo_gnomonic_def d3_geo_orthographic_def
    using far near half mercator_inverts equalArea_inverts conicEquidistant_inverts conformal_inverts
    by (intro conjI allI impI inverts_on_mono [OF equal_area.azimuthal_inverts] inverts_on_mono [OF equidistant.azimuthal_inverts]
        inverts_on_mono [OF stereographic.azimuthal_inverts] inverts_on_mono [OF gnomonic.azimuthal_inverts] inverts_on_mono [OF orthographic.azimuthal_inverts]) auto
qed

text \<open>
  (C20) Raw projections.  The azimuthal ones are undone by their inverses up to the angular distance from the centre where they are defined, the cylindrical ones
  between the poles, and the conic ones for parallels with a positive cone constant, on the band of longitudes and latitudes that the cone covers.  For a negative
  cone constant the inverse of the equal-area cone gives the right latitude, and a longitude that is off by half a turn of the cone.
\<close>

theorem raw_projections_invert:
  "inverts_on (\<lambda>q. proper q \<and> cos (fst q) * cos (snd q) > - 1) d3_geo_azimuthalEqualArea \<and>
   inverts_on (\<lambda>q. proper q \<and> cos (fst q) * cos (snd q) > - 1) d3_geo_azimuthalEquidistant \<and>
   inverts_on (\<lambda>q. proper q \<and> cos (fst q) * cos (snd q) > - 1) d3_geo_stereographic \<and>
   inverts_on (\<lambda>q. proper q \<and> cos (fst q) * cos (snd q) > 0) d3_geo_gnomonic \<and>
   inverts_on (\<lambda>q. proper q \<and> cos (fst q) * cos (snd q) \<ge> 0) d3_geo_orthographic \<and>
   inverts_on band d3_geo_mercator \<and> inverts_on band d3_geo_transverseMercator \<and>
   (\<forall>p0 p1. conicEqualArea_n p0 p1 > 0 \<longrightarrow> inverts_on proper (d3_geo_conicEqualArea p0 p1)) \<and>
   (\<forall>p0 p1. 1 / 1000000 \<le> conicEquidistant_n p0 p1 \<longrightarrow> inverts_on (\<lambda>q. snd q < cos p0 / conicEquidistant_n p0 p1 + p0 \<and>
      - pi < fst q * conicEquidistant_n p0 p1 \<and> fst q * conicEquidistant_n p0 p1 \<le> pi) (d3_geo_conicEquidistant p0 p1)) \<and>
   (\<forall>p0 p1. conicConformal_n p0 p1 > 0 \<and> - (pi / 2) < p0 \<and> p0 < pi / 2 \<longrightarrow> inverts_on (\<lambda>q. \<bar>snd q\<bar> \<le> pi / 2 - 1 / 1000000 \<and>
      - pi < fst q * conicConformal_n p0 p1 \<and> fst q * conicConformal_n p0 p1 \<le> pi) (d3_geo_conicConformal p0 p1)) \<and>
   (\<forall>p0 p1 l p. conicEqualArea_n p0 p1 < 0 \<and> proper (l, p) \<longrightarrow>
      (\<exists>x y g l'. forward (d3_geo_conicEqualArea p0 p1) l p = Some (x, y) \<and> invert (d3_geo_conicEqualArea p0 p1) = Some g \<and>
        g x y = Some (l', p) \<and> \<bar>l' - l\<bar> = pi / \<bar>conicEqualArea_n p0 p1\<bar>))"
proof -
  have south: "\<forall>p0 p1 l p. conicEqualArea_n p0 p1 < 0 \<and> proper (l, p) \<longrightarrow>
      (\<exists>x y g l'. forward (d3_geo_conicEqualArea p0 p1) l p = Some (x, y) \<and> invert (d3_geo_conicEqualArea p0 p1) = Some g \<and>
        g x y = Some (l', p) \<and> \<bar>l' - l\<bar> = pi / \<bar>conicEqualArea_n p0 p1\<bar>)"
    by (intro allI impI, elim conjE) (rule conic_south)
  from conjI [OF library_inverts this] show ?thesis unfolding conj_assoc .
qed

theorem raw_projections_invert_witness:
  "(\<exists>u v g. forward d3_geo_stereographic (pi / 3) (pi / 6) = Some (u, v) \<and> invert d3_geo_stereographic = Some g \<and> g u v = Some (pi / 3, pi / 6)) \<and>
   (\<exists>u v g. forward (d3_geo_conicEqualArea (pi / 6) (pi / 2)) (pi / 3) (pi / 6) = Some (u, v) \<and> invert (d3_geo_conicEqualArea (pi / 6) (pi / 2)) = Some g \<and>
     g u v = Some (pi / 3, pi / 6))"
proof -
  have "proper (pi / 3, pi / 6)" using pi_gt_zero unfolding proper_def fst_conv snd_conv by linarith
  moreover have "0 \<le> cos (pi / 3) * cos (pi / 6)" by (simp add: cos_60 cos_30)
  then have "- 1 < cos (pi / 3) * cos (pi / 6)" by linarith
  moreover have "0 < conicEqualArea_n (pi / 6) (pi / 2)" by (simp add: conicEqualArea_n_def sin_30)
  ultimately show ?thesis using raw_projections_invert unfolding inverts_on_def by auto
qed

text \<open>The longitude of every point on a southern cone is wrong.\<close>

theorem conic_south_fails:
  assumes "conicEqualArea_n p0 p1 < 0" "proper (l, p)"
  shows "\<exists>x y g l'. forward (d3_geo_conicEqualArea p0 p1) l p = Some (x, y) \<and> invert (d3_geo_conicEqualArea p0 p1) = Some g \<and>
    g x y = Some (l', p) \<and> \<bar>l' - l\<bar> = pi / \<bar>conicEqualArea_n p0 p1\<bar>"
  using assms by (rule conic_south)

theorem conic_south_fails_witness:
  "\<exists>x y g l'. forward (d3_geo_conicEqualArea (- pi / 6) (- pi / 6)) 0 0 = Some (x, y) \<and> invert (d3_geo_conicEqualArea (- pi / 6) (- pi / 6)) = Some g \<and>
    g x y = Some (l', 0) \<and> \<bar>l' - 0\<bar> = pi * 2"
proof -
  have n: "conicEqualArea_n (- pi / 6) (- pi / 6) = - (1 / 2)" by (simp add: conicEqualArea_n_def sin_30)
  have "proper (0, 0)" using pi_gt_zero unfolding proper_def fst_conv snd_conv by linarith
  then show ?thesis using conic_south_fails [of "- pi / 6" "- pi / 6" 0 0] unfolding n by simp
qed

section \<open>Projections and their settings\<close>

text \<open>What \<open>reset\<close> establishes, and every setting keeps.\<close>

definition projection_ok :: "projection \<Rightarrow> bool" where
  "projection_ok pr = (\<bar>fst (pr_rotate pr)\<bar> \<le> 2 * pi \<and>
     pr_projectRotate pr = d3_geo_compose (case pr_rotate pr of (dl, dp, dg) \<Rightarrow> d3_geo_rotation dl dp dg) (pr_project pr) \<and>
     pr_delta pr = map_option (\<lambda>(u, v). (pr_x pr - u * pr_k pr, pr_y pr + v * pr_k pr)) (forward (pr_project pr) (fst (pr_center pr)) (snd (pr_center pr))))"

lemma projection_settings_ok:
  "projection_ok (d3_geo_projection f)" "projection_ok pr \<Longrightarrow> projection_ok (projection_mutate pr f)" "projection_ok pr \<Longrightarrow> projection_ok (projection_scale pr k)"
  "projection_ok pr \<Longrightarrow> projection_ok (projection_translate pr t)" "projection_ok pr \<Longrightarrow> projection_ok (projection_center pr c)" "projection_ok (projection_rotate pr r)"
  using rem360_radians
  by (auto simp: projection_ok_def projection_reset_def d3_geo_projection_def projection_mutate_def projection_scale_def projection_translate_def projection_center_def
      projection_rotate_def Let_def case_prod_unfold)

lemma projection_composed:
  assumes "projection_ok pr" "pr_k pr \<noteq> 0" "pr_delta pr \<noteq> None" "inverts_on D (pr_project pr)" "inner (radians c)"
    and "\<And>q. forward (case pr_rotate pr of (dl, dp, dg) \<Rightarrow> d3_geo_rotation dl dp dg) (fst (radians c)) (snd (radians c)) = Some q \<Longrightarrow> D q"
  shows "\<exists>q. projection_point pr c = Some q \<and> projection_invert pr q = Some c"
proof -
  obtain dl dp dg where r: "pr_rotate pr = (dl, dp, dg)" by (metis prod_cases3)
  obtain l p where c: "radians c = (l, p)" by (metis prod.exhaust)
  have "\<bar>dl\<bar> \<le> 2 * pi" using assms(1) by (simp add: projection_ok_def r)
  from rotation_inverts [OF this] obtain u v g where rot: "forward (d3_geo_rotation dl dp dg) l p = Some (u, v)" "invert (d3_geo_rotation dl dp dg) = Some g" "g u v = Some (l, p)"
    using assms(5) unfolding inverts_on_def c by blast
  have "D (u, v)" using assms(6) rot(1) by (simp add: r c)
  then obtain x y h where prj: "forward (pr_project pr) u v = Some (x, y)" "invert (pr_project pr) = Some h" "h x y = Some (u, v)"
    using assms(4) unfolding inverts_on_def by blast
  obtain dx dy where d: "pr_delta pr = Some (dx, dy)" using assms(3) by auto
  have pr: "pr_projectRotate pr = d3_geo_compose (d3_geo_rotation dl dp dg) (pr_project pr)" using assms(1) by (simp add: projection_ok_def r)
  have "projection_point pr c = Some (x * pr_k pr + dx, dy - y * pr_k pr)"
    using rot prj d c by (simp add: projection_point_def pr d3_geo_compose_def then_map_def radians_def)
  moreover have "projection_invert pr (x * pr_k pr + dx, dy - y * pr_k pr) = Some (l * d3_degrees, p * d3_degrees)"
    using rot prj d assms(2) by (simp add: projection_invert_def pr d3_geo_compose_def then_map_def)
  moreover have "(l * d3_degrees, p * d3_degrees) = c" using c by (auto simp: radians_def prod_eq_iff)
  ultimately show ?thesis by simp
qed



text \<open>The raw projections of the library, the maps they stand for, and where these are undone by their inverses.\<close>

datatype raw = AzimuthalEqualArea | AzimuthalEquidistant | Stereographic | Gnomonic | Orthographic | Mercator | TransverseMercator
  | ConicEqualArea real real | ConicEquidistant real real | ConicConformal real real

fun raw_fun :: "raw \<Rightarrow> geo_fun" where
  "raw_fun AzimuthalEqualArea = d3_geo_azimuthalEqualArea"
| "raw_fun AzimuthalEquidistant = d3_geo_azimuthalEquidistant"
| "raw_fun Stereographic = d3_geo_stereographic"
| "raw_fun Gnomonic = d3_geo_gnomonic"
| "raw_fun Orthographic = d3_geo_orthographic"
| "raw_fun Mercator = d3_geo_mercator"
| "raw_fun TransverseMercator = d3_geo_transverseMercator"
| "raw_fun (ConicEqualArea p0 p1) = d3_geo_conicEqualArea p0 p1"
| "raw_fun (ConicEquidistant p0 p1) = d3_geo_conicEquidistant p0 p1"
| "raw_fun (ConicConformal p0 p1) = d3_geo_conicConformal p0 p1"

fun raw_domain :: "raw \<Rightarrow> angles \<Rightarrow> bool" where
  "raw_domain Gnomonic q \<longleftrightarrow> proper q \<and> cos (fst q) * cos (snd q) > 0"
| "raw_domain Orthographic q \<longleftrightarrow> proper q \<and> cos (fst q) * cos (snd q) \<ge> 0"
| "raw_domain Mercator q \<longleftrightarrow> band q"
| "raw_domain TransverseMercator q \<longleftrightarrow> band q"
| "raw_domain (ConicEqualArea p0 p1) q \<longleftrightarrow> conicEqualArea_n p0 p1 > 0 \<and> proper q"
| "raw_domain (ConicEquidistant p0 p1) q \<longleftrightarrow> (let n = conicEquidistant_n p0 p1 in
     1 / 1000000 \<le> n \<and> snd q < cos p0 / n + p0 \<and> - pi < fst q * n \<and> fst q * n \<le> pi)"
| "raw_domain (ConicConformal p0 p1) q \<longleftrightarrow> (let n = conicConformal_n p0 p1 in
     n > 0 \<and> - (pi / 2) < p0 \<and> p0 < pi / 2 \<and> \<bar>snd q\<bar> \<le> pi / 2 - 1 / 1000000 \<and> - pi < fst q * n \<and> fst q * n \<le> pi)"
| "raw_domain _ q \<longleftrightarrow> proper q \<and> cos (fst q) * cos (snd q) > - 1"

lemma raw_inverts: "inverts_on (raw_domain r) (raw_fun r)"
proof -
  note L = library_inverts
  show ?thesis
  proof (cases r)
    case (ConicEqualArea p0 p1)
    then show ?thesis using L by (cases "conicEqualArea_n p0 p1 > 0") (auto simp: inverts_on_def)
  next
    case (ConicEquidistant p0 p1)
    then show ?thesis using L by (cases "1 / 1000000 \<le> conicEquidistant_n p0 p1") (auto simp: inverts_on_def Let_def)
  next
    case (ConicConformal p0 p1)
    then show ?thesis using L by (cases "conicConformal_n p0 p1 > 0 \<and> - (pi / 2) < p0 \<and> p0 < pi / 2") (auto simp: inverts_on_def Let_def)
  qed (use L in \<open>simp_all add: inverts_on_def\<close>)
qed

text \<open>The settings that the point and its inverse depend on; a conic projection is mutated when its parallels are set.\<close>

datatype setting = Scale real | Translate "real \<times> real" | Center angles | Rotate "real \<times> real \<times> real option" | Mutate raw

fun apply_setting :: "setting \<Rightarrow> projection \<Rightarrow> projection" where
  "apply_setting (Scale k) pr = projection_scale pr k"
| "apply_setting (Translate t) pr = projection_translate pr t"
| "apply_setting (Center c) pr = projection_center pr c"
| "apply_setting (Rotate r) pr = projection_rotate pr r"
| "apply_setting (Mutate r) pr = projection_mutate pr (raw_fun r)"

lemma settings_ok: "projection_ok pr \<Longrightarrow> projection_ok (fold apply_setting ss pr)"
proof (induction ss arbitrary: pr)
  case (Cons s ss)
  then show ?case by (cases s) (simp_all add: projection_settings_ok)
qed simp

text \<open>
  (C21) Projections.  Start with a raw projection of the library and apply any sequence of settings of scale, translation, centre, rotation and raw projection, such that the
  scale is not zero and the raw projection maps the centre in the end.  Then inverting the projection of a point gives the point again, if the point is no pole and not on the antimeridian, and
  rotating it leads to where the raw projection is undone by its inverse: as far from the centre as the azimuthal ones are defined, between the poles for the cylindrical ones, and
  for the conic ones only with a positive cone constant and on the band that the cone covers.
\<close>

theorem projection_roundtrip:
  assumes "pr = fold apply_setting ss (d3_geo_projection (raw_fun r0))" "pr_project pr = raw_fun r" "pr_k pr \<noteq> 0" "pr_delta pr \<noteq> None" "inner (radians c)"
    and "\<And>q. forward (case pr_rotate pr of (dl, dp, dg) \<Rightarrow> d3_geo_rotation dl dp dg) (fst (radians c)) (snd (radians c)) = Some q \<Longrightarrow> raw_domain r q"
  shows "\<exists>q. projection_point pr c = Some q \<and> projection_invert pr q = Some c"
proof (rule projection_composed [OF _ assms(3,4) _ assms(5,6)])
  show "projection_ok pr" unfolding assms(1) by (rule settings_ok [OF projection_settings_ok(1)])
  show "inverts_on (raw_domain r) (pr_project pr)" unfolding assms(2) by (rule raw_inverts)
qed

definition tilted_mercator :: projection where
  "tilted_mercator = fold apply_setting [Rotate (10, 0, None), Scale 200] (d3_geo_projection (raw_fun Mercator))"

theorem projection_roundtrip_witness:
  "\<exists>q. projection_point tilted_mercator (20, 30) = Some q \<and> projection_invert tilted_mercator q = Some (20, 30)"
proof (rule projection_roundtrip [where r = Mercator, OF tilted_mercator_def])
  show "pr_k tilted_mercator \<noteq> 0" "pr_delta tilted_mercator \<noteq> None" "pr_project tilted_mercator = raw_fun Mercator"
    by (simp_all add: tilted_mercator_def projection_scale_def projection_rotate_def projection_reset_def d3_geo_projection_def Let_def
        d3_geo_mercator_def mercator_y_def tan_45)
  show "inner (radians (20, 30))" using pi_gt_zero unfolding inner_def proper_def radians_def d3_radians_def fst_conv snd_conv by linarith
  have r: "pr_rotate tilted_mercator = (rem360 10 * d3_radians, 0, 0)"
    by (simp add: tilted_mercator_def projection_scale_def projection_rotate_def projection_reset_def Let_def rem360_def)
  show "raw_domain Mercator q" if "forward (case pr_rotate tilted_mercator of (dl, dp, dg) \<Rightarrow> d3_geo_rotation dl dp dg) (fst (radians (20, 30))) (snd (radians (20, 30))) = Some q" for q
    using that pi_gt_zero by (auto simp: r d3_geo_rotation_def d3_geo_rotation_lambda_def d3_geo_forwardRotation_lambda_def d3_geo_identityRotation_def band_def
        radians_def d3_radians_def split: if_splits)
qed

end
