(* ===== verification/D3_Zoom.thy ===== *)
theory D3_Zoom
  imports D3_Sphere
begin

text \<open>
  Zooming (\<open>d3.js\<close> lines 1203 to 1471): the smooth interpolation between two views and the zoom behaviour, with the mouse, the wheel,
  double clicks and touches as inputs of a state machine.  A location is a point of the zoomed plane, a point one of the
  element.  The positions of pointers, time and the wheel delta are inputs; registering listeners, interrupting transitions and preventing defaults are left to the document.
\<close>

section \<open>Interpolation\<close>

type_synonym zview = "real \<times> real \<times> real"

text \<open>
  Between views of one centre the quotients of the code are infinite or no numbers, and with them \<open>dr\<close> is no number and counts as false.
\<close>

definition zoom_b0 :: "real \<Rightarrow> real \<Rightarrow> real \<Rightarrow> real" where
  "zoom_b0 w0 w1 d1 = (w1 * w1 - w0 * w0 + 4 * (d1 * d1)) / (2 * w0 * 2 * d1)"

definition zoom_b1 :: "real \<Rightarrow> real \<Rightarrow> real \<Rightarrow> real" where
  "zoom_b1 w0 w1 d1 = (w1 * w1 - w0 * w0 - 4 * (d1 * d1)) / (2 * w1 * 2 * d1)"

definition zoom_r :: "real \<Rightarrow> real" where
  "zoom_r b = ln (sqrt (b * b + 1) - b)"

definition zoom_dr :: "zview \<Rightarrow> zview \<Rightarrow> real" where
  "zoom_dr p0 p1 = (let (x0, y0, w0) = p0; (x1, y1, w1) = p1; d1 = sqrt ((x1 - x0) * (x1 - x0) + (y1 - y0) * (y1 - y0))
     in if d1 = 0 then 0 else zoom_r (zoom_b1 w0 w1 d1) - zoom_r (zoom_b0 w0 w1 d1))"

definition zoom_S :: "zview \<Rightarrow> zview \<Rightarrow> real" where
  "zoom_S p0 p1 = (let dr = zoom_dr p0 p1 in (if dr \<noteq> 0 then dr else ln (snd (snd p1) / snd (snd p0))) / sqrt 2)"

definition d3_interpolateZoom :: "zview \<Rightarrow> zview \<Rightarrow> real \<Rightarrow> zview" where
  "d3_interpolateZoom p0 p1 t =
     (let (x0, y0, w0) = p0; (x1, y1, w1) = p1; dx = x1 - x0; dy = y1 - y0; d1 = sqrt (dx * dx + dy * dy); s = t * zoom_S p0 p1
      in if zoom_dr p0 p1 \<noteq> 0 then
           let r0 = zoom_r (zoom_b0 w0 w1 d1); u = w0 / (2 * d1) * (d3_cosh r0 * d3_tanh (sqrt 2 * s + r0) - d3_sinh r0)
           in (x0 + u * dx, y0 + u * dy, w0 * d3_cosh r0 / d3_cosh (sqrt 2 * s + r0))
         else (x0 + t * dx, y0 + t * dy, w0 * exp (sqrt 2 * s)))"

section \<open>The zoom behaviour\<close>

type_synonym xy = "real \<times> real"

datatype zevent = ZoomStart | ZoomTo real xy | ZoomEnd

record touching =
  t_locations :: "nat \<rightharpoonup> xy option"
  t_distance0 :: real
  t_scale0 :: real

text \<open>
  A scale of \<open>zoom.x\<close> is its inverse and its range at the time it was set, together with the domain that \<open>rescale\<close> gives it.
\<close>

record zoom =
  z_x :: real
  z_y :: real
  z_k :: real
  z_extent :: "real \<times> real option"
  z_center :: "xy option"
  z_size :: xy
  z_translate0 :: "xy option"
  z_wheel :: bool
  z_drag :: "xy option"
  z_touch :: "touching option"
  z_touchtime :: "real option"
  z_xscale :: "((real \<Rightarrow> real) \<times> real list) option"
  z_xdomain :: "real list"
  z_yscale :: "((real \<Rightarrow> real) \<times> real list) option"
  z_ydomain :: "real list"
  z_events :: "zevent list"

definition d3_behavior_zoom :: zoom where
  "d3_behavior_zoom = \<lparr>z_x = 0, z_y = 0, z_k = 1, z_extent = (0, None), z_center = None, z_size = (960, 500), z_translate0 = None, z_wheel = False, z_drag = None, z_touch = None,
     z_touchtime = None, z_xscale = None, z_xdomain = [], z_yscale = None, z_ydomain = [], z_events = []\<rparr>"

definition location :: "zoom \<Rightarrow> xy \<Rightarrow> xy" where
  "location z p = ((fst p - z_x z) / z_k z, (snd p - z_y z) / z_k z)"

definition zoom_point :: "zoom \<Rightarrow> xy \<Rightarrow> xy" where
  "zoom_point z l = (fst l * z_k z + z_x z, snd l * z_k z + z_y z)"

definition scaleTo :: "real \<Rightarrow> zoom \<Rightarrow> zoom" where
  "scaleTo s z = z\<lparr>z_k := max (fst (z_extent z)) (case snd (z_extent z) of None \<Rightarrow> s | Some hi \<Rightarrow> min hi s)\<rparr>"

definition translateTo :: "xy \<Rightarrow> xy \<Rightarrow> zoom \<Rightarrow> zoom" where
  "translateTo p l z = z\<lparr>z_x := z_x z + (fst p - fst (zoom_point z l)), z_y := z_y z + (snd p - snd (zoom_point z l))\<rparr>"

definition rescaled :: "((real \<Rightarrow> real) \<times> real list) option \<Rightarrow> real list \<Rightarrow> real \<Rightarrow> real \<Rightarrow> real list" where
  "rescaled s old v k = (case s of None \<Rightarrow> old | Some (ivt, rng) \<Rightarrow> map (\<lambda>x. ivt ((x - v) / k)) rng)"

definition zoom_rescale :: "zoom \<Rightarrow> zoom" where
  "zoom_rescale z = z\<lparr>z_xdomain := rescaled (z_xscale z) (z_xdomain z) (z_x z) (z_k z), z_ydomain := rescaled (z_yscale z) (z_ydomain z) (z_y z) (z_k z)\<rparr>"

definition report :: "zevent \<Rightarrow> zoom \<Rightarrow> zoom" where
  "report e z = z\<lparr>z_events := z_events z @ [e]\<rparr>"

definition zoomstarted :: "zoom \<Rightarrow> zoom" where
  "zoomstarted z = report ZoomStart z"

definition zoomed :: "zoom \<Rightarrow> zoom" where
  "zoomed z = (let z' = zoom_rescale z in report (ZoomTo (z_k z') (z_x z', z_y z')) z')"

definition zoomended :: "zoom \<Rightarrow> zoom" where
  "zoomended z = report ZoomEnd z"

subsection \<open>Settings\<close>

definition zoom_translate :: "xy \<Rightarrow> zoom \<Rightarrow> zoom" where
  "zoom_translate p z = zoom_rescale (z\<lparr>z_x := fst p, z_y := snd p\<rparr>)"

definition zoom_scale :: "real \<Rightarrow> zoom \<Rightarrow> zoom" where
  "zoom_scale k z = zoom_rescale (z\<lparr>z_k := k\<rparr>)"

definition zoom_scaleExtent :: "(real \<times> real) option \<Rightarrow> zoom \<Rightarrow> zoom" where
  "zoom_scaleExtent e z = z\<lparr>z_extent := (case e of None \<Rightarrow> (0, None) | Some (lo, hi) \<Rightarrow> (lo, Some hi))\<rparr>"

definition zoom_center :: "xy option \<Rightarrow> zoom \<Rightarrow> zoom" where
  "zoom_center c z = z\<lparr>z_center := c\<rparr>"

definition zoom_xscale :: "(real \<Rightarrow> real) \<Rightarrow> real list \<Rightarrow> real list \<Rightarrow> zoom \<Rightarrow> zoom" where
  "zoom_xscale ivt rng dmn z = z\<lparr>z_xscale := Some (ivt, rng), z_xdomain := dmn, z_x := 0, z_y := 0, z_k := 1\<rparr>"

definition zoom_yscale :: "(real \<Rightarrow> real) \<Rightarrow> real list \<Rightarrow> real list \<Rightarrow> zoom \<Rightarrow> zoom" where
  "zoom_yscale ivt rng dmn z = z\<lparr>z_yscale := Some (ivt, rng), z_ydomain := dmn, z_x := 0, z_y := 0, z_k := 1\<rparr>"

definition zoom_size :: "xy \<Rightarrow> zoom \<Rightarrow> zoom" where
  "zoom_size s z = z\<lparr>z_size := s\<rparr>"

text \<open>\<open>zoom.event\<close> outside a transition, and one step of the tween it makes inside one, between the view of the element and the one set last.\<close>

definition zoom_event :: "zoom \<Rightarrow> zoom" where
  "zoom_event z = zoomended (zoomed (zoomstarted z))"

definition view_window :: "xy \<Rightarrow> real \<times> real \<times> real \<Rightarrow> zview" where
  "view_window s v = (let (x, y, k) = v in ((fst s / 2 - x) / k, (snd s / 2 - y) / k, fst s / k))"

definition zoom_tween :: "real \<times> real \<times> real \<Rightarrow> real \<times> real \<times> real \<Rightarrow> real \<Rightarrow> zoom \<Rightarrow> zoom" where
  "zoom_tween v0 v1 t z =
     (let (lx, ly, lw) = d3_interpolateZoom (view_window (z_size z) v0) (view_window (z_size z) v1) t; k = fst (z_size z) / lw
      in zoomed (z\<lparr>z_x := fst (z_size z) / 2 - lx * k, z_y := snd (z_size z) / 2 - ly * k, z_k := k\<rparr>))"

subsection \<open>The mouse\<close>

definition mousedowned :: "xy \<Rightarrow> zoom \<Rightarrow> zoom" where
  "mousedowned p z = zoomstarted (z\<lparr>z_drag := Some (location z p)\<rparr>)"

definition mouse_moved :: "xy \<Rightarrow> xy \<Rightarrow> zoom \<Rightarrow> zoom" where
  "mouse_moved l p z = zoomed (translateTo p l z)"

definition mouse_ended :: "zoom \<Rightarrow> zoom" where
  "mouse_ended z = zoomended (z\<lparr>z_drag := None\<rparr>)"

definition mousewheeled :: "xy \<Rightarrow> real \<Rightarrow> zoom \<Rightarrow> zoom" where
  "mousewheeled p delta z =
     (let z1 = (if z_wheel z then z else zoomstarted z)\<lparr>z_wheel := True\<rparr>;
          pt = (case z_center z1 of None \<Rightarrow> p | Some c \<Rightarrow> c);
          l = (case z_translate0 z1 of None \<Rightarrow> location z1 pt | Some l \<Rightarrow> l)
      in zoomed (translateTo pt l (scaleTo (2 powr (delta * (2 / 1000)) * z_k z1) (z1\<lparr>z_translate0 := Some l\<rparr>))))"

definition mousewheel_timeout :: "zoom \<Rightarrow> zoom" where
  "mousewheel_timeout z = zoomended (z\<lparr>z_wheel := False\<rparr>)"

definition mousewheelreset :: "zoom \<Rightarrow> zoom" where
  "mousewheelreset z = z\<lparr>z_translate0 := None\<rparr>"

definition dblclicked :: "xy \<Rightarrow> bool \<Rightarrow> zoom \<Rightarrow> zoom" where
  "dblclicked p shift z =
     (let l = location z p; k = log 2 (z_k z)
      in zoomended (zoomed (translateTo p l (scaleTo (2 powr (if shift then of_int \<lceil>k\<rceil> - 1 else of_int \<lfloor>k\<rfloor> + 1)) (zoomstarted z)))))"

subsection \<open>Touches\<close>

type_synonym touches = "(nat \<times> xy) list"

definition relocate :: "touches \<Rightarrow> touching \<Rightarrow> zoom \<Rightarrow> touching" where
  "relocate ts t z = t\<lparr>t_scale0 := z_k z,
     t_locations := fold (\<lambda>(i, p) m. if i \<in> dom m then m(i \<mapsto> Some (location z p)) else m) ts (t_locations t)\<rparr>"

definition touch_distance2 :: "xy \<Rightarrow> xy \<Rightarrow> real" where
  "touch_distance2 p q = (fst p - fst q) * (fst p - fst q) + (snd p - snd q) * (snd p - snd q)"

text \<open>
  A double tap on a touch that is not among the located ones fails in the code.  The time of the last tap is
  absent at first and after a move; as times are far above 500 both make the comparison false.
\<close>

definition touch_started :: "nat list \<Rightarrow> touches \<Rightarrow> real \<Rightarrow> touching \<Rightarrow> zoom \<Rightarrow> zoom option" where
  "touch_started changed ts now t z =
     (let t1 = relocate ts (t\<lparr>t_locations := fold (\<lambda>i m. m(i \<mapsto> None)) changed (t_locations t)\<rparr>) z; z1 = z\<lparr>z_touch := Some t1\<rparr>
      in case ts of
           [] \<Rightarrow> Some z1
         | [(i, p)] \<Rightarrow>
             (if (case z_touchtime z of None \<Rightarrow> False | Some t0 \<Rightarrow> now - t0 < 500) then
                case t_locations t1 i of
                  Some (Some l) \<Rightarrow> Some ((zoomed (translateTo p l (scaleTo (z_k z1 * 2) z1)))\<lparr>z_touchtime := Some now\<rparr>)
                | _ \<Rightarrow> None
              else Some (z1\<lparr>z_touchtime := Some now\<rparr>))
         | (i, p) # (j, q) # _ \<Rightarrow> Some (z\<lparr>z_touch := Some (t1\<lparr>t_distance0 := touch_distance2 p q\<rparr>)\<rparr>))"

definition touchstarted :: "nat list \<Rightarrow> touches \<Rightarrow> real \<Rightarrow> zoom \<Rightarrow> zoom option" where
  "touchstarted changed ts now z =
     map_option zoomstarted (touch_started changed ts now \<lparr>t_locations = Map.empty, t_distance0 = 0, t_scale0 = 0\<rparr> z)"

definition located :: "touching \<Rightarrow> touches \<Rightarrow> (xy \<times> xy) list" where
  "located t ts = List.map_filter (\<lambda>(i, p). case t_locations t i of Some (Some l) \<Rightarrow> Some (p, l) | _ \<Rightarrow> None) ts"

definition mid :: "xy \<Rightarrow> xy \<Rightarrow> xy" where
  "mid p q = ((fst p + fst q) / 2, (snd p + snd q) / 2)"

text \<open>Without a located touch the code fails.\<close>

definition touch_moved :: "touches \<Rightarrow> touching \<Rightarrow> zoom \<Rightarrow> zoom option" where
  "touch_moved ts t z = (case located t ts of
     [] \<Rightarrow> None
   | [(p0, l0)] \<Rightarrow> Some (zoomed (translateTo p0 l0 (z\<lparr>z_touchtime := None\<rparr>)))
   | (p0, l0) # (p1, l1) # _ \<Rightarrow>
       (let scale1 = (if t_distance0 t = 0 then 0 else sqrt (touch_distance2 p1 p0 / t_distance0 t))
        in Some (zoomed (translateTo (mid p0 p1) (mid l0 l1) ((scaleTo (scale1 * t_scale0 t) z)\<lparr>z_touchtime := None\<rparr>)))))"

definition touch_ended :: "nat list \<Rightarrow> touches \<Rightarrow> touching \<Rightarrow> zoom \<Rightarrow> zoom" where
  "touch_ended changed remaining t z =
     (let t1 = t\<lparr>t_locations := fold (\<lambda>i m. m(i := None)) changed (t_locations t)\<rparr>
      in if remaining \<noteq> [] \<and> t_locations t1 \<noteq> Map.empty then z\<lparr>z_touch := Some (relocate remaining t1 z)\<rparr>
         else zoomended (z\<lparr>z_touch := None\<rparr>))"

section \<open>The interpolation runs from one view to the other\<close>

lemma exp_zoom_r: "exp (zoom_r b) = sqrt (b * b + 1) - b"
proof -
  have "\<bar>b\<bar> < sqrt (b * b + 1)"
    using real_sqrt_less_mono[of "b * b" "b * b + 1"] by simp
  hence "0 < sqrt (b * b + 1) - b"
    by linarith
  thus ?thesis
    by (simp add: zoom_r_def)
qed

lemma exp_minus_zoom_r: "exp (- zoom_r b) = sqrt (b * b + 1) + b"
proof -
  have "(sqrt (b * b + 1) - b) * (sqrt (b * b + 1) + b) = 1"
    by (simp add: algebra_simps)
  hence "exp (zoom_r b) * (sqrt (b * b + 1) + b) = exp (zoom_r b) * exp (- zoom_r b)"
    unfolding exp_zoom_r[symmetric] by (simp flip: exp_add)
  thus ?thesis
    by simp
qed

lemma zoom_r_sinh: "d3_sinh (zoom_r b) = - b"
  and zoom_r_cosh: "d3_cosh (zoom_r b) = sqrt (b * b + 1)"
proof -
  have *: "1 / exp (zoom_r b) = sqrt (b * b + 1) + b"
    using exp_minus_zoom_r[of b] by (simp add: exp_minus inverse_eq_divide)
  show "d3_sinh (zoom_r b) = - b" "d3_cosh (zoom_r b) = sqrt (b * b + 1)"
    unfolding d3_sinh_def d3_cosh_def exp_zoom_r *[unfolded exp_zoom_r] by simp_all
qed

lemma zoom_r_inject: "zoom_r a = zoom_r b \<longleftrightarrow> a = b"
proof
  assume "zoom_r a = zoom_r b"
  hence "d3_sinh (zoom_r a) = d3_sinh (zoom_r b)"
    by (rule arg_cong)
  thus "a = b"
    unfolding zoom_r_sinh by simp
qed simp

lemma d3_tanh_quotient: "d3_tanh x = d3_sinh x / d3_cosh x"
proof -
  have "d3_sinh x = (exp x * exp x - 1) / (2 * exp x)" "d3_cosh x = (exp x * exp x + 1) / (2 * exp x)"
    by (simp_all add: d3_sinh_def d3_cosh_def field_simps)
  moreover have "d3_tanh x = (exp x * exp x - 1) / (exp x * exp x + 1)"
    unfolding d3_tanh_def mult_2 exp_add ..
  ultimately show ?thesis
    by simp
qed

lemma zoom_scaled_cosh:
  assumes "0 < w0" "0 < w1" "0 < d"
  shows "w0 * sqrt (zoom_b0 w0 w1 d * zoom_b0 w0 w1 d + 1) = w1 * sqrt (zoom_b1 w0 w1 d * zoom_b1 w0 w1 d + 1)"
proof -
  have "w0 * w0 * (zoom_b0 w0 w1 d * zoom_b0 w0 w1 d + 1) = w1 * w1 * (zoom_b1 w0 w1 d * zoom_b1 w0 w1 d + 1)"
    using assms by (simp add: zoom_b0_def zoom_b1_def field_simps)
  hence "sqrt (w0 * w0 * (zoom_b0 w0 w1 d * zoom_b0 w0 w1 d + 1)) = sqrt (w1 * w1 * (zoom_b1 w0 w1 d * zoom_b1 w0 w1 d + 1))"
    by simp
  thus ?thesis
    using assms by (simp only: real_sqrt_mult) simp
qed

lemma zoom_offset:
  assumes "0 < w0" "0 < w1" "0 < d"
  shows "w0 * zoom_b0 w0 w1 d - w1 * zoom_b1 w0 w1 d = 2 * d"
  using assms by (simp add: zoom_b0_def zoom_b1_def field_simps)

lemma zoom_b_differ:
  assumes "0 < w0" "0 < w1" "0 < d"
  shows "zoom_b0 w0 w1 d \<noteq> zoom_b1 w0 w1 d"
proof
  assume "zoom_b0 w0 w1 d = zoom_b1 w0 w1 d"
  hence "w0 * sqrt (zoom_b0 w0 w1 d * zoom_b0 w0 w1 d + 1) = w1 * sqrt (zoom_b0 w0 w1 d * zoom_b0 w0 w1 d + 1)"
    using zoom_scaled_cosh[OF assms] by simp
  moreover have "0 < sqrt (zoom_b0 w0 w1 d * zoom_b0 w0 w1 d + 1)"
    by (simp add: add_nonneg_pos)
  ultimately have "w0 = w1"
    by simp
  thus False
    using assms zoom_offset[OF assms] \<open>zoom_b0 w0 w1 d = zoom_b1 w0 w1 d\<close> by simp
qed

lemma zoom_dr_apart:
  assumes "0 < w0" "0 < w1" "(x0, y0) \<noteq> (x1, y1)"
  defines "d \<equiv> sqrt ((x1 - x0) * (x1 - x0) + (y1 - y0) * (y1 - y0))"
  shows "0 < d" "zoom_dr (x0, y0, w0) (x1, y1, w1) = zoom_r (zoom_b1 w0 w1 d) - zoom_r (zoom_b0 w0 w1 d)"
    "zoom_dr (x0, y0, w0) (x1, y1, w1) \<noteq> 0"
proof -
  have "0 < (x1 - x0) * (x1 - x0) + (y1 - y0) * (y1 - y0)"
    using assms(3) by (auto simp: sum_squares_gt_zero_iff)
  thus d: "0 < d"
    by (simp add: d_def)
  thus eq: "zoom_dr (x0, y0, w0) (x1, y1, w1) = zoom_r (zoom_b1 w0 w1 d) - zoom_r (zoom_b0 w0 w1 d)"
    unfolding zoom_dr_def Let_def prod.case d_def[symmetric] by simp
  show "zoom_dr (x0, y0, w0) (x1, y1, w1) \<noteq> 0"
    using zoom_b_differ[OF assms(1,2) d] unfolding eq by (simp add: zoom_r_inject)
qed

lemma zoom_dr_same [simp]: "zoom_dr (x, y, w0) (x, y, w1) = 0"
  by (simp add: zoom_dr_def)

lemma zoom_starts:
  assumes "0 < w0" "0 < w1"
  shows "d3_interpolateZoom (x0, y0, w0) (x1, y1, w1) 0 = (x0, y0, w0)"
proof -
  have "d3_cosh r \<noteq> 0" for r
    using exp_gt_zero[of r] by (simp add: d3_cosh_def add_nonneg_eq_0_iff)
  thus ?thesis
    by (simp add: d3_interpolateZoom_def Let_def d3_tanh_quotient)
qed

lemma zoom_arrives:
  assumes "0 < w0" "0 < w1"
  shows "d3_interpolateZoom (x0, y0, w0) (x1, y1, w1) 1 = (x1, y1, w1)"
proof (cases "(x0, y0) = (x1, y1)")
  case True
  thus ?thesis
    using assms by (simp add: d3_interpolateZoom_def zoom_S_def Let_def)
next
  case False
  define d where "d = sqrt ((x1 - x0) * (x1 - x0) + (y1 - y0) * (y1 - y0))"
  note dr = zoom_dr_apart[OF assms False, folded d_def]
  define C0 where "C0 = sqrt (zoom_b0 w0 w1 d * zoom_b0 w0 w1 d + 1)"
  define C1 where "C1 = sqrt (zoom_b1 w0 w1 d * zoom_b1 w0 w1 d + 1)"
  have C: "w0 * C0 = w1 * C1" and C1: "0 < C1"
    using zoom_scaled_cosh[OF assms dr(1)] by (simp_all add: C0_def C1_def add_nonneg_pos)
  have s: "sqrt 2 * zoom_S (x0, y0, w0) (x1, y1, w1) + zoom_r (zoom_b0 w0 w1 d) = zoom_r (zoom_b1 w0 w1 d)"
    using dr by (simp add: zoom_S_def Let_def)
  have u: "w0 / (2 * d) * (C0 * (- zoom_b1 w0 w1 d / C1) - - zoom_b0 w0 w1 d) = 1"
  proof -
    have "w0 / (2 * d) * (C0 * (- zoom_b1 w0 w1 d / C1) - - zoom_b0 w0 w1 d)
        = (w0 * zoom_b0 w0 w1 d - (w0 * C0) * zoom_b1 w0 w1 d / C1) / (2 * d)"
      by (simp add: field_simps)
    also have "\<dots> = 1"
      unfolding C using C1 dr(1) zoom_offset[OF assms dr(1)] by simp
    finally show ?thesis .
  qed
  have "d3_interpolateZoom (x0, y0, w0) (x1, y1, w1) 1 =
      (x0 + 1 * (x1 - x0), y0 + 1 * (y1 - y0), w0 * C0 / C1)"
    unfolding d3_interpolateZoom_def Let_def prod.case d_def[symmetric] mult_1 s d3_tanh_quotient zoom_r_sinh zoom_r_cosh
      C0_def[symmetric] C1_def[symmetric] u using dr(3) by simp
  thus ?thesis
    using C C1 by simp
qed

lemma zoom_interpolates:
  assumes "0 < snd (snd p0)" "0 < snd (snd p1)"
  shows "d3_interpolateZoom p0 p1 0 = p0" "d3_interpolateZoom p0 p1 1 = p1"
  using assms by (cases p0; cases p1; simp add: zoom_starts zoom_arrives)+

lemma zoom_tween_shows:
  assumes "fst (z_size z) \<noteq> 0" "k \<noteq> 0"
    and "d3_interpolateZoom (view_window (z_size z) v0) (view_window (z_size z) v1) t = view_window (z_size z) (x, y, k)"
  shows "zoom_tween v0 v1 t z = zoomed (z\<lparr>z_x := x, z_y := y, z_k := k\<rparr>)"
  using assms by (simp add: zoom_tween_def view_window_def)

section \<open>The view under the pointer\<close>

lemma location_translateTo:
  assumes "z_k z \<noteq> 0"
  shows "location (translateTo p l z) p = l"
  using assms by (cases l) (simp add: location_def translateTo_def zoom_point_def field_simps)

lemma zoomed_view [simp]:
  "location (zoomed z) = location z" "z_k (zoomed z) = z_k z" "z_extent (zoomed z) = z_extent z"
  "location (zoomstarted z) = location z" "z_k (zoomstarted z) = z_k z" "z_extent (zoomstarted z) = z_extent z"
  "location (zoomended z) = location z" "z_k (zoomended z) = z_k z" "z_extent (zoomended z) = z_extent z"
  "z_k (translateTo p l z) = z_k z" "z_extent (translateTo p l z) = z_extent z" "z_extent (scaleTo s z) = z_extent z"
  by (simp_all add: zoomed_def zoomstarted_def zoomended_def report_def zoom_rescale_def location_def fun_eq_iff Let_def translateTo_def scaleTo_def)

lemma scaleTo_pos: "0 < fst (z_extent z) \<Longrightarrow> 0 < z_k (scaleTo s z)"
  by (simp add: scaleTo_def less_max_iff_disj)

definition in_extent :: "zoom \<Rightarrow> bool" where
  "in_extent z \<longleftrightarrow> fst (z_extent z) \<le> z_k z \<and> (case snd (z_extent z) of None \<Rightarrow> True | Some hi \<Rightarrow> z_k z \<le> hi)"

definition sound_extent :: "zoom \<Rightarrow> bool" where
  "sound_extent z \<longleftrightarrow> 0 < fst (z_extent z) \<and> (case snd (z_extent z) of None \<Rightarrow> True | Some hi \<Rightarrow> fst (z_extent z) \<le> hi)"

lemma scaleTo_in_extent: "sound_extent z \<Longrightarrow> in_extent (scaleTo s z)"
  by (auto simp: in_extent_def sound_extent_def scaleTo_def split: option.splits)

lemma location_z_update [simp]:
  "location (z\<lparr>z_wheel := w\<rparr>) = location z" "location (z\<lparr>z_translate0 := a\<rparr>) = location z" "location (z\<lparr>z_touchtime := b\<rparr>) = location z"
  "location (z\<lparr>z_touch := c\<rparr>) = location z" "location (z\<lparr>z_drag := d\<rparr>) = location z"
  by (simp_all add: location_def fun_eq_iff)

lemma mouse_moved_anchor: "z_k z \<noteq> 0 \<Longrightarrow> location (mouse_moved l p z) p = l"
  by (simp add: mouse_moved_def location_translateTo)

definition wheel_point :: "xy \<Rightarrow> zoom \<Rightarrow> xy" where
  "wheel_point p z = (case z_center z of None \<Rightarrow> p | Some c \<Rightarrow> c)"

lemma zoomstarted_keeps [simp]:
  "z_center (zoomstarted z) = z_center z" "z_translate0 (zoomstarted z) = z_translate0 z"
  "z_center (z\<lparr>z_wheel := w\<rparr>) = z_center z"
  by (simp_all add: zoomstarted_def report_def)

lemma zoomed_translate_anchor:
  "0 < fst (z_extent z) \<Longrightarrow> location (translateTo p l (scaleTo s z)) p = l"
  using scaleTo_pos[of z s] by (simp add: location_translateTo)

lemma mousewheeled_anchor:
  assumes "0 < fst (z_extent z)"
  shows "location (mousewheeled p delta z) (wheel_point p z) =
    (case z_translate0 z of None \<Rightarrow> location z (wheel_point p z) | Some l \<Rightarrow> l)"
  unfolding mousewheeled_def Let_def wheel_point_def using assms
  by (cases "z_wheel z"; cases "z_center z"; cases "z_translate0 z"; simp add: zoomed_translate_anchor)

lemma dblclicked_anchor:
  assumes "0 < fst (z_extent z)"
  shows "location (dblclicked p shift z) p = location z p"
  using assms by (simp add: dblclicked_def Let_def zoomed_translate_anchor)

lemma touch_moved_one:
  assumes "located t ts = [(p, l)]" "z_k z \<noteq> 0"
  shows "\<exists>z'. touch_moved ts t z = Some z' \<and> location z' p = l \<and> z_k z' = z_k z"
  using assms by (simp add: touch_moved_def location_translateTo)

lemma touch_moved_two:
  assumes "located t ts = (p, l) # (q, m) # others" "0 < fst (z_extent z)"
  shows "\<exists>z'. touch_moved ts t z = Some z' \<and> location z' (mid p q) = mid l m"
proof -
  have "(scaleTo s z)\<lparr>z_touchtime := None\<rparr> = scaleTo s (z\<lparr>z_touchtime := None\<rparr>)" for s
    by (simp add: scaleTo_def)
  thus ?thesis
    using assms by (simp add: touch_moved_def Let_def zoomed_translate_anchor)
qed



section \<open>Gestures\<close>

text \<open>
  The handlers as steps: what may happen to an element that listens.  The element hears presses of a button only while no touch is
  in progress, a drag hears moves and releases, the first finger makes the gesture the later ones join, the timer of the wheel runs once.
\<close>

inductive zoom_step :: "zoom \<Rightarrow> zoom \<Rightarrow> bool" where
  press: "z_touch z = None \<Longrightarrow> zoom_step z (mousedowned p z)"
| drag: "z_drag z = Some l \<Longrightarrow> zoom_step z (mouse_moved l p z)"
| release: "z_drag z = Some l \<Longrightarrow> zoom_step z (mouse_ended z)"
| wheel: "zoom_step z (mousewheeled p delta z)"
| wheel_over: "z_wheel z \<Longrightarrow> zoom_step z (mousewheel_timeout z)"
| hover: "zoom_step z (mousewheelreset z)"
| dblclick: "zoom_step z (dblclicked p shift z)"
| touch_first: "z_touch z = None \<Longrightarrow> touchstarted changed ts now z = Some z' \<Longrightarrow> zoom_step z z'"
| touch_more: "z_touch z = Some t \<Longrightarrow> touch_started changed ts now t z = Some z' \<Longrightarrow> zoom_step z z'"
| touch_move: "z_touch z = Some t \<Longrightarrow> touch_moved ts t z = Some z' \<Longrightarrow> zoom_step z z'"
| touch_lift: "z_touch z = Some t \<Longrightarrow> zoom_step z (touch_ended changed remaining t z)"
| program: "zoom_step z (zoom_event z)"

definition starts :: "zoom \<Rightarrow> nat" where
  "starts z = length (filter (\<lambda>e. e = ZoomStart) (z_events z))"

definition ends :: "zoom \<Rightarrow> nat" where
  "ends z = length (filter (\<lambda>e. e = ZoomEnd) (z_events z))"

definition gestures :: "zoom \<Rightarrow> nat" where
  "gestures z = of_bool (z_wheel z) + of_bool (z_drag z \<noteq> None) + of_bool (z_touch z \<noteq> None)"

definition shows_view :: "zoom \<Rightarrow> bool" where
  "shows_view z \<longleftrightarrow> z_xdomain z = rescaled (z_xscale z) (z_xdomain z) (z_x z) (z_k z)
     \<and> z_ydomain z = rescaled (z_yscale z) (z_ydomain z) (z_y z) (z_k z)
     \<and> (let reports = filter (\<lambda>e. e \<notin> {ZoomStart, ZoomEnd}) (z_events z)
        in reports \<noteq> [] \<longrightarrow> last reports = ZoomTo (z_k z) (z_x z, z_y z))"

definition zoom_inv :: "zoom \<Rightarrow> bool" where
  "zoom_inv z \<longleftrightarrow> sound_extent z \<and> in_extent z \<and> shows_view z \<and> ends z + gestures z \<le> starts z"

lemma shows_view_zoomed: "shows_view (zoomed z)"
  by (auto simp: shows_view_def zoomed_def zoom_rescale_def report_def Let_def rescaled_def split: option.splits)

lemmas zoom_field_defs = shows_view_def in_extent_def sound_extent_def starts_def ends_def gestures_def

lemma zoom_reports [simp]:
  "starts (zoomstarted z) = Suc (starts z)" "ends (zoomstarted z) = ends z" "gestures (zoomstarted z) = gestures z"
  "starts (zoomed z) = starts z" "ends (zoomed z) = ends z" "gestures (zoomed z) = gestures z"
  "starts (zoomended z) = starts z" "ends (zoomended z) = Suc (ends z)" "gestures (zoomended z) = gestures z"
  by (simp_all add: zoom_field_defs zoomstarted_def zoomed_def zoomended_def report_def zoom_rescale_def Let_def cong: option.case_cong)

lemma zoom_reports_keep [simp]:
  "shows_view (zoomstarted z) = shows_view z" "shows_view (zoomended z) = shows_view z"
  "in_extent (zoomstarted z) = in_extent z" "in_extent (zoomed z) = in_extent z" "in_extent (zoomended z) = in_extent z"
  "sound_extent (zoomstarted z) = sound_extent z" "sound_extent (zoomed z) = sound_extent z" "sound_extent (zoomended z) = sound_extent z"
  by (simp_all add: zoom_field_defs zoomstarted_def zoomed_def zoomended_def report_def zoom_rescale_def Let_def cong: option.case_cong)

lemma zoom_moves_keep [simp]:
  "starts (translateTo p l z) = starts z" "ends (translateTo p l z) = ends z" "gestures (translateTo p l z) = gestures z"
  "in_extent (translateTo p l z) = in_extent z" "sound_extent (translateTo p l z) = sound_extent z"
  "starts (scaleTo s z) = starts z" "ends (scaleTo s z) = ends z" "gestures (scaleTo s z) = gestures z" "sound_extent (scaleTo s z) = sound_extent z"
  by (simp_all add: zoom_field_defs translateTo_def scaleTo_def cong: option.case_cong)

lemma zoom_updates_keep [simp]:
  "starts (z\<lparr>z_touch := t\<rparr>) = starts z" "ends (z\<lparr>z_touch := t\<rparr>) = ends z" "in_extent (z\<lparr>z_touch := t\<rparr>) = in_extent z"
  "sound_extent (z\<lparr>z_touch := t\<rparr>) = sound_extent z" "shows_view (z\<lparr>z_touch := t\<rparr>) = shows_view z"
  "starts (z\<lparr>z_drag := d\<rparr>) = starts z" "ends (z\<lparr>z_drag := d\<rparr>) = ends z" "in_extent (z\<lparr>z_drag := d\<rparr>) = in_extent z"
  "sound_extent (z\<lparr>z_drag := d\<rparr>) = sound_extent z" "shows_view (z\<lparr>z_drag := d\<rparr>) = shows_view z"
  "starts (z\<lparr>z_wheel := w\<rparr>) = starts z" "ends (z\<lparr>z_wheel := w\<rparr>) = ends z" "in_extent (z\<lparr>z_wheel := w\<rparr>) = in_extent z"
  "sound_extent (z\<lparr>z_wheel := w\<rparr>) = sound_extent z" "shows_view (z\<lparr>z_wheel := w\<rparr>) = shows_view z"
  "starts (z\<lparr>z_translate0 := a\<rparr>) = starts z" "ends (z\<lparr>z_translate0 := a\<rparr>) = ends z" "in_extent (z\<lparr>z_translate0 := a\<rparr>) = in_extent z"
  "sound_extent (z\<lparr>z_translate0 := a\<rparr>) = sound_extent z" "shows_view (z\<lparr>z_translate0 := a\<rparr>) = shows_view z"
  "starts (z\<lparr>z_touchtime := b\<rparr>) = starts z" "ends (z\<lparr>z_touchtime := b\<rparr>) = ends z" "in_extent (z\<lparr>z_touchtime := b\<rparr>) = in_extent z"
  "sound_extent (z\<lparr>z_touchtime := b\<rparr>) = sound_extent z" "shows_view (z\<lparr>z_touchtime := b\<rparr>) = shows_view z"
  "gestures (z\<lparr>z_translate0 := a\<rparr>) = gestures z" "gestures (z\<lparr>z_touchtime := b\<rparr>) = gestures z"
  by (simp_all add: zoom_field_defs cong: option.case_cong)

lemma gestures_opened [simp]: "gestures (z\<lparr>z_touch := Some t\<rparr>) = Suc (gestures (z\<lparr>z_touch := None\<rparr>))"
  by (simp add: gestures_def)

lemma gestures_open:
  "z_touch z = Some t \<Longrightarrow> gestures z = Suc (gestures (z\<lparr>z_touch := None\<rparr>))" "z_touch z = None \<Longrightarrow> gestures (z\<lparr>z_touch := None\<rparr>) = gestures z"
  "z_drag z = Some l \<Longrightarrow> gestures z = Suc (gestures (z\<lparr>z_drag := None\<rparr>))" "z_wheel z \<Longrightarrow> gestures z = Suc (gestures (z\<lparr>z_wheel := False\<rparr>))"
  by (simp_all add: gestures_def)

lemma zoom_inv_zoomed:
  assumes "sound_extent z" "in_extent z" "ends z + gestures z \<le> starts z"
  shows "zoom_inv (zoomed z)"
  using assms by (simp add: zoom_inv_def shows_view_zoomed)

lemma zoom_inv_wheel:
  assumes "zoom_inv z"
  shows "zoom_inv (mousewheeled p delta z)"
proof -
  have "gestures (z\<lparr>z_wheel := True\<rparr>) = gestures z + of_bool (\<not> z_wheel z)"
    and "gestures ((zoomstarted z)\<lparr>z_wheel := True\<rparr>) = gestures z + of_bool (\<not> z_wheel z)"
    by (simp_all add: gestures_def zoomstarted_def report_def)
  thus ?thesis
    using assms unfolding mousewheeled_def Let_def
    by (intro zoom_inv_zoomed) (auto simp: zoom_inv_def scaleTo_in_extent)
qed

lemma zoom_inv_dblclick: "zoom_inv z \<Longrightarrow> zoom_inv (dblclicked p shift z)"
  by (simp add: dblclicked_def Let_def zoom_inv_def shows_view_zoomed scaleTo_in_extent)

lemma zoom_inv_event: "zoom_inv z \<Longrightarrow> zoom_inv (zoom_event z)"
  by (simp add: zoom_event_def zoom_inv_def shows_view_zoomed)

lemma zoom_inv_mouse:
  assumes "zoom_inv z"
  shows "zoom_inv (mousedowned p z)" "zoom_inv (mouse_moved l p z)" "z_drag z = Some l \<Longrightarrow> zoom_inv (mouse_ended z)"
    "z_wheel z \<Longrightarrow> zoom_inv (mousewheel_timeout z)" "zoom_inv (mousewheelreset z)"
proof -
  have "gestures (z\<lparr>z_drag := Some (location z p)\<rparr>) \<le> Suc (gestures z)"
    by (simp add: gestures_def)
  thus "zoom_inv (mousedowned p z)"
    using assms by (simp add: mousedowned_def zoom_inv_def)
  show "zoom_inv (mouse_moved l p z)"
    using assms unfolding mouse_moved_def by (intro zoom_inv_zoomed) (simp_all add: zoom_inv_def)
  show "zoom_inv (mouse_ended z)" if "z_drag z = Some l"
    using gestures_open(3)[OF that] assms by (simp add: mouse_ended_def zoom_inv_def)
  show "zoom_inv (mousewheel_timeout z)" if "z_wheel z"
    using gestures_open(4)[OF that] assms by (simp add: mousewheel_timeout_def zoom_inv_def)
  show "zoom_inv (mousewheelreset z)"
    using assms by (simp add: mousewheelreset_def zoom_inv_def)
qed

lemma touch_started_steps:
  assumes "touch_started changed ts now t z = Some z'" "sound_extent z" "in_extent z" "shows_view z"
  shows "sound_extent z'" "in_extent z'" "shows_view z'" "starts z' = starts z" "ends z' = ends z"
    "gestures z' = Suc (gestures (z\<lparr>z_touch := None\<rparr>))"
  using assms
  by (auto simp: touch_started_def Let_def shows_view_zoomed scaleTo_in_extent split: list.splits option.splits if_splits)

lemma scaleTo_touchtime: "(scaleTo s z)\<lparr>z_touchtime := b\<rparr> = scaleTo s (z\<lparr>z_touchtime := b\<rparr>)"
  by (simp add: scaleTo_def)

lemma zoom_inv_touch:
  assumes "zoom_inv z"
  shows "z_touch z = None \<Longrightarrow> touchstarted changed ts now z = Some z' \<Longrightarrow> zoom_inv z'"
    "z_touch z = Some t \<Longrightarrow> touch_started changed ts now t z = Some z' \<Longrightarrow> zoom_inv z'"
    "touch_moved ts t z = Some z' \<Longrightarrow> zoom_inv z'"
    "z_touch z = Some t \<Longrightarrow> zoom_inv (touch_ended changed remaining t z)"
proof -
  note inv = assms[unfolded zoom_inv_def]
  show "zoom_inv z'" if no: "z_touch z = None" and first: "touchstarted changed ts now z = Some z'"
  proof -
    obtain z1 where z1: "touch_started changed ts now \<lparr>t_locations = Map.empty, t_distance0 = 0, t_scale0 = 0\<rparr> z = Some z1" "z' = zoomstarted z1"
      using first by (auto simp: touchstarted_def)
    show ?thesis
      using inv touch_started_steps[OF z1(1)] gestures_open(2)[OF no] by (simp add: zoom_inv_def z1(2))
  qed
  show "zoom_inv z'" if touch: "z_touch z = Some t" and "touch_started changed ts now t z = Some z'"
    using inv touch_started_steps[OF that(2)] gestures_open(1)[OF touch] by (simp add: zoom_inv_def)
  show "zoom_inv z'" if "touch_moved ts t z = Some z'"
    using that inv unfolding touch_moved_def Let_def scaleTo_touchtime
    by (auto split: list.splits intro!: zoom_inv_zoomed simp: scaleTo_in_extent)
  show "zoom_inv (touch_ended changed remaining t z)" if "z_touch z = Some t"
    using gestures_open(1)[OF that] inv by (simp add: touch_ended_def Let_def zoom_inv_def)
qed

lemma zoom_inv_step: "zoom_step z z' \<Longrightarrow> zoom_inv z \<Longrightarrow> zoom_inv z'"
  by (induction rule: zoom_step.induct) (blast intro: zoom_inv_mouse zoom_inv_wheel zoom_inv_dblclick zoom_inv_event zoom_inv_touch)+

lemma zoom_inv_run: "zoom_step\<^sup>*\<^sup>* z z' \<Longrightarrow> zoom_inv z \<Longrightarrow> zoom_inv z'"
  by (induction rule: rtranclp_induct) (auto intro: zoom_inv_step)

lemma zoom_inv_initial:
  assumes "0 < lo" "lo \<le> 1" "1 \<le> hi"
  shows "zoom_inv (zoom_scaleExtent (Some (lo, hi)) d3_behavior_zoom)"
  using assms by (simp add: zoom_inv_def zoom_field_defs zoom_scaleExtent_def d3_behavior_zoom_def rescaled_def)

lemma zoom_extent_fixed: "zoom_step z z' \<Longrightarrow> z_extent z' = z_extent z"
  by (induction rule: zoom_step.induct)
    (auto simp: mousedowned_def mouse_moved_def mouse_ended_def mousewheeled_def mousewheel_timeout_def mousewheelreset_def dblclicked_def
      touchstarted_def touch_started_def touch_moved_def touch_ended_def zoom_event_def Let_def split: list.splits option.splits if_splits)

lemma zoom_extent_run: "zoom_step\<^sup>*\<^sup>* z z' \<Longrightarrow> z_extent z' = z_extent z"
  by (induction rule: rtranclp_induct) (auto dest: zoom_extent_fixed)



text \<open>
  The zoom interpolation joins its ends.  Between two views of positive width it gives the first view at 0 and the second at 1, whether they share their
  centre or not; so the tween of a zoom transition ends with exactly the view that was set, reported to the listeners.
\<close>

theorem zoom_endpoints:
  assumes "0 < snd (snd p0)" "0 < snd (snd p1)" "0 < fst (z_size z)" "0 < k0" "0 < k1"
  shows "d3_interpolateZoom p0 p1 0 = p0 \<and> d3_interpolateZoom p0 p1 1 = p1
    \<and> zoom_tween (x0, y0, k0) (x1, y1, k1) 0 z = zoomed (z\<lparr>z_x := x0, z_y := y0, z_k := k0\<rparr>)
    \<and> zoom_tween (x0, y0, k0) (x1, y1, k1) 1 z = zoomed (z\<lparr>z_x := x1, z_y := y1, z_k := k1\<rparr>)"
proof -
  have w: "0 < snd (snd (view_window (z_size z) (x0, y0, k0)))" "0 < snd (snd (view_window (z_size z) (x1, y1, k1)))"
    using assms by (simp_all add: view_window_def)
  have "zoom_tween (x0, y0, k0) (x1, y1, k1) 0 z = zoomed (z\<lparr>z_x := x0, z_y := y0, z_k := k0\<rparr>)"
    "zoom_tween (x0, y0, k0) (x1, y1, k1) 1 z = zoomed (z\<lparr>z_x := x1, z_y := y1, z_k := k1\<rparr>)"
    using assms zoom_interpolates[OF w] by (intro zoom_tween_shows; simp)+
  thus ?thesis
    using zoom_interpolates[OF assms(1,2)] by blast
qed

theorem zoom_endpoints_witness:
  "d3_interpolateZoom (0, 0, 10) (3, 4, 20) 1 = (3, 4, 20)
    \<and> zoom_tween (0, 0, 1) (5, 6, 2) 1 d3_behavior_zoom = zoomed (d3_behavior_zoom\<lparr>z_x := 5, z_y := 6, z_k := 2\<rparr>)"
  using zoom_endpoints[of "(0, 0, 10)" "(3, 4, 20)" d3_behavior_zoom 1 2 0 0 5 6] by (simp add: d3_behavior_zoom_def)

section \<open>Where the behaviour misses its bracket or its scale\<close>

text \<open>A second button pressed during a drag makes a start that no end answers.\<close>

lemma zoom_second_button:
  "(let z = mouse_ended (mousedowned q (mousedowned p d3_behavior_zoom)) in starts z = 2 \<and> ends z = 1 \<and> gestures z = 0)"
  by (simp add: Let_def mouse_ended_def mousedowned_def)
    (simp add: starts_def ends_def gestures_def zoomstarted_def zoomended_def report_def d3_behavior_zoom_def)

text \<open>A double tap reports its zoom before the start of the gesture it belongs to.\<close>

lemma zoom_double_tap:
  "map_option z_events (touchstarted [1] [(1, (3, 4))] 1000 (d3_behavior_zoom\<lparr>z_touchtime := Some 800\<rparr>))
    = Some [ZoomTo 2 (-3, -4), ZoomStart]"
  by (simp add: touchstarted_def touch_started_def relocate_def zoomed_def zoomstarted_def zoom_rescale_def rescaled_def report_def location_def
      translateTo_def scaleTo_def zoom_point_def d3_behavior_zoom_def Let_def)

text \<open>
  Lifting one of three fingers locates the others anew but keeps the distance of the first two: a move in place of the remaining ones, 100 apart, then
  scales as if they had been 10 apart.
\<close>

lemma zoom_lift_jumps:
  "(let ts = [(2, (10, 0)), (3, (110, 0))]; t = \<lparr>t_locations = [1 \<mapsto> Some (0, 0), 2 \<mapsto> Some (10, 0), 3 \<mapsto> Some (110, 0)], t_distance0 = 100, t_scale0 = 1\<rparr>
    in case z_touch (touch_ended [1] ts t d3_behavior_zoom) of
         None \<Rightarrow> False
       | Some t' \<Rightarrow> map_option z_k (touch_moved ts t' d3_behavior_zoom) = Some 10)"
proof -
  have "[1 \<mapsto> Some (0, 0), 2 \<mapsto> Some (10, 0), 3 \<mapsto> Some (110, 0)](1 := None) \<noteq> (Map.empty :: nat \<rightharpoonup> (real \<times> real) option)"
    by (auto simp: fun_eq_iff intro: exI[of _ 2])
  thus ?thesis
    by (simp add: Let_def touch_ended_def relocate_def touch_moved_def located_def map_filter_simps touch_distance2_def location_def scaleTo_def
        d3_behavior_zoom_def dom_def)
qed

end
