(* ===== verification/D3_Stream.thy ===== *)
theory D3_Stream
  imports D3_Line D3_Sphere
begin

text \<open>
  Streams of geometries (\<open>d3.js\<close> lines 2783 to 2846, 3843 to 4027, 4106 to 4152 and 4540 to 4568).

  A geometry is turned into a sequence of calls on a listener; a listener is a state and a step for each call.  Listeners replace
  their own methods while they work: which method stands in a slot is part of the state, and a closure over the first
  and the previous point of a line is the \<open>walk\<close>.  A step is absent where the code calls a method that does not exist, or computes with a
  point that was never set and gives no number from then on.  Coordinates are finite reals; the third coordinate is passed on by the
  stream but used by no listener, and is left out.
\<close>

section \<open>Geometries and their calls\<close>

datatype call = Point real real | LineStart | LineEnd | PolygonStart | PolygonEnd | SphereCall

text \<open>Objects of other types, and absent ones, stream nothing.\<close>

datatype geometry = Sphere | PointAt pt | MultiPoint "pt list" | LineString "pt list" | MultiLineString "pt list list"
  | Polygon "pt list list" | MultiPolygon "pt list list list" | GeometryCollection "geometry list" | OtherGeometry

datatype geo_object = Feature geometry | FeatureCollection "geometry list" | Geometry geometry

definition point_call :: "pt \<Rightarrow> call" where
  "point_call p = Point (fst p) (snd p)"

definition d3_geo_streamLine :: "pt list \<Rightarrow> nat \<Rightarrow> call list" where
  "d3_geo_streamLine coordinates shut = LineStart # map point_call (take (length coordinates - shut) coordinates) @ [LineEnd]"

definition d3_geo_streamPolygon :: "pt list list \<Rightarrow> call list" where
  "d3_geo_streamPolygon coordinates = PolygonStart # concat (map (\<lambda>ring. d3_geo_streamLine ring 1) coordinates) @ [PolygonEnd]"

fun d3_geo_streamGeometry :: "geometry \<Rightarrow> call list" where
  "d3_geo_streamGeometry Sphere = [SphereCall]"
| "d3_geo_streamGeometry (PointAt p) = [point_call p]"
| "d3_geo_streamGeometry (MultiPoint ps) = map point_call ps"
| "d3_geo_streamGeometry (LineString ps) = d3_geo_streamLine ps 0"
| "d3_geo_streamGeometry (MultiLineString lines) = concat (map (\<lambda>ps. d3_geo_streamLine ps 0) lines)"
| "d3_geo_streamGeometry (Polygon rings) = d3_geo_streamPolygon rings"
| "d3_geo_streamGeometry (MultiPolygon polygons) = concat (map d3_geo_streamPolygon polygons)"
| "d3_geo_streamGeometry (GeometryCollection gs) = concat (map d3_geo_streamGeometry gs)"
| "d3_geo_streamGeometry OtherGeometry = []"

fun d3_geo_stream :: "geo_object \<Rightarrow> call list" where
  "d3_geo_stream (Feature g) = d3_geo_streamGeometry g"
| "d3_geo_stream (FeatureCollection gs) = concat (map d3_geo_streamGeometry gs)"
| "d3_geo_stream (Geometry g) = d3_geo_streamGeometry g"

fun run :: "('s \<Rightarrow> call \<Rightarrow> 's option) \<Rightarrow> 's \<Rightarrow> call list \<Rightarrow> 's option" where
  "run step s [] = Some s"
| "run step s (c # cs) = Option.bind (step s c) (\<lambda>s'. run step s' cs)"

section \<open>Listeners\<close>

datatype walk = Idle | Fresh | Walk pt pt

record 'a listener =
  l_acc :: 'a
  l_rings :: bool
  l_walk :: walk

subsection \<open>Length\<close>

definition length_edge :: "pt \<Rightarrow> pt \<Rightarrow> real" where
  "length_edge p q = (let l0 = fst p * d3_radians; s0 = sin (snd p * d3_radians); c0 = cos (snd p * d3_radians); s = sin (snd q * d3_radians);
     c = cos (snd q * d3_radians); t = \<bar>fst q * d3_radians - l0\<bar>; ct = cos t
     in js_atan2 (sqrt ((c * sin t) * (c * sin t) + (c0 * s - s0 * c * ct) * (c0 * s - s0 * c * ct))) (s0 * s + c0 * c * ct))"

definition d3_geo_length_step :: "real listener \<Rightarrow> call \<Rightarrow> real listener option" where
  "d3_geo_length_step s c = (case c of
     Point x y \<Rightarrow> Some (case l_walk s of
         Idle \<Rightarrow> s
       | Fresh \<Rightarrow> s\<lparr>l_walk := Walk (x, y) (x, y)\<rparr>
       | Walk f p \<Rightarrow> s\<lparr>l_acc := l_acc s + length_edge p (x, y), l_walk := Walk f (x, y)\<rparr>)
   | LineStart \<Rightarrow> Some (s\<lparr>l_walk := Fresh\<rparr>)
   | LineEnd \<Rightarrow> Some (s\<lparr>l_walk := Idle\<rparr>)
   | _ \<Rightarrow> Some s)"

definition d3_geo_length :: "geo_object \<Rightarrow> real option" where
  "d3_geo_length ob = map_option l_acc (run d3_geo_length_step \<lparr>l_acc = 0, l_rings = False, l_walk = Idle\<rparr> (d3_geo_stream ob))"

subsection \<open>The area on the plane\<close>

text \<open>The accumulator is the sum of the finished polygons and the sum for the polygon in progress.\<close>

definition pathArea_edge :: "real \<times> real \<Rightarrow> pt \<Rightarrow> pt \<Rightarrow> real \<times> real" where
  "pathArea_edge a p q = (fst a, snd a + (snd p * fst q - fst p * snd q))"

definition d3_geo_pathArea :: "(real \<times> real) listener \<Rightarrow> call \<Rightarrow> (real \<times> real) listener option" where
  "d3_geo_pathArea s c = (case c of
     Point x y \<Rightarrow> Some (case l_walk s of
         Idle \<Rightarrow> s
       | Fresh \<Rightarrow> s\<lparr>l_walk := Walk (x, y) (x, y)\<rparr>
       | Walk f p \<Rightarrow> s\<lparr>l_acc := pathArea_edge (l_acc s) p (x, y), l_walk := Walk f (x, y)\<rparr>)
   | LineStart \<Rightarrow> Some (if l_rings s then s\<lparr>l_walk := Fresh\<rparr> else s)
   | LineEnd \<Rightarrow> (case l_walk s of
         Idle \<Rightarrow> Some s
       | Fresh \<Rightarrow> None
       | Walk f p \<Rightarrow> Some (s\<lparr>l_acc := pathArea_edge (l_acc s) p f, l_walk := Walk f f\<rparr>))
   | PolygonStart \<Rightarrow> Some (s\<lparr>l_acc := (fst (l_acc s), 0), l_rings := True\<rparr>)
   | PolygonEnd \<Rightarrow> Some (s\<lparr>l_acc := (fst (l_acc s) + \<bar>snd (l_acc s) / 2\<bar>, snd (l_acc s)), l_rings := False, l_walk := Idle\<rparr>)
   | SphereCall \<Rightarrow> None)"

subsection \<open>The bounds on the plane\<close>

text \<open>Before the first point the bounds are infinite, which is no bounds here.\<close>

definition d3_geo_pathBoundsPoint :: "(real \<times> real \<times> real \<times> real) option \<Rightarrow> pt \<Rightarrow> (real \<times> real \<times> real \<times> real) option" where
  "d3_geo_pathBoundsPoint b p = Some (case b of None \<Rightarrow> (fst p, snd p, fst p, snd p)
     | Some (x0, y0, x1, y1) \<Rightarrow> (if fst p < x0 then fst p else x0, if snd p < y0 then snd p else y0,
                                  if fst p > x1 then fst p else x1, if snd p > y1 then snd p else y1))"

definition d3_geo_pathBounds :: "(real \<times> real \<times> real \<times> real) option \<Rightarrow> call \<Rightarrow> (real \<times> real \<times> real \<times> real) option option" where
  "d3_geo_pathBounds b c = (case c of Point x y \<Rightarrow> Some (d3_geo_pathBoundsPoint b (x, y)) | SphereCall \<Rightarrow> None | _ \<Rightarrow> Some b)"

subsection \<open>The centroid on the plane\<close>

text \<open>The accumulator has the sums for points, for lines and for rings, each two weighted coordinates and their weight.\<close>

type_synonym moments = "(real \<times> real \<times> real) \<times> (real \<times> real \<times> real) \<times> (real \<times> real \<times> real)"

fun d3_geo_pathCentroidPoint :: "moments \<Rightarrow> pt \<Rightarrow> moments" where
  "d3_geo_pathCentroidPoint ((x0, y0, z0), a1, a2) p = ((x0 + fst p, y0 + snd p, z0 + 1), a1, a2)"

fun pathCentroid_line :: "moments \<Rightarrow> pt \<Rightarrow> pt \<Rightarrow> moments" where
  "pathCentroid_line (a0, (x1, y1, z1), a2) p q =
     (let dx = fst q - fst p; dy = snd q - snd p; z = sqrt (dx * dx + dy * dy)
      in d3_geo_pathCentroidPoint (a0, (x1 + z * (fst p + fst q) / 2, y1 + z * (snd p + snd q) / 2, z1 + z), a2) q)"

fun pathCentroid_ring :: "moments \<Rightarrow> pt \<Rightarrow> pt \<Rightarrow> moments" where
  "pathCentroid_ring (a0, (x1, y1, z1), (x2, y2, z2)) p q =
     (let dx = fst q - fst p; dy = snd q - snd p; z = sqrt (dx * dx + dy * dy); w = snd p * fst q - fst p * snd q
      in d3_geo_pathCentroidPoint (a0, (x1 + z * (fst p + fst q) / 2, y1 + z * (snd p + snd q) / 2, z1 + z),
           (x2 + w * (fst p + fst q), y2 + w * (snd p + snd q), z2 + w * 3)) q)"

definition d3_geo_pathCentroid :: "moments listener \<Rightarrow> call \<Rightarrow> moments listener option" where
  "d3_geo_pathCentroid s c = (case c of
     Point x y \<Rightarrow> Some (case l_walk s of
         Idle \<Rightarrow> s\<lparr>l_acc := d3_geo_pathCentroidPoint (l_acc s) (x, y)\<rparr>
       | Fresh \<Rightarrow> s\<lparr>l_acc := d3_geo_pathCentroidPoint (l_acc s) (x, y), l_walk := Walk (x, y) (x, y)\<rparr>
       | Walk f p \<Rightarrow> s\<lparr>l_acc := (if l_rings s then pathCentroid_ring else pathCentroid_line) (l_acc s) p (x, y), l_walk := Walk f (x, y)\<rparr>)
   | LineStart \<Rightarrow> Some (s\<lparr>l_walk := Fresh\<rparr>)
   | LineEnd \<Rightarrow> (if l_rings s then
         (case l_walk s of Idle \<Rightarrow> Some s | Fresh \<Rightarrow> None | Walk f p \<Rightarrow> Some (s\<lparr>l_acc := pathCentroid_ring (l_acc s) p f, l_walk := Walk f f\<rparr>))
       else Some (s\<lparr>l_walk := Idle\<rparr>))
   | PolygonStart \<Rightarrow> Some (s\<lparr>l_rings := True\<rparr>)
   | PolygonEnd \<Rightarrow> Some (s\<lparr>l_rings := False, l_walk := Idle\<rparr>)
   | SphereCall \<Rightarrow> None)"

subsection \<open>Paths as text and as drawings\<close>

datatype slot = AtPoint | AtLineStart | AtLine

record path_stream =
  ps_point :: slot
  ps_polygon :: bool
  ps_radius :: real

definition d3_geo_pathBufferCircle :: "real \<Rightarrow> path" where
  "d3_geo_pathBufferCircle r = [Txt ''m'', Num 0, Txt '','', Num r, Txt ''a'', Num r, Txt '','', Num r, Txt '' '', Num 0, Txt '' '', Num 1, Txt '','', Num 1, Txt '' '', Num 0, Txt '','', Num (- 2 * r),
     Txt ''a'', Num r, Txt '','', Num r, Txt '' '', Num 0, Txt '' '', Num 1, Txt '','', Num 1, Txt '' '', Num 0, Txt '','', Num (2 * r), Txt ''z'']"

definition d3_geo_pathBuffer :: "path_stream \<times> path \<Rightarrow> call \<Rightarrow> (path_stream \<times> path) option" where
  "d3_geo_pathBuffer sb c = (let (s, buffer) = sb in case c of
     Point x y \<Rightarrow> Some (case ps_point s of
         AtPoint \<Rightarrow> (s, buffer @ [Txt ''M'', Num x, Txt '','', Num y] @ d3_geo_pathBufferCircle (ps_radius s))
       | AtLineStart \<Rightarrow> (s\<lparr>ps_point := AtLine\<rparr>, buffer @ [Txt ''M'', Num x, Txt '','', Num y])
       | AtLine \<Rightarrow> (s, buffer @ [Txt ''L'', Num x, Txt '','', Num y]))
   | LineStart \<Rightarrow> Some (s\<lparr>ps_point := AtLineStart\<rparr>, buffer)
   | LineEnd \<Rightarrow> Some (if ps_polygon s then (s, buffer @ [Txt ''Z'']) else (s\<lparr>ps_point := AtPoint\<rparr>, buffer))
   | PolygonStart \<Rightarrow> Some (s\<lparr>ps_polygon := True\<rparr>, buffer)
   | PolygonEnd \<Rightarrow> Some (s\<lparr>ps_polygon := False, ps_point := AtPoint\<rparr>, buffer)
   | SphereCall \<Rightarrow> None)"

definition pathBuffer_result :: "path_stream \<times> path \<Rightarrow> (path_stream \<times> path) \<times> path option" where
  "pathBuffer_result sb = (if snd sb \<noteq> [] then ((fst sb, []), Some (snd sb)) else (sb, None))"

text \<open>The calls on a canvas; an arc has its centre, its radius and its first and last angle.\<close>

datatype drawing = MoveTo pt | LineTo pt | ArcAt pt real real real | ClosePath

definition d3_geo_pathContext :: "path_stream \<times> drawing list \<Rightarrow> call \<Rightarrow> (path_stream \<times> drawing list) option" where
  "d3_geo_pathContext sb c = (let (s, ds) = sb in case c of
     Point x y \<Rightarrow> Some (case ps_point s of
         AtPoint \<Rightarrow> (s, ds @ [MoveTo (x, y), ArcAt (x, y) (ps_radius s) 0 (2 * pi)])
       | AtLineStart \<Rightarrow> (s\<lparr>ps_point := AtLine\<rparr>, ds @ [MoveTo (x, y)])
       | AtLine \<Rightarrow> (s, ds @ [LineTo (x, y)]))
   | LineStart \<Rightarrow> Some (s\<lparr>ps_point := AtLineStart\<rparr>, ds)
   | LineEnd \<Rightarrow> Some (if ps_polygon s then (s, ds @ [ClosePath]) else (s\<lparr>ps_point := AtPoint\<rparr>, ds))
   | PolygonStart \<Rightarrow> Some (s\<lparr>ps_polygon := True\<rparr>, ds)
   | PolygonEnd \<Rightarrow> Some (s\<lparr>ps_polygon := False, ps_point := AtPoint\<rparr>, ds)
   | SphereCall \<Rightarrow> None)"

definition set_pointRadius :: "real \<Rightarrow> path_stream \<times> 'a \<Rightarrow> path_stream \<times> 'a" where
  "set_pointRadius r sb = ((fst sb)\<lparr>ps_radius := r\<rparr>, snd sb)"

subsection \<open>Paths of objects\<close>

text \<open>
  The stream of a projection turns the calls for the sphere into calls for the plane; without a projection the calls stay what they are.
\<close>

type_synonym stream_fun = "call list \<Rightarrow> call list"

definition path_area :: "stream_fun \<Rightarrow> geo_object \<Rightarrow> real option" where
  "path_area projectStream ob =
     map_option (\<lambda>s. fst (l_acc s)) (run d3_geo_pathArea \<lparr>l_acc = (0, 0), l_rings = False, l_walk = Idle\<rparr> (projectStream (d3_geo_stream ob)))"

definition path_bounds :: "stream_fun \<Rightarrow> geo_object \<Rightarrow> (real \<times> real \<times> real \<times> real) option option" where
  "path_bounds projectStream ob = run d3_geo_pathBounds None (projectStream (d3_geo_stream ob))"

fun centroid_of :: "moments \<Rightarrow> pt option" where
  "centroid_of ((x0, y0, z0), (x1, y1, z1), (x2, y2, z2)) =
     (if z2 \<noteq> 0 then Some (x2 / z2, y2 / z2) else if z1 \<noteq> 0 then Some (x1 / z1, y1 / z1) else if z0 \<noteq> 0 then Some (x0 / z0, y0 / z0) else None)"

definition path_centroid :: "stream_fun \<Rightarrow> geo_object \<Rightarrow> pt option" where
  "path_centroid projectStream ob =
     Option.bind (run d3_geo_pathCentroid \<lparr>l_acc = ((0, 0, 0), (0, 0, 0), (0, 0, 0)), l_rings = False, l_walk = Idle\<rparr> (projectStream (d3_geo_stream ob)))
       (\<lambda>s. centroid_of (l_acc s))"

definition path_start :: path_stream where
  "path_start = \<lparr>ps_point = AtPoint, ps_polygon = False, ps_radius = 9 / 2\<rparr>"

definition path_text :: "stream_fun \<Rightarrow> geo_object \<Rightarrow> path option" where
  "path_text projectStream ob = Option.bind (run d3_geo_pathBuffer (path_start, []) (projectStream (d3_geo_stream ob))) (\<lambda>sb. snd (pathBuffer_result sb))"

definition path_drawing :: "stream_fun \<Rightarrow> geo_object \<Rightarrow> drawing list option" where
  "path_drawing projectStream ob = map_option snd (run d3_geo_pathContext (path_start, []) (projectStream (d3_geo_stream ob)))"

section \<open>Streams are well formed\<close>

datatype place = Outside | InLine | InPolygon | InRing

fun grammar :: "place \<Rightarrow> call \<Rightarrow> place option" where
  "grammar Outside (Point x y) = Some Outside"
| "grammar Outside SphereCall = Some Outside"
| "grammar Outside LineStart = Some InLine"
| "grammar InLine (Point x y) = Some InLine"
| "grammar InLine LineEnd = Some Outside"
| "grammar Outside PolygonStart = Some InPolygon"
| "grammar InPolygon LineStart = Some InRing"
| "grammar InRing (Point x y) = Some InRing"
| "grammar InRing LineEnd = Some InPolygon"
| "grammar InPolygon PolygonEnd = Some Outside"
| "grammar p c = None"

lemma run_append [simp]: "run step s (xs @ ys) = Option.bind (run step s xs) (\<lambda>s'. run step s' ys)"
  by (induction xs arbitrary: s) (auto split: bind_splits)

lemma run_concat_fixed: "(\<And>x. x \<in> set xs \<Longrightarrow> run step s x = Some s) \<Longrightarrow> run step s (concat xs) = Some s"
  by (induction xs) auto

lemma run_points_fixed: "(\<And>x y. step s (Point x y) = Some s) \<Longrightarrow> run step s (map point_call ps) = Some s"
  by (induction ps) (auto simp: point_call_def)

lemma grammar_line: "run grammar Outside (d3_geo_streamLine ps n) = Some Outside"
  by (simp add: d3_geo_streamLine_def run_points_fixed)

lemma grammar_polygon: "run grammar Outside (d3_geo_streamPolygon rings) = Some Outside"
proof -
  have "run grammar InPolygon (concat (map (\<lambda>ring. d3_geo_streamLine ring 1) rings)) = Some InPolygon"
    by (rule run_concat_fixed) (auto simp: d3_geo_streamLine_def run_points_fixed)
  thus ?thesis
    by (simp add: d3_geo_streamPolygon_def)
qed

lemma grammar_geometry: "run grammar Outside (d3_geo_streamGeometry g) = Some Outside"
  by (induction g) (auto simp: point_call_def grammar_line grammar_polygon run_points_fixed intro!: run_concat_fixed)

section \<open>Rings\<close>

text \<open>
  What listeners for rings share: the first point of a ring is noted, every further one adds an edge, and the end of the line adds the edge that closes the ring.
\<close>

locale ring_listener =
  fixes step :: "'a listener \<Rightarrow> call \<Rightarrow> 'a listener option"
    and first :: "'a \<Rightarrow> pt \<Rightarrow> 'a"
    and edge :: "'a \<Rightarrow> pt \<Rightarrow> pt \<Rightarrow> 'a"
    and rest :: "pt \<Rightarrow> walk"
  assumes ring_start: "l_rings s \<Longrightarrow> step s LineStart = Some (s\<lparr>l_walk := Fresh\<rparr>)"
    and ring_first: "l_rings s \<Longrightarrow> l_walk s = Fresh \<Longrightarrow> step s (Point x y) = Some (s\<lparr>l_acc := first (l_acc s) (x, y), l_walk := Walk (x, y) (x, y)\<rparr>)"
    and ring_next: "l_rings s \<Longrightarrow> l_walk s = Walk f p \<Longrightarrow> step s (Point x y) = Some (s\<lparr>l_acc := edge (l_acc s) p (x, y), l_walk := Walk f (x, y)\<rparr>)"
    and ring_end: "l_rings s \<Longrightarrow> l_walk s = Walk f p \<Longrightarrow> step s LineEnd = Some (s\<lparr>l_acc := edge (l_acc s) p f, l_walk := rest f\<rparr>)"
begin

definition along :: "'a \<Rightarrow> (pt \<times> pt) list \<Rightarrow> 'a" where
  "along = foldl (\<lambda>a (p, q). edge a p q)"

definition around :: "'a \<Rightarrow> pt list \<Rightarrow> 'a" where
  "around a ps = along (first a (hd ps)) (steps (ps @ [hd ps]))"

lemma along_simps [simp]: "along a [] = a" "along a ((p, q) # es) = along (edge a p q) es" "along a (es @ es') = along (along a es) es'"
  by (simp_all add: along_def)

lemma run_points:
  "l_rings s \<Longrightarrow> l_walk s = Walk f p \<Longrightarrow>
    run step s (map point_call ps) = Some (s\<lparr>l_acc := along (l_acc s) (steps (p # ps)), l_walk := Walk f (last (p # ps))\<rparr>)"
proof (induction ps arbitrary: s p)
  case (Cons q ps)
  let ?s = "s\<lparr>l_acc := edge (l_acc s) p q, l_walk := Walk f q\<rparr>"
  have "step s (point_call q) = Some ?s"
    using Cons.prems by (simp add: point_call_def ring_next)
  moreover have "run step ?s (map point_call ps) = Some (?s\<lparr>l_acc := along (l_acc ?s) (steps (q # ps)), l_walk := Walk f (last (q # ps))\<rparr>)"
    using Cons.prems by (intro Cons.IH) simp_all
  ultimately show ?case
    by simp
qed simp

lemma run_ring:
  assumes "l_rings s" "ps \<noteq> []"
  shows "run step s (LineStart # map point_call ps @ [LineEnd]) = Some (s\<lparr>l_acc := around (l_acc s) ps, l_walk := rest (hd ps)\<rparr>)"
proof -
  obtain p qs where ps: "ps = p # qs"
    using assms(2) by (cases ps) auto
  let ?s = "s\<lparr>l_acc := first (l_acc s) p, l_walk := Walk p p\<rparr>"
  have "run step ?s (map point_call qs) = Some (?s\<lparr>l_acc := along (l_acc ?s) (steps (p # qs)), l_walk := Walk p (last (p # qs))\<rparr>)"
    using assms(1) by (intro run_points) simp_all
  moreover have "steps (p # qs @ [p]) = steps (p # qs) @ [(last (p # qs), p)]"
    using steps_append[of "p # qs" "[p]"] by simp
  ultimately show ?thesis
    using assms(1) by (simp add: ps point_call_def ring_start ring_first ring_end around_def)
qed

lemma run_rings:
  assumes "l_rings s" "\<And>ring. ring \<in> set rings \<Longrightarrow> 2 \<le> length ring"
  shows "\<exists>w. run step s (concat (map (\<lambda>ring. d3_geo_streamLine ring 1) rings)) =
    Some (s\<lparr>l_acc := foldl around (l_acc s) (map butlast rings), l_walk := w\<rparr>)"
  using assms
proof (induction rings arbitrary: s)
  case Nil
  show ?case
    by (rule exI[of _ "l_walk s"]) simp
next
  case (Cons ring rings)
  have "butlast ring \<noteq> []"
    using Cons.prems(2)[of ring] by (cases ring) auto
  let ?s = "s\<lparr>l_acc := around (l_acc s) (butlast ring), l_walk := rest (hd (butlast ring))\<rparr>"
  have "run step s (d3_geo_streamLine ring 1) = Some ?s"
    using run_ring[OF Cons.prems(1) \<open>butlast ring \<noteq> []\<close>] unfolding d3_geo_streamLine_def butlast_conv_take .
  moreover obtain w where "run step ?s (concat (map (\<lambda>ring. d3_geo_streamLine ring 1) rings)) =
    Some (?s\<lparr>l_acc := foldl around (l_acc ?s) (map butlast rings), l_walk := w\<rparr>)"
    using Cons.IH[of ?s] Cons.prems by auto
  ultimately show ?case
    by auto
qed

end

interpretation pa: ring_listener d3_geo_pathArea "\<lambda>a p. a" pathArea_edge "\<lambda>p. Walk p p"
  by unfold_locales (simp_all add: d3_geo_pathArea_def)

interpretation pc: ring_listener d3_geo_pathCentroid d3_geo_pathCentroidPoint pathCentroid_ring "\<lambda>p. Walk p p"
  by unfold_locales (simp_all add: d3_geo_pathCentroid_def)

section \<open>The area and the centroid of polygons\<close>

lemma cycle_steps: "p \<noteq> [] \<Longrightarrow> steps (p @ [hd p]) = edges p"
  by (simp add: edges_steps)

lemma pathArea_along: "pa.along a es = (fst a, snd a + sum_list (map (\<lambda>(p, q). snd p * fst q - fst p * snd q) es))"
  by (induction es arbitrary: a) (auto simp: pathArea_edge_def)

lemma ring_area_sum: "p \<noteq> [] \<Longrightarrow> polygon_area p = sum_list (map (\<lambda>(a, b). snd a * fst b - fst a * snd b) (edges p)) / 2"
  using path_sum[of "\<lambda>a b. snd a * fst b - fst a * snd b" "last p" 0 p]
  by (simp add: polygon_area_def closed_steps)

lemma pathArea_around: "ps \<noteq> [] \<Longrightarrow> pa.around a ps = (fst a, snd a + 2 * polygon_area ps)"
  by (simp add: pa.around_def pathArea_along cycle_steps ring_area_sum)

lemma pathArea_rings:
  "(\<And>ps. ps \<in> set rings \<Longrightarrow> ps \<noteq> []) \<Longrightarrow> foldl pa.around a rings = (fst a, snd a + 2 * sum_list (map polygon_area rings))"
  by (induction rings arbitrary: a) (auto simp: pathArea_around)

lemma butlast_nonempty: "2 \<le> length xs \<Longrightarrow> butlast xs \<noteq> []"
  by (cases xs) auto

lemma pathArea_polygon:
  assumes "\<not> l_rings s" "\<And>ring. ring \<in> set rings \<Longrightarrow> 2 \<le> length ring"
  shows "run d3_geo_pathArea s (d3_geo_streamPolygon rings) = Some (s\<lparr>
    l_acc := (fst (l_acc s) + \<bar>sum_list (map (\<lambda>ring. polygon_area (butlast ring)) rings)\<bar>, 2 * sum_list (map (\<lambda>ring. polygon_area (butlast ring)) rings)),
    l_walk := Idle\<rparr>)"
proof -
  let ?s = "s\<lparr>l_acc := (fst (l_acc s), 0), l_rings := True\<rparr>"
  have ne: "ps \<noteq> []" if "ps \<in> set (map butlast rings)" for ps
    using that assms(2) butlast_nonempty by auto
  obtain w where "run d3_geo_pathArea ?s (concat (map (\<lambda>ring. d3_geo_streamLine ring 1) rings)) =
      Some (?s\<lparr>l_acc := foldl pa.around (l_acc ?s) (map butlast rings), l_walk := w\<rparr>)"
    using pa.run_rings[of ?s rings] assms(2) by auto
  moreover have "foldl pa.around (l_acc ?s) (map butlast rings) = (fst (l_acc s), 2 * sum_list (map (\<lambda>ring. polygon_area (butlast ring)) rings))"
    using ne by (subst pathArea_rings) (auto simp: o_def)
  ultimately show ?thesis
    using assms(1) by (simp add: d3_geo_streamPolygon_def d3_geo_pathArea_def)
qed

lemma pathArea_polygons:
  assumes "\<And>rings ring. rings \<in> set polygons \<Longrightarrow> ring \<in> set rings \<Longrightarrow> 2 \<le> length ring" "\<not> l_rings s"
  shows "\<exists>s'. run d3_geo_pathArea s (concat (map d3_geo_streamPolygon polygons)) = Some s' \<and>
    fst (l_acc s') = fst (l_acc s) + sum_list (map (\<lambda>rings. \<bar>sum_list (map (\<lambda>ring. polygon_area (butlast ring)) rings)\<bar>) polygons)"
  using assms
proof (induction polygons arbitrary: s)
  case (Cons rings polygons)
  let ?A = "sum_list (map (\<lambda>ring. polygon_area (butlast ring)) rings)"
  let ?s = "s\<lparr>l_acc := (fst (l_acc s) + \<bar>?A\<bar>, 2 * ?A), l_walk := Idle\<rparr>"
  have "run d3_geo_pathArea s (d3_geo_streamPolygon rings) = Some ?s"
    using Cons.prems by (intro pathArea_polygon) auto
  moreover obtain s' where "run d3_geo_pathArea ?s (concat (map d3_geo_streamPolygon polygons)) = Some s'"
    "fst (l_acc s') = fst (l_acc ?s) + sum_list (map (\<lambda>rings. \<bar>sum_list (map (\<lambda>ring. polygon_area (butlast ring)) rings)\<bar>) polygons)"
    using Cons.IH[of ?s] Cons.prems by auto
  ultimately show ?case
    by simp
qed simp

lemma pathCentroid_along:
  "snd (snd (pc.along a es)) = (fst (snd (snd a)) + sum_list (map (\<lambda>(p, q). (snd p * fst q - fst p * snd q) * (fst p + fst q)) es),
     fst (snd (snd (snd a))) + sum_list (map (\<lambda>(p, q). (snd p * fst q - fst p * snd q) * (snd p + snd q)) es),
     snd (snd (snd (snd a))) + 3 * sum_list (map (\<lambda>(p, q). snd p * fst q - fst p * snd q) es))"
proof (induction es arbitrary: a)
  case (Cons e es)
  thus ?case
    by (cases a; cases e) (auto simp: Let_def algebra_simps)
qed simp

lemma polygon_centroid_sum:
  assumes "p \<noteq> []" "polygon_area p \<noteq> 0"
  shows "polygon_centroid p = Some (sum_list (map (\<lambda>(p, q). (snd p * fst q - fst p * snd q) * (fst p + fst q)) (edges p)) / (6 * polygon_area p),
    sum_list (map (\<lambda>(p, q). (snd p * fst q - fst p * snd q) * (snd p + snd q)) (edges p)) / (6 * polygon_area p))"
proof -
  let ?f = "\<lambda>a b. (fst a + fst b) * (fst a * snd b - fst b * snd a)" and ?g = "\<lambda>a b. (snd a + snd b) * (fst a * snd b - fst b * snd a)"
  have neg: "sum_list (map (\<lambda>(p, q). (snd p * fst q - fst p * snd q) * h p q) es) = - sum_list (map (\<lambda>(p, q). h p q * (fst p * snd q - fst q * snd p)) es)"
    for h :: "pt \<Rightarrow> pt \<Rightarrow> real" and es
    by (induction es) (auto simp: algebra_simps)
  show ?thesis
    using assms path_sum2[of ?f ?g "last p" 0 0 p]
    by (simp add: polygon_centroid_def polygon_centroid_scaled_def Let_def closed_steps neg[of "\<lambda>p q. fst p + fst q"] neg[of "\<lambda>p q. snd p + snd q"])
qed

lemma pathCentroid_polygon:
  assumes "2 \<le> length ring" "polygon_area (butlast ring) \<noteq> 0"
  shows "path_centroid id (Geometry (Polygon [ring])) = polygon_centroid (butlast ring)"
proof -
  let ?s = "\<lparr>l_acc = ((0, 0, 0), (0, 0, 0), (0, 0, 0)), l_rings = True, l_walk = Idle\<rparr> :: moments listener"
  have ne: "butlast ring \<noteq> []"
    using butlast_nonempty[OF assms(1)] .
  obtain w where "run d3_geo_pathCentroid ?s (concat (map (\<lambda>ring. d3_geo_streamLine ring 1) [ring])) =
      Some (?s\<lparr>l_acc := foldl pc.around (l_acc ?s) (map butlast [ring]), l_walk := w\<rparr>)"
    using pc.run_rings[of ?s "[ring]"] assms(1) by auto
  hence "path_centroid id (Geometry (Polygon [ring])) = centroid_of (pc.around ((0, 0, 0), (0, 0, 0), (0, 0, 0)) (butlast ring))"
    by (simp add: path_centroid_def d3_geo_streamPolygon_def d3_geo_pathCentroid_def)
  moreover have "snd (snd (pc.around ((0, 0, 0), (0, 0, 0), (0, 0, 0)) (butlast ring))) =
    (sum_list (map (\<lambda>(p, q). (snd p * fst q - fst p * snd q) * (fst p + fst q)) (edges (butlast ring))),
     sum_list (map (\<lambda>(p, q). (snd p * fst q - fst p * snd q) * (snd p + snd q)) (edges (butlast ring))), 6 * polygon_area (butlast ring))"
    using ne by (simp add: pc.around_def pathCentroid_along cycle_steps ring_area_sum)
  moreover have "centroid_of a = Some (fst (snd (snd a)) / snd (snd (snd (snd a))), fst (snd (snd (snd a))) / snd (snd (snd (snd a))))"
    if "snd (snd (snd (snd a))) \<noteq> 0" for a :: moments
    using that by (cases a rule: centroid_of.cases) simp
  ultimately show ?thesis
    using polygon_centroid_sum[OF ne assms(2)] assms(2) by simp
qed

section \<open>Length\<close>

lemma length_edge_distance: "length_edge p q = d3_geo_distance p q"
proof -
  define dl where "dl = fst q * d3_radians - fst p * d3_radians"
  have "(c * sin \<bar>dl\<bar>) * (c * sin \<bar>dl\<bar>) = (c * sin dl) * (c * sin dl)" "cos \<bar>dl\<bar> = cos dl" for c
    by (cases "dl < 0"; simp add: abs_if)+
  moreover have "(fst q - fst p) * d3_radians = dl"
    by (simp add: dl_def left_diff_distrib)
  ultimately show ?thesis
    unfolding length_edge_def d3_geo_distance_def Let_def dl_def[symmetric] by presburger
qed

lemma length_points:
  "l_walk s = Walk f p \<Longrightarrow> run d3_geo_length_step s (map point_call ps) =
    Some (s\<lparr>l_acc := l_acc s + sum_list (map (\<lambda>(p, q). d3_geo_distance p q) (steps (p # ps))), l_walk := Walk f (last (p # ps))\<rparr>)"
proof (induction ps arbitrary: s p)
  case (Cons q ps)
  let ?s = "s\<lparr>l_acc := l_acc s + d3_geo_distance p q, l_walk := Walk f q\<rparr>"
  have "d3_geo_length_step s (point_call q) = Some ?s"
    using Cons.prems by (simp add: point_call_def d3_geo_length_step_def length_edge_distance)
  moreover have "run d3_geo_length_step ?s (map point_call ps) =
    Some (?s\<lparr>l_acc := l_acc ?s + sum_list (map (\<lambda>(p, q). d3_geo_distance p q) (steps (q # ps))), l_walk := Walk f (last (q # ps))\<rparr>)"
    by (intro Cons.IH) simp
  ultimately show ?case
    by simp
qed simp

lemma length_line:
  assumes "l_walk s = Idle"
  shows "run d3_geo_length_step s (d3_geo_streamLine ps n) =
    Some (s\<lparr>l_acc := l_acc s + sum_list (map (\<lambda>(p, q). d3_geo_distance p q) (steps (take (length ps - n) ps)))\<rparr>)"
proof (cases "take (length ps - n) ps")
  case Nil
  show ?thesis
    unfolding d3_geo_streamLine_def Nil using assms by (simp add: d3_geo_length_step_def)
next
  case (Cons p qs)
  have "run d3_geo_length_step (s\<lparr>l_walk := Walk p p\<rparr>) (map point_call qs) =
    Some (s\<lparr>l_acc := l_acc s + sum_list (map (\<lambda>(p, q). d3_geo_distance p q) (steps (p # qs))), l_walk := Walk p (last (p # qs))\<rparr>)"
    using length_points[of "s\<lparr>l_walk := Walk p p\<rparr>" p p qs] by simp
  thus ?thesis
    unfolding d3_geo_streamLine_def Cons using assms by (simp add: d3_geo_length_step_def point_call_def)
qed

lemma length_lines:
  "l_walk s = Idle \<Longrightarrow> run d3_geo_length_step s (concat (map (\<lambda>ps. d3_geo_streamLine ps n) lines)) =
    Some (s\<lparr>l_acc := l_acc s + sum_list (map (\<lambda>ps. sum_list (map (\<lambda>(p, q). d3_geo_distance p q) (steps (take (length ps - n) ps)))) lines)\<rparr>)"
  by (induction lines arbitrary: s) (simp_all add: length_line)

section \<open>Text and drawing\<close>

subsection \<open>What is stroked\<close>

text \<open>
  The points that a path strokes, by the rules of the canvas and by those of path data.  A pen has the start of its subpath and its position.
  On a canvas an arc is joined to the position of the pen by a straight line.
\<close>

type_synonym pen_state = "(pt \<times> pt) option"

definition segment_points :: "pt \<Rightarrow> pt \<Rightarrow> pt set" where
  "segment_points p q = {z. \<exists>t. 0 \<le> t \<and> t \<le> 1 \<and> z = (fst p + t * (fst q - fst p), snd p + t * (snd q - snd p))}"

definition circle_points :: "pt \<Rightarrow> real \<Rightarrow> real \<Rightarrow> pt" where
  "circle_points c r a = (fst c + r * cos a, snd c + r * sin a)"

fun canvas_step :: "drawing \<Rightarrow> pen_state \<times> pt set \<Rightarrow> pen_state \<times> pt set" where
  "canvas_step (MoveTo p) (pen, S) = (Some (p, p), S)"
| "canvas_step (LineTo p) (pen, S) = (case pen of None \<Rightarrow> (Some (p, p), S) | Some (s, q) \<Rightarrow> (Some (s, p), S \<union> segment_points q p))"
| "canvas_step (ArcAt c r a b) (pen, S) = (case pen of
     None \<Rightarrow> (Some (circle_points c r a, circle_points c r b), S \<union> circle_points c r ` {a..b})
   | Some (s, q) \<Rightarrow> (Some (s, circle_points c r b), S \<union> segment_points q (circle_points c r a) \<union> circle_points c r ` {a..b}))"
| "canvas_step ClosePath (pen, S) = (case pen of None \<Rightarrow> (None, S) | Some (s, q) \<Rightarrow> (Some (s, s), S \<union> segment_points q s))"

definition canvas_run :: "drawing list \<Rightarrow> pen_state \<times> pt set" where
  "canvas_run ds = fold canvas_step ds (None, {})"

text \<open>
  The arguments of a command are numbers with a separator between any two.  Path data begins with a move.
  The arc command with equal radii draws a part of a circle through both ends: the sweep flag chooses the side of the chord it lies on, and the
  flag for large arcs whether the centre lies on that side too.
\<close>

fun svg_args :: "nat \<Rightarrow> path \<Rightarrow> (real list \<times> path) option" where
  "svg_args 0 ts = Some ([], ts)"
| "svg_args (Suc 0) (Num x # ts) = Some ([x], ts)"
| "svg_args (Suc (Suc n)) (Num x # Txt s # ts) =
     (if s = '','' \<or> s = '' '' then map_option (\<lambda>(xs, r). (x # xs, r)) (svg_args (Suc n) ts) else None)"
| "svg_args _ _ = None"

definition dist2 :: "pt \<Rightarrow> pt \<Rightarrow> real" where
  "dist2 p q = (fst p - fst q) * (fst p - fst q) + (snd p - snd q) * (snd p - snd q)"

definition chord_side :: "pt \<Rightarrow> pt \<Rightarrow> pt \<Rightarrow> real" where
  "chord_side p q z = (fst q - fst p) * (snd z - snd p) - (snd q - snd p) * (fst z - fst p)"

definition arc_stroke :: "pt \<Rightarrow> pt \<Rightarrow> real \<Rightarrow> bool \<Rightarrow> bool \<Rightarrow> pt set" where
  "arc_stroke p q r large side = {z. \<exists>c. dist2 c p = r * r \<and> dist2 c q = r * r \<and> dist2 z c = r * r \<and>
     (if side then chord_side p q z \<le> 0 else chord_side p q z \<ge> 0) \<and>
     (chord_side p q c = 0 \<or> large = (if side then chord_side p q c < 0 else chord_side p q c > 0))}"

definition svg_arity :: "string \<Rightarrow> nat option" where
  "svg_arity c = (if c = ''M'' \<or> c = ''L'' \<or> c = ''m'' then Some 2 else if c = ''a'' then Some 7 else if c = ''Z'' \<or> c = ''z'' then Some 0 else None)"

definition svg_apply :: "string \<Rightarrow> real list \<Rightarrow> pen_state \<times> pt set \<Rightarrow> (pen_state \<times> pt set) option" where
  "svg_apply c xs st = (case fst st of
     None \<Rightarrow> if c = ''M'' \<or> c = ''m'' then Some (Some ((xs ! 0, xs ! 1), (xs ! 0, xs ! 1)), snd st) else None
   | Some (s, q) \<Rightarrow>
       if c = ''M'' then Some (Some ((xs ! 0, xs ! 1), (xs ! 0, xs ! 1)), snd st)
       else if c = ''m'' then Some (Some ((fst q + xs ! 0, snd q + xs ! 1), (fst q + xs ! 0, snd q + xs ! 1)), snd st)
       else if c = ''L'' then Some (Some (s, (xs ! 0, xs ! 1)), snd st \<union> segment_points q (xs ! 0, xs ! 1))
       else if c = ''a'' then
         (let e = (fst q + xs ! 5, snd q + xs ! 6)
          in if xs ! 0 = xs ! 1 then Some (Some (s, e), snd st \<union> arc_stroke q e (xs ! 0) (xs ! 3 \<noteq> 0) (xs ! 4 \<noteq> 0)) else None)
       else Some (Some (s, s), snd st \<union> segment_points q s))"

lemma svg_args_length: "svg_args n ts = Some (xs, r) \<Longrightarrow> length r \<le> length ts"
  by (induction n ts arbitrary: xs r rule: svg_args.induct) (fastforce split: if_splits)+

function svg_run :: "path \<Rightarrow> pen_state \<times> pt set \<Rightarrow> (pen_state \<times> pt set) option" where
  "svg_run [] st = Some st"
| "svg_run (Num x # ts) st = None"
| "svg_run (Txt c # ts) st = (case svg_arity c of
     None \<Rightarrow> None
   | Some n \<Rightarrow> (case svg_args n ts of
       None \<Rightarrow> None
     | Some (xs, r) \<Rightarrow> (case svg_apply c xs st of None \<Rightarrow> None | Some st' \<Rightarrow> svg_run r st')))"
  by pat_completeness auto
termination
  by (relation "measure (\<lambda>(ts, st). length ts)") (auto dest: svg_args_length)

lemma svg_args_append: "svg_args n ts = Some (xs, r) \<Longrightarrow> svg_args n (ts @ us) = Some (xs, r @ us)"
  by (induction n ts arbitrary: xs r rule: svg_args.induct) (auto split: if_splits)

lemma svg_run_append: "svg_run ts st = Some st' \<Longrightarrow> svg_run (ts @ us) st = svg_run us st'"
proof (induction ts st rule: svg_run.induct)
  case (3 c ts st)
  then obtain n xs r st1 where "svg_arity c = Some n" "svg_args n ts = Some (xs, r)" "svg_apply c xs st = Some st1" "svg_run r st1 = Some st'"
    by (auto split: option.splits)
  then show ?case using 3 by (simp add: svg_args_append)
qed auto

subsection \<open>Circles\<close>

lemma segment_sym: "segment_points p q = segment_points q p"
proof -
  have "segment_points p q \<subseteq> segment_points q p" for p q
  proof
    fix z assume "z \<in> segment_points p q"
    then obtain t where "0 \<le> t" "t \<le> 1" "z = (fst p + t * (fst q - fst p), snd p + t * (snd q - snd p))" by (auto simp: segment_points_def)
    then show "z \<in> segment_points q p" unfolding segment_points_def by (intro CollectI exI [of _ "1 - t"]) (simp add: algebra_simps)
  qed
  then show ?thesis by blast
qed

lemma segment_same [simp]: "segment_points p p = {p}"
  by (auto simp: segment_points_def intro: exI [of _ 0])

lemma segment_start: "p \<in> segment_points p q"
  by (auto simp: segment_points_def intro!: exI [of _ 0])

lemma whole_circle: "0 < r \<Longrightarrow> circle_points c r ` {0..2 * pi} = {z. dist2 z c = r * r}"
proof (intro equalityI subsetI)
  fix z assume "z \<in> circle_points c r ` {0..2 * pi}"
  then obtain u v where z: "z = (fst c + r * u, snd c + r * v)" "u * u + v * v = 1"
    by (auto simp: circle_points_def intro: that [OF _ sin_cos_squared_add3])
  have "dist2 z c = r * r * (u * u + v * v)" by (simp add: z(1) dist2_def algebra_simps)
  then show "z \<in> {z. dist2 z c = r * r}" by (simp add: z(2))
next
  fix z assume r: "0 < r" and "z \<in> {z. dist2 z c = r * r}"
  then have "(fst z - fst c)\<^sup>2 + (snd z - snd c)\<^sup>2 = r\<^sup>2" by (simp add: dist2_def power2_eq_square)
  then have "((fst z - fst c) / r)\<^sup>2 + ((snd z - snd c) / r)\<^sup>2 = 1"
    using r by (simp add: power_divide flip: add_divide_distrib)
  then obtain a where "0 \<le> a" "a < 2 * pi" "(fst z - fst c) / r = cos a" "(snd z - snd c) / r = sin a"
    using sincos_total_2pi by metis
  then show "z \<in> circle_points c r ` {0..2 * pi}" using r
    by (intro image_eqI [of _ _ a]) (auto simp: circle_points_def field_simps prod_eq_iff)
qed

lemma half_centre:
  assumes "0 < r" "dist2 c (x, y + r) = r * r" "dist2 c (x, y - r) = r * r"
  shows "c = (x, y)"
proof -
  obtain u v where c: "c = (x + u, y + v)" by (metis add.commute diff_add_cancel surj_pair)
  have "u * u + (v - r) * (v - r) = r * r" "u * u + (v + r) * (v + r) = r * r" using assms(2,3) by (simp_all add: dist2_def c algebra_simps)
  moreover have "(v - r) * (v - r) = v * v - 2 * (v * r) + r * r" "(v + r) * (v + r) = v * v + 2 * (v * r) + r * r" by (simp_all add: algebra_simps)
  ultimately have uv: "u * u + v * v - 2 * (v * r) = 0" "u * u + v * v + 2 * (v * r) = 0" by linarith+
  then have "v * r = 0" by linarith
  then have "v = 0" using assms(1) by simp
  then show ?thesis using uv c by simp
qed

lemma half_circle:
  assumes "0 < r"
  shows "arc_stroke (x, y + r) (x, y - r) r l True = {z. dist2 z (x, y) = r * r \<and> fst z \<le> x}"
    and "arc_stroke (x, y - r) (x, y + r) r l True = {z. dist2 z (x, y) = r * r \<and> x \<le> fst z}"
proof -
  have side: "chord_side (x, y + r) (x, y - r) z \<le> 0 \<longleftrightarrow> fst z \<le> x" "chord_side (x, y - r) (x, y + r) z \<le> 0 \<longleftrightarrow> x \<le> fst z" for z
    using assms by (auto simp: chord_side_def mult_le_0_iff zero_le_mult_iff)
  have centre: "dist2 (x, y) (x, y + r) = r * r" "dist2 (x, y) (x, y - r) = r * r"
    "chord_side (x, y + r) (x, y - r) (x, y) = 0" "chord_side (x, y - r) (x, y + r) (x, y) = 0"
    by (simp_all add: dist2_def chord_side_def)
  have c: "dist2 c (x, y + r) = r * r \<and> dist2 c (x, y - r) = r * r \<longleftrightarrow> c = (x, y)" for c
    using half_centre [OF assms] centre(1,2) by blast
  show "arc_stroke (x, y + r) (x, y - r) r l True = {z. dist2 z (x, y) = r * r \<and> fst z \<le> x}"
    unfolding arc_stroke_def conj_assoc [symmetric] c using centre(3) by (simp add: side(1))
  show "arc_stroke (x, y - r) (x, y + r) r l True = {z. dist2 z (x, y) = r * r \<and> x \<le> fst z}"
    unfolding arc_stroke_def conj_assoc [symmetric] conj_commute [of "dist2 _ (x, y - r) = r * r" "dist2 _ (x, y + r) = r * r"] c
    using centre(4) by (simp add: side(2))
qed

text \<open>The text of a circle strokes the whole circle and leaves the pen at its lowest point.\<close>

lemma circle_text:
  assumes "0 < r"
  shows "svg_run ([Txt ''M'', Num x, Txt '','', Num y] @ d3_geo_pathBufferCircle r) (pen, S) =
    Some (Some ((x, y + r), (x, y + r)), S \<union> {z. dist2 z (x, y) = r * r})"
proof -
  have "y + r + (- 2 * r) = y - r" "y - r + 2 * r = y + r" by simp_all
  moreover have "(x, y + r) \<in> {z. dist2 z (x, y) = r * r}" by (simp add: dist2_def)
  moreover have "{z. dist2 z (x, y) = r * r} = {z. dist2 z (x, y) = r * r \<and> fst z \<le> x} \<union> {z. dist2 z (x, y) = r * r \<and> x \<le> fst z}" by auto
  ultimately show ?thesis
    using half_circle [OF assms, of x y True]
    by (cases pen) (auto simp: d3_geo_pathBufferCircle_def svg_arity_def svg_apply_def numeral_eq_Suc Let_def add.commute [of r y])
qed

subsection \<open>The two renderings side by side\<close>

text \<open>The lines that join the centres of circles to where their arcs begin, which only the canvas strokes.\<close>

definition radii :: "drawing list \<Rightarrow> pt set" where
  "radii ds = (\<Union>d \<in> set ds. case d of ArcAt c r a b \<Rightarrow> segment_points c (circle_points c r a) | _ \<Rightarrow> {})"

lemma radii_simps [simp]:
  "radii [] = {}" "radii (ds @ ds') = radii ds \<union> radii ds'" "radii [MoveTo p] = {}" "radii [LineTo p] = {}" "radii [ClosePath] = {}"
  "radii [MoveTo p, ArcAt c r a b] = segment_points c (circle_points c r a)"
  by (auto simp: radii_def)

text \<open>
  Where the pens are: at the same place, or, after a circle, the one of the text at its lowest point and the one of the canvas at the end or the start of its subpath.
\<close>

definition pens_agree :: "slot \<Rightarrow> drawing list \<Rightarrow> pt set \<Rightarrow> pt \<times> pt \<Rightarrow> pt \<times> pt \<Rightarrow> bool" where
  "pens_agree sl ds S cp sp \<longleftrightarrow> cp = sp \<or> sl \<noteq> AtLine \<and>
     (\<exists>x y r. fst cp = (x, y) \<and> (snd cp = (x, y) \<or> snd cp = (x + r, y)) \<and> sp = ((x, y + r), (x, y + r)) \<and>
        (x, y + r) \<in> S \<and> segment_points (x, y) (x + r, y) \<subseteq> radii ds)"

definition renders :: "path_stream \<Rightarrow> drawing list \<Rightarrow> path \<Rightarrow> bool" where
  "renders s ds txt \<longleftrightarrow> 0 < ps_radius s \<and> (ds = [] \<longleftrightarrow> txt = []) \<and> (ds = [] \<longrightarrow> ps_point s \<noteq> AtLine) \<and>
     (ds \<noteq> [] \<and> hd ds \<noteq> ClosePath \<longrightarrow>
       (\<exists>cp sp S. svg_run txt (None, {}) = Some (Some sp, S) \<and> canvas_run ds = (Some cp, S \<union> radii ds) \<and> pens_agree (ps_point s) ds S cp sp))"

lemma canvas_run_append: "canvas_run (ds @ ds') = fold canvas_step ds' (canvas_run ds)"
  by (simp add: canvas_run_def)

lemma renders_slot: "renders s ds txt \<Longrightarrow> sl \<noteq> AtLine \<Longrightarrow> renders (s\<lparr>ps_point := sl\<rparr>) ds txt"
  unfolding renders_def pens_agree_def by auto

lemma renders_polygon: "renders (s\<lparr>ps_polygon := b\<rparr>) ds txt = renders s ds txt"
  by (simp add: renders_def)

text \<open>A move puts both pens in the same place.\<close>

lemma svg_move: "svg_run [Txt ''M'', Num x, Txt '','', Num y] (pen, S) = Some (Some ((x, y), (x, y)), S)"
  by (cases pen) (auto simp: svg_arity_def svg_apply_def numeral_eq_Suc)

lemma svg_run_start:
  assumes "renders s ds txt" "ds = [] \<or> hd ds \<noteq> ClosePath"
  obtains sp cp S where "svg_run txt (None, {}) = Some (sp, S)" "canvas_run ds = (cp, S \<union> radii ds)"
  using assms by (cases "ds = []") (auto simp: renders_def canvas_run_def)

lemma renders_move:
  assumes "renders s ds txt"
  shows "renders (s\<lparr>ps_point := sl\<rparr>) (ds @ [MoveTo (x, y)]) (txt @ [Txt ''M'', Num x, Txt '','', Num y])"
proof (cases "ds = [] \<or> hd ds \<noteq> ClosePath")
  case True
  with assms obtain sp cp S where "svg_run txt (None, {}) = Some (sp, S)" "canvas_run ds = (cp, S \<union> radii ds)" by (rule svg_run_start)
  then show ?thesis using assms by (simp add: renders_def svg_run_append svg_move canvas_run_append pens_agree_def del: svg_run.simps)
next
  case False
  then show ?thesis using assms by (simp add: renders_def)
qed

lemma renders_circle:
  assumes "renders s ds txt" "r = ps_radius s" "ps_point s \<noteq> AtLine"
  shows "renders s (ds @ [MoveTo (x, y), ArcAt (x, y) r 0 (2 * pi)]) (txt @ [Txt ''M'', Num x, Txt '','', Num y] @ d3_geo_pathBufferCircle r)"
proof (cases "ds = [] \<or> hd ds \<noteq> ClosePath")
  case True
  with assms(1) obtain sp cp S where run: "svg_run txt (None, {}) = Some (sp, S)" "canvas_run ds = (cp, S \<union> radii ds)" by (rule svg_run_start)
  have r: "0 < r" using assms(1,2) by (simp add: renders_def)
  let ?S = "S \<union> {z. dist2 z (x, y) = r * r}" and ?ds = "ds @ [MoveTo (x, y), ArcAt (x, y) r 0 (2 * pi)]"
  have "svg_run (txt @ [Txt ''M'', Num x, Txt '','', Num y] @ d3_geo_pathBufferCircle r) (None, {}) = Some (Some ((x, y + r), (x, y + r)), ?S)"
    using svg_run_append [OF run(1)] circle_text [OF r, of x y sp S] by simp
  moreover have "canvas_run ?ds = (Some ((x, y), (x + r, y)), ?S \<union> radii ?ds)"
    using run(2) whole_circle [OF r, of "(x, y)"] by (auto simp: canvas_run_append circle_points_def)
  moreover have "pens_agree (ps_point s) ?ds ?S ((x, y), (x + r, y)) ((x, y + r), (x, y + r))"
    unfolding pens_agree_def using assms(3) by (intro disjI2 conjI exI [of _ x] exI [of _ y] exI [of _ r]) (auto simp: dist2_def circle_points_def)
  moreover have "hd ?ds \<noteq> ClosePath" using True by (cases ds) auto
  ultimately show ?thesis using r assms(2) by (auto simp: renders_def)
next
  case False
  then show ?thesis using assms by (simp add: renders_def)
qed

lemma renders_line:
  assumes "renders s ds txt" "ps_point s = AtLine"
  shows "renders s (ds @ [LineTo (x, y)]) (txt @ [Txt ''L'', Num x, Txt '','', Num y])"
proof (cases "hd ds \<noteq> ClosePath")
  case True
  have "ds \<noteq> []" using assms by (auto simp: renders_def)
  with True assms obtain a b S where "svg_run txt (None, {}) = Some (Some (a, b), S)" "canvas_run ds = (Some (a, b), S \<union> radii ds)"
    by (auto simp: renders_def pens_agree_def)
  then show ?thesis using assms \<open>ds \<noteq> []\<close>
    by (auto simp: renders_def svg_run_append canvas_run_append svg_arity_def svg_apply_def numeral_eq_Suc pens_agree_def)
next
  case False
  then show ?thesis using assms by (auto simp: renders_def)
qed

lemma renders_close:
  assumes "renders s ds txt"
  shows "renders s (ds @ [ClosePath]) (txt @ [Txt ''Z''])"
proof (cases "ds \<noteq> [] \<and> hd ds \<noteq> ClosePath")
  case True
  with assms obtain cs cq ss sq S where run: "svg_run txt (None, {}) = Some (Some (ss, sq), S)" "canvas_run ds = (Some (cs, cq), S \<union> radii ds)"
    and ag: "pens_agree (ps_point s) ds S (cs, cq) (ss, sq)"
    by (fastforce simp: renders_def)
  have z: "svg_run (txt @ [Txt ''Z'']) (None, {}) = Some (Some (ss, ss), S \<union> segment_points sq ss)"
    "canvas_run (ds @ [ClosePath]) = (Some (cs, cs), S \<union> radii ds \<union> segment_points cq cs)"
    using run by (simp_all add: svg_run_append canvas_run_append svg_arity_def svg_apply_def)
  have "S \<union> radii ds \<union> segment_points cq cs = S \<union> segment_points sq ss \<union> radii (ds @ [ClosePath]) \<and>
      pens_agree (ps_point s) (ds @ [ClosePath]) (S \<union> segment_points sq ss) (cs, cs) (ss, ss)"
  proof (cases "(cs, cq) = (ss, sq)")
    case True
    then show ?thesis by (auto simp: pens_agree_def)
  next
    case False
    then obtain x y r where c: "cs = (x, y)" "cq = (x, y) \<or> cq = (x + r, y)" "ss = (x, y + r)" "sq = (x, y + r)"
      "(x, y + r) \<in> S" "segment_points (x, y) (x + r, y) \<subseteq> radii ds" "ps_point s \<noteq> AtLine"
      using ag by (auto simp: pens_agree_def)
    then have "segment_points cq cs \<subseteq> radii ds" using segment_sym [of cq cs] segment_start [of "(x, y)" "(x + r, y)"] by auto
    then show ?thesis using c by (auto simp: pens_agree_def)
  qed
  then show ?thesis using z assms True by (auto simp: renders_def)
next
  case False
  then show ?thesis using assms by (auto simp: renders_def)
qed

lemma renders_step:
  assumes "renders s ds txt"
  shows "case d3_geo_pathContext (s, ds) c of None \<Rightarrow> d3_geo_pathBuffer (s, txt) c = None
    | Some (s', ds') \<Rightarrow> \<exists>txt'. d3_geo_pathBuffer (s, txt) c = Some (s', txt') \<and> renders s' ds' txt'"
proof (cases c)
  case (Point x y)
  have same: "s\<lparr>ps_point := ps_point s\<rparr> = s" by simp
  show ?thesis
    using assms renders_move [OF assms, of AtLine x y] renders_circle [OF assms refl, of x y] renders_line [OF assms, of x y]
    by (cases "ps_point s") (simp_all add: Point d3_geo_pathContext_def d3_geo_pathBuffer_def)
next
  case LineEnd
  then show ?thesis using assms renders_close [OF assms] renders_slot [OF assms, of AtPoint]
    by (simp add: d3_geo_pathContext_def d3_geo_pathBuffer_def)
next
  case PolygonEnd
  then show ?thesis using renders_slot [OF iffD2 [OF renders_polygon assms], of AtPoint]
    by (simp add: d3_geo_pathContext_def d3_geo_pathBuffer_def)
qed (use assms renders_slot [OF assms, of AtLineStart] in \<open>simp_all add: d3_geo_pathContext_def d3_geo_pathBuffer_def renders_polygon\<close>)

lemma renders_run:
  "renders s ds tx \<Longrightarrow> case run d3_geo_pathContext (s, ds) cs of None \<Rightarrow> run d3_geo_pathBuffer (s, tx) cs = None
    | Some (s', ds') \<Rightarrow> \<exists>tx'. run d3_geo_pathBuffer (s, tx) cs = Some (s', tx') \<and> renders s' ds' tx'"
proof (induction cs arbitrary: s ds tx)
  case (Cons c cs)
  show ?case
  proof (cases "d3_geo_pathContext (s, ds) c")
    case None
    then show ?thesis using renders_step [OF Cons.prems, of c] by simp
  next
    case (Some sd)
    then obtain tx' where "d3_geo_pathBuffer (s, tx) c = Some (fst sd, tx')" "renders (fst sd) (snd sd) tx'"
      using renders_step [OF Cons.prems, of c] by (auto simp: case_prod_unfold)
    then show ?thesis using Cons.IH [of "fst sd" "snd sd" tx'] Some by (auto cong: option.case_cong)
  qed
qed simp



text \<open>
  (C18) The text of a path strokes what a canvas strokes.  For every projection and object, the path data is absent exactly when nothing is drawn on the canvas (or the stream throws).
  Otherwise, unless the first ring is empty, it is path data that begins with a move and has the separated arguments of every command, and the points it strokes, by the
  rules of path data, together with the radii from the centres of point circles to where their arcs begin are the points the canvas strokes, by the rules of the canvas.
\<close>

theorem path_text_is_drawing:
  "case path_drawing projectStream ob of
     None \<Rightarrow> path_text projectStream ob = None
   | Some [] \<Rightarrow> path_text projectStream ob = None
   | Some (d # ds) \<Rightarrow> \<exists>txt. path_text projectStream ob = Some txt \<and>
       (d \<noteq> ClosePath \<longrightarrow> (\<exists>pen S. svg_run txt (None, {}) = Some (pen, S) \<and> snd (canvas_run (d # ds)) = S \<union> radii (d # ds)))"
proof -
  have "renders path_start [] []" by (simp add: renders_def path_start_def)
  from renders_run [OF this, of "projectStream (d3_geo_stream ob)"] show ?thesis
    by (cases "run d3_geo_pathContext (path_start, []) (projectStream (d3_geo_stream ob))")
      (fastforce simp: path_drawing_def path_text_def pathBuffer_result_def renders_def split: list.splits)+
qed

theorem path_text_is_drawing_witness:
  "\<exists>txt pen S. path_text id (Geometry (PointAt (1, 2))) = Some txt \<and> svg_run txt (None, {}) = Some (pen, S) \<and>
    snd (canvas_run [MoveTo (1, 2), ArcAt (1, 2) (9 / 2) 0 (2 * pi)]) = S \<union> radii [MoveTo (1, 2), ArcAt (1, 2) (9 / 2) 0 (2 * pi)]"
proof -
  have "path_drawing id (Geometry (PointAt (1, 2))) = Some [MoveTo (1, 2), ArcAt (1, 2) (9 / 2) 0 (2 * pi)]"
    by (simp add: path_drawing_def d3_geo_pathContext_def path_start_def point_call_def)
  then show ?thesis using path_text_is_drawing [of id "Geometry (PointAt (1, 2))"] by auto
qed

text \<open>
  Lengths.  The length of lines is the sum of the distances along them; that of a polygon is the length of its rings
  without the edges that close them, because rings are streamed without their last point.
\<close>

theorem geo_length_sums:
  "d3_geo_length (Geometry (MultiLineString lines)) =
      Some (sum_list (map (\<lambda>ps. sum_list (map (\<lambda>(p, q). d3_geo_distance p q) (steps ps))) lines))
    \<and> d3_geo_length (Geometry (Polygon rings)) =
      Some (sum_list (map (\<lambda>ps. sum_list (map (\<lambda>(p, q). d3_geo_distance p q) (steps (butlast ps)))) rings))"
  using length_lines[of "\<lparr>l_acc = 0, l_rings = False, l_walk = Idle\<rparr>" 0 lines] length_lines[of "\<lparr>l_acc = 0, l_rings = False, l_walk = Idle\<rparr>" 1 rings]
  by (simp add: d3_geo_length_def d3_geo_streamPolygon_def butlast_conv_take) (simp add: d3_geo_length_step_def)

end
