(* ===== verification/D3_Resample.thy ===== *)
theory D3_Resample
  imports D3_Stream "HOL-Library.Sublist"
begin

text \<open>
  Adaptive resampling of projected lines (\<open>d3.js\<close> lines 4028 to 4105, 4153 to 4160, 4193 to 4213 and 4292 to 4296).

  A stream that wraps another one is a state with a step that gives the calls on the wrapped stream.  The projection is a function from
  angles to finite coordinates.  A coordinate that is no number, before the first point of a line, is an absent vertex.  Between opposite points the middle of
  the arc has no numbers and the result is absent.
\<close>

section \<open>The vertices of a line\<close>

record vertex =
  v_x :: real
  v_y :: real
  v_lambda :: real
  v_vec :: vec3

definition vertex_at :: "(real \<Rightarrow> real \<Rightarrow> pt) \<Rightarrow> real \<Rightarrow> real \<Rightarrow> vertex" where
  "vertex_at project l p = \<lparr>v_x = fst (project l p), v_y = snd (project l p), v_lambda = l, v_vec = d3_geo_cartesian (l, p)\<rparr>"

definition chord2 :: "vertex \<Rightarrow> vertex \<Rightarrow> real" where
  "chord2 v0 v1 = (v_x v1 - v_x v0) * (v_x v1 - v_x v0) + (v_y v1 - v_y v0) * (v_y v1 - v_y v0)"

definition arc_middle :: "(real \<Rightarrow> real \<Rightarrow> pt) \<Rightarrow> vertex \<Rightarrow> vertex \<Rightarrow> vertex option" where
  "arc_middle project v0 v1 =
     (let (a, b, c) = d3_geo_cartesianAdd (v_vec v0) (v_vec v1); m = sqrt (a * a + b * b + c * c)
      in if m = 0 then None
         else let c' = c / m; p2 = arcsin c';
                  l2 = (if \<bar>\<bar>c'\<bar> - 1\<bar> < 1 / 1000000 \<or> \<bar>v_lambda v0 - v_lambda v1\<bar> < 1 / 1000000 then (v_lambda v0 + v_lambda v1) / 2 else js_atan2 b a);
                  p = project l2 p2
              in Some \<lparr>v_x = fst p, v_y = snd p, v_lambda = l2, v_vec = (a / m, b / m, c')\<rparr>)"

text \<open>Whether the middle is too far from the chord, too far from its middle, or the arc longer than thirty degrees.\<close>

definition bends :: "real \<Rightarrow> vertex \<Rightarrow> vertex \<Rightarrow> vertex \<Rightarrow> bool" where
  "bends \<delta>2 v0 v2 v1 = (let dx = v_x v1 - v_x v0; dy = v_y v1 - v_y v0; d2 = chord2 v0 v1; dx2 = v_x v2 - v_x v0; dy2 = v_y v2 - v_y v0; dz = dy * dx2 - dx * dy2
     in dz * dz / d2 > \<delta>2 \<or> \<bar>(dx * dx2 + dy * dy2) / d2 - 1 / 2\<bar> > 3 / 10 \<or> d3_geo_cartesianDot (v_vec v0) (v_vec v1) < cos (30 * d3_radians))"

fun resampleLineTo :: "(real \<Rightarrow> real \<Rightarrow> pt) \<Rightarrow> real \<Rightarrow> vertex \<Rightarrow> vertex \<Rightarrow> nat \<Rightarrow> vertex list option" where
  "resampleLineTo project \<delta>2 v0 v1 0 = Some []"
| "resampleLineTo project \<delta>2 v0 v1 (Suc depth) =
     (if chord2 v0 v1 > 4 * \<delta>2 then
        (case arc_middle project v0 v1 of
           None \<Rightarrow> None
         | Some v2 \<Rightarrow>
             if bends \<delta>2 v0 v2 v1 then
               (case resampleLineTo project \<delta>2 v0 v2 depth of
                  None \<Rightarrow> None
                | Some left \<Rightarrow> map_option (\<lambda>right. left @ v2 # right) (resampleLineTo project \<delta>2 v2 v1 depth))
             else Some [])
      else Some [])"

section \<open>The stream\<close>

datatype resample_point = RPoint | RLine | RRing

record resample =
  rs_point :: resample_point
  rs_rings :: bool
  rs_ring_end :: bool
  rs_v00 :: "vertex option"
  rs_v0 :: "vertex option"

record precision =
  pr_delta2 :: real
  pr_maxDepth :: nat

definition d3_geo_resample :: precision where
  "d3_geo_resample = \<lparr>pr_delta2 = 1 / 2, pr_maxDepth = 16\<rparr>"

definition resample_precision :: "real \<Rightarrow> precision" where
  "resample_precision p = \<lparr>pr_delta2 = p * p, pr_maxDepth = (if p * p > 0 then 16 else 0)\<rparr>"

definition vertex_call :: "vertex \<Rightarrow> call" where
  "vertex_call v = Point (v_x v) (v_y v)"

definition resample_to :: "(real \<Rightarrow> real \<Rightarrow> pt) \<Rightarrow> precision \<Rightarrow> vertex option \<Rightarrow> vertex \<Rightarrow> call list option" where
  "resample_to project pr v0 v1 = (case v0 of None \<Rightarrow> Some [] | Some v \<Rightarrow> map_option (map vertex_call) (resampleLineTo project (pr_delta2 pr) v v1 (pr_maxDepth pr)))"

definition linePoint :: "(real \<Rightarrow> real \<Rightarrow> pt) \<Rightarrow> precision \<Rightarrow> real \<Rightarrow> real \<Rightarrow> resample \<Rightarrow> (resample \<times> call list) option" where
  "linePoint project pr l p s = (let v = vertex_at project l p
     in map_option (\<lambda>cs. (s\<lparr>rs_v0 := Some v\<rparr>, cs @ [vertex_call v])) (resample_to project pr (rs_v0 s) v))"

definition resampleRecursive :: "(real \<Rightarrow> real \<Rightarrow> pt) \<Rightarrow> precision \<Rightarrow> resample \<Rightarrow> call \<Rightarrow> (resample \<times> call list) option" where
  "resampleRecursive project pr s c = (case c of
     Point l p \<Rightarrow> (case rs_point s of
         RPoint \<Rightarrow> Some (s, [point_call (project l p)])
       | RLine \<Rightarrow> linePoint project pr l p s
       | RRing \<Rightarrow> map_option (\<lambda>(s', cs). (s'\<lparr>rs_v00 := rs_v0 s', rs_point := RLine\<rparr>, cs)) (linePoint project pr l p s))
   | LineStart \<Rightarrow> Some (if rs_rings s then s\<lparr>rs_v0 := None, rs_point := RRing, rs_ring_end := True\<rparr> else s\<lparr>rs_v0 := None, rs_point := RLine\<rparr>, [LineStart])
   | LineEnd \<Rightarrow>
       (if rs_ring_end s then
          map_option (\<lambda>cs. (s\<lparr>rs_ring_end := False, rs_point := RPoint\<rparr>, cs @ [LineEnd]))
            (case rs_v00 s of None \<Rightarrow> Some [] | Some v00 \<Rightarrow> resample_to project pr (rs_v0 s) v00)
        else Some (s\<lparr>rs_point := RPoint\<rparr>, [LineEnd]))
   | PolygonStart \<Rightarrow> Some (s\<lparr>rs_rings := True\<rparr>, [PolygonStart])
   | PolygonEnd \<Rightarrow> Some (s\<lparr>rs_rings := False\<rparr>, [PolygonEnd])
   | SphereCall \<Rightarrow> None)"

definition resample_start :: resample where
  "resample_start = \<lparr>rs_point = RPoint, rs_rings = False, rs_ring_end = False, rs_v00 = None, rs_v0 = None\<rparr>"

fun pipe :: "('s \<Rightarrow> call \<Rightarrow> ('s \<times> call list) option) \<Rightarrow> 's \<Rightarrow> call list \<Rightarrow> call list option" where
  "pipe step s [] = Some []"
| "pipe step s (c # cs) = Option.bind (step s c) (\<lambda>(s', out). map_option ((@) out) (pipe step s' cs))"

definition d3_geo_transformPoint :: "(real \<Rightarrow> real \<Rightarrow> call) \<Rightarrow> call list \<Rightarrow> call list" where
  "d3_geo_transformPoint f = map (\<lambda>c. case c of Point x y \<Rightarrow> f x y | _ \<Rightarrow> c)"

definition d3_geo_projectionRadians :: "call list \<Rightarrow> call list" where
  "d3_geo_projectionRadians = d3_geo_transformPoint (\<lambda>x y. Point (x * d3_radians) (y * d3_radians))"

definition resampleNone :: "(real \<Rightarrow> real \<Rightarrow> pt) \<Rightarrow> call list \<Rightarrow> call list" where
  "resampleNone project = d3_geo_transformPoint (\<lambda>x y. point_call (project x y))"

definition resample_calls :: "(real \<Rightarrow> real \<Rightarrow> pt) \<Rightarrow> precision \<Rightarrow> call list \<Rightarrow> call list option" where
  "resample_calls project pr cs = (if pr_maxDepth pr \<noteq> 0 then pipe (resampleRecursive project pr) resample_start cs else Some (resampleNone project cs))"

definition d3_geo_pathProjectStream :: "(pt \<Rightarrow> pt) \<Rightarrow> call list \<Rightarrow> call list option" where
  "d3_geo_pathProjectStream project cs =
     resample_calls (\<lambda>x y. project (x * d3_degrees, y * d3_degrees)) d3_geo_resample (d3_geo_projectionRadians cs)"

section \<open>Subdivided arcs\<close>

definition unit3 :: "vec3 \<Rightarrow> bool" where
  "unit3 u \<longleftrightarrow> d3_geo_cartesianDot u u = 1"

lemma dot_sum:
  "d3_geo_cartesianDot (d3_geo_cartesianAdd u v) (d3_geo_cartesianAdd u v)
    = d3_geo_cartesianDot u u + d3_geo_cartesianDot v v + 2 * d3_geo_cartesianDot u v"
  "d3_geo_cartesianDot u (d3_geo_cartesianAdd u v) = d3_geo_cartesianDot u u + d3_geo_cartesianDot u v"
  "d3_geo_cartesianDot v (d3_geo_cartesianAdd u v) = d3_geo_cartesianDot u v + d3_geo_cartesianDot v v"
  "d3_geo_cartesianDot v u = d3_geo_cartesianDot u v"
  by (cases u; cases v; simp add: algebra_simps)+

text \<open>Between unit vectors that are not opposite the middle exists, is a unit vector, and is less than a right angle from both.\<close>

lemma arc_middle_exists:
  assumes "unit3 (v_vec v0)" "unit3 (v_vec v1)" "- 1 < d3_geo_cartesianDot (v_vec v0) (v_vec v1)"
  shows "\<exists>v2. arc_middle project v0 v1 = Some v2 \<and> unit3 (v_vec v2) \<and> 0 < d3_geo_cartesianDot (v_vec v0) (v_vec v2) \<and> 0 < d3_geo_cartesianDot (v_vec v2) (v_vec v1)"
proof -
  obtain a b c where w: "d3_geo_cartesianAdd (v_vec v0) (v_vec v1) = (a, b, c)"
    by (cases "d3_geo_cartesianAdd (v_vec v0) (v_vec v1)")
  let ?d = "d3_geo_cartesianDot (v_vec v0) (v_vec v1)"
  define m where "m = sqrt (a * a + b * b + c * c)"
  have sq: "a * a + b * b + c * c = 2 + 2 * ?d"
    using dot_sum(1)[of "v_vec v0" "v_vec v1"] assms(1,2) by (simp add: w unit3_def)
  have m: "0 < m" "m * m = a * a + b * b + c * c"
    using assms(3) by (simp_all add: m_def sq)
  have scale: "d3_geo_cartesianDot u (a / m, b / m, c / m) = d3_geo_cartesianDot u (a, b, c) / m" for u
    by (cases u) (simp add: add_divide_distrib)
  have "unit3 (a / m, b / m, c / m)"
    using m sq assms(3) by (simp add: unit3_def flip: add_divide_distrib)
  moreover have "0 < d3_geo_cartesianDot (v_vec v0) (a / m, b / m, c / m)" "0 < d3_geo_cartesianDot (v_vec v1) (a / m, b / m, c / m)"
    unfolding scale w[symmetric] dot_sum(2,3) using assms m(1) by (simp_all add: unit3_def)
  ultimately show ?thesis
    using m(1) dot_sum(4) unfolding arc_middle_def w Let_def prod.case m_def[symmetric] by auto
qed

lemma resampleLineTo_total:
  "unit3 (v_vec v0) \<Longrightarrow> unit3 (v_vec v1) \<Longrightarrow> - 1 < d3_geo_cartesianDot (v_vec v0) (v_vec v1) \<Longrightarrow> \<exists>vs. resampleLineTo project \<delta>2 v0 v1 depth = Some vs"
proof (induction depth arbitrary: v0 v1)
  case (Suc depth)
  obtain v2 where v2: "arc_middle project v0 v1 = Some v2" "unit3 (v_vec v2)" "0 < d3_geo_cartesianDot (v_vec v0) (v_vec v2)" "0 < d3_geo_cartesianDot (v_vec v2) (v_vec v1)"
    using arc_middle_exists[OF Suc.prems] by blast
  obtain left right where "resampleLineTo project \<delta>2 v0 v2 depth = Some left" "resampleLineTo project \<delta>2 v2 v1 depth = Some right"
    using Suc.IH[of v0 v2] Suc.IH[of v2 v1] Suc.prems v2 by auto
  thus ?case
    by (simp add: v2(1))
qed simp

lemma resampleLineTo_bound: "resampleLineTo project \<delta>2 v0 v1 depth = Some vs \<Longrightarrow> length vs < 2 ^ depth"
proof (induction depth arbitrary: v0 v1 vs)
  case (Suc depth)
  thus ?case
    by (fastforce split: if_splits option.splits dest!: Suc.IH)
qed simp

definition settled :: "(real \<Rightarrow> real \<Rightarrow> pt) \<Rightarrow> real \<Rightarrow> vertex \<Rightarrow> vertex \<Rightarrow> bool" where
  "settled project \<delta>2 v0 v1 \<longleftrightarrow> chord2 v0 v1 \<le> 4 * \<delta>2 \<or> (\<exists>v2. arc_middle project v0 v1 = Some v2 \<and> \<not> bends \<delta>2 v0 v2 v1)"

lemma resampleLineTo_grows:
  "resampleLineTo project \<delta>2 v0 v1 depth = Some vs \<Longrightarrow> resampleLineTo project \<delta>2 v0 v1 (Suc depth) = Some vs' \<Longrightarrow> length vs \<le> length vs'"
proof (induction depth arbitrary: v0 v1 vs vs')
  case (Suc depth)
  show ?case
  proof (cases "chord2 v0 v1 > 4 * \<delta>2 \<and> (\<exists>v2. arc_middle project v0 v1 = Some v2 \<and> bends \<delta>2 v0 v2 v1)")
    case True
    then obtain v2 where v2: "arc_middle project v0 v1 = Some v2" "bends \<delta>2 v0 v2 v1"
      by blast
    have c: "chord2 v0 v1 > 4 * \<delta>2"
      using True by blast
    obtain l r where lr: "resampleLineTo project \<delta>2 v0 v2 depth = Some l" "resampleLineTo project \<delta>2 v2 v1 depth = Some r" "vs = l @ v2 # r"
      using Suc.prems(1) c v2 by (auto split: option.splits)
    obtain l' r' where "resampleLineTo project \<delta>2 v0 v2 (Suc depth) = Some l'" "resampleLineTo project \<delta>2 v2 v1 (Suc depth) = Some r'" "vs' = l' @ v2 # r'"
      using Suc.prems(2) c v2 unfolding resampleLineTo.simps(2)[of _ _ _ _ "Suc depth"] by (auto split: option.splits)
    thus ?thesis
      using Suc.IH[OF lr(1)] Suc.IH[OF lr(2)] lr(3) by fastforce
  next
    case False
    thus ?thesis
      using Suc.prems by (auto split: if_splits option.splits)
  qed
qed simp

lemma resampleLineTo_settled:
  "resampleLineTo project \<delta>2 v0 v1 depth = Some vs \<Longrightarrow> resampleLineTo project \<delta>2 v0 v1 (Suc depth) = Some vs \<Longrightarrow>
    (u, w) \<in> set (steps (v0 # vs @ [v1])) \<Longrightarrow> settled project \<delta>2 u w"
proof (induction depth arbitrary: v0 v1 vs)
  case 0
  thus ?case
    by (auto simp: settled_def split: if_splits option.splits)
next
  case (Suc depth)
  show ?case
  proof (cases "chord2 v0 v1 > 4 * \<delta>2 \<and> (\<exists>v2. arc_middle project v0 v1 = Some v2 \<and> bends \<delta>2 v0 v2 v1)")
    case True
    then obtain v2 where v2: "arc_middle project v0 v1 = Some v2" "bends \<delta>2 v0 v2 v1" and c: "chord2 v0 v1 > 4 * \<delta>2"
      by blast
    obtain l r where lr: "resampleLineTo project \<delta>2 v0 v2 depth = Some l" "resampleLineTo project \<delta>2 v2 v1 depth = Some r" "vs = l @ v2 # r"
      using Suc.prems(1) c v2 by (auto split: option.splits)
    obtain l' r' where lr': "resampleLineTo project \<delta>2 v0 v2 (Suc depth) = Some l'" "resampleLineTo project \<delta>2 v2 v1 (Suc depth) = Some r'" "vs = l' @ v2 # r'"
      using Suc.prems(2) c v2 unfolding resampleLineTo.simps(2)[of _ _ _ _ "Suc depth"] by (auto split: option.splits)
    have "length l \<le> length l'" "length r \<le> length r'"
      using resampleLineTo_grows lr lr' by blast+
    moreover have "length l + length r = length l' + length r'"
      using arg_cong[OF lr(3), of length] arg_cong[OF lr'(3), of length] by simp
    ultimately have "length l = length l'"
      by linarith
    hence same: "l' = l" "r' = r"
      using lr(3) lr'(3) by auto
    have "steps (v0 # vs @ [v1]) = steps (v0 # l @ [v2]) @ steps (v2 # r @ [v1])"
      using steps_append[of "v0 # l @ [v2]" "r @ [v1]"] by (simp add: lr(3))
    thus ?thesis
      using Suc.IH[OF lr(1)] Suc.IH[OF lr(2)] lr' same Suc.prems(3) by auto
  next
    case False
    hence "settled project \<delta>2 v0 v1 \<and> vs = []"
      using Suc.prems(1) by (auto simp: settled_def split: if_splits option.splits)
    thus ?thesis
      using Suc.prems(3) by simp
  qed
qed

section \<open>The stream keeps its form and its points\<close>

fun shape :: "place \<Rightarrow> resample \<Rightarrow> bool" where
  "shape Outside s \<longleftrightarrow> rs_point s = RPoint \<and> \<not> rs_rings s \<and> \<not> rs_ring_end s"
| "shape InLine s \<longleftrightarrow> rs_point s = RLine \<and> \<not> rs_rings s \<and> \<not> rs_ring_end s"
| "shape InPolygon s \<longleftrightarrow> rs_point s = RPoint \<and> rs_rings s \<and> \<not> rs_ring_end s"
| "shape InRing s \<longleftrightarrow> rs_point s \<noteq> RPoint \<and> rs_rings s \<and> rs_ring_end s"

lemma grammar_vertices: "p \<noteq> InPolygon \<Longrightarrow> run grammar p (map vertex_call vs) = Some p"
  by (cases p; induction vs) (auto simp: vertex_call_def)

lemma resample_to_grammar:
  "resample_to project pr v0 v1 = Some out \<Longrightarrow> p \<noteq> InPolygon \<Longrightarrow> run grammar p out = Some p"
  by (auto simp: resample_to_def grammar_vertices split: option.splits)

lemma resample_step_grammar:
  assumes "shape p s" "grammar p c = Some p'" "resampleRecursive project pr s c = Some (s', out)"
  shows "shape p' s' \<and> run grammar p out = Some p' \<and> (\<exists>cs. out = cs @ resampleNone project [c])"
  using assms(2,1,3)
proof (cases rule: grammar.cases[of "(p, c)"])
  case (4 x y)
  thus ?thesis
    using assms by (auto simp: resampleRecursive_def linePoint_def Let_def resample_to_grammar vertex_call_def point_call_def vertex_at_def
        resampleNone_def d3_geo_transformPoint_def)
next
  case (8 x y)
  thus ?thesis
    using assms by (auto simp: resampleRecursive_def linePoint_def Let_def resample_to_grammar vertex_call_def point_call_def vertex_at_def
        resampleNone_def d3_geo_transformPoint_def split: resample_point.splits)
next
  case 9
  thus ?thesis
    using assms by (auto simp: resampleRecursive_def resample_to_grammar resampleNone_def d3_geo_transformPoint_def split: option.splits)
qed (auto simp: resampleRecursive_def point_call_def resampleNone_def d3_geo_transformPoint_def)

lemma resampleNone_Cons: "resampleNone project (c # cs) = resampleNone project [c] @ resampleNone project cs"
  by (simp add: resampleNone_def d3_geo_transformPoint_def)

lemma pipe_grammar:
  "shape p s \<Longrightarrow> run grammar p cs = Some p' \<Longrightarrow> pipe (resampleRecursive project pr) s cs = Some out \<Longrightarrow>
    run grammar p out = Some p' \<and> subseq (resampleNone project cs) out"
proof (induction cs arbitrary: p s out)
  case (Cons c cs)
  obtain p1 where p1: "grammar p c = Some p1" "run grammar p1 cs = Some p'"
    using Cons.prems(2) by (auto simp: bind_eq_Some_conv)
  obtain s1 o1 o2 where s1: "resampleRecursive project pr s c = Some (s1, o1)" "pipe (resampleRecursive project pr) s1 cs = Some o2" "out = o1 @ o2"
    using Cons.prems(3) by (auto simp: bind_eq_Some_conv)
  note step = resample_step_grammar[OF Cons.prems(1) p1(1) s1(1)]
  hence "subseq (resampleNone project [c]) o1"
    by (auto intro: list_emb_append2)
  moreover have "run grammar p1 o2 = Some p'" "subseq (resampleNone project cs) o2"
    using Cons.IH[OF _ p1(2) s1(2)] step by blast+
  ultimately show ?case
    unfolding s1(3) resampleNone_Cons[of project c cs] using step by (simp add: list_emb_append_mono)
qed (simp add: resampleNone_def d3_geo_transformPoint_def)

text \<open>Each call gives at most \<open>2 ^ 16\<close> calls; the points of the stream bound what the middles can be taken of.\<close>

lemma resample_to_bound: "resample_to project pr v0 v1 = Some out \<Longrightarrow> length out < 2 ^ pr_maxDepth pr"
  by (auto simp: resample_to_def dest: resampleLineTo_bound split: option.splits)

lemma resample_step_bound:
  "resampleRecursive project pr s c = Some (s', out) \<Longrightarrow> length out \<le> 2 ^ pr_maxDepth pr"
  by (cases c) (auto simp: resampleRecursive_def linePoint_def Let_def Suc_le_eq resample_to_bound split: resample_point.splits if_splits option.splits)

lemma pipe_bound:
  "pipe (resampleRecursive project pr) s cs = Some out \<Longrightarrow> length out \<le> 2 ^ pr_maxDepth pr * length cs"
proof (induction cs arbitrary: s out)
  case (Cons c cs)
  obtain s1 o1 o2 where s1: "resampleRecursive project pr s c = Some (s1, o1)" "pipe (resampleRecursive project pr) s1 cs = Some o2" "out = o1 @ o2"
    using Cons.prems by (auto simp: bind_eq_Some_conv)
  show ?case
    using resample_step_bound[OF s1(1)] Cons.IH[OF s1(2)] by (simp add: s1(3))
qed simp

section \<open>The stream has a result\<close>

definition no_opposites :: "pt set \<Rightarrow> bool" where
  "no_opposites P \<longleftrightarrow> (\<forall>p \<in> P. \<forall>q \<in> P. - 1 < d3_geo_cartesianDot (d3_geo_cartesian p) (d3_geo_cartesian q))"

definition call_points :: "call list \<Rightarrow> pt set" where
  "call_points cs = {(x, y). Point x y \<in> set cs}"

definition vertex_in :: "(real \<Rightarrow> real \<Rightarrow> pt) \<Rightarrow> pt set \<Rightarrow> vertex option \<Rightarrow> bool" where
  "vertex_in project P v \<longleftrightarrow> (\<forall>w. v = Some w \<longrightarrow> (\<exists>(l, p) \<in> P. w = vertex_at project l p))"

lemma unit3_cartesian: "unit3 (d3_geo_cartesian p)"
  by (simp add: unit3_def cartesian_unit)

lemma vertex_in_simps [simp]: "vertex_in project P None" "(l, p) \<in> P \<Longrightarrow> vertex_in project P (Some (vertex_at project l p))"
  by (auto simp: vertex_in_def)

lemma resample_to_total:
  assumes "no_opposites P" "vertex_in project P v0" "(l, p) \<in> P"
  shows "\<exists>out. resample_to project pr v0 (vertex_at project l p) = Some out"
proof (cases v0)
  case (Some w)
  then obtain l' p' where w: "(l', p') \<in> P" "w = vertex_at project l' p'"
    using assms(2) by (auto simp: vertex_in_def)
  have "\<exists>vs. resampleLineTo project (pr_delta2 pr) w (vertex_at project l p) (pr_maxDepth pr) = Some vs"
    using assms(1,3) w by (intro resampleLineTo_total) (auto simp: vertex_at_def unit3_cartesian no_opposites_def)
  thus ?thesis
    by (auto simp: resample_to_def Some)
qed (simp add: resample_to_def)

lemma resample_step_total:
  assumes "no_opposites P" "vertex_in project P (rs_v0 s)" "vertex_in project P (rs_v00 s)" "c \<noteq> SphereCall" "call_points [c] \<subseteq> P"
  shows "\<exists>s' out. resampleRecursive project pr s c = Some (s', out) \<and> vertex_in project P (rs_v0 s') \<and> vertex_in project P (rs_v00 s')"
proof (cases c)
  case (Point l p)
  hence "(l, p) \<in> P"
    using assms(5) by (simp add: call_points_def)
  thus ?thesis
    using resample_to_total[OF assms(1,2), of l p pr] assms(2,3) Point
    by (cases "rs_point s") (auto simp: resampleRecursive_def linePoint_def Let_def)
next
  case LineEnd
  show ?thesis
  proof (cases "rs_v00 s")
    case (Some w)
    then obtain l p where "(l, p) \<in> P" "w = vertex_at project l p"
      using assms(3) by (auto simp: vertex_in_def)
    thus ?thesis
      using resample_to_total[OF assms(1,2), of l p pr] assms(2,3) LineEnd Some by (auto simp: resampleRecursive_def)
  qed (use assms LineEnd in \<open>auto simp: resampleRecursive_def\<close>)
qed (use assms in \<open>auto simp: resampleRecursive_def\<close>)

lemma pipe_total:
  "no_opposites P \<Longrightarrow> vertex_in project P (rs_v0 s) \<Longrightarrow> vertex_in project P (rs_v00 s) \<Longrightarrow> SphereCall \<notin> set cs \<Longrightarrow> call_points cs \<subseteq> P \<Longrightarrow>
    \<exists>out. pipe (resampleRecursive project pr) s cs = Some out"
proof (induction cs arbitrary: s)
  case (Cons c cs)
  have sub: "call_points [c] \<subseteq> P" "call_points cs \<subseteq> P"
    using Cons.prems(5) by (auto simp: call_points_def)
  have c: "c \<noteq> SphereCall"
    using Cons.prems(4) by auto
  obtain s1 o1 where s1: "resampleRecursive project pr s c = Some (s1, o1)" "vertex_in project P (rs_v0 s1)" "vertex_in project P (rs_v00 s1)"
    using resample_step_total[OF Cons.prems(1-3) c sub(1)] by blast
  thus ?case
    using Cons.IH[of s1] Cons.prems sub by auto
qed simp

lemma transform_grammar:
  assumes "\<And>x y. \<exists>u v. f x y = Point u v"
  shows "run grammar p (d3_geo_transformPoint f cs) = run grammar p cs"
proof (induction cs arbitrary: p)
  case (Cons c cs)
  have "grammar p (case c of Point x y \<Rightarrow> f x y | _ \<Rightarrow> c) = grammar p c"
  proof (cases c)
    case (Point x y)
    obtain u v where "f x y = Point u v"
      using assms by blast
    thus ?thesis
      using Point by (cases p) simp_all
  qed simp_all
  thus ?case
    using Cons.IH by (simp add: d3_geo_transformPoint_def)
qed (simp add: d3_geo_transformPoint_def)

lemma resample_calls_ok:
  assumes "run grammar Outside cs = Some Outside" "SphereCall \<notin> set cs" "no_opposites (call_points cs)"
  shows "\<exists>out. resample_calls project pr cs = Some out \<and> run grammar Outside out = Some Outside \<and>
    subseq (resampleNone project cs) out \<and> length out \<le> 2 ^ pr_maxDepth pr * length cs"
proof (cases "pr_maxDepth pr = 0")
  case True
  have "run grammar Outside (resampleNone project cs) = Some Outside"
    unfolding resampleNone_def using assms(1) by (simp add: transform_grammar point_call_def)
  moreover have "length (resampleNone project cs) = length cs"
    by (simp add: resampleNone_def d3_geo_transformPoint_def)
  ultimately show ?thesis
    using True by (simp add: resample_calls_def)
next
  case False
  obtain out where out: "pipe (resampleRecursive project pr) resample_start cs = Some out"
    using pipe_total[OF assms(3), of project resample_start cs pr] assms(2) by (auto simp: resample_start_def)
  thus ?thesis
    using False pipe_grammar[OF _ assms(1) out] pipe_bound[OF out] by (simp add: resample_calls_def resample_start_def)
qed


definition equator_line :: geo_object where
  "equator_line = Geometry (LineString [(0, 0), (60, 0)])"


end
