(* ===== verification/D3_GeoMeasure.thy ===== *)
theory D3_GeoMeasure
  imports D3_Stream
begin

text \<open>
  Measures on the sphere (\<open>d3.js\<close> lines 2762 to 2782, 2847 to 2887 and 3046 to 3135): the summation with a carried
  rounding error, the area of polygons, and the centroid of objects, as listeners of streams.

  Numbers are reals, over which the carried error is zero.
\<close>

section \<open>Sums\<close>

definition d3_adderSum :: "real \<Rightarrow> real \<Rightarrow> real \<times> real" where
  "d3_adderSum a b = (let x = a + b; bv = x - a; av = x - bv in (x, a - av + (b - bv)))"

fun adder_add :: "real \<times> real \<Rightarrow> real \<Rightarrow> real \<times> real" where
  "adder_add (s, t) y = (let (ts, tt) = d3_adderSum y t; (s', t') = d3_adderSum ts s in if s' \<noteq> 0 then (s', t' + tt) else (tt, t'))"

definition adder_reset :: "real \<times> real" where
  "adder_reset = (0, 0)"

definition adder_valueOf :: "real \<times> real \<Rightarrow> real" where
  "adder_valueOf a = fst a"

section \<open>The area\<close>

text \<open>The accumulator is the area of the finished polygons and the sum for the rings of the polygon in progress.\<close>

type_synonym areas = "real \<times> (real \<times> real)"

definition area_angle :: "pt \<Rightarrow> pt \<Rightarrow> real" where
  "area_angle p q =
     (let l0 = fst p * d3_radians; p0 = snd p * d3_radians / 2 + pi / 4; l = fst q * d3_radians; p1 = snd q * d3_radians / 2 + pi / 4;
          dl = l - l0; sdl = (if dl \<ge> 0 then 1 else - 1); adl = sdl * dl; k = sin p0 * sin p1;
          u = cos p0 * cos p1 + k * cos adl; v = k * sdl * sin adl
      in js_atan2 v u)"

definition area_edge :: "areas \<Rightarrow> pt \<Rightarrow> pt \<Rightarrow> areas" where
  "area_edge a p q = (fst a, adder_add (snd a) (area_angle p q))"

definition d3_geo_area_step :: "areas listener \<Rightarrow> call \<Rightarrow> areas listener option" where
  "d3_geo_area_step s c = (case c of
     Point x y \<Rightarrow> Some (case l_walk s of
         Idle \<Rightarrow> s
       | Fresh \<Rightarrow> s\<lparr>l_walk := Walk (x, y) (x, y)\<rparr>
       | Walk f p \<Rightarrow> s\<lparr>l_acc := area_edge (l_acc s) p (x, y), l_walk := Walk f (x, y)\<rparr>)
   | LineStart \<Rightarrow> Some (if l_rings s then s\<lparr>l_walk := Fresh\<rparr> else s)
   | LineEnd \<Rightarrow> (case l_walk s of
         Idle \<Rightarrow> Some s
       | Fresh \<Rightarrow> None
       | Walk f p \<Rightarrow> Some (s\<lparr>l_acc := area_edge (l_acc s) p f, l_walk := Walk f f\<rparr>))
   | PolygonStart \<Rightarrow> Some (s\<lparr>l_acc := (fst (l_acc s), adder_reset), l_rings := True\<rparr>)
   | PolygonEnd \<Rightarrow>
       (let area = 2 * adder_valueOf (snd (l_acc s))
        in Some (s\<lparr>l_acc := (fst (l_acc s) + (if area < 0 then 4 * pi + area else area), snd (l_acc s)), l_rings := False, l_walk := Idle\<rparr>))
   | SphereCall \<Rightarrow> Some (s\<lparr>l_acc := (fst (l_acc s) + 4 * pi, snd (l_acc s))\<rparr>))"

definition d3_geo_area :: "geo_object \<Rightarrow> real option" where
  "d3_geo_area ob = map_option (\<lambda>s. fst (l_acc s)) (run d3_geo_area_step \<lparr>l_acc = (0, adder_reset), l_rings = False, l_walk = Idle\<rparr> (d3_geo_stream ob))"

section \<open>The centroid\<close>

record centroids =
  c_W0 :: real
  c_W1 :: real
  c_0 :: vec3
  c_1 :: vec3
  c_2 :: vec3

definition centroid_vec :: "pt \<Rightarrow> vec3" where
  "centroid_vec p = (let l = fst p * d3_radians; f = snd p * d3_radians in (cos f * cos l, cos f * sin l, sin f))"

fun mean_towards :: "real \<Rightarrow> vec3 \<Rightarrow> vec3 \<Rightarrow> vec3" where
  "mean_towards w (x0, y0, z0) (x, y, z) = (x0 + (x - x0) / w, y0 + (y - y0) / w, z0 + (z - z0) / w)"

definition d3_geo_centroidPointXYZ :: "vec3 \<Rightarrow> centroids \<Rightarrow> centroids" where
  "d3_geo_centroidPointXYZ u c = c\<lparr>c_W0 := c_W0 c + 1, c_0 := mean_towards (c_W0 c + 1) (c_0 c) u\<rparr>"

definition d3_geo_centroidPoint :: "centroids \<Rightarrow> pt \<Rightarrow> centroids" where
  "d3_geo_centroidPoint c p = d3_geo_centroidPointXYZ (centroid_vec p) c"

definition vec_norm :: "vec3 \<Rightarrow> real" where
  "vec_norm u = sqrt (d3_geo_cartesianDot u u)"

definition centroid_line :: "centroids \<Rightarrow> pt \<Rightarrow> pt \<Rightarrow> centroids" where
  "centroid_line c p q =
     (let u0 = centroid_vec p; u = centroid_vec q; w = js_atan2 (vec_norm (d3_geo_cartesianCross u0 u)) (d3_geo_cartesianDot u0 u)
      in d3_geo_centroidPointXYZ u (c\<lparr>c_W1 := c_W1 c + w, c_1 := d3_geo_cartesianAdd (c_1 c) (d3_geo_cartesianScale (d3_geo_cartesianAdd u0 u) w)\<rparr>))"

definition centroid_ring :: "centroids \<Rightarrow> pt \<Rightarrow> pt \<Rightarrow> centroids" where
  "centroid_ring c p q =
     (let u0 = centroid_vec p; u = centroid_vec q; cr = d3_geo_cartesianCross u0 u; m = vec_norm cr; d = d3_geo_cartesianDot u0 u;
          v = (if m = 0 then 0 else - d3_acos d / m); w = js_atan2 m d
      in d3_geo_centroidPointXYZ u (c\<lparr>c_2 := d3_geo_cartesianAdd (c_2 c) (d3_geo_cartesianScale cr v), c_W1 := c_W1 c + w,
           c_1 := d3_geo_cartesianAdd (c_1 c) (d3_geo_cartesianScale (d3_geo_cartesianAdd u0 u) w)\<rparr>))"

definition d3_geo_centroid_step :: "centroids listener \<Rightarrow> call \<Rightarrow> centroids listener option" where
  "d3_geo_centroid_step s c = (case c of
     Point x y \<Rightarrow> Some (case l_walk s of
         Idle \<Rightarrow> s\<lparr>l_acc := d3_geo_centroidPoint (l_acc s) (x, y)\<rparr>
       | Fresh \<Rightarrow> s\<lparr>l_acc := d3_geo_centroidPoint (l_acc s) (x, y), l_walk := Walk (x, y) (x, y)\<rparr>
       | Walk f p \<Rightarrow> s\<lparr>l_acc := (if l_rings s then centroid_ring else centroid_line) (l_acc s) p (x, y), l_walk := Walk f (x, y)\<rparr>)
   | LineStart \<Rightarrow> Some (s\<lparr>l_walk := Fresh\<rparr>)
   | LineEnd \<Rightarrow> (if l_rings s then
         (case l_walk s of Idle \<Rightarrow> Some s | Fresh \<Rightarrow> None | Walk f p \<Rightarrow> Some (s\<lparr>l_acc := centroid_ring (l_acc s) p f, l_walk := Idle\<rparr>))
       else Some (s\<lparr>l_walk := Idle\<rparr>))
   | PolygonStart \<Rightarrow> Some (s\<lparr>l_rings := True\<rparr>)
   | PolygonEnd \<Rightarrow> Some (s\<lparr>l_rings := False\<rparr>)
   | SphereCall \<Rightarrow> Some s)"

text \<open>Where even the sum for the points is too short there are no numbers.\<close>

definition centroid_direction :: "centroids \<Rightarrow> angles option" where
  "centroid_direction c =
     (let small = (\<lambda>u. d3_geo_cartesianDot u u < 1 / 1000000 * (1 / 1000000));
          u = (if small (c_2 c) then if c_W1 c < 1 / 1000000 then c_0 c else c_1 c else c_2 c)
      in if small u then None
         else let (x, y, z) = u in Some (js_atan2 y x * d3_degrees, d3_asin (z / vec_norm u) * d3_degrees))"

definition d3_geo_centroid :: "geo_object \<Rightarrow> angles option" where
  "d3_geo_centroid ob =
     Option.bind (run d3_geo_centroid_step \<lparr>l_acc = \<lparr>c_W0 = 0, c_W1 = 0, c_0 = (0, 0, 0), c_1 = (0, 0, 0), c_2 = (0, 0, 0)\<rparr>, l_rings = False, l_walk = Idle\<rparr> (d3_geo_stream ob))
       (\<lambda>s. centroid_direction (l_acc s))"

section \<open>The area of polygons and of their complements\<close>

interpretation ga: ring_listener d3_geo_area_step "\<lambda>a p. a" area_edge "\<lambda>p. Walk p p"
  by unfold_locales (simp_all add: d3_geo_area_step_def)

interpretation gc: ring_listener d3_geo_centroid_step d3_geo_centroidPoint centroid_ring "\<lambda>p. Idle"
  by unfold_locales (simp_all add: d3_geo_centroid_step_def)

lemma adder_exact: "adder_add (s, 0) y = (s + y, 0)"
  by (simp add: d3_adderSum_def Let_def)

lemma area_along: "ga.along (a, (s, 0)) es = (a, (s + sum_list (map (\<lambda>(p, q). area_angle p q) es), 0))"
  by (induction es arbitrary: s) (auto simp: area_edge_def adder_exact simp del: adder_add.simps)

definition ring_angle :: "pt list \<Rightarrow> real" where
  "ring_angle ps = sum_list (map (\<lambda>(p, q). area_angle p q) (edges ps))"

lemma area_around: "ps \<noteq> [] \<Longrightarrow> ga.around (a, (s, 0)) ps = (a, (s + ring_angle ps, 0))"
  by (simp add: ga.around_def area_along cycle_steps ring_angle_def)

lemma area_rings:
  "(\<And>ps. ps \<in> set rings \<Longrightarrow> ps \<noteq> []) \<Longrightarrow> foldl ga.around (a, (s, 0)) rings = (a, (s + sum_list (map ring_angle rings), 0))"
  by (induction rings arbitrary: s) (auto simp: area_around)

definition polygon_angle :: "pt list list \<Rightarrow> real" where
  "polygon_angle rings = 2 * sum_list (map (\<lambda>ring. ring_angle (butlast ring)) rings)"

lemma area_polygon:
  assumes "\<And>ring. ring \<in> set rings \<Longrightarrow> 2 \<le> length ring"
  shows "d3_geo_area (Geometry (Polygon rings)) = Some (if polygon_angle rings < 0 then 4 * pi + polygon_angle rings else polygon_angle rings)"
proof -
  let ?s = "\<lparr>l_acc = (0, adder_reset), l_rings = True, l_walk = Idle\<rparr> :: areas listener"
  have ne: "ps \<noteq> []" if "ps \<in> set (map butlast rings)" for ps
    using that assms butlast_nonempty by auto
  obtain w where "run d3_geo_area_step ?s (concat (map (\<lambda>ring. d3_geo_streamLine ring 1) rings)) =
      Some (?s\<lparr>l_acc := foldl ga.around (l_acc ?s) (map butlast rings), l_walk := w\<rparr>)"
    using ga.run_rings[of ?s rings] assms by auto
  moreover have "foldl ga.around (l_acc ?s) (map butlast rings) = (0, (polygon_angle rings / 2, 0))"
    using ne by (simp add: adder_reset_def, subst area_rings) (auto simp: o_def polygon_angle_def)
  ultimately show ?thesis
    by (simp add: d3_geo_area_def d3_geo_streamPolygon_def d3_geo_area_step_def adder_valueOf_def Let_def)
qed

lemma atan2_minus: "js_atan2 y x \<noteq> pi \<Longrightarrow> js_atan2 (- y) x = - js_atan2 y x"
  by (auto simp: js_atan2_def arctan_minus split: if_splits)

definition half_up :: "pt \<Rightarrow> real" where
  "half_up p = snd p * d3_radians / 2 + pi / 4"

lemma area_angle_plain:
  "area_angle p q = js_atan2 (sin (half_up p) * sin (half_up q) * sin (fst q * d3_radians - fst p * d3_radians))
     (cos (half_up p) * cos (half_up q) + sin (half_up p) * sin (half_up q) * cos (fst q * d3_radians - fst p * d3_radians))"
proof -
  define dl where "dl = fst q * d3_radians - fst p * d3_radians"
  have "k * (if dl \<ge> 0 then 1 else - 1) * sin ((if dl \<ge> 0 then 1 else - 1) * dl) = k * sin dl" "cos ((if dl \<ge> 0 then 1 else - 1) * dl) = cos dl" for k
    by simp_all
  thus ?thesis
    unfolding area_angle_def Let_def half_up_def dl_def[symmetric] by presburger
qed

lemma area_angle_swap:
  assumes "area_angle p q \<noteq> pi"
  shows "area_angle q p = - area_angle p q"
proof -
  define dl where "dl = fst q * d3_radians - fst p * d3_radians"
  have dl': "fst p * d3_radians - fst q * d3_radians = - dl"
    by (simp add: dl_def)
  have "area_angle q p = js_atan2 (- (sin (half_up p) * sin (half_up q) * sin dl)) (cos (half_up p) * cos (half_up q) + sin (half_up p) * sin (half_up q) * cos dl)"
    unfolding area_angle_plain[of q p] dl' by (simp add: mult.commute)
  thus ?thesis
    using assms atan2_minus unfolding area_angle_plain[of p q] dl_def[symmetric] by presburger
qed

lemma steps_rev_list: "steps (rev p) = rev (map (\<lambda>(a, b). (b, a)) (steps p))"
proof (induction p rule: induct_list012)
  case (3 a b p)
  have "steps (rev (b # p) @ [a]) = steps (rev (b # p)) @ [(b, a)]"
    using steps_append[of "rev (b # p)" "[a]"] by simp
  thus ?case
    using 3 by simp
qed simp_all

lemma ring_angle_rev:
  assumes "2 \<le> length ring" "hd ring = last ring" "\<And>p q. (p, q) \<in> set (steps ring) \<Longrightarrow> area_angle p q \<noteq> pi"
  shows "ring_angle (butlast (rev ring)) = - ring_angle (butlast ring)"
proof -
  have ring: "edges (butlast r) = steps r" if "2 \<le> length r" "hd r = last r" for r :: "pt list"
  proof -
    have "r \<noteq> []" "hd (butlast r) = hd r"
      using that(1) by (cases r; auto)+
    hence "butlast r @ [hd (butlast r)] = r"
      using that(2) append_butlast_last_id[of r] by simp
    thus ?thesis
      using edges_steps[OF butlast_nonempty[OF that(1)]] by simp
  qed
  have "rev ring \<noteq> []"
    using assms(1) by (cases ring) auto
  hence "hd (rev ring) = last (rev ring)"
    using assms(2) by (simp add: hd_rev last_rev)
  hence "ring_angle (butlast (rev ring)) = sum_list (map (\<lambda>(p, q). area_angle q p) (rev (steps ring)))"
    using ring[of "rev ring"] assms(1) by (simp add: ring_angle_def steps_rev_list rev_map o_def case_prod_unfold)
  also have "\<dots> = sum_list (map (\<lambda>(p, q). area_angle q p) (steps ring))"
    unfolding rev_map[symmetric] by (rule sum_list_rev)
  also have "\<dots> = sum_list (map (\<lambda>(p, q). - area_angle p q) (steps ring))"
  proof (intro arg_cong[where f = sum_list] map_cong refl, clarify)
    show "area_angle q p = - area_angle p q" if "(p, q) \<in> set (steps ring)" for p q
      using area_angle_swap[OF assms(3)[OF that]] .
  qed
  also have "\<dots> = - ring_angle (butlast ring)"
    unfolding ring_angle_def ring[OF assms(1,2)] uminus_sum_list_map by (simp add: o_def case_prod_unfold)
  finally show ?thesis .
qed

text \<open>
  (C19) Areas on the sphere.  Reversing all rings of a polygon gives the complement: the areas of both sum up to the sphere, four pi, unless the
  polygon has the area zero.  Rings are closed, and no edge goes over a pole.
\<close>

theorem geo_area_complement:
  assumes "\<forall>ring \<in> set rings. 2 \<le> length ring \<and> hd ring = last ring \<and> (\<forall>(p, q) \<in> set (steps ring). area_angle p q \<noteq> pi)"
    and "d3_geo_area (Geometry (Polygon rings)) = Some a" "a \<noteq> 0"
  shows "d3_geo_area (Geometry (Polygon (map rev rings))) = Some (4 * pi - a)"
proof -
  have "polygon_angle (map rev rings) = - polygon_angle rings"
    using assms(1)
  proof (induction rings)
    case (Cons ring rings)
    have "ring_angle (butlast (rev ring)) = - ring_angle (butlast ring)"
      using Cons.prems by (intro ring_angle_rev) auto
    thus ?case
      using Cons by (simp add: polygon_angle_def)
  qed (simp add: polygon_angle_def)
  moreover have "d3_geo_area (Geometry (Polygon (map rev rings))) =
      Some (if polygon_angle (map rev rings) < 0 then 4 * pi + polygon_angle (map rev rings) else polygon_angle (map rev rings))"
    using assms(1) by (intro area_polygon) auto
  ultimately show ?thesis
    using area_polygon[of rings] assms by (auto split: if_splits)
qed

definition equator :: "pt list" where
  "equator = [(0, 0), (90, 0), (180, 0), (- 90, 0), (0, 0)]"

lemma equator_angle:
  assumes "fst q - fst p = 90 \<or> fst q - fst p = - 270" "snd p = 0" "snd q = 0"
  shows "area_angle p q = pi / 4"
proof -
  have "(fst q - fst p) * d3_radians = pi / 2 \<or> (fst q - fst p) * d3_radians = pi / 2 - 2 * pi"
    using assms(1) by (auto simp: d3_radians_def)
  hence dl: "sin (fst q * d3_radians - fst p * d3_radians) = 1" "cos (fst q * d3_radians - fst p * d3_radians) = 0"
    unfolding left_diff_distrib by (auto simp only: sin_diff[of "pi / 2" "2 * pi"] cos_diff[of "pi / 2" "2 * pi"]) simp_all
  have up: "half_up p = pi / 4" "half_up q = pi / 4"
    using assms(2,3) by (simp_all add: half_up_def)
  show ?thesis
    unfolding area_angle_plain dl up by (simp add: sin_45 cos_45 js_atan2_def arctan_one)
qed

theorem geo_area_complement_witness:
  "d3_geo_area (Geometry (Polygon [equator])) = Some (2 * pi) \<and> d3_geo_area (Geometry (Polygon [rev equator])) = Some (4 * pi - 2 * pi)"
proof -
  have steps: "steps equator = [((0, 0), (90, 0)), ((90, 0), (180, 0)), ((180, 0), (- 90, 0)), ((- 90, 0), (0, 0))]"
    by (simp add: equator_def)
  have angles: "area_angle p q = pi / 4" if "(p, q) \<in> set (steps equator)" for p q
    using that unfolding steps by (intro equator_angle) auto
  have "edges (butlast equator) = steps equator"
    by (simp add: equator_def edges_steps)
  hence "polygon_angle [equator] = 2 * pi"
    using angles[of "(0, 0)" "(90, 0)"] angles[of "(90, 0)" "(180, 0)"] angles[of "(180, 0)" "(- 90, 0)"] angles[of "(- 90, 0)" "(0, 0)"]
    unfolding polygon_angle_def ring_angle_def by (simp add: steps)
  hence area: "d3_geo_area (Geometry (Polygon [equator])) = Some (2 * pi)"
    using area_polygon[of "[equator]"] pi_gt_zero by (simp add: equator_def)
  moreover have "2 \<le> length equator \<and> hd equator = last equator"
    by (simp add: equator_def)
  moreover have "\<forall>(p, q) \<in> set (steps equator). area_angle p q \<noteq> pi"
    using angles pi_gt_zero by fastforce
  ultimately show ?thesis
    using geo_area_complement[of "[equator]" "2 * pi"] by simp
qed

section \<open>The centroid of points\<close>

lemma mean_towards_scaled:
  assumes "w \<noteq> 0"
  shows "d3_geo_cartesianScale (mean_towards w m u) w = d3_geo_cartesianAdd (d3_geo_cartesianScale m (w - 1)) u"
  using assms by (cases m; cases u) (simp add: field_simps)

lemma centroid_points:
  assumes "l_walk s = Idle" "0 \<le> c_W0 (l_acc s)"
  shows "\<exists>s'. run d3_geo_centroid_step s (map point_call ps) = Some s' \<and> l_walk s' = Idle \<and> c_W0 (l_acc s') = c_W0 (l_acc s) + real (length ps) \<and>
    c_W1 (l_acc s') = c_W1 (l_acc s) \<and> c_1 (l_acc s') = c_1 (l_acc s) \<and> c_2 (l_acc s') = c_2 (l_acc s) \<and>
    d3_geo_cartesianScale (c_0 (l_acc s')) (c_W0 (l_acc s'))
      = foldl (\<lambda>a p. d3_geo_cartesianAdd a (centroid_vec p)) (d3_geo_cartesianScale (c_0 (l_acc s)) (c_W0 (l_acc s))) ps"
  using assms
proof (induction ps arbitrary: s)
  case (Cons p ps)
  let ?s = "s\<lparr>l_acc := d3_geo_centroidPoint (l_acc s) p\<rparr>"
  have "d3_geo_cartesianScale (c_0 (l_acc ?s)) (c_W0 (l_acc ?s)) = d3_geo_cartesianAdd (d3_geo_cartesianScale (c_0 (l_acc s)) (c_W0 (l_acc s))) (centroid_vec p)"
    using Cons.prems(2) by (simp add: d3_geo_centroidPoint_def d3_geo_centroidPointXYZ_def mean_towards_scaled)
  moreover have "l_walk ?s = Idle" "c_W0 (l_acc ?s) = c_W0 (l_acc s) + 1" "c_W1 (l_acc ?s) = c_W1 (l_acc s)" "c_1 (l_acc ?s) = c_1 (l_acc s)" "c_2 (l_acc ?s) = c_2 (l_acc s)"
    using Cons.prems(1) by (simp_all add: d3_geo_centroidPoint_def d3_geo_centroidPointXYZ_def)
  moreover have "d3_geo_centroid_step s (point_call p) = Some ?s"
    using Cons.prems(1) by (simp add: d3_geo_centroid_step_def point_call_def)
  ultimately show ?case
    using Cons.IH[of ?s] Cons.prems(2) by (auto simp: add.assoc)
qed simp

text \<open>The centroid of points has the direction of the mean of their vectors; points whose mean is too close to the centre of the sphere have none.\<close>

theorem geo_centroid_points:
  "\<exists>m. d3_geo_centroid (Geometry (MultiPoint ps)) =
      (if d3_geo_cartesianDot m m < 1 / 1000000 * (1 / 1000000) then None
       else let (x, y, z) = m in Some (js_atan2 y x * d3_degrees, d3_asin (z / vec_norm m) * d3_degrees)) \<and>
    d3_geo_cartesianScale m (real (length ps)) = foldl (\<lambda>a p. d3_geo_cartesianAdd a (centroid_vec p)) (0, 0, 0) ps"
proof -
  let ?s = "\<lparr>l_acc = \<lparr>c_W0 = 0, c_W1 = 0, c_0 = (0, 0, 0), c_1 = (0, 0, 0), c_2 = (0, 0, 0)\<rparr>, l_rings = False, l_walk = Idle\<rparr>"
  obtain s' where s': "run d3_geo_centroid_step ?s (map point_call ps) = Some s'" "c_W0 (l_acc s') = real (length ps)"
    "c_W1 (l_acc s') = 0" "c_2 (l_acc s') = (0, 0, 0)"
    "d3_geo_cartesianScale (c_0 (l_acc s')) (c_W0 (l_acc s')) = foldl (\<lambda>a p. d3_geo_cartesianAdd a (centroid_vec p)) (0, 0, 0) ps"
    using centroid_points[of ?s ps] by auto
  thus ?thesis
    by (intro exI[of _ "c_0 (l_acc s')"]) (simp add: d3_geo_centroid_def centroid_direction_def Let_def)
qed

end
