(* ===== verification/D3_ClipExtent.thy ===== *)
theory D3_ClipExtent
  imports D3_Stream
begin

text \<open>
  Clipping lines to a rectangle (\<open>d3.js\<close> lines 3524 to 3577 and 3596 to 3716): a segment by the four sides in turn, and streams of points and lines by the extent.

  Coordinates are finite reals.  Polygons, which the extent clips through buffers and a walk over linked intersections, are not modelled: the variables
  \<open>segments\<close> and \<open>polygon\<close> are unset throughout.
\<close>

section \<open>Clipping a segment\<close>

record box =
  b_x0 :: real
  b_y0 :: real
  b_x1 :: real
  b_y1 :: real

text \<open>One side of the code's four blocks: a lower bound and an upper bound, as the distance \<open>r\<close> from the start in the direction \<open>d\<close>.\<close>

definition clip_lower :: "real \<Rightarrow> real \<Rightarrow> real \<times> real \<Rightarrow> (real \<times> real) option" where
  "clip_lower r d t = (let (t0, t1) = t in
     if d = 0 then if r > 0 then None else Some (t0, t1)
     else if d < 0 then if r / d < t0 then None else Some (t0, if r / d < t1 then r / d else t1)
     else if r / d > t1 then None else Some (if r / d > t0 then r / d else t0, t1))"

definition clip_upper :: "real \<Rightarrow> real \<Rightarrow> real \<times> real \<Rightarrow> (real \<times> real) option" where
  "clip_upper r d t = (let (t0, t1) = t in
     if d = 0 then if r < 0 then None else Some (t0, t1)
     else if d < 0 then if r / d > t1 then None else Some (if r / d > t0 then r / d else t0, t1)
     else if r / d < t0 then None else Some (t0, if r / d < t1 then r / d else t1))"

definition along_line :: "pt \<Rightarrow> pt \<Rightarrow> real \<Rightarrow> pt" where
  "along_line a b t = (fst a + t * (fst b - fst a), snd a + t * (snd b - snd a))"

definition clip_params :: "box \<Rightarrow> pt \<Rightarrow> pt \<Rightarrow> (real \<times> real) option" where
  "clip_params e a b = (let dx = fst b - fst a; dy = snd b - snd a in
     Option.bind (clip_lower (b_x0 e - fst a) dx (0, 1)) (\<lambda>t.
     Option.bind (clip_upper (b_x1 e - fst a) dx t) (\<lambda>t.
     Option.bind (clip_lower (b_y0 e - snd a) dy t) (\<lambda>t. clip_upper (b_y1 e - snd a) dy t))))"

definition d3_geom_clipLine :: "box \<Rightarrow> pt \<times> pt \<Rightarrow> (pt \<times> pt) option" where
  "d3_geom_clipLine e line = (let (a, b) = line in
     map_option (\<lambda>(t0, t1). (if t0 > 0 then along_line a b t0 else a, if t1 < 1 then along_line a b t1 else b)) (clip_params e a b))"

section \<open>Streams\<close>

definition d3_geo_clipExtentMAX :: real where
  "d3_geo_clipExtentMAX = 1000000000"

definition pointVisible :: "box \<Rightarrow> pt \<Rightarrow> bool" where
  "pointVisible e p \<longleftrightarrow> b_x0 e \<le> fst p \<and> fst p \<le> b_x1 e \<and> b_y0 e \<le> snd p \<and> snd p \<le> b_y1 e"

record clip_extent =
  ce_line :: bool
  ce_first :: bool
  ce_visible :: bool
  ce_prev :: pt

definition clip_clamp :: "real \<Rightarrow> real" where
  "clip_clamp x = max (- d3_geo_clipExtentMAX) (min d3_geo_clipExtentMAX x)"

definition clip_linePoint :: "box \<Rightarrow> pt \<Rightarrow> clip_extent \<Rightarrow> clip_extent \<times> call list" where
  "clip_linePoint e p0 s =
     (let p = (clip_clamp (fst p0), clip_clamp (snd p0)); v = pointVisible e p;
          out = (if ce_first s then if v then [LineStart, point_call p] else []
                 else if v \<and> ce_visible s then [point_call p]
                 else case d3_geom_clipLine e (ce_prev s, p) of
                     Some (a, b) \<Rightarrow> (if ce_visible s then [] else [LineStart, point_call a]) @ [point_call b] @ (if v then [] else [LineEnd])
                   | None \<Rightarrow> if v then [LineStart, point_call p] else [])
      in (s\<lparr>ce_first := False, ce_visible := v, ce_prev := p\<rparr>, out))"

definition clip_lineStart :: "clip_extent \<Rightarrow> clip_extent \<times> call list" where
  "clip_lineStart s = (s\<lparr>ce_line := True, ce_first := True, ce_visible := False\<rparr>, [])"

definition clip_lineEnd :: "clip_extent \<Rightarrow> clip_extent \<times> call list" where
  "clip_lineEnd s = (s\<lparr>ce_line := False\<rparr>, if ce_visible s then [LineEnd] else [])"

definition clip_point :: "box \<Rightarrow> pt \<Rightarrow> clip_extent \<Rightarrow> clip_extent \<times> call list" where
  "clip_point e p s = (if ce_line s then clip_linePoint e p s else (s, if pointVisible e p then [point_call p] else []))"

definition clip_start :: clip_extent where
  "clip_start = \<lparr>ce_line = False, ce_first = False, ce_visible = False, ce_prev = (0, 0)\<rparr>"

fun clip_points :: "box \<Rightarrow> pt list \<Rightarrow> clip_extent \<Rightarrow> clip_extent \<times> call list" where
  "clip_points e [] s = (s, [])"
| "clip_points e (p # ps) s = (let (s1, out1) = clip_point e p s; (s2, out2) = clip_points e ps s1 in (s2, out1 @ out2))"

definition clip_line :: "box \<Rightarrow> pt list \<Rightarrow> clip_extent \<Rightarrow> clip_extent \<times> call list" where
  "clip_line e ps s = (let (s1, out1) = clip_lineStart s; (s2, out2) = clip_points e ps s1; (s3, out3) = clip_lineEnd s2 in (s3, out1 @ out2 @ out3))"

section \<open>Clipping a segment is exact\<close>

text \<open>An interval of parameters, or none, describes a condition on them.\<close>

definition spans :: "(real \<times> real) option \<Rightarrow> (real \<Rightarrow> bool) \<Rightarrow> bool" where
  "spans i P \<longleftrightarrow> (case i of None \<Rightarrow> \<forall>t. \<not> P t | Some (t0, t1) \<Rightarrow> t0 \<le> t1 \<and> (\<forall>t. P t \<longleftrightarrow> t0 \<le> t \<and> t \<le> t1))"

lemma spans_lower:
  assumes "spans (Some t) P"
  shows "spans (clip_lower r d t) (\<lambda>x. P x \<and> r \<le> x * d)"
proof -
  obtain t0 t1 where t: "t = (t0, t1)" "t0 \<le> t1" "\<And>x. P x \<longleftrightarrow> t0 \<le> x \<and> x \<le> t1"
    using assms by (cases t) (auto simp: spans_def)
  consider "d = 0" | "d < 0" | "0 < d"
    by linarith
  thus ?thesis
  proof cases
    case 2
    hence "r \<le> x * d \<longleftrightarrow> x \<le> r / d" for x
      by (simp add: neg_le_divide_eq)
    thus ?thesis
      using t 2 by (auto simp: spans_def clip_lower_def)
  next
    case 3
    hence "r \<le> x * d \<longleftrightarrow> r / d \<le> x" for x
      by (simp add: pos_divide_le_eq)
    thus ?thesis
      using t 3 by (auto simp: spans_def clip_lower_def)
  qed (use t in \<open>auto simp: spans_def clip_lower_def\<close>)
qed

lemma clip_upper_lower: "clip_upper r d t = clip_lower (- r) (- d) t"
  by (cases t) (simp add: clip_upper_def clip_lower_def)

lemma spans_upper: "spans (Some t) P \<Longrightarrow> spans (clip_upper r d t) (\<lambda>x. P x \<and> x * d \<le> r)"
  using spans_lower[of t P "- r" "- d"] by (simp add: clip_upper_lower)

lemma spans_bind:
  assumes "spans i P" "\<And>t. spans (Some t) P \<Longrightarrow> spans (f t) (\<lambda>x. P x \<and> Q x)"
  shows "spans (Option.bind i f) (\<lambda>x. P x \<and> Q x)"
  using assms by (cases i) (auto simp: spans_def[of None])

lemma clip_params_spans:
  "spans (clip_params e a b) (\<lambda>t. 0 \<le> t \<and> t \<le> 1 \<and> pointVisible e (along_line a b t))"
proof -
  let ?dx = "fst b - fst a" and ?dy = "snd b - snd a"
  have eq: "clip_params e a b = Option.bind (Option.bind (Option.bind (clip_lower (b_x0 e - fst a) ?dx (0, 1)) (clip_upper (b_x1 e - fst a) ?dx))
      (clip_lower (b_y0 e - snd a) ?dy)) (clip_upper (b_y1 e - snd a) ?dy)"
    by (simp add: clip_params_def Let_def Option.bind_assoc)
  have "spans (Some (0, 1)) (\<lambda>t. 0 \<le> t \<and> t \<le> 1)"
    by (simp add: spans_def)
  hence "spans (clip_params e a b) (\<lambda>t. ((((0 \<le> t \<and> t \<le> 1) \<and> b_x0 e - fst a \<le> t * (fst b - fst a)) \<and> t * (fst b - fst a) \<le> b_x1 e - fst a)
    \<and> b_y0 e - snd a \<le> t * (snd b - snd a)) \<and> t * (snd b - snd a) \<le> b_y1 e - snd a)"
    unfolding eq by (intro spans_bind spans_lower spans_upper)
  moreover have "(((((0 \<le> t \<and> t \<le> 1) \<and> b_x0 e - fst a \<le> t * (fst b - fst a)) \<and> t * (fst b - fst a) \<le> b_x1 e - fst a)
    \<and> b_y0 e - snd a \<le> t * (snd b - snd a)) \<and> t * (snd b - snd a) \<le> b_y1 e - snd a)
    \<longleftrightarrow> 0 \<le> t \<and> t \<le> 1 \<and> pointVisible e (along_line a b t)" for t
    by (auto simp: pointVisible_def along_line_def)
  ultimately show ?thesis
    by simp
qed

definition segment :: "pt \<Rightarrow> pt \<Rightarrow> pt set" where
  "segment a b = along_line a b ` {0..1}"

lemma along_line_ends [simp]: "along_line a b 0 = a" "along_line a b 1 = b"
  by (simp_all add: along_line_def)

lemma along_line_twice: "along_line (along_line a b u) (along_line a b w) t = along_line a b (u + t * (w - u))"
  by (simp add: along_line_def algebra_simps)

lemma segment_between:
  assumes "u \<le> w"
  shows "segment (along_line a b u) (along_line a b w) = along_line a b ` {u..w}"
proof -
  have "(\<lambda>t. u + t * (w - u)) ` {0..1} = {u..w}"
  proof (intro equalityI subsetI)
    fix x
    assume x: "x \<in> {u..w}"
    show "x \<in> (\<lambda>t. u + t * (w - u)) ` {0..1}"
    proof (cases "u = w")
      case False
      thus ?thesis
        using x by (intro image_eqI[of _ _ "(x - u) / (w - u)"]) (auto simp: field_simps)
    qed (use x in \<open>auto intro!: image_eqI[of _ _ 0]\<close>)
  next
    fix x
    assume "x \<in> (\<lambda>t. u + t * (w - u)) ` {0..1}"
    then obtain t where t: "0 \<le> t" "t \<le> 1" "x = u + t * (w - u)"
      by auto
    moreover have "t * (w - u) \<le> 1 * (w - u)"
      using t assms by (intro mult_right_mono) auto
    ultimately show "x \<in> {u..w}"
      using assms by simp
  qed
  thus ?thesis
    unfolding segment_def along_line_twice by (metis image_image)
qed

lemma clipLine_cases:
  "d3_geom_clipLine e (a, b) = None \<Longrightarrow> segment a b \<inter> Collect (pointVisible e) = {}"
  "d3_geom_clipLine e (a, b) = Some (a', b') \<Longrightarrow>
    segment a' b' = segment a b \<inter> Collect (pointVisible e) \<and> (pointVisible e a \<longrightarrow> a' = a) \<and> (pointVisible e b \<longrightarrow> b' = b)"
proof -
  note sp = clip_params_spans[of e a b]
  show "segment a b \<inter> Collect (pointVisible e) = {}" if "d3_geom_clipLine e (a, b) = None"
    using that sp by (auto simp: d3_geom_clipLine_def spans_def segment_def)
  assume "d3_geom_clipLine e (a, b) = Some (a', b')"
  then obtain t0 t1 where t: "clip_params e a b = Some (t0, t1)" and a': "a' = (if t0 > 0 then along_line a b t0 else a)"
    and b': "b' = (if t1 < 1 then along_line a b t1 else b)"
    by (auto simp: d3_geom_clipLine_def)
  have le: "t0 \<le> t1" and iff: "0 \<le> x \<and> x \<le> 1 \<and> pointVisible e (along_line a b x) \<longleftrightarrow> t0 \<le> x \<and> x \<le> t1" for x
    using sp t by (auto simp: spans_def)
  have "0 \<le> t0" "t1 \<le> 1"
    using iff[of t0] iff[of t1] le by auto
  hence ends: "a' = along_line a b t0" "b' = along_line a b t1"
    by (auto simp: a' b' order_le_less)
  have "{t0..t1} = {x. 0 \<le> x \<and> x \<le> 1 \<and> pointVisible e (along_line a b x)}"
    unfolding iff by auto
  hence "along_line a b ` {t0..t1} = segment a b \<inter> Collect (pointVisible e)"
    by (auto simp: segment_def)
  hence "segment a' b' = segment a b \<inter> Collect (pointVisible e)"
    using segment_between[OF le] by (simp add: ends)
  moreover have "a' = a" if "pointVisible e a"
    using iff[of 0] that a' by auto
  moreover have "b' = b" if "pointVisible e b"
    using iff[of 1] that b' by auto
  ultimately show "segment a' b' = segment a b \<inter> Collect (pointVisible e) \<and> (pointVisible e a \<longrightarrow> a' = a) \<and> (pointVisible e b \<longrightarrow> b' = b)"
    by blast
qed

lemma segment_ends [simp]: "a \<in> segment a b" "b \<in> segment a b"
  unfolding segment_def by (force intro: image_eqI[of _ _ 0] image_eqI[of _ _ 1])+

lemma between_bounds:
  assumes "0 \<le> t" "t \<le> (1 :: real)"
  shows "lo \<le> a \<Longrightarrow> lo \<le> b \<Longrightarrow> lo \<le> a + t * (b - a)" "a \<le> hi \<Longrightarrow> b \<le> hi \<Longrightarrow> a + t * (b - a) \<le> hi"
proof -
  assume "lo \<le> a" "lo \<le> b"
  hence "0 \<le> t * (b - lo) + (1 - t) * (a - lo)"
    using assms by simp
  thus "lo \<le> a + t * (b - a)"
    by (simp add: algebra_simps)
next
  assume "a \<le> hi" "b \<le> hi"
  hence "0 \<le> t * (hi - b) + (1 - t) * (hi - a)"
    using assms by simp
  thus "a + t * (b - a) \<le> hi"
    by (simp add: algebra_simps)
qed

lemma visible_convex: "pointVisible e a \<Longrightarrow> pointVisible e b \<Longrightarrow> segment a b \<subseteq> Collect (pointVisible e)"
  by (auto simp: segment_def pointVisible_def along_line_def between_bounds)

section \<open>Clipping lines is exact\<close>

text \<open>What a sequence of calls draws: its points, and the segments between consecutive points of a line.\<close>

fun drawn :: "pt option \<Rightarrow> bool \<Rightarrow> call list \<Rightarrow> pt set" where
  "drawn prev line [] = {}"
| "drawn prev line (Point x y # cs) =
     (case prev of Some p \<Rightarrow> segment p (x, y) | None \<Rightarrow> {(x, y)}) \<union> drawn (if line then Some (x, y) else None) line cs"
| "drawn prev line (LineStart # cs) = drawn None True cs"
| "drawn prev line (LineEnd # cs) = drawn None False cs"
| "drawn prev line (c # cs) = drawn prev line cs"

lemma drawn_point_call [simp]:
  "drawn prev line (point_call p # cs) = (case prev of Some q \<Rightarrow> segment q p | None \<Rightarrow> {p}) \<union> drawn (if line then Some p else None) line cs"
  by (cases p; cases prev) (simp_all add: point_call_def)

lemma grammar_point_call [simp]: "grammar Outside (point_call p) = Some Outside" "grammar InLine (point_call p) = Some InLine"
  by (simp_all add: point_call_def)

definition in_range :: "pt \<Rightarrow> bool" where
  "in_range p \<longleftrightarrow> \<bar>fst p\<bar> \<le> d3_geo_clipExtentMAX \<and> \<bar>snd p\<bar> \<le> d3_geo_clipExtentMAX"

lemma clamp_in_range: "in_range p \<Longrightarrow> (clip_clamp (fst p), clip_clamp (snd p)) = p"
  by (cases p) (auto simp: in_range_def clip_clamp_def abs_le_iff)

lemma linePoint_draws:
  assumes "in_range p" "\<not> ce_first s" "ce_visible s = pointVisible e (ce_prev s)"
  shows "\<exists>out. clip_linePoint e p s = (s\<lparr>ce_visible := pointVisible e p, ce_prev := p\<rparr>, out) \<and>
    (\<forall>rest. drawn (if ce_visible s then Some (ce_prev s) else None) (ce_visible s) (out @ rest) =
       (segment (ce_prev s) p \<inter> Collect (pointVisible e)) \<union> drawn (if pointVisible e p then Some p else None) (pointVisible e p) rest) \<and>
    run grammar (if ce_visible s then InLine else Outside) out = Some (if pointVisible e p then InLine else Outside)"
proof -
  let ?seg = "segment (ce_prev s) p \<inter> Collect (pointVisible e)"
  have ends: "ce_prev s \<in> segment (ce_prev s) p" "p \<in> segment (ce_prev s) p"
    by simp_all
  have upd: "s\<lparr>ce_first := False, ce_visible := v, ce_prev := q\<rparr> = s\<lparr>ce_visible := v, ce_prev := q\<rparr>" for v q
    using assms(2) by simp
  consider "pointVisible e p" "ce_visible s" | "\<not> (pointVisible e p \<and> ce_visible s)" "d3_geom_clipLine e (ce_prev s, p) = None"
    | a b where "\<not> (pointVisible e p \<and> ce_visible s)" "d3_geom_clipLine e (ce_prev s, p) = Some (a, b)"
    by (cases "d3_geom_clipLine e (ce_prev s, p)") auto
  thus ?thesis
  proof cases
    case 1
    hence "?seg = segment (ce_prev s) p"
      using visible_convex[of e "ce_prev s" p] assms(3) by blast
    thus ?thesis
      using 1 assms(2) by (simp add: clip_linePoint_def clamp_in_range[OF assms(1)] Let_def upd)
  next
    case 2
    have "?seg = {}"
      using clipLine_cases(1)[OF 2(2)] .
    moreover from this have "\<not> pointVisible e p" "\<not> ce_visible s"
      using ends assms(3) by blast+
    ultimately show ?thesis
      using 2 assms(2) by (simp add: clip_linePoint_def clamp_in_range[OF assms(1)] Let_def upd)
  next
    case (3 a b)
    note ab = clipLine_cases(2)[OF 3(2)]
    let ?out = "(if ce_visible s then [] else [LineStart, point_call a]) @ [point_call b] @ (if pointVisible e p then [] else [LineEnd])"
    have "clip_linePoint e p s = (s\<lparr>ce_visible := pointVisible e p, ce_prev := p\<rparr>, ?out)"
      using 3 assms(2) by (auto simp: clip_linePoint_def clamp_in_range[OF assms(1)] Let_def upd)
    moreover have "drawn (if ce_visible s then Some (ce_prev s) else None) (ce_visible s) (?out @ rest) =
        ?seg \<union> drawn (if pointVisible e p then Some p else None) (pointVisible e p) rest" for rest
    proof -
      have "drawn (if ce_visible s then Some (ce_prev s) else None) (ce_visible s) (?out @ rest) =
          segment a b \<union> drawn (if pointVisible e p then Some b else None) (pointVisible e p) rest"
        using ab assms(3) segment_ends(1)[of a b] 3(1) by (cases "ce_visible s"; cases "pointVisible e p") (simp_all add: insert_absorb)
      thus ?thesis
        using ab by simp
    qed
    ultimately show ?thesis
      by simp
  qed
qed

lemma clip_points_draw:
  assumes "ce_line s" "\<not> ce_first s" "ce_visible s = pointVisible e (ce_prev s)" "\<forall>p \<in> set ps. in_range p"
  shows "\<exists>s' out. clip_points e ps s = (s', out) \<and>
    drawn (if ce_visible s then Some (ce_prev s) else None) (ce_visible s) (out @ snd (clip_lineEnd s')) =
      drawn (Some (ce_prev s)) True (map point_call ps) \<inter> Collect (pointVisible e) \<and>
    run grammar (if ce_visible s then InLine else Outside) (out @ snd (clip_lineEnd s')) = Some Outside"
  using assms
proof (induction ps arbitrary: s)
  case Nil
  thus ?case
    by (simp add: clip_lineEnd_def)
next
  case (Cons p ps)
  obtain out1 where out1: "clip_linePoint e p s = (s\<lparr>ce_visible := pointVisible e p, ce_prev := p\<rparr>, out1)"
    "\<And>rest. drawn (if ce_visible s then Some (ce_prev s) else None) (ce_visible s) (out1 @ rest) =
       (segment (ce_prev s) p \<inter> Collect (pointVisible e)) \<union> drawn (if pointVisible e p then Some p else None) (pointVisible e p) rest"
    "run grammar (if ce_visible s then InLine else Outside) out1 = Some (if pointVisible e p then InLine else Outside)"
    using linePoint_draws[of p s e] Cons.prems by auto
  let ?s = "s\<lparr>ce_visible := pointVisible e p, ce_prev := p\<rparr>"
  obtain s' out where out: "clip_points e ps ?s = (s', out)"
    "drawn (if ce_visible ?s then Some (ce_prev ?s) else None) (ce_visible ?s) (out @ snd (clip_lineEnd s')) =
      drawn (Some (ce_prev ?s)) True (map point_call ps) \<inter> Collect (pointVisible e)"
    "run grammar (if ce_visible ?s then InLine else Outside) (out @ snd (clip_lineEnd s')) = Some Outside"
    using Cons.IH[of ?s] Cons.prems by auto
  have "clip_points e (p # ps) s = (s', out1 @ out)"
    using Cons.prems(1) out(1) out1(1) by (simp add: clip_point_def)
  thus ?case
    using out1(2)[of "out @ snd (clip_lineEnd s')"] out(2,3) out1(3) by (auto simp del: clip_points.simps)
qed

text \<open>
  (C16) Clipping lines.  A segment is clipped to exactly its part in the rectangle, or to nothing if it has none; and what the extent draws of a line, whose
  coordinates are at most \<open>10 ^ 9\<close>, is exactly what the line draws inside the rectangle, as well formed lines.
\<close>

theorem clip_lines_exact:
  assumes "\<forall>p \<in> set ps. in_range p"
  shows "(case d3_geom_clipLine e (a, b) of None \<Rightarrow> {} | Some (a', b') \<Rightarrow> segment a' b') = segment a b \<inter> Collect (pointVisible e)
    \<and> drawn None False (snd (clip_line e ps s)) = drawn None False (d3_geo_streamLine ps 0) \<inter> Collect (pointVisible e)
    \<and> run grammar Outside (snd (clip_line e ps s)) = Some Outside"
proof (intro conjI)
  show "(case d3_geom_clipLine e (a, b) of None \<Rightarrow> {} | Some (a', b') \<Rightarrow> segment a' b') = segment a b \<inter> Collect (pointVisible e)"
    using clipLine_cases[of e a b] by (auto split: option.splits)
  have append: "drawn q l (map point_call qs @ [LineEnd]) = drawn q l (map point_call qs)" for q l qs
    by (induction qs arbitrary: q) auto
  have "drawn None False (snd (clip_line e ps s)) = drawn None False (d3_geo_streamLine ps 0) \<inter> Collect (pointVisible e)
    \<and> run grammar Outside (snd (clip_line e ps s)) = Some Outside"
  proof (cases ps)
    case Nil
    thus ?thesis
      by (simp add: clip_line_def clip_lineStart_def clip_lineEnd_def d3_geo_streamLine_def)
  next
    case (Cons p qs)
    let ?s = "s\<lparr>ce_line := True, ce_first := False, ce_visible := pointVisible e p, ce_prev := p\<rparr>"
    obtain s' out where out: "clip_points e qs ?s = (s', out)"
      "drawn (if ce_visible ?s then Some (ce_prev ?s) else None) (ce_visible ?s) (out @ snd (clip_lineEnd s')) =
        drawn (Some (ce_prev ?s)) True (map point_call qs) \<inter> Collect (pointVisible e)"
      "run grammar (if ce_visible ?s then InLine else Outside) (out @ snd (clip_lineEnd s')) = Some Outside"
      using clip_points_draw[of ?s e qs] assms Cons by auto
    have "in_range p"
      using assms Cons by simp
    hence "snd (clip_line e ps s) = (if pointVisible e p then [LineStart, point_call p] else []) @ out @ snd (clip_lineEnd s')"
      using out(1) by (simp add: Cons clip_line_def clip_lineStart_def clip_point_def clip_linePoint_def Let_def clamp_in_range case_prod_unfold)
    thus ?thesis
      using out(2,3) append by (auto simp: Cons d3_geo_streamLine_def)
  qed
  thus "drawn None False (snd (clip_line e ps s)) = drawn None False (d3_geo_streamLine ps 0) \<inter> Collect (pointVisible e)"
    "run grammar Outside (snd (clip_line e ps s)) = Some Outside"
    by blast+
qed

theorem clip_lines_exact_witness:
  "(let e = \<lparr>b_x0 = 0, b_y0 = 0, b_x1 = 10, b_y1 = 10\<rparr>; line = [(- 5, 5), (5, 5), (15, 5)]
    in snd (clip_line e line clip_start) = [LineStart, Point 0 5, Point 5 5, Point 10 5, LineEnd]
      \<and> drawn None False (snd (clip_line e line clip_start)) = drawn None False (d3_geo_streamLine line 0) \<inter> Collect (pointVisible e))"
proof -
  have "\<forall>p \<in> set [(- 5, 5), (5, 5), (15, 5)]. in_range p"
    by (simp add: in_range_def d3_geo_clipExtentMAX_def)
  thus ?thesis
    using clip_lines_exact[of "[(- 5, 5), (5, 5), (15, 5)]"]
    by (simp add: Let_def clip_line_def clip_lineStart_def clip_lineEnd_def clip_point_def clip_linePoint_def clip_clamp_def d3_geo_clipExtentMAX_def
        pointVisible_def d3_geom_clipLine_def clip_params_def clip_lower_def clip_upper_def along_line_def point_call_def)
qed

end
