(* ===== verification/D3_Pack.thy ===== *)
theory D3_Pack
  imports D3_Hierarchy
begin

text \<open>
  The pack layout (\<open>d3.js\<close> lines 6920 to 7073): circles for the nodes of a hierarchy, those of the children inside that of their parent.

  The front chain of the code is a ring of nodes linked in both directions, held by two neighbours \<open>a\<close> and \<open>b\<close>.  Here it is a list
  from \<open>b\<close> on, which ends with \<open>a\<close>: inserting between them puts a circle in front, and splicing drops what lies between two members of
  the ring at one end of the list.  A circle is not changed while it is in the ring, so that the ring can hold the circles.
  Numbers are finite reals.
\<close>

section \<open>Circles\<close>

record circle =
  c_x :: real
  c_y :: real
  c_r :: real

definition d3_layout_packSort :: "'d hnode \<Rightarrow> 'd hnode \<Rightarrow> jsnum" where
  "d3_layout_packSort a b = (case (hn_value a, hn_value b) of (Some x, Some y) \<Rightarrow> Fin (x - y) | _ \<Rightarrow> NaN)"

definition d3_layout_packIntersects :: "circle \<Rightarrow> circle \<Rightarrow> bool" where
  "d3_layout_packIntersects a b = (let dx = c_x b - c_x a; dy = c_y b - c_y a; dr = c_r a + c_r b in 999 / 1000 * dr * dr > dx * dx + dy * dy)"

definition d3_layout_packPlace :: "circle \<Rightarrow> circle \<Rightarrow> real \<Rightarrow> circle" where
  "d3_layout_packPlace a b r =
     (let db = c_r a + r; dx = c_x b - c_x a; dy = c_y b - c_y a
      in if db \<noteq> 0 \<and> (dx \<noteq> 0 \<or> dy \<noteq> 0) then
           let da = (c_r b + r) * (c_r b + r); dc = dx * dx + dy * dy; db2 = db * db; x = 1 / 2 + (db2 - da) / (2 * dc);
               y = sqrt (max 0 (2 * da * (db2 + dc) - (db2 - dc) * (db2 - dc) - da * da)) / (2 * dc)
           in \<lparr>c_x = c_x a + x * dx + y * dy, c_y = c_y a + x * dy - y * dx, c_r = r\<rparr>
         else \<lparr>c_x = c_x a + db, c_y = c_y a, c_r = r\<rparr>)"

section \<open>Siblings\<close>

text \<open>
  The position in the ring of the first member after \<open>b\<close> that meets the circle, going forward; and of the last one before \<open>a\<close>
  going backward, not beyond the first.
\<close>

fun first_meeting :: "circle \<Rightarrow> circle list \<Rightarrow> nat \<Rightarrow> nat option" where
  "first_meeting c [] s = None"
| "first_meeting c (j # js) s = (if d3_layout_packIntersects j c then Some s else first_meeting c js (Suc s))"

fun last_meeting :: "circle \<Rightarrow> circle list \<Rightarrow> nat \<Rightarrow> nat \<Rightarrow> nat" where
  "last_meeting c ring j 0 = 0"
| "last_meeting c ring j (Suc k) = (if Suc k < j then Suc k else if d3_layout_packIntersects (ring ! Suc k) c then Suc k else last_meeting c ring j k)"

text \<open>
  The ring after a meeting at position \<open>j\<close>: \<open>s1\<close> and \<open>s2\<close> count the steps to the meetings in both directions.
\<close>

definition pack_splice :: "circle \<Rightarrow> circle list \<Rightarrow> nat \<Rightarrow> circle list" where
  "pack_splice c ring j =
     (let k = last_meeting c ring j (length ring - 2); s1 = j; s2 = length ring - 1 - k
      in if s1 < s2 \<or> s1 = s2 \<and> c_r (hd ring) < c_r (last ring) then drop j ring else take (Suc k) ring)"

lemma first_meeting_range: "first_meeting c js s = Some j \<Longrightarrow> s \<le> j \<and> j < s + length js"
  by (induction js arbitrary: s) (fastforce split: if_splits)+

lemma last_meeting_le: "last_meeting c ring j k \<le> k"
  by (induction k) auto

lemma pack_splice_shorter:
  assumes "first_meeting c (tl ring) 1 = Some j"
  shows "length (pack_splice c ring j) < length ring" "pack_splice c ring j \<noteq> []"
proof -
  have j: "1 \<le> j" "j < length ring"
    using first_meeting_range[OF assms] by (cases ring; simp)+
  have "last_meeting c ring j (length ring - 2) \<le> length ring - 2"
    by (rule last_meeting_le)
  thus "length (pack_splice c ring j) < length ring" "pack_splice c ring j \<noteq> []"
    using j by (auto simp: pack_splice_def Let_def)
qed

function pack_loop :: "circle list \<Rightarrow> real list \<Rightarrow> circle list \<Rightarrow> circle list" where
  "pack_loop ring [] placed = placed"
| "pack_loop ring (r # rs) placed =
     (let c = d3_layout_packPlace (last ring) (hd ring) r
      in case first_meeting c (tl ring) 1 of
           Some j \<Rightarrow> pack_loop (pack_splice c ring j) (r # rs) placed
         | None \<Rightarrow> pack_loop (c # ring) rs (placed @ [c]))"
  by pat_completeness auto

termination
  by (relation "measures [\<lambda>(ring, rs, placed). length rs, \<lambda>(ring, rs, placed). length ring]") (auto simp: pack_splice_shorter(1))

text \<open>The placed circles, in the order of the nodes, before they are centred.\<close>

definition pack_place_all :: "real list \<Rightarrow> circle list" where
  "pack_place_all rs = (case rs of
     [] \<Rightarrow> []
   | [r] \<Rightarrow> [\<lparr>c_x = - r, c_y = 0, c_r = r\<rparr>]
   | [r1, r2] \<Rightarrow> [\<lparr>c_x = - r1, c_y = 0, c_r = r1\<rparr>, \<lparr>c_x = r2, c_y = 0, c_r = r2\<rparr>]
   | r1 # r2 # r3 # rest \<Rightarrow>
       (let a = \<lparr>c_x = - r1, c_y = 0, c_r = r1\<rparr>; b = \<lparr>c_x = r2, c_y = 0, c_r = r2\<rparr>; c = d3_layout_packPlace a b r3
        in pack_loop [c, b, a] rest [a, b, c]))"

definition pack_bound :: "circle list \<Rightarrow> real \<times> real" where
  "pack_bound cs = (let xMin = Min (set (map (\<lambda>c. c_x c - c_r c) cs)); xMax = Max (set (map (\<lambda>c. c_x c + c_r c) cs));
     yMin = Min (set (map (\<lambda>c. c_y c - c_r c) cs)); yMax = Max (set (map (\<lambda>c. c_y c + c_r c) cs))
     in ((xMin + xMax) / 2, (yMin + yMax) / 2))"

definition centre_by :: "real \<times> real \<Rightarrow> circle \<Rightarrow> circle" where
  "centre_by m c = c\<lparr>c_x := c_x c - fst m, c_y := c_y c - snd m\<rparr>"

definition reach :: "circle \<Rightarrow> real" where
  "reach c = c_r c + sqrt (c_x c * c_x c + c_y c * c_y c)"

definition d3_layout_packSiblings :: "real list \<Rightarrow> circle list \<times> real" where
  "d3_layout_packSiblings rs =
     (let cs = pack_place_all rs; cs' = map (centre_by (pack_bound cs)) cs in (cs', foldl (\<lambda>cr c. max cr (reach c)) 0 cs'))"

section \<open>The layout\<close>

text \<open>A pass over the tree places the children of every node, after their own children, and sets the radius of the node from them.\<close>

fun pack_pass :: "circle rose \<Rightarrow> circle rose" where
  "pack_pass (Rose c ts) =
     (if ts = [] then Rose c []
      else let ts' = map pack_pass ts; (cs, r) = d3_layout_packSiblings (map (\<lambda>t. c_r (root t)) ts')
           in Rose (c\<lparr>c_r := r\<rparr>) (map2 (\<lambda>t q. Rose ((root t)\<lparr>c_x := c_x q, c_y := c_y q\<rparr>) (kids t)) ts' cs))"

fun d3_layout_packTransform :: "real \<Rightarrow> real \<Rightarrow> real \<Rightarrow> circle rose \<Rightarrow> circle rose" where
  "d3_layout_packTransform x y k (Rose c ts) =
     (let x' = x + k * c_x c; y' = y + k * c_y c
      in Rose \<lparr>c_x = x', c_y = y', c_r = c_r c * k\<rparr> (map (d3_layout_packTransform x' y' k) ts))"

datatype pack_radius = RadiusAuto | RadiusFunction "real \<Rightarrow> real" | RadiusConst real

record 'd pack =
  pk_hierarchy :: "'d hierarchy"
  pk_padding :: real
  pk_size :: "real \<times> real"
  pk_radius :: pack_radius

definition layout_pack :: "('d \<Rightarrow> nat \<Rightarrow> jsnum) \<Rightarrow> 'd pack" where
  "layout_pack val = \<lparr>pk_hierarchy = \<lparr>hy_sort = Some d3_layout_packSort, hy_value = Some val\<rparr>, pk_padding = 0, pk_size = (1, 1), pk_radius = RadiusAuto\<rparr>"

definition pack_set_size :: "'d pack \<Rightarrow> real \<times> real \<Rightarrow> 'd pack" where
  "pack_set_size pk x = pk\<lparr>pk_size := x\<rparr>"

definition pack_set_radius :: "'d pack \<Rightarrow> pack_radius \<Rightarrow> 'd pack" where
  "pack_set_radius pk x = pk\<lparr>pk_radius := x\<rparr>"

definition pack_set_padding :: "'d pack \<Rightarrow> real \<Rightarrow> 'd pack" where
  "pack_set_padding pk x = pk\<lparr>pk_padding := x\<rparr>"

definition fixed_radius :: "pack_radius \<Rightarrow> bool" where
  "fixed_radius rad = (case rad of RadiusAuto \<Rightarrow> False | RadiusFunction f \<Rightarrow> True | RadiusConst r \<Rightarrow> r \<noteq> 0)"

definition radius_of :: "pack_radius \<Rightarrow> real \<Rightarrow> real" where
  "radius_of rad v = (case rad of RadiusAuto \<Rightarrow> sqrt v | RadiusFunction f \<Rightarrow> f v | RadiusConst r \<Rightarrow> r)"

definition pack_grow :: "real \<Rightarrow> circle rose \<Rightarrow> circle rose" where
  "pack_grow dr = map_rose (\<lambda>c. c\<lparr>c_r := c_r c + dr\<rparr>)"

definition fit :: "real \<times> real \<Rightarrow> circle rose \<Rightarrow> real" where
  "fit sz t = max (2 * c_r (root t) / fst sz) (2 * c_r (root t) / snd sz)"

definition pack_padded :: "'d pack \<Rightarrow> circle rose \<Rightarrow> circle rose" where
  "pack_padded pk t =
     (if pk_padding pk = 0 then t
      else let dr = pk_padding pk * (if fixed_radius (pk_radius pk) then 1 else fit (pk_size pk) t) / 2
           in pack_grow (- dr) (pack_pass (pack_grow dr t)))"

text \<open>A node without a value, or with a negative one under the square root, or a root without a radius that the layout is scaled by, leaves no numbers.\<close>

definition no_radius :: "pack_radius \<Rightarrow> 'd hnode \<Rightarrow> bool" where
  "no_radius rad n = (case hn_value n of None \<Rightarrow> True | Some v \<Rightarrow> rad = RadiusAuto \<and> v < 0)"

definition pack_layout :: "'d pack \<Rightarrow> 'd rose \<Rightarrow> circle rose option" where
  "pack_layout pk d =
     (let h = hierarchy_tree (pk_hierarchy pk) d;
          t = pack_padded pk (pack_pass (map_rose (\<lambda>n. \<lparr>c_x = 0, c_y = 0, c_r = (case hn_value n of Some v \<Rightarrow> radius_of (pk_radius pk) v | None \<Rightarrow> 0)\<rparr>) h));
          sz = pk_size pk
      in if list_ex (no_radius (pk_radius pk)) (preorder h) \<or> \<not> fixed_radius (pk_radius pk) \<and> fit sz t = 0 then None
         else Some (d3_layout_packTransform (fst sz / 2) (snd sz / 2) (if fixed_radius (pk_radius pk) then 1 else 1 / fit sz t) t))"

section \<open>Siblings are enclosed\<close>

declare pack_loop.simps(2) [simp del]

lemma place_radius [simp]: "c_r (d3_layout_packPlace a b r) = r"
  by (simp add: d3_layout_packPlace_def Let_def)

lemma pack_loop_radii: "map c_r (pack_loop ring rs placed) = map c_r placed @ rs"
proof (induction ring rs placed rule: pack_loop.induct)
  case (2 ring r rs placed)
  thus ?case
    by (cases "first_meeting (d3_layout_packPlace (last ring) (hd ring) r) (tl ring) 1") (simp_all add: pack_loop.simps(2) Let_def)
qed simp

lemma pack_place_radii: "map c_r (pack_place_all rs) = rs"
  by (simp add: pack_place_all_def Let_def pack_loop_radii split: list.splits)

lemma foldl_max_start: "a \<le> foldl (\<lambda>m c. max m (reach c)) a cs"
  by (induction cs arbitrary: a) (auto intro: order_trans[OF max.cobounded1])

lemma foldl_max_reach: "c \<in> set cs \<Longrightarrow> reach c \<le> foldl (\<lambda>m c. max m (reach c)) a cs"
proof (induction cs arbitrary: a)
  case (Cons b cs)
  show ?case
  proof (cases "c = b")
    case True
    have "reach b \<le> max a (reach b)"
      by simp
    also have "\<dots> \<le> foldl (\<lambda>m c. max m (reach c)) (max a (reach b)) cs"
      by (rule foldl_max_start)
    finally show ?thesis
      using True by simp
  qed (use Cons in simp)
qed simp

lemma packSiblings_radii: "map c_r (fst (d3_layout_packSiblings rs)) = rs"
  using pack_place_radii[of rs] by (simp add: d3_layout_packSiblings_def Let_def o_def centre_by_def)

lemma packSiblings_encloses: "c \<in> set (fst (d3_layout_packSiblings rs)) \<Longrightarrow> reach c \<le> snd (d3_layout_packSiblings rs)"
  unfolding d3_layout_packSiblings_def Let_def fst_conv snd_conv by (rule foldl_max_reach)

text \<open>Positions of children are relative to their parent before the transformation.\<close>

fun nested_circles :: "circle rose \<Rightarrow> bool" where
  "nested_circles (Rose c ts) = list_all (\<lambda>t. reach (root t) \<le> c_r c \<and> nested_circles t) ts"

lemma nested_moved: "nested_circles (Rose ((root t)\<lparr>c_x := x, c_y := y\<rparr>) (kids t)) = nested_circles t"
  by (cases t) simp

lemma pack_pass_nested: "nested_circles (pack_pass t)"
proof (induction t rule: pack_pass.induct)
  case (1 c ts)
  show ?case
  proof (cases "ts = []")
    case False
    define rs where "rs = map (\<lambda>t. c_r (root t)) (map pack_pass ts)"
    obtain cs r where cs: "d3_layout_packSiblings rs = (cs, r)"
      by (cases "d3_layout_packSiblings rs")
    have rad: "map c_r cs = rs"
      using packSiblings_radii[of rs] by (simp add: cs)
    have len: "length cs = length ts"
      using arg_cong[OF rad, of length] by (simp add: rs_def)
    have "reach ((root (pack_pass (ts ! i)))\<lparr>c_x := c_x (cs ! i), c_y := c_y (cs ! i)\<rparr>) \<le> r" if "i < length ts" for i
    proof -
      have "c_r (cs ! i) = c_r (root (pack_pass (ts ! i)))"
        using arg_cong[OF rad, of "\<lambda>l. l ! i"] that len by (simp add: rs_def)
      hence "reach ((root (pack_pass (ts ! i)))\<lparr>c_x := c_x (cs ! i), c_y := c_y (cs ! i)\<rparr>) = reach (cs ! i)"
        by (simp add: reach_def)
      thus ?thesis
        using packSiblings_encloses[of "cs ! i" rs] that len by (simp add: cs)
    qed
    moreover have "nested_circles (pack_pass (ts ! i))" if "i < length ts" for i
      using 1 False that by simp
    moreover have "pack_pass (Rose c ts) = Rose (c\<lparr>c_r := r\<rparr>) (map2 (\<lambda>t q. Rose ((root t)\<lparr>c_x := c_x q, c_y := c_y q\<rparr>) (kids t)) (map pack_pass ts) cs)"
      using False cs unfolding rs_def pack_pass.simps Let_def by simp
    ultimately show ?thesis
      using len by (simp add: list_all_length nested_moved del: pack_pass.simps nested_circles.simps) (simp only: nested_circles.simps list_all_length, simp add: nested_moved del: nested_circles.simps pack_pass.simps)
  qed simp
qed

section \<open>The layout fits\<close>

definition inside :: "circle \<Rightarrow> circle \<Rightarrow> bool" where
  "inside c p \<longleftrightarrow> sqrt ((c_x c - c_x p) * (c_x c - c_x p) + (c_y c - c_y p) * (c_y c - c_y p)) + c_r c \<le> c_r p"

fun contains :: "circle rose \<Rightarrow> bool" where
  "contains (Rose c ts) = list_all (\<lambda>t. inside (root t) c \<and> contains t) ts"

definition in_rect :: "real \<times> real \<Rightarrow> circle \<Rightarrow> bool" where
  "in_rect sz c \<longleftrightarrow> c_r c \<le> c_x c \<and> c_x c + c_r c \<le> fst sz \<and> c_r c \<le> c_y c \<and> c_y c + c_r c \<le> snd sz"

lemma root_map_rose [simp]: "root (map_rose f t) = f (root t)"
  by (cases t) simp

lemma nested_grow: "nested_circles (pack_grow e t) = nested_circles t"
  by (induction t rule: nested_circles.induct) (auto simp: pack_grow_def list_all_iff reach_def)

lemma root_transform: "root (d3_layout_packTransform x y k t) = \<lparr>c_x = x + k * c_x (root t), c_y = y + k * c_y (root t), c_r = c_r (root t) * k\<rparr>"
  by (cases t) (simp add: Let_def)

lemma sqrt_scaled: "0 \<le> k \<Longrightarrow> sqrt (k * a * (k * a) + k * b * (k * b)) = k * sqrt (a * a + b * b)"
proof -
  assume "0 \<le> k"
  have "k * a * (k * a) + k * b * (k * b) = k\<^sup>2 * (a * a + b * b)"
    by (simp add: power2_eq_square algebra_simps)
  thus ?thesis
    using \<open>0 \<le> k\<close> by (simp add: real_sqrt_mult)
qed

lemma transform_contains: "0 \<le> k \<Longrightarrow> nested_circles t \<Longrightarrow> contains (d3_layout_packTransform x y k t)"
proof (induction t arbitrary: x y rule: nested_circles.induct)
  case (1 c ts)
  have "inside (root (d3_layout_packTransform x' y' k t)) \<lparr>c_x = x', c_y = y', c_r = c_r c * k\<rparr>" if "t \<in> set ts" for t x' y'
  proof -
    have "sqrt (k * c_x (root t) * (k * c_x (root t)) + k * c_y (root t) * (k * c_y (root t))) = k * sqrt (c_x (root t) * c_x (root t) + c_y (root t) * c_y (root t))"
      using 1(2) by (rule sqrt_scaled)
    moreover have "k * reach (root t) \<le> k * c_r c"
      using 1(2,3) that by (intro mult_left_mono) (auto simp: list_all_iff)
    ultimately show ?thesis
      by (simp add: inside_def root_transform reach_def algebra_simps)
  qed
  thus ?case
    using 1 by (simp add: Let_def list_all_iff)
qed

lemma inside_rect:
  assumes "inside c p" "in_rect sz p"
  shows "in_rect sz c"
proof -
  let ?x = "c_x c - c_x p" and ?y = "c_y c - c_y p"
  have "\<bar>?x\<bar> \<le> sqrt (?x * ?x + ?y * ?y)" "\<bar>?y\<bar> \<le> sqrt (?x * ?x + ?y * ?y)"
    by (rule real_le_rsqrt; simp add: power2_eq_square)+
  thus ?thesis
    using assms unfolding inside_def in_rect_def by (intro conjI; linarith)
qed

lemma contains_rect: "contains t \<Longrightarrow> in_rect sz (root t) \<Longrightarrow> c \<in> set (preorder t) \<Longrightarrow> in_rect sz c"
  by (induction t rule: contains.induct) (auto simp: list_all_iff intro: inside_rect)

fun leaves :: "'a rose \<Rightarrow> 'a list" where
  "leaves (Rose a ts) = (if ts = [] then [a] else concat (map leaves ts))"

text \<open>The radius of a packed node is at least that of every leaf below it.\<close>

lemma pack_pass_root: "c_x (root (pack_pass t)) = c_x (root t)" "c_y (root (pack_pass t)) = c_y (root t)"
  by (cases t; simp add: Let_def split: prod.splits)+

lemma pack_pass_leaf: "c \<in> set (leaves t) \<Longrightarrow> c_r c \<le> c_r (root (pack_pass t))"
proof (induction t rule: pack_pass.induct)
  case (1 a ts)
  show ?case
  proof (cases "ts = []")
    case False
    then obtain t where t: "t \<in> set ts" "c \<in> set (leaves t)"
      using "1.prems" by auto
    define rs where "rs = map (\<lambda>t. c_r (root t)) (map pack_pass ts)"
    have "c_r (root (pack_pass t)) \<in> set (map c_r (fst (d3_layout_packSiblings rs)))"
      using t(1) unfolding packSiblings_radii by (simp add: rs_def)
    then obtain q where q: "q \<in> set (fst (d3_layout_packSiblings rs))" "c_r q = c_r (root (pack_pass t))"
      by auto
    have "c_r q \<le> reach q"
      by (simp add: reach_def)
    also have "\<dots> \<le> snd (d3_layout_packSiblings rs)"
      using q(1) by (rule packSiblings_encloses)
    finally have "c_r (root (pack_pass t)) \<le> c_r (root (pack_pass (Rose a ts)))"
      using q(2) False by (simp add: rs_def Let_def o_def case_prod_unfold)
    moreover have "c_r c \<le> c_r (root (pack_pass t))"
      using "1.IH" False t by blast
    ultimately show ?thesis
      by linarith
  qed (use "1.prems" in simp)
qed

lemma leaves_map: "leaves (map_rose f t) = map f (leaves t)"
  by (induction t rule: leaves.induct) (auto simp: map_concat o_def intro!: arg_cong[where f = concat] map_cong)

lemma leaves_moved: "map c_r (leaves (Rose ((root t)\<lparr>c_x := x, c_y := y\<rparr>) (kids t))) = map c_r (leaves t)"
  by (cases t) simp

lemma pack_pass_leaves: "map c_r (leaves (pack_pass t)) = map c_r (leaves t)"
proof (induction t rule: pack_pass.induct)
  case (1 c ts)
  show ?case
  proof (cases "ts = []")
    case False
    define rs where "rs = map (\<lambda>t. c_r (root t)) (map pack_pass ts)"
    obtain cs r where cs: "d3_layout_packSiblings rs = (cs, r)"
      by (cases "d3_layout_packSiblings rs")
    have len: "length cs = length ts"
      using arg_cong[OF packSiblings_radii[of rs], of length] unfolding cs fst_conv by (simp add: rs_def)
    have pass: "pack_pass (Rose c ts) = Rose (c\<lparr>c_r := r\<rparr>) (map2 (\<lambda>t q. Rose ((root t)\<lparr>c_x := c_x q, c_y := c_y q\<rparr>) (kids t)) (map pack_pass ts) cs)"
      using False cs unfolding rs_def pack_pass.simps Let_def by simp
    have "map (\<lambda>t. map c_r (leaves t)) (map2 (\<lambda>t q. Rose ((root t)\<lparr>c_x := c_x q, c_y := c_y q\<rparr>) (kids t)) (map pack_pass ts) cs) = map (\<lambda>t. map c_r (leaves t)) ts"
      using len "1.IH" False by (auto intro!: nth_equalityI simp: leaves_moved simp del: leaves.simps)
    moreover have "map2 (\<lambda>t q. Rose ((root t)\<lparr>c_x := c_x q, c_y := c_y q\<rparr>) (kids t)) (map pack_pass ts) cs \<noteq> []"
      using False len by (cases ts; cases cs) auto
    ultimately show ?thesis
      using False unfolding pass leaves.simps by (simp only: if_False map_concat map_map o_def)
  qed simp
qed

lemma pack_padded_nested: "nested_circles (pack_padded pk (pack_pass t))"
  by (simp add: pack_padded_def Let_def nested_grow pack_pass_nested)

lemma pack_padded_root: "c_x (root (pack_padded pk t)) = c_x (root t)" "c_y (root (pack_padded pk t)) = c_y (root t)"
  by (simp_all add: pack_padded_def Let_def pack_grow_def pack_pass_root)

lemma pack_padded_leaf:
  assumes "c \<in> set (leaves t)"
  shows "c_r c \<le> c_r (root (pack_padded pk (pack_pass t)))"
proof -
  define dr where "dr = pk_padding pk * (if fixed_radius (pk_radius pk) then 1 else fit (pk_size pk) (pack_pass t)) / 2"
  have "c_r c \<in> set (map c_r (leaves (pack_pass t)))"
    using assms unfolding pack_pass_leaves by simp
  then obtain q where q: "q \<in> set (leaves (pack_pass t))" "c_r q = c_r c"
    by auto
  have "q\<lparr>c_r := c_r q + dr\<rparr> \<in> set (leaves (pack_grow dr (pack_pass t)))"
    using q(1) by (simp add: pack_grow_def leaves_map)
  from pack_pass_leaf[OF this] show ?thesis
    using pack_pass_leaf[OF assms] q(2) by (simp add: pack_padded_def dr_def[symmetric] Let_def pack_grow_def)
qed


definition two_circles :: "real pack" where
  "two_circles = pack_set_size ((layout_pack (\<lambda>v depth. Fin v))\<lparr>pk_hierarchy := \<lparr>hy_sort = None, hy_value = Some (\<lambda>v depth. Fin v)\<rparr>\<rparr>) (60, 40)"


section \<open>The front chain\<close>

definition distance2 :: "circle \<Rightarrow> circle \<Rightarrow> real" where
  "distance2 a b = (c_x b - c_x a) * (c_x b - c_x a) + (c_y b - c_y a) * (c_y b - c_y a)"

text \<open>
  Circles are far enough apart when the square of the distance of their centres is at least 999 thousandths of the square of the sum of their radii; circles
  that touch or are further apart are.
\<close>

definition apart :: "circle \<Rightarrow> circle \<Rightarrow> bool" where
  "apart a b \<longleftrightarrow> 999 / 1000 * (c_r a + c_r b) ^ 2 \<le> distance2 a b"

lemma apart_iff: "apart a b \<longleftrightarrow> \<not> d3_layout_packIntersects a b"
  by (simp add: apart_def d3_layout_packIntersects_def Let_def distance2_def power2_eq_square not_less mult.assoc)

lemma apart_commute: "apart a b = apart b a"
  by (simp add: apart_iff d3_layout_packIntersects_def Let_def algebra_simps)

lemma apart_far: "(c_r a + c_r b) * (c_r a + c_r b) \<le> distance2 a b \<Longrightarrow> apart a b"
proof -
  assume far: "(c_r a + c_r b) * (c_r a + c_r b) \<le> distance2 a b"
  have "999 / 1000 * (c_r a + c_r b) * (c_r a + c_r b) \<le> 1 * ((c_r a + c_r b) * (c_r a + c_r b))"
    unfolding mult.assoc by (rule mult_right_mono) simp_all
  thus ?thesis
    using far by (simp add: apart_iff d3_layout_packIntersects_def Let_def distance2_def)
qed

text \<open>
  The circle placed beside two others reaches neither: where a triangle with the sums of the radii as its sides exists it touches both, and otherwise it lies on the line through their
  centres and is further away.
\<close>

lemma place_distances:
  fixes dx dy da db x y :: real
  assumes "dx \<noteq> 0 \<or> dy \<noteq> 0"
  defines "dc \<equiv> dx * dx + dy * dy"
  assumes "x = 1 / 2 + (db - da) / (2 * dc)" "y = sqrt (max 0 (2 * da * (db + dc) - (db - dc) * (db - dc) - da * da)) / (2 * dc)"
  shows "db \<le> (x * dx + y * dy) * (x * dx + y * dy) + (x * dy - y * dx) * (x * dy - y * dx)"
    "da \<le> (x * dx + y * dy - dx) * (x * dx + y * dy - dx) + (x * dy - y * dx - dy) * (x * dy - y * dx - dy)"
proof -
  define E where "E = 2 * da * (db + dc) - (db - dc) * (db - dc) - da * da"
  have dc: "0 < dc"
    using assms(1) by (auto simp: dc_def sum_squares_gt_zero_iff)
  have y: "4 * dc * dc * (y * y) = max 0 E"
  proof -
    have "2 * dc * y = sqrt (max 0 E)"
      using dc unfolding assms(4) E_def[symmetric] by simp
    hence "(2 * dc * y) * (2 * dc * y) = max 0 E"
      by simp
    thus ?thesis
      by (simp add: algebra_simps)
  qed
  have x: "2 * dc * x = dc + db - da"
    using dc by (simp add: assms(3) field_simps)
  have "(2 * dc * x) * (2 * dc * x) + E = 4 * db * dc"
    unfolding x E_def by (simp add: algebra_simps)
  hence "4 * dc * db \<le> 4 * dc * (dc * (x * x + y * y))"
    using y by (simp add: algebra_simps)
  hence "db \<le> dc * (x * x + y * y)"
    using dc by simp
  also have "dc * (x * x + y * y) = (x * dx + y * dy) * (x * dx + y * dy) + (x * dy - y * dx) * (x * dy - y * dx)"
    by (simp add: dc_def algebra_simps)
  finally show "db \<le> (x * dx + y * dy) * (x * dx + y * dy) + (x * dy - y * dx) * (x * dy - y * dx)" .
  have x': "2 * dc * (1 - x) = dc - db + da"
    using x by (simp add: algebra_simps)
  have "4 * dc * da = (2 * dc * (1 - x)) * (2 * dc * (1 - x)) + E"
    unfolding x' E_def by (simp add: algebra_simps)
  also have "\<dots> \<le> (2 * dc * (1 - x)) * (2 * dc * (1 - x)) + 4 * dc * dc * (y * y)"
    unfolding y by simp
  also have "\<dots> = 4 * dc * (dc * ((1 - x) * (1 - x) + y * y))"
    by (simp add: algebra_simps)
  finally have "4 * dc * da \<le> 4 * dc * (dc * ((1 - x) * (1 - x) + y * y))" .
  hence "da \<le> dc * ((1 - x) * (1 - x) + y * y)"
    using dc by simp
  also have "dc * ((1 - x) * (1 - x) + y * y) = (x * dx + y * dy - dx) * (x * dx + y * dy - dx) + (x * dy - y * dx - dy) * (x * dy - y * dx - dy)"
    by (simp add: dc_def algebra_simps)
  finally show "da \<le> (x * dx + y * dy - dx) * (x * dx + y * dy - dx) + (x * dy - y * dx - dy) * (x * dy - y * dx - dy)" .
qed

lemma place_apart:
  assumes "0 < c_r a" "0 < c_r b" "0 < r" "a = b \<or> apart a b"
  shows "apart a (d3_layout_packPlace a b r)" "apart b (d3_layout_packPlace a b r)"
proof -
  let ?dx = "c_x b - c_x a" and ?dy = "c_y b - c_y a" and ?c = "d3_layout_packPlace a b r"
  have "(c_r a + r) * (c_r a + r) \<le> distance2 a ?c \<and> (c_r b + r) * (c_r b + r) \<le> distance2 b ?c"
  proof (cases "?dx \<noteq> 0 \<or> ?dy \<noteq> 0")
    case True
    define dc where "dc = ?dx * ?dx + ?dy * ?dy"
    define da where "da = (c_r b + r) * (c_r b + r)"
    define db where "db = (c_r a + r) * (c_r a + r)"
    define x where "x = 1 / 2 + (db - da) / (2 * dc)"
    define y where "y = sqrt (max 0 (2 * da * (db + dc) - (db - dc) * (db - dc) - da * da)) / (2 * dc)"
    have "c_r a + r \<noteq> 0"
      using assms by simp
    hence c: "c_x ?c - c_x a = x * ?dx + y * ?dy" "c_y ?c - c_y a = x * ?dy - y * ?dx"
      using True unfolding d3_layout_packPlace_def Let_def x_def y_def dc_def da_def db_def by simp_all
    hence "c_x ?c - c_x b = x * ?dx + y * ?dy - ?dx" "c_y ?c - c_y b = x * ?dy - y * ?dx - ?dy"
      by linarith+
    thus ?thesis
      using place_distances[OF True, of x db da y] c unfolding distance2_def db_def[symmetric] da_def[symmetric] dc_def[symmetric] x_def y_def by metis
  next
    case False
    have "a = b"
    proof (rule ccontr)
      assume "a \<noteq> b"
      hence "apart a b"
        using assms(4) by blast
      moreover have "0 < 999 / 1000 * (c_r a + c_r b) * (c_r a + c_r b)"
        using assms(1,2) by simp
      ultimately show False
        using False by (simp add: apart_iff d3_layout_packIntersects_def Let_def)
    qed
    thus ?thesis
      by (simp add: distance2_def d3_layout_packPlace_def)
  qed
  thus "apart a ?c" "apart b ?c"
    by (auto intro: apart_far)
qed

text \<open>The loop over the siblings as steps of its state: the ring, the radii of the nodes that are left, the placed circles.\<close>

inductive pack_step :: "circle list \<times> real list \<times> circle list \<Rightarrow> circle list \<times> real list \<times> circle list \<Rightarrow> bool" where
  meets: "first_meeting (d3_layout_packPlace (last ring) (hd ring) r) (tl ring) 1 = Some j \<Longrightarrow>
    pack_step (ring, r # rs, placed) (pack_splice (d3_layout_packPlace (last ring) (hd ring) r) ring j, r # rs, placed)"
| puts: "first_meeting (d3_layout_packPlace (last ring) (hd ring) r) (tl ring) 1 = None \<Longrightarrow>
    pack_step (ring, r # rs, placed) (d3_layout_packPlace (last ring) (hd ring) r # ring, rs, placed @ [d3_layout_packPlace (last ring) (hd ring) r])"

lemma pack_loop_steps: "\<exists>ring'. pack_step\<^sup>*\<^sup>* (ring, rs, placed) (ring', [], pack_loop ring rs placed)"
proof (induction ring rs placed rule: pack_loop.induct)
  case (2 ring r rs placed)
  let ?c = "d3_layout_packPlace (last ring) (hd ring) r"
  show ?case
  proof (cases "first_meeting ?c (tl ring) 1")
    case None
    thus ?thesis
      using 2(1)[OF refl None] puts[OF None, of rs placed] by (auto simp: pack_loop.simps(2) Let_def intro: converse_rtranclp_into_rtranclp)
  next
    case (Some j)
    thus ?thesis
      using 2(2)[OF refl Some] meets[OF Some, of rs placed] by (auto simp: pack_loop.simps(2) Let_def intro: converse_rtranclp_into_rtranclp)
  qed
qed auto

definition front_ok :: "circle list \<times> real list \<times> circle list \<Rightarrow> bool" where
  "front_ok s \<longleftrightarrow> (case s of (ring, rs, placed) \<Rightarrow> ring \<noteq> [] \<and> sorted_wrt apart ring \<and> set ring \<subseteq> set placed \<and> (\<forall>c \<in> set ring. 0 < c_r c) \<and> (\<forall>r \<in> set rs. 0 < r))"

lemma first_meeting_None: "first_meeting c js s = None \<Longrightarrow> j \<in> set js \<Longrightarrow> apart j c"
  by (induction js arbitrary: s) (auto simp: apart_iff split: if_splits)

lemma pack_splice_part: "\<exists>xs ys. ring = xs @ pack_splice c ring j @ ys"
proof -
  have "\<exists>xs ys. ring = xs @ drop j ring @ ys"
    by (intro exI[of _ "take j ring"] exI[of _ "[]"]) simp
  moreover have "\<exists>xs ys. ring = xs @ take k ring @ ys" for k
    by (intro exI[of _ "[]"] exI[of _ "drop k ring"]) simp
  ultimately show ?thesis
    by (simp add: pack_splice_def Let_def)
qed

lemma front_ok_part: "front_ok (xs @ zs @ ys, rs, placed) \<Longrightarrow> zs \<noteq> [] \<Longrightarrow> front_ok (zs, rs, placed)"
  by (auto simp: front_ok_def sorted_wrt_append)

lemma front_ok_step: "pack_step s s' \<Longrightarrow> front_ok s \<Longrightarrow> front_ok s'"
proof (induction rule: pack_step.induct)
  case (meets ring r j rs placed)
  let ?ring = "pack_splice (d3_layout_packPlace (last ring) (hd ring) r) ring j"
  obtain xs ys where "ring = xs @ ?ring @ ys"
    using pack_splice_part by blast
  moreover have "?ring \<noteq> []"
    using pack_splice_shorter(2)[OF meets.hyps] .
  ultimately show ?case
    using meets.prems front_ok_part by metis
next
  case (puts ring r rs placed)
  let ?c = "d3_layout_packPlace (last ring) (hd ring) r"
  have ok: "ring \<noteq> []" "sorted_wrt apart ring" "\<And>c. c \<in> set ring \<Longrightarrow> 0 < c_r c" "0 < r"
    using puts.prems by (auto simp: front_ok_def)
  obtain b ds where ring: "ring = b # ds"
    using ok(1) by (cases ring) auto
  have "last ring = hd ring \<or> apart (last ring) (hd ring)"
    using ok(2) apart_commute by (cases ds) (auto simp: ring)
  hence "apart (hd ring) ?c"
    using ok by (intro place_apart(2)) simp_all
  moreover have "apart d ?c" if "d \<in> set ds" for d
    using first_meeting_None[OF puts.hyps] that by (simp add: ring)
  ultimately have "apart ?c d" if "d \<in> set ring" for d
    using that apart_commute by (auto simp: ring)
  thus ?case
    using puts.prems ok by (auto simp: front_ok_def)
qed

lemma front_ok_run: "pack_step\<^sup>*\<^sup>* s s' \<Longrightarrow> front_ok s \<Longrightarrow> front_ok s'"
  by (induction rule: rtranclp_induct) (auto intro: front_ok_step)

definition pack_begin :: "real \<Rightarrow> real \<Rightarrow> real \<Rightarrow> circle list" where
  "pack_begin r1 r2 r3 = (let a = \<lparr>c_x = - r1, c_y = 0, c_r = r1\<rparr>; b = \<lparr>c_x = r2, c_y = 0, c_r = r2\<rparr> in [a, b, d3_layout_packPlace a b r3])"

lemma pack_begin_ok:
  assumes "0 < r1" "0 < r2" "0 < r3" "\<forall>r \<in> set rs. 0 < r"
  shows "front_ok (rev (pack_begin r1 r2 r3), rs, pack_begin r1 r2 r3)"
proof -
  let ?a = "\<lparr>c_x = - r1, c_y = 0, c_r = r1\<rparr>" and ?b = "\<lparr>c_x = r2, c_y = 0, c_r = r2\<rparr>"
  have ab: "apart ?a ?b"
    by (rule apart_far) (simp add: distance2_def algebra_simps)
  have "apart ?a (d3_layout_packPlace ?a ?b r3)" "apart ?b (d3_layout_packPlace ?a ?b r3)"
    using assms ab by (intro place_apart; simp)+
  thus ?thesis
    using assms ab apart_commute by (auto simp: front_ok_def pack_begin_def Let_def)
qed

text \<open>
  (C32) The front chain of a packing.  While the siblings of a node, at least three, all of positive radius, are placed, the loop ends with all of them placed,
  and at every moment any two circles of the front chain are apart up to the tolerance of the code: the square of the distance of their centres is at least
  .999 times the square of the sum of their radii.  The new circle keeps this distance from the two it is placed
  beside, whether or not it can touch both, and from all others of the chain.
\<close>

theorem pack_front_apart:
  assumes "0 < r1" "0 < r2" "0 < r3" "\<forall>r \<in> set rest. 0 < r"
  shows "(\<exists>ring. pack_step\<^sup>*\<^sup>* (rev (pack_begin r1 r2 r3), rest, pack_begin r1 r2 r3) (ring, [], pack_place_all (r1 # r2 # r3 # rest)))
    \<and> map c_r (pack_place_all (r1 # r2 # r3 # rest)) = r1 # r2 # r3 # rest
    \<and> (\<forall>ring rs placed. pack_step\<^sup>*\<^sup>* (rev (pack_begin r1 r2 r3), rest, pack_begin r1 r2 r3) (ring, rs, placed) \<longrightarrow>
        set ring \<subseteq> set placed \<and> sorted_wrt (\<lambda>p q. 999 / 1000 * (c_r p + c_r q) ^ 2 \<le> (c_x q - c_x p) ^ 2 + (c_y q - c_y p) ^ 2) ring)"
proof -
  have "pack_place_all (r1 # r2 # r3 # rest) = pack_loop (rev (pack_begin r1 r2 r3)) rest (pack_begin r1 r2 r3)"
    by (simp add: pack_place_all_def pack_begin_def Let_def)
  moreover have "apart = (\<lambda>p q. 999 / 1000 * (c_r p + c_r q) ^ 2 \<le> (c_x q - c_x p) ^ 2 + (c_y q - c_y p) ^ 2)"
    by (simp add: fun_eq_iff apart_def distance2_def power2_eq_square)
  moreover have "set ring \<subseteq> set placed \<and> sorted_wrt apart ring"
    if "pack_step\<^sup>*\<^sup>* (rev (pack_begin r1 r2 r3), rest, pack_begin r1 r2 r3) (ring, rs, placed)" for ring rs placed
    using front_ok_run[OF that pack_begin_ok[OF assms]] by (simp add: front_ok_def)
  ultimately show ?thesis
    using pack_loop_steps[of "rev (pack_begin r1 r2 r3)" rest "pack_begin r1 r2 r3"] pack_place_radii[of "r1 # r2 # r3 # rest"] by auto
qed

theorem pack_front_apart_witness:
  "\<exists>ring. pack_step\<^sup>*\<^sup>* (rev (pack_begin 1 1 1), [2], pack_begin 1 1 1) (ring, [], pack_place_all [1, 1, 1, 2])
    \<and> sorted_wrt (\<lambda>p q. 999 / 1000 * (c_r p + c_r q) ^ 2 \<le> (c_x q - c_x p) ^ 2 + (c_y q - c_y p) ^ 2) ring"
  using pack_front_apart[of 1 1 1 "[2]"] by auto

end
