(* ===== verification/D3_Brush.thy ===== *)
theory D3_Brush
  imports JS_Prelude Complex_Main
begin

text \<open>
  The brush (\<open>d3.js\<close> lines 8803 to 9081): the extent of a brush, its settings, and the handlers of pointer and key events as a state machine.

  Drawing the extent and its handles, and registering listeners, is left to the document.  A press tells which part of the drawing it hit.
  The scales of a brush are their map, their inverse if they have one, and their range with its ends in order.  Extents in transition are not modelled.
\<close>

section \<open>State\<close>

record brush_scale =
  bs_apply :: "real \<Rightarrow> real"
  bs_invert :: "(real \<Rightarrow> real) option"
  bs_range :: "real \<times> real"

datatype handle = HN | HE | HS | HW | HNW | HNE | HSE | HSW

datatype hit = Background | ExtentRect | Handle handle

datatype dragging = Resizing | Moving | SpaceMoving

record gesture =
  g_resizingX :: bool
  g_resizingY :: bool
  g_dragging :: dragging
  g_center :: "(real \<times> real) option"
  g_origin :: "real \<times> real"
  g_offset :: "(real \<times> real) option"

datatype brush_event = BrushStart | BrushMode bool | BrushEnd

record brush =
  br_x :: "brush_scale option"
  br_y :: "brush_scale option"
  br_xExtent :: "real \<times> real"
  br_yExtent :: "real \<times> real"
  br_xDomain :: "(real \<times> real) option"
  br_yDomain :: "(real \<times> real) option"
  br_xClamp :: bool
  br_yClamp :: bool
  br_gesture :: "gesture option"
  br_events :: "brush_event list"

definition svg_brush :: brush where
  "svg_brush = \<lparr>br_x = None, br_y = None, br_xExtent = (0, 0), br_yExtent = (0, 0), br_xDomain = None, br_yDomain = None,
     br_xClamp = True, br_yClamp = True, br_gesture = None, br_events = []\<rparr>"

definition brush_report :: "brush_event \<Rightarrow> brush \<Rightarrow> brush" where
  "brush_report e b = b\<lparr>br_events := br_events b @ [e]\<rparr>"

section \<open>Settings\<close>

definition brush_set_x :: "brush_scale option \<Rightarrow> brush \<Rightarrow> brush" where
  "brush_set_x z b = b\<lparr>br_x := z\<rparr>"

definition brush_set_y :: "brush_scale option \<Rightarrow> brush \<Rightarrow> brush" where
  "brush_set_y z b = b\<lparr>br_y := z\<rparr>"

definition d3_svg_brushResizes :: "brush \<Rightarrow> handle list" where
  "d3_svg_brushResizes b = (case (br_x b, br_y b) of
     (Some _, Some _) \<Rightarrow> [HN, HE, HS, HW, HNW, HNE, HSE, HSW] | (Some _, None) \<Rightarrow> [HE, HW] | (None, Some _) \<Rightarrow> [HN, HS] | (None, None) \<Rightarrow> [])"

text \<open>The clamp is set for both dimensions, or for the one there is.\<close>

definition brush_set_clamp :: "bool \<times> bool \<Rightarrow> brush \<Rightarrow> brush" where
  "brush_set_clamp z b = (case (br_x b, br_y b) of
     (Some _, Some _) \<Rightarrow> b\<lparr>br_xClamp := fst z, br_yClamp := snd z\<rparr>
   | (Some _, None) \<Rightarrow> b\<lparr>br_xClamp := fst z\<rparr>
   | (None, Some _) \<Rightarrow> b\<lparr>br_yClamp := fst z\<rparr>
   | (None, None) \<Rightarrow> b)"

definition ends_in_order :: "real \<times> real \<Rightarrow> real \<times> real" where
  "ends_in_order e = (if snd e < fst e then (snd e, fst e) else e)"

definition extent_get :: "brush_scale \<Rightarrow> (real \<times> real) option \<Rightarrow> real \<times> real \<Rightarrow> real \<times> real" where
  "extent_get s dmn e = (case dmn of
     Some d \<Rightarrow> d
   | None \<Rightarrow> ends_in_order (case bs_invert s of None \<Rightarrow> e | Some f \<Rightarrow> (f (fst e), f (snd e))))"

definition extent_set :: "brush_scale \<Rightarrow> real \<times> real \<Rightarrow> real \<times> real" where
  "extent_set s z = ends_in_order (if bs_invert s = None then z else (bs_apply s (fst z), bs_apply s (snd z)))"

text \<open>The extent for each dimension that has a scale.\<close>

definition brush_extent :: "brush \<Rightarrow> (real \<times> real) option \<times> (real \<times> real) option" where
  "brush_extent b = (map_option (\<lambda>s. extent_get s (br_xDomain b) (br_xExtent b)) (br_x b), map_option (\<lambda>s. extent_get s (br_yDomain b) (br_yExtent b)) (br_y b))"

definition brush_set_extent :: "real \<times> real \<Rightarrow> real \<times> real \<Rightarrow> brush \<Rightarrow> brush" where
  "brush_set_extent zx zy b =
     (let b1 = (case br_x b of None \<Rightarrow> b | Some s \<Rightarrow> b\<lparr>br_xDomain := Some zx, br_xExtent := extent_set s zx\<rparr>)
      in case br_y b1 of None \<Rightarrow> b1 | Some s \<Rightarrow> b1\<lparr>br_yDomain := Some zy, br_yExtent := extent_set s zy\<rparr>)"

definition brush_empty :: "brush \<Rightarrow> bool" where
  "brush_empty b \<longleftrightarrow> br_x b \<noteq> None \<and> fst (br_xExtent b) = snd (br_xExtent b) \<or> br_y b \<noteq> None \<and> fst (br_yExtent b) = snd (br_yExtent b)"

definition brush_clear :: "brush \<Rightarrow> brush" where
  "brush_clear b = (if brush_empty b then b else b\<lparr>br_xExtent := (0, 0), br_yExtent := (0, 0), br_xDomain := None, br_yDomain := None\<rparr>)"

definition brush_event :: "brush \<Rightarrow> brush" where
  "brush_event b = brush_report BrushEnd (brush_report (BrushMode False) (brush_report BrushStart b))"

section \<open>Gestures\<close>

definition clamp_to :: "real \<Rightarrow> real \<Rightarrow> real \<Rightarrow> real" where
  "clamp_to r0 r1 v = max r0 (min r1 v)"

definition move1 :: "brush_scale \<Rightarrow> bool \<Rightarrow> bool \<Rightarrow> real \<Rightarrow> real option \<Rightarrow> real \<Rightarrow> real \<times> real \<Rightarrow> real \<times> real" where
  "move1 s clamp drag position center p extent =
     (let size = snd extent - fst extent; r0 = fst (bs_range s); r1 = snd (bs_range s);
          q0 = (if drag then r0 - position else r0); q1 = (if drag then r1 - (size + position) else r1);
          v = (if clamp then clamp_to q0 q1 p else p)
      in if drag then (v + position, v + position + size)
         else let pos = (case center of None \<Rightarrow> position | Some c \<Rightarrow> clamp_to q0 q1 (2 * c - v))
              in if pos < v then (pos, v) else (v, pos))"

definition brush_moved :: "gesture \<Rightarrow> brush \<Rightarrow> real \<times> real \<Rightarrow> brush" where
  "brush_moved g b p =
     (let drag = (g_dragging g \<noteq> Resizing);
          b1 = (case br_x b of
                  Some s \<Rightarrow> if g_resizingX g then
                      (let e = move1 s (br_xClamp b) drag (fst (g_origin g)) (map_option fst (g_center g)) (fst p) (br_xExtent b)
                       in if e \<noteq> br_xExtent b then b\<lparr>br_xDomain := None, br_xExtent := e\<rparr> else b)
                    else b
                | None \<Rightarrow> b);
          b2 = (case br_y b of
                  Some s \<Rightarrow> if g_resizingY g then
                      (let e = move1 s (br_yClamp b) drag (snd (g_origin g)) (map_option snd (g_center g)) (snd p) (br_yExtent b)
                       in if e \<noteq> br_yExtent b then b1\<lparr>br_yDomain := None, br_yExtent := e\<rparr> else b1)
                    else b1
                | None \<Rightarrow> b1)
      in if br_xExtent b2 \<noteq> br_xExtent b \<or> br_yExtent b2 \<noteq> br_yExtent b then brush_report (BrushMode drag) b2 else b2)"

definition end_of :: "real \<times> real \<Rightarrow> bool \<Rightarrow> real" where
  "end_of e second = (if second then snd e else fst e)"

definition alt_gesture :: "bool \<Rightarrow> brush \<Rightarrow> real \<times> real \<Rightarrow> gesture \<Rightarrow> gesture" where
  "alt_gesture alt b p g =
     (if g_dragging g \<noteq> Resizing then g
      else if alt then
        let c = (case g_center g of Some c \<Rightarrow> c | None \<Rightarrow> ((fst (br_xExtent b) + snd (br_xExtent b)) / 2, (fst (br_yExtent b) + snd (br_yExtent b)) / 2))
        in g\<lparr>g_center := Some c, g_origin := (end_of (br_xExtent b) (fst p < fst c), end_of (br_yExtent b) (snd p < snd c))\<rparr>
      else g\<lparr>g_center := None\<rparr>)"

definition brushmove :: "bool \<Rightarrow> real \<times> real \<Rightarrow> gesture \<Rightarrow> brush \<Rightarrow> brush" where
  "brushmove alt p0 g b =
     (let p = (case g_offset g of None \<Rightarrow> p0 | Some d \<Rightarrow> (fst p0 + fst d, snd p0 + snd d)); g' = alt_gesture alt b p g
      in brush_moved g' (b\<lparr>br_gesture := Some g'\<rparr>) p)"

definition start_gesture :: "hit \<Rightarrow> bool \<Rightarrow> real \<times> real \<Rightarrow> brush \<Rightarrow> gesture" where
  "start_gesture h alt m b =
     (let rx = (h \<notin> {Handle HN, Handle HS}) \<and> br_x b \<noteq> None; ry = (h \<notin> {Handle HE, Handle HW}) \<and> br_y b \<noteq> None; xe = br_xExtent b; ye = br_yExtent b
      in case h of
           ExtentRect \<Rightarrow> \<lparr>g_resizingX = rx, g_resizingY = ry, g_dragging = Moving, g_center = None, g_origin = (fst xe - fst m, fst ye - snd m), g_offset = None\<rparr>
         | Handle k \<Rightarrow>
             (let ex = (k \<in> {HW, HNW, HSW}); ey = (k \<in> {HN, HNW, HNE})
              in \<lparr>g_resizingX = rx, g_resizingY = ry, g_dragging = Resizing, g_center = None, g_origin = (end_of xe ex, end_of ye ey),
                  g_offset = Some (end_of xe (\<not> ex) - fst m, end_of ye (\<not> ey) - snd m)\<rparr>)
         | Background \<Rightarrow> \<lparr>g_resizingX = rx, g_resizingY = ry, g_dragging = Resizing, g_center = (if alt then Some m else None), g_origin = m, g_offset = None\<rparr>)"

definition brushstart :: "hit \<Rightarrow> bool \<Rightarrow> real \<times> real \<Rightarrow> brush \<Rightarrow> brush" where
  "brushstart h alt m b = brushmove alt m (start_gesture h alt m b) (brush_report BrushStart b)"

definition brush_keydown :: "gesture \<Rightarrow> brush \<Rightarrow> brush" where
  "brush_keydown g b = (if g_dragging g = Resizing then
     b\<lparr>br_gesture := Some (g\<lparr>g_center := None, g_origin := (fst (g_origin g) - snd (br_xExtent b), snd (g_origin g) - snd (br_yExtent b)), g_dragging := SpaceMoving\<rparr>)\<rparr> else b)"

definition brush_keyup :: "gesture \<Rightarrow> brush \<Rightarrow> brush" where
  "brush_keyup g b = (if g_dragging g = SpaceMoving then
     b\<lparr>br_gesture := Some (g\<lparr>g_origin := (fst (g_origin g) + snd (br_xExtent b), snd (g_origin g) + snd (br_yExtent b)), g_dragging := Resizing\<rparr>)\<rparr> else b)"

definition brushend :: "bool \<Rightarrow> real \<times> real \<Rightarrow> gesture \<Rightarrow> brush \<Rightarrow> brush" where
  "brushend alt p g b = brush_report BrushEnd ((brushmove alt p g b)\<lparr>br_gesture := None\<rparr>)"

section \<open>Sessions\<close>

text \<open>
  One step of a session: what the user does with the pointer and the keys, and the calls of the program, which come between gestures.  The range of a scale is
  that of \<open>d3_scaleRange\<close>, which puts its ends in order.
\<close>

definition on_range :: "brush_scale \<Rightarrow> real \<Rightarrow> bool" where
  "on_range s v \<longleftrightarrow> fst (bs_range s) \<le> v \<and> v \<le> snd (bs_range s)"

definition scale_ordered :: "brush_scale \<Rightarrow> bool" where
  "scale_ordered s \<longleftrightarrow> fst (bs_range s) \<le> snd (bs_range s)"

datatype brush_action = Press hit bool "real \<times> real" | Drag bool "real \<times> real" | SpaceDown | SpaceUp | Release bool "real \<times> real"
  | SetExtent "real \<times> real" "real \<times> real" | SetX "brush_scale option" | SetY "brush_scale option" | SetClamp "bool \<times> bool" | Clear | Report

inductive brush_step :: "brush \<Rightarrow> brush_action \<Rightarrow> brush \<Rightarrow> bool" where
  press: "br_gesture b = None \<Longrightarrow> brush_step b (Press h alt m) (brushstart h alt m b)"
| drag: "br_gesture b = Some g \<Longrightarrow> brush_step b (Drag alt p) (brushmove alt p g b)"
| space_down: "br_gesture b = Some g \<Longrightarrow> brush_step b SpaceDown (brush_keydown g b)"
| space_up: "br_gesture b = Some g \<Longrightarrow> brush_step b SpaceUp (brush_keyup g b)"
| release: "br_gesture b = Some g \<Longrightarrow> brush_step b (Release alt p) (brushend alt p g b)"
| set_extent: "br_gesture b = None \<Longrightarrow> brush_step b (SetExtent zx zy) (brush_set_extent zx zy b)"
| set_x: "br_gesture b = None \<Longrightarrow> pred_option scale_ordered sc \<Longrightarrow> brush_step b (SetX sc) (brush_set_x sc b)"
| set_y: "br_gesture b = None \<Longrightarrow> pred_option scale_ordered sc \<Longrightarrow> brush_step b (SetY sc) (brush_set_y sc b)"
| set_clamp: "br_gesture b = None \<Longrightarrow> brush_step b (SetClamp z) (brush_set_clamp z b)"
| clear: "br_gesture b = None \<Longrightarrow> brush_step b Clear (brush_clear b)"
| report: "br_gesture b = None \<Longrightarrow> brush_step b Report (brush_event b)"

text \<open>
  Nothing the program sets is clamped: a set extent, scale or clamp may leave the extent outside the range, and so may clearing the brush.  The extent is settled from a press on
  the background without the alt key, or from a set extent whose ends the scales map into their ranges, until the program sets something else or clears the brush,
  or the space bar is pressed while the last pointer event had the alt key (the last section of this theory shows what happens then), or the background is pressed outside the range.
  The second flag is the alt key of the last pointer event.
\<close>

definition fits :: "brush_scale \<Rightarrow> bool \<Rightarrow> real \<times> real \<Rightarrow> bool" where
  "fits s clamp e \<longleftrightarrow> fst e \<le> snd e \<and> (clamp \<longrightarrow> on_range s (fst e) \<and> on_range s (snd e))"

definition background_at :: "brush \<Rightarrow> real \<times> real \<Rightarrow> bool" where
  "background_at b m \<longleftrightarrow> pred_option (\<lambda>s. on_range s (fst m)) (br_x b) \<and> pred_option (\<lambda>s. on_range s (snd m)) (br_y b)"

definition maps_into_range :: "brush_scale \<Rightarrow> real \<times> real \<Rightarrow> bool" where
  "maps_into_range s z \<longleftrightarrow> (let f = (if bs_invert s = None then (\<lambda>v. v) else bs_apply s) in on_range s (f (fst z)) \<and> on_range s (f (snd z)))"

definition settle :: "brush \<Rightarrow> brush_action \<Rightarrow> bool \<times> bool \<Rightarrow> bool \<times> bool" where
  "settle b a f = (case a of
     Press h alt m \<Rightarrow> (if h = Background then background_at b m \<and> (\<not> alt \<or> fst f) else fst f, alt)
   | Drag alt p \<Rightarrow> (fst f, alt)
   | Release alt p \<Rightarrow> (fst f, alt)
   | SpaceDown \<Rightarrow> (fst f \<and> \<not> snd f, snd f)
   | SpaceUp \<Rightarrow> f
   | SetExtent zx zy \<Rightarrow> (pred_option (\<lambda>s. maps_into_range s zx) (br_x b) \<and> pred_option (\<lambda>s. maps_into_range s zy) (br_y b), snd f)
   | Report \<Rightarrow> f
   | _ \<Rightarrow> (False, snd f))"

inductive brush_run :: "brush_action list \<Rightarrow> bool \<times> bool \<Rightarrow> brush \<Rightarrow> bool" where
  fresh: "brush_run [] (False, False) svg_brush"
| act: "brush_run as f b \<Longrightarrow> brush_step b a b' \<Longrightarrow> brush_run (as @ [a]) (settle b a f) b'"

definition extents_fit :: "brush \<Rightarrow> bool" where
  "extents_fit b \<longleftrightarrow> pred_option (\<lambda>s. fits s (br_xClamp b) (br_xExtent b)) (br_x b) \<and> pred_option (\<lambda>s. fits s (br_yClamp b) (br_yExtent b)) (br_y b)"

section \<open>One dimension of a gesture\<close>

text \<open>
  Between moves, a resize keeps its fixed end in the range, and in the extent unless the resize is centred.
  While the space bar moves the extent, the origin is the fixed end relative to the upper end of the extent.
\<close>

definition dim_ok :: "gesture \<Rightarrow> bool \<Rightarrow> (real \<times> real \<Rightarrow> real) \<Rightarrow> bool \<Rightarrow> real \<times> real \<Rightarrow> brush_scale \<Rightarrow> bool" where
  "dim_ok g res part clamp e s \<longleftrightarrow> fits s clamp e \<and>
     (g_dragging g = Resizing \<longrightarrow> (clamp \<longrightarrow> on_range s (part (g_origin g))) \<and>
        (g_center g = None \<or> \<not> res \<longrightarrow> fst e \<le> part (g_origin g) \<and> part (g_origin g) \<le> snd e)) \<and>
     (g_dragging g = SpaceMoving \<longrightarrow> fst e - snd e \<le> part (g_origin g) \<and> part (g_origin g) \<le> 0)"

definition gesture_ok :: "brush \<Rightarrow> gesture \<Rightarrow> bool" where
  "gesture_ok b g \<longleftrightarrow> pred_option (dim_ok g (g_resizingX g) fst (br_xClamp b) (br_xExtent b)) (br_x b) \<and>
     pred_option (dim_ok g (g_resizingY g) snd (br_yClamp b) (br_yExtent b)) (br_y b)"

lemma clamp_to_bounds: "r0 \<le> r1 \<Longrightarrow> r0 \<le> clamp_to r0 r1 v \<and> clamp_to r0 r1 v \<le> r1"
  by (auto simp: clamp_to_def)

lemma move1_resize:
  assumes "scale_ordered s" "clamp \<longrightarrow> on_range s pos"
  shows "fits s clamp (move1 s clamp False pos cen p e)"
    and "cen = None \<Longrightarrow> fst (move1 s clamp False pos cen p e) \<le> pos \<and> pos \<le> snd (move1 s clamp False pos cen p e)"
  using assms clamp_to_bounds [of "fst (bs_range s)" "snd (bs_range s)"]
  by (auto simp: move1_def Let_def fits_def on_range_def scale_ordered_def split: option.split)

lemma move1_drag:
  assumes "fits s clamp e"
  shows "fits s clamp (move1 s clamp True pos cen p e)"
    and "snd (move1 s clamp True pos cen p e) - fst (move1 s clamp True pos cen p e) = snd e - fst e"
proof -
  have "clamp \<Longrightarrow> fst (bs_range s) - pos \<le> snd (bs_range s) - (snd e - fst e + pos)"
    using assms by (simp add: fits_def on_range_def)
  from clamp_to_bounds [OF this, of p] assms
  show "fits s clamp (move1 s clamp True pos cen p e)"
    by (auto simp: move1_def Let_def fits_def on_range_def)
  show "snd (move1 s clamp True pos cen p e) - fst (move1 s clamp True pos cen p e) = snd e - fst e"
    by (simp add: move1_def Let_def)
qed

text \<open>What a move needs of a dimension: the fixed end in the range, and for a dimension that does not take part, that it is as it should be after the move.\<close>

definition dim_ready :: "gesture \<Rightarrow> bool \<Rightarrow> (real \<times> real \<Rightarrow> real) \<Rightarrow> bool \<Rightarrow> real \<times> real \<Rightarrow> brush_scale \<Rightarrow> bool" where
  "dim_ready g res part clamp e s \<longleftrightarrow> (if res \<and> g_dragging g = Resizing then clamp \<longrightarrow> on_range s (part (g_origin g)) else dim_ok g res part clamp e s)"

lemma dim_moved:
  assumes "dim_ready g True part clamp e s" "scale_ordered s"
  shows "dim_ok g True part clamp (move1 s clamp (g_dragging g \<noteq> Resizing) (part (g_origin g)) (map_option part (g_center g)) p e) s"
proof (cases "g_dragging g = Resizing")
  case True
  then show ?thesis using assms move1_resize [of s clamp "part (g_origin g)"] by (simp add: dim_ok_def dim_ready_def)
next
  case False
  then have ok: "dim_ok g True part clamp e s" using assms by (simp add: dim_ready_def)
  then have "fits s clamp e" by (simp add: dim_ok_def)
  from move1_drag [OF this, of "part (g_origin g)" "map_option part (g_center g)" p] ok False
  show ?thesis by (auto simp: dim_ok_def)
qed

section \<open>The invariant of a session\<close>

definition gesture_ready :: "brush \<Rightarrow> gesture \<Rightarrow> bool" where
  "gesture_ready b g \<longleftrightarrow> pred_option (dim_ready g (g_resizingX g) fst (br_xClamp b) (br_xExtent b)) (br_x b) \<and>
     pred_option (dim_ready g (g_resizingY g) snd (br_yClamp b) (br_yExtent b)) (br_y b)"

definition scales_ordered :: "brush \<Rightarrow> bool" where
  "scales_ordered b \<longleftrightarrow> pred_option scale_ordered (br_x b) \<and> pred_option scale_ordered (br_y b)"

definition extents_ordered :: "brush \<Rightarrow> bool" where
  "extents_ordered b \<longleftrightarrow> fst (br_xExtent b) \<le> snd (br_xExtent b) \<and> fst (br_yExtent b) \<le> snd (br_yExtent b)"

definition balanced :: "brush \<Rightarrow> bool" where
  "balanced b \<longleftrightarrow> length (filter (\<lambda>e. e = BrushStart) (br_events b)) = length (filter (\<lambda>e. e = BrushEnd) (br_events b)) + (if br_gesture b = None then 0 else 1)"

text \<open>A resize is centred only after a pointer event with the alt key, and other gestures never are.\<close>

definition centred :: "bool \<Rightarrow> gesture \<Rightarrow> bool" where
  "centred alt g \<longleftrightarrow> (g_center g = None \<or> alt \<and> g_dragging g = Resizing)"

definition brush_inv :: "bool \<times> bool \<Rightarrow> brush \<Rightarrow> bool" where
  "brush_inv f b \<longleftrightarrow> scales_ordered b \<and> extents_ordered b \<and> balanced b \<and> pred_option (centred (snd f)) (br_gesture b) \<and>
     (fst f \<longrightarrow> (case br_gesture b of None \<Rightarrow> extents_fit b | Some g \<Rightarrow> gesture_ok b g))"

lemma brush_moved_keeps [simp]:
  "br_x (brush_moved g b p) = br_x b" "br_y (brush_moved g b p) = br_y b"
  "br_xClamp (brush_moved g b p) = br_xClamp b" "br_yClamp (brush_moved g b p) = br_yClamp b"
  "br_gesture (brush_moved g b p) = br_gesture b"
  "filter (\<lambda>e. e = BrushStart) (br_events (brush_moved g b p)) = filter (\<lambda>e. e = BrushStart) (br_events b)"
  "filter (\<lambda>e. e = BrushEnd) (br_events (brush_moved g b p)) = filter (\<lambda>e. e = BrushEnd) (br_events b)"
  by (simp_all add: brush_moved_def Let_def brush_report_def split: option.split)

lemma brush_moved_xExtent:
  "br_xExtent (brush_moved g b p) = (case br_x b of None \<Rightarrow> br_xExtent b | Some s \<Rightarrow>
     if g_resizingX g then move1 s (br_xClamp b) (g_dragging g \<noteq> Resizing) (fst (g_origin g)) (map_option fst (g_center g)) (fst p) (br_xExtent b)
     else br_xExtent b)"
  by (simp add: brush_moved_def Let_def brush_report_def split: option.split)

lemma brush_moved_yExtent:
  "br_yExtent (brush_moved g b p) = (case br_y b of None \<Rightarrow> br_yExtent b | Some s \<Rightarrow>
     if g_resizingY g then move1 s (br_yClamp b) (g_dragging g \<noteq> Resizing) (snd (g_origin g)) (map_option snd (g_center g)) (snd p) (br_yExtent b)
     else br_yExtent b)"
  by (simp add: brush_moved_def Let_def brush_report_def split: option.split)

lemma dim_ready_idle: "dim_ready g False part clamp e s \<longleftrightarrow> dim_ok g False part clamp e s"
  by (simp add: dim_ready_def)

lemma brush_moved_ok:
  assumes "gesture_ready b g" "scales_ordered b"
  shows "gesture_ok (brush_moved g b p) g"
proof -
  have "pred_option (dim_ok g (g_resizingX g) fst (br_xClamp b) (br_xExtent (brush_moved g b p))) (br_x b)"
    using assms dim_moved [of g fst]
    by (cases "br_x b"; cases "g_resizingX g") (simp_all add: brush_moved_xExtent gesture_ready_def scales_ordered_def dim_ready_idle)
  moreover have "pred_option (dim_ok g (g_resizingY g) snd (br_yClamp b) (br_yExtent (brush_moved g b p))) (br_y b)"
    using assms dim_moved [of g snd]
    by (cases "br_y b"; cases "g_resizingY g") (simp_all add: brush_moved_yExtent gesture_ready_def scales_ordered_def dim_ready_idle)
  ultimately show ?thesis by (simp add: gesture_ok_def)
qed

lemma end_of_in: "fst e \<le> snd e \<Longrightarrow> fst e \<le> end_of e k \<and> end_of e k \<le> snd e"
  by (simp add: end_of_def)

lemma end_of_fits: "fits s clamp e \<Longrightarrow> clamp \<Longrightarrow> on_range s (end_of e k)"
  by (auto simp: end_of_def fits_def)

lemma alt_gesture_same [simp]:
  "g_resizingX (alt_gesture alt b p g) = g_resizingX g" "g_resizingY (alt_gesture alt b p g) = g_resizingY g"
  "g_dragging (alt_gesture alt b p g) = g_dragging g"
  by (simp_all add: alt_gesture_def Let_def)

lemma alt_gesture_ready:
  assumes ready: "gesture_ready b g" and fit: "alt \<longrightarrow> extents_fit b"
  shows "gesture_ready (b\<lparr>br_gesture := h\<rparr>) (alt_gesture alt b p g)"
proof (cases "g_dragging g = Resizing")
  case False
  then have "alt_gesture alt b p g = g" by (simp add: alt_gesture_def)
  then show ?thesis using ready by (simp add: gesture_ready_def)
next
  case True
  show ?thesis
  proof (cases alt)
    case False
    with True ready show ?thesis
      by (cases "br_x b"; cases "br_y b") (auto simp: alt_gesture_def gesture_ready_def dim_ready_def dim_ok_def)
  next
    case alt: True
    with fit have f: "extents_fit b" by simp
    have o: "g_origin (alt_gesture alt b p g) = (end_of (br_xExtent b) i, end_of (br_yExtent b) j)" 
      if "i = (fst p < fst (the (g_center (alt_gesture alt b p g))))" "j = (snd p < snd (the (g_center (alt_gesture alt b p g))))" for i j
      using True alt that by (simp add: alt_gesture_def Let_def)
    show ?thesis using True f o [OF refl refl] end_of_fits end_of_in
      by (cases "br_x b"; cases "br_y b") (simp_all add: gesture_ready_def dim_ready_def dim_ok_def extents_fit_def fits_def)
  qed
qed

lemma gesture_ok_ready: "gesture_ok b g \<Longrightarrow> gesture_ready b g \<and> extents_fit b"
  by (cases "br_x b"; cases "br_y b") (simp_all add: gesture_ok_def gesture_ready_def dim_ready_def dim_ok_def extents_fit_def)

lemma brushmove_ok:
  assumes "gesture_ready b g" "alt \<longrightarrow> extents_fit b" "scales_ordered b"
  shows "\<exists>g'. br_gesture (brushmove alt p g b) = Some g' \<and> gesture_ok (brushmove alt p g b) g'"
proof -
  define q where "q = (case g_offset g of None \<Rightarrow> p | Some d \<Rightarrow> (fst p + fst d, snd p + snd d))"
  define g' where "g' = alt_gesture alt b q g"
  have eq: "brushmove alt p g b = brush_moved g' (b\<lparr>br_gesture := Some g'\<rparr>) q"
    by (simp add: brushmove_def Let_def q_def g'_def)
  have "gesture_ready (b\<lparr>br_gesture := Some g'\<rparr>) g'"
    unfolding g'_def by (rule alt_gesture_ready) (use assms in auto)
  moreover have "scales_ordered (b\<lparr>br_gesture := Some g'\<rparr>)" using assms by (simp add: scales_ordered_def)
  ultimately show ?thesis by (simp add: eq brush_moved_ok)
qed

lemma brushmove_keeps [simp]:
  "br_x (brushmove alt p g b) = br_x b" "br_y (brushmove alt p g b) = br_y b"
  "br_xClamp (brushmove alt p g b) = br_xClamp b" "br_yClamp (brushmove alt p g b) = br_yClamp b"
  "filter (\<lambda>e. e = BrushStart) (br_events (brushmove alt p g b)) = filter (\<lambda>e. e = BrushStart) (br_events b)"
  "filter (\<lambda>e. e = BrushEnd) (br_events (brushmove alt p g b)) = filter (\<lambda>e. e = BrushEnd) (br_events b)"
  by (simp_all add: brushmove_def Let_def)

lemma scales_ordered_cong: "br_x b' = br_x b \<Longrightarrow> br_y b' = br_y b \<Longrightarrow> scales_ordered b' = scales_ordered b"
  by (simp add: scales_ordered_def)

text \<open>Whatever came before, a move leaves the ends of the extents in order.\<close>

lemma move1_ordered: "fst e \<le> snd e \<Longrightarrow> fst (move1 s clamp drag pos cen p e) \<le> snd (move1 s clamp drag pos cen p e)"
  by (auto simp: move1_def Let_def)

lemma brush_moved_ordered: "extents_ordered b \<Longrightarrow> extents_ordered (brush_moved g b p)"
  by (auto simp: extents_ordered_def brush_moved_xExtent brush_moved_yExtent move1_ordered split: option.split)

lemma brushmove_gesture:
  obtains g' where "br_gesture (brushmove alt p g b) = Some g'" "centred alt0 g \<Longrightarrow> centred alt g'"
proof -
  define q where "q = (case g_offset g of None \<Rightarrow> p | Some d \<Rightarrow> (fst p + fst d, snd p + snd d))"
  have "br_gesture (brushmove alt p g b) = Some (alt_gesture alt b q g)" by (simp add: brushmove_def Let_def q_def)
  moreover have "centred alt0 g \<Longrightarrow> centred alt (alt_gesture alt b q g)" by (auto simp: centred_def alt_gesture_def Let_def)
  ultimately show ?thesis by (rule that)
qed

lemma brushmove_ordered: "extents_ordered b \<Longrightarrow> extents_ordered (brushmove alt p g b)"
  unfolding brushmove_def Let_def by (rule brush_moved_ordered) (simp add: extents_ordered_def)

lemma brushmove_inv:
  assumes inv: "scales_ordered b" "extents_ordered b" "balanced b" "centred alt0 g" and opened: "br_gesture b \<noteq> None"
    and ok: "ok \<Longrightarrow> gesture_ready b g \<and> (alt \<longrightarrow> extents_fit b)"
  shows "brush_inv (ok, alt) (brushmove alt p g b)"
proof -
  obtain g' where g': "br_gesture (brushmove alt p g b) = Some g'" "centred alt g'" using brushmove_gesture [of alt p g b alt0] inv(4) by metis
  have "ok \<Longrightarrow> gesture_ok (brushmove alt p g b) g'" using brushmove_ok [of b g alt p] ok inv(1) g'(1) by auto
  then show ?thesis using inv opened g' brushmove_ordered [OF inv(2)] scales_ordered_cong [of "brushmove alt p g b" b]
    by (simp add: brush_inv_def balanced_def)
qed

lemma brush_inv_gesture:
  assumes "brush_inv f b" "br_gesture b = Some g"
  shows "scales_ordered b" "extents_ordered b" "balanced b" "centred (snd f) g" "fst f \<Longrightarrow> gesture_ok b g"
  using assms by (auto simp: brush_inv_def)

lemma drag_inv:
  assumes "brush_inv f b" "br_gesture b = Some g"
  shows "brush_inv (fst f, alt) (brushmove alt p g b)"
proof (rule brushmove_inv)
  note inv = brush_inv_gesture [OF assms]
  show "scales_ordered b" "extents_ordered b" "balanced b" "centred (snd f) g" "br_gesture b \<noteq> None" using inv assms(2) by simp_all
  show "gesture_ready b g \<and> (alt \<longrightarrow> extents_fit b)" if "fst f" using inv(5) that gesture_ok_ready by blast
qed

lemma gesture_ok_fit: "gesture_ok b g \<Longrightarrow> extents_fit (b\<lparr>br_gesture := h, br_events := e\<rparr>)"
  using gesture_ok_ready [of b g] by (simp add: extents_fit_def)

lemma brushend_inv:
  assumes "brush_inv f b" "br_gesture b = Some g"
  shows "brush_inv (fst f, alt) (brushend alt p g b)"
proof -
  let ?b = "brushmove alt p g b"
  have inv: "brush_inv (fst f, alt) ?b" by (rule drag_inv [OF assms])
  obtain g' where g': "br_gesture ?b = Some g'" using brushmove_gesture by metis
  have e: "brushend alt p g b = ?b\<lparr>br_gesture := None, br_events := br_events ?b @ [BrushEnd]\<rparr>"
    by (simp add: brushend_def brush_report_def)
  have "extents_fit (brushend alt p g b)" if "fst f" using inv g' that gesture_ok_fit unfolding e by (auto simp: brush_inv_def)
  moreover have "scales_ordered (brushend alt p g b)" "extents_ordered (brushend alt p g b)" "balanced (brushend alt p g b)" "br_gesture (brushend alt p g b) = None"
    using inv g' by (simp_all add: e brush_inv_def scales_ordered_def extents_ordered_def balanced_def)
  ultimately show ?thesis by (simp add: brush_inv_def)
qed

text \<open>A press on the background resizes every dimension there is; any other press begins at the extents.\<close>

lemma start_gesture_ready:
  assumes at: "h = Background \<Longrightarrow> background_at b m" and fit: "h \<noteq> Background \<Longrightarrow> extents_fit b"
  shows "gesture_ready b (start_gesture h alt m b)"
proof (cases h)
  case Background
  then show ?thesis using at
    by (cases "br_x b"; cases "br_y b") (simp_all add: start_gesture_def gesture_ready_def dim_ready_def background_at_def)
next
  case ExtentRect
  then show ?thesis using fit
    by (cases "br_x b"; cases "br_y b") (simp_all add: start_gesture_def gesture_ready_def dim_ready_def dim_ok_def extents_fit_def)
next
  case (Handle k)
  then have "extents_fit b" using fit by simp
  then show ?thesis using end_of_fits end_of_in
    by (cases "br_x b"; cases "br_y b") (simp_all add: Handle start_gesture_def Let_def gesture_ready_def dim_ready_def dim_ok_def extents_fit_def fits_def)
qed

lemma brushmove_keep_gesture: "brushmove alt p g (b\<lparr>br_gesture := h\<rparr>) = brushmove alt p g b"
proof -
  have "alt_gesture alt (b\<lparr>br_gesture := h\<rparr>) q g = alt_gesture alt b q g" for q by (simp add: alt_gesture_def Let_def cong: option.case_cong)
  then show ?thesis by (simp add: brushmove_def Let_def)
qed

lemma start_gesture_centred: "centred alt (start_gesture h alt m b)"
  by (auto simp: centred_def start_gesture_def Let_def split: hit.split)

lemma press_inv:
  assumes inv: "brush_inv f b" and none: "br_gesture b = None"
  shows "brush_inv (if h = Background then background_at b m \<and> (\<not> alt \<or> fst f) else fst f, alt) (brushstart h alt m b)"
proof -
  let ?g = "start_gesture h alt m b"
  define b1 where "b1 = (brush_report BrushStart b)\<lparr>br_gesture := Some ?g\<rparr>"
  have start: "brushstart h alt m b = brushmove alt m ?g b1"
    by (simp add: brushstart_def brushmove_keep_gesture b1_def)
  have fit: "fst f \<Longrightarrow> extents_fit b" using inv none by (simp add: brush_inv_def)
  have same: "gesture_ready b1 g = gesture_ready b g" "extents_fit b1 = extents_fit b" for g
    by (simp_all add: b1_def brush_report_def gesture_ready_def extents_fit_def)
  show ?thesis unfolding start
  proof (rule brushmove_inv [where alt0 = alt])
    show "scales_ordered b1" "extents_ordered b1" "balanced b1" "br_gesture b1 \<noteq> None"
      using inv none by (simp_all add: b1_def brush_report_def brush_inv_def scales_ordered_def extents_ordered_def balanced_def)
    show "centred alt ?g" by (rule start_gesture_centred)
    show "gesture_ready b1 ?g \<and> (alt \<longrightarrow> extents_fit b1)" if "if h = Background then background_at b m \<and> (\<not> alt \<or> fst f) else fst f"
      unfolding same using that fit start_gesture_ready [of h b m alt] by (auto split: if_splits)
  qed
qed

lemma dim_space:
  assumes "dim_ok g res part clamp e s"
  shows "g_dragging g = Resizing \<Longrightarrow> g_center g = None \<Longrightarrow> part (g_origin g') = part (g_origin g) - snd e \<Longrightarrow> g_dragging g' = SpaceMoving \<Longrightarrow>
      dim_ok g' res part clamp e s"
    and "g_dragging g = SpaceMoving \<Longrightarrow> part (g_origin g') = part (g_origin g) + snd e \<Longrightarrow> g_dragging g' = Resizing \<Longrightarrow> dim_ok g' res part clamp e s"
proof -
  assume a: "g_dragging g = Resizing" "g_center g = None" "part (g_origin g') = part (g_origin g) - snd e" "g_dragging g' = SpaceMoving"
  show "dim_ok g' res part clamp e s" using assms unfolding dim_ok_def a by simp
next
  assume a: "g_dragging g = SpaceMoving" "part (g_origin g') = part (g_origin g) + snd e" "g_dragging g' = Resizing"
  show "dim_ok g' res part clamp e s" using assms unfolding dim_ok_def a fits_def on_range_def by auto
qed

lemma keydown_ok:
  assumes ok: "gesture_ok b g" and cen: "g_center g = None" and drag: "g_dragging g = Resizing"
  shows "gesture_ok b (g\<lparr>g_center := None, g_origin := (fst (g_origin g) - snd (br_xExtent b), snd (g_origin g) - snd (br_yExtent b)), g_dragging := SpaceMoving\<rparr>)"
    (is "gesture_ok b ?g")
proof -
  have "dim_ok g r fst c (br_xExtent b) s \<Longrightarrow> dim_ok ?g r fst c (br_xExtent b) s" for r c s
    by (erule dim_space(1)) (simp_all add: cen drag)
  moreover have "dim_ok g r snd c (br_yExtent b) s \<Longrightarrow> dim_ok ?g r snd c (br_yExtent b) s" for r c s
    by (erule dim_space(1)) (simp_all add: cen drag)
  ultimately show ?thesis using ok by (cases "br_x b"; cases "br_y b") (simp_all add: gesture_ok_def)
qed

lemma keyup_ok:
  assumes ok: "gesture_ok b g" and drag: "g_dragging g = SpaceMoving"
  shows "gesture_ok b (g\<lparr>g_origin := (fst (g_origin g) + snd (br_xExtent b), snd (g_origin g) + snd (br_yExtent b)), g_dragging := Resizing\<rparr>)"
    (is "gesture_ok b ?g")
proof -
  have "dim_ok g r fst c (br_xExtent b) s \<Longrightarrow> dim_ok ?g r fst c (br_xExtent b) s" for r c s
    by (erule dim_space(2)) (simp_all add: drag)
  moreover have "dim_ok g r snd c (br_yExtent b) s \<Longrightarrow> dim_ok ?g r snd c (br_yExtent b) s" for r c s
    by (erule dim_space(2)) (simp_all add: drag)
  ultimately show ?thesis using ok by (cases "br_x b"; cases "br_y b") (simp_all add: gesture_ok_def)
qed

lemma gesture_ok_cong: "gesture_ok (b\<lparr>br_gesture := h\<rparr>) g = gesture_ok b g"
  by (simp add: gesture_ok_def)

lemma key_inv:
  assumes "brush_inv f b" "br_gesture b = Some g"
  shows "brush_inv (fst f \<and> \<not> snd f, snd f) (brush_keydown g b)" and "brush_inv f (brush_keyup g b)"
proof -
  note inv = brush_inv_gesture [OF assms]
  have "g_center g = None" if "\<not> snd f" using inv(4) that by (simp add: centred_def)
  then have "gesture_ok b g \<and> g_center g = None" if "fst f" "\<not> snd f" using inv(5) that by simp
  then show "brush_inv (fst f \<and> \<not> snd f, snd f) (brush_keydown g b)"
    using assms inv keydown_ok [of b g]
    by (auto simp: brush_inv_def brush_keydown_def gesture_ok_cong scales_ordered_def extents_ordered_def balanced_def centred_def)
  show "brush_inv f (brush_keyup g b)"
    using assms inv keyup_ok [of b g]
    by (auto simp: brush_inv_def brush_keyup_def gesture_ok_cong scales_ordered_def extents_ordered_def balanced_def centred_def)
qed

lemma ends_in_order_ordered: "fst (ends_in_order e) \<le> snd (ends_in_order e)"
  by (simp add: ends_in_order_def)

lemma extent_set_fits: "maps_into_range s z \<Longrightarrow> fits s clamp (extent_set s z)"
  by (auto simp: maps_into_range_def fits_def extent_set_def ends_in_order_def Let_def split: if_splits)

lemma set_extent_fields [simp]:
  "br_gesture (brush_set_extent zx zy b) = br_gesture b" "br_events (brush_set_extent zx zy b) = br_events b"
  "br_x (brush_set_extent zx zy b) = br_x b" "br_y (brush_set_extent zx zy b) = br_y b"
  "br_xClamp (brush_set_extent zx zy b) = br_xClamp b" "br_yClamp (brush_set_extent zx zy b) = br_yClamp b"
  "br_xExtent (brush_set_extent zx zy b) = (case br_x b of None \<Rightarrow> br_xExtent b | Some s \<Rightarrow> extent_set s zx)"
  "br_yExtent (brush_set_extent zx zy b) = (case br_y b of None \<Rightarrow> br_yExtent b | Some s \<Rightarrow> extent_set s zy)"
  by (simp_all add: brush_set_extent_def Let_def split: option.split)

lemma set_extent_inv:
  assumes "brush_inv f b" "br_gesture b = None"
  shows "brush_inv (pred_option (\<lambda>s. maps_into_range s zx) (br_x b) \<and> pred_option (\<lambda>s. maps_into_range s zy) (br_y b), alt) (brush_set_extent zx zy b)"
proof -
  have "extents_ordered (brush_set_extent zx zy b)"
    using assms(1) by (auto simp: brush_inv_def extents_ordered_def extent_set_def ends_in_order_ordered split: option.split)
  moreover have "extents_fit (brush_set_extent zx zy b)" if "pred_option (\<lambda>s. maps_into_range s zx) (br_x b)" "pred_option (\<lambda>s. maps_into_range s zy) (br_y b)"
    using that by (cases "br_x b"; cases "br_y b") (simp_all add: extents_fit_def extent_set_fits)
  ultimately show ?thesis using assms by (simp add: brush_inv_def scales_ordered_def balanced_def)
qed

lemma setting_inv:
  assumes "brush_inv f b" "br_gesture b = None"
  shows "pred_option scale_ordered sc \<Longrightarrow> brush_inv (False, alt) (brush_set_x sc b)" "pred_option scale_ordered sc \<Longrightarrow> brush_inv (False, alt) (brush_set_y sc b)"
    "brush_inv (False, alt) (brush_set_clamp z b)" "brush_inv (False, alt) (brush_clear b)" "brush_inv f (brush_event b)"
  using assms
  by (auto simp: brush_inv_def brush_set_x_def brush_set_y_def brush_set_clamp_def brush_clear_def brush_event_def brush_report_def
      scales_ordered_def extents_ordered_def balanced_def extents_fit_def split: option.split)

lemma brush_step_inv: "brush_step b a b' \<Longrightarrow> brush_inv f b \<Longrightarrow> brush_inv (settle b a f) b'"
proof (induction rule: brush_step.induct)
  case (press b h alt m)
  then show ?case using press_inv [of f b h m alt] by (simp add: settle_def)
qed (simp_all add: settle_def drag_inv key_inv brushend_inv set_extent_inv setting_inv)

lemma brush_run_inv: "brush_run as f b \<Longrightarrow> brush_inv f b"
proof (induction rule: brush_run.induct)
  case fresh
  then show ?case by (simp add: brush_inv_def svg_brush_def scales_ordered_def extents_ordered_def balanced_def)
next
  case (act as f b a b')
  then show ?case by (simp add: brush_step_inv)
qed


definition id_scale :: "real \<Rightarrow> real \<Rightarrow> brush_scale" where
  "id_scale r0 r1 = \<lparr>bs_apply = (\<lambda>v. v), bs_invert = Some (\<lambda>v. v), bs_range = (r0, r1)\<rparr>"

lemmas brush_defs = brush_set_clamp_def brush_set_x_def brush_set_y_def svg_brush_def brush_set_extent_def extent_set_def ends_in_order_def
  brushstart_def start_gesture_def brushmove_def alt_gesture_def brush_moved_def move1_def clamp_to_def brush_report_def end_of_def
  brush_keydown_def brush_keyup_def brushend_def id_scale_def Let_def

definition session1 :: brush where
  "session1 = brushstart Background False (3, 0) (brush_set_x (Some (id_scale 0 10)) svg_brush)"

lemma session1_run: "brush_run [SetX (Some (id_scale 0 10)), Press Background False (3, 0)] (True, False) session1"
proof -
  let ?b = "brush_set_x (Some (id_scale 0 10)) svg_brush"
  have "brush_step svg_brush (SetX (Some (id_scale 0 10))) ?b"
    by (rule set_x) (simp_all add: svg_brush_def scale_ordered_def id_scale_def)
  then have "brush_run ([] @ [SetX (Some (id_scale 0 10))]) (settle svg_brush (SetX (Some (id_scale 0 10))) (False, False)) ?b"
    by (rule act [OF fresh])
  moreover have "brush_step ?b (Press Background False (3, 0)) session1"
    unfolding session1_def by (rule press) (simp add: brush_set_x_def svg_brush_def)
  ultimately have "brush_run (([] @ [SetX (Some (id_scale 0 10))]) @ [Press Background False (3, 0)])
      (settle ?b (Press Background False (3, 0)) (settle svg_brush (SetX (Some (id_scale 0 10))) (False, False))) session1" by (rule act)
  then show ?thesis
    by (simp add: settle_def background_at_def on_range_def brush_set_x_def svg_brush_def id_scale_def)
qed


section \<open>Settings and reading\<close>

text \<open>The extent that is set is the extent that is read.  A set extent that is inside out is read as it was set.\<close>

theorem brush_extent_roundtrip:
  "brush_extent (brush_set_extent zx zy b) = (map_option (\<lambda>_. zx) (br_x b), map_option (\<lambda>_. zy) (br_y b))"
  by (cases "br_x b"; cases "br_y b") (simp_all add: brush_extent_def brush_set_extent_def extent_get_def Let_def)

section \<open>When the extent is not settled\<close>

text \<open>
  The space bar pressed while a resize is centred: the fixed end is an end of the extent before the last move, not of the extent, so the extent jumps,
  and once the space bar is released a clamped extent leaves the range.
\<close>

definition centred_space :: brush where
  "centred_space =
     (let b0 = brush_set_extent (0, 10) (0, 0) (brush_set_clamp (True, True) (brush_set_x (Some (id_scale 0 10)) svg_brush));
          b1 = brushstart (Handle HE) True (10, 0) b0;
          b2 = brushmove True (8, 0) (the (br_gesture b1)) b1;
          b3 = brush_keydown (the (br_gesture b2)) b2;
          b4 = brushmove False (8, 0) (the (br_gesture b3)) b3;
          b5 = brush_keyup (the (br_gesture b4)) b4
      in brushmove False (5, 0) (the (br_gesture b5)) b5)"

theorem brush_space_escapes: "br_xClamp centred_space \<and> br_xExtent centred_space = (- 2, 5)"
  by code_simp

text \<open>A press with the alt key on the background takes an end of the old extent for its fixed end: once the alt key is released the extent reaches back to it.\<close>

theorem brush_alt_press_reaches_back:
  "br_xExtent (let b0 = brush_set_extent (20, 30) (0, 0) (brush_set_clamp (True, True) (brush_set_x (Some (id_scale 10 100)) svg_brush)); b1 = brushstart Background True (50, 0) b0
     in brushmove False (60, 0) (the (br_gesture b1)) b1) = (20, 60)"
  by code_simp

text \<open>A centred resize clamps the far end also in a brush that is not clamped.\<close>

theorem brush_centre_clamps:
  "br_xExtent (let b0 = brush_set_extent (2, 8) (0, 0) (brush_set_clamp (False, False) (brush_set_x (Some (id_scale 0 10)) svg_brush)); b1 = brushstart (Handle HE) True (8, 0) b0
     in brushmove True (14, 0) (the (br_gesture b1)) b1) = (0, 14)"
  by code_simp

end
