(* ===== verification/D3_QuadNumbers.thy ===== *)
theory D3_QuadNumbers
  imports D3_Quadtree
begin

text \<open>
  The quadtree over the numbers of the language (\<open>d3.js\<close> lines 5452 to 5579), where a coordinate may be \<open>NaN\<close>, which is ignored, or infinite, which is not.
  The definitions follow those of \<open>D3_Quadtree\<close> with the arithmetic and the comparisons of the language.  Where no coordinate is infinite both agree, and the facts about finite
  coordinates carry over; an infinite one can make the insertion of other points recurse for ever.
\<close>

section \<open>Model\<close>

record 'd jpoint =
  jp_data :: 'd
  jp_x :: jsnum
  jp_y :: jsnum

datatype 'd jquad =
  JQuad (jq_leaf: bool) (jq_point: "'d jpoint option") "'d jquad option" "'d jquad option" "'d jquad option" "'d jquad option"

record jarea =
  j_x1 :: jsnum
  j_y1 :: jsnum
  j_x2 :: jsnum
  j_y2 :: jsnum

definition jquad_node :: "'d jquad" where
  "jquad_node = JQuad True None None None None None"

fun jq_node :: "'d jquad \<Rightarrow> nat \<Rightarrow> 'd jquad option" where
  "jq_node (JQuad l p a b c d) i = (if i = 0 then a else if i = 1 then b else if i = 2 then c else d)"

fun jset_node :: "'d jquad \<Rightarrow> nat \<Rightarrow> 'd jquad \<Rightarrow> 'd jquad" where
  "jset_node (JQuad l p a b c d) i n =
     (if i = 0 then JQuad False p (Some n) b c d else if i = 1 then JQuad False p a (Some n) c d
      else if i = 2 then JQuad False p a b (Some n) d else JQuad False p a b c (Some n))"

fun jset_point :: "'d jquad \<Rightarrow> 'd jpoint option \<Rightarrow> 'd jquad" where
  "jset_point (JQuad l p a b c d) x = JQuad l x a b c d"

definition js_middle :: "jsnum \<Rightarrow> jsnum \<Rightarrow> jsnum" where
  "js_middle a b = js_mul (js_add a b) (Fin (1 / 2))"

fun num_abs :: "jsnum \<Rightarrow> jsnum" where
  "num_abs (Fin x) = Fin \<bar>x\<bar>"
| "num_abs NaN = NaN"
| "num_abs _ = PInf"

definition jquad_right :: "'d jpoint \<Rightarrow> jarea \<Rightarrow> bool" where
  "jquad_right p r = num_le (js_middle (j_x1 r) (j_x2 r)) (jp_x p)"

definition jquad_bottom :: "'d jpoint \<Rightarrow> jarea \<Rightarrow> bool" where
  "jquad_bottom p r = num_le (js_middle (j_y1 r) (j_y2 r)) (jp_y p)"

definition jquad_index :: "'d jpoint \<Rightarrow> jarea \<Rightarrow> nat" where
  "jquad_index p r = (if jquad_bottom p r then 2 else 0) + (if jquad_right p r then 1 else 0)"

definition jquad_area :: "'d jpoint \<Rightarrow> jarea \<Rightarrow> jarea" where
  "jquad_area p r =
     (let sx = js_middle (j_x1 r) (j_x2 r); sy = js_middle (j_y1 r) (j_y2 r)
      in \<lparr>j_x1 = (if jquad_right p r then sx else j_x1 r), j_y1 = (if jquad_bottom p r then sy else j_y1 r),
          j_x2 = (if jquad_right p r then j_x2 r else sx), j_y2 = (if jquad_bottom p r then j_y2 r else sy)\<rparr>)"

definition jquad_child :: "'d jquad \<Rightarrow> 'd jpoint \<Rightarrow> jarea \<Rightarrow> 'd jquad" where
  "jquad_child n p r = (case jq_node n (jquad_index p r) of None \<Rightarrow> jquad_node | Some c \<Rightarrow> c)"

definition jquad_close :: "'d jpoint \<Rightarrow> 'd jpoint \<Rightarrow> bool" where
  "jquad_close p q = num_lt (js_add (num_abs (js_sub (jp_x p) (jp_x q))) (num_abs (js_sub (jp_y p) (jp_y q)))) (Fin (1 / 100))"

partial_function (option) jquad_insert :: "'d jquad \<Rightarrow> 'd jpoint \<Rightarrow> jarea \<Rightarrow> 'd jquad option" where
  "jquad_insert n d r =
     (if jp_x d = NaN \<or> jp_y d = NaN then Some n
      else if jq_leaf n then
        (case jq_point n of
           None \<Rightarrow> Some (jset_point n (Some d))
         | Some p \<Rightarrow>
             if jquad_close p d then
               Option.bind (jquad_insert (jquad_child n d r) d (jquad_area d r)) (\<lambda>c. Some (jset_node n (jquad_index d r) c))
             else
               Option.bind (jquad_insert (jquad_child (jset_point n None) p r) p (jquad_area p r)) (\<lambda>c.
                 Option.bind
                   (jquad_insert (jquad_child (jset_node (jset_point n None) (jquad_index p r) c) d r) d (jquad_area d r))
                   (\<lambda>c'. Some (jset_node (jset_node (jset_point n None) (jquad_index p r) c) (jquad_index d r) c'))))
      else Option.bind (jquad_insert (jquad_child n d r) d (jquad_area d r)) (\<lambda>c. Some (jset_node n (jquad_index d r) c)))"

record 'd jquadtree =
  jq_x :: "'d \<Rightarrow> nat \<Rightarrow> jsnum"
  jq_y :: "'d \<Rightarrow> nat \<Rightarrow> jsnum"
  jq_extent :: "jarea option"

definition jbound_step :: "jsnum \<times> jsnum \<Rightarrow> jsnum \<Rightarrow> jsnum \<times> jsnum" where
  "jbound_step b x = (if num_lt x (fst b) then x else fst b, if num_lt (snd b) x then x else snd b)"

definition jsquare_area :: "jarea \<Rightarrow> jarea" where
  "jsquare_area r =
     (let dx = js_sub (j_x2 r) (j_x1 r); dy = js_sub (j_y2 r) (j_y1 r)
      in if num_lt dy dx then r\<lparr>j_y2 := js_add (j_y1 r) dx\<rparr> else r\<lparr>j_x2 := js_add (j_x1 r) dy\<rparr>)"

definition jroot_area :: "'d jquadtree \<Rightarrow> (jsnum \<times> jsnum) list \<Rightarrow> jarea" where
  "jroot_area qt ps = jsquare_area (case jq_extent qt of
     Some r \<Rightarrow> r
   | None \<Rightarrow> (let bx = foldl jbound_step (PInf, NInf) (map fst ps); by = foldl jbound_step (PInf, NInf) (map snd ps)
              in \<lparr>j_x1 = fst bx, j_y1 = fst by, j_x2 = snd bx, j_y2 = snd by\<rparr>))"

definition jquad_points :: "'d jquadtree \<Rightarrow> 'd list \<Rightarrow> 'd jpoint list" where
  "jquad_points qt data = map (\<lambda>(i, d). \<lparr>jp_data = d, jp_x = jq_x qt d i, jp_y = jq_y qt d i\<rparr>) (enumerate 0 data)"

definition jquadtree_build :: "'d jquadtree \<Rightarrow> 'd list \<Rightarrow> jarea \<times> 'd jquad option" where
  "jquadtree_build qt data =
     (let ps = jquad_points qt data; r = jroot_area qt (map (\<lambda>p. (jp_x p, jp_y p)) ps)
      in (r, foldl (\<lambda>t p. Option.bind t (\<lambda>n. jquad_insert n p r)) (Some jquad_node) ps))"

fun jquad_visit :: "('d jquad \<Rightarrow> jarea \<Rightarrow> bool) \<Rightarrow> 'd jquad \<Rightarrow> jarea \<Rightarrow> ('d jquad \<times> jarea) list" where
  "jquad_visit f (JQuad l p a b c d) r =
     (let sx = js_middle (j_x1 r) (j_x2 r); sy = js_middle (j_y1 r) (j_y2 r)
      in (JQuad l p a b c d, r) #
         (if f (JQuad l p a b c d) r then []
          else (case a of None \<Rightarrow> [] | Some n \<Rightarrow> jquad_visit f n (r\<lparr>j_x2 := sx, j_y2 := sy\<rparr>)) @
               (case b of None \<Rightarrow> [] | Some n \<Rightarrow> jquad_visit f n (r\<lparr>j_x1 := sx, j_y2 := sy\<rparr>)) @
               (case c of None \<Rightarrow> [] | Some n \<Rightarrow> jquad_visit f n (r\<lparr>j_y1 := sy, j_x2 := sx\<rparr>)) @
               (case d of None \<Rightarrow> [] | Some n \<Rightarrow> jquad_visit f n (r\<lparr>j_x1 := sx, j_y1 := sy\<rparr>))))"

section \<open>Finite coordinates\<close>

definition fin_point :: "'d qpoint \<Rightarrow> 'd jpoint" where
  "fin_point p = \<lparr>jp_data = qp_data p, jp_x = Fin (qp_x p), jp_y = Fin (qp_y p)\<rparr>"

definition fin_area :: "area \<Rightarrow> jarea" where
  "fin_area r = \<lparr>j_x1 = Fin (a_x1 r), j_y1 = Fin (a_y1 r), j_x2 = Fin (a_x2 r), j_y2 = Fin (a_y2 r)\<rparr>"

fun fin_quad :: "'d quad \<Rightarrow> 'd jquad" where
  "fin_quad (Quad l p a b c d) =
     JQuad l (map_option fin_point p) (map_option fin_quad a) (map_option fin_quad b) (map_option fin_quad c) (map_option fin_quad d)"

lemma fin_simps [simp]:
  "jp_x (fin_point p) = Fin (qp_x p)" "jp_y (fin_point p) = Fin (qp_y p)" "js_middle (Fin u) (Fin v) = Fin ((u + v) / 2)"
  "jq_leaf (fin_quad n) = q_leaf n" "jq_point (fin_quad n) = map_option fin_point (q_point n)" "fin_quad d3_geom_quadtreeNode = jquad_node"
  "jq_node (fin_quad n) i = map_option fin_quad (q_node n i)" "fin_quad (set_node n i c) = jset_node (fin_quad n) i (fin_quad c)"
  "fin_quad (set_point n x) = jset_point (fin_quad n) (map_option fin_point x)"
  by (cases n; simp add: fin_point_def js_middle_def d3_geom_quadtreeNode_def jquad_node_def)+

lemma fin_choice [simp]:
  "jquad_right (fin_point p) (fin_area r) = quad_right p r" "jquad_bottom (fin_point p) (fin_area r) = quad_bottom p r"
  "jquad_index (fin_point p) (fin_area r) = quad_index p r" "jquad_area (fin_point p) (fin_area r) = fin_area (quad_area p r)"
  "jquad_close (fin_point p) (fin_point q) = quad_close p q" "jquad_child (fin_quad n) (fin_point p) (fin_area r) = fin_quad (quad_child n p r)"
proof -
  show rb: "jquad_right (fin_point p) (fin_area r) = quad_right p r" "jquad_bottom (fin_point p) (fin_area r) = quad_bottom p r"
    by (auto simp: jquad_right_def jquad_bottom_def quad_right_def quad_bottom_def fin_area_def)
  show i: "jquad_index (fin_point p) (fin_area r) = quad_index p r" by (simp add: jquad_index_def quad_index_def rb)
  show "jquad_area (fin_point p) (fin_area r) = fin_area (quad_area p r)"
    unfolding jquad_area_def rb by (simp add: quad_area_def fin_area_def Let_def)
  show "jquad_close (fin_point p) (fin_point q) = quad_close p q" by (simp add: jquad_close_def quad_close_def)
  show "jquad_child (fin_quad n) (fin_point p) (fin_area r) = fin_quad (quad_child n p r)"
    by (simp add: jquad_child_def quad_child_def i split: option.split)
qed

lemma fin_insert:
  assumes "quad_insert n d r = Some n'"
  shows "jquad_insert (fin_quad n) (fin_point d) (fin_area r) = Some (fin_quad n')"
proof (rule quad_insert.raw_induct [where P = "\<lambda>n d r n'. jquad_insert (fin_quad n) (fin_point d) (fin_area r) = Some (fin_quad n')", OF _ assms])
  fix ins :: "'a quad \<Rightarrow> 'a qpoint \<Rightarrow> area \<Rightarrow> 'a quad option" and n :: "'a quad" and d :: "'a qpoint" and r :: area and n' :: "'a quad"
  assume IH: "\<And>n d r n'. ins n d r = Some n' \<Longrightarrow> jquad_insert (fin_quad n) (fin_point d) (fin_area r) = Some (fin_quad n')"
    and eq: "(if q_leaf n then
        (case q_point n of
           None \<Rightarrow> Some (set_point n (Some d))
         | Some p \<Rightarrow>
             if quad_close p d then
               Option.bind (ins (quad_child n d r) d (quad_area d r)) (\<lambda>c. Some (set_node n (quad_index d r) c))
             else
               Option.bind (ins (quad_child (set_point n None) p r) p (quad_area p r)) (\<lambda>c.
                 Option.bind
                   (ins (quad_child (set_node (set_point n None) (quad_index p r) c) d r) d (quad_area d r))
                   (\<lambda>c'. Some (set_node (set_node (set_point n None) (quad_index p r) c) (quad_index d r) c'))))
      else Option.bind (ins (quad_child n d r) d (quad_area d r)) (\<lambda>c. Some (set_node n (quad_index d r) c))) = Some n'"
  have child: "jquad_child (jset_point (fin_quad n) None) (fin_point p) (fin_area r) = fin_quad (quad_child (set_point n None) p r)"
    "jquad_child (jset_node (jset_point (fin_quad n) None) i (fin_quad c)) (fin_point p) (fin_area r) = fin_quad (quad_child (set_node (set_point n None) i c) p r)" for p i c
    using fin_choice(6) [of "set_point n None" p r] fin_choice(6) [of "set_node (set_point n None) i c" p r] by simp_all
  show "jquad_insert (fin_quad n) (fin_point d) (fin_area r) = Some (fin_quad n')"
  proof (cases "q_leaf n")
    case False
    then show ?thesis using eq IH by (subst jquad_insert.simps) (auto simp: bind_eq_Some_conv)
  next
    case leaf: True
    show ?thesis
    proof (cases "q_point n")
      case None
      then show ?thesis using eq leaf by (subst jquad_insert.simps) auto
    next
      case (Some p)
      show ?thesis
      proof (cases "quad_close p d")
        case True
        then show ?thesis using eq leaf Some IH by (subst jquad_insert.simps) (auto simp: bind_eq_Some_conv)
      next
        case False
        then obtain c c' where c: "ins (quad_child (set_point n None) p r) p (quad_area p r) = Some c"
          "ins (quad_child (set_node (set_point n None) (quad_index p r) c) d r) d (quad_area d r) = Some c'"
          "n' = set_node (set_node (set_point n None) (quad_index p r) c) (quad_index d r) c'"
          using eq leaf Some by (auto simp: bind_eq_Some_conv)
        then show ?thesis using leaf Some False IH [OF c(1)] IH [OF c(2)]
          by (subst jquad_insert.simps) (simp add: child)
      qed
    qed
  qed
qed

lemma fin_visit: "jquad_visit (\<lambda>n r. False) (fin_quad n) (fin_area r) = map (\<lambda>(n, r). (fin_quad n, fin_area r)) (d3_geom_quadtreeVisit (\<lambda>n r. False) n r)"
proof (induction n arbitrary: r)
  case (Quad l p a b c d)
  have up: "(fin_area r)\<lparr>j_x2 := Fin u, j_y2 := Fin v\<rparr> = fin_area (r\<lparr>a_x2 := u, a_y2 := v\<rparr>)"
    "(fin_area r)\<lparr>j_x1 := Fin u, j_y2 := Fin v\<rparr> = fin_area (r\<lparr>a_x1 := u, a_y2 := v\<rparr>)"
    "(fin_area r)\<lparr>j_y1 := Fin u, j_x2 := Fin v\<rparr> = fin_area (r\<lparr>a_y1 := u, a_x2 := v\<rparr>)"
    "(fin_area r)\<lparr>j_x1 := Fin u, j_y1 := Fin v\<rparr> = fin_area (r\<lparr>a_x1 := u, a_y1 := v\<rparr>)" for u v
    by (simp_all add: fin_area_def)
  have mid: "js_middle (j_x1 (fin_area r)) (j_x2 (fin_area r)) = Fin ((a_x1 r + a_x2 r) / 2)" "js_middle (j_y1 (fin_area r)) (j_y2 (fin_area r)) = Fin ((a_y1 r + a_y2 r) / 2)"
    by (simp_all add: fin_area_def)
  show ?case using Quad by (simp add: Let_def mid up split: option.split)
qed

section \<open>Building from finite coordinates\<close>

definition of_num :: "jsnum \<Rightarrow> real option" where
  "of_num x = (case x of Fin v \<Rightarrow> Some v | _ \<Rightarrow> None)"

definition not_infinite :: "jsnum \<Rightarrow> bool" where
  "not_infinite x \<longleftrightarrow> x \<noteq> PInf \<and> x \<noteq> NInf"

lemma not_infinite_cases: "not_infinite x \<Longrightarrow> (x = NaN \<and> of_num x = None) \<or> (\<exists>v. x = Fin v \<and> of_num x = Some v)"
  by (cases x) (auto simp: not_infinite_def of_num_def)

text \<open>The bounds: infinite in the wrong way before the first number.\<close>

definition fin_bounds :: "(real \<times> real) option \<Rightarrow> jsnum \<times> jsnum" where
  "fin_bounds b = (case b of None \<Rightarrow> (PInf, NInf) | Some (lo, hi) \<Rightarrow> (Fin lo, Fin hi))"

lemma fin_bound_step: "not_infinite x \<Longrightarrow> jbound_step (fin_bounds b) x = fin_bounds (bound_step b (of_num x))"
  using not_infinite_cases [of x] by (auto simp: jbound_step_def fin_bounds_def bound_step_def split: option.split)

lemma fin_bound_steps: "\<forall>x \<in> set xs. not_infinite x \<Longrightarrow> foldl jbound_step (fin_bounds b) xs = fin_bounds (foldl bound_step b (map of_num xs))"
  by (induction xs arbitrary: b) (simp_all add: fin_bound_step)

definition real_items :: "'d jpoint list \<Rightarrow> ('d \<times> real option \<times> real option) list" where
  "real_items ps = map (\<lambda>p. (jp_data p, of_num (jp_x p), of_num (jp_y p))) ps"

definition finite_point :: "'d jpoint \<Rightarrow> bool" where
  "finite_point p \<longleftrightarrow> not_infinite (jp_x p) \<and> not_infinite (jp_y p)"

definition numeric :: "'d jpoint \<Rightarrow> bool" where
  "numeric p \<longleftrightarrow> jp_x p \<noteq> NaN \<and> jp_y p \<noteq> NaN"

lemma real_item_cases:
  assumes "finite_point p"
  obtains "\<not> numeric p" "of_num (jp_x p) = None \<or> of_num (jp_y p) = None"
    | x y where "numeric p" "of_num (jp_x p) = Some x" "of_num (jp_y p) = Some y" "p = fin_point \<lparr>qp_data = jp_data p, qp_x = x, qp_y = y\<rparr>"
  using assms not_infinite_cases [of "jp_x p"] not_infinite_cases [of "jp_y p"] by (auto simp: finite_point_def numeric_def fin_point_def)

lemma item_points_Cons:
  "item_points ((d, x, y) # items) = (case (x, y) of (Some u, Some v) \<Rightarrow> [\<lparr>qp_data = d, qp_x = u, qp_y = v\<rparr>] | _ \<Rightarrow> []) @ item_points items"
  by (cases x; cases y) simp_all

lemma real_items_points: "\<forall>p \<in> set ps. finite_point p \<Longrightarrow> map fin_point (item_points (real_items ps)) = filter numeric ps"
proof (induction ps)
  case (Cons p ps)
  then have "finite_point p" by simp
  then show ?case using Cons by (cases rule: real_item_cases) (auto simp: real_items_def item_points_Cons split: option.split)
qed (simp add: real_items_def)

lemma quad_adds_None: "foldl (\<lambda>t (d, x, y). quad_add t d x y r) None items = None"
  by (induction items) (auto simp: quad_add_def split: option.split)

lemma jquad_skip: "\<not> numeric p \<Longrightarrow> jquad_insert n p r = Some n"
  by (subst jquad_insert.simps) (simp add: numeric_def)

lemma fin_build:
  assumes "\<forall>p \<in> set ps. finite_point p" "foldl (\<lambda>t (d, x, y). quad_add t d x y r) (Some n) (real_items ps) = Some n'"
    and "\<forall>p \<in> set ps. numeric p \<longrightarrow> jr = fin_area r"
  shows "foldl (\<lambda>t p. Option.bind t (\<lambda>n. jquad_insert n p jr)) (Some (fin_quad n)) ps = Some (fin_quad n')"
  using assms
proof (induction ps arbitrary: n)
  case (Cons p ps)
  have "finite_point p" using Cons.prems(1) by simp
  then show ?case
  proof (cases rule: real_item_cases)
    case 1
    then have "quad_add (Some n) (jp_data p) (of_num (jp_x p)) (of_num (jp_y p)) r = Some n" by auto
    then show ?thesis using Cons 1(1) by (simp add: real_items_def jquad_skip)
  next
    case (2 x y)
    let ?q = "\<lparr>qp_data = jp_data p, qp_x = x, qp_y = y\<rparr>"
    have add: "quad_add (Some n) (jp_data p) (of_num (jp_x p)) (of_num (jp_y p)) r = quad_insert n ?q r" by (simp add: quad_add_def 2(2,3))
    have items: "real_items (p # ps) = (jp_data p, of_num (jp_x p), of_num (jp_y p)) # real_items ps" by (simp add: real_items_def)
    have step: "foldl (\<lambda>t (d, x, y). quad_add t d x y r) (quad_insert n ?q r) (real_items ps) = Some n'"
      using Cons.prems(2) unfolding items by (simp add: add)
    have "quad_insert n ?q r \<noteq> None"
    proof
      assume "quad_insert n ?q r = None"
      from step [unfolded this quad_adds_None] show False by simp
    qed
    then obtain n1 where n1: "quad_insert n ?q r = Some n1" by blast
    have "jquad_insert (fin_quad n) p jr = Some (fin_quad n1)" using fin_insert [OF n1] 2(1) 2(4) [symmetric] Cons.prems(3) by simp
    moreover have "foldl (\<lambda>t (d, x, y). quad_add t d x y r) (Some n1) (real_items ps) = Some n'"
      using step n1 by simp
    ultimately show ?thesis using Cons.IH [of n1] Cons.prems by simp
  qed
qed (simp add: real_items_def)

lemma fin_square: "jsquare_area (fin_area r) = fin_area (square_area r)"
  by (auto simp: jsquare_area_def square_area_def fin_area_def Let_def)

lemma item_points_bounds:
  assumes "p \<in> set (item_points items)"
  obtains x1 x2 y1 y2 where "foldl bound_step None (map fst (map snd items)) = Some (x1, x2)" "foldl bound_step None (map snd (map snd items)) = Some (y1, y2)"
proof -
  have "Some (qp_x p) \<in> set (map fst (map snd items))" "Some (qp_y p) \<in> set (map snd (map snd items))"
    using item_points_mem [OF assms] by (simp_all only: set_map)
  then show ?thesis using that bound_steps_Some by (metis not_None_eq surj_pair)
qed

lemma fin_root_area:
  assumes "\<forall>p \<in> set ps. finite_point p" "jq_extent jqt = None" "qt_extent qt = None" "p \<in> set (item_points (real_items ps))"
  shows "jroot_area jqt (map (\<lambda>p. (jp_x p, jp_y p)) ps) = fin_area (root_area qt (map snd (real_items ps)))"
proof -
  have f: "\<forall>x \<in> set (map jp_x ps). not_infinite x" "\<forall>x \<in> set (map jp_y ps). not_infinite x" using assms(1) by (auto simp: finite_point_def)
  obtain x1 x2 y1 y2 where b: "foldl bound_step None (map fst (map snd (real_items ps))) = Some (x1, x2)" "foldl bound_step None (map snd (map snd (real_items ps))) = Some (y1, y2)"
    using assms(4) by (rule item_points_bounds)
  have "foldl jbound_step (PInf, NInf) (map jp_x ps) = (Fin x1, Fin x2)" "foldl jbound_step (PInf, NInf) (map jp_y ps) = (Fin y1, Fin y2)"
    using fin_bound_steps [OF f(1), of None] fin_bound_steps [OF f(2), of None] b by (simp_all add: fin_bounds_def real_items_def o_def)
  then have "jroot_area jqt (map (\<lambda>p. (jp_x p, jp_y p)) ps) = jsquare_area (fin_area \<lparr>a_x1 = x1, a_y1 = y1, a_x2 = x2, a_y2 = y2\<rparr>)"
    using assms(2) by (simp add: jroot_area_def fin_area_def o_def)
  then show ?thesis using b assms(3) by (simp add: fin_square root_area_def)
qed

definition jvisited_points :: "('d jquad \<times> jarea) list \<Rightarrow> 'd jpoint list" where
  "jvisited_points vs = concat (map (\<lambda>(n, r). case jq_point n of None \<Rightarrow> [] | Some p \<Rightarrow> [p]) vs)"

lemma fin_visited: "jvisited_points (map (\<lambda>(n, r). (fin_quad n, fin_area r)) vs) = map fin_point (visited_points vs)"
  by (induction vs) (auto simp: jvisited_points_def visited_points_def split: option.split)

definition jin_area :: "'d jpoint \<Rightarrow> jarea \<Rightarrow> bool" where
  "jin_area p r \<longleftrightarrow> num_le (j_x1 r) (jp_x p) \<and> num_le (jp_x p) (j_x2 r) \<and> num_le (j_y1 r) (jp_y p) \<and> num_le (jp_y p) (j_y2 r)"

lemma fin_in_area [simp]: "jin_area (fin_point p) (fin_area r) = in_area p r"
  by (auto simp: jin_area_def in_area_def fin_area_def)

lemma finite_build:
  assumes "\<forall>p \<in> set ps. finite_point p" "jq_extent jqt = None" "r = jroot_area jqt (map (\<lambda>p. (jp_x p, jp_y p)) ps)"
  shows "\<exists>n. foldl (\<lambda>t p. Option.bind t (\<lambda>n. jquad_insert n p r)) (Some jquad_node) ps = Some n \<and>
    mset (jvisited_points (jquad_visit (\<lambda>n s. False) n r)) = mset (filter numeric ps) \<and>
    (\<forall>m s p. (m, s) \<in> set (jquad_visit (\<lambda>n s. False) n r) \<longrightarrow> jq_point m = Some p \<longrightarrow> jin_area p s)"
proof (cases "item_points (real_items ps) = []")
  case True
  then have "filter numeric ps = []" using real_items_points [OF assms(1)] by simp
  then have "foldl (\<lambda>t p. Option.bind t (\<lambda>n. jquad_insert n p r)) (Some jquad_node) ps = Some jquad_node"
    by (induction ps) (auto simp: jquad_skip split: if_splits)
  then show ?thesis using \<open>filter numeric ps = []\<close> by (simp add: jquad_node_def jvisited_points_def Let_def)
next
  case False
  then obtain p where p: "p \<in> set (item_points (real_items ps))" by (meson ex_in_conv set_empty)
  define qt :: "'a quadtree" where "qt = \<lparr>qt_x = (\<lambda>d i. None), qt_y = (\<lambda>d i. None), qt_extent = None\<rparr>"
  define r' where "r' = root_area qt (map snd (real_items ps))"
  have r: "r = fin_area r'" using fin_root_area [OF assms(1,2) _ p, of qt] by (simp add: assms(3) r'_def qt_def)
  have "\<forall>p \<in> set (item_points (real_items ps)). in_area p r'" using root_area_holds [of qt] by (auto simp: r'_def qt_def)
  then obtain n where n: "foldl (\<lambda>t (d, x, y). quad_add t d x y r') (Some d3_geom_quadtreeNode) (real_items ps) = Some n" "quad_ok n r'"
      "quad_pts n = mset (item_points (real_items ps))"
    using build_loop [of d3_geom_quadtreeNode r' "real_items ps"] by auto
  have "foldl (\<lambda>t p. Option.bind t (\<lambda>n. jquad_insert n p r)) (Some jquad_node) ps = Some (fin_quad n)"
    using fin_build [OF assms(1) n(1), of r] r by simp
  moreover have "mset (jvisited_points (jquad_visit (\<lambda>n s. False) (fin_quad n) r)) = mset (filter numeric ps)"
    using visit_points [of n r'] n(3) real_items_points [OF assms(1)] unfolding r fin_visit fin_visited visited_points_def
    by (metis mset_map)
  moreover have "jin_area q s" if "(m, s) \<in> set (jquad_visit (\<lambda>n s. False) (fin_quad n) r)" "jq_point m = Some q" for m s q
    using that visit_areas [OF n(2)] unfolding r fin_visit by (auto simp: in_area_def)
  ultimately show ?thesis by blast
qed

section \<open>Properties\<close>

text \<open>
  (C25) Quadtrees.  Without an explicit extent, building a quadtree from points none of whose coordinates is infinite ends, whatever the points are, coincident
  ones and coordinates that are not a number included; visiting its nodes meets every point with two numeric coordinates exactly as often as it
  is in the data, and each in a node whose area contains it.
\<close>

theorem quadtree_holds_points:
  assumes "jq_extent qt = None" "jquadtree_build qt data = (r, t)"
    and "\<forall>p \<in> set (jquad_points qt data). not_infinite (jp_x p) \<and> not_infinite (jp_y p)"
  shows "\<exists>n. t = Some n \<and>
    mset (jvisited_points (jquad_visit (\<lambda>n s. False) n r)) = mset (filter (\<lambda>p. jp_x p \<noteq> NaN \<and> jp_y p \<noteq> NaN) (jquad_points qt data)) \<and>
    (\<forall>m s p. (m, s) \<in> set (jquad_visit (\<lambda>n s. False) n r) \<longrightarrow> jq_point m = Some p \<longrightarrow> jin_area p s)"
proof -
  have "\<forall>p \<in> set (jquad_points qt data). finite_point p" using assms(3) by (simp add: finite_point_def)
  moreover have "r = jroot_area qt (map (\<lambda>p. (jp_x p, jp_y p)) (jquad_points qt data))"
    "t = foldl (\<lambda>t p. Option.bind t (\<lambda>n. jquad_insert n p r)) (Some jquad_node) (jquad_points qt data)"
    using assms(2) by (auto simp: jquadtree_build_def Let_def)
  ultimately show ?thesis using finite_build [of "jquad_points qt data" qt r] assms(1) unfolding numeric_def by simp
qed

definition pair_tree :: "(jsnum \<times> jsnum) jquadtree" where
  "pair_tree = \<lparr>jq_x = (\<lambda>p i. fst p), jq_y = (\<lambda>p i. snd p), jq_extent = None\<rparr>"

theorem quadtree_holds_points_witness:
  "\<exists>n. snd (jquadtree_build pair_tree [(Fin 1, Fin 2), (Fin 1, Fin 2), (NaN, Fin 3), (Fin 8, Fin 9)]) = Some n"
proof -
  obtain r t where b: "jquadtree_build pair_tree [(Fin 1, Fin 2), (Fin 1, Fin 2), (NaN, Fin 3), (Fin 8, Fin 9)] = (r, t)" by fastforce
  have "jq_extent pair_tree = None" by (simp add: pair_tree_def)
  from quadtree_holds_points [OF this b] show ?thesis using b by (auto simp: pair_tree_def jquad_points_def not_infinite_def)
qed

section \<open>Infinite coordinates\<close>

text \<open>Two points that are not close and go to the same quadrant of an area that is the area of that quadrant again.\<close>

definition stuck_in :: "'d jpoint \<Rightarrow> 'd jpoint \<Rightarrow> jarea \<Rightarrow> bool" where
  "stuck_in p d r \<longleftrightarrow> numeric p \<and> numeric d \<and> \<not> jquad_close p d \<and> jquad_index p r = jquad_index d r \<and> jquad_area p r = r \<and> jquad_area d r = r"

definition jinsert_result :: "'d jquad \<Rightarrow> 'd jpoint \<Rightarrow> jarea \<Rightarrow> 'd jquad \<Rightarrow> bool" where
  "jinsert_result n d r n' \<longleftrightarrow> (n = jquad_node \<and> numeric d \<longrightarrow> n' = JQuad True (Some d) None None None None) \<and>
     \<not> (\<exists>p. n = JQuad True (Some p) None None None None \<and> stuck_in p d r)"

lemma jq_node_set: "i < 4 \<Longrightarrow> jq_node (jset_node n i c) i = Some c"
  by (cases n) (auto simp: numeral_eq_Suc less_Suc_eq)

lemma jquad_index_bound: "jquad_index p r < 4"
  by (simp add: jquad_index_def)

lemma jquad_insert_stuck:
  assumes "jquad_insert n d r = Some n'"
  shows "jinsert_result n d r n'"
proof (rule jquad_insert.raw_induct [where P = jinsert_result, OF _ assms])
  fix ins :: "'a jquad \<Rightarrow> 'a jpoint \<Rightarrow> jarea \<Rightarrow> 'a jquad option" and n :: "'a jquad" and d :: "'a jpoint" and r :: jarea and n' :: "'a jquad"
  assume IH: "\<And>n d r n'. ins n d r = Some n' \<Longrightarrow> jinsert_result n d r n'"
    and eq: "(if jp_x d = NaN \<or> jp_y d = NaN then Some n
      else if jq_leaf n then
        (case jq_point n of
           None \<Rightarrow> Some (jset_point n (Some d))
         | Some p \<Rightarrow>
             if jquad_close p d then
               Option.bind (ins (jquad_child n d r) d (jquad_area d r)) (\<lambda>c. Some (jset_node n (jquad_index d r) c))
             else
               Option.bind (ins (jquad_child (jset_point n None) p r) p (jquad_area p r)) (\<lambda>c.
                 Option.bind
                   (ins (jquad_child (jset_node (jset_point n None) (jquad_index p r) c) d r) d (jquad_area d r))
                   (\<lambda>c'. Some (jset_node (jset_node (jset_point n None) (jquad_index p r) c) (jquad_index d r) c'))))
      else Option.bind (ins (jquad_child n d r) d (jquad_area d r)) (\<lambda>c. Some (jset_node n (jquad_index d r) c))) = Some n'"
  have False if n: "n = JQuad True (Some p) None None None None" and st: "stuck_in p d r" for p
  proof -
    obtain c c' where c: "ins jquad_node p r = Some c" "ins (jquad_child (jset_node (jset_point n None) (jquad_index p r) c) d r) d r = Some c'"
    proof -
      have "jquad_child (jset_point n None) p r = jquad_node" by (simp add: jquad_child_def n)
      moreover have "jq_leaf n" "jq_point n = Some p" by (simp_all add: n)
      ultimately show ?thesis using that eq st unfolding stuck_in_def numeric_def by (auto simp: bind_eq_Some_conv)
    qed
    have "c = JQuad True (Some p) None None None None" using IH [OF c(1)] st by (simp add: jinsert_result_def stuck_in_def)
    moreover have "jquad_child (jset_node (jset_point n None) (jquad_index p r) c) d r = c"
      using st by (simp add: jquad_child_def stuck_in_def jq_node_set [OF jquad_index_bound])
    ultimately show False using IH [OF c(2)] st by (auto simp: jinsert_result_def)
  qed
  moreover have "n' = JQuad True (Some d) None None None None" if "n = jquad_node" "numeric d"
    using eq that by (simp add: jquad_node_def numeric_def)
  ultimately show "jinsert_result n d r n'" unfolding jinsert_result_def by blast
qed

text \<open>
  An infinite coordinate.  It makes the middle of the area infinite, so that two finite points that are not close stay in the same quadrant, which is the
  area again, and inserting them does not end.
\<close>

theorem quadtree_infinite_diverges:
  assumes "\<bar>x - u\<bar> + \<bar>y - v\<bar> \<ge> 1 / 100"
  shows "snd (jquadtree_build pair_tree [(Fin x, Fin y), (Fin u, Fin v), (PInf, Fin w)]) = None"
proof -
  let ?p = "\<lparr>jp_data = (Fin x, Fin y), jp_x = Fin x, jp_y = Fin y\<rparr>" and ?d = "\<lparr>jp_data = (Fin u, Fin v), jp_x = Fin u, jp_y = Fin v\<rparr>"
  let ?q = "\<lparr>jp_data = (PInf, Fin w), jp_x = PInf, jp_y = Fin w\<rparr>"
  define r where "r = jroot_area pair_tree [(Fin x, Fin y), (Fin u, Fin v), (PInf, Fin w)]"
  have pts: "jquad_points pair_tree [(Fin x, Fin y), (Fin u, Fin v), (PInf, Fin w)] = [?p, ?d, ?q]" by (simp add: jquad_points_def pair_tree_def)
  obtain a where bx: "foldl jbound_step (PInf, NInf) [Fin x, Fin u, PInf] = (Fin a, PInf)"
    by (cases "x < u"; cases "u < x") (simp_all add: jbound_step_def)
  obtain b c where bb: "foldl jbound_step (PInf, NInf) [Fin y, Fin v, Fin w] = (Fin b, Fin c)"
    using fin_bound_steps [of "[Fin y, Fin v, Fin w]" None] by (auto simp: fin_bounds_def not_infinite_def of_num_def bound_step_def split: if_splits)
  have r: "r = \<lparr>j_x1 = Fin a, j_y1 = Fin b, j_x2 = PInf, j_y2 = PInf\<rparr>"
    using bx bb by (simp add: r_def jroot_area_def pair_tree_def jsquare_area_def js_sub_def Let_def)
  have st: "stuck_in ?p ?d r" using assms
    by (auto simp: stuck_in_def numeric_def jquad_close_def jquad_index_def jquad_area_def jquad_right_def jquad_bottom_def js_middle_def r js_inf_def Let_def)
  have first: "jquad_insert jquad_node ?p r = Some (JQuad True (Some ?p) None None None None)"
    by (subst jquad_insert.simps) (simp add: jquad_node_def)
  have second: "jquad_insert (JQuad True (Some ?p) None None None None) ?d r = None"
    using jquad_insert_stuck [of "JQuad True (Some ?p) None None None None" ?d r] st
    by (cases "jquad_insert (JQuad True (Some ?p) None None None None) ?d r") (auto simp: jinsert_result_def)
  show ?thesis unfolding jquadtree_build_def pts Let_def by (simp add: r_def [symmetric] first second)
qed

theorem quadtree_infinite_diverges_witness:
  "snd (jquadtree_build pair_tree [(Fin 0, Fin 0), (Fin 1, Fin 1), (PInf, Fin 0)]) = None"
  by (rule quadtree_infinite_diverges) simp

end
