(* ===== verification/Spec2Isabelle.thy ===== *)
theory Spec2Isabelle
  imports D3_Arrays D3_Nest D3_Dispatch D3_Dsv D3_Timer D3_Interpolate D3_Ticks D3_Linear D3_Discrete
    D3_Layout_Facts D3_Treemap D3_TimeScale D3_Clip D3_Order D3_Transition D3_Force_Facts D3_Shape D3_Projection D3_Zoom
    D3_Resample D3_GeoMeasure D3_ClipExtent D3_Pack D3_Brush D3_QuadNumbers
begin

text \<open>
  A verification library for \<open>service_tornado/src/static/d3.js\<close>, the D3 visualisation library (version 3.4.3)
  that the repository's web service delivers.  It is the one JavaScript implementation file of the repository; the
  C++ libraries under \<open>base\<close>, the services around them and the Python request handlers are other programs.

  \<^bold>\<open>Parts and theories.\<close>  \<open>d3.js\<close> is one closure with groups of functions; each group has a theory, named lines are lines of \<open>d3.js\<close>.

  \<^item> \<open>JS_Prelude\<close>: what the code uses of the language: numbers with \<open>NaN\<close> and infinities, relational operators across
    types, conversions between strings and numbers, sorting with a comparator, arrays read out of range.
  \<^item> \<open>D3_Statistics\<close> (35-136) and \<open>D3_Arrays\<close> (137-220): statistics, bisection, shuffling, permuting, zipping, ranges.
  \<^item> \<open>D3_Map\<close> (170-187, 233-297, 361-383): the object wrappers \<open>d3.map\<close> and \<open>d3.set\<close> with their escaped keys; \<open>D3_Nest\<close>
    (298-360) groups data with them.
  \<^item> \<open>D3_Dispatch\<close> (406-473): named listeners; an event is a store of listener cells, because firing walks the array it had
    while listeners may be replaced.
  \<^item> \<open>D3_Dsv\<close> (1943-2033): reading and writing delimited text.
  \<^item> \<open>D3_Timer\<close> (2034-2105): the timer queue, a linked list in a store, with frames and timeouts as pending work.
  \<^item> \<open>D3_Color\<close> (1477-1844), \<open>D3_Format\<close> (2106-2247), \<open>D3_Interpolate\<close> (5581-5955): colours and their spaces, number formats,
    interpolators, easing and transforms.
  \<^item> \<open>D3_Scale\<close> (7341-7603, 7800-7823) with \<open>D3_Ticks\<close> and \<open>D3_Linear\<close> for its theorems, and \<open>D3_Discrete\<close> (7604-7799): the scales.
  \<^item> \<open>D3_Date\<close> (2248-2314), \<open>D3_Time\<close> (2315-2422, 9106-9144), \<open>D3_TimeFormat\<close> (2423-2739, 9094-9096) and \<open>D3_TimeScale\<close> (9145-9247):
    dates, time intervals, their text and scales over them.
  \<^item> \<open>D3_Layouts\<close> (5957-6109, 6482-6740) with \<open>D3_Layout_Facts\<close>, \<open>D3_Hierarchy\<close> (6360-6481, 7074-7133) \<open>D3_Treemap\<close> (7134-7306)
    and \<open>D3_Pack\<close> (6920-7073): the layouts.
  \<^item> \<open>D3_Quadtree\<close> (5452-5580) over finite coordinates and \<open>D3_QuadNumbers\<close> (the same lines) over all numbers, linked by a refinement, and \<open>D3_Force\<close> (6110-6359)
    with \<open>D3_Force_Facts\<close>: the quadtree and the force simulation that walks it.
  \<^item> \<open>D3_Geom\<close> (1182-1184, 4700-4778) and \<open>D3_Clip\<close> (4779-4803): hulls, polygons and clipping by a convex polygon.
  \<^item> \<open>D3_Selection\<close> with \<open>D3_Join\<close> and \<open>D3_Order\<close> (507-959): selections, the data join and the order of nodes in the document, which is a store of nodes;
    \<open>D3_Transition\<close> (960-982, 8440-8448, 8551-8660): the lock of a node and the callbacks of its transitions as a state machine over timers.
  \<^item> \<open>D3_Line\<close> (7871-8224) with \<open>D3_Line_Facts\<close>, and \<open>D3_Shape\<close> (7825-7870, 8225-8377): path generators, whose paths are arrays of strings and numbers.
  \<^item> \<open>D3_Zoom\<close> (1203-1467): the zoom behaviour as a state machine over mouse, wheel and touch events, and the interpolation of views;
    \<open>D3_Brush\<close> (8804-9093): the brush as a state machine over pointer and key events.
  \<^item> \<open>D3_Sphere\<close> (1178-1202, 2888-2917, 3730-3738, 4297-4343, 4400-4403, 4526-4539) and \<open>D3_Projection\<close> (3739-3764, 4215-4291, 4569-4687): spherical
    coordinates, rotations, distances, raw projections and projections.
  \<^item> \<open>D3_Stream\<close> (2783-2846, 3843-4027, 4106-4152, 4540-4568), \<open>D3_Resample\<close> (4028-4105, 4153-4160, 4193-4213), \<open>D3_GeoMeasure\<close> (2762-2782, 2847-2887, 3046-3135)
    and \<open>D3_ClipExtent\<close> (3524-3578, 3653-3714): geometries as sequences of calls on listeners, the listeners as states with a step
    for each call, and the streams between them.

  \<^bold>\<open>Correspondence.\<close>  A function of the source is a definition of its name where that is free, a closure with setters is a
  record of its variables with one operation per method, a method that mutates returns the new record.  Where
  arrays or objects are shared and written, the model has an explicit store: the domain array of a scale, the
  timers, the listeners.  Thrown errors are values of a sum or \<open>None\<close>; a loop that may not end is a partial function into
  \<open>option\<close>, and theorems state that it ends.  Random numbers, the time zone, accessor functions and callbacks are parameters.

  \<^bold>\<open>Interaction.\<close>  Nesting and sets use the map; delimited text collects its header with a set; ticks use ranges and bisection;
  discrete and time scales use the map, quantiles, bisection and the linear scale; formats of ticks use the number and
  the time format; treemaps, partitions, clusters and packs use the hierarchy; the force simulation uses the quadtree and the timer, transitions the
  timer and the lock of a node; projections compose rotations with raw projections; paths measure streams with the same sums as polygons.
  Contracts between them are locales: a comparator that makes sorting sort, a search predicate for bisection, an easing that stays in the unit interval, a
  time interval, an azimuthal projection, a listener for rings; each is interpreted on the library's own functions and the properties rest on those interpretations.

  \<^bold>\<open>What is proved.\<close>  Round trips: rows and objects through delimited text, colours through their text and
  through HSL, transforms through their decomposition, linear scales through inversion, dates through ISO text, points of the
  sphere through rotations, raw projections and whole projections.  Refinement and equivalence: the map refines a partial function, a sequence of listener
  changes refines a map of names, the keyed data join computes the join of sets, the forces over the quadtree without approximation are the direct sum, paths measure
  polygons as the polygon functions do, path data strokes what the canvas calls stroke.  Invariants and state machines: a queue with a timer at a finite time
  always has a frame or timeout pending; dispatch calls exactly the listeners registered when the event was fired; the lock of a node lets only the newest
  transition run, which completes; the zoom behaviour keeps its scale in the extent, its anchor under the pointer, and every end of a gesture
  after its start; the front chain of a packing never overlaps by more than the tolerance of the code; the extent of a brush stays in order and, while settled and clamped, in its range.  Geometry: hulls enclose, clipped polygons and lines are the part inside, the quadtree
  holds its points, splines pass through their points, streams stay well formed through resampling, areas of reversed polygons are
  complements.  Layouts: treemap cells fill their parent without overlap, packed circles lie in their parents and in the rectangle, partition and
  pie tile, bands do not overlap.  Time intervals: floor, ceiling and rounding give the right boundary and a range ends with exactly
  the boundaries that the calendar has in it.  Errors: the theorems named \<open>..._fails\<close>, \<open>..._failures\<close>, \<open>..._stalls\<close>, \<open>..._sleeps\<close>, \<open>..._throws\<close>, \<open>..._leaks\<close> and \<open>..._diverges\<close> show behaviour of the code that contradicts
  its purpose.

  \<^bold>\<open>Bounds and idealisations.\<close>  Doubles are exact reals with \<open>NaN\<close> and infinities where the code can reach them, without
  rounding errors and without negative zero; sorting is stable; strings are sequences of code units below 256; own properties
  are enumerated in insertion order.  Time values are unbounded integers.  The nesting of time templates is bounded by an argument,
  for which the English locale needs two; there is no other fuel.

  \<^bold>\<open>Not modelled.\<close>  The attributes, styles, texts and listeners of document nodes, the drawing of axes and brushes and requests over the network only call the
  browser, which is not part of the sources.  Clipping on the sphere, bounds across the antimeridian and Voronoi diagrams
  decide by floating point tolerances that exact reals do not show.  The tree layout threads contours through a mutable tree; string
  interpolation rests on regular expressions of the language; both, with circles and graticules on the sphere, would come next.
\<close>

end
